(* ===== verification/Prelude.thy ===== *)
theory Prelude
  imports Main "HOL-Library.List_Lexorder" "HOL-Library.Char_ord"
begin

text \<open>
  Shared ground of the development: the Go standard-library string operations the sources
  use, the collections the component proofs draw on, and generic list and map lemmas.

  A Go \<open>string\<close> is a sequence of bytes, so it is a HOL \<open>string\<close> (a list of 8-bit
  characters); \<open>len(s)\<close> is \<open>length\<close>, comparison with \<open><\<close> is the bytewise lexicographic order
  of \<open>List_Lexorder\<close> over \<open>Char_ord\<close>. The Unicode case tables of the Go release are data
  outside the repository: they are the record \<open>unicode\<close>, an argument of every
  function that folds case. What is defined here is how Go walks a byte string with them
  (UTF-8 decoding with replacement of malformed bytes, re-encoding, white space).
\<close>

named_theorems go_simps \<open>evaluation of the Go string operations\<close>

section \<open>Definitions\<close>

subsection \<open>UTF-8\<close>

text \<open>\<open>unicode.ToUpper\<close>, \<open>unicode.ToLower\<close> and the representative of a
  \<open>unicode.SimpleFold\<close> orbit, consulted for code points beyond ASCII.\<close>

record unicode =
  u_upper :: "nat \<Rightarrow> nat"
  u_lower :: "nat \<Rightarrow> nat"
  u_fold :: "nat \<Rightarrow> nat"

definition rune_error :: nat where
  "rune_error = 65533"

definition cont_byte :: "nat \<Rightarrow> bool" where
  "cont_byte b \<longleftrightarrow> 128 \<le> b \<and> b \<le> 191"

text \<open>The range the second byte of a sequence must lie in, which rules out overlong forms,
  surrogates and code points above U+10FFFF (\<open>utf8.acceptRanges\<close>).\<close>

definition second_ok :: "nat \<Rightarrow> nat \<Rightarrow> bool" where
  "second_ok b0 b1 \<longleftrightarrow>
     (if b0 = 224 then 160 \<le> b1 \<and> b1 \<le> 191
      else if b0 = 237 then 128 \<le> b1 \<and> b1 \<le> 159
      else if b0 = 240 then 144 \<le> b1 \<and> b1 \<le> 191
      else if b0 = 244 then 128 \<le> b1 \<and> b1 \<le> 143
      else cont_byte b1)"

text \<open>\<open>utf8.DecodeRuneInString\<close>: the rune at the front and its width in bytes.\<close>

fun decode_rune :: "nat list \<Rightarrow> nat \<times> nat" where
  "decode_rune [] = (rune_error, 0)"
| "decode_rune (b0 # bs) =
     (if b0 < 128 then (b0, 1)
      else case bs of
        b1 # bs1 \<Rightarrow>
          (if 194 \<le> b0 \<and> b0 \<le> 223 \<and> second_ok b0 b1 then ((b0 - 192) * 64 + (b1 - 128), 2)
           else case bs1 of
             b2 # bs2 \<Rightarrow>
               (if 224 \<le> b0 \<and> b0 \<le> 239 \<and> second_ok b0 b1 \<and> cont_byte b2
                then ((b0 - 224) * 4096 + (b1 - 128) * 64 + (b2 - 128), 3)
                else case bs2 of
                  b3 # _ \<Rightarrow>
                    (if 240 \<le> b0 \<and> b0 \<le> 244 \<and> second_ok b0 b1 \<and> cont_byte b2 \<and> cont_byte b3
                     then ((b0 - 240) * 262144 + (b1 - 128) * 4096 + (b2 - 128) * 64 + (b3 - 128), 4)
                     else (rune_error, 1))
                | [] \<Rightarrow> (rune_error, 1))
           | [] \<Rightarrow> (rune_error, 1))
      | [] \<Rightarrow> (rune_error, 1))"

text \<open>\<open>for _, r := range s\<close>: the runes of a string, malformed bytes read as U+FFFD.\<close>

fun rune_list :: "nat list \<Rightarrow> nat list" where
  "rune_list [] = []"
| "rune_list (b # bs) = fst (decode_rune (b # bs)) # rune_list (drop (snd (decode_rune (b # bs)) - 1) bs)"

definition runes :: "string \<Rightarrow> nat list" where
  "runes s = rune_list (map of_char s)"

definition encode_rune :: "nat \<Rightarrow> nat list" where
  "encode_rune r =
     (if r < 128 then [r]
      else if r < 2048 then [192 + r div 64, 128 + r mod 64]
      else if (55296 \<le> r \<and> r \<le> 57343) \<or> 1114111 < r then [239, 191, 189]
      else if r < 65536 then [224 + r div 4096, 128 + r div 64 mod 64, 128 + r mod 64]
      else [240 + r div 262144, 128 + r div 4096 mod 64, 128 + r div 64 mod 64, 128 + r mod 64])"

definition string_of_runes :: "nat list \<Rightarrow> string" where
  "string_of_runes rs = map char_of (concat (map encode_rune rs))"

definition upper_rune :: "unicode \<Rightarrow> nat \<Rightarrow> nat" where
  "upper_rune U r = (if r < 128 then (if 97 \<le> r \<and> r \<le> 122 then r - 32 else r) else u_upper U r)"

definition lower_rune :: "unicode \<Rightarrow> nat \<Rightarrow> nat" where
  "lower_rune U r = (if r < 128 then (if 65 \<le> r \<and> r \<le> 90 then r + 32 else r) else u_lower U r)"

definition fold_rune :: "unicode \<Rightarrow> nat \<Rightarrow> nat" where
  "fold_rune U r = (if r < 128 then (if 65 \<le> r \<and> r \<le> 90 then r + 32 else r) else u_fold U r)"

text \<open>\<open>strings.ToUpper\<close>, \<open>strings.ToLower\<close> and \<open>strings.EqualFold\<close>.\<close>

definition to_upper :: "unicode \<Rightarrow> string \<Rightarrow> string" where
  "to_upper U s = string_of_runes (map (upper_rune U) (runes s))"

definition to_lower :: "unicode \<Rightarrow> string \<Rightarrow> string" where
  "to_lower U s = string_of_runes (map (lower_rune U) (runes s))"

definition equal_fold :: "unicode \<Rightarrow> string \<Rightarrow> string \<Rightarrow> bool" where
  "equal_fold U s t \<longleftrightarrow> map (fold_rune U) (runes s) = map (fold_rune U) (runes t)"

subsection \<open>White space\<close>

text \<open>The width of the white-space rune (\<open>unicode.IsSpace\<close>) at the front of a byte
  sequence, 0 when there is none: the ASCII blanks, U+0085, U+00A0, U+1680, U+2000 to U+200A,
  U+2028, U+2029, U+202F, U+205F and U+3000.\<close>

fun space_width :: "nat list \<Rightarrow> nat" where
  "space_width [] = 0"
| "space_width (b # bs) =
     (if b = 32 \<or> (9 \<le> b \<and> b \<le> 13) then 1
      else case bs of
        [] \<Rightarrow> 0
      | b1 # bs1 \<Rightarrow>
          if b = 194 \<and> (b1 = 133 \<or> b1 = 160) then 2
          else case bs1 of
            [] \<Rightarrow> 0
          | b2 # _ \<Rightarrow>
              if (b = 225 \<and> b1 = 154 \<and> b2 = 128)
                \<or> (b = 226 \<and> b1 = 128 \<and> ((128 \<le> b2 \<and> b2 \<le> 138) \<or> b2 = 168 \<or> b2 = 169 \<or> b2 = 175))
                \<or> (b = 226 \<and> b1 = 129 \<and> b2 = 159)
                \<or> (b = 227 \<and> b1 = 128 \<and> b2 = 128)
              then 3 else 0)"

text \<open>The same at the end of a sequence, which is given reversed.\<close>

definition space_width_rev :: "nat list \<Rightarrow> nat" where
  "space_width_rev bs =
     (if space_width (take 1 bs) = 1 then 1
      else if space_width (rev (take 2 bs)) = 2 then 2
      else if space_width (rev (take 3 bs)) = 3 then 3 else 0)"

function trim_front :: "(nat list \<Rightarrow> nat) \<Rightarrow> nat list \<Rightarrow> nat list" where
  "trim_front w bs = (if bs = [] \<or> w bs = 0 then bs else trim_front w (drop (w bs) bs))"
  by pat_completeness auto
termination by (relation "measure (\<lambda>(w, bs). length bs)") auto

definition trim_space :: "string \<Rightarrow> string" where
  "trim_space s =
     map char_of (rev (trim_front space_width_rev (rev (trim_front space_width (map of_char s)))))"

subsection \<open>Prefixes, suffixes, splitting and joining\<close>

fun has_prefix :: "string \<Rightarrow> string \<Rightarrow> bool" where
  "has_prefix s [] = True"
| "has_prefix [] (_ # _) = False"
| "has_prefix (c # s) (p # ps) = (c = p \<and> has_prefix s ps)"

definition has_suffix :: "string \<Rightarrow> string \<Rightarrow> bool" where
  "has_suffix s p = has_prefix (rev s) (rev p)"

definition trim_suffix :: "string \<Rightarrow> string \<Rightarrow> string" where
  "trim_suffix s p = (if has_suffix s p then take (length s - length p) s else s)"

definition cut_prefix :: "string \<Rightarrow> string \<Rightarrow> string option" where
  "cut_prefix s p = (if has_prefix s p then Some (drop (length p) s) else None)"

text \<open>\<open>strings.TrimRight\<close> with a set of ASCII characters.\<close>

fun drop_while :: "('a \<Rightarrow> bool) \<Rightarrow> 'a list \<Rightarrow> 'a list" where
  "drop_while P [] = []"
| "drop_while P (x # xs) = (if P x then drop_while P xs else x # xs)"

definition trim_right :: "char set \<Rightarrow> string \<Rightarrow> string" where
  "trim_right cs s = rev (drop_while (\<lambda>c. c \<in> cs) (rev s))"

text \<open>\<open>strings.Split\<close> on a one-byte separator: always at least one piece.\<close>

fun split_on :: "char \<Rightarrow> string \<Rightarrow> string list" where
  "split_on d [] = [[]]"
| "split_on d (c # s) =
     (if c = d then [] # split_on d s
      else case split_on d s of
        [] \<Rightarrow> [[c]]
      | p # ps \<Rightarrow> (c # p) # ps)"

text \<open>\<open>strings.SplitN(s, d, 2)\<close> and \<open>strings.Cut\<close>.\<close>

fun cut_at :: "char \<Rightarrow> string \<Rightarrow> string \<times> string option" where
  "cut_at d [] = ([], None)"
| "cut_at d (c # s) =
     (if c = d then ([], Some s) else (c # fst (cut_at d s), snd (cut_at d s)))"

text \<open>\<open>strings.Join\<close>.\<close>

fun join :: "string \<Rightarrow> string list \<Rightarrow> string" where
  "join sep [] = []"
| "join sep [p] = p"
| "join sep (p # q # ps) = p @ sep @ join sep (q # ps)"

text \<open>\<open>strings.Index\<close>: the first position at which \<open>p\<close> occurs.\<close>

fun index_of :: "string \<Rightarrow> string \<Rightarrow> nat option" where
  "index_of s p =
     (if has_prefix s p then Some 0
      else case s of [] \<Rightarrow> None | _ # s' \<Rightarrow> map_option Suc (index_of s' p))"

declare trim_front.simps [simp del] index_of.simps [simp del]

definition CR :: char where "CR = CHR 0x0D"
definition LF :: char where "LF = CHR 0x0A"

text \<open>\<open>strings.ReplaceAll(s, "\r\n", "\n")\<close>.\<close>

fun crlf_to_lf :: "string \<Rightarrow> string" where
  "crlf_to_lf [] = []"
| "crlf_to_lf [c] = [c]"
| "crlf_to_lf (c # d # s) =
     (if c = CR \<and> d = LF then LF # crlf_to_lf s else c # crlf_to_lf (d # s))"

definition ascii :: "string \<Rightarrow> bool" where
  "ascii s \<longleftrightarrow> (\<forall>c \<in> set s. of_char c < (128 :: nat))"

text \<open>Upper and lower case of one ASCII character.\<close>

definition up_char :: "char \<Rightarrow> char" where
  "up_char c = (if 97 \<le> (of_char c :: nat) \<and> (of_char c :: nat) \<le> 122
     then char_of ((of_char c :: nat) - 32) else c)"

text \<open>Two case tables for closed examples: one that folds ASCII only, and one that also knows
  the Turkish dotless i (U+0131), whose upper case is the ASCII letter I.\<close>

definition unicode_ascii :: unicode where
  "unicode_ascii = \<lparr>u_upper = (\<lambda>r. r), u_lower = (\<lambda>r. r), u_fold = (\<lambda>r. r)\<rparr>"

definition unicode_turkish :: unicode where
  "unicode_turkish = unicode_ascii\<lparr>u_upper := (\<lambda>r. if r = 305 then 73 else r)\<rparr>"

section \<open>Lemmas\<close>

subsection \<open>ASCII text\<close>

lemma ascii_simps [simp]:
  "ascii []" "ascii (c # s) \<longleftrightarrow> of_char c < (128 :: nat) \<and> ascii s"
  "ascii (s @ t) \<longleftrightarrow> ascii s \<and> ascii t"
  by (auto simp: ascii_def)

lemma runes_Nil [simp]: "runes [] = []"
  by (simp add: runes_def)

lemma runes_ascii_Cons [simp]: "of_char c < (128 :: nat) \<Longrightarrow> runes (c # s) = of_char c # runes s"
  by (simp add: runes_def)

lemma to_upper_Nil [simp]: "to_upper U [] = []"
  by (simp add: to_upper_def string_of_runes_def)

lemma to_upper_ascii_Cons [simp]:
  "of_char c < (128 :: nat) \<Longrightarrow> to_upper U (c # s) = up_char c # to_upper U s"
  by (auto simp: to_upper_def string_of_runes_def upper_rune_def up_char_def encode_rune_def)

lemma to_upper_ascii_append: "ascii a \<Longrightarrow> to_upper U (a @ s) = map up_char a @ to_upper U s"
  by (induction a) auto

lemma to_upper_ascii: "ascii a \<Longrightarrow> to_upper U a = map up_char a"
  using to_upper_ascii_append [of a U "[]"] by simp

subsection \<open>Searching\<close>

lemma has_prefix_iff: "has_prefix s p \<longleftrightarrow> (\<exists>t. s = p @ t)"
  by (induction s p rule: has_prefix.induct) auto

lemma has_prefix_append [simp]: "has_prefix (p @ t) p"
  by (simp add: has_prefix_iff)

lemma index_of_None_iff: "index_of s p = None \<longleftrightarrow> (\<nexists>a b. s = a @ p @ b)"
proof (induction s)
  case Nil
  then show ?case by (simp add: index_of.simps has_prefix_iff)
next
  case (Cons c s)
  have "(\<exists>a b. c # s = a @ p @ b) \<longleftrightarrow> has_prefix (c # s) p \<or> (\<exists>a b. s = a @ p @ b)"
  proof
    assume "\<exists>a b. c # s = a @ p @ b"
    then obtain a b where ab: "c # s = a @ p @ b" by blast
    then show "has_prefix (c # s) p \<or> (\<exists>a b. s = a @ p @ b)"
    proof (cases a)
      case Nil
      with ab show ?thesis by (simp add: has_prefix_iff)
    next
      case (Cons x a')
      with ab have "s = a' @ p @ b" by simp
      then show ?thesis by blast
    qed
  next
    assume "has_prefix (c # s) p \<or> (\<exists>a b. s = a @ p @ b)"
    then show "\<exists>a b. c # s = a @ p @ b"
    proof
      assume "has_prefix (c # s) p"
      then obtain t where "c # s = [] @ p @ t" by (auto simp: has_prefix_iff)
      then show ?thesis by blast
    next
      assume "\<exists>a b. s = a @ p @ b"
      then obtain a b where "c # s = (c # a) @ p @ b" by auto
      then show ?thesis by blast
    qed
  qed
  with Cons.IH show ?case by (auto simp: index_of.simps [of "c # s"])
qed

lemma index_of_first:
  assumes "\<And>a' b'. a @ p @ b = a' @ p @ b' \<Longrightarrow> length a \<le> length a'"
  shows "index_of (a @ p @ b) p = Some (length a)"
  using assms
proof (induction a)
  case Nil
  then show ?case by (simp add: index_of.simps [of "p @ b"])
next
  case (Cons c a)
  have "\<not> has_prefix ((c # a) @ p @ b) p"
  proof
    assume "has_prefix ((c # a) @ p @ b) p"
    then obtain t where "(c # a) @ p @ b = [] @ p @ t" by (auto simp: has_prefix_iff)
    then show False using Cons.prems by fastforce
  qed
  moreover have "index_of (a @ p @ b) p = Some (length a)"
  proof (rule Cons.IH)
    fix a' b' assume "a @ p @ b = a' @ p @ b'"
    then have "(c # a) @ p @ b = (c # a') @ p @ b'" by simp
    then show "length a \<le> length a'" using Cons.prems by fastforce
  qed
  ultimately show ?case by (simp add: index_of.simps [of "c # a @ p @ b"])
qed

subsection \<open>Trimming\<close>

lemma space_width_rev_bound:
  assumes "space_width_rev (xs @ y # ys) > length xs"
  shows "y = 32 \<or> (9 \<le> y \<and> y \<le> 13) \<or> 128 \<le> y"
proof (rule ccontr)
  assume y: "\<not> ?thesis"
  have 1: "xs = [] \<Longrightarrow> space_width (take 1 (xs @ y # ys)) = 0" using y by simp
  have 2: "length xs \<le> 1 \<Longrightarrow> space_width (rev (take 2 (xs @ y # ys))) \<noteq> 2"
    using y by (cases xs; cases ys) (auto split: if_splits)
  have 3: "length xs \<le> 2 \<Longrightarrow> space_width (rev (take 3 (xs @ y # ys))) \<noteq> 3"
  proof -
    assume "length xs \<le> 2"
    then consider "xs = []" | a where "xs = [a]" | a b where "xs = [a, b]"
      by (cases xs; cases "tl xs") (auto simp: neq_Nil_conv, (cases "tl (tl xs)"; auto)?)
    then show ?thesis
      using y by cases (cases ys; cases "tl ys"; auto split: if_splits)+
  qed
  show False using assms 1 2 3
    by (cases "length xs"; cases "length xs - 1"; cases "length xs - 2")
      (auto simp: space_width_rev_def split: if_splits)
qed

lemma trim_front_keeps:
  assumes "\<And>xs. w (xs @ y # ys) \<le> length xs"
  shows "\<exists>t. trim_front w (xs @ y # ys) = t @ y # ys"
proof (induction "length xs" arbitrary: xs rule: less_induct)
  case less
  show ?case
  proof (cases "w (xs @ y # ys) = 0")
    case True
    then show ?thesis by (subst trim_front.simps) auto
  next
    case False
    let ?k = "w (xs @ y # ys)"
    have k: "?k \<le> length xs" by (rule assms)
    with False have "length (drop ?k xs) < length xs" by auto
    then obtain t where "trim_front w (drop ?k xs @ y # ys) = t @ y # ys"
      using less by blast
    with False k show ?thesis by (subst trim_front.simps) auto
  qed
qed

text \<open>Trimming leaves a prefix that starts and ends with visible ASCII characters alone.\<close>

definition visible :: "char \<Rightarrow> bool" where
  "visible c \<longleftrightarrow> 32 < (of_char c :: nat) \<and> (of_char c :: nat) < 128"

lemma trim_space_visible_prefix:
  assumes "visible c" "visible d"
  shows "\<exists>t. trim_space (c # a @ d # s) = c # a @ d # t"
proof -
  let ?b = "map of_char :: string \<Rightarrow> nat list"
  have front: "trim_front space_width (?b (c # a @ d # s)) = ?b (c # a @ d # s)"
    using assms by (subst trim_front.simps) (auto simp: visible_def split: list.splits)
  have "space_width_rev (xs @ of_char d # ?b (rev a @ [c])) \<le> length xs" for xs
    using space_width_rev_bound [of xs "of_char d" "?b (rev a @ [c])"] assms
    by (cases "length xs < space_width_rev (xs @ of_char d # ?b (rev a @ [c]))")
      (auto simp: visible_def)
  then obtain t where
    "trim_front space_width_rev (?b (rev s) @ of_char d # ?b (rev a @ [c])) = t @ of_char d # ?b (rev a @ [c])"
    using trim_front_keeps [of space_width_rev "of_char d" "?b (rev a @ [c])" "?b (rev s)"] by blast
  then have "trim_space (c # a @ d # s) = c # a @ d # map char_of (rev t)"
    by (simp add: trim_space_def front rev_map del: list.map)
      (simp add: rev_map [symmetric] comp_def)
  then show ?thesis by blast
qed

lemma trim_space_id:
  assumes "s \<noteq> []" "visible (hd s)" "visible (last s)"
  shows "trim_space s = s"
proof -
  let ?b = "map of_char :: string \<Rightarrow> nat list"
  obtain c a where c: "s = c # a" using assms(1) by (cases s) auto
  obtain i d where d: "s = i @ [d]" using assms(1) by (cases s rule: rev_cases) auto
  have front: "trim_front space_width (?b s) = ?b s"
    using assms by (subst trim_front.simps) (auto simp: c visible_def split: list.splits)
  have "space_width_rev (of_char d # ?b (rev i)) = 0"
    using space_width_rev_bound [of "[]" "of_char d" "?b (rev i)"] assms
    by (cases "space_width_rev (of_char d # ?b (rev i))") (auto simp: d visible_def)
  then have "trim_front space_width_rev (rev (?b s)) = rev (?b s)"
    by (subst trim_front.simps) (simp add: d rev_map)
  then show ?thesis by (simp add: trim_space_def front comp_def)
qed

lemma trim_space_Nil [simp]: "trim_space [] = []"
  by (simp add: trim_space_def trim_front.simps)

lemmas go_eval [go_simps] = trim_space_id visible_def up_char_def char_of_eq_iff CR_def LF_def

text \<open>Splitting on a separator.\<close>

lemma split_on_not_Nil [simp]: "split_on d s \<noteq> []"
  by (cases s) (auto split: list.split)

lemma split_on_none: "d \<notin> set s \<Longrightarrow> split_on d s = [s]"
  by (induction s) auto

lemma split_on_append: "split_on d (a @ d # s) = split_on d a @ split_on d s"
  by (induction a) (auto split: list.split simp: Cons_eq_append_conv)

lemma split_on_first: "d \<notin> set p \<Longrightarrow> split_on d (p @ d # s) = p # split_on d s"
  by (induction p) auto

lemma split_on_pieces: "c \<in> set (split_on d s) \<Longrightarrow> d \<notin> set c"
  by (induction s arbitrary: c) (auto split: if_splits list.splits)

end
