(* ===== verification/VCardText.thy ===== *)
theory VCardText
  imports Prelude
begin

text \<open>
  The text layer of the vCard package: \<open>internal/vcard/split.go\<close> (\<open>splitLines\<close>,
  \<open>SplitVCards\<close>, \<open>InjectUID\<close>) and \<open>internal/vcard/terminate.go\<close> (\<open>Terminated\<close>).
  The scanning loop of \<open>SplitVCards\<close> is the tail-recursive \<open>split_loop\<close> over the lines, its
  local variables as arguments.
\<close>

section \<open>Definitions\<close>

abbreviation CRLF :: string where
  "CRLF \<equiv> [CR, LF]"

text \<open>\<open>splitLines\<close>: break on CRLF, LF (and a CR just before the break), dropping the
  terminators and one empty last line.\<close>

definition splitLines :: "string \<Rightarrow> string list" where
  "splitLines data =
     (if data = [] then []
      else let lines = map (\<lambda>line. trim_suffix line [CR]) (split_on LF (crlf_to_lf data))
           in if lines \<noteq> [] \<and> last lines = [] then butlast lines else lines)"

definition is_begin :: "unicode \<Rightarrow> string \<Rightarrow> bool" where
  "is_begin U line = has_prefix (to_upper U (trim_space line)) ''BEGIN:VCARD''"

definition is_end :: "unicode \<Rightarrow> string \<Rightarrow> bool" where
  "is_end U line = has_prefix (to_upper U (trim_space line)) ''END:VCARD''"

text \<open>The loop of \<open>SplitVCards\<close>: \<open>inCard\<close>, the builder \<open>current\<close> and the
  \<open>cards\<close> emitted so far; a card still open at the end of the input is emitted too.\<close>

fun split_loop :: "unicode \<Rightarrow> string list \<Rightarrow> bool \<Rightarrow> string \<Rightarrow> string list \<Rightarrow> string list" where
  "split_loop U [] inCard current cards = (if inCard then cards @ [current] else cards)"
| "split_loop U (line # lines) inCard current cards =
     (let inCard1 = (is_begin U line \<or> inCard);
          current1 = (if is_begin U line then [] else current);
          current2 = (if inCard1 then current1 @ line @ CRLF else current1)
      in if is_end U line
         then split_loop U lines False current2 (if inCard1 then cards @ [current2] else cards)
         else split_loop U lines inCard1 current2 cards)"

definition SplitVCards :: "unicode \<Rightarrow> string \<Rightarrow> string list" where
  "SplitVCards U data = split_loop U (splitLines data) False [] []"

definition has_uid_line :: "unicode \<Rightarrow> string \<Rightarrow> bool" where
  "has_uid_line U line = has_prefix (to_upper U (trim_space line)) ''UID:''"

text \<open>\<open>InjectUID\<close>: the index is found in the upper-cased text and used to cut the
  original text, as in the source. Cutting past the end of \<open>data\<close> panics in Go: that is
  the value \<open>None\<close>.\<close>

definition InjectUID :: "unicode \<Rightarrow> string \<Rightarrow> string \<Rightarrow> string option" where
  "InjectUID U data uid =
     (if \<exists>line \<in> set (splitLines data). has_uid_line U line then Some data
      else let insertLine = ''UID:'' @ uid @ CRLF
           in case index_of (to_upper U data) ''END:VCARD'' of
                Some idx \<Rightarrow>
                  if idx \<le> length data then Some (take idx data @ insertLine @ drop idx data)
                  else None
              | None \<Rightarrow> Some (data @ insertLine))"

definition Terminated :: "string \<Rightarrow> string" where
  "Terminated text =
     (let trimmed = trim_right {CR, LF} text in if trimmed = [] then [] else trimmed @ CRLF)"

text \<open>A stored card as its writers leave it: the terminated lines of one
  \<open>BEGIN:VCARD\<close> \dots \<open>END:VCARD\<close> block.\<close>

definition plain_line :: "string \<Rightarrow> bool" where
  "plain_line line \<longleftrightarrow> CR \<notin> set line \<and> LF \<notin> set line"

definition unlines :: "string list \<Rightarrow> string" where
  "unlines lines = concat (map (\<lambda>line. line @ CRLF) lines)"

definition card_lines :: "unicode \<Rightarrow> string list \<Rightarrow> bool" where
  "card_lines U lines \<longleftrightarrow>
     (\<exists>b inner e. lines = b # inner @ [e] \<and> is_begin U b \<and> \<not> is_end U b
        \<and> is_end U e \<and> \<not> is_begin U e
        \<and> (\<forall>l \<in> set inner. \<not> is_begin U l \<and> \<not> is_end U l)
        \<and> (\<forall>l \<in> set lines. plain_line l))"

text \<open>A card as it may sit in the database: complete, its final terminator possibly
  trimmed away or doubled by an older import.\<close>

definition stored_card :: "unicode \<Rightarrow> string \<Rightarrow> bool" where
  "stored_card U text \<longleftrightarrow> (\<exists>lines. card_lines U lines \<and> Terminated text = unlines lines)"

section \<open>Lemmas\<close>

lemma CR_neq_LF [simp]: "CR \<noteq> LF" "LF \<noteq> CR"
  by (simp_all add: CR_def LF_def)

lemma crlf_to_lf_no_cr: "CR \<notin> set s \<Longrightarrow> crlf_to_lf s = s"
  by (induction s rule: crlf_to_lf.induct) auto

lemma crlf_to_lf_plain:
  "CR \<notin> set p \<Longrightarrow> crlf_to_lf (p @ CR # LF # s) = p @ LF # crlf_to_lf s"
proof (induction p)
  case (Cons c p)
  then show ?case by (cases p) auto
qed simp

lemma trim_suffix_cr_plain: "CR \<notin> set line \<Longrightarrow> trim_suffix line [CR] = line"
  by (cases line rule: rev_cases) (auto simp: trim_suffix_def has_suffix_def)

lemma crlf_to_lf_unlines:
  "\<forall>l \<in> set lines. plain_line l \<Longrightarrow>
   crlf_to_lf (unlines lines) = concat (map (\<lambda>l. l @ [LF]) lines)"
  by (induction lines) (auto simp: unlines_def plain_line_def crlf_to_lf_plain)

lemma split_on_lf_lines:
  "\<forall>l \<in> set lines. plain_line l \<Longrightarrow>
   split_on LF (concat (map (\<lambda>l. l @ [LF]) lines)) = lines @ [[]]"
  by (induction lines) (auto simp: plain_line_def split_on_first)

text \<open>\<open>splitLines\<close> undoes the terminators the writers put.\<close>

lemma splitLines_unlines:
  assumes "\<forall>l \<in> set lines. plain_line l"
  shows "splitLines (unlines lines) = lines"
proof (cases "lines = []")
  case False
  have "map (\<lambda>line. trim_suffix line [CR]) (lines @ [[]]) = lines @ [[]]"
    using assms by (auto simp: plain_line_def trim_suffix_cr_plain map_idI)
  moreover have "unlines lines \<noteq> []"
    using False by (cases lines) (auto simp: unlines_def)
  ultimately show ?thesis
    using assms by (simp add: splitLines_def crlf_to_lf_unlines split_on_lf_lines Let_def)
qed (simp add: splitLines_def unlines_def)

lemma unlines_append [simp]: "unlines (xs @ ys) = unlines xs @ unlines ys"
  by (simp add: unlines_def)

lemma unlines_Cons: "unlines (l # ls) = l @ CRLF @ unlines ls"
  by (simp add: unlines_def)

lemma split_loop_inner:
  "\<forall>l \<in> set inner. \<not> is_begin U l \<and> \<not> is_end U l \<Longrightarrow>
   split_loop U (inner @ rest) True current cards =
     split_loop U rest True (current @ unlines inner) cards"
  by (induction inner arbitrary: current) (auto simp: unlines_def Let_def)

lemma split_loop_card:
  assumes "card_lines U lines"
  shows "split_loop U (lines @ rest) False current cards =
    split_loop U rest False (unlines lines) (cards @ [unlines lines])"
proof -
  from assms obtain b inner e where
    lines: "lines = b # inner @ [e]" and be: "is_begin U b" "\<not> is_end U b" "is_end U e" "\<not> is_begin U e"
    and inner: "\<forall>l \<in> set inner. \<not> is_begin U l \<and> \<not> is_end U l"
    by (auto simp: card_lines_def)
  have "split_loop U (lines @ rest) False current cards =
    split_loop U (inner @ e # rest) True (b @ CRLF) cards"
    using be by (simp add: lines Let_def)
  also have "\<dots> = split_loop U (e # rest) True ((b @ CRLF) @ unlines inner) cards"
    by (rule split_loop_inner [OF inner])
  finally show ?thesis
    using be by (simp add: lines Let_def unlines_Cons unlines_def)
qed

lemma split_loop_cards:
  assumes "\<forall>lines \<in> set css. card_lines U lines"
  shows "split_loop U (concat css) False current cards = cards @ map unlines css"
  using assms by (induction css arbitrary: current cards) (auto simp: split_loop_card)

lemma SplitVCards_unlines:
  assumes "\<forall>lines \<in> set css. card_lines U lines"
  shows "SplitVCards U (unlines (concat css)) = map unlines css"
proof -
  have "\<forall>l \<in> set (concat css). plain_line l"
    using assms by (fastforce simp: card_lines_def)
  then show ?thesis
    using assms by (simp add: SplitVCards_def splitLines_unlines split_loop_cards)
qed

subsection \<open>Terminators\<close>

lemma drop_while_idem [simp]: "drop_while P (drop_while P xs) = drop_while P xs"
  by (induction xs) auto

lemma drop_while_append_all: "\<forall>x \<in> set xs. P x \<Longrightarrow> drop_while P (xs @ ys) = drop_while P ys"
  by (induction xs) auto

lemma trim_right_append_all: "set t \<subseteq> cs \<Longrightarrow> trim_right cs (s @ t) = trim_right cs s"
  by (auto simp: trim_right_def intro!: drop_while_append_all)

lemma trim_right_idem [simp]: "trim_right cs (trim_right cs s) = trim_right cs s"
  by (simp add: trim_right_def)

lemma Terminated_trimmed: "Terminated (trim_right {CR, LF} text) = Terminated text"
  by (simp add: Terminated_def)

lemma Terminated_idem: "Terminated (Terminated text) = Terminated text"
  by (simp add: Terminated_def Let_def trim_right_append_all trim_right_def [of _ "[]"])

lemma Terminated_unlines:
  assumes "lines \<noteq> []" and "plain_line (last lines)" and "last lines \<noteq> []"
  shows "Terminated (unlines lines) = unlines lines"
proof -
  obtain init l where lines: "lines = init @ [l]"
    using assms(1) by (cases lines rule: rev_cases) auto
  obtain l' c where l: "l = l' @ [c]" and c: "c \<noteq> CR" "c \<noteq> LF"
    using assms by (cases l rule: rev_cases) (auto simp: lines plain_line_def)
  have "trim_right {CR, LF} (unlines lines) = unlines init @ l"
    using c by (simp add: lines unlines_def trim_right_append_all [of CRLF, simplified])
      (simp add: l trim_right_def)
  then show ?thesis
    by (simp add: Terminated_def Let_def lines l unlines_def)
qed

lemma is_end_nonempty: "is_end U l \<Longrightarrow> l \<noteq> []"
  by (auto simp: is_end_def trim_space_def trim_front.simps to_upper_def runes_def string_of_runes_def)

lemma stored_card_unlines: "card_lines U lines \<Longrightarrow> stored_card U (unlines lines)"
  unfolding stored_card_def card_lines_def
  by (rule exI [of _ lines]) (auto simp: is_end_nonempty intro!: Terminated_unlines)

lemma stored_card_trimmed:
  "stored_card U text \<Longrightarrow> stored_card U (trim_right {CR, LF} text)"
  by (simp add: stored_card_def Terminated_trimmed)

lemma concat_Terminated_unlines:
  assumes "\<forall>text \<in> set texts. stored_card U text"
  shows "\<exists>css. (\<forall>lines \<in> set css. card_lines U lines) \<and> map unlines css = map Terminated texts"
  using assms
proof (induction texts)
  case Nil
  show ?case by (rule exI [of _ "[]"]) simp
next
  case (Cons t ts)
  then obtain css where "\<forall>lines \<in> set css. card_lines U lines" "map unlines css = map Terminated ts"
    by auto
  moreover obtain lines where "card_lines U lines" "Terminated t = unlines lines"
    using Cons.prems by (auto simp: stored_card_def)
  ultimately show ?case by (intro exI [of _ "lines # css"]) auto
qed

lemma concat_map_unlines: "concat (map unlines css) = unlines (concat css)"
  by (induction css) (auto simp: unlines_def)

lemma split_terminated:
  assumes "\<forall>text \<in> set texts. stored_card U text"
  shows "SplitVCards U (concat (map Terminated texts)) = map Terminated texts"
proof -
  obtain css where css: "\<forall>lines \<in> set css. card_lines U lines" "map unlines css = map Terminated texts"
    using concat_Terminated_unlines [OF assms] by blast
  have "concat (map Terminated texts) = unlines (concat css)"
    by (simp only: css(2) [symmetric] concat_map_unlines)
  then show ?thesis
    using SplitVCards_unlines [OF css(1)] css(2) by simp
qed

text \<open>C27: writing stored cards one after another through \<open>Terminated\<close> (what a backup
  and an export do) and cutting the result apart with \<open>SplitVCards\<close> gives back exactly
  those cards, in order, whether or not a stored card had lost its trailing line break.\<close>

theorem terminated_split_roundtrip:
  assumes "\<forall>text \<in> set texts. stored_card U text"
  shows "SplitVCards U (concat (map Terminated texts)) = map Terminated texts"
  using assms by (rule split_terminated)

subsection \<open>Inserting a UID\<close>

lemma occurrence_after_lines:
  assumes "\<forall>l \<in> set ls. index_of l p = None" and "CR \<notin> set p" "LF \<notin> set p" "p \<noteq> []"
    and "unlines ls @ p @ b = a' @ p @ b'"
  shows "length (unlines ls) \<le> length a'"
  using assms(1,5)
proof (induction ls arbitrary: a')
  case Nil
  then show ?case by (simp add: unlines_def)
next
  case (Cons l ls)
  let ?rest = "unlines ls @ p @ b"
  from assms(2-4) obtain q qs where p: "p = q # qs" "q \<noteq> CR" "q \<noteq> LF"
    by (cases p) auto
  from Cons.prems(2) have eq: "l @ CR # LF # ?rest = a' @ p @ b'"
    by (simp add: unlines_Cons)
  then obtain us where
    "(l = a' @ us \<and> us @ CR # LF # ?rest = p @ b') \<or> (l @ us = a' \<and> CR # LF # ?rest = us @ p @ b')"
    by (auto simp: append_eq_append_conv2)
  then show ?case
  proof
    assume us: "l = a' @ us \<and> us @ CR # LF # ?rest = p @ b'"
    then obtain vs where "(us = p @ vs) \<or> (us @ vs = p \<and> CR # LF # ?rest = vs @ b')"
      by (auto simp: append_eq_append_conv2)
    then show ?thesis
    proof
      assume "us = p @ vs"
      with us have "l = a' @ p @ vs" by simp
      then have "index_of l p \<noteq> None" by (auto simp: index_of_None_iff)
      with Cons.prems(1) show ?thesis by simp
    next
      assume vs: "us @ vs = p \<and> CR # LF # ?rest = vs @ b'"
      with assms(2) show ?thesis
      proof (cases vs)
        case Nil
        with us vs have "l = a' @ p @ []" by simp
        then have "index_of l p \<noteq> None" by (auto simp only: index_of_None_iff)
        with Cons.prems(1) show ?thesis by simp
      qed auto
    qed
  next
    assume us: "l @ us = a' \<and> CR # LF # ?rest = us @ p @ b'"
    with p obtain us' where us': "us = CR # us'" by (cases us) auto
    with us p obtain a'' where a'': "us' = LF # a''" by (cases us') auto
    with us us' have "?rest = a'' @ p @ b'" by simp
    then have "length (unlines ls) \<le> length a''"
      using Cons.IH Cons.prems(1) by simp
    with us us' a'' show ?thesis by (auto simp: unlines_Cons)
  qed
qed

lemma index_of_after_lines:
  assumes "\<forall>l \<in> set ls. index_of l p = None" and "CR \<notin> set p" "LF \<notin> set p" "p \<noteq> []"
  shows "index_of (unlines ls @ p @ b) p = Some (length (unlines ls))"
  by (rule index_of_first) (rule occurrence_after_lines [OF assms])

lemma up_char_CRLF [simp]: "up_char CR = CR" "up_char LF = LF"
  by (simp_all add: up_char_def CR_def LF_def)

lemma map_up_char_unlines: "map up_char (unlines ls) = unlines (map (map up_char) ls)"
  by (induction ls) (auto simp: unlines_def)

lemma ascii_unlines: "\<forall>l \<in> set ls. ascii l \<Longrightarrow> ascii (unlines ls)"
  by (induction ls) (auto simp: unlines_def CR_def LF_def)

lemma map_up_char_END [simp]: "map up_char ''END:VCARD'' = ''END:VCARD''"
  by (simp add: up_char_def)

lemma has_uid_line_UID: "has_uid_line U (''UID:'' @ uid)"
proof -
  obtain t where "trim_space (''UID:'' @ uid) = ''UID:'' @ t"
    using trim_space_visible_prefix [of "CHR ''U''" "CHR '':''" "''ID''" uid]
    by (auto simp: visible_def)
  then show ?thesis
    by (simp add: has_uid_line_def up_char_def)
qed

lemma InjectUID_keeps:
  "\<exists>line \<in> set (splitLines data). has_uid_line U line \<Longrightarrow> InjectUID U data uid = Some data"
  by (simp add: InjectUID_def)

text \<open>On ASCII text, \<open>InjectUID\<close> puts the missing \<open>UID\<close> on a line of its own
  directly before \<open>END:VCARD\<close>, leaves every other line as it was, and injecting again
  changes nothing.\<close>

theorem InjectUID_inserts_line:
  assumes plain: "\<forall>l \<in> set (lines @ [''UID:'' @ uid]). plain_line l"
    and ascii: "\<forall>l \<in> set lines. ascii l"
    and no_uid: "\<forall>l \<in> set (lines @ [''END:VCARD'']). \<not> has_uid_line U l"
    and no_end: "\<forall>l \<in> set lines. index_of (to_upper U l) ''END:VCARD'' = None"
  shows "InjectUID U (unlines (lines @ [''END:VCARD''])) uid =
      Some (unlines (lines @ [''UID:'' @ uid, ''END:VCARD'']))
    \<and> InjectUID U (unlines (lines @ [''UID:'' @ uid, ''END:VCARD''])) uid2 =
      Some (unlines (lines @ [''UID:'' @ uid, ''END:VCARD'']))"
proof -
  define src where "src = unlines (lines @ [''END:VCARD''])"
  define result where "result = unlines (lines @ [''UID:'' @ uid, ''END:VCARD''])"
  have plain_end: "plain_line ''END:VCARD''" by (simp add: plain_line_def CR_def LF_def)
  have lines: "splitLines src = lines @ [''END:VCARD'']"
    unfolding src_def by (rule splitLines_unlines) (use plain plain_end in auto)
  have result_lines: "splitLines result = lines @ [''UID:'' @ uid, ''END:VCARD'']"
    unfolding result_def by (rule splitLines_unlines) (use plain plain_end in auto)
  have "to_upper U src = unlines (map (map up_char) lines) @ ''END:VCARD'' @ CRLF"
    using ascii ascii_unlines [OF ascii]
    by (simp add: src_def to_upper_ascii_append map_up_char_unlines)
      (simp add: unlines_def up_char_def CR_def LF_def)
  moreover have "\<forall>l \<in> set (map (map up_char) lines). index_of l ''END:VCARD'' = None"
    using no_end ascii by (auto simp: to_upper_ascii)
  ultimately have "index_of (to_upper U src) ''END:VCARD'' = Some (length (unlines lines))"
    using index_of_after_lines [of "map (map up_char) lines" "''END:VCARD''" CRLF]
    by (simp add: map_up_char_unlines [symmetric] CR_def LF_def)
  then have "InjectUID U src uid = Some result"
    using no_uid lines by (auto simp: InjectUID_def Let_def src_def result_def unlines_def)
  moreover have "InjectUID U result uid2 = Some result"
    using result_lines has_uid_line_UID by (auto intro!: InjectUID_keeps)
  ultimately show ?thesis by (simp add: src_def result_def)
qed

definition sample_lines :: "string list" where
  "sample_lines = [''BEGIN:VCARD'', ''VERSION:4.0'', ''FN:Ada'', ''END:VCARD'']"

lemma sample_card_lines: "card_lines unicode_ascii sample_lines"
proof -
  have "sample_lines = ''BEGIN:VCARD'' # [''VERSION:4.0'', ''FN:Ada''] @ [''END:VCARD'']"
    by (simp add: sample_lines_def)
  moreover have "is_begin unicode_ascii ''BEGIN:VCARD''" "\<not> is_end unicode_ascii ''BEGIN:VCARD''"
    "is_end unicode_ascii ''END:VCARD''" "\<not> is_begin unicode_ascii ''END:VCARD''"
    by (simp_all add: is_begin_def is_end_def go_simps)
  moreover have "\<forall>l \<in> set [''VERSION:4.0'', ''FN:Ada'']. \<not> is_begin unicode_ascii l \<and> \<not> is_end unicode_ascii l"
    by (simp add: is_begin_def is_end_def go_simps)
  moreover have "\<forall>l \<in> set sample_lines. plain_line l"
    by (simp add: sample_lines_def plain_line_def go_simps)
  ultimately show ?thesis unfolding card_lines_def by blast
qed

theorem terminated_split_roundtrip_witness:
  "SplitVCards unicode_ascii (concat (map Terminated
      [trim_right {CR, LF} (unlines sample_lines), unlines sample_lines]))
    = [unlines sample_lines, unlines sample_lines]"
proof -
  have stored: "stored_card unicode_ascii (unlines sample_lines)"
    by (rule stored_card_unlines [OF sample_card_lines])
  have "Terminated (unlines sample_lines) = unlines sample_lines"
    by (rule Terminated_unlines) (simp_all add: sample_lines_def plain_line_def go_simps)
  then show ?thesis
    using terminated_split_roundtrip [of "[trim_right {CR, LF} (unlines sample_lines), unlines sample_lines]" unicode_ascii]
      stored stored_card_trimmed [OF stored]
    by (simp add: Terminated_trimmed)
qed

theorem InjectUID_inserts_line_witness:
  "InjectUID unicode_ascii (unlines [''BEGIN:VCARD'', ''FN:Ada'', ''END:VCARD'']) ''u1'' =
    Some (unlines [''BEGIN:VCARD'', ''FN:Ada'', ''UID:u1'', ''END:VCARD''])"
proof -
  let ?lines = "[''BEGIN:VCARD'', ''FN:Ada'']"
  have "\<forall>l \<in> set (?lines @ [''UID:'' @ ''u1'']). plain_line l" "\<forall>l \<in> set ?lines. ascii l"
    "\<forall>l \<in> set (?lines @ [''END:VCARD'']). \<not> has_uid_line unicode_ascii l"
    "\<forall>l \<in> set ?lines. index_of (to_upper unicode_ascii l) ''END:VCARD'' = None"
    by (simp_all add: plain_line_def has_uid_line_def index_of.simps go_simps)
  from InjectUID_inserts_line [OF this] show ?thesis by simp
qed

definition dotless_card :: string where
  "dotless_card = unlines [''BEGIN:VCARD'', ''FN:'' @ string_of_runes [305, 305], ''END:VCARD'']"

lemma dotless_bytes: "string_of_runes [305, 305] = [CHR 0xC4, CHR 0xB1, CHR 0xC4, CHR 0xB1]"
  by code_simp

lemma char_of_73: "char_of (73 :: nat) = CHR ''I''"
  by code_simp

lemma to_upper_dotless:
  "u_upper U 305 = 73 \<Longrightarrow> to_upper U (CHR 0xC4 # CHR 0xB1 # s) = CHR ''I'' # to_upper U s"
  by (simp add: to_upper_def runes_def second_ok_def cont_byte_def upper_rune_def
      string_of_runes_def encode_rune_def char_of_73)

lemma to_upper_dotless_card:
  "u_upper U 305 = 73 \<Longrightarrow>
   to_upper U dotless_card = unlines [''BEGIN:VCARD'', ''FN:II'', ''END:VCARD'']"
  by (simp add: dotless_card_def unlines_def dotless_bytes to_upper_dotless go_simps)

lemma dotless_result_lines:
  "splitLines (unlines [''BEGIN:VCARD'', ''FN:'' @ string_of_runes [305, 305] @ ''UID:u1'', [], ''END:VCARD''])
    = [''BEGIN:VCARD'', ''FN:'' @ string_of_runes [305, 305] @ ''UID:u1'', [], ''END:VCARD'']"
  by (rule splitLines_unlines) (simp add: dotless_bytes plain_line_def go_simps)

lemma dotless_no_uid_line:
  assumes "u_upper U 305 = 73"
    and "line \<in> {''BEGIN:VCARD'', ''FN:'' @ string_of_runes [305, 305], [],
      ''FN:'' @ string_of_runes [305, 305] @ ''UID:u1'', ''END:VCARD''}"
  shows "\<not> has_uid_line U line"
proof -
  have "trim_space (''FN:'' @ string_of_runes [305, 305]) = ''FN:'' @ string_of_runes [305, 305]"
    by code_simp
  with assms show ?thesis
    by (auto simp: has_uid_line_def dotless_bytes to_upper_dotless go_simps)
qed

text \<open>Beyond ASCII the index is wrong. Upper-casing can shorten the text (the two-byte
  dotless i becomes the one-byte letter I), and a card whose name holds two of them gets its
  \<open>UID\<close> glued to the end of the \<open>FN\<close> line: the result has no \<open>UID\<close> line, and
  the name has changed. Holds for every case table that maps U+0131 to I, as Unicode does.\<close>

theorem InjectUID_misplaces_after_dotless_i:
  assumes U: "u_upper U 305 = 73"
  shows "InjectUID U dotless_card ''u1'' =
      Some (unlines [''BEGIN:VCARD'', ''FN:'' @ string_of_runes [305, 305] @ ''UID:u1'', [], ''END:VCARD''])
    \<and> (\<forall>line \<in> set (splitLines (unlines [''BEGIN:VCARD'',
          ''FN:'' @ string_of_runes [305, 305] @ ''UID:u1'', [], ''END:VCARD''])). \<not> has_uid_line U line)"
proof
  have "splitLines dotless_card = [''BEGIN:VCARD'', ''FN:'' @ string_of_runes [305, 305], ''END:VCARD'']"
    unfolding dotless_card_def
    by (rule splitLines_unlines) (simp add: dotless_bytes plain_line_def go_simps)
  then have no_uid: "\<not> (\<exists>line \<in> set (splitLines dotless_card). has_uid_line U line)"
    using dotless_no_uid_line [OF U] by auto
  have idx: "index_of (to_upper U dotless_card) ''END:VCARD'' = Some 20"
    by (simp add: to_upper_dotless_card [OF U] unlines_def index_of.simps go_simps)
  have cut: "20 \<le> length dotless_card \<and>
      take 20 dotless_card @ (''UID:'' @ ''u1'' @ CRLF) @ drop 20 dotless_card =
      unlines [''BEGIN:VCARD'', ''FN:'' @ string_of_runes [305, 305] @ ''UID:u1'', [], ''END:VCARD'']"
    by (simp add: dotless_card_def dotless_bytes unlines_def)
  show "InjectUID U dotless_card ''u1'' =
      Some (unlines [''BEGIN:VCARD'', ''FN:'' @ string_of_runes [305, 305] @ ''UID:u1'', [], ''END:VCARD''])"
    using no_uid idx cut by (simp only: InjectUID_def Let_def if_False option.case) simp
next
  show "\<forall>line \<in> set (splitLines (unlines [''BEGIN:VCARD'',
          ''FN:'' @ string_of_runes [305, 305] @ ''UID:u1'', [], ''END:VCARD''])). \<not> has_uid_line U line"
    using dotless_no_uid_line [OF U] by (auto simp only: dotless_result_lines list.set)
qed

theorem InjectUID_misplaces_after_dotless_i_witness:
  "InjectUID unicode_turkish dotless_card ''u1'' =
      Some (unlines [''BEGIN:VCARD'', ''FN:'' @ string_of_runes [305, 305] @ ''UID:u1'', [], ''END:VCARD''])"
  using InjectUID_misplaces_after_dotless_i [of unicode_turkish]
  by (simp add: unicode_turkish_def)

end
