(* ===== verification/GoVCard.thy ===== *)
theory GoVCard
  imports Prelude
begin

text \<open>
  The third-party types and calls the sources build on, none of which is in the repository.
  \<open>go-vcard\<close> represents a card as a Go map from property names to lists of fields; here a Go
  map is an association list, its keys distinct (\<open>go_map\<close>) and its order one of the orders a
  \<open>range\<close> loop may take. The library's functions, SHA-256 and the case tables are the fields
  of the record \<open>lib\<close>, an argument \<open>L\<close> of every definition that reaches one of them; what a
  theorem needs of them is a named hypothesis such as \<open>get_is_first\<close>.
\<close>

section \<open>Definitions\<close>

type_synonym 'v go_map = "(string \<times> 'v) list"

definition wf_map :: "'v go_map \<Rightarrow> bool" where
  "wf_map m \<longleftrightarrow> distinct (map fst m)"

text \<open>\<open>m[k]\<close> on a map whose values are lists: the zero value is the empty list.\<close>

definition index :: "'v list go_map \<Rightarrow> string \<Rightarrow> 'v list" where
  "index m k = (case map_of m k of None \<Rightarrow> [] | Some v \<Rightarrow> v)"

text \<open>\<open>m[k] = v\<close>.\<close>

fun put :: "'v go_map \<Rightarrow> string \<Rightarrow> 'v \<Rightarrow> 'v go_map" where
  "put [] k v = [(k, v)]"
| "put ((k', v') # m) k v = (if k' = k then (k, v) # m else (k', v') # put m k v)"

text \<open>\<open>delete(m, k)\<close>.\<close>

definition del :: "'v go_map \<Rightarrow> string \<Rightarrow> 'v go_map" where
  "del m k = filter (\<lambda>p. fst p \<noteq> k) m"

text \<open>A loop \<open>for _, k := range keys\<close> that stores \<open>g k\<close> under \<open>k\<close> where \<open>g\<close> has a value.\<close>

fun fill :: "'v go_map \<Rightarrow> (string \<Rightarrow> 'v option) \<Rightarrow> string list \<Rightarrow> 'v go_map" where
  "fill m g [] = m"
| "fill m g (k # ks) = fill (case g k of None \<Rightarrow> m | Some v \<Rightarrow> put m k v) g ks"

text \<open>The distinct keys of several maps, sorted.\<close>

definition key_union :: "'v go_map list \<Rightarrow> string list" where
  "key_union ms = sort (remdups (concat (map (map fst) ms)))"

text \<open>The keys of a map collected by \<open>range\<close> and passed to \<open>sort.Strings\<close>.\<close>

definition sorted_keys :: "'v go_map \<Rightarrow> string list" where
  "sorted_keys m = sort (map fst m)"

text \<open>\<open>vcard.Field\<close> and \<open>vcard.Card\<close>.\<close>

record field =
  f_value :: string
  f_params :: "string list go_map"
  f_group :: string

type_synonym vcard = "field list go_map"

text \<open>\<open>vcard.Name\<close> and \<open>vcard.Address\<close>.\<close>

record card_name =
  n_family :: string
  n_given :: string
  n_additional :: string
  n_prefix :: string
  n_suffix :: string

record card_address =
  a_field :: field
  a_po_box :: string
  a_extended :: string
  a_street :: string
  a_locality :: string
  a_region :: string
  a_postal_code :: string
  a_country :: string

text \<open>The library: decoding, the accessors and setters of \<open>vcard.Card\<close> and \<open>vcard.Params\<close>, and
  SHA-256. \<open>Card.Preferred\<close> returns a pointer into the property's list, here its position.\<close>

record lib =
  l_unicode :: unicode
  gv_decode :: "string \<Rightarrow> string + vcard"
  gv_get :: "vcard \<Rightarrow> string \<Rightarrow> field option"
  l_sha256 :: "string \<Rightarrow> string"
  gv_value :: "vcard \<Rightarrow> string \<Rightarrow> string"
  gv_name :: "vcard \<Rightarrow> card_name option"
  gv_preferred :: "vcard \<Rightarrow> string \<Rightarrow> nat option"
  gv_addresses :: "vcard \<Rightarrow> card_address list"
  gv_gender :: "vcard \<Rightarrow> string \<times> string"
  gv_set_value :: "vcard \<Rightarrow> string \<Rightarrow> string \<Rightarrow> vcard"
  gv_set_name :: "vcard \<Rightarrow> card_name \<Rightarrow> vcard"
  gv_add :: "vcard \<Rightarrow> string \<Rightarrow> field \<Rightarrow> vcard"
  gv_add_address :: "vcard \<Rightarrow> card_address \<Rightarrow> vcard"
  gv_set_gender :: "vcard \<Rightarrow> string \<Rightarrow> string \<Rightarrow> vcard"
  gv_set_categories :: "vcard \<Rightarrow> string list \<Rightarrow> vcard"
  gp_get :: "string list go_map \<Rightarrow> string \<Rightarrow> string"
  gp_types :: "string list go_map \<Rightarrow> string list"
  gp_has_type :: "string list go_map \<Rightarrow> string \<Rightarrow> bool"
  gp_add :: "string list go_map \<Rightarrow> string \<Rightarrow> string \<Rightarrow> string list go_map"
  gp_set :: "string list go_map \<Rightarrow> string \<Rightarrow> string \<Rightarrow> string list go_map"

text \<open>\<open>Card.Get\<close> returns the first field of a property, nil when there is none.\<close>

definition get_is_first :: "lib \<Rightarrow> bool" where
  "get_is_first L \<longleftrightarrow> (\<forall>c k. gv_get L c k = (case index c k of [] \<Rightarrow> None | f # _ \<Rightarrow> Some f))"

text \<open>A decoded card is a Go map.\<close>

definition decode_wf :: "lib \<Rightarrow> bool" where
  "decode_wf L \<longleftrightarrow> (\<forall>s c. gv_decode L s = Inr c \<longrightarrow> wf_map c)"

text \<open>\<open>hex.EncodeToString\<close>.\<close>

definition hex_digit :: "nat \<Rightarrow> char" where
  "hex_digit n = char_of (if n < 10 then n + 48 else n + 87)"

definition hex :: "string \<Rightarrow> string" where
  "hex s = concat (map (\<lambda>c. [hex_digit (of_char c div 16), hex_digit (of_char c mod 16)]) s)"

text \<open>The documented effect of the setters: \<open>SetValue\<close> and \<open>SetName\<close> and the like replace one
  property, \<open>Add\<close> and \<open>AddAddress\<close> append to one.\<close>

abbreviation plain_field :: "string \<Rightarrow> field" where
  "plain_field v \<equiv> \<lparr>f_value = v, f_params = [], f_group = []\<rparr>"

definition setters_local :: "lib \<Rightarrow> bool" where
  "setters_local L \<longleftrightarrow>
     (\<forall>c k v. gv_set_value L c k v = put c k [plain_field v])
   \<and> (\<forall>c k f. gv_add L c k f = put c k (index c k @ [f]))
   \<and> (\<forall>c n. \<exists>fs. fs \<noteq> [] \<and> gv_set_name L c n = put c ''N'' fs)
   \<and> (\<forall>c a. \<exists>f. gv_add_address L c a = put c ''ADR'' (index c ''ADR'' @ [f]))
   \<and> (\<forall>c s t. \<exists>fs. fs \<noteq> [] \<and> gv_set_gender L c s t = put c ''GENDER'' fs)
   \<and> (\<forall>c cs. \<exists>fs. fs \<noteq> [] \<and> gv_set_categories L c cs = put c ''CATEGORIES'' fs)"

text \<open>An instance for closed examples: the accessors as documented, the identity as digest,
  and a decoder given by a table of texts.\<close>

definition first_value :: "string list go_map \<Rightarrow> string \<Rightarrow> string" where
  "first_value m k = (case index m k of [] \<Rightarrow> [] | v # _ \<Rightarrow> v)"

definition nth_part :: "string list \<Rightarrow> nat \<Rightarrow> string" where
  "nth_part ps i = (if i < length ps then ps ! i else [])"

definition split_name :: "string \<Rightarrow> card_name" where
  "split_name v = (let ps = split_on CHR '';'' v in
     \<lparr>n_family = nth_part ps 0, n_given = nth_part ps 1, n_additional = nth_part ps 2,
      n_prefix = nth_part ps 3, n_suffix = nth_part ps 4\<rparr>)"

definition split_address :: "field \<Rightarrow> card_address" where
  "split_address f = (let ps = split_on CHR '';'' (f_value f) in
     \<lparr>a_field = f, a_po_box = nth_part ps 0, a_extended = nth_part ps 1, a_street = nth_part ps 2,
      a_locality = nth_part ps 3, a_region = nth_part ps 4, a_postal_code = nth_part ps 5,
      a_country = nth_part ps 6\<rparr>)"

definition address_value :: "card_address \<Rightarrow> string" where
  "address_value a = join '';'' [a_po_box a, a_extended a, a_street a, a_locality a, a_region a,
     a_postal_code a, a_country a]"

definition table_lib :: "(string \<times> vcard) list \<Rightarrow> lib" where
  "table_lib tab = \<lparr>l_unicode = unicode_ascii,
     gv_decode = (\<lambda>s. case map_of tab s of None \<Rightarrow> Inl ''EOF'' | Some c \<Rightarrow> Inr c),
     gv_get = (\<lambda>c k. case index c k of [] \<Rightarrow> None | f # _ \<Rightarrow> Some f),
     l_sha256 = (\<lambda>s. s),
     gv_value = (\<lambda>c k. case index c k of [] \<Rightarrow> [] | f # _ \<Rightarrow> f_value f),
     gv_name = (\<lambda>c. case index c ''N'' of [] \<Rightarrow> None | f # _ \<Rightarrow> Some (split_name (f_value f))),
     gv_preferred = (\<lambda>c k. if index c k = [] then None else Some 0),
     gv_addresses = (\<lambda>c. map split_address (index c ''ADR'')),
     gv_gender = (\<lambda>c. case index c ''GENDER'' of [] \<Rightarrow> ([], [])
        | f # _ \<Rightarrow> (fst (cut_at CHR '';'' (f_value f)),
            case snd (cut_at CHR '';'' (f_value f)) of None \<Rightarrow> [] | Some t \<Rightarrow> t)),
     gv_set_value = (\<lambda>c k v. put c k [plain_field v]),
     gv_set_name = (\<lambda>c n. put c ''N'' [plain_field (join '';''
        [n_family n, n_given n, n_additional n, n_prefix n, n_suffix n])]),
     gv_add = (\<lambda>c k f. put c k (index c k @ [f])),
     gv_add_address = (\<lambda>c a. put c ''ADR'' (index c ''ADR'' @ [(a_field a)\<lparr>f_value := address_value a\<rparr>])),
     gv_set_gender = (\<lambda>c s t. put c ''GENDER'' [plain_field (if t = [] then s else s @ '';'' @ t)]),
     gv_set_categories = (\<lambda>c cs. put c ''CATEGORIES'' [plain_field (join '','' cs)]),
     gp_get = first_value,
     gp_types = (\<lambda>m. index m ''TYPE''),
     gp_has_type = (\<lambda>m t. t \<in> set (index m ''TYPE'')),
     gp_add = (\<lambda>m k v. put m k (index m k @ [v])),
     gp_set = (\<lambda>m k v. put m k [v])\<rparr>"

section \<open>Lemmas\<close>

lemma table_lib_simps [simp]:
  "l_unicode (table_lib tab) = unicode_ascii"
  "gv_decode (table_lib tab) s = (case map_of tab s of None \<Rightarrow> Inl ''EOF'' | Some c \<Rightarrow> Inr c)"
  "gv_get (table_lib tab) c k = (case index c k of [] \<Rightarrow> None | f # _ \<Rightarrow> Some f)"
  "l_sha256 (table_lib tab) s = s"
  by (simp_all add: table_lib_def)

lemma table_lib_more [simp]:
  "gv_value (table_lib tab) c k = (case index c k of [] \<Rightarrow> [] | f # _ \<Rightarrow> f_value f)"
  "gv_name (table_lib tab) c = (case index c ''N'' of [] \<Rightarrow> None | f # _ \<Rightarrow> Some (split_name (f_value f)))"
  "gv_preferred (table_lib tab) c k = (if index c k = [] then None else Some 0)"
  "gv_addresses (table_lib tab) c = map split_address (index c ''ADR'')"
  "gv_gender (table_lib tab) c = (case index c ''GENDER'' of [] \<Rightarrow> ([], [])
     | f # _ \<Rightarrow> (fst (cut_at CHR '';'' (f_value f)),
         case snd (cut_at CHR '';'' (f_value f)) of None \<Rightarrow> [] | Some t \<Rightarrow> t))"
  "gv_set_value (table_lib tab) c k v = put c k [plain_field v]"
  "gv_set_name (table_lib tab) c n = put c ''N'' [plain_field (join '';''
     [n_family n, n_given n, n_additional n, n_prefix n, n_suffix n])]"
  "gv_add (table_lib tab) c k f = put c k (index c k @ [f])"
  "gv_add_address (table_lib tab) c a = put c ''ADR'' (index c ''ADR'' @ [(a_field a)\<lparr>f_value := address_value a\<rparr>])"
  "gv_set_gender (table_lib tab) c sx t = put c ''GENDER'' [plain_field (if t = [] then sx else sx @ '';'' @ t)]"
  "gv_set_categories (table_lib tab) c cs = put c ''CATEGORIES'' [plain_field (join '','' cs)]"
  "gp_get (table_lib tab) m k = first_value m k"
  "gp_types (table_lib tab) m = index m ''TYPE''"
  "gp_has_type (table_lib tab) m t = (t \<in> set (index m ''TYPE''))"
  "gp_add (table_lib tab) m k v = put m k (index m k @ [v])"
  "gp_set (table_lib tab) m k v = put m k [v]"
  by (simp_all add: table_lib_def)

lemma table_lib_setters [simp]: "setters_local (table_lib tab)"
  by (simp add: setters_local_def) blast

lemma table_lib_get [simp]: "get_is_first (table_lib tab)"
  by (simp add: get_is_first_def)

lemma map_of_put [simp]: "map_of (put m k v) = (map_of m)(k \<mapsto> v)"
  by (induction m) auto

lemma map_of_del [simp]: "map_of (del m k) = (map_of m)(k := None)"
  by (induction m) (auto simp: del_def)

lemma keys_put: "map fst (put m k v) = (if k \<in> fst ` set m then map fst m else map fst m @ [k])"
  by (induction m) (auto simp: rev_image_eqI)

lemma set_keys_put [simp]: "fst ` set (put m k v) = insert k (fst ` set m)"
  using arg_cong [OF keys_put [of m k v], of set] by (auto split: if_splits)

lemma wf_put [simp, intro]: "wf_map m \<Longrightarrow> wf_map (put m k v)"
  by (simp add: wf_map_def keys_put)

lemma wf_map_Nil [simp]: "wf_map []"
  by (simp add: wf_map_def)

lemma index_put [simp]: "index (put m k v) k' = (if k' = k then v else index m k')"
  by (simp add: index_def)

lemma index_Nil [simp]: "index [] k = []"
  by (simp add: index_def)

lemma set_sorted_keys [simp]: "set (sorted_keys m) = fst ` set m"
  by (simp add: sorted_keys_def)

lemma sorted_keys_sorted: "sorted (sorted_keys m)"
  by (simp add: sorted_keys_def)

lemma wf_map_sorted_keys: "wf_map m \<Longrightarrow> distinct (sorted_keys m)"
  by (simp add: wf_map_def sorted_keys_def)

lemma dom_map_of_keys: "dom (map_of m) = fst ` set m"
  by (rule dom_map_of_conv_image_fst)

text \<open>Two lists that are the same Go map have the same sorted keys: what is sorted does not
  depend on the iteration order.\<close>

lemma sorted_keys_cong:
  assumes "wf_map m" "wf_map m'" "map_of m = map_of m'"
  shows "sorted_keys m = sorted_keys m'"
proof -
  have "set (map fst m) = set (map fst m')"
    using arg_cong [OF assms(3), of dom] by (simp add: dom_map_of_conv_image_fst)
  with assms(1,2) show ?thesis
    unfolding sorted_keys_def
    by (intro sorted_distinct_set_unique) (simp_all add: wf_map_def)
qed

lemma index_cong: "map_of m = map_of m' \<Longrightarrow> index m k = index m' k"
  by (simp add: index_def)

lemma map_of_fill:
  "map_of (fill m g ks) k = (if k \<in> set ks \<and> g k \<noteq> None then g k else map_of m k)"
  by (induction ks arbitrary: m) (auto split: option.splits)

lemma wf_fill [simp, intro]: "wf_map m \<Longrightarrow> wf_map (fill m g ks)"
  by (induction ks arbitrary: m) (auto split: option.splits)

lemma set_key_union [simp]: "set (key_union ms) = (\<Union>m \<in> set ms. fst ` set m)"
  by (simp add: key_union_def)

lemma distinct_key_union [simp]: "distinct (key_union ms)"
  by (simp add: key_union_def)

lemma sorted_key_union [simp]: "sorted (key_union ms)"
  by (simp add: key_union_def)

lemma map_of_None_keys: "k \<notin> fst ` set m \<Longrightarrow> map_of m k = None"
  by (simp add: map_of_eq_None_iff)

lemma index_not_key: "k \<notin> fst ` set m \<Longrightarrow> index m k = []"
  by (simp add: index_def map_of_None_keys)

end
