(* ===== verification/VCardEncode.thy ===== *)
theory VCardEncode
  imports GoVCard VCardText
begin

text \<open>
  \<open>internal/vcard/encoder.go\<close>: the escaping of property values by value type
  (\<open>escapeValue\<close>), the layout of a card (\<open>formatLine\<close>, \<open>EncodeCard\<close>) and \<open>StripPhoto\<close>, with
  the string wrappers \<open>encodeCard\<close> and \<open>CardToString\<close> of \<open>builder.go\<close>. The writer of
  \<open>EncodeCard\<close> is always a \<open>strings.Builder\<close>, whose writes do not fail, so the only error is
  a missing version.
\<close>

section \<open>Definitions\<close>

datatype encode_error = ErrMissingVersion

definition uriValued :: "string \<Rightarrow> bool" where
  "uriValued key \<longleftrightarrow> key \<in> {''PHOTO'', ''LOGO'', ''SOUND'', ''URL'', ''KEY'', ''SOURCE'', ''FBURL'',
     ''CALURI'', ''CALADRURI'', ''IMPP'', ''MEMBER'', ''RELATED'', ''GEO'', ''UID''}"

definition listValued :: "string \<Rightarrow> bool" where
  "listValued key \<longleftrightarrow> key \<in> {''CATEGORIES'', ''NICKNAME''}"

definition structuredValued :: "string \<Rightarrow> bool" where
  "structuredValued key \<longleftrightarrow> key \<in> {''N'', ''ADR'', ''ORG'', ''GENDER'', ''CLIENTPIDMAP''}"

definition BACKSLASH :: char where "BACKSLASH = CHR 0x5C"

text \<open>The two replacers: each replaces single bytes, in one pass.\<close>

definition text_escape_char :: "char \<Rightarrow> string" where
  "text_escape_char c =
     (if c = BACKSLASH then [BACKSLASH, BACKSLASH]
      else if c = LF then [BACKSLASH, CHR ''n'']
      else if c = CHR '','' then [BACKSLASH, CHR '','']
      else [c])"

definition atom_escape_char :: "char \<Rightarrow> string" where
  "atom_escape_char c =
     (if c = BACKSLASH then [BACKSLASH, BACKSLASH]
      else if c = LF then [BACKSLASH, CHR ''n'']
      else [c])"

definition textEscaper :: "string \<Rightarrow> string" where
  "textEscaper s = concat (map text_escape_char s)"

definition atomEscaper :: "string \<Rightarrow> string" where
  "atomEscaper s = concat (map atom_escape_char s)"

definition normalizeNewlines :: "string \<Rightarrow> string" where
  "normalizeNewlines s =
     (if CR \<notin> set s then s
      else map (\<lambda>c. if c = CR then LF else c) (crlf_to_lf s))"

definition escapeValue :: "unicode \<Rightarrow> string \<Rightarrow> string \<Rightarrow> string" where
  "escapeValue U property raw =
     (let value = normalizeNewlines raw; key = to_upper U property
      in if uriValued key then filter (\<lambda>c. c \<noteq> LF) value
         else if listValued key then
           join '','' (map atomEscaper (split_on (CHR '','') value))
         else if structuredValued key then
           join '';'' (map (\<lambda>component.
             join '','' (map atomEscaper (split_on (CHR '','') component)))
             (split_on (CHR '';'') value))
         else textEscaper value)"

definition format_params :: "string list go_map \<Rightarrow> string" where
  "format_params params =
     concat (map (\<lambda>pk. concat (map (\<lambda>pv.
       '';'' @ pk @ ''='' @ textEscaper (normalizeNewlines pv)) (index params pk)))
       (sorted_keys params))"

definition formatLine :: "unicode \<Rightarrow> string \<Rightarrow> field \<Rightarrow> string" where
  "formatLine U key f =
     (if f_group f \<noteq> [] then f_group f @ ''.'' else []) @ key
       @ format_params (f_params f) @ '':'' @ escapeValue U key (f_value f)"

text \<open>The physical lines \<open>EncodeCard\<close> writes between \<open>BEGIN\<close> and \<open>END\<close>.\<close>

definition body_lines :: "unicode \<Rightarrow> vcard \<Rightarrow> string list" where
  "body_lines U c =
     concat (map (\<lambda>k. map (formatLine U k) (index c k))
       (filter (\<lambda>k. \<not> equal_fold U k ''VERSION'') (sorted_keys c)))"

definition EncodeCard :: "lib \<Rightarrow> vcard \<Rightarrow> encode_error + string" where
  "EncodeCard L c =
     (case gv_get L c ''VERSION'' of
        None \<Rightarrow> Inl ErrMissingVersion
      | Some version \<Rightarrow>
          Inr (unlines ([''BEGIN:VCARD'', formatLine (l_unicode L) ''VERSION'' version]
            @ body_lines (l_unicode L) c @ [''END:VCARD''])))"

definition CardToString :: "lib \<Rightarrow> vcard \<Rightarrow> string" where
  "CardToString L c = (case EncodeCard L c of Inl _ \<Rightarrow> [] | Inr s \<Rightarrow> s)"

definition photoPlaceholder :: string where
  "photoPlaceholder = ''[stripped]''"

definition strip_fields :: "field list \<Rightarrow> field list" where
  "strip_fields fs =
     map (\<lambda>f. if f_value f \<noteq> [] then f\<lparr>f_value := photoPlaceholder\<rparr> else f) fs"

definition strip_photos :: "vcard \<Rightarrow> vcard" where
  "strip_photos c =
     map (\<lambda>(k, fs). (k, if k \<in> {''PHOTO'', ''LOGO'', ''SOUND''} then strip_fields fs else fs)) c"

definition StripPhoto :: "lib \<Rightarrow> string \<Rightarrow> string" where
  "StripPhoto L stored =
     (if stored = [] then []
      else case gv_decode L stored of
        Inl _ \<Rightarrow> stored
      | Inr decoded \<Rightarrow>
          if \<exists>k \<in> set [''PHOTO'', ''LOGO'', ''SOUND'']. \<exists>f \<in> set (index decoded k). f_value f \<noteq> []
          then (case EncodeCard L (strip_photos decoded) of Inl _ \<Rightarrow> stored | Inr s \<Rightarrow> s)
          else stored)"

text \<open>What the decoder undoes in a value, as \<open>encoder.go\<close> documents it: only the three
  escapes for backslash, line feed and comma.\<close>

fun unescape :: "string \<Rightarrow> string" where
  "unescape [] = []"
| "unescape [c] = [c]"
| "unescape (c # d # s) =
     (if c = BACKSLASH \<and> d = BACKSLASH then BACKSLASH # unescape s
      else if c = BACKSLASH \<and> d = CHR ''n'' then LF # unescape s
      else if c = BACKSLASH \<and> d = CHR '','' then CHR '','' # unescape s
      else c # unescape (d # s))"

text \<open>Names the encoder writes verbatim: property names, groups and parameter names.\<close>

definition clean_field :: "field \<Rightarrow> bool" where
  "clean_field f \<longleftrightarrow> plain_line (f_group f) \<and> (\<forall>pk \<in> fst ` set (f_params f). plain_line pk)"

definition clean_card :: "vcard \<Rightarrow> bool" where
  "clean_card c \<longleftrightarrow> (\<forall>(k, fs) \<in> set c. plain_line k \<and> (\<forall>f \<in> set fs. clean_field f))"

text \<open>Property names and groups as the decoder produces them: visible ASCII, no colon, and
  not one of the two delimiter words.\<close>

definition name_ok :: "string \<Rightarrow> bool" where
  "name_ok n \<longleftrightarrow> n \<noteq> [] \<and> (\<forall>c \<in> set n. visible c \<and> c \<noteq> CHR '':'')
     \<and> map up_char n \<notin> {''BEGIN'', ''END''}"

definition decoded_card :: "vcard \<Rightarrow> bool" where
  "decoded_card c \<longleftrightarrow> wf_map c \<and> (\<forall>(k, fs) \<in> set c. name_ok k \<and> (\<forall>f \<in> set fs.
     clean_field f \<and> (f_group f = [] \<or> name_ok (f_group f))))"

section \<open>Lemmas\<close>

subsection \<open>Escaping\<close>

lemma crlf_to_lf_keeps_out: "c \<noteq> LF \<Longrightarrow> c \<notin> set s \<Longrightarrow> c \<notin> set (crlf_to_lf s)"
  by (induction s rule: crlf_to_lf.induct) auto

lemma normalizeNewlines_no_CR [simp]: "CR \<notin> set (normalizeNewlines s)"
  by (auto simp: normalizeNewlines_def)

lemma plain_line_append [simp]: "plain_line (a @ b) \<longleftrightarrow> plain_line a \<and> plain_line b"
  by (auto simp: plain_line_def)

lemma plain_line_Nil [simp]: "plain_line []"
  by (simp add: plain_line_def)

lemma plain_line_Cons [simp]: "plain_line (c # s) \<longleftrightarrow> c \<noteq> CR \<and> c \<noteq> LF \<and> plain_line s"
  by (auto simp: plain_line_def)

lemma plain_line_concat: "plain_line (concat ss) \<longleftrightarrow> (\<forall>s \<in> set ss. plain_line s)"
  by (induction ss) auto

lemma plain_line_join: "plain_line sep \<Longrightarrow> \<forall>s \<in> set ss. plain_line s \<Longrightarrow> plain_line (join sep ss)"
  by (induction sep ss rule: join.induct) auto

lemma plain_line_escapes:
  "CR \<notin> set s \<Longrightarrow> plain_line (textEscaper s)" "CR \<notin> set s \<Longrightarrow> plain_line (atomEscaper s)"
  by (auto simp: textEscaper_def atomEscaper_def text_escape_char_def atom_escape_char_def
      plain_line_concat BACKSLASH_def CR_def LF_def)

lemma join_split_on: "join [d] (split_on d s) = s"
proof (induction s)
  case (Cons c s)
  obtain p ps where ps: "split_on d s = p # ps" by (cases "split_on d s") auto
  show ?case
  proof (cases "c = d")
    case True
    with Cons ps show ?thesis by simp
  next
    case False
    with Cons ps show ?thesis by (cases ps) auto
  qed
qed simp

lemma atomEscaper_append: "atomEscaper (a @ b) = atomEscaper a @ atomEscaper b"
  by (simp add: atomEscaper_def)

text \<open>Escaping the items of a list and joining them is escaping the whole value with the
  separator left alone, because the separators are not escaped characters.\<close>

lemma atomEscaper_join:
  "atomEscaper sep = sep \<Longrightarrow> join sep (map atomEscaper ss) = atomEscaper (join sep ss)"
  by (induction sep ss rule: join.induct) (auto simp: atomEscaper_append atomEscaper_def)

lemma atomEscaper_seps [simp]: "atomEscaper '','' = '',''" "atomEscaper '';'' = '';''"
  by (simp_all add: atomEscaper_def atom_escape_char_def BACKSLASH_def LF_def)

lemma atomEscaper_split:
  assumes "atomEscaper [d] = [d]"
  shows "join [d] (map atomEscaper (split_on d s)) = atomEscaper s"
  using atomEscaper_join [OF assms, of "split_on d s"] by (simp add: join_split_on)

lemma structured_escape:
  "join '';'' (map (\<lambda>component. join '','' (map atomEscaper (split_on (CHR '','') component)))
     (split_on (CHR '';'') s)) = atomEscaper s"
  by (simp add: atomEscaper_split)

lemma escapeValue_eq:
  "escapeValue U property raw =
     (let value = normalizeNewlines raw; key = to_upper U property
      in if uriValued key then filter (\<lambda>c. c \<noteq> LF) value
         else if listValued key \<or> structuredValued key then atomEscaper value
         else textEscaper value)"
  by (simp add: escapeValue_def Let_def atomEscaper_split structured_escape)

lemma escapeValue_plain: "plain_line (escapeValue U property raw)"
  using normalizeNewlines_no_CR [of raw]
  by (simp add: escapeValue_eq Let_def plain_line_escapes) (auto simp: plain_line_def)

subsection \<open>Unescaping\<close>

lemma unescape_other [simp]:
  "c \<noteq> BACKSLASH \<Longrightarrow> unescape (c # s) = c # unescape s"
  by (cases s) auto

lemma unescape_textEscaper: "unescape (textEscaper s) = s"
  by (induction s) (auto simp: textEscaper_def text_escape_char_def BACKSLASH_def)

lemma unescape_atomEscaper: "unescape (atomEscaper s) = s"
  by (induction s) (auto simp: atomEscaper_def atom_escape_char_def BACKSLASH_def)

text \<open>Reading back what \<open>escapeValue\<close> wrote, with the three escapes the decoder
  knows, gives the value with its line breaks normalised, for text, list and structured
  properties alike.\<close>

theorem unescape_escapeValue:
  assumes "\<not> uriValued (to_upper U property)"
  shows "unescape (escapeValue U property raw) = normalizeNewlines raw"
  using assms by (simp add: escapeValue_eq Let_def unescape_textEscaper unescape_atomEscaper)

theorem unescape_escapeValue_witness:
  "unescape (escapeValue unicode_ascii ''NOTE'' (''a,b'' @ CRLF @ [BACKSLASH, CHR '';'']))
    = ''a,b'' @ [LF, BACKSLASH, CHR '';'']"
proof -
  have "\<not> uriValued (to_upper unicode_ascii ''NOTE'')"
    by (simp add: uriValued_def go_simps)
  from unescape_escapeValue [OF this] show ?thesis
    by (simp add: normalizeNewlines_def BACKSLASH_def go_simps)
qed

subsection \<open>Layout\<close>

lemma separators_plain [simp]:
  "CHR '';'' \<noteq> CR" "CHR '';'' \<noteq> LF" "CHR ''='' \<noteq> CR" "CHR ''='' \<noteq> LF"
  "CHR ''.'' \<noteq> CR" "CHR ''.'' \<noteq> LF" "CHR '':'' \<noteq> CR" "CHR '':'' \<noteq> LF"
  by (simp_all add: CR_def LF_def)

lemma format_params_plain:
  "\<forall>pk \<in> fst ` set params. plain_line pk \<Longrightarrow> plain_line (format_params params)"
  by (auto simp: format_params_def plain_line_concat plain_line_escapes)

lemma formatLine_plain: "plain_line k \<Longrightarrow> clean_field f \<Longrightarrow> plain_line (formatLine U k f)"
  by (auto simp: formatLine_def clean_field_def escapeValue_plain intro!: format_params_plain)

lemma index_in_set: "f \<in> set (index c k) \<Longrightarrow> \<exists>fs. (k, fs) \<in> set c \<and> f \<in> set fs"
  by (cases "map_of c k") (auto simp: index_def dest: map_of_SomeD)

lemma body_lines_mem:
  "l \<in> set (body_lines U c) \<longleftrightarrow>
     (\<exists>k f. k \<in> fst ` set c \<and> \<not> equal_fold U k ''VERSION'' \<and> f \<in> set (index c k) \<and> l = formatLine U k f)"
  by (auto simp: body_lines_def)

lemma body_lines_plain: "clean_card c \<Longrightarrow> l \<in> set (body_lines U c) \<Longrightarrow> plain_line l"
  unfolding body_lines_mem clean_card_def
  by (auto dest!: index_in_set intro!: formatLine_plain)

lemma EncodeCard_lines:
  assumes "get_is_first L" and "clean_card c" and "EncodeCard L c = Inr s"
  obtains version where "gv_get L c ''VERSION'' = Some version"
    and "s = unlines ([''BEGIN:VCARD'', formatLine (l_unicode L) ''VERSION'' version]
           @ body_lines (l_unicode L) c @ [''END:VCARD''])"
    and "\<forall>l \<in> set ([''BEGIN:VCARD'', formatLine (l_unicode L) ''VERSION'' version]
           @ body_lines (l_unicode L) c @ [''END:VCARD'']). plain_line l"
proof -
  from assms(3) obtain version where v: "gv_get L c ''VERSION'' = Some version"
    and s: "s = unlines ([''BEGIN:VCARD'', formatLine (l_unicode L) ''VERSION'' version]
           @ body_lines (l_unicode L) c @ [''END:VCARD''])"
    by (auto simp: EncodeCard_def split: option.splits)
  from v assms(1) have "version \<in> set (index c ''VERSION'')"
    by (auto simp: get_is_first_def split: list.splits)
  with assms(2) have "clean_field version"
    by (fastforce simp: clean_card_def dest: index_in_set)
  then have "plain_line (formatLine (l_unicode L) ''VERSION'' version)"
    by (intro formatLine_plain) (simp_all add: CR_def LF_def)
  then show ?thesis
    using that [OF v s] body_lines_plain [OF assms(2)] by (auto simp: CR_def LF_def)
qed

text \<open>Every field of a card takes exactly one physical line. However the values and
  parameters of a card are chosen, line breaks in them included, the encoded text breaks into
  the \<open>BEGIN\<close> line, the version, one line per remaining field in key order, and
  \<open>END\<close>: no value can add a line of its own.\<close>

theorem EncodeCard_one_line_per_field:
  assumes "get_is_first L" and "clean_card c" and "EncodeCard L c = Inr s"
  shows "\<exists>version. gv_get L c ''VERSION'' = Some version
    \<and> splitLines s = [''BEGIN:VCARD'', formatLine (l_unicode L) ''VERSION'' version]
        @ body_lines (l_unicode L) c @ [''END:VCARD'']"
  using assms by (elim EncodeCard_lines) (auto simp: splitLines_unlines)

definition sample_card :: vcard where
  "sample_card = [(''VERSION'', [plain_field ''4.0'']), (''FN'', [plain_field (''Ada'' @ CRLF @ ''L'')]),
     (''EMAIL'', [plain_field ''a@b''])]"

lemmas encode_eval = EncodeCard_def sample_card_def body_lines_def sorted_keys_def formatLine_def
  format_params_def escapeValue_eq normalizeNewlines_def uriValued_def listValued_def
  structuredValued_def textEscaper_def text_escape_char_def BACKSLASH_def equal_fold_def
  fold_rune_def unlines_def index_def Let_def

lemma sample_card_encoded:
  "EncodeCard (table_lib []) sample_card = Inr (unlines [''BEGIN:VCARD'', ''VERSION:4.0'',
     ''EMAIL:a@b'', ''FN:Ada'' @ [BACKSLASH] @ ''nL'', ''END:VCARD''])"
  by (simp add: encode_eval go_simps)

lemma sample_card_clean: "clean_card sample_card"
  by (simp add: clean_card_def clean_field_def sample_card_def plain_line_def go_simps)

theorem EncodeCard_one_line_per_field_witness:
  "\<exists>version. gv_get (table_lib []) sample_card ''VERSION'' = Some version
    \<and> length (splitLines (unlines [''BEGIN:VCARD'', ''VERSION:4.0'', ''EMAIL:a@b'',
         ''FN:Ada'' @ [BACKSLASH] @ ''nL'', ''END:VCARD''])) = 3 + length (body_lines unicode_ascii sample_card)"
  using EncodeCard_one_line_per_field [OF table_lib_get sample_card_clean sample_card_encoded] by auto

text \<open>The encoded text does not depend on the order in which Go iterates over the map.\<close>

theorem EncodeCard_order_independent:
  assumes "get_is_first L" and "wf_map c" "wf_map c'" and "map_of c = map_of c'"
  shows "EncodeCard L c = EncodeCard L c'"
proof -
  have idx: "index c k = index c' k" for k
    by (rule index_cong) (rule assms(4))
  have "gv_get L c ''VERSION'' = gv_get L c' ''VERSION''"
    using assms(1) by (simp add: get_is_first_def idx)
  moreover have "body_lines U c = body_lines U c'" for U
    by (simp add: body_lines_def sorted_keys_cong [OF assms(2-4)] idx)
  ultimately show ?thesis
    by (simp add: EncodeCard_def split: option.split)
qed

theorem EncodeCard_order_independent_witness:
  "EncodeCard (table_lib []) sample_card = EncodeCard (table_lib []) (rev sample_card)"
  by (rule EncodeCard_order_independent [OF table_lib_get])
    (simp_all add: sample_card_def wf_map_def fun_eq_iff)

subsection \<open>Encoded cards are split back\<close>

lemma up_char_colon: "up_char c = CHR '':'' \<longleftrightarrow> c = CHR '':''"
  by (auto simp: up_char_def char_of_eq_iff take_bit_eq_mod)

lemma prefix_mismatch:
  assumes "has_prefix (nu @ d # x) (B @ CHR '':'' # y)" and "CHR '':'' \<notin> set nu"
    and "d \<in> {CHR '':'', CHR '';'', CHR ''.''}" and "set B \<inter> {CHR '':'', CHR '';'', CHR ''.''} = {}"
  shows "nu = B \<and> d = CHR '':''"
  using assms
proof (induction nu arbitrary: B)
  case Nil
  then show ?case by (cases B) auto
next
  case (Cons c nu)
  then show ?case by (cases B) auto
qed

lemma name_not_delimiter:
  assumes n: "name_ok n" and d: "d \<in> {CHR '':'', CHR '';'', CHR ''.''}"
  shows "\<not> is_begin U (n @ d # s) \<and> \<not> is_end U (n @ d # s)"
proof -
  obtain c n' where cn: "n = c # n'" using n by (cases n) (auto simp: name_ok_def)
  have name: "\<forall>x \<in> set n. visible x \<and> x \<noteq> CHR '':''" using n by (simp add: name_ok_def)
  have "visible c" using name cn by simp
  moreover have "visible d" using d by (elim insertE emptyE) (simp_all add: visible_def)
  ultimately obtain t where t: "trim_space (n @ d # s) = n @ d # t"
    using trim_space_visible_prefix [of c d n' s] cn by auto
  have asc: "ascii n" using name by (auto simp: ascii_def visible_def)
  have d': "of_char d < (128 :: nat)" "up_char d = d" using d by (auto simp: up_char_def)
  have up: "to_upper U (n @ d # t) = map up_char n @ d # to_upper U t"
    using d' by (simp add: to_upper_ascii_append [OF asc])
  have nocol: "CHR '':'' \<notin> set (map up_char n)"
    using name up_char_colon by force
  have nb: "\<not> has_prefix (map up_char n @ d # to_upper U t) (''BEGIN'' @ CHR '':'' # ''VCARD'')"
  proof
    assume "has_prefix (map up_char n @ d # to_upper U t) (''BEGIN'' @ CHR '':'' # ''VCARD'')"
    from prefix_mismatch [OF this nocol d] have "map up_char n = ''BEGIN''" by simp
    with n show False by (simp add: name_ok_def)
  qed
  have ne: "\<not> has_prefix (map up_char n @ d # to_upper U t) (''END'' @ CHR '':'' # ''VCARD'')"
  proof
    assume "has_prefix (map up_char n @ d # to_upper U t) (''END'' @ CHR '':'' # ''VCARD'')"
    from prefix_mismatch [OF this nocol d] have "map up_char n = ''END''" by simp
    with n show False by (simp add: name_ok_def)
  qed
  from nb ne show ?thesis by (simp add: is_begin_def is_end_def t up)
qed

lemma format_params_starts:
  "concat (map (\<lambda>pk. concat (map (\<lambda>pv. '';'' @ pk @ ''='' @ textEscaper (normalizeNewlines pv)) (vs pk))) ks)
     = d # s \<Longrightarrow> d = CHR '';''"
proof (induction ks)
  case (Cons k ks)
  then show ?case by (cases "vs k") auto
qed simp

lemma formatLine_starts:
  assumes "name_ok k" "f_group f = [] \<or> name_ok (f_group f)"
  shows "\<exists>n d s. formatLine U k f = n @ d # s \<and> name_ok n \<and> d \<in> {CHR '':'', CHR '';'', CHR ''.''}"
proof (cases "f_group f = []")
  case False
  then show ?thesis
    using assms
    by (intro exI [of _ "f_group f"] exI [of _ "CHR ''.''"]
        exI [of _ "k @ format_params (f_params f) @ '':'' @ escapeValue U k (f_value f)"])
      (auto simp: formatLine_def)
next
  case True
  show ?thesis
  proof (cases "format_params (f_params f)")
    case Nil
    with True assms show ?thesis
      by (intro exI [of _ k] exI [of _ "CHR '':''"] exI [of _ "escapeValue U k (f_value f)"])
        (simp add: formatLine_def)
  next
    case (Cons d s)
    then have "d = CHR '';''"
      unfolding format_params_def by (rule format_params_starts)
    with Cons True assms show ?thesis
      by (intro exI [of _ k] exI [of _ "CHR '';''"] exI [of _ "s @ '':'' @ escapeValue U k (f_value f)"])
        (simp add: formatLine_def)
  qed
qed

lemma decoded_card_clean: "decoded_card c \<Longrightarrow> clean_card c"
  by (fastforce simp: decoded_card_def clean_card_def name_ok_def plain_line_def visible_def CR_def LF_def)

lemma decoded_line_not_delimiter:
  assumes "decoded_card c" "f \<in> set (index c k)"
  shows "\<not> is_begin U (formatLine U k f) \<and> \<not> is_end U (formatLine U k f)"
proof -
  obtain fs where "(k, fs) \<in> set c" "f \<in> set fs"
    using index_in_set [OF assms(2)] by blast
  with assms(1) have "name_ok k" "f_group f = [] \<or> name_ok (f_group f)"
    by (auto simp: decoded_card_def)
  then obtain n d s where "formatLine U k f = n @ d # s" "name_ok n" "d \<in> {CHR '':'', CHR '';'', CHR ''.''}"
    using formatLine_starts by blast
  then show ?thesis using name_not_delimiter by simp
qed

lemma delimiter_lines:
  "is_begin U ''BEGIN:VCARD''" "\<not> is_end U ''BEGIN:VCARD''"
  "is_end U ''END:VCARD''" "\<not> is_begin U ''END:VCARD''"
  by (simp_all add: is_begin_def is_end_def go_simps)

lemma EncodeCard_stored:
  assumes "get_is_first L" "decoded_card c" "EncodeCard L c = Inr s"
  shows "stored_card (l_unicode L) s \<and> Terminated s = s"
proof -
  let ?U = "l_unicode L"
  from EncodeCard_lines [OF assms(1) decoded_card_clean [OF assms(2)] assms(3)]
  obtain version where v: "gv_get L c ''VERSION'' = Some version"
    and s: "s = unlines ([''BEGIN:VCARD'', formatLine ?U ''VERSION'' version] @ body_lines ?U c @ [''END:VCARD''])"
    and plain: "\<forall>l \<in> set ([''BEGIN:VCARD'', formatLine ?U ''VERSION'' version]
      @ body_lines ?U c @ [''END:VCARD'']). plain_line l"
    by blast
  let ?inner = "formatLine ?U ''VERSION'' version # body_lines ?U c"
  have "version \<in> set (index c ''VERSION'')"
    using v assms(1) by (auto simp: get_is_first_def split: list.splits)
  then have inner: "\<forall>l \<in> set ?inner. \<not> is_begin ?U l \<and> \<not> is_end ?U l"
    using decoded_line_not_delimiter [OF assms(2)] by (auto simp: body_lines_mem)
  have lines: "s = unlines (''BEGIN:VCARD'' # ?inner @ [''END:VCARD''])"
    using s by simp
  have "card_lines ?U (''BEGIN:VCARD'' # ?inner @ [''END:VCARD''])"
    unfolding card_lines_def
    by (intro exI [of _ "''BEGIN:VCARD''"] exI [of _ ?inner] exI [of _ "''END:VCARD''"])
      (use inner plain delimiter_lines in simp)
  moreover have "Terminated s = s"
    unfolding lines by (rule Terminated_unlines) (use plain in auto)
  ultimately show ?thesis
    using stored_card_unlines lines by metis
qed

text \<open>A file of cards written one after another by \<open>EncodeCard\<close> is cut apart by
  \<open>SplitVCards\<close> into exactly the encoded cards.\<close>

theorem EncodeCard_split_roundtrip:
  assumes "get_is_first L" and "\<forall>c \<in> set cs. decoded_card c \<and> EncodeCard L c = Inr (enc c)"
  shows "SplitVCards (l_unicode L) (concat (map enc cs)) = map enc cs"
proof -
  have st: "\<forall>s \<in> set (map enc cs). stored_card (l_unicode L) s \<and> Terminated s = s"
    using assms EncodeCard_stored by auto
  then have "map Terminated (map enc cs) = map enc cs"
    by (intro map_idI) auto
  moreover obtain css where "\<forall>lines \<in> set css. card_lines (l_unicode L) lines"
    and "map unlines css = map Terminated (map enc cs)"
    using concat_Terminated_unlines [of "map enc cs" "l_unicode L"] st by blast
  ultimately show ?thesis
    using SplitVCards_unlines [of css "l_unicode L"] by (simp only: concat_map_unlines [symmetric])
qed

theorem EncodeCard_split_roundtrip_witness:
  "SplitVCards unicode_ascii (concat (map (\<lambda>c. CardToString (table_lib []) c) [sample_card, sample_card]))
    = [CardToString (table_lib []) sample_card, CardToString (table_lib []) sample_card]"
proof -
  have "decoded_card sample_card"
    by (simp add: decoded_card_def sample_card_def wf_map_def name_ok_def clean_field_def go_simps)
  moreover have "EncodeCard (table_lib []) sample_card = Inr (CardToString (table_lib []) sample_card)"
    by (simp add: CardToString_def sample_card_encoded)
  ultimately show ?thesis
    using EncodeCard_split_roundtrip [of "table_lib []" "[sample_card, sample_card]"
        "CardToString (table_lib [])"] by simp
qed

end
