(* ===== verification/VCardMerge.thy ===== *)
theory VCardMerge
  imports VCardEncode
begin

text \<open>
  \<open>internal/vcard/merge_cards.go\<close>: merging two cards value by value. Every value of either card
  has an identifier derived from its content; a selection names, property by property, the
  identifiers to keep.
\<close>

section \<open>Definitions\<close>

datatype mc_error = ParseWinner string | ParseLoser string | EncodeMerged encode_error

definition alwaysFromWinner :: "string \<Rightarrow> bool" where
  "alwaysFromWinner k \<longleftrightarrow> k = ''VERSION'' \<or> k = ''UID''"

type_synonym value_id = string
type_synonym selection = "value_id list go_map"

record value_ref =
  vr_id :: value_id
  vr_property :: string
  vr_value :: string
  vr_params :: "string go_map"
  vr_side :: string

text \<open>The bytes hashed: the property, the value, and each parameter with its values.\<close>

definition value_bytes :: "lib \<Rightarrow> string \<Rightarrow> field \<Rightarrow> string" where
  "value_bytes L property f =
     to_upper (l_unicode L) property @ [CHR 0x00] @ f_value f
     @ concat (map (\<lambda>k. [CHR 0x00] @ k @ concat (map (\<lambda>v. CHR 0x01 # v) (index (f_params f) k)))
         (sorted_keys (f_params f)))"

definition valueID :: "lib \<Rightarrow> string \<Rightarrow> field \<Rightarrow> value_id" where
  "valueID L property f = hex (take 12 (l_sha256 L (value_bytes L property f)))"

definition flattenParams :: "string list go_map \<Rightarrow> string go_map" where
  "flattenParams ps = map (\<lambda>(k, vs). (k, join '','' vs)) ps"

definition decodeCard :: "lib \<Rightarrow> string \<Rightarrow> string + vcard" where
  "decodeCard L data = (if trim_space data = [] then Inr [] else gv_decode L data)"

text \<open>One value met by \<open>collect\<close>: marked as on both sides when its identifier was seen.\<close>

definition collect_value :: "lib \<Rightarrow> string \<Rightarrow> string \<Rightarrow> field \<Rightarrow> value_ref list \<Rightarrow> value_ref list" where
  "collect_value L side property f refs =
     (if trim_space (f_value f) = [] then refs
      else let i = valueID L property f
        in if i \<in> vr_id ` set refs
           then map (\<lambda>r. if vr_id r = i then r\<lparr>vr_side := ''both''\<rparr> else r) refs
           else refs @ [\<lparr>vr_id = i, vr_property = to_upper (l_unicode L) property, vr_value = f_value f,
                         vr_params = flattenParams (f_params f), vr_side = side\<rparr>])"

definition collect :: "lib \<Rightarrow> vcard \<Rightarrow> string \<Rightarrow> value_ref list \<Rightarrow> value_ref list" where
  "collect L c side refs =
     fold (\<lambda>property rs. if alwaysFromWinner (to_upper (l_unicode L) property) then rs
             else fold (collect_value L side property) (index c property) rs)
       (sorted_keys c) refs"

definition Candidates :: "lib \<Rightarrow> string \<Rightarrow> string \<Rightarrow> mc_error + value_ref list" where
  "Candidates L winner loser =
     (case decodeCard L winner of Inl e \<Rightarrow> Inl (ParseWinner e) | Inr w \<Rightarrow>
      (case decodeCard L loser of Inl e \<Rightarrow> Inl (ParseLoser e) | Inr l \<Rightarrow>
       Inr (collect L l ''loser'' (collect L w ''winner'' []))))"

definition fieldsFor :: "lib \<Rightarrow> vcard \<Rightarrow> string \<Rightarrow> field list" where
  "fieldsFor L c property =
     (case map_of c property of
        Some f \<Rightarrow> f
      | None \<Rightarrow> (case find (\<lambda>kf. equal_fold (l_unicode L) (fst kf) property) c of
                  Some kf \<Rightarrow> snd kf | None \<Rightarrow> []))"

definition propertyUnion :: "lib \<Rightarrow> vcard list \<Rightarrow> string list" where
  "propertyUnion L cards = sort (remdups (concat (map (\<lambda>c. map (\<lambda>kf. to_upper (l_unicode L) (fst kf)) c) cards)))"

text \<open>The loop over the fields of one property: the wanted identifiers shrink as they are used.\<close>

fun pick :: "lib \<Rightarrow> string \<Rightarrow> value_id list \<Rightarrow> field list \<Rightarrow> field list" where
  "pick L property wanted [] = []"
| "pick L property wanted (f # fs) =
     (let i = valueID L property f
      in if i \<in> set wanted then f # pick L property (filter (\<lambda>j. j \<noteq> i) wanted) fs
         else pick L property wanted fs)"

definition selected_fields :: "lib \<Rightarrow> vcard \<Rightarrow> vcard \<Rightarrow> selection \<Rightarrow> string \<Rightarrow> field list option" where
  "selected_fields L w l sel property =
     (if alwaysFromWinner property then None
      else let fields = (case map_of sel property of
                           None \<Rightarrow> fieldsFor L w property
                         | Some keep \<Rightarrow> pick L property keep (fieldsFor L w property @ fieldsFor L l property))
        in if fields = [] then None else Some fields)"

definition winner_identity :: "vcard \<Rightarrow> vcard" where
  "winner_identity w =
     (let m = put [] ''VERSION'' (if index w ''VERSION'' \<noteq> [] then index w ''VERSION'' else [plain_field ''4.0''])
      in if index w ''UID'' \<noteq> [] then put m ''UID'' (index w ''UID'') else m)"

definition selected_card :: "lib \<Rightarrow> vcard \<Rightarrow> vcard \<Rightarrow> selection \<Rightarrow> vcard" where
  "selected_card L w l sel = fill (winner_identity w) (selected_fields L w l sel) (propertyUnion L [w, l])"

definition MergeCards :: "lib \<Rightarrow> string \<Rightarrow> string \<Rightarrow> selection \<Rightarrow> mc_error + string" where
  "MergeCards L winner loser sel =
     (case decodeCard L winner of Inl e \<Rightarrow> Inl (ParseWinner e) | Inr w \<Rightarrow>
      (case decodeCard L loser of Inl e \<Rightarrow> Inl (ParseLoser e) | Inr l \<Rightarrow>
       (case EncodeCard L (selected_card L w l sel) of
          Inl e \<Rightarrow> Inl (EncodeMerged e) | Inr out \<Rightarrow> Inr out)))"

text \<open>Decoded property names are upper case, as \<open>go-vcard\<close> stores them.\<close>

definition upper_keys :: "lib \<Rightarrow> vcard \<Rightarrow> bool" where
  "upper_keys L c \<longleftrightarrow> (\<forall>k \<in> fst ` set c. to_upper (l_unicode L) k = k)"

text \<open>Two cards of one person, for closed examples.\<close>

definition mail_card :: "string \<Rightarrow> string \<Rightarrow> string \<Rightarrow> vcard" where
  "mail_card uid fn mail = [(''VERSION'', [plain_field ''4.0'']), (''UID'', [plain_field uid]),
     (''FN'', [plain_field fn]), (''EMAIL'', [plain_field mail])]"

definition merge_pair :: lib where
  "merge_pair = table_lib [(''winner'', mail_card ''u1'' ''Ada'' ''work''), (''loser'', mail_card ''u2'' ''Eve'' ''home'')]"

definition home_selection :: selection where
  "home_selection = [(''EMAIL'', [valueID merge_pair ''EMAIL'' (plain_field ''home'')])]"

definition everything :: selection where
  "everything = map (\<lambda>(k, fs). (k, map (valueID merge_pair k) fs))
     [(''FN'', [plain_field ''Ada'', plain_field ''Eve'']), (''EMAIL'', [plain_field ''work'', plain_field ''home''])]"

section \<open>Lemmas\<close>

lemma pick_subset: "set (pick L k wanted fs) \<subseteq> set fs"
  by (induction L k wanted fs rule: pick.induct) (auto simp: Let_def)

lemma pick_ids: "valueID L k ` set (pick L k wanted fs) = set wanted \<inter> valueID L k ` set fs"
proof (induction L k wanted fs rule: pick.induct)
  case (2 L k wanted f fs)
  show ?case
  proof (cases "valueID L k f \<in> set wanted")
    case True
    have "valueID L k ` set (pick L k wanted (f # fs)) =
      insert (valueID L k f) (set (filter (\<lambda>j. j \<noteq> valueID L k f) wanted) \<inter> valueID L k ` set fs)"
      using 2(1) [OF refl True] True by (simp add: Let_def)
    then show ?thesis using True by auto
  next
    case False
    then show ?thesis using 2(2) [OF refl False] by (simp add: Let_def)
  qed
qed simp

lemma pick_distinct: "distinct (map (valueID L k) (pick L k wanted fs))"
proof (induction L k wanted fs rule: pick.induct)
  case (2 L k wanted f fs)
  show ?case
  proof (cases "valueID L k f \<in> set wanted")
    case True
    have "valueID L k f \<notin> valueID L k ` set (pick L k (filter (\<lambda>j. j \<noteq> valueID L k f) wanted) fs)"
      by (auto simp: pick_ids)
    then show ?thesis using 2(1) [OF refl True] True by (simp add: Let_def)
  next
    case False
    then show ?thesis using 2(2) [OF refl False] by (simp add: Let_def)
  qed
qed simp

lemma pick_append: "pick L k wanted (as @ bs) = pick L k wanted as @ pick L k (filter (\<lambda>j. j \<notin> valueID L k ` set as) wanted) bs"
proof (induction as arbitrary: wanted)
  case (Cons a as)
  have "filter (\<lambda>j. j \<noteq> valueID L k a \<and> j \<notin> valueID L k ` set as) wanted = filter (\<lambda>j. j \<notin> valueID L k ` set as) wanted" if "valueID L k a \<notin> set wanted"
    using that by (intro filter_cong) auto
  then show ?case using Cons by (auto simp: Let_def conj_commute)
qed simp

lemma pick_subseqs: "pick L k wanted fs \<in> set (subseqs fs)"
  by (induction L k wanted fs rule: pick.induct) (auto simp: Let_def)

lemma winner_identity_map_of:
  "map_of (winner_identity w) k =
     (if k = ''VERSION'' then Some (if index w ''VERSION'' \<noteq> [] then index w ''VERSION'' else [plain_field ''4.0''])
      else if k = ''UID'' \<and> index w ''UID'' \<noteq> [] then Some (index w ''UID'') else None)"
  by (simp add: winner_identity_def Let_def)

lemma set_propertyUnion:
  "set (propertyUnion L cs) = (\<Union>c \<in> set cs. (\<lambda>kf. to_upper (l_unicode L) (fst kf)) ` set c)"
  by (simp add: propertyUnion_def)

lemma fieldsFor_key: "k \<in> fst ` set c \<Longrightarrow> fieldsFor L c k = index c k"
  by (auto simp: fieldsFor_def index_def map_of_eq_None_iff split: option.splits)

lemma map_of_selected_card:
  "map_of (selected_card L w l sel) k =
     (if k \<in> set (propertyUnion L [w, l]) \<and> selected_fields L w l sel k \<noteq> None then selected_fields L w l sel k
      else map_of (winner_identity w) k)"
  by (simp add: selected_card_def map_of_fill)

lemma MergeCards_Inr:
  assumes "MergeCards L winner loser sel = Inr out"
  obtains w l where "decodeCard L winner = Inr w" "decodeCard L loser = Inr l"
    "EncodeCard L (selected_card L w l sel) = Inr out"
  using assms by (auto simp: MergeCards_def split: sum.splits)

lemma selected_card_index:
  assumes "k \<in> set (propertyUnion L [w, l])" "\<not> alwaysFromWinner k"
  shows "index (selected_card L w l sel) k = (case map_of sel k of None \<Rightarrow> fieldsFor L w k
    | Some keep \<Rightarrow> pick L k keep (fieldsFor L w k @ fieldsFor L l k))"
proof -
  have "map_of (winner_identity w) k = None"
    using assms(2) by (auto simp: winner_identity_map_of alwaysFromWinner_def)
  then show ?thesis
    using assms by (auto simp: index_def map_of_selected_card selected_fields_def Let_def split: option.splits)
qed

lemma selected_card_identity:
  "index (selected_card L w l sel) ''UID'' = index w ''UID''"
  "index w ''VERSION'' \<noteq> [] \<Longrightarrow> index (selected_card L w l sel) ''VERSION'' = index w ''VERSION''"
  "index w ''VERSION'' = [] \<Longrightarrow> index (selected_card L w l sel) ''VERSION'' = [plain_field ''4.0'']"
  by (auto simp: index_def [of "selected_card L w l sel"] map_of_selected_card selected_fields_def
      alwaysFromWinner_def winner_identity_map_of)

lemma selected_card_encodes:
  assumes "get_is_first L" "index w ''VERSION'' \<noteq> []"
  shows "\<exists>out. EncodeCard L (selected_card L w l sel) = Inr out"
  using assms selected_card_identity(2) [OF assms(2), of L l sel]
  by (auto simp: EncodeCard_def get_is_first_def Let_def split: list.splits option.splits)

text \<open>C23: a value-level merge keeps exactly what was chosen. For every property the selection
  names, the merged card has the values whose identifiers were selected, each identifier once: first those of the
  winner, in their order, then those of the loser that the winner does not have, in theirs. A property it does not name has the winner's values.
  UID is the winner's whatever was selected, and so is VERSION; it is 4.0 when the winner has none.\<close>

theorem MergeCards_selection_exact:
  assumes "MergeCards L winner loser sel = Inr out"
    and "decodeCard L winner = Inr w" "decodeCard L loser = Inr l"
  shows "\<exists>m. EncodeCard L m = Inr out
    \<and> index m ''UID'' = index w ''UID''
    \<and> index m ''VERSION'' = (if index w ''VERSION'' \<noteq> [] then index w ''VERSION'' else [plain_field ''4.0''])
    \<and> (\<forall>k \<in> set (propertyUnion L [w, l]). \<not> alwaysFromWinner k \<longrightarrow>
        (case map_of sel k of
           None \<Rightarrow> index m k = fieldsFor L w k
         | Some keep \<Rightarrow> distinct (map (valueID L k) (index m k)) \<and> (\<exists>own others. index m k = own @ others
             \<and> own \<in> set (subseqs (fieldsFor L w k)) \<and> others \<in> set (subseqs (fieldsFor L l k))
             \<and> valueID L k ` set own = set keep \<inter> valueID L k ` set (fieldsFor L w k)
             \<and> valueID L k ` set others = set keep \<inter> valueID L k ` set (fieldsFor L l k) - valueID L k ` set (fieldsFor L w k))))"
proof -
  let ?m = "selected_card L w l sel"
  have enc: "EncodeCard L ?m = Inr out"
    using assms by (auto elim!: MergeCards_Inr)
  have pick: "distinct (map (valueID L k) (pick L k keep (as @ bs))) \<and> (\<exists>own others. pick L k keep (as @ bs) = own @ others
      \<and> own \<in> set (subseqs as) \<and> others \<in> set (subseqs bs) \<and> valueID L k ` set own = set keep \<inter> valueID L k ` set as
      \<and> valueID L k ` set others = set keep \<inter> valueID L k ` set bs - valueID L k ` set as)" for k keep as bs
    by (rule conjI [OF pick_distinct], rule exI, rule exI, rule conjI [OF pick_append])
      (auto simp: pick_subseqs pick_ids)
  have "case map_of sel k of
           None \<Rightarrow> index ?m k = fieldsFor L w k
         | Some keep \<Rightarrow> distinct (map (valueID L k) (index ?m k)) \<and> (\<exists>own others. index ?m k = own @ others
             \<and> own \<in> set (subseqs (fieldsFor L w k)) \<and> others \<in> set (subseqs (fieldsFor L l k))
             \<and> valueID L k ` set own = set keep \<inter> valueID L k ` set (fieldsFor L w k)
             \<and> valueID L k ` set others = set keep \<inter> valueID L k ` set (fieldsFor L l k) - valueID L k ` set (fieldsFor L w k))"
    if k: "k \<in> set (propertyUnion L [w, l])" "\<not> alwaysFromWinner k" for k
    unfolding selected_card_index [OF k] by (simp add: pick del: pick.simps split: option.split)
  then show ?thesis using enc selected_card_identity(1) [of L w l sel] selected_card_identity(2,3) [of w L l sel]
    by (intro exI [of _ ?m] conjI ballI impI) auto
qed

lemma pair_decoded:
  "decodeCard merge_pair ''winner'' = Inr (mail_card ''u1'' ''Ada'' ''work'')"
  "decodeCard merge_pair ''loser'' = Inr (mail_card ''u2'' ''Eve'' ''home'')"
  by (simp_all add: decodeCard_def merge_pair_def go_simps)

lemma pair_merges: obtains out where "MergeCards merge_pair ''winner'' ''loser'' sel = Inr out"
proof -
  have "get_is_first merge_pair" "index (mail_card ''u1'' ''Ada'' ''work'') ''VERSION'' \<noteq> []"
    by (simp_all add: merge_pair_def mail_card_def index_def)
  then obtain out where "EncodeCard merge_pair (selected_card merge_pair (mail_card ''u1'' ''Ada'' ''work'')
      (mail_card ''u2'' ''Eve'' ''home'') sel) = Inr out"
    using selected_card_encodes by blast
  then have "MergeCards merge_pair ''winner'' ''loser'' sel = Inr out"
    by (simp add: MergeCards_def pair_decoded)
  then show ?thesis by (rule that)
qed

theorem MergeCards_selection_exact_witness:
  "\<exists>m out. EncodeCard merge_pair m = Inr out
    \<and> MergeCards merge_pair ''winner'' ''loser'' home_selection = Inr out
    \<and> index m ''UID'' = [plain_field ''u1''] \<and> index m ''FN'' = [plain_field ''Ada'']
    \<and> valueID merge_pair ''EMAIL'' ` set (index m ''EMAIL'') = {valueID merge_pair ''EMAIL'' (plain_field ''home'')}"
proof -
  note w = pair_decoded(1) and l = pair_decoded(2)
  obtain out where out: "MergeCards merge_pair ''winner'' ''loser'' home_selection = Inr out"
    by (rule pair_merges)
  have keys: "''FN'' \<in> set (propertyUnion merge_pair [mail_card ''u1'' ''Ada'' ''work'', mail_card ''u2'' ''Eve'' ''home''])"
    "''EMAIL'' \<in> set (propertyUnion merge_pair [mail_card ''u1'' ''Ada'' ''work'', mail_card ''u2'' ''Eve'' ''home''])"
    by (simp_all add: set_propertyUnion mail_card_def merge_pair_def go_simps)
  have only: "map_of home_selection ''FN'' = None"
    "map_of home_selection ''EMAIL'' = Some [valueID merge_pair ''EMAIL'' (plain_field ''home'')]"
    by (simp_all add: home_selection_def)
  have fields: "fieldsFor merge_pair (mail_card u fn e) ''FN'' = [plain_field fn]"
    "fieldsFor merge_pair (mail_card u fn e) ''EMAIL'' = [plain_field e]"
    "index (mail_card u fn e) ''UID'' = [plain_field u]" for u fn e
    by (simp_all add: fieldsFor_def mail_card_def index_def)
  let ?w = "mail_card ''u1'' ''Ada'' ''work''" and ?l = "mail_card ''u2'' ''Eve'' ''home''" and ?id = "valueID merge_pair"
  from MergeCards_selection_exact [OF out w l] obtain m where m: "EncodeCard merge_pair m = Inr out" "index m ''UID'' = index ?w ''UID''"
    and sel: "\<forall>k \<in> set (propertyUnion merge_pair [?w, ?l]). \<not> alwaysFromWinner k \<longrightarrow> (case map_of home_selection k of
        None \<Rightarrow> index m k = fieldsFor merge_pair ?w k
      | Some keep \<Rightarrow> distinct (map (?id k) (index m k)) \<and> (\<exists>own others. index m k = own @ others
          \<and> own \<in> set (subseqs (fieldsFor merge_pair ?w k)) \<and> others \<in> set (subseqs (fieldsFor merge_pair ?l k))
          \<and> ?id k ` set own = set keep \<inter> ?id k ` set (fieldsFor merge_pair ?w k)
          \<and> ?id k ` set others = set keep \<inter> ?id k ` set (fieldsFor merge_pair ?l k) - ?id k ` set (fieldsFor merge_pair ?w k)))" by blast
  have fn: "index m ''FN'' = [plain_field ''Ada'']" using bspec [OF sel keys(1)] by (simp add: only fields alwaysFromWinner_def)
  obtain own others where "index m ''EMAIL'' = own @ others" "?id ''EMAIL'' ` set own = {?id ''EMAIL'' (plain_field ''home'')} \<inter> {?id ''EMAIL'' (plain_field ''work'')}"
    "?id ''EMAIL'' ` set others = {?id ''EMAIL'' (plain_field ''home'')} - {?id ''EMAIL'' (plain_field ''work'')}"
    using bspec [OF sel keys(2)] by (auto simp: only fields alwaysFromWinner_def)
  then have "?id ''EMAIL'' ` set (index m ''EMAIL'') = {?id ''EMAIL'' (plain_field ''home'')}" by (simp add: image_Un) blast
  with m fn out show ?thesis by (intro exI [of _ m] exI [of _ out]) (simp add: fields)
qed

text \<open>A merge with every value selected loses nothing: when each property's selection lists
  the identifiers of all its values on both sides, every value of either card survives under
  its identifier.\<close>

theorem MergeCards_all_selected_lossless:
  assumes "MergeCards L winner loser sel = Inr out"
    and "decodeCard L winner = Inr w" "decodeCard L loser = Inr l" and "upper_keys L w" "upper_keys L l"
    and all: "\<forall>k \<in> fst ` set w \<union> fst ` set l. \<not> alwaysFromWinner k \<longrightarrow>
      (\<exists>keep. map_of sel k = Some keep \<and> valueID L k ` (set (index w k) \<union> set (index l k)) \<subseteq> set keep)"
  shows "\<exists>m. EncodeCard L m = Inr out \<and> (\<forall>k f. \<not> alwaysFromWinner k \<longrightarrow>
    f \<in> set (index w k) \<union> set (index l k) \<longrightarrow> (\<exists>f' \<in> set (index m k). valueID L k f' = valueID L k f))"
proof -
  let ?m = "selected_card L w l sel"
  have enc: "EncodeCard L ?m = Inr out"
    using assms(1-3) by (auto elim!: MergeCards_Inr)
  have "\<exists>f' \<in> set (index ?m k). valueID L k f' = valueID L k f"
    if k: "\<not> alwaysFromWinner k" "f \<in> set (index w k) \<union> set (index l k)" for k f
  proof -
    have key: "k \<in> fst ` set w \<and> f \<in> set (index w k) \<or> k \<in> fst ` set l \<and> f \<in> set (index l k)"
      using k(2) index_not_key [of k w] index_not_key [of k l] by (cases "k \<in> fst ` set w"; cases "k \<in> fst ` set l") auto
    then have "k \<in> set (propertyUnion L [w, l])"
      using assms(4,5) by (auto simp: set_propertyUnion upper_keys_def rev_image_eqI)
    moreover obtain keep where keep: "map_of sel k = Some keep"
      "valueID L k ` (set (index w k) \<union> set (index l k)) \<subseteq> set keep"
      using all k(1) key by blast
    ultimately have "valueID L k ` set (index ?m k) =
        set keep \<inter> valueID L k ` set (fieldsFor L w k @ fieldsFor L l k)"
      using k(1) by (simp add: selected_card_index pick_ids)
    moreover have "f \<in> set (fieldsFor L w k @ fieldsFor L l k)"
      using key fieldsFor_key [of k w L] fieldsFor_key [of k l L] by (metis Un_iff set_append)
    moreover have "valueID L k f \<in> set keep" using keep(2) k(2) by blast
    ultimately have "valueID L k f \<in> valueID L k ` set (index ?m k)" by blast
    then show ?thesis by force
  qed
  with enc show ?thesis by blast
qed

theorem MergeCards_all_selected_lossless_witness:
  "\<exists>m out. MergeCards merge_pair ''winner'' ''loser'' everything = Inr out \<and> EncodeCard merge_pair m = Inr out
    \<and> (\<exists>f \<in> set (index m ''EMAIL''). valueID merge_pair ''EMAIL'' f = valueID merge_pair ''EMAIL'' (plain_field ''home''))"
proof -
  obtain out where out: "MergeCards merge_pair ''winner'' ''loser'' everything = Inr out"
    by (rule pair_merges)
  have up: "upper_keys merge_pair (mail_card u fn e)" for u fn e
    by (simp add: upper_keys_def mail_card_def merge_pair_def go_simps)
  have "\<forall>k \<in> fst ` set (mail_card ''u1'' ''Ada'' ''work'') \<union> fst ` set (mail_card ''u2'' ''Eve'' ''home'').
      \<not> alwaysFromWinner k \<longrightarrow> (\<exists>keep. map_of everything k = Some keep
        \<and> valueID merge_pair k ` (set (index (mail_card ''u1'' ''Ada'' ''work'') k)
            \<union> set (index (mail_card ''u2'' ''Eve'' ''home'') k)) \<subseteq> set keep)"
    by (simp add: everything_def mail_card_def index_def alwaysFromWinner_def)
  from MergeCards_all_selected_lossless [OF out pair_decoded up up this] obtain m
    where m: "EncodeCard merge_pair m = Inr out"
    and keep: "\<forall>k f. \<not> alwaysFromWinner k \<longrightarrow> f \<in> set (index (mail_card ''u1'' ''Ada'' ''work'') k)
       \<union> set (index (mail_card ''u2'' ''Eve'' ''home'') k) \<longrightarrow>
       (\<exists>f' \<in> set (index m k). valueID merge_pair k f' = valueID merge_pair k f)" by blast
  have "plain_field ''home'' \<in> set (index (mail_card ''u2'' ''Eve'' ''home'') ''EMAIL'')"
    by (simp add: mail_card_def index_def)
  with keep have "\<exists>f \<in> set (index m ''EMAIL''). valueID merge_pair ''EMAIL'' f = valueID merge_pair ''EMAIL'' (plain_field ''home'')"
    by (simp add: alwaysFromWinner_def)
  with out m show ?thesis by blast
qed

end
