(* ===== verification/ThreeWayMerge.thy ===== *)
theory ThreeWayMerge
  imports VCardEncode
begin

text \<open>
  \<open>internal/sync/merger.go\<close>: the field-by-field three-way merge the sync engine tries before
  it queues a conflict (\<open>MergeVCards\<close>), and the application of a user's choices
  (\<open>ApplyResolution\<close>). The loop of \<open>MergeVCards\<close> is split into the decision for one field
  (\<open>merge_field\<close>) and the two things it accumulates: the merged card and the conflicts.
  A value \<open>card[field]\<close> that is nil is \<open>None\<close>.
\<close>

section \<open>Definitions\<close>

datatype merge_error = ParseBase string | ParseLocal string | ParseRemote string | ErrRemoteCardEmpty

record field_conflict =
  fc_field :: string
  fc_base :: string
  fc_local :: string
  fc_remote :: string

record merge_result =
  mr_merged :: string
  mr_conflicts :: "field_conflict list"
  mr_auto :: bool

definition skipFields :: "string \<Rightarrow> bool" where
  "skipFields f \<longleftrightarrow> f \<in> {''UID'', ''VERSION''}"

definition parseCard :: "lib \<Rightarrow> string \<Rightarrow> string + vcard" where
  "parseCard L data = (if trim_space data = [] then Inr [] else gv_decode L data)"

definition serializeField :: "vcard \<Rightarrow> string \<Rightarrow> string" where
  "serializeField c k =
     (if index c k = [] then [] else join ''|'' (sort (map f_value (index c k))))"

definition fieldUnion :: "vcard list \<Rightarrow> string list" where
  "fieldUnion cards = key_union cards"

text \<open>UID and VERSION, always from the local card.\<close>

definition identity_fields :: "lib \<Rightarrow> vcard \<Rightarrow> vcard" where
  "identity_fields L localCard =
     put (if gv_get L localCard ''UID'' \<noteq> None
          then [(''UID'', index localCard ''UID'')] else [])
       ''VERSION''
       (if gv_get L localCard ''VERSION'' \<noteq> None then index localCard ''VERSION''
        else [plain_field ''3.0''])"

text \<open>One turn of the loop: \<open>Inl\<close> the conflict it appends, or \<open>Inr\<close> the fields it chose.\<close>

definition merge_field ::
  "bool \<Rightarrow> vcard \<Rightarrow> vcard \<Rightarrow> vcard \<Rightarrow> string \<Rightarrow> field_conflict + field list option" where
  "merge_field noBase baseCard localCard remoteCard k =
     (let baseVal = serializeField baseCard k;
          localVal = serializeField localCard k;
          remoteVal = serializeField remoteCard k
      in if noBase then
           (if localVal = remoteVal then Inr (map_of localCard k)
            else Inl \<lparr>fc_field = k, fc_base = [], fc_local = localVal, fc_remote = remoteVal\<rparr>)
         else if localVal = baseVal \<and> remoteVal = baseVal then Inr (map_of baseCard k)
         else if localVal = baseVal \<and> remoteVal \<noteq> baseVal then Inr (map_of remoteCard k)
         else if localVal \<noteq> baseVal \<and> remoteVal = baseVal then Inr (map_of localCard k)
         else Inl \<lparr>fc_field = k, fc_base = baseVal, fc_local = localVal, fc_remote = remoteVal\<rparr>)"

text \<open>The fields the loop visits.\<close>

definition merge_keys :: "vcard list \<Rightarrow> string list" where
  "merge_keys cards = filter (\<lambda>k. \<not> skipFields k) (fieldUnion cards)"

definition merged_card :: "lib \<Rightarrow> bool \<Rightarrow> vcard \<Rightarrow> vcard \<Rightarrow> vcard \<Rightarrow> vcard" where
  "merged_card L noBase b l r =
     fill (identity_fields L l)
       (\<lambda>k. case merge_field noBase b l r k of Inl _ \<Rightarrow> None | Inr chosen \<Rightarrow> chosen)
       (merge_keys [b, l, r])"

definition merge_conflicts :: "bool \<Rightarrow> vcard \<Rightarrow> vcard \<Rightarrow> vcard \<Rightarrow> field_conflict list" where
  "merge_conflicts noBase b l r =
     concat (map (\<lambda>k. case merge_field noBase b l r k of Inl c \<Rightarrow> [c] | Inr _ \<Rightarrow> [])
       (merge_keys [b, l, r]))"

definition MergeVCards :: "lib \<Rightarrow> string \<Rightarrow> string \<Rightarrow> string \<Rightarrow> merge_error + merge_result" where
  "MergeVCards L bs ls rs =
     (case parseCard L bs of Inl e \<Rightarrow> Inl (ParseBase e) | Inr b \<Rightarrow>
      (case parseCard L ls of Inl e \<Rightarrow> Inl (ParseLocal e) | Inr l \<Rightarrow>
       (case parseCard L rs of Inl e \<Rightarrow> Inl (ParseRemote e) | Inr r \<Rightarrow>
        let conflicts = merge_conflicts (bs = []) b l r
        in Inr \<lparr>mr_merged = (if conflicts = [] then CardToString L (merged_card L (bs = []) b l r) else []),
                 mr_conflicts = conflicts, mr_auto = (conflicts = [])\<rparr>)))"

definition wildcardField :: string where "wildcardField = ''*''"

text \<open>The choice for one field: its own key, else the wildcard's; \<open>""\<close> when neither is there.\<close>

definition resolution_choice :: "string go_map \<Rightarrow> string \<Rightarrow> string" where
  "resolution_choice res k =
     (case map_of res k of Some c \<Rightarrow> c
      | None \<Rightarrow> (case map_of res wildcardField of Some c \<Rightarrow> c | None \<Rightarrow> []))"

definition resolved_card :: "lib \<Rightarrow> vcard \<Rightarrow> vcard \<Rightarrow> string go_map \<Rightarrow> vcard" where
  "resolved_card L l r res =
     fill (identity_fields L l)
       (\<lambda>k. if resolution_choice res k = ''remote'' then map_of r k else map_of l k)
       (merge_keys [l, r])"

definition ApplyResolution ::
  "lib \<Rightarrow> string \<Rightarrow> string \<Rightarrow> string go_map \<Rightarrow> merge_error + string" where
  "ApplyResolution L ls rs res =
     (if map_of res wildcardField = Some ''remote'' \<and> trim_space rs = [] then Inl ErrRemoteCardEmpty
      else case parseCard L ls of Inl e \<Rightarrow> Inl (ParseLocal e) | Inr l \<Rightarrow>
       (case parseCard L rs of Inl e \<Rightarrow> Inl (ParseRemote e) | Inr r \<Rightarrow>
        Inr (CardToString L (resolved_card L l r res))))"

text \<open>The specification of a three-way merge of one value: the side that moved wins, and it
  is a conflict when both moved.\<close>

definition merge3 :: "'a \<Rightarrow> 'a \<Rightarrow> 'a \<Rightarrow> 'a option" where
  "merge3 b l r = (if l = b then Some r else if r = b then Some l else None)"

text \<open>A card edited on both sides, for closed examples: the phone number locally, the name
  and the number remotely.\<close>

definition person :: "string \<Rightarrow> field list \<Rightarrow> vcard" where
  "person fn tel = [(''UID'', [plain_field ''u1'']), (''VERSION'', [plain_field ''4.0'']),
     (''FN'', [plain_field fn]), (''TEL'', tel)]"

definition merge_lib :: lib where
  "merge_lib = table_lib [(''base'', person ''Ada'' [plain_field ''1'']),
     (''local'', person ''Ada'' [plain_field ''2'']),
     (''remote'', person ''Eve'' [plain_field ''1'']),
     (''clash'', person ''Eve'' [plain_field ''3''])]"

section \<open>Lemmas\<close>

lemma serializeField_map_of: "map_of c k = map_of c' k' \<Longrightarrow> serializeField c k = serializeField c' k'"
  by (simp add: serializeField_def index_def)

lemma map_of_identity_fields:
  "map_of (identity_fields L l) k =
     (if k = ''VERSION'' then Some (if gv_get L l ''VERSION'' \<noteq> None then index l ''VERSION'' else [plain_field ''3.0''])
      else if k = ''UID'' \<and> gv_get L l ''UID'' \<noteq> None then Some (index l ''UID'') else None)"
  by (auto simp: identity_fields_def)

lemma wf_identity_fields [simp]: "wf_map (identity_fields L l)"
  by (auto simp: identity_fields_def wf_map_def)

lemma merge_keys_mem: "k \<in> set (merge_keys cs) \<longleftrightarrow> \<not> skipFields k \<and> k \<in> (\<Union>c \<in> set cs. fst ` set c)"
  by (auto simp: merge_keys_def fieldUnion_def)

text \<open>A key outside all cards has no value anywhere and no turn in the loop.\<close>

lemma not_merge_key:
  assumes "k \<notin> set (merge_keys cs)" "\<not> skipFields k" "c \<in> set cs"
  shows "map_of c k = None"
  using assms by (intro map_of_None_keys) (auto simp: merge_keys_mem)

lemma identity_fields_skip: "\<not> skipFields k \<Longrightarrow> map_of (identity_fields L l) k = None"
  by (auto simp: map_of_identity_fields skipFields_def)

lemma merge_field_absent:
  "map_of b k = None \<Longrightarrow> map_of l k = None \<Longrightarrow> map_of r k = None \<Longrightarrow>
   merge_field nb b l r k = Inr None"
  by (simp add: merge_field_def serializeField_def index_def Let_def)

lemma map_of_merged_card:
  assumes "\<not> skipFields k"
  shows "map_of (merged_card L nb b l r) k =
    (case merge_field nb b l r k of Inl _ \<Rightarrow> None | Inr chosen \<Rightarrow> chosen)"
proof (cases "k \<in> set (merge_keys [b, l, r])")
  case True
  then show ?thesis
    using identity_fields_skip [OF assms] by (auto simp: merged_card_def map_of_fill split: sum.split)
next
  case False
  then have "map_of b k = None" "map_of l k = None" "map_of r k = None"
    using not_merge_key [OF False assms] by simp_all
  with False show ?thesis
    using identity_fields_skip [OF assms] by (simp add: merged_card_def map_of_fill merge_field_absent)
qed

lemma merged_card_skip:
  "skipFields k \<Longrightarrow> map_of (merged_card L nb b l r) k = map_of (identity_fields L l) k"
  by (auto simp: merged_card_def map_of_fill merge_keys_mem)

lemma merge_field_conflict_field: "merge_field nb b l r k = Inl fc \<Longrightarrow> fc_field fc = k"
  by (auto simp: merge_field_def Let_def split: if_splits)

lemma merge_field_conflict_key:
  assumes "merge_field nb b l r k = Inl fc" "\<not> skipFields k"
  shows "k \<in> set (merge_keys [b, l, r])"
proof (rule ccontr)
  assume "k \<notin> set (merge_keys [b, l, r])"
  then have "map_of b k = None" "map_of l k = None" "map_of r k = None"
    using not_merge_key [OF _ assms(2)] by simp_all
  with assms(1) show False by (simp add: merge_field_absent)
qed

lemma merge_conflicts_iff:
  "fc \<in> set (merge_conflicts nb b l r) \<longleftrightarrow>
     \<not> skipFields (fc_field fc) \<and> merge_field nb b l r (fc_field fc) = Inl fc"
proof
  assume "fc \<in> set (merge_conflicts nb b l r)"
  then obtain k where k: "k \<in> set (merge_keys [b, l, r])" "merge_field nb b l r k = Inl fc"
    by (auto simp: merge_conflicts_def split: sum.splits)
  with merge_field_conflict_field [OF k(2)] show "\<not> skipFields (fc_field fc) \<and> merge_field nb b l r (fc_field fc) = Inl fc"
    by (simp add: merge_keys_mem)
next
  assume fc: "\<not> skipFields (fc_field fc) \<and> merge_field nb b l r (fc_field fc) = Inl fc"
  then have "fc_field fc \<in> set (merge_keys [b, l, r])"
    using merge_field_conflict_key by blast
  with fc show "fc \<in> set (merge_conflicts nb b l r)"
    by (force simp: merge_conflicts_def)
qed

lemma conflict_free_field:
  assumes "merge_conflicts nb b l r = []" "\<not> skipFields k"
  obtains chosen where "merge_field nb b l r k = Inr chosen"
proof (cases "merge_field nb b l r k")
  case (Inl fc)
  then have "fc \<in> set (merge_conflicts nb b l r)"
    using merge_field_conflict_field [OF Inl] assms(2) by (simp add: merge_conflicts_iff)
  with assms(1) show ?thesis by simp
next
  case (Inr chosen)
  then show ?thesis by (rule that)
qed

lemma merge_field_Inr_value:
  "merge_field False b l r k = Inr chosen \<Longrightarrow>
   (\<exists>c \<in> {b, l, r}. chosen = map_of c k \<and>
      merge3 (serializeField b k) (serializeField l k) (serializeField r k) = Some (serializeField c k))"
  by (auto simp: merge_field_def merge3_def Let_def split: if_splits)

lemma merge_field_noBase:
  "merge_field True b l r k = Inr chosen \<Longrightarrow>
   chosen = map_of l k \<and> serializeField l k = serializeField r k"
  by (auto simp: merge_field_def Let_def split: if_splits)

lemma MergeVCards_parsed:
  assumes "MergeVCards L bs ls rs = Inr res"
  obtains b l r where "parseCard L bs = Inr b" "parseCard L ls = Inr l" "parseCard L rs = Inr r"
    "mr_conflicts res = merge_conflicts (bs = []) b l r" "mr_auto res = (mr_conflicts res = [])"
    "mr_auto res \<Longrightarrow> mr_merged res = CardToString L (merged_card L (bs = []) b l r)"
  using assms by (auto simp: MergeVCards_def Let_def split: sum.splits)

lemma merged_card_identity:
  assumes "get_is_first L"
  shows "index (merged_card L nb b l r) ''UID'' = index l ''UID''"
proof -
  have "map_of (merged_card L nb b l r) ''UID'' = map_of (identity_fields L l) ''UID''"
    by (rule merged_card_skip) (simp add: skipFields_def)
  then show ?thesis
    using assms by (auto simp: index_def map_of_identity_fields get_is_first_def split: list.splits option.splits)
qed

text \<open>C21: a merge that reports success is the three-way merge of the values: every property
  of the merged card holds the value of the side that changed since the base (or the common
  value when there is no base), and the identity of the local card is kept.\<close>

theorem MergeVCards_three_way:
  assumes "get_is_first L" and "MergeVCards L bs ls rs = Inr res" and "mr_auto res"
    and "parseCard L bs = Inr b" "parseCard L ls = Inr l" "parseCard L rs = Inr r"
  shows "\<exists>m. mr_merged res = CardToString L m \<and> index m ''UID'' = index l ''UID''
    \<and> (\<forall>k. \<not> skipFields k \<longrightarrow>
        (if bs = [] then serializeField m k = serializeField l k \<and> serializeField m k = serializeField r k
         else merge3 (serializeField b k) (serializeField l k) (serializeField r k) = Some (serializeField m k)))"
proof -
  let ?m = "merged_card L (bs = []) b l r"
  have free: "merge_conflicts (bs = []) b l r = []" and merged: "mr_merged res = CardToString L ?m"
    using assms MergeVCards_parsed [OF assms(2)] by fastforce+
  have "if bs = [] then serializeField ?m k = serializeField l k \<and> serializeField ?m k = serializeField r k
    else merge3 (serializeField b k) (serializeField l k) (serializeField r k) = Some (serializeField ?m k)"
    if k: "\<not> skipFields k" for k
  proof -
    obtain chosen where ch: "merge_field (bs = []) b l r k = Inr chosen"
      using conflict_free_field [OF free k] .
    then have m: "map_of ?m k = chosen" by (simp add: map_of_merged_card [OF k])
    show ?thesis
    proof (cases "bs = []")
      case True
      then have "chosen = map_of l k \<and> serializeField l k = serializeField r k"
        using merge_field_noBase ch by simp
      with True m show ?thesis using serializeField_map_of [of ?m k l k] by simp
    next
      case False
      then obtain c where "chosen = map_of c k"
        "merge3 (serializeField b k) (serializeField l k) (serializeField r k) = Some (serializeField c k)"
        using merge_field_Inr_value ch by force
      with False m show ?thesis using serializeField_map_of [of ?m k c k] by simp
    qed
  qed
  with merged merged_card_identity [OF assms(1)] show ?thesis by blast
qed

lemma merge_lib_parse:
  "parseCard merge_lib ''base'' = Inr (person ''Ada'' [plain_field ''1''])"
  "parseCard merge_lib ''local'' = Inr (person ''Ada'' [plain_field ''2''])"
  "parseCard merge_lib ''remote'' = Inr (person ''Eve'' [plain_field ''1''])"
  "parseCard merge_lib ''clash'' = Inr (person ''Eve'' [plain_field ''3''])"
  by (simp_all add: parseCard_def merge_lib_def go_simps)

lemma merge_lib_get: "get_is_first merge_lib"
  by (simp add: merge_lib_def)

lemmas merge_eval = merge_conflicts_def merge_keys_def fieldUnion_def key_union_def person_def
  merge_field_def serializeField_def skipFields_def index_def Let_def

lemma person_serialize:
  "serializeField (person fn [t]) ''FN'' = fn" "serializeField (person fn [t]) ''TEL'' = f_value t"
  by (simp_all add: merge_eval)

lemma person_merge_conflicts:
  "merge_conflicts False (person ''Ada'' [plain_field ''1'']) (person ''Ada'' [plain_field ''2''])
     (person ''Eve'' [plain_field ''1'']) = []"
  "map fc_field (merge_conflicts False (person ''Ada'' [plain_field ''1'']) (person ''Ada'' [plain_field ''2''])
     (person ''Eve'' [plain_field ''3''])) = [''TEL'']"
  by (simp_all add: merge_eval)

theorem MergeVCards_three_way_witness:
  "\<exists>res m. MergeVCards merge_lib ''base'' ''local'' ''remote'' = Inr res \<and> mr_auto res
    \<and> mr_merged res = CardToString merge_lib m
    \<and> serializeField m ''FN'' = ''Eve'' \<and> serializeField m ''TEL'' = ''2''"
proof -
  obtain res where res: "MergeVCards merge_lib ''base'' ''local'' ''remote'' = Inr res" "mr_auto res"
    by (simp add: MergeVCards_def merge_lib_parse person_merge_conflicts)
  obtain m where m: "mr_merged res = CardToString merge_lib m"
    and vals: "\<forall>k. \<not> skipFields k \<longrightarrow> merge3 (serializeField (person ''Ada'' [plain_field ''1'']) k)
      (serializeField (person ''Ada'' [plain_field ''2'']) k)
      (serializeField (person ''Eve'' [plain_field ''1'']) k) = Some (serializeField m k)"
    using MergeVCards_three_way [OF merge_lib_get res merge_lib_parse(1,2,3)] by auto
  have "serializeField m ''FN'' = ''Eve''" "serializeField m ''TEL'' = ''2''"
    using spec [OF vals, of "''FN''"] spec [OF vals, of "''TEL''"]
    by (simp_all add: merge3_def person_serialize skipFields_def)
  with res m show ?thesis by blast
qed

text \<open>The fields reported as conflicts are exactly those both sides changed since the
  base, equal changes included, or, without a base, those on which the sides differ; and the
  merge succeeds exactly when there is none.\<close>

theorem MergeVCards_conflicts_exact:
  assumes "MergeVCards L bs ls rs = Inr res"
    and "parseCard L bs = Inr b" "parseCard L ls = Inr l" "parseCard L rs = Inr r"
  shows "fc_field ` set (mr_conflicts res) =
      {k. \<not> skipFields k \<and>
        (if bs = [] then serializeField l k \<noteq> serializeField r k
         else serializeField l k \<noteq> serializeField b k \<and> serializeField r k \<noteq> serializeField b k)}
    \<and> mr_auto res = (mr_conflicts res = [])"
proof -
  have cs: "mr_conflicts res = merge_conflicts (bs = []) b l r" and auto: "mr_auto res = (mr_conflicts res = [])"
    using assms MergeVCards_parsed [OF assms(1)] by fastforce+
  have both: "(\<exists>fc. merge_field (bs = []) b l r k = Inl fc) \<longleftrightarrow>
    (if bs = [] then serializeField l k \<noteq> serializeField r k
     else serializeField l k \<noteq> serializeField b k \<and> serializeField r k \<noteq> serializeField b k)" for k
    by (auto simp: merge_field_def Let_def)
  have "fc_field ` set (mr_conflicts res) = {k. \<not> skipFields k \<and> (\<exists>fc. merge_field (bs = []) b l r k = Inl fc)}"
    unfolding cs using merge_field_conflict_field merge_conflicts_iff by (auto simp: image_iff) metis+
  with both auto show ?thesis by simp
qed

theorem MergeVCards_conflicts_exact_witness:
  "\<exists>res. MergeVCards merge_lib ''base'' ''local'' ''clash'' = Inr res
    \<and> ''TEL'' \<in> fc_field ` set (mr_conflicts res) \<and> ''FN'' \<notin> fc_field ` set (mr_conflicts res)
    \<and> \<not> mr_auto res"
proof -
  obtain res where res: "MergeVCards merge_lib ''base'' ''local'' ''clash'' = Inr res"
    by (simp add: MergeVCards_def merge_lib_parse Let_def)
  have fields: "fc_field ` set (mr_conflicts res) = {k. \<not> skipFields k \<and>
      serializeField (person ''Ada'' [plain_field ''2'']) k \<noteq> serializeField (person ''Ada'' [plain_field ''1'']) k
      \<and> serializeField (person ''Eve'' [plain_field ''3'']) k \<noteq> serializeField (person ''Ada'' [plain_field ''1'']) k}"
    and auto: "mr_auto res = (mr_conflicts res = [])"
    using MergeVCards_conflicts_exact [OF res merge_lib_parse(1,2,4)] by simp_all
  have "''TEL'' \<in> fc_field ` set (mr_conflicts res)" "''FN'' \<notin> fc_field ` set (mr_conflicts res)"
    unfolding fields by (simp_all add: person_serialize skipFields_def)
  moreover from this(1) auto have "\<not> mr_auto res" by auto
  ultimately show ?thesis using res by blast
qed

text \<open>The comparison sees values only. When base, local and remote hold the same values
  of a property, the merged card takes the base's fields, so an edit of their parameters (the
  TYPE of a number, say) made on either side is dropped.\<close>

theorem MergeVCards_drops_parameter_edits:
  assumes "\<not> skipFields k"
    and "serializeField l k = serializeField b k" and "serializeField r k = serializeField b k"
  shows "map_of (merged_card L False b l r) k = map_of b k"
  using assms by (simp add: map_of_merged_card merge_field_def Let_def)

theorem MergeVCards_drops_parameter_edits_witness:
  "map_of (merged_card merge_lib False (person ''Ada'' [plain_field ''1''])
      (person ''Ada'' [(plain_field ''1'')\<lparr>f_params := [(''TYPE'', [''work''])]\<rparr>])
      (person ''Ada'' [plain_field ''1''])) ''TEL'' = Some [plain_field ''1'']"
proof -
  have "\<not> skipFields ''TEL''" by (simp add: skipFields_def)
  then show ?thesis
    by (subst MergeVCards_drops_parameter_edits) (simp_all add: merge_eval)
qed

subsection \<open>Resolutions\<close>

lemma map_of_resolved_card:
  assumes "\<not> skipFields k"
  shows "map_of (resolved_card L l r res) k =
    (if resolution_choice res k = ''remote'' then map_of r k else map_of l k)"
proof (cases "k \<in> set (merge_keys [l, r])")
  case True
  then show ?thesis
    using identity_fields_skip [OF assms] by (auto simp: resolved_card_def map_of_fill)
next
  case False
  then have "map_of l k = None" "map_of r k = None"
    using not_merge_key [OF False assms] by simp_all
  then show ?thesis
    using identity_fields_skip [OF assms] by (simp add: resolved_card_def map_of_fill)
qed

text \<open>Applying a resolution takes, property by property, the whole list of the side the
  user chose (named field, else wildcard, else local), keeps the local identity, and never
  answers a wildcard "remote" with an empty card.\<close>

theorem ApplyResolution_per_field:
  assumes "get_is_first L" and "ApplyResolution L ls rs res = Inr out"
    and "parseCard L ls = Inr l" "parseCard L rs = Inr r"
  shows "\<exists>m. out = CardToString L m \<and> index m ''UID'' = index l ''UID''
    \<and> (\<forall>k. \<not> skipFields k \<longrightarrow>
        map_of m k = (if resolution_choice res k = ''remote'' then map_of r k else map_of l k))
    \<and> \<not> (map_of res wildcardField = Some ''remote'' \<and> trim_space rs = [])"
proof -
  let ?m = "resolved_card L l r res"
  have out: "out = CardToString L ?m" "\<not> (map_of res wildcardField = Some ''remote'' \<and> trim_space rs = [])"
    using assms by (auto simp: ApplyResolution_def split: if_splits)
  have "map_of ?m ''UID'' = map_of (identity_fields L l) ''UID''"
    by (auto simp: resolved_card_def map_of_fill merge_keys_mem skipFields_def)
  then have "index ?m ''UID'' = index l ''UID''"
    using assms(1) by (auto simp: index_def map_of_identity_fields get_is_first_def split: list.splits option.splits)
  then show ?thesis
    by (intro exI [of _ ?m]) (use out in \<open>simp add: map_of_resolved_card\<close>)
qed

theorem ApplyResolution_per_field_witness:
  "\<exists>out m. ApplyResolution merge_lib ''local'' ''clash'' [(''FN'', ''remote'')] = Inr out
    \<and> out = CardToString merge_lib m
    \<and> index m ''FN'' = [plain_field ''Eve''] \<and> index m ''TEL'' = [plain_field ''2'']"
proof -
  obtain out where out: "ApplyResolution merge_lib ''local'' ''clash'' [(''FN'', ''remote'')] = Inr out"
    by (simp add: ApplyResolution_def wildcardField_def merge_lib_parse)
  obtain m where m: "out = CardToString merge_lib m"
    and fields: "\<forall>k. \<not> skipFields k \<longrightarrow> map_of m k =
      (if resolution_choice [(''FN'', ''remote'')] k = ''remote''
       then map_of (person ''Eve'' [plain_field ''3'']) k else map_of (person ''Ada'' [plain_field ''2'']) k)"
    using ApplyResolution_per_field [OF merge_lib_get out merge_lib_parse(2,4)] by auto
  have "map_of m ''FN'' = Some [plain_field ''Eve'']" "map_of m ''TEL'' = Some [plain_field ''2'']"
    using spec [OF fields, of "''FN''"] spec [OF fields, of "''TEL''"]
    by (simp_all add: skipFields_def resolution_choice_def wildcardField_def person_def)
  with out m show ?thesis by (auto simp: index_def)
qed

end
