(* ===== verification/GoInt.thy ===== *)
theory GoInt
  imports Prelude
begin

text \<open>
  \<open>strconv\<close>: decimal integers as the sources print and read them, with the 64-bit range check
  of \<open>ParseInt\<close> and \<open>Atoi\<close>.
\<close>

section \<open>Definitions\<close>

definition is_digit :: "char \<Rightarrow> bool" where
  "is_digit c \<longleftrightarrow> 48 \<le> (of_char c :: nat) \<and> (of_char c :: nat) \<le> 57"

definition digit :: "nat \<Rightarrow> char" where
  "digit n = char_of (48 + n)"

fun format_nat :: "nat \<Rightarrow> string" where
  "format_nat n = (if n < 10 then [digit n] else format_nat (n div 10) @ [digit (n mod 10)])"

declare format_nat.simps [simp del]

text \<open>\<open>strconv.FormatInt(i, 10)\<close>.\<close>

definition format_int :: "int \<Rightarrow> string" where
  "format_int i = (if i < 0 then CHR ''-'' # format_nat (nat (- i)) else format_nat (nat i))"

fun digits_val :: "nat \<Rightarrow> string \<Rightarrow> nat option" where
  "digits_val acc [] = Some acc"
| "digits_val acc (c # s) = (if is_digit c then digits_val (10 * acc + (of_char c - 48)) s else None)"

definition parse_digits :: "string \<Rightarrow> nat option" where
  "parse_digits s = (if s = [] then None else digits_val 0 s)"

text \<open>\<open>strconv.ParseInt(s, 10, 64)\<close> and \<open>Atoi\<close>: \<open>None\<close> is any error.\<close>

definition parse_int64 :: "string \<Rightarrow> int option" where
  "parse_int64 s =
     (case s of [] \<Rightarrow> None
      | c # r \<Rightarrow>
          if c = CHR ''-'' then
            (case parse_digits r of None \<Rightarrow> None
             | Some n \<Rightarrow> if n \<le> 2 ^ 63 then Some (- int n) else None)
          else
            (case parse_digits (if c = CHR ''+'' then r else s) of None \<Rightarrow> None
             | Some n \<Rightarrow> if n < 2 ^ 63 then Some (int n) else None))"

section \<open>Lemmas\<close>

lemma digit_props: "n < 10 \<Longrightarrow> is_digit (digit n) \<and> of_char (digit n) = 48 + n"
  by (simp add: is_digit_def digit_def)

lemma digits_val_append:
  "digits_val acc (s @ [c]) = (case digits_val acc s of None \<Rightarrow> None
     | Some n \<Rightarrow> if is_digit c then Some (10 * n + (of_char c - 48)) else None)"
  by (induction acc s rule: digits_val.induct) auto

lemma format_nat_digits: "digits_val 0 (format_nat n) = Some n"
proof (induction n rule: format_nat.induct)
  case (1 n)
  then show ?case
    using digit_props [of "n mod 10"] digit_props [of n]
    by (subst format_nat.simps) (auto simp: digits_val_append)
qed

lemma format_nat_not_Nil [simp]: "format_nat n \<noteq> []"
  by (subst format_nat.simps) simp

lemma format_nat_head: "is_digit (hd (format_nat n))"
proof (induction n rule: format_nat.induct)
  case (1 n)
  then show ?case
    using digit_props [of n] by (subst format_nat.simps) (auto simp: hd_append)
qed

lemma format_nat_set: "c \<in> set (format_nat n) \<Longrightarrow> is_digit c"
proof (induction n rule: format_nat.induct)
  case (1 n)
  then show ?case
    using digit_props [of n] digit_props [of "n mod 10"]
    by (subst (asm) (2) format_nat.simps) (auto split: if_splits)
qed

lemma parse_format_int:
  assumes "- (2 ^ 63) \<le> i" "i < 2 ^ 63"
  shows "parse_int64 (format_int i) = Some i"
proof (cases "i < 0")
  case True
  then show ?thesis
    using assms format_nat_digits [of "nat (- i)"]
    by (auto simp: parse_int64_def format_int_def parse_digits_def)
next
  case False
  obtain c r where cr: "format_nat (nat i) = c # r" by (cases "format_nat (nat i)") auto
  then have "is_digit c" using format_nat_head [of "nat i"] by simp
  then have "c \<noteq> CHR ''-''" "c \<noteq> CHR ''+''" by (auto simp: is_digit_def)
  then show ?thesis
    using assms False cr format_nat_digits [of "nat i"]
    by (auto simp: parse_int64_def format_int_def parse_digits_def)
qed

lemma parse_int64_range: "parse_int64 s = Some i \<Longrightarrow> - (2 ^ 63) \<le> i \<and> i < 2 ^ 63"
  by (auto simp: parse_int64_def split: list.splits if_splits option.splits)

end
