(* ===== verification/Database.thy ===== *)
theory Database
  imports Prelude
begin

text \<open>
  The tables of the application (\<open>internal/domain\<close>, with the keys of \<open>migrations\<close>) and how the
  code reaches them. A table is the list of its rows. A database call is a program on a
  \<open>world\<close>: the tables, the collection on the server a pipeline synchronises with, the answers
  the driver still has to give (a list of booleans, \<open>True\<close> for a statement that fails), the
  clock and the supply of random identifiers. Every statement
  of the sources is one \<open>stmt\<close>, so a theorem about all worlds is a theorem about a failure
  at any statement. Constraints the code relies on (primary keys, \<open>UNIQUE\<close>, foreign keys with
  \<open>ON DELETE CASCADE\<close>, which \<open>repository/db.go\<close> switches on for SQLite) are checked by the
  statements. A timestamp is an integer; a column no modelled code reads (the relations Bun
  fills in) is left out.
\<close>

section \<open>Rows\<close>

record user =
  u_id :: string
  u_email :: string
  u_password_hash :: string
  u_display_name :: string
  u_role :: string
  u_created_at :: int
  u_updated_at :: int

record app_password =
  ap_id :: string
  ap_user_id :: string
  ap_label :: string
  ap_password_hash :: string
  ap_last_used_at :: "int option"
  ap_created_at :: int

record address_book =
  ab_id :: string
  ab_user_id :: string
  ab_name :: string
  ab_description :: string
  ab_change_seq :: int
  ab_created_at :: int
  ab_updated_at :: int

record contact =
  c_id :: string
  c_address_book_id :: string
  c_uid :: string
  c_etag :: string
  c_change_seq :: int
  c_vcard_data :: string
  c_first_name :: string
  c_last_name :: string
  c_middle_name :: string
  c_name_prefix :: string
  c_name_suffix :: string
  c_nickname :: string
  c_email :: string
  c_phone :: string
  c_org :: string
  c_department :: string
  c_title :: string
  c_role :: string
  c_note :: string
  c_bday :: string
  c_anniversary :: string
  c_gender :: string
  c_tz :: string
  c_geo :: string
  c_photo_uri :: string
  c_rev :: string
  c_created_at :: int
  c_updated_at :: int

text \<open>The rows of the seven child tables: a key, the owning contact, and the columns of each.\<close>

record child =
  ch_id :: string
  ch_contact_id :: string

record contact_email = child +
  ce_value :: string
  ce_type :: string
  ce_pref :: int
  ce_label :: string

record contact_phone = child +
  cp_value :: string
  cp_type :: string
  cp_pref :: int
  cp_label :: string

record contact_address = child +
  ca_type :: string
  ca_pref :: int
  ca_label :: string
  ca_po_box :: string
  ca_extended :: string
  ca_street :: string
  ca_city :: string
  ca_region :: string
  ca_postal_code :: string
  ca_country :: string

record contact_url = child +
  cu_value :: string
  cu_type :: string
  cu_pref :: int

record contact_im = child +
  ci_value :: string
  ci_type :: string
  ci_pref :: int

record contact_category = child +
  cc_value :: string

record contact_date = child +
  cd_kind :: string
  cd_value :: string
  cd_label :: string

record child_records =
  cr_emails :: "contact_email list"
  cr_phones :: "contact_phone list"
  cr_addresses :: "contact_address list"
  cr_urls :: "contact_url list"
  cr_ims :: "contact_im list"
  cr_categories :: "contact_category list"
  cr_dates :: "contact_date list"

record contact_tombstone =
  ct_id :: string
  ct_address_book_id :: string
  ct_uid :: string
  ct_change_seq :: int
  ct_deleted_at :: int

record potential_duplicate =
  pd_id :: string
  pd_user_id :: string
  pd_contact_a :: string
  pd_contact_b :: string
  pd_score :: int
  pd_match_reasons :: "(string \<times> string) list"
  pd_status :: string
  pd_created_at :: int

record merge_log_entry =
  ml_id :: string
  ml_user_id :: string
  ml_winner_id :: string
  ml_winner_display_name :: string
  ml_loser_uid :: string
  ml_loser_display_name :: string
  ml_loser_vcard :: string
  ml_resolution :: string
  ml_merged_at :: int

record sync_state =
  ss_id :: string
  ss_user_id :: string
  ss_provider_type :: string
  ss_remote_id :: string
  ss_local_id :: string
  ss_remote_etag :: string
  ss_local_etag :: string
  ss_content_hash :: string
  ss_base_vcard :: string
  ss_last_synced_at :: int

record sync_cursor =
  cur_id :: string
  cur_user_id :: string
  cur_provider_type :: string
  cur_cursor :: string
  cur_updated_at :: int

record sync_conflict =
  sc_id :: string
  sc_user_id :: string
  sc_provider_type :: string
  sc_remote_id :: string
  sc_local_contact_id :: string
  sc_base_vcard :: string
  sc_local_vcard :: string
  sc_remote_vcard :: string
  sc_remote_etag :: string
  sc_field_diffs :: "(string \<times> string \<times> string \<times> string) list"
  sc_status :: string
  sc_resolution :: string
  sc_resolved_vcard :: string
  sc_created_at :: int
  sc_resolved_at :: "int option"

record sync_run =
  sr_id :: string
  sr_user_id :: string
  sr_pipeline_id :: string
  sr_provider_type :: string
  sr_status :: string
  sr_created_count :: nat
  sr_updated_count :: nat
  sr_deleted_count :: nat
  sr_error_count :: nat
  sr_error_message :: string
  sr_started_at :: int
  sr_finished_at :: "int option"

text \<open>Pipelines with their steps and the stored connections they name.\<close>

record pipeline =
  pl_id :: string
  pl_user_id :: string
  pl_name :: string
  pl_enabled :: bool
  pl_schedule :: string
  pl_created_at :: int
  pl_updated_at :: int

record pipeline_step =
  ps_id :: string
  ps_pipeline_id :: string
  ps_order :: int
  ps_source_type :: string
  ps_source_config :: string
  ps_dest_type :: string
  ps_dest_config :: string
  ps_conflict_mode :: string
  ps_direction :: string

record provider_connection =
  pc_id :: string
  pc_user_id :: string
  pc_provider_type :: string
  pc_name :: string
  pc_endpoint :: string
  pc_username :: string
  pc_password :: string
  pc_skip_tls_verify :: bool
  pc_connected :: bool
  pc_last_sync_at :: "int option"
  pc_last_error :: string
  pc_access_token :: string
  pc_refresh_token :: string
  pc_token_expiry :: "int option"
  pc_client_id :: string
  pc_client_secret :: string
  pc_scopes :: string
  pc_created_at :: int
  pc_updated_at :: int

text \<open>Backup runs and the settings of the two nightly jobs.\<close>

record backup_run =
  br_id :: string
  br_user_id :: string
  br_trigger :: string
  br_status :: string
  br_filename :: string
  br_size_bytes :: nat
  br_contact_count :: nat
  br_compressed :: bool
  br_error_message :: string
  br_started_at :: int
  br_finished_at :: "int option"

record backup_settings =
  bs_user_id :: string
  bs_schedule :: string
  bs_retention :: int
  bs_enabled :: bool
  bs_compress :: bool
  bs_updated_at :: int

record dedup_settings =
  ds_user_id :: string
  ds_schedule :: string
  ds_enabled :: bool
  ds_updated_at :: int

record db =
  t_users :: "user list"
  t_app_passwords :: "app_password list"
  t_books :: "address_book list"
  t_contacts :: "contact list"
  t_children :: child_records
  t_tombstones :: "contact_tombstone list"
  t_duplicates :: "potential_duplicate list"
  t_merge_log :: "merge_log_entry list"
  t_sync_states :: "sync_state list"
  t_cursors :: "sync_cursor list"
  t_conflicts :: "sync_conflict list"
  t_sync_runs :: "sync_run list"
  t_pipelines :: "pipeline list"
  t_pipeline_steps :: "pipeline_step list"
  t_connections :: "provider_connection list"
  t_backup_runs :: "backup_run list"
  t_backup_settings :: "backup_settings list"
  t_dedup_settings :: "dedup_settings list"

section \<open>Programs\<close>

datatype db_error = ErrIO | ErrConstraint | ErrNoRows

text \<open>A contact on the server of a remote provider.\<close>

record remote_card =
  rc_id :: string
  rc_etag :: string
  rc_vcard :: string

text \<open>A file on the server's disk: its bytes and the time it was last written.\<close>

record disk_file =
  fl_data :: string
  fl_mtime :: int

record world =
  w_db :: db
  w_remote :: "remote_card list"
  w_files :: "(string \<times> disk_file) list"
  w_faults :: "bool list"
  w_now :: int
  w_uuid :: "nat \<Rightarrow> string"
  w_minted :: nat

type_synonym ('e, 'a) prog = "world \<Rightarrow> ('e + 'a) \<times> world"

definition ret :: "'a \<Rightarrow> ('e, 'a) prog" where
  "ret x w = (Inr x, w)"

definition throw :: "'e \<Rightarrow> ('e, 'a) prog" where
  "throw e w = (Inl e, w)"

text \<open>\<open>x, err := m(); if err != nil { return err }\<close> and the rest.\<close>

definition andThen :: "('e, 'a) prog \<Rightarrow> ('a \<Rightarrow> ('e, 'b) prog) \<Rightarrow> ('e, 'b) prog" where
  "andThen m f w = (case m w of (Inl e, w') \<Rightarrow> (Inl e, w') | (Inr x, w') \<Rightarrow> f x w')"

text \<open>A call whose error the caller inspects.\<close>

definition attempt :: "('e, 'a) prog \<Rightarrow> ('f, 'e + 'a) prog" where
  "attempt m w = (case m w of (r, w') \<Rightarrow> (Inr r, w'))"

text \<open>\<open>fmt.Errorf("...: %w", err)\<close>.\<close>

definition wrapErr :: "('e \<Rightarrow> 'f) \<Rightarrow> ('e, 'a) prog \<Rightarrow> ('f, 'a) prog" where
  "wrapErr h m w = (case m w of (Inl e, w') \<Rightarrow> (Inl (h e), w') | (Inr x, w') \<Rightarrow> (Inr x, w'))"

definition now :: "('e, int) prog" where
  "now w = (Inr (w_now w), w)"

definition mint :: "('e, string) prog" where
  "mint w = (Inr (w_uuid w (w_minted w)), w\<lparr>w_minted := Suc (w_minted w)\<rparr>)"

text \<open>One SQL statement: it fails when the driver says so, or by a constraint, and then changes
  nothing.\<close>

definition stmt :: "(db \<Rightarrow> db_error + 'a \<times> db) \<Rightarrow> (db_error, 'a) prog" where
  "stmt q w =
     (let w' = w\<lparr>w_faults := tl (w_faults w)\<rparr>
      in if w_faults w \<noteq> [] \<and> hd (w_faults w) then (Inl ErrIO, w')
         else case q (w_db w) of
           Inl e \<Rightarrow> (Inl e, w')
         | Inr (x, d) \<Rightarrow> (Inr x, w'\<lparr>w_db := d\<rparr>))"

definition query :: "(db \<Rightarrow> 'a) \<Rightarrow> (db_error, 'a) prog" where
  "query f = stmt (\<lambda>d. Inr (f d, d))"

text \<open>\<open>db.RunInTx\<close>: begin, body, commit; an error of any of them leaves the tables as they were.\<close>

definition RunInTx :: "(db_error, 'a) prog \<Rightarrow> (db_error, 'a) prog" where
  "RunInTx body w =
     (case andThen (query (\<lambda>_. ())) (\<lambda>_. andThen body (\<lambda>x. query (\<lambda>_. x))) w of
        (Inl e, w') \<Rightarrow> (Inl e, w'\<lparr>w_db := w_db w\<rparr>)
      | (Inr x, w') \<Rightarrow> (Inr x, w'))"

text \<open>The statements on a table whose rows have a primary key: insert and update by key.\<close>

definition upsert_row :: "('r \<Rightarrow> 'k) \<Rightarrow> 'r \<Rightarrow> 'r list \<Rightarrow> 'r list" where
  "upsert_row key r rows = map (\<lambda>s. if key s = key r then r else s) rows"

definition affected :: "('r \<Rightarrow> bool) \<Rightarrow> 'r list \<Rightarrow> nat" where
  "affected P rows = length (filter P rows)"

definition insert_row :: "('r \<Rightarrow> 'k) \<Rightarrow> 'r \<Rightarrow> 'r list \<Rightarrow> db_error + 'r list" where
  "insert_row key r rows = (if key r \<in> key ` set rows then Inl ErrConstraint else Inr (rows @ [r]))"

fun insert_rows :: "('r \<Rightarrow> 'k) \<Rightarrow> 'r list \<Rightarrow> 'r list \<Rightarrow> db_error + 'r list" where
  "insert_rows key [] rows = Inr rows"
| "insert_rows key (r # rs) rows =
     (case insert_row key r rows of Inl e \<Rightarrow> Inl e | Inr rows' \<Rightarrow> insert_rows key rs rows')"

text \<open>\<open>Scan\<close> of the first row a condition selects.\<close>

definition select_one :: "('r \<Rightarrow> bool) \<Rightarrow> 'r list \<Rightarrow> 'r option" where
  "select_one P rows = find P rows"

text \<open>Two classes of programs: those that change no table, and those that change no table when
  they report an error.\<close>

definition readonly :: "('e, 'a) prog \<Rightarrow> bool" where
  "readonly m \<longleftrightarrow> (\<forall>w. w_db (snd (m w)) = w_db w)"

definition atomic :: "('e, 'a) prog \<Rightarrow> bool" where
  "atomic m \<longleftrightarrow> (\<forall>w e. fst (m w) = Inl e \<longrightarrow> w_db (snd (m w)) = w_db w)"

section \<open>Lemmas\<close>

named_theorems prog_simps \<open>running programs\<close>

lemma prog_defs [prog_simps]:
  "ret x w = (Inr x, w)" "throw e w = (Inl e, w)" "now w = (Inr (w_now w), w)"
  "mint w = (Inr (w_uuid w (w_minted w)), w\<lparr>w_minted := Suc (w_minted w)\<rparr>)"
  by (simp_all add: ret_def throw_def now_def mint_def)

text \<open>A sequence that succeeds is two successes.\<close>

lemma andThen_Inr:
  "andThen m f w = (Inr y, w'') \<longleftrightarrow> (\<exists>x w'. m w = (Inr x, w') \<and> f x w' = (Inr y, w''))"
  by (auto simp: andThen_def split: prod.splits sum.splits)

lemma andThen_InrE:
  assumes "andThen m f w = (Inr y, w'')"
  obtains x w' where "m w = (Inr x, w')" "f x w' = (Inr y, w'')"
  using assms by (auto simp: andThen_Inr)

lemma wrapErr_Inr: "wrapErr h m w = (Inr x, w') \<longleftrightarrow> m w = (Inr x, w')"
  by (auto simp: wrapErr_def split: prod.splits sum.splits)

lemma stmt_InrE:
  assumes "stmt q w = (Inr x, w')"
  obtains d where "q (w_db w) = Inr (x, d)" "w_db w' = d" "w_now w' = w_now w" "w_uuid w' = w_uuid w"
    "w_minted w' = w_minted w"
  using assms by (auto simp: stmt_def Let_def split: if_splits sum.splits)

lemma stmt_Inr_db: "stmt q w = (Inr x, w') \<Longrightarrow> q (w_db w) = Inr (x, w_db w')"
  by (auto simp: stmt_def Let_def split: if_splits sum.splits)

lemma query_Inr_db: "query f w = (Inr x, w') \<Longrightarrow> x = f (w_db w) \<and> w_db w' = w_db w"
  unfolding query_def by (drule stmt_Inr_db) auto

lemma query_db [simp]: "w_db (snd (query f w)) = w_db w"
  by (auto simp: query_def stmt_def Let_def)

text \<open>A transaction either leaves the tables alone, with an error, or leaves what its body
  left.\<close>

lemma RunInTx_Inl: "RunInTx body w = (Inl e, w') \<Longrightarrow> w_db w' = w_db w"
  by (auto simp: RunInTx_def split: prod.splits sum.splits)

lemma RunInTx_InrE:
  assumes "RunInTx body w = (Inr x, w')"
  obtains w1 w2 where "body w1 = (Inr x, w2)" "w_db w1 = w_db w" "w_db w' = w_db w2"
    "w_now w1 = w_now w"
proof -
  obtain w1 where 1: "query (\<lambda>_. ()) w = (Inr (), w1)"
    and r: "andThen body (\<lambda>x. query (\<lambda>_. x)) w1 = (Inr x, w')"
    using assms by (auto simp: RunInTx_def andThen_Inr [of "query (\<lambda>_. ())"] split: prod.splits sum.splits)
  obtain y w2 where 2: "body w1 = (Inr y, w2)" "query (\<lambda>_. y) w2 = (Inr x, w')"
    using r by (rule andThen_InrE)
  have "w_db w1 = w_db w" using query_Inr_db [OF 1] by simp
  moreover have "w_now w1 = w_now w" using 1 by (auto simp: query_def elim!: stmt_InrE)
  moreover have "y = x" "w_db w' = w_db w2" using query_Inr_db [OF 2(2)] by simp_all
  ultimately show ?thesis using that 2(1) by simp
qed

lemma RunInTx_cases:
  obtains (rollback) e where "fst (RunInTx body w) = Inl e" "w_db (snd (RunInTx body w)) = w_db w"
  | (commit) x w1 w2 where "fst (RunInTx body w) = Inr x" "body w1 = (Inr x, w2)" "w_db w1 = w_db w"
    "w_db (snd (RunInTx body w)) = w_db w2" "w_now w1 = w_now w"
proof (cases "RunInTx body w")
  case (Pair r w')
  show ?thesis
  proof (cases r)
    case (Inl e)
    then show ?thesis using RunInTx_Inl [of body w e w'] Pair rollback [of e] by simp
  next
    case (Inr x)
    then show ?thesis using Pair RunInTx_InrE [of body w x w'] commit by (metis fst_conv snd_conv)
  qed
qed

text \<open>With no fault ahead a statement is its pure function.\<close>

lemma stmt_no_fault [prog_simps]:
  "w_faults w = [] \<Longrightarrow> stmt q w = (case q (w_db w) of Inl e \<Rightarrow> (Inl e, w) | Inr (x, d) \<Rightarrow> (Inr x, w\<lparr>w_db := d\<rparr>))"
  by (auto simp: stmt_def Let_def split: sum.split)

lemma query_no_fault [prog_simps]: "w_faults w = [] \<Longrightarrow> query f w = (Inr (f (w_db w)), w)"
  by (simp add: query_def prog_simps)

lemma RunInTx_no_fault [prog_simps]:
  "w_faults w = [] \<Longrightarrow> (\<And>r w'. body w = (r, w') \<Longrightarrow> w_faults w' = []) \<Longrightarrow>
   RunInTx body w = (case body w of (Inl e, w') \<Rightarrow> (Inl e, w'\<lparr>w_db := w_db w\<rparr>) | (Inr x, w') \<Rightarrow> (Inr x, w'))"
  by (auto simp: RunInTx_def andThen_def prog_simps split: prod.splits sum.splits)

lemma insert_row_Inr: "insert_row key r rows = Inr rows' \<longleftrightarrow> key r \<notin> key ` set rows \<and> rows' = rows @ [r]"
  by (auto simp: insert_row_def)

lemma insert_rows_Inr:
  "insert_rows key rs rows = Inr rows' \<Longrightarrow> rows' = rows @ rs"
  by (induction rs arbitrary: rows) (fastforce simp: insert_row_Inr split: sum.splits)+

lemma insert_rows_distinct:
  "insert_rows key rs rows = Inr rows' \<Longrightarrow> distinct (map key rows) \<Longrightarrow> distinct (map key rows')"
  by (induction rs arbitrary: rows) (auto simp: insert_row_Inr split: sum.splits)

lemma keys_upsert_row [simp]: "map key (upsert_row key r rows) = map key rows"
  by (simp add: upsert_row_def)

lemma set_upsert_row:
  "set (upsert_row key r rows) = {s \<in> set rows. key s \<noteq> key r} \<union> (if key r \<in> key ` set rows then {r} else {})"
  by (auto simp: upsert_row_def image_iff)

lemma select_one_Some: "select_one P rows = Some r \<Longrightarrow> r \<in> set rows \<and> P r"
  by (auto simp: select_one_def find_Some_iff)

lemma select_one_None: "select_one P rows = None \<longleftrightarrow> (\<forall>r \<in> set rows. \<not> P r)"
  by (auto simp: select_one_def find_None_iff)

named_theorems effects \<open>which programs are read-only or atomic\<close>

lemma readonlyD: "readonly m \<Longrightarrow> m w = (r, w') \<Longrightarrow> w_db w' = w_db w"
  by (metis readonly_def snd_conv)

lemma atomicD: "atomic m \<Longrightarrow> m w = (Inl e, w') \<Longrightarrow> w_db w' = w_db w"
  by (metis atomic_def fst_conv snd_conv)

lemma atomicI: "(\<And>w e w'. m w = (Inl e, w') \<Longrightarrow> w_db w' = w_db w) \<Longrightarrow> atomic m"
  unfolding atomic_def by (metis prod.collapse)

lemma readonly_basic [effects]:
  "readonly (ret x)" "readonly (throw e)" "readonly now" "readonly mint" "readonly (query f)"
  by (simp_all add: readonly_def prog_simps)

lemma readonly_andThen [effects]:
  "readonly m \<Longrightarrow> (\<And>x. readonly (f x)) \<Longrightarrow> readonly (andThen m f)"
  by (auto simp: readonly_def andThen_def split: prod.splits sum.splits) (metis snd_conv)+

lemma readonly_wrapErr [effects]: "readonly m \<Longrightarrow> readonly (wrapErr h m)"
  by (auto simp: readonly_def wrapErr_def split: prod.splits sum.splits) (metis snd_conv)+

lemma readonly_attempt [effects]: "readonly m \<Longrightarrow> readonly (attempt m)"
  by (auto simp: readonly_def attempt_def split: prod.splits) (metis snd_conv)

lemma readonly_atomic: "readonly m \<Longrightarrow> atomic m"
  by (simp add: readonly_def atomic_def)

lemma atomic_basic [effects]: "atomic (ret x)" "atomic (throw e)" "atomic (query f)"
  by (simp_all add: readonly_atomic effects)

lemma atomic_stmt [effects]: "atomic (stmt q)"
  by (auto simp: atomic_def stmt_def Let_def split: sum.splits)

lemma atomic_RunInTx [effects]: "atomic (RunInTx m)"
  by (rule atomicI) (rule RunInTx_Inl)

lemma atomic_wrapErr [effects]:
  assumes "atomic m"
  shows "atomic (wrapErr h m)"
proof (rule atomicI)
  fix w e w' assume run: "wrapErr h m w = (Inl e, w')"
  then obtain e' where "m w = (Inl e', w')" by (auto simp: wrapErr_def split: prod.splits sum.splits)
  with assms show "w_db w' = w_db w" by (rule atomicD)
qed

lemma atomic_andThen [effects]:
  assumes "readonly m" "\<And>x. atomic (f x)"
  shows "atomic (andThen m f)"
proof (rule atomicI)
  fix w e w' assume run: "andThen m f w = (Inl e, w')"
  obtain r w1 where m: "m w = (r, w1)" by fastforce
  note db = readonlyD [OF assms(1) m]
  show "w_db w' = w_db w"
  proof (cases r)
    case (Inl e')
    with run m db show ?thesis by (simp add: andThen_def)
  next
    case (Inr x)
    with run m have "f x w1 = (Inl e, w')" by (simp add: andThen_def)
    from atomicD [OF assms(2) this] db show ?thesis by simp
  qed
qed

text \<open>A write may come last but for pure work.\<close>

lemma atomic_then_ret [effects]:
  assumes "atomic m"
  shows "atomic (andThen m (\<lambda>x. ret (g x)))"
proof (rule atomicI)
  fix w e w' assume run: "andThen m (\<lambda>x. ret (g x)) w = (Inl e, w')"
  then have "m w = (Inl e, w')" by (auto simp: andThen_def prog_simps split: prod.splits sum.splits)
  with assms show "w_db w' = w_db w" by (rule atomicD)
qed

end
