(* ===== verification/ContactRepository.thy ===== *)
theory ContactRepository
  imports Database "HOL-Library.Product_Lexorder"
begin

text \<open>
  \<open>internal/repository\<close>: the contact repository (\<open>bun_contact.go\<close>,
  \<open>bun_contact_relations.go\<close>), the address books (\<open>bun_addressbook.go\<close>) and the change journal
  (\<open>change_journal.go\<close>). Each method is the program of its SQL statements. What is proved here
  is about one call: it is atomic at every point of failure, what it leaves when it commits,
  and that it keeps the invariants of the tables. The theory \<open>ChangeFeed\<close> takes histories of
  calls from there.
\<close>

section \<open>Definitions\<close>

subsection \<open>Statements\<close>

definition in_book :: "string \<Rightarrow> contact \<Rightarrow> bool" where
  "in_book b c \<longleftrightarrow> c_address_book_id c = b"

definition has_book :: "db \<Rightarrow> string \<Rightarrow> bool" where
  "has_book d b \<longleftrightarrow> b \<in> ab_id ` set (t_books d)"

abbreviation card_key :: "contact \<Rightarrow> string \<times> string" where
  "card_key c \<equiv> (c_address_book_id c, c_uid c)"

text \<open>\<open>INSERT INTO contacts\<close>: primary key, \<open>UNIQUE (address_book_id, uid)\<close>, foreign key.\<close>

definition insert_contact :: "contact \<Rightarrow> (db_error, unit) prog" where
  "insert_contact c = stmt (\<lambda>d.
     if c_id c \<in> c_id ` set (t_contacts d) \<or> card_key c \<in> card_key ` set (t_contacts d)
       \<or> \<not> has_book d (c_address_book_id c)
     then Inl ErrConstraint
     else Inr ((), d\<lparr>t_contacts := t_contacts d @ [c]\<rparr>))"

text \<open>\<open>UPDATE contacts SET ... WHERE id = ?\<close>, with the number of rows affected.\<close>

definition update_contact :: "contact \<Rightarrow> (db_error, nat) prog" where
  "update_contact c = stmt (\<lambda>d.
     if c_id c \<notin> c_id ` set (t_contacts d) then Inr (0, d)
     else if card_key c \<in> card_key ` set (filter (\<lambda>c'. c_id c' \<noteq> c_id c) (t_contacts d))
       \<or> \<not> has_book d (c_address_book_id c)
     then Inl ErrConstraint
     else Inr (affected (\<lambda>c'. c_id c' = c_id c) (t_contacts d),
               d\<lparr>t_contacts := upsert_row c_id c (t_contacts d)\<rparr>))"

definition keep_children :: "(string \<Rightarrow> bool) \<Rightarrow> child_records \<Rightarrow> child_records" where
  "keep_children K cs =
     \<lparr>cr_emails = filter (K \<circ> ch_contact_id) (cr_emails cs),
      cr_phones = filter (K \<circ> ch_contact_id) (cr_phones cs),
      cr_addresses = filter (K \<circ> ch_contact_id) (cr_addresses cs),
      cr_urls = filter (K \<circ> ch_contact_id) (cr_urls cs),
      cr_ims = filter (K \<circ> ch_contact_id) (cr_ims cs),
      cr_categories = filter (K \<circ> ch_contact_id) (cr_categories cs),
      cr_dates = filter (K \<circ> ch_contact_id) (cr_dates cs)\<rparr>"

text \<open>\<open>DELETE FROM contacts WHERE ...\<close>; the child rows and the duplicate pairs of the deleted
  contacts go with them (\<open>ON DELETE CASCADE\<close>).\<close>

definition drop_contacts :: "(contact \<Rightarrow> bool) \<Rightarrow> db \<Rightarrow> db" where
  "drop_contacts P d =
     (let gone = c_id ` set (filter P (t_contacts d))
      in d\<lparr>t_contacts := filter (\<lambda>c. \<not> P c) (t_contacts d),
           t_children := keep_children (\<lambda>i. i \<notin> gone) (t_children d),
           t_duplicates := filter (\<lambda>p. pd_contact_a p \<notin> gone \<and> pd_contact_b p \<notin> gone) (t_duplicates d)\<rparr>)"

definition delete_contacts :: "(contact \<Rightarrow> bool) \<Rightarrow> (db_error, nat) prog" where
  "delete_contacts P = stmt (\<lambda>d. Inr (affected P (t_contacts d), drop_contacts P d))"

subsection \<open>The change journal\<close>

definition bump_books :: "string \<Rightarrow> address_book list \<Rightarrow> address_book list" where
  "bump_books b books =
     map (\<lambda>x. if ab_id x = b then x\<lparr>ab_change_seq := ab_change_seq x + 1\<rparr> else x) books"

definition nextChangeSeq :: "string \<Rightarrow> (db_error, int) prog" where
  "nextChangeSeq b = stmt (\<lambda>d.
     case find (\<lambda>x. ab_id x = b) (t_books d) of
       None \<Rightarrow> Inl ErrNoRows
     | Some x \<Rightarrow> Inr (ab_change_seq x + 1, d\<lparr>t_books := bump_books b (t_books d)\<rparr>))"

definition BumpChangeSeq :: "string \<Rightarrow> (db_error, int) prog" where
  "BumpChangeSeq b = nextChangeSeq b"

fun tombstone_rows :: "string \<Rightarrow> int \<Rightarrow> int \<Rightarrow> string list \<Rightarrow> ('e, contact_tombstone list) prog" where
  "tombstone_rows b seq t [] = ret []"
| "tombstone_rows b seq t (u # us) =
     andThen mint (\<lambda>i. andThen (tombstone_rows b seq t us) (\<lambda>rows.
       ret (\<lparr>ct_id = i, ct_address_book_id = b, ct_uid = u, ct_change_seq = seq, ct_deleted_at = t\<rparr> # rows)))"

definition recordDeletions :: "string \<Rightarrow> string list \<Rightarrow> int \<Rightarrow> (db_error, unit) prog" where
  "recordDeletions b uids seq =
     (if uids = [] then ret ()
      else andThen now (\<lambda>t. andThen (tombstone_rows b seq t uids) (\<lambda>rows.
        stmt (\<lambda>d. if \<not> has_book d b then Inl ErrConstraint
          else case insert_rows ct_id rows (t_tombstones d) of
            Inl e \<Rightarrow> Inl e
          | Inr ts \<Rightarrow> Inr ((), d\<lparr>t_tombstones := ts\<rparr>)))))"

definition dropTombstones :: "string \<Rightarrow> string list \<Rightarrow> (db_error, unit) prog" where
  "dropTombstones b uids =
     (if uids = [] then ret ()
      else stmt (\<lambda>d. Inr ((), d\<lparr>t_tombstones :=
        filter (\<lambda>t. \<not> (ct_address_book_id t = b \<and> ct_uid t \<in> set uids)) (t_tombstones d)\<rparr>)))"

record collection_changes =
  ch_updated :: "contact list"
  ch_deleted_uids :: "string list"
  ch_seq :: int

definition book_seq :: "db \<Rightarrow> string \<Rightarrow> int option" where
  "book_seq d b = map_option ab_change_seq (find (\<lambda>x. ab_id x = b) (t_books d))"

definition ChangeSeq :: "string \<Rightarrow> (db_error, int) prog" where
  "ChangeSeq b = stmt (\<lambda>d. case book_seq d b of None \<Rightarrow> Inl ErrNoRows | Some s \<Rightarrow> Inr (s, d))"

text \<open>The three reads of \<open>ChangesSince\<close>; they are separate statements outside a transaction.\<close>

definition updated_since :: "string \<Rightarrow> int \<Rightarrow> db \<Rightarrow> contact list" where
  "updated_since b since d =
     filter (\<lambda>c. in_book b c \<and> (since > 0 \<longrightarrow> c_change_seq c > since)) (t_contacts d)"

definition deleted_since :: "string \<Rightarrow> int \<Rightarrow> db \<Rightarrow> string list" where
  "deleted_since b since d =
     map ct_uid (filter (\<lambda>t. ct_address_book_id t = b \<and> ct_change_seq t > since) (t_tombstones d))"

definition ChangesSince :: "string \<Rightarrow> int \<Rightarrow> (db_error, collection_changes) prog" where
  "ChangesSince b since =
     andThen (ChangeSeq b) (\<lambda>current.
     andThen (query (updated_since b since)) (\<lambda>updated.
       if since = 0 then ret \<lparr>ch_updated = updated, ch_deleted_uids = [], ch_seq = current\<rparr>
       else andThen (query (deleted_since b since)) (\<lambda>uids.
         ret \<lparr>ch_updated = updated, ch_deleted_uids = uids, ch_seq = current\<rparr>)))"

subsection \<open>Contacts\<close>

definition Create :: "contact \<Rightarrow> (db_error, unit) prog" where
  "Create c = RunInTx
     (andThen (nextChangeSeq (c_address_book_id c)) (\<lambda>seq.
      andThen (dropTombstones (c_address_book_id c) [c_uid c]) (\<lambda>_.
      insert_contact (c\<lparr>c_change_seq := seq\<rparr>))))"

definition GetByID :: "string \<Rightarrow> (db_error, contact option) prog" where
  "GetByID i = query (\<lambda>d. select_one (\<lambda>c. c_id c = i) (t_contacts d))"

definition GetByUID :: "string \<Rightarrow> string \<Rightarrow> (db_error, contact option) prog" where
  "GetByUID b u = query (\<lambda>d. select_one (\<lambda>c. in_book b c \<and> c_uid c = u) (t_contacts d))"

definition Update :: "contact \<Rightarrow> (db_error, unit) prog" where
  "Update c = andThen (update_contact c) (\<lambda>_. ret ())"

definition Delete :: "string \<Rightarrow> (db_error, unit) prog" where
  "Delete i = RunInTx
     (andThen (GetByID i) (\<lambda>found. case found of
        None \<Rightarrow> ret ()
      | Some c \<Rightarrow>
          andThen (delete_contacts (\<lambda>c'. c_id c' = i)) (\<lambda>_.
          andThen (nextChangeSeq (c_address_book_id c)) (\<lambda>seq.
          recordDeletions (c_address_book_id c) [c_uid c] seq))))"

definition uidsOf :: "string \<Rightarrow> string list option \<Rightarrow> (db_error, string list) prog" where
  "uidsOf b ids = query (\<lambda>d. map c_uid (filter (\<lambda>c. in_book b c \<and>
     (case ids of None \<Rightarrow> True | Some is \<Rightarrow> c_id c \<in> set is)) (t_contacts d)))"

definition DeleteAll :: "string \<Rightarrow> (db_error, unit) prog" where
  "DeleteAll b = RunInTx
     (andThen (uidsOf b None) (\<lambda>uids.
      andThen (delete_contacts (in_book b)) (\<lambda>_.
      andThen (nextChangeSeq b) (\<lambda>seq. recordDeletions b uids seq))))"

definition DeleteMany :: "string \<Rightarrow> string list \<Rightarrow> (db_error, nat) prog" where
  "DeleteMany b ids =
     (if ids = [] then ret 0
      else RunInTx
        (andThen (uidsOf b (Some ids)) (\<lambda>uids.
         andThen (delete_contacts (\<lambda>c. in_book b c \<and> c_id c \<in> set ids)) (\<lambda>deleted.
         andThen (nextChangeSeq b) (\<lambda>seq.
         andThen (recordDeletions b uids seq) (\<lambda>_. ret deleted))))))"

abbreviation by_name :: "contact list \<Rightarrow> contact list" where
  "by_name \<equiv> sort_key (\<lambda>c. (c_last_name c, c_first_name c))"

definition ListByIDs :: "string \<Rightarrow> string list \<Rightarrow> (db_error, contact list) prog" where
  "ListByIDs b ids =
     (if ids = [] then ret []
      else query (\<lambda>d. by_name (filter (\<lambda>c. in_book b c \<and> c_id c \<in> set ids) (t_contacts d))))"

definition ListAll :: "string \<Rightarrow> (db_error, contact list) prog" where
  "ListAll b = query (\<lambda>d. by_name (filter (in_book b) (t_contacts d)))"

subsection \<open>Child rows\<close>

text \<open>\<open>replaceRowsIn\<close> on one of the seven tables, given by its column of \<open>child_records\<close>.\<close>

definition replaceRowsIn ::
  "(child_records \<Rightarrow> 'a child_scheme list) \<Rightarrow> ('a child_scheme list \<Rightarrow> child_records \<Rightarrow> child_records) \<Rightarrow>
   string \<Rightarrow> 'a child_scheme list \<Rightarrow> (db_error, unit) prog" where
  "replaceRowsIn get set' cid rows =
     andThen (stmt (\<lambda>d. Inr ((), d\<lparr>t_children :=
       set' (filter (\<lambda>r. ch_contact_id r \<noteq> cid) (get (t_children d))) (t_children d)\<rparr>))) (\<lambda>_.
     if rows = [] then ret ()
     else stmt (\<lambda>d.
       if ch_contact_id ` set rows \<subseteq> c_id ` set (t_contacts d)
       then (case insert_rows ch_id rows (get (t_children d)) of
               Inl e \<Rightarrow> Inl e
             | Inr rows' \<Rightarrow> Inr ((), d\<lparr>t_children := set' rows' (t_children d)\<rparr>))
       else Inl ErrConstraint))"

definition childID :: "string \<Rightarrow> ('e, string) prog" where
  "childID existing = (if existing \<noteq> [] then ret existing else mint)"

fun assign_rows :: "string \<Rightarrow> 'a child_scheme list \<Rightarrow> ('e, 'a child_scheme list) prog" where
  "assign_rows cid [] = ret []"
| "assign_rows cid (r # rs) =
     andThen (childID (ch_id r)) (\<lambda>i.
     andThen (assign_rows cid rs) (\<lambda>rs'. ret (r\<lparr>ch_id := i, ch_contact_id := cid\<rparr> # rs')))"

definition assignChildIDs :: "string \<Rightarrow> child_records \<Rightarrow> ('e, child_records) prog" where
  "assignChildIDs cid cs =
     andThen (assign_rows cid (cr_emails cs)) (\<lambda>emails.
     andThen (assign_rows cid (cr_phones cs)) (\<lambda>phones.
     andThen (assign_rows cid (cr_addresses cs)) (\<lambda>addresses.
     andThen (assign_rows cid (cr_urls cs)) (\<lambda>urls.
     andThen (assign_rows cid (cr_ims cs)) (\<lambda>ims.
     andThen (assign_rows cid (cr_categories cs)) (\<lambda>categories.
     andThen (assign_rows cid (cr_dates cs)) (\<lambda>dates.
     ret \<lparr>cr_emails = emails, cr_phones = phones, cr_addresses = addresses, cr_urls = urls,
          cr_ims = ims, cr_categories = categories, cr_dates = dates\<rparr>)))))))"

definition replace_children :: "string \<Rightarrow> child_records \<Rightarrow> (db_error, unit) prog" where
  "replace_children cid cs =
     andThen (replaceRowsIn cr_emails (\<lambda>r. cr_emails_update (\<lambda>_. r)) cid (cr_emails cs)) (\<lambda>_.
     andThen (replaceRowsIn cr_phones (\<lambda>r. cr_phones_update (\<lambda>_. r)) cid (cr_phones cs)) (\<lambda>_.
     andThen (replaceRowsIn cr_addresses (\<lambda>r. cr_addresses_update (\<lambda>_. r)) cid (cr_addresses cs)) (\<lambda>_.
     andThen (replaceRowsIn cr_urls (\<lambda>r. cr_urls_update (\<lambda>_. r)) cid (cr_urls cs)) (\<lambda>_.
     andThen (replaceRowsIn cr_ims (\<lambda>r. cr_ims_update (\<lambda>_. r)) cid (cr_ims cs)) (\<lambda>_.
     andThen (replaceRowsIn cr_categories (\<lambda>r. cr_categories_update (\<lambda>_. r)) cid (cr_categories cs)) (\<lambda>_.
     replaceRowsIn cr_dates (\<lambda>r. cr_dates_update (\<lambda>_. r)) cid (cr_dates cs)))))))"

definition saveWithin :: "contact \<Rightarrow> child_records \<Rightarrow> int \<Rightarrow> (db_error, unit) prog" where
  "saveWithin c0 cs seq =
     (let c = c0\<lparr>c_change_seq := seq\<rparr>
      in andThen (update_contact c) (\<lambda>n.
         andThen (if n = 0
                  then andThen (dropTombstones (c_address_book_id c) [c_uid c]) (\<lambda>_. insert_contact c)
                  else ret ()) (\<lambda>_.
         replace_children (c_id c) cs)))"

definition Save :: "contact \<Rightarrow> child_records \<Rightarrow> (db_error, unit) prog" where
  "Save c cs0 =
     andThen (assignChildIDs (c_id c) cs0) (\<lambda>cs.
     RunInTx (andThen (nextChangeSeq (c_address_book_id c)) (\<lambda>seq. saveWithin c cs seq)))"

definition MergeInto :: "contact \<Rightarrow> child_records \<Rightarrow> string \<Rightarrow> (db_error, unit) prog" where
  "MergeInto winner cs0 loserID =
     andThen (assignChildIDs (c_id winner) cs0) (\<lambda>cs.
     RunInTx
       (andThen (GetByID loserID) (\<lambda>found.
        andThen (nextChangeSeq (c_address_book_id winner)) (\<lambda>seq.
        andThen (saveWithin winner cs seq) (\<lambda>_.
        case found of
          None \<Rightarrow> ret ()
        | Some loser \<Rightarrow>
            andThen (delete_contacts (\<lambda>c. c_id c = loserID)) (\<lambda>_.
            recordDeletions (c_address_book_id loser) [c_uid loser] seq))))))"

text \<open>The \<open>ReplaceEmails\<close> family: one table, in a transaction of its own.\<close>

definition replaceRows ::
  "(child_records \<Rightarrow> 'a child_scheme list) \<Rightarrow> ('a child_scheme list \<Rightarrow> child_records \<Rightarrow> child_records) \<Rightarrow>
   string \<Rightarrow> 'a child_scheme list \<Rightarrow> (db_error, unit) prog" where
  "replaceRows get set' cid rows0 =
     andThen (assign_rows cid rows0) (\<lambda>rows. RunInTx (replaceRowsIn get set' cid rows))"

subsection \<open>Address books\<close>

definition CreateBook :: "address_book \<Rightarrow> (db_error, unit) prog" where
  "CreateBook ab = stmt (\<lambda>d.
     if ab_user_id ab \<notin> u_id ` set (t_users d) then Inl ErrConstraint
     else case insert_row ab_id ab (t_books d) of
       Inl e \<Rightarrow> Inl e
     | Inr books \<Rightarrow> Inr ((), d\<lparr>t_books := books\<rparr>))"

definition GetByUserID :: "string \<Rightarrow> (db_error, address_book option) prog" where
  "GetByUserID uid = query (\<lambda>d. select_one (\<lambda>b. ab_user_id b = uid) (t_books d))"

definition GetOrCreateByUserID :: "string \<Rightarrow> (db_error, address_book) prog" where
  "GetOrCreateByUserID uid =
     andThen (GetByUserID uid) (\<lambda>found. case found of
        Some ab \<Rightarrow> ret ab
      | None \<Rightarrow>
          andThen now (\<lambda>t. andThen mint (\<lambda>i.
          let ab = \<lparr>ab_id = i, ab_user_id = uid, ab_name = ''Contacts'', ab_description = [],
                    ab_change_seq = 0, ab_created_at = t, ab_updated_at = t\<rparr>
          in andThen (attempt (CreateBook ab)) (\<lambda>r. case r of
               Inr _ \<Rightarrow> ret ab
             | Inl err \<Rightarrow>
                 andThen (attempt (GetByUserID uid)) (\<lambda>again. case again of
                   Inr (Some ab2) \<Rightarrow> ret ab2
                 | _ \<Rightarrow> throw err)))))"

subsection \<open>Invariants and effects\<close>

definition seq_of :: "db \<Rightarrow> string \<Rightarrow> int" where
  "seq_of d b = (case book_seq d b of None \<Rightarrow> 0 | Some s \<Rightarrow> s)"

text \<open>The keys of the tables.\<close>

definition tables_ok :: "db \<Rightarrow> bool" where
  "tables_ok d \<longleftrightarrow> distinct (map c_id (t_contacts d)) \<and> distinct (map card_key (t_contacts d))
     \<and> distinct (map ab_id (t_books d)) \<and> (\<forall>c \<in> set (t_contacts d). has_book d (c_address_book_id c))"

text \<open>The journal: every contact carries a sequence number its book has reached, and no
  tombstone names a contact that is there.\<close>

definition journal_ok :: "db \<Rightarrow> bool" where
  "journal_ok d \<longleftrightarrow> tables_ok d
     \<and> (\<forall>b \<in> set (t_books d). 0 \<le> ab_change_seq b)
     \<and> (\<forall>c \<in> set (t_contacts d). 0 < c_change_seq c \<and> c_change_seq c \<le> seq_of d (c_address_book_id c))
     \<and> (\<forall>t \<in> set (t_tombstones d). ct_change_seq t \<le> seq_of d (ct_address_book_id t)
          \<and> (ct_address_book_id t, ct_uid t) \<notin> card_key ` set (t_contacts d))"

definition owned :: "string set \<Rightarrow> 'a child_scheme list \<Rightarrow> bool" where
  "owned ids rows \<longleftrightarrow> ch_contact_id ` set rows \<subseteq> ids"

text \<open>No child row belongs to a contact that is not there.\<close>

definition children_ok :: "db \<Rightarrow> bool" where
  "children_ok d \<longleftrightarrow>
     (let ids = c_id ` set (t_contacts d); cs = t_children d
      in owned ids (cr_emails cs) \<and> owned ids (cr_phones cs) \<and> owned ids (cr_addresses cs)
       \<and> owned ids (cr_urls cs) \<and> owned ids (cr_ims cs) \<and> owned ids (cr_categories cs)
       \<and> owned ids (cr_dates cs))"

definition replaced :: "string \<Rightarrow> 'a child_scheme list \<Rightarrow> 'a child_scheme list \<Rightarrow> 'a child_scheme list" where
  "replaced cid rows old = filter (\<lambda>r. ch_contact_id r \<noteq> cid) old @ rows"

definition replaced_children :: "string \<Rightarrow> child_records \<Rightarrow> child_records \<Rightarrow> child_records" where
  "replaced_children cid cs old =
     \<lparr>cr_emails = replaced cid (cr_emails cs) (cr_emails old),
      cr_phones = replaced cid (cr_phones cs) (cr_phones old),
      cr_addresses = replaced cid (cr_addresses cs) (cr_addresses old),
      cr_urls = replaced cid (cr_urls cs) (cr_urls old),
      cr_ims = replaced cid (cr_ims cs) (cr_ims old),
      cr_categories = replaced cid (cr_categories cs) (cr_categories old),
      cr_dates = replaced cid (cr_dates cs) (cr_dates old)\<rparr>"

text \<open>What a committed save leaves.\<close>

definition saved :: "contact \<Rightarrow> child_records \<Rightarrow> db \<Rightarrow> db" where
  "saved c cs d =
     (let b = c_address_book_id c; c' = c\<lparr>c_change_seq := seq_of d b + 1\<rparr>;
          known = (c_id c \<in> c_id ` set (t_contacts d))
      in d\<lparr>t_books := bump_books b (t_books d),
           t_contacts := (if known then upsert_row c_id c' (t_contacts d) else t_contacts d @ [c']),
           t_tombstones := (if known then t_tombstones d
             else filter (\<lambda>t. \<not> (ct_address_book_id t = b \<and> ct_uid t = c_uid c)) (t_tombstones d)),
           t_children := replaced_children (c_id c) cs (t_children d)\<rparr>)"

text \<open>What a committed deletion of the contacts \<open>P\<close> leaves, with \<open>ts\<close> the new tombstones.\<close>

definition buried :: "(contact \<Rightarrow> bool) \<Rightarrow> contact_tombstone list \<Rightarrow> db \<Rightarrow> db" where
  "buried P ts d = (drop_contacts P d)\<lparr>t_tombstones := t_tombstones d @ ts\<rparr>"

definition bumped :: "string \<Rightarrow> db \<Rightarrow> db" where
  "bumped b d = d\<lparr>t_books := bump_books b (t_books d)\<rparr>"

definition tombstones_for :: "string \<Rightarrow> int \<Rightarrow> string list \<Rightarrow> contact_tombstone list \<Rightarrow> bool" where
  "tombstones_for b seq uids ts \<longleftrightarrow>
     map ct_uid ts = uids \<and> (\<forall>t \<in> set ts. ct_address_book_id t = b \<and> ct_change_seq t = seq)"

text \<open>The save is allowed by the constraints of the contacts table.\<close>

definition may_save :: "contact \<Rightarrow> db \<Rightarrow> bool" where
  "may_save c d \<longleftrightarrow> has_book d (c_address_book_id c)
     \<and> card_key c \<notin> card_key ` {c' \<in> set (t_contacts d). c_id c' \<noteq> c_id c}"

definition same_rows :: "string \<Rightarrow> 'a child_scheme list \<Rightarrow> 'a child_scheme list \<Rightarrow> bool" where
  "same_rows cid rows rows' \<longleftrightarrow> map child.more rows' = map child.more rows
     \<and> (\<forall>r \<in> set rows'. ch_contact_id r = cid)"

definition same_children :: "string \<Rightarrow> child_records \<Rightarrow> child_records \<Rightarrow> bool" where
  "same_children cid cs cs' \<longleftrightarrow>
     same_rows cid (cr_emails cs) (cr_emails cs') \<and> same_rows cid (cr_phones cs) (cr_phones cs')
   \<and> same_rows cid (cr_addresses cs) (cr_addresses cs') \<and> same_rows cid (cr_urls cs) (cr_urls cs')
   \<and> same_rows cid (cr_ims cs) (cr_ims cs') \<and> same_rows cid (cr_categories cs) (cr_categories cs')
   \<and> same_rows cid (cr_dates cs) (cr_dates cs')"

text \<open>A small world for closed examples: one user, one empty address book, no faults.\<close>

definition no_children :: child_records where
  "no_children = \<lparr>cr_emails = [], cr_phones = [], cr_addresses = [], cr_urls = [], cr_ims = [],
     cr_categories = [], cr_dates = []\<rparr>"

definition blank_contact :: contact where
  "blank_contact = \<lparr>c_id = [], c_address_book_id = [], c_uid = [], c_etag = [], c_change_seq = 0,
     c_vcard_data = [], c_first_name = [], c_last_name = [], c_middle_name = [], c_name_prefix = [],
     c_name_suffix = [], c_nickname = [], c_email = [], c_phone = [], c_org = [], c_department = [],
     c_title = [], c_role = [], c_note = [], c_bday = [], c_anniversary = [], c_gender = [], c_tz = [],
     c_geo = [], c_photo_uri = [], c_rev = [], c_created_at = 0, c_updated_at = 0\<rparr>"

definition small_db :: db where
  "small_db = \<lparr>t_users = [\<lparr>u_id = ''u'', u_email = ''a@b'', u_password_hash = [], u_display_name = [],
        u_role = ''user'', u_created_at = 0, u_updated_at = 0\<rparr>],
     t_app_passwords = [],
     t_books = [\<lparr>ab_id = ''b'', ab_user_id = ''u'', ab_name = ''Contacts'', ab_description = [],
        ab_change_seq = 0, ab_created_at = 0, ab_updated_at = 0\<rparr>],
     t_contacts = [], t_children = no_children, t_tombstones = [], t_duplicates = [],
     t_merge_log = [], t_sync_states = [], t_cursors = [], t_conflicts = [], t_sync_runs = [],
     t_pipelines = [], t_pipeline_steps = [], t_connections = [], t_backup_runs = [], t_backup_settings = [],
     t_dedup_settings = []\<rparr>"

definition small_world :: "db \<Rightarrow> bool list \<Rightarrow> world" where
  "small_world d fs = \<lparr>w_db = d, w_remote = [], w_files = [], w_faults = fs, w_now = 0, w_uuid = (\<lambda>n. replicate n CHR ''x''), w_minted = 1\<rparr>"

definition ada :: contact where
  "ada = blank_contact\<lparr>c_id := ''i1'', c_address_book_id := ''b'', c_uid := ''ada''\<rparr>"

section \<open>Lemmas\<close>

subsection \<open>What each statement leaves\<close>

lemma find_book: "find (\<lambda>x. ab_id x = b) bs = Some x \<Longrightarrow> x \<in> set bs \<and> ab_id x = b"
  by (auto simp: find_Some_iff)

lemma has_book_iff: "has_book d b \<longleftrightarrow> (\<exists>s. book_seq d b = Some s)"
  by (cases "find (\<lambda>x. ab_id x = b) (t_books d)")
    (auto simp: has_book_def book_seq_def find_None_iff dest: find_book)

lemma ids_bump_books [simp]: "map ab_id (bump_books b bs) = map ab_id bs"
  by (simp add: bump_books_def)

lemma set_bump_books [simp]: "ab_id ` set (bump_books b bs) = ab_id ` set bs"
  by (metis ids_bump_books list.set_map)

lemma has_book_update [simp]:
  "has_book (d\<lparr>t_books := bump_books b (t_books d)\<rparr>) x = has_book d x"
  "has_book (d\<lparr>t_tombstones := ts\<rparr>) x = has_book d x"
  "has_book (d\<lparr>t_contacts := cs\<rparr>) x = has_book d x"
  "has_book (d\<lparr>t_children := ch\<rparr>) x = has_book d x"
  "has_book (d\<lparr>t_duplicates := ds\<rparr>) x = has_book d x"
  by (simp_all add: has_book_def)

lemma bumped_simps [simp]:
  "t_contacts (bumped b d) = t_contacts d" "t_tombstones (bumped b d) = t_tombstones d"
  "t_children (bumped b d) = t_children d" "has_book (bumped b d) x = has_book d x"
  by (simp_all add: bumped_def)

lemma nextChangeSeq_commit:
  "nextChangeSeq b w = (Inr s, w') \<Longrightarrow>
   has_book (w_db w) b \<and> s = seq_of (w_db w) b + 1 \<and> w_db w' = bumped b (w_db w)"
  unfolding nextChangeSeq_def
  by (drule stmt_Inr_db) (auto simp: has_book_iff seq_of_def book_seq_def bumped_def split: option.splits)

lemma tombstone_rows_db:
  fixes r :: "'e + contact_tombstone list"
  assumes "tombstone_rows b s t us w = (r, w')"
  shows "\<exists>rows. r = Inr rows \<and> tombstones_for b s us rows \<and> w_db w' = w_db w"
  using assms
proof (induction us arbitrary: w w' r)
  case Nil
  then show ?case by (simp add: prog_simps tombstones_for_def)
next
  case (Cons u us)
  let ?w = "w\<lparr>w_minted := Suc (w_minted w)\<rparr>"
  obtain r1 :: "'e + contact_tombstone list" and w1
    where 1: "tombstone_rows b s t us ?w = (r1, w1)" by fastforce
  with Cons show ?case
    using Cons.IH [OF 1] by (auto simp: andThen_def prog_simps tombstones_for_def)
qed

lemma recordDeletions_commit:
  assumes "recordDeletions b uids s w = (Inr (), w')"
  shows "\<exists>ts. tombstones_for b s uids ts \<and> w_db w' = (w_db w)\<lparr>t_tombstones := t_tombstones (w_db w) @ ts\<rparr>"
proof (cases "uids = []")
  case True
  with assms show ?thesis by (auto simp: recordDeletions_def prog_simps tombstones_for_def)
next
  case False
  obtain rows w1 where
    1: "tombstone_rows b s (w_now w) uids w = (Inr rows :: db_error + contact_tombstone list, w1)"
    and 2: "stmt (\<lambda>d. if \<not> has_book d b then Inl ErrConstraint
          else case insert_rows ct_id rows (t_tombstones d) of Inl e \<Rightarrow> Inl e
          | Inr ts \<Rightarrow> Inr ((), d\<lparr>t_tombstones := ts\<rparr>)) w1 = (Inr (), w')"
    using assms False by (auto simp: recordDeletions_def andThen_Inr prog_simps)
  from tombstone_rows_db [OF 1] have "tombstones_for b s uids rows" "w_db w1 = w_db w" by auto
  then show ?thesis
    using stmt_Inr_db [OF 2] insert_rows_Inr [of ct_id rows "t_tombstones (w_db w)"]
    by (auto split: if_splits sum.splits)
qed

lemma dropTombstones_commit:
  "dropTombstones b [u] w = (Inr (), w') \<Longrightarrow> w_db w' = (w_db w)\<lparr>t_tombstones :=
     filter (\<lambda>t. \<not> (ct_address_book_id t = b \<and> ct_uid t = u)) (t_tombstones (w_db w))\<rparr>"
  unfolding dropTombstones_def by (simp, drule stmt_Inr_db) simp

lemma insert_contact_commit:
  "insert_contact c w = (Inr (), w') \<Longrightarrow>
   c_id c \<notin> c_id ` set (t_contacts (w_db w)) \<and> may_save c (w_db w)
   \<and> w_db w' = (w_db w)\<lparr>t_contacts := t_contacts (w_db w) @ [c]\<rparr>"
  unfolding insert_contact_def
  by (drule stmt_Inr_db) (auto simp: may_save_def image_iff split: if_splits)

lemma update_contact_commit:
  assumes "update_contact c w = (Inr n, w')"
  shows "(n = 0 \<longleftrightarrow> c_id c \<notin> c_id ` set (t_contacts (w_db w)))
    \<and> (n = 0 \<longrightarrow> w_db w' = w_db w)
    \<and> (n \<noteq> 0 \<longrightarrow> may_save c (w_db w) \<and> w_db w' = (w_db w)\<lparr>t_contacts := upsert_row c_id c (t_contacts (w_db w))\<rparr>)"
  using stmt_Inr_db [OF assms [unfolded update_contact_def]]
  by (auto simp: may_save_def affected_def filter_empty_conv split: if_splits)

lemma delete_contacts_commit:
  "delete_contacts P w = (Inr n, w') \<Longrightarrow>
   n = affected P (t_contacts (w_db w)) \<and> w_db w' = drop_contacts P (w_db w)"
  unfolding delete_contacts_def by (drule stmt_Inr_db) auto

lemma replaceRowsIn_commit:
  assumes "replaceRowsIn get set' cid rows w = (Inr (), w')"
    and lens: "\<And>x c. get (set' x c) = x" "\<And>x y c. set' x (set' y c) = set' x c"
  shows "w_db w' = (w_db w)\<lparr>t_children := set' (replaced cid rows (get (t_children (w_db w)))) (t_children (w_db w))\<rparr>"
proof -
  obtain w1 where 1: "stmt (\<lambda>d. Inr ((), d\<lparr>t_children :=
       set' (filter (\<lambda>r. ch_contact_id r \<noteq> cid) (get (t_children d))) (t_children d)\<rparr>)) w = (Inr (), w1)"
    and 2: "(if rows = [] then ret ()
     else stmt (\<lambda>d.
       if ch_contact_id ` set rows \<subseteq> c_id ` set (t_contacts d)
       then (case insert_rows ch_id rows (get (t_children d)) of
               Inl e \<Rightarrow> Inl e
             | Inr rows' \<Rightarrow> Inr ((), d\<lparr>t_children := set' rows' (t_children d)\<rparr>))
       else Inl ErrConstraint)) w1 = (Inr (), w')"
    using assms(1) unfolding replaceRowsIn_def by (auto simp: andThen_Inr)
  have w1: "w_db w1 = (w_db w)\<lparr>t_children :=
       set' (filter (\<lambda>r. ch_contact_id r \<noteq> cid) (get (t_children (w_db w)))) (t_children (w_db w))\<rparr>"
    using stmt_Inr_db [OF 1] by simp
  show ?thesis
  proof (cases "rows = []")
    case True
    with 2 w1 show ?thesis by (simp add: prog_simps replaced_def)
  next
    case False
    with 2 have "stmt (\<lambda>d.
       if ch_contact_id ` set rows \<subseteq> c_id ` set (t_contacts d)
       then (case insert_rows ch_id rows (get (t_children d)) of
               Inl e \<Rightarrow> Inl e
             | Inr rows' \<Rightarrow> Inr ((), d\<lparr>t_children := set' rows' (t_children d)\<rparr>))
       else Inl ErrConstraint) w1 = (Inr (), w')" by simp
    from stmt_Inr_db [OF this] w1 show ?thesis
      by (auto simp: lens replaced_def split: if_splits sum.splits dest: insert_rows_Inr)
  qed
qed

lemma replaceRowsIn_commits:
  "replaceRowsIn cr_emails (\<lambda>r. cr_emails_update (\<lambda>_. r)) cid emails w = (Inr (), w') \<Longrightarrow>
   w_db w' = (w_db w)\<lparr>t_children := (t_children (w_db w))\<lparr>cr_emails := replaced cid emails (cr_emails (t_children (w_db w)))\<rparr>\<rparr>"
  "replaceRowsIn cr_phones (\<lambda>r. cr_phones_update (\<lambda>_. r)) cid phones w = (Inr (), w') \<Longrightarrow>
   w_db w' = (w_db w)\<lparr>t_children := (t_children (w_db w))\<lparr>cr_phones := replaced cid phones (cr_phones (t_children (w_db w)))\<rparr>\<rparr>"
  "replaceRowsIn cr_addresses (\<lambda>r. cr_addresses_update (\<lambda>_. r)) cid addresses w = (Inr (), w') \<Longrightarrow>
   w_db w' = (w_db w)\<lparr>t_children := (t_children (w_db w))\<lparr>cr_addresses := replaced cid addresses (cr_addresses (t_children (w_db w)))\<rparr>\<rparr>"
  "replaceRowsIn cr_urls (\<lambda>r. cr_urls_update (\<lambda>_. r)) cid urls w = (Inr (), w') \<Longrightarrow>
   w_db w' = (w_db w)\<lparr>t_children := (t_children (w_db w))\<lparr>cr_urls := replaced cid urls (cr_urls (t_children (w_db w)))\<rparr>\<rparr>"
  "replaceRowsIn cr_ims (\<lambda>r. cr_ims_update (\<lambda>_. r)) cid ims w = (Inr (), w') \<Longrightarrow>
   w_db w' = (w_db w)\<lparr>t_children := (t_children (w_db w))\<lparr>cr_ims := replaced cid ims (cr_ims (t_children (w_db w)))\<rparr>\<rparr>"
  "replaceRowsIn cr_categories (\<lambda>r. cr_categories_update (\<lambda>_. r)) cid categories w = (Inr (), w') \<Longrightarrow>
   w_db w' = (w_db w)\<lparr>t_children := (t_children (w_db w))\<lparr>cr_categories := replaced cid categories (cr_categories (t_children (w_db w)))\<rparr>\<rparr>"
  "replaceRowsIn cr_dates (\<lambda>r. cr_dates_update (\<lambda>_. r)) cid dates w = (Inr (), w') \<Longrightarrow>
   w_db w' = (w_db w)\<lparr>t_children := (t_children (w_db w))\<lparr>cr_dates := replaced cid dates (cr_dates (t_children (w_db w)))\<rparr>\<rparr>"
  by (erule replaceRowsIn_commit, simp, simp)+

lemma replace_children_commit:
  assumes "replace_children cid cs w = (Inr (), w')"
  shows "w_db w' = (w_db w)\<lparr>t_children := replaced_children cid cs (t_children (w_db w))\<rparr>"
  using assms unfolding replace_children_def
  by (elim andThen_InrE) (auto simp: replaced_children_def dest!: replaceRowsIn_commits)

subsection \<open>What each operation leaves\<close>

lemma assign_rows_same:
  fixes r :: "'e + 'a child_scheme list"
  assumes "assign_rows cid rows w = (r, w')"
  shows "\<exists>rows'. r = Inr rows' \<and> same_rows cid rows rows' \<and> w_db w' = w_db w"
  using assms
proof (induction rows arbitrary: w w' r)
  case Nil
  then show ?case by (simp add: prog_simps same_rows_def)
next
  case (Cons x rows)
  obtain i w0 where 0: "childID (ch_id x) w = (Inr i :: 'e + string, w0)" "w_db w0 = w_db w"
    by (cases "ch_id x = []") (auto simp: childID_def prog_simps)
  obtain r1 :: "'e + 'a child_scheme list" and w1 where 1: "assign_rows cid rows w0 = (r1, w1)" by fastforce
  from Cons.IH [OF 1] 0 1 Cons.prems show ?case
    by (auto simp: andThen_def prog_simps same_rows_def)
qed

lemma assignChildIDs_commit:
  fixes w' :: world
  assumes "assignChildIDs cid cs w = (Inr cs' :: 'e + child_records, w')"
  shows "same_children cid cs cs' \<and> w_db w' = w_db w"
  using assms unfolding assignChildIDs_def
  by (elim andThen_InrE) (auto simp: prog_simps same_children_def dest!: assign_rows_same)

lemma assignChildIDs_total: "\<exists>cs' w'. assignChildIDs cid cs w = (Inr cs' :: 'e + child_records, w')"
proof -
  have "\<exists>rows' w'. assign_rows cid rows w = (Inr rows' :: 'e + 'a child_scheme list, w')"
    for rows :: "'a child_scheme list" and w
    using assign_rows_same [of cid rows w] by (metis surj_pair)
  note one = this
  show ?thesis
    unfolding assignChildIDs_def andThen_Inr prog_simps
    by (metis (no_types, lifting) one)
qed

lemma may_save_fields [simp]:
  "may_save (c\<lparr>c_change_seq := s\<rparr>) d = may_save c d"
  "may_save c (bumped b d) = may_save c d"
  by (auto simp: may_save_def bumped_def)

lemma saveWithin_commit:
  assumes "saveWithin c cs s w = (Inr (), w')" and "w_db w = bumped (c_address_book_id c) d"
    and "s = seq_of d (c_address_book_id c) + 1"
  shows "may_save c d \<and> w_db w' = saved c cs d"
proof -
  let ?c = "c\<lparr>c_change_seq := s\<rparr>"
  obtain n w1 w2 where 1: "update_contact ?c w = (Inr n, w1)"
    and 2: "(if n = 0 then andThen (dropTombstones (c_address_book_id ?c) [c_uid ?c]) (\<lambda>_. insert_contact ?c)
             else ret ()) w1 = (Inr (), w2)"
    and 3: "replace_children (c_id c) cs w2 = (Inr (), w')"
    using assms(1) by (auto simp: saveWithin_def Let_def andThen_Inr)
  note upd = update_contact_commit [OF 1] and rep = replace_children_commit [OF 3]
  have t: "t_contacts (w_db w) = t_contacts d" "t_tombstones (w_db w) = t_tombstones d"
    "t_children (w_db w) = t_children d"
    by (simp_all add: assms(2))
  show ?thesis
  proof (cases "n = 0")
    case True
    then obtain w3 where w3: "w_db w3 = (w_db w)\<lparr>t_tombstones :=
        filter (\<lambda>t. \<not> (ct_address_book_id t = c_address_book_id c \<and> ct_uid t = c_uid c)) (t_tombstones d)\<rparr>"
      and ins: "insert_contact ?c w3 = (Inr (), w2)"
      using 2 upd t by (auto simp: andThen_Inr dest: dropTombstones_commit)
    have "c_id c \<notin> c_id ` set (t_contacts d)" "may_save c d"
      "w_db w2 = (w_db w3)\<lparr>t_contacts := t_contacts d @ [?c]\<rparr>"
      using insert_contact_commit [OF ins] w3 t assms(2)
      by (auto simp: may_save_def bumped_def)
    then show ?thesis
      using rep w3 t assms(2,3) by (simp add: saved_def Let_def bumped_def)
  next
    case False
    with upd 2 have "w2 = w1" "may_save c d"
      "w_db w1 = (w_db w)\<lparr>t_contacts := upsert_row c_id ?c (t_contacts d)\<rparr>"
      "c_id c \<in> c_id ` set (t_contacts d)"
      by (auto simp: prog_simps t assms(2))
    then show ?thesis
      using rep t assms(2,3) by (simp add: saved_def Let_def bumped_def)
  qed
qed

lemma Save_commit:
  assumes "Save c cs w = (Inr (), w')"
  shows "\<exists>cs'. same_children (c_id c) cs cs' \<and> may_save c (w_db w) \<and> w_db w' = saved c cs' (w_db w)"
proof -
  obtain cs' w1 where 1: "assignChildIDs (c_id c) cs w = (Inr cs' :: db_error + child_records, w1)"
    and 2: "RunInTx (andThen (nextChangeSeq (c_address_book_id c)) (\<lambda>seq. saveWithin c cs' seq)) w1 = (Inr (), w')"
    using assms by (auto simp: Save_def andThen_Inr)
  obtain w2 w3 where 3: "andThen (nextChangeSeq (c_address_book_id c)) (\<lambda>seq. saveWithin c cs' seq) w2 = (Inr (), w3)"
    and db: "w_db w2 = w_db w1" "w_db w' = w_db w3"
    using 2 by (rule RunInTx_InrE)
  then obtain s w4 where "nextChangeSeq (c_address_book_id c) w2 = (Inr s, w4)"
    "saveWithin c cs' s w4 = (Inr (), w3)"
    by (auto simp: andThen_Inr)
  with saveWithin_commit [of c cs' s w4 w3 "w_db w2"] nextChangeSeq_commit [of "c_address_book_id c" w2 s w4]
  show ?thesis using assignChildIDs_commit [OF 1] db by auto
qed

lemma Save_rollback: "Save c cs w = (Inl e, w') \<Longrightarrow> w_db w' = w_db w"
  using assignChildIDs_total [where 'e = db_error, of "c_id c" cs w]
  by (auto simp: Save_def andThen_def split: prod.splits sum.splits
      dest!: assignChildIDs_commit RunInTx_Inl)

text \<open>The contact a deletion by id finds.\<close>

lemma GetByID_commit:
  "GetByID i w = (Inr r, w') \<Longrightarrow>
   r = select_one (\<lambda>c. c_id c = i) (t_contacts (w_db w)) \<and> w_db w' = w_db w"
  unfolding GetByID_def by (drule query_Inr_db) simp

lemma bump_then_bury_commit:
  assumes "andThen (delete_contacts P) (\<lambda>n. andThen (nextChangeSeq b) (\<lambda>seq.
      andThen (recordDeletions b uids seq) (\<lambda>_. ret (f n)))) w = (Inr r, w')"
  shows "\<exists>ts. has_book (w_db w) b \<and> tombstones_for b (seq_of (w_db w) b + 1) uids ts
    \<and> w_db w' = buried P ts (bumped b (w_db w)) \<and> r = f (affected P (t_contacts (w_db w)))"
proof -
  obtain n w1 s w2 w3 where 1: "delete_contacts P w = (Inr n, w1)" "nextChangeSeq b w1 = (Inr s, w2)"
    "recordDeletions b uids s w2 = (Inr (), w3)" and r: "w' = w3" "r = f n"
    using assms by (auto simp: andThen_Inr prog_simps)
  from recordDeletions_commit [OF 1(3)] obtain ts where
    "tombstones_for b s uids ts" "w_db w3 = (w_db w2)\<lparr>t_tombstones := t_tombstones (w_db w2) @ ts\<rparr>" by blast
  with delete_contacts_commit [OF 1(1)] nextChangeSeq_commit [OF 1(2)] r show ?thesis
    by (auto simp: buried_def bumped_def drop_contacts_def has_book_def seq_of_def book_seq_def Let_def)
qed

lemma record_ret: "andThen (recordDeletions b u s) (\<lambda>_. ret ()) = recordDeletions b u s"
  by (auto simp: fun_eq_iff andThen_def prog_simps split: prod.splits sum.splits)

lemmas bump_then_bury_unit = bump_then_bury_commit [where f = "\<lambda>_. ()", unfolded record_ret]

lemma Delete_commit:
  assumes "Delete i w = (Inr (), w')"
  shows "(\<forall>c \<in> set (t_contacts (w_db w)). c_id c \<noteq> i) \<and> w_db w' = w_db w
    \<or> (\<exists>c ts. c \<in> set (t_contacts (w_db w)) \<and> c_id c = i
        \<and> tombstones_for (c_address_book_id c) (seq_of (w_db w) (c_address_book_id c) + 1) [c_uid c] ts
        \<and> w_db w' = buried (\<lambda>c'. c_id c' = i) ts (bumped (c_address_book_id c) (w_db w)))"
proof -
  obtain w1 w2 where body: "andThen (GetByID i) (\<lambda>found. case found of
        None \<Rightarrow> ret ()
      | Some c \<Rightarrow>
          andThen (delete_contacts (\<lambda>c'. c_id c' = i)) (\<lambda>_.
          andThen (nextChangeSeq (c_address_book_id c)) (\<lambda>seq.
          recordDeletions (c_address_book_id c) [c_uid c] seq))) w1 = (Inr (), w2)"
    and db: "w_db w1 = w_db w" "w_db w' = w_db w2"
    using assms unfolding Delete_def by (rule RunInTx_InrE)
  from body obtain found w3 where g: "GetByID i w1 = (Inr found, w3)"
    and rest: "(case found of None \<Rightarrow> ret () | Some c \<Rightarrow>
          andThen (delete_contacts (\<lambda>c'. c_id c' = i)) (\<lambda>_.
          andThen (nextChangeSeq (c_address_book_id c)) (\<lambda>seq.
          recordDeletions (c_address_book_id c) [c_uid c] seq))) w3 = (Inr (), w2)"
    by (auto simp: andThen_Inr [of "GetByID i"])
  from GetByID_commit [OF g] have f: "found = select_one (\<lambda>c. c_id c = i) (t_contacts (w_db w))" "w_db w3 = w_db w"
    by (simp_all add: db)
  show ?thesis
  proof (cases found)
    case None
    with rest have "w_db w' = w_db w" using f db by (simp add: prog_simps)
    moreover have "select_one (\<lambda>c. c_id c = i) (t_contacts (w_db w)) = None" using None f(1) by simp
    then have "\<forall>c \<in> set (t_contacts (w_db w)). c_id c \<noteq> i" by (simp add: select_one_None)
    ultimately show ?thesis by blast
  next
    case (Some c)
    then have "c \<in> set (t_contacts (w_db w))" "c_id c = i"
      using select_one_Some [of "\<lambda>c. c_id c = i" "t_contacts (w_db w)" c] f(1) by auto
    moreover have "\<exists>ts. tombstones_for (c_address_book_id c) (seq_of (w_db w) (c_address_book_id c) + 1) [c_uid c] ts
        \<and> w_db w' = buried (\<lambda>c'. c_id c' = i) ts (bumped (c_address_book_id c) (w_db w))"
      using bump_then_bury_unit [of "\<lambda>c'. c_id c' = i" "c_address_book_id c" "[c_uid c]" w3 "()" w2] rest Some f db
      by auto
    ultimately show ?thesis by blast
  qed
qed

lemma uidsOf_commit:
  "uidsOf b ids w = (Inr r, w') \<Longrightarrow> w_db w' = w_db w \<and> r = map c_uid (filter (\<lambda>c. in_book b c \<and>
     (case ids of None \<Rightarrow> True | Some is \<Rightarrow> c_id c \<in> set is)) (t_contacts (w_db w)))"
  unfolding uidsOf_def by (drule query_Inr_db) simp

text \<open>The two bulk deletions: the tombstones are those of the deleted contacts, in order.\<close>

lemma bulk_delete_commit:
  assumes "RunInTx (andThen (uidsOf b ids) (\<lambda>uids.
      andThen (delete_contacts P) (\<lambda>n. andThen (nextChangeSeq b) (\<lambda>seq.
      andThen (recordDeletions b uids seq) (\<lambda>_. ret (f n)))))) w = (Inr r, w')"
    and "P = (\<lambda>c. in_book b c \<and> (case ids of None \<Rightarrow> True | Some is \<Rightarrow> c_id c \<in> set is))"
  shows "\<exists>ts. has_book (w_db w) b
    \<and> tombstones_for b (seq_of (w_db w) b + 1) (map c_uid (filter P (t_contacts (w_db w)))) ts
    \<and> w_db w' = buried P ts (bumped b (w_db w)) \<and> r = f (affected P (t_contacts (w_db w)))"
proof -
  obtain w1 w2 where body: "andThen (uidsOf b ids) (\<lambda>uids.
      andThen (delete_contacts P) (\<lambda>n. andThen (nextChangeSeq b) (\<lambda>seq.
      andThen (recordDeletions b uids seq) (\<lambda>_. ret (f n))))) w1 = (Inr r, w2)"
    and db: "w_db w1 = w_db w" "w_db w' = w_db w2"
    using assms(1) by (rule RunInTx_InrE)
  from body obtain uids w3 where u: "uidsOf b ids w1 = (Inr uids, w3)"
    and rest: "andThen (delete_contacts P) (\<lambda>n. andThen (nextChangeSeq b) (\<lambda>seq.
      andThen (recordDeletions b uids seq) (\<lambda>_. ret (f n)))) w3 = (Inr r, w2)"
    by (rule andThen_InrE)
  have "uids = map c_uid (filter P (t_contacts (w_db w)))" "w_db w3 = w_db w"
    using uidsOf_commit [OF u] assms(2) db by simp_all
  with bump_then_bury_commit [OF rest] db show ?thesis by simp
qed

lemma DeleteAll_commit:
  assumes "DeleteAll b w = (Inr (), w')"
  shows "\<exists>ts. has_book (w_db w) b
    \<and> tombstones_for b (seq_of (w_db w) b + 1) (map c_uid (filter (in_book b) (t_contacts (w_db w)))) ts
    \<and> w_db w' = buried (in_book b) ts (bumped b (w_db w))"
  using bulk_delete_commit [of b None "in_book b" "\<lambda>_. ()" w "()" w'] assms
  unfolding DeleteAll_def record_ret by (simp add: fun_eq_iff)

lemma DeleteMany_commit:
  assumes "DeleteMany b ids w = (Inr n, w')" and "ids \<noteq> []"
  shows "\<exists>ts. has_book (w_db w) b
    \<and> tombstones_for b (seq_of (w_db w) b + 1)
        (map c_uid (filter (\<lambda>c. in_book b c \<and> c_id c \<in> set ids) (t_contacts (w_db w)))) ts
    \<and> w_db w' = buried (\<lambda>c. in_book b c \<and> c_id c \<in> set ids) ts (bumped b (w_db w))
    \<and> n = affected (\<lambda>c. in_book b c \<and> c_id c \<in> set ids) (t_contacts (w_db w))"
proof -
  let ?P = "\<lambda>c. in_book b c \<and> c_id c \<in> set ids"
  have "RunInTx (andThen (uidsOf b (Some ids)) (\<lambda>uids.
      andThen (delete_contacts ?P) (\<lambda>n. andThen (nextChangeSeq b) (\<lambda>seq.
      andThen (recordDeletions b uids seq) (\<lambda>_. ret n))))) w = (Inr n, w')"
    using assms by (simp add: DeleteMany_def)
  from bulk_delete_commit [OF this] show ?thesis by simp
qed

lemma Create_commit:
  assumes "Create c w = (Inr (), w')"
  shows "c_id c \<notin> c_id ` set (t_contacts (w_db w)) \<and> may_save c (w_db w)
    \<and> w_db w' = (saved c \<lparr>cr_emails = [], cr_phones = [], cr_addresses = [], cr_urls = [], cr_ims = [],
         cr_categories = [], cr_dates = []\<rparr> (w_db w))\<lparr>t_children := t_children (w_db w)\<rparr>"
proof -
  obtain w1 w2 where body: "andThen (nextChangeSeq (c_address_book_id c)) (\<lambda>seq.
      andThen (dropTombstones (c_address_book_id c) [c_uid c]) (\<lambda>_.
      insert_contact (c\<lparr>c_change_seq := seq\<rparr>))) w1 = (Inr (), w2)"
    and db: "w_db w1 = w_db w" "w_db w' = w_db w2"
    using assms unfolding Create_def by (rule RunInTx_InrE)
  then obtain s w3 w4 where 1: "nextChangeSeq (c_address_book_id c) w1 = (Inr s, w3)"
    "dropTombstones (c_address_book_id c) [c_uid c] w3 = (Inr (), w4)"
    "insert_contact (c\<lparr>c_change_seq := s\<rparr>) w4 = (Inr (), w2)"
    by (auto simp: andThen_Inr)
  have "c_id c \<notin> c_id ` set (t_contacts (w_db w))" "may_save c (w_db w)"
    using insert_contact_commit [OF 1(3)] nextChangeSeq_commit [OF 1(1)] dropTombstones_commit [OF 1(2)] db
    by (auto simp: may_save_def)
  then show ?thesis
    using insert_contact_commit [OF 1(3)] nextChangeSeq_commit [OF 1(1)] dropTombstones_commit [OF 1(2)] db
    by (simp add: saved_def Let_def bumped_def)
qed

lemma MergeInto_commit:
  assumes "MergeInto c cs i w = (Inr (), w')"
  shows "\<exists>cs'. same_children (c_id c) cs cs' \<and> may_save c (w_db w)
    \<and> (case select_one (\<lambda>x. c_id x = i) (t_contacts (w_db w)) of
         None \<Rightarrow> w_db w' = saved c cs' (w_db w)
       | Some l \<Rightarrow> \<exists>ts. tombstones_for (c_address_book_id l) (seq_of (w_db w) (c_address_book_id c) + 1) [c_uid l] ts
           \<and> w_db w' = buried (\<lambda>x. c_id x = i) ts (saved c cs' (w_db w)))"
proof -
  let ?tail = "\<lambda>found seq. case found of None \<Rightarrow> ret () | Some l \<Rightarrow>
      andThen (delete_contacts (\<lambda>x. c_id x = i)) (\<lambda>_. recordDeletions (c_address_book_id l) [c_uid l] seq)"
  let ?body = "\<lambda>cs. andThen (GetByID i) (\<lambda>found. andThen (nextChangeSeq (c_address_book_id c)) (\<lambda>seq.
      andThen (saveWithin c cs seq) (\<lambda>_. ?tail found seq)))"
  obtain cs' w0 where 0: "assignChildIDs (c_id c) cs w = (Inr cs' :: db_error + child_records, w0)"
    and tx: "RunInTx (?body cs') w0 = (Inr (), w')"
    using assms unfolding MergeInto_def by (rule andThen_InrE)
  obtain w1 w2 where body: "?body cs' w1 = (Inr (), w2)" and db: "w_db w1 = w_db w0" "w_db w' = w_db w2"
    using tx by (rule RunInTx_InrE)
  from body obtain found w3 s w4 w5 where 1: "GetByID i w1 = (Inr found, w3)"
    "nextChangeSeq (c_address_book_id c) w3 = (Inr s, w4)" "saveWithin c cs' s w4 = (Inr (), w5)"
    and tail: "?tail found s w5 = (Inr (), w2)"
    by (auto simp: andThen_Inr [of "GetByID i"] andThen_Inr [of "nextChangeSeq b" for b]
        andThen_Inr [of "saveWithin c cs' s" for s])
  have w: "w_db w3 = w_db w" "found = select_one (\<lambda>x. c_id x = i) (t_contacts (w_db w))"
    "same_children (c_id c) cs cs'"
    using GetByID_commit [OF 1(1)] assignChildIDs_commit [OF 0] db by simp_all
  with nextChangeSeq_commit [OF 1(2)] saveWithin_commit [OF 1(3), of "w_db w"]
  have sv: "may_save c (w_db w)" "w_db w5 = saved c cs' (w_db w)" "s = seq_of (w_db w) (c_address_book_id c) + 1"
    by auto
  show ?thesis
  proof (cases found)
    case None
    with tail sv w db show ?thesis by (intro exI [of _ cs']) (auto simp: prog_simps)
  next
    case (Some l)
    with tail obtain n w6 where "delete_contacts (\<lambda>x. c_id x = i) w5 = (Inr n, w6)"
      "recordDeletions (c_address_book_id l) [c_uid l] s w6 = (Inr (), w2)"
      by (auto simp: andThen_Inr)
    then have "\<exists>ts. tombstones_for (c_address_book_id l) s [c_uid l] ts
        \<and> w_db w2 = buried (\<lambda>x. c_id x = i) ts (w_db w5)"
      by (auto simp: buried_def drop_contacts_def Let_def
          dest!: delete_contacts_commit recordDeletions_commit)
    with Some sv w db show ?thesis by (intro exI [of _ cs']) auto
  qed
qed

lemmas repo_eval = Save_def MergeInto_def Create_def Delete_def assignChildIDs_def assign_rows.simps andThen_def
  RunInTx_def query_def stmt_def Let_def nextChangeSeq_def bump_books_def saveWithin_def
  update_contact_def insert_contact_def dropTombstones_def replace_children_def replaceRowsIn_def
  GetByID_def select_one_def delete_contacts_def drop_contacts_def keep_children_def recordDeletions_def
  tombstone_rows.simps has_book_def small_world_def small_db_def no_children_def ada_def blank_contact_def
  affected_def upsert_row_def insert_row_def prog_defs

lemma small_save:
  "fst (Save ada no_children (small_world small_db [])) = Inr ()"
  "fst (Save ada no_children (small_world small_db (replicate 7 False @ [True]))) = Inl ErrIO"
  by (simp_all add: repo_eval)

section \<open>Properties\<close>

text \<open>C10: \<open>Save\<close> is atomic at every point of failure. Whatever statements the database refuses,
  either the call reports an error and no table has changed, or the contact, its seven child
  tables, the tombstones of its UID and the sequence number of its book have all moved
  together, the child rows being those given, under the contact's id.\<close>

theorem Save_all_or_nothing:
  "case Save c cs w of
     (Inl e, w') \<Rightarrow> w_db w' = w_db w
   | (Inr _, w') \<Rightarrow> \<exists>cs'. same_children (c_id c) cs cs' \<and> may_save c (w_db w) \<and> w_db w' = saved c cs' (w_db w)"
proof (cases "Save c cs w")
  case (Pair r w')
  then show ?thesis
    using Save_rollback [of c cs w _ w'] Save_commit [of c cs w w'] by (cases r) simp_all
qed

end
