(* ===== verification/VCardParse.thy ===== *)
theory VCardParse
  imports VCardEncode GoInt ContactRepository
begin

text \<open>
  \<open>internal/vcard\<close>: from a card to the application's contact and back (\<open>types.go\<close>, \<open>parser.go\<close>,
  \<open>builder.go\<close>, \<open>merge.go\<close>, \<open>domain_helper.go\<close>). The accessors of \<open>go-vcard\<close> are those of the
  record \<open>lib\<close>.
\<close>

section \<open>Definitions\<close>

record pfield =
  pf_value :: string
  pf_type :: string
  pf_pref :: int
  pf_label :: string

record paddress =
  pa_type :: string
  pa_pref :: int
  pa_label :: string
  pa_po_box :: string
  pa_extended :: string
  pa_street :: string
  pa_city :: string
  pa_region :: string
  pa_postal_code :: string
  pa_country :: string

record pdate =
  pt_kind :: string
  pt_value :: string
  pt_label :: string

record parsed_contact =
  p_fn :: string
  p_first_name :: string
  p_last_name :: string
  p_middle_name :: string
  p_name_prefix :: string
  p_name_suffix :: string
  p_nickname :: string
  p_primary_email :: string
  p_primary_phone :: string
  p_emails :: "pfield list"
  p_phones :: "pfield list"
  p_addresses :: "paddress list"
  p_urls :: "pfield list"
  p_ims :: "pfield list"
  p_dates :: "pdate list"
  p_org :: string
  p_department :: string
  p_title :: string
  p_role :: string
  p_note :: string
  p_gender :: string
  p_gender_text :: string
  p_tz :: string
  p_geo :: string
  p_photo_uri :: string
  p_rev :: string
  p_categories :: "string list"
  p_uid :: string
  p_prod_id :: string

text \<open>The zero \<open>ParsedContact{}\<close>.\<close>

definition empty_parsed :: parsed_contact where
  "empty_parsed = \<lparr>p_fn = [], p_first_name = [], p_last_name = [], p_middle_name = [], p_name_prefix = [],
     p_name_suffix = [], p_nickname = [], p_primary_email = [], p_primary_phone = [], p_emails = [],
     p_phones = [], p_addresses = [], p_urls = [], p_ims = [], p_dates = [], p_org = [], p_department = [],
     p_title = [], p_role = [], p_note = [], p_gender = [], p_gender_text = [], p_tz = [], p_geo = [],
     p_photo_uri = [], p_rev = [], p_categories = [], p_uid = [], p_prod_id = []\<rparr>"

subsection \<open>Parsing\<close>

definition joinTypes :: "string list \<Rightarrow> string" where
  "joinTypes types = join '','' (filter (\<lambda>t. t \<noteq> ''pref'') types)"

definition parsePref :: "lib \<Rightarrow> field \<Rightarrow> int" where
  "parsePref L f =
     (let fallback = (if gp_has_type L (f_params f) ''pref'' then 1 else 0);
          pref = gp_get L (f_params f) ''PREF''
      in if pref \<noteq> [] then (case parse_int64 pref of Some n \<Rightarrow> n | None \<Rightarrow> fallback) else fallback)"

definition extractField :: "lib \<Rightarrow> field \<Rightarrow> pfield" where
  "extractField L f = \<lparr>pf_value = trim_space (f_value f), pf_type = joinTypes (gp_types L (f_params f)),
     pf_pref = parsePref L f, pf_label = gp_get L (f_params f) ''LABEL''\<rparr>"

text \<open>\<open>PrimaryEmail\<close> and \<open>PrimaryPhone\<close>: the preferred field's value, else the first non-empty one.\<close>

fun primary_value :: "lib \<Rightarrow> nat option \<Rightarrow> nat \<Rightarrow> field list \<Rightarrow> string \<Rightarrow> string" where
  "primary_value L pref i [] acc = acc"
| "primary_value L pref i (f # fs) acc =
     primary_value L pref (Suc i) fs
       (if pref = Some i \<or> acc = [] then pf_value (extractField L f) else acc)"

definition trimmed :: "lib \<Rightarrow> vcard \<Rightarrow> string \<Rightarrow> string" where
  "trimmed L c k = (case gv_get L c k of None \<Rightarrow> [] | Some f \<Rightarrow> trim_space (f_value f))"

text \<open>The two halves at the last space, if there is one.\<close>

definition cut_last_space :: "string \<Rightarrow> (string \<times> string) option" where
  "cut_last_space s = (case cut_at CHR '' '' (rev s) of
      (tail, Some rest) \<Rightarrow> Some (rev rest, rev tail) | (_, None) \<Rightarrow> None)"

definition parsed_name :: "lib \<Rightarrow> vcard \<Rightarrow> string \<Rightarrow> card_name" where
  "parsed_name L c fn =
     (let n = (case gv_name L c of
                 None \<Rightarrow> \<lparr>n_family = [], n_given = [], n_additional = [], n_prefix = [], n_suffix = []\<rparr>
               | Some n \<Rightarrow> \<lparr>n_family = trim_space (n_family n), n_given = trim_space (n_given n),
                    n_additional = trim_space (n_additional n), n_prefix = trim_space (n_prefix n),
                    n_suffix = trim_space (n_suffix n)\<rparr>)
      in if n_given n = [] \<and> n_family n = [] \<and> fn \<noteq> []
         then (case cut_last_space fn of
                 Some (a, b) \<Rightarrow> n\<lparr>n_given := trim_space a, n_family := trim_space b\<rparr>
               | None \<Rightarrow> n\<lparr>n_given := trim_space fn\<rparr>)
         else n)"

definition parsed_address :: "lib \<Rightarrow> card_address \<Rightarrow> paddress" where
  "parsed_address L a = \<lparr>pa_type = joinTypes (gp_types L (f_params (a_field a))),
     pa_pref = parsePref L (a_field a), pa_label = gp_get L (f_params (a_field a)) ''LABEL'',
     pa_po_box = trim_space (a_po_box a), pa_extended = trim_space (a_extended a),
     pa_street = trim_space (a_street a), pa_city = trim_space (a_locality a),
     pa_region = trim_space (a_region a), pa_postal_code = trim_space (a_postal_code a),
     pa_country = trim_space (a_country a)\<rparr>"

definition parsed_photo :: "lib \<Rightarrow> vcard \<Rightarrow> string" where
  "parsed_photo L c = (case gv_get L c ''PHOTO'' of None \<Rightarrow> []
     | Some f \<Rightarrow> let v = trim_space (f_value f)
         in if has_prefix (to_lower (l_unicode L) v) ''data:'' then [] else v)"

definition parsed_categories :: "lib \<Rightarrow> vcard \<Rightarrow> string list" where
  "parsed_categories L c = (case gv_get L c ''CATEGORIES'' of None \<Rightarrow> []
     | Some f \<Rightarrow> if f_value f = [] then []
         else filter (\<lambda>v. v \<noteq> []) (map trim_space (split_on CHR '','' (f_value f))))"

definition parsed_date :: "lib \<Rightarrow> vcard \<Rightarrow> string \<Rightarrow> string \<Rightarrow> pdate list" where
  "parsed_date L c k kind = (case gv_get L c k of None \<Rightarrow> []
     | Some f \<Rightarrow> if f_value f = [] then []
         else [\<lparr>pt_kind = kind, pt_value = trim_space (f_value f), pt_label = []\<rparr>])"

definition cardToParsed :: "lib \<Rightarrow> vcard \<Rightarrow> parsed_contact" where
  "cardToParsed L c =
     (let fn = trimmed L c ''FN''; n = parsed_name L c fn;
          org = (case gv_get L c ''ORG'' of None \<Rightarrow> ([], None) | Some f \<Rightarrow> cut_at CHR '';'' (f_value f))
      in \<lparr>p_fn = fn, p_first_name = n_given n, p_last_name = n_family n, p_middle_name = n_additional n,
          p_name_prefix = n_prefix n, p_name_suffix = n_suffix n,
          p_nickname = (case gv_get L c ''NICKNAME'' of None \<Rightarrow> []
             | Some f \<Rightarrow> trim_space (fst (cut_at CHR '','' (f_value f)))),
          p_primary_email = primary_value L (gv_preferred L c ''EMAIL'') 0 (index c ''EMAIL'') [],
          p_primary_phone = primary_value L (gv_preferred L c ''TEL'') 0 (index c ''TEL'') [],
          p_emails = map (extractField L) (index c ''EMAIL''),
          p_phones = map (extractField L) (index c ''TEL''),
          p_addresses = map (parsed_address L) (gv_addresses L c),
          p_urls = map (extractField L) (index c ''URL''),
          p_ims = map (extractField L) (index c ''IMPP''),
          p_dates = parsed_date L c ''BDAY'' ''bday'' @ parsed_date L c ''ANNIVERSARY'' ''anniversary'',
          p_org = trim_space (fst org),
          p_department = (case snd org of None \<Rightarrow> [] | Some r \<Rightarrow> trim_space r),
          p_title = trimmed L c ''TITLE'', p_role = trimmed L c ''ROLE'', p_note = trimmed L c ''NOTE'',
          p_gender = fst (gv_gender L c), p_gender_text = snd (gv_gender L c),
          p_tz = trimmed L c ''TZ'', p_geo = trimmed L c ''GEO'', p_photo_uri = parsed_photo L c,
          p_rev = trim_space (gv_value L c ''REV''), p_categories = parsed_categories L c,
          p_uid = trim_space (gv_value L c ''UID''), p_prod_id = trim_space (gv_value L c ''PRODID'')\<rparr>)"

definition ParseVCard :: "lib \<Rightarrow> string \<Rightarrow> string + parsed_contact" where
  "ParseVCard L data = (case gv_decode L data of Inl e \<Rightarrow> Inl e | Inr c \<Rightarrow> Inr (cardToParsed L c))"

subsection \<open>Building\<close>

definition set_opt :: "lib \<Rightarrow> string \<Rightarrow> string \<Rightarrow> vcard \<Rightarrow> vcard" where
  "set_opt L k v c = (if v \<noteq> [] then gv_set_value L c k v else c)"

definition add_types :: "lib \<Rightarrow> string \<Rightarrow> string list go_map \<Rightarrow> string list go_map" where
  "add_types L ty ps =
     (if ty \<noteq> []
      then fold (\<lambda>t m. if trim_space t \<noteq> [] then gp_add L m ''TYPE'' (trim_space t) else m)
             (split_on CHR '','' ty) ps
      else ps)"

text \<open>The loops over emails and phones: the first and those with preference 1 are marked.\<close>

fun add_pref_fields :: "lib \<Rightarrow> string \<Rightarrow> nat \<Rightarrow> pfield list \<Rightarrow> vcard \<Rightarrow> vcard" where
  "add_pref_fields L k i [] c = c"
| "add_pref_fields L k i (e # es) c =
     (let ps = add_types L (pf_type e) [];
          ps' = (if i = 0 \<or> pf_pref e = 1 then gp_set L ps ''PREF'' ''1'' else ps)
      in add_pref_fields L k (Suc i) es
           (gv_add L c k \<lparr>f_value = pf_value e, f_params = ps', f_group = []\<rparr>))"

fun add_plain_fields :: "lib \<Rightarrow> string \<Rightarrow> pfield list \<Rightarrow> vcard \<Rightarrow> vcard" where
  "add_plain_fields L k [] c = c"
| "add_plain_fields L k (u # us) c =
     add_plain_fields L k us
       (gv_add L c k \<lparr>f_value = pf_value u,
          f_params = (if pf_type u \<noteq> [] then gp_set L [] ''TYPE'' (pf_type u) else []), f_group = []\<rparr>)"

fun add_addresses :: "lib \<Rightarrow> paddress list \<Rightarrow> vcard \<Rightarrow> vcard" where
  "add_addresses L [] c = c"
| "add_addresses L (a # as) c =
     (let ps = add_types L (pa_type a) [];
          ps' = (if pa_label a \<noteq> [] then gp_set L ps ''LABEL'' (pa_label a) else ps)
      in add_addresses L as (gv_add_address L c
           \<lparr>a_field = \<lparr>f_value = [], f_params = ps', f_group = []\<rparr>, a_po_box = pa_po_box a,
            a_extended = pa_extended a, a_street = pa_street a, a_locality = pa_city a,
            a_region = pa_region a, a_postal_code = pa_postal_code a, a_country = pa_country a\<rparr>))"

definition display_name :: "parsed_contact \<Rightarrow> string" where
  "display_name p =
     (let joined = join '' '' (filter (\<lambda>x. x \<noteq> [])
            [p_name_prefix p, p_first_name p, p_middle_name p, p_last_name p, p_name_suffix p]);
          fn1 = (if p_fn p = [] then joined else p_fn p);
          fn2 = (if fn1 = [] \<and> p_org p \<noteq> [] then p_org p else fn1)
      in if fn2 = [] then p_uid p else fn2)"

fun set_dates :: "lib \<Rightarrow> pdate list \<Rightarrow> vcard \<Rightarrow> vcard" where
  "set_dates L [] c = c"
| "set_dates L (d # ds) c =
     set_dates L ds
       (if pt_kind d = ''bday'' then gv_set_value L c ''BDAY'' (pt_value d)
        else if pt_kind d = ''anniversary'' then gv_set_value L c ''ANNIVERSARY'' (pt_value d) else c)"

definition buildCard :: "lib \<Rightarrow> parsed_contact \<Rightarrow> vcard" where
  "buildCard L p =
     (let c = gv_set_value L [] ''VERSION'' ''4.0'';
          c = set_opt L ''UID'' (p_uid p) c;
          c = (if p_last_name p \<noteq> [] \<or> p_first_name p \<noteq> [] \<or> p_middle_name p \<noteq> [] \<or> p_name_prefix p \<noteq> []
                 \<or> p_name_suffix p \<noteq> []
               then gv_set_name L c \<lparr>n_family = p_last_name p, n_given = p_first_name p,
                 n_additional = p_middle_name p, n_prefix = p_name_prefix p, n_suffix = p_name_suffix p\<rparr>
               else c);
          c = gv_set_value L c ''FN'' (display_name p);
          c = set_opt L ''NICKNAME'' (p_nickname p) c;
          c = add_pref_fields L ''EMAIL'' 0 (p_emails p) c;
          c = add_pref_fields L ''TEL'' 0 (p_phones p) c;
          c = add_addresses L (p_addresses p) c;
          c = add_plain_fields L ''URL'' (p_urls p) c;
          c = add_plain_fields L ''IMPP'' (p_ims p) c;
          c = (if p_org p \<noteq> [] \<or> p_department p \<noteq> []
               then gv_set_value L c ''ORG'' (if p_department p \<noteq> [] then p_org p @ '';'' @ p_department p else p_org p)
               else c);
          c = set_opt L ''TITLE'' (p_title p) c;
          c = set_opt L ''ROLE'' (p_role p) c;
          c = set_opt L ''NOTE'' (p_note p) c;
          c = (if p_gender p \<noteq> [] \<or> p_gender_text p \<noteq> [] then gv_set_gender L c (p_gender p) (p_gender_text p) else c);
          c = set_opt L ''TZ'' (p_tz p) c;
          c = set_opt L ''GEO'' (p_geo p) c;
          c = set_opt L ''PHOTO'' (p_photo_uri p) c;
          c = (if p_categories p \<noteq> [] then gv_set_categories L c (p_categories p) else c)
      in set_dates L (p_dates p) c)"

definition BuildVCard :: "lib \<Rightarrow> parsed_contact \<Rightarrow> encode_error + string" where
  "BuildVCard L p = EncodeCard L (buildCard L p)"

definition NewFromSimple ::
  "string \<Rightarrow> string \<Rightarrow> string \<Rightarrow> string \<Rightarrow> string \<Rightarrow> string \<Rightarrow> string \<Rightarrow> string \<Rightarrow> parsed_contact" where
  "NewFromSimple uid firstName lastName email phone org title note =
     (let p = empty_parsed\<lparr>p_uid := uid, p_first_name := firstName, p_last_name := lastName, p_org := org,
                p_title := title, p_note := note\<rparr>;
          p = (if email \<noteq> [] then p\<lparr>p_emails := [\<lparr>pf_value = email, pf_type = [], pf_pref = 0, pf_label = []\<rparr>],
                p_primary_email := email\<rparr> else p)
      in if phone \<noteq> [] then p\<lparr>p_phones := [\<lparr>pf_value = phone, pf_type = [], pf_pref = 0, pf_label = []\<rparr>],
                p_primary_phone := phone\<rparr> else p)"

subsection \<open>Editing a stored card\<close>

definition managedProperties :: "string \<Rightarrow> bool" where
  "managedProperties k \<longleftrightarrow> k \<in> {''FN'', ''N'', ''NICKNAME'', ''EMAIL'', ''TEL'', ''ADR'', ''URL'', ''IMPP'', ''ORG'',
     ''TITLE'', ''ROLE'', ''NOTE'', ''GENDER'', ''TZ'', ''GEO'', ''CATEGORIES'', ''BDAY'', ''ANNIVERSARY''}"

text \<open>The card \<open>MergeIntoVCard\<close> encodes.\<close>

definition edited_card :: "lib \<Rightarrow> vcard \<Rightarrow> parsed_contact \<Rightarrow> vcard" where
  "edited_card L old p =
     (let merged = fold (\<lambda>(k, fields) m. if managedProperties k then m else put m k fields) old (buildCard L p)
      in case map_of old ''UID'' of
           Some (u # us) \<Rightarrow> if f_value u \<noteq> [] then put merged ''UID'' (u # us) else merged
         | _ \<Rightarrow> merged)"

definition MergeIntoVCard :: "lib \<Rightarrow> string \<Rightarrow> parsed_contact \<Rightarrow> encode_error + string" where
  "MergeIntoVCard L existing p =
     (if existing = [] then BuildVCard L p
      else case gv_decode L existing of
        Inl e \<Rightarrow> BuildVCard L p
      | Inr old \<Rightarrow> EncodeCard L (edited_card L old p))"

definition UnmanagedProperties :: "lib \<Rightarrow> string \<Rightarrow> string list" where
  "UnmanagedProperties L data = (case gv_decode L data of Inl e \<Rightarrow> []
     | Inr c \<Rightarrow> filter (\<lambda>k. k \<noteq> ''VERSION'' \<and> k \<noteq> ''UID'' \<and> \<not> managedProperties k) (map fst c))"

subsection \<open>To the tables\<close>

fun last_date :: "string \<Rightarrow> pdate list \<Rightarrow> string \<Rightarrow> string" where
  "last_date kind [] acc = acc"
| "last_date kind (d # ds) acc = last_date kind ds (if pt_kind d = kind then pt_value d else acc)"

definition ApplyToContact :: "contact \<Rightarrow> parsed_contact \<Rightarrow> contact" where
  "ApplyToContact c p = c\<lparr>c_first_name := p_first_name p, c_last_name := p_last_name p,
     c_middle_name := p_middle_name p, c_name_prefix := p_name_prefix p, c_name_suffix := p_name_suffix p,
     c_nickname := p_nickname p, c_email := p_primary_email p, c_phone := p_primary_phone p,
     c_org := p_org p, c_department := p_department p, c_title := p_title p, c_role := p_role p,
     c_note := p_note p, c_gender := p_gender p, c_tz := p_tz p, c_geo := p_geo p,
     c_photo_uri := p_photo_uri p, c_rev := p_rev p,
     c_bday := last_date ''bday'' (p_dates p) [], c_anniversary := last_date ''anniversary'' (p_dates p) []\<rparr>"

text \<open>A row per value, each with a fresh identifier.\<close>

fun to_rows :: "(string \<Rightarrow> 'f \<Rightarrow> 'r) \<Rightarrow> 'f list \<Rightarrow> ('e, 'r list) prog" where
  "to_rows mk [] = ret []"
| "to_rows mk (f # fs) = andThen mint (\<lambda>i. andThen (to_rows mk fs) (\<lambda>rs. ret (mk i f # rs)))"

definition ToEmails :: "string \<Rightarrow> pfield list \<Rightarrow> ('e, contact_email list) prog" where
  "ToEmails cid = to_rows (\<lambda>i f. \<lparr>ch_id = i, ch_contact_id = cid, ce_value = pf_value f, ce_type = pf_type f,
     ce_pref = pf_pref f, ce_label = pf_label f\<rparr>)"

definition ToPhones :: "string \<Rightarrow> pfield list \<Rightarrow> ('e, contact_phone list) prog" where
  "ToPhones cid = to_rows (\<lambda>i f. \<lparr>ch_id = i, ch_contact_id = cid, cp_value = pf_value f, cp_type = pf_type f,
     cp_pref = pf_pref f, cp_label = pf_label f\<rparr>)"

definition ToAddresses :: "string \<Rightarrow> paddress list \<Rightarrow> ('e, contact_address list) prog" where
  "ToAddresses cid = to_rows (\<lambda>i a. \<lparr>ch_id = i, ch_contact_id = cid, ca_type = pa_type a, ca_pref = pa_pref a,
     ca_label = pa_label a, ca_po_box = pa_po_box a, ca_extended = pa_extended a, ca_street = pa_street a,
     ca_city = pa_city a, ca_region = pa_region a, ca_postal_code = pa_postal_code a, ca_country = pa_country a\<rparr>)"

definition ToURLs :: "string \<Rightarrow> pfield list \<Rightarrow> ('e, contact_url list) prog" where
  "ToURLs cid = to_rows (\<lambda>i f. \<lparr>ch_id = i, ch_contact_id = cid, cu_value = pf_value f, cu_type = pf_type f,
     cu_pref = pf_pref f\<rparr>)"

definition ToIMs :: "string \<Rightarrow> pfield list \<Rightarrow> ('e, contact_im list) prog" where
  "ToIMs cid = to_rows (\<lambda>i f. \<lparr>ch_id = i, ch_contact_id = cid, ci_value = pf_value f, ci_type = pf_type f,
     ci_pref = pf_pref f\<rparr>)"

definition ToCategories :: "string \<Rightarrow> string list \<Rightarrow> ('e, contact_category list) prog" where
  "ToCategories cid = to_rows (\<lambda>i v. \<lparr>ch_id = i, ch_contact_id = cid, cc_value = v\<rparr>)"

definition ToDates :: "string \<Rightarrow> pdate list \<Rightarrow> ('e, contact_date list) prog" where
  "ToDates cid = to_rows (\<lambda>i d. \<lparr>ch_id = i, ch_contact_id = cid, cd_kind = pt_kind d, cd_value = pt_value d,
     cd_label = pt_label d\<rparr>)"

definition ChildRecordsFor :: "string \<Rightarrow> parsed_contact \<Rightarrow> ('e, child_records) prog" where
  "ChildRecordsFor cid p =
     andThen (ToEmails cid (p_emails p)) (\<lambda>emails.
     andThen (ToPhones cid (p_phones p)) (\<lambda>phones.
     andThen (ToAddresses cid (p_addresses p)) (\<lambda>addresses.
     andThen (ToURLs cid (p_urls p)) (\<lambda>urls.
     andThen (ToIMs cid (p_ims p)) (\<lambda>ims.
     andThen (ToCategories cid (p_categories p)) (\<lambda>categories.
     andThen (ToDates cid (p_dates p)) (\<lambda>dates.
     ret \<lparr>cr_emails = emails, cr_phones = phones, cr_addresses = addresses, cr_urls = urls,
          cr_ims = ims, cr_categories = categories, cr_dates = dates\<rparr>)))))))"

section \<open>Lemmas\<close>

lemma map_of_fold_put:
  assumes "wf_map old"
  shows "map_of (fold (\<lambda>(k, fields) m. if managedProperties k then m else put m k fields) old m) k =
    (if \<not> managedProperties k \<and> k \<in> fst ` set old then map_of old k else map_of m k)"
  using assms
proof (induction old arbitrary: m)
  case (Cons kv old)
  obtain k' fs where kv: "kv = (k', fs)" by fastforce
  with Cons.prems have "k' \<notin> fst ` set old" "wf_map old" by (auto simp: wf_map_def)
  with Cons.IH show ?case by (auto simp: kv)
qed simp

lemma edited_card_map_of:
  assumes "wf_map old"
  shows "map_of (edited_card L old p) k =
    (if \<not> managedProperties k \<and> k \<in> fst ` set old then map_of old k else map_of (buildCard L p) k)"
proof -
  let ?m = "fold (\<lambda>(k, fields) m. if managedProperties k then m else put m k fields) old (buildCard L p)"
  have "map_of (edited_card L old p) k = map_of ?m k"
  proof (cases "k = ''UID''")
    case True
    have "map_of old ''UID'' = Some (u # us) \<Longrightarrow> map_of ?m ''UID'' = Some (u # us)" for u us
      using map_of_fold_put [OF assms, of "buildCard L p" "''UID''"]
      by (auto simp: managedProperties_def map_of_eq_None_iff [symmetric])
    with True show ?thesis
      by (auto simp: edited_card_def Let_def split: option.split list.split)
  next
    case False
    then show ?thesis by (auto simp: edited_card_def Let_def split: option.split list.split)
  qed
  then show ?thesis by (simp add: map_of_fold_put [OF assms])
qed

text \<open>C24: an edit replaces what the form owns and keeps everything else. For a stored card that
  decodes, the edited card has, for every property the application manages, exactly the
  fields built from the edited values, and for every other property of the stored card (UID,
  VERSION, PHOTO, extensions) exactly the stored fields.\<close>

theorem MergeIntoVCard_keeps_unmanaged:
  assumes "decode_wf L" and "existing \<noteq> []" and "gv_decode L existing = Inr old"
  shows "\<exists>m. MergeIntoVCard L existing p = EncodeCard L m
    \<and> (\<forall>k. \<not> managedProperties k \<longrightarrow> k \<in> fst ` set old \<longrightarrow> map_of m k = map_of old k)
    \<and> (\<forall>k. managedProperties k \<longrightarrow> map_of m k = map_of (buildCard L p) k)"
proof -
  have "wf_map old" using assms by (auto simp: decode_wf_def)
  note m = edited_card_map_of [OF this, of L p]
  show ?thesis
    by (rule exI [of _ "edited_card L old p"]) (use assms in \<open>simp add: MergeIntoVCard_def m\<close>)
qed

definition photo_card :: vcard where
  "photo_card = [(''VERSION'', [plain_field ''3.0'']), (''UID'', [plain_field ''u1'']),
     (''FN'', [plain_field ''Ada'']), (''PHOTO'', [plain_field ''data:x''])]"

theorem MergeIntoVCard_keeps_unmanaged_witness:
  "\<exists>m. MergeIntoVCard (table_lib [(''stored'', photo_card)]) ''stored'' (empty_parsed\<lparr>p_fn := ''Eve''\<rparr>)
      = EncodeCard (table_lib [(''stored'', photo_card)]) m
    \<and> map_of m ''PHOTO'' = Some [plain_field ''data:x'']"
proof -
  let ?L = "table_lib [(''stored'', photo_card)]"
  have "decode_wf ?L" by (auto simp: decode_wf_def wf_map_def photo_card_def split: if_splits)
  from MergeIntoVCard_keeps_unmanaged [OF this, of "''stored''" photo_card "empty_parsed\<lparr>p_fn := ''Eve''\<rparr>"]
  obtain m where m: "MergeIntoVCard ?L ''stored'' (empty_parsed\<lparr>p_fn := ''Eve''\<rparr>) = EncodeCard ?L m"
    and keep: "\<forall>k. \<not> managedProperties k \<longrightarrow> k \<in> fst ` set photo_card \<longrightarrow> map_of m k = map_of photo_card k"
    by auto
  from spec [OF keep, of "''PHOTO''"] m show ?thesis
    by (auto simp: managedProperties_def photo_card_def)
qed

end
