(* ===== verification/ChangeFeed.thy ===== *)
theory ChangeFeed
  imports ContactRepository
begin

text \<open>
  The change journal over time (\<open>internal/repository/change_journal.go\<close>). The contract of a
  journal a client can follow is the locale \<open>change_feed\<close>; the tables of the application,
  under any sequence of repository writes with failures at any statement, are an instance of
  it for every address book. A client is a set of contacts and the last sequence number it
  was given. \<open>ChangesSince\<close> reads the tables in three statements outside a transaction, so its
  answer may mix three states of the tables (\<open>torn_changes\<close>).
\<close>

section \<open>Definitions\<close>

subsection \<open>Histories\<close>

datatype repo_write =
    WCreate contact
  | WSave contact child_records
  | WMergeInto contact child_records string
  | WDelete string
  | WDeleteAll string
  | WDeleteMany string "string list"
  | WCreateBook address_book

definition perform :: "repo_write \<Rightarrow> world \<Rightarrow> world" where
  "perform wr w = (case wr of
       WCreate c \<Rightarrow> snd (Create c w)
     | WSave c cs \<Rightarrow> snd (Save c cs w)
     | WMergeInto c cs i \<Rightarrow> snd (MergeInto c cs i w)
     | WDelete i \<Rightarrow> snd (Delete i w)
     | WDeleteAll b \<Rightarrow> snd (DeleteAll b w)
     | WDeleteMany b ids \<Rightarrow> snd (DeleteMany b ids w)
     | WCreateBook ab \<Rightarrow> snd (CreateBook ab w))"

text \<open>How the callers use the writes: a save of a contact that exists keeps its address book
  and UID, the two sides of a merge are different contacts of one book, and a book starts with
  sequence number 0.\<close>

definition keeps_key :: "contact \<Rightarrow> db \<Rightarrow> bool" where
  "keeps_key c d \<longleftrightarrow> (\<forall>old \<in> set (t_contacts d). c_id old = c_id c \<longrightarrow> card_key old = card_key c)"

definition admissible :: "repo_write \<Rightarrow> db \<Rightarrow> bool" where
  "admissible wr d = (case wr of
       WSave c cs \<Rightarrow> keeps_key c d
     | WMergeInto c cs i \<Rightarrow> keeps_key c d \<and> i \<noteq> c_id c
         \<and> (\<forall>l \<in> set (t_contacts d). c_id l = i \<longrightarrow> c_address_book_id l = c_address_book_id c)
     | WCreateBook ab \<Rightarrow> ab_change_seq ab = 0
     | _ \<Rightarrow> True)"

text \<open>One write on a world with any faults, clock and identifiers, or a change of other tables.\<close>

inductive journal_step :: "db \<Rightarrow> db \<Rightarrow> bool" where
  run: "admissible wr (w_db w) \<Longrightarrow> journal_step (w_db w) (w_db (perform wr w))"
| other: "t_books d' = t_books d \<Longrightarrow> t_contacts d' = t_contacts d \<Longrightarrow> t_tombstones d' = t_tombstones d \<Longrightarrow>
    journal_step d d'"

definition book_rows :: "string \<Rightarrow> db \<Rightarrow> contact set" where
  "book_rows b d = {c \<in> set (t_contacts d). in_book b c}"

definition book_tombs :: "string \<Rightarrow> db \<Rightarrow> contact_tombstone set" where
  "book_tombs b d = {t \<in> set (t_tombstones d). ct_address_book_id t = b}"

subsection \<open>Clients\<close>

text \<open>A client applies an answer by removing what it names and storing what it carries.\<close>

definition apply_delta :: "('r \<Rightarrow> 'u) \<Rightarrow> 'r set \<Rightarrow> 'u set \<Rightarrow> 'r set \<Rightarrow> 'r set" where
  "apply_delta uid upd del S = {r \<in> S. uid r \<notin> del \<and> uid r \<notin> uid ` upd} \<union> upd"

definition apply_changes :: "collection_changes \<Rightarrow> contact set \<Rightarrow> contact set" where
  "apply_changes ch S = apply_delta c_uid (set (ch_updated ch)) (set (ch_deleted_uids ch)) S"

text \<open>The answer whose three statements saw three states of the tables.\<close>

definition torn_changes :: "string \<Rightarrow> int \<Rightarrow> db \<Rightarrow> db \<Rightarrow> db \<Rightarrow> collection_changes" where
  "torn_changes b since d0 d1 d2 =
     \<lparr>ch_updated = updated_since b since d1,
      ch_deleted_uids = (if since = 0 then [] else deleted_since b since d2),
      ch_seq = seq_of d0 b\<rparr>"

text \<open>A server and a client that polls it: any writes between polls, and between the statements of
  a poll unless the book is still at sequence number 0.\<close>

inductive client_reach :: "string \<Rightarrow> db \<Rightarrow> contact set \<Rightarrow> int \<Rightarrow> bool" for b where
  start: "journal_ok d \<Longrightarrow> client_reach b d {} 0"
| server: "client_reach b d S k \<Longrightarrow> journal_step d d' \<Longrightarrow> client_reach b d' S k"
| poll: "client_reach b d S k \<Longrightarrow> journal_step\<^sup>*\<^sup>* d d1 \<Longrightarrow> journal_step\<^sup>*\<^sup>* d1 d2 \<Longrightarrow>
    0 < seq_of d b \<or> d1 = d \<and> d2 = d \<Longrightarrow>
    client_reach b d2 (apply_changes (torn_changes b k d d1 d2) S) (seq_of d b)"

text \<open>The client has every contact up to its sequence number, and the journal still names every
  contact it has and the server has not.\<close>

definition tracks ::
  "('r \<Rightarrow> 'u) \<Rightarrow> ('r \<Rightarrow> int) \<Rightarrow> ('t \<Rightarrow> 'u) \<Rightarrow> ('t \<Rightarrow> int) \<Rightarrow> 'r set \<Rightarrow> 't set \<Rightarrow> 'r set \<Rightarrow> int \<Rightarrow> bool" where
  "tracks uid rseq tuid tseq R T S k \<longleftrightarrow> inj_on uid S
     \<and> (\<forall>r \<in> R. rseq r \<le> k \<longrightarrow> r \<in> S)
     \<and> (\<forall>r \<in> S. uid r \<notin> uid ` R \<longrightarrow> (\<exists>t \<in> T. tuid t = uid r \<and> k < tseq t))"

text \<open>What one write does to the journal of a book.\<close>

definition journalled :: "string \<Rightarrow> db \<Rightarrow> db \<Rightarrow> bool" where
  "journalled b d d' \<longleftrightarrow> seq_of d b \<le> seq_of d' b
     \<and> (\<forall>c \<in> book_rows b d'. c_change_seq c \<le> seq_of d b \<longrightarrow> c \<in> book_rows b d)
     \<and> (\<forall>c \<in> book_rows b d. c_uid c \<notin> c_uid ` book_rows b d' \<longrightarrow>
          (\<exists>t \<in> book_tombs b d'. ct_uid t = c_uid c \<and> seq_of d b < ct_change_seq t))
     \<and> (\<forall>t \<in> book_tombs b d. ct_uid t \<notin> c_uid ` book_rows b d' \<longrightarrow>
          (\<exists>t' \<in> book_tombs b d'. ct_uid t' = ct_uid t \<and> ct_change_seq t \<le> ct_change_seq t'))"

definition buries :: "(contact \<Rightarrow> bool) \<Rightarrow> string \<Rightarrow> string list \<Rightarrow> db \<Rightarrow> bool" where
  "buries P b uids d \<longleftrightarrow> (\<forall>c \<in> set (t_contacts d). P c \<longrightarrow> in_book b c)
     \<and> set uids = c_uid ` {c \<in> set (t_contacts d). P c}"

definition stepped :: "string \<Rightarrow> world \<Rightarrow> world \<Rightarrow> bool" where
  "stepped x w w' \<longleftrightarrow> journal_ok (w_db w') \<and> journalled x (w_db w) (w_db w')"

text \<open>A short history for closed examples: a contact is saved and deleted.\<close>

definition after_save :: world where
  "after_save = perform (WSave ada no_children) (small_world small_db [])"

definition after_delete :: world where
  "after_delete = perform (WDelete ''i1'') after_save"

definition bob :: contact where
  "bob = ada\<lparr>c_id := ''i2'', c_uid := ''bob''\<rparr>"

definition after_two :: world where
  "after_two = perform (WSave bob no_children) after_save"

section \<open>The contract of a journal\<close>

lemma inj_apply_delta:
  assumes "inj_on uid S" "inj_on uid upd"
  shows "inj_on uid (apply_delta uid upd del S)"
proof (rule inj_onI)
  fix x y assume "x \<in> apply_delta uid upd del S" "y \<in> apply_delta uid upd del S" "uid x = uid y"
  then show "x = y"
    using assms by (auto simp: apply_delta_def dest: inj_onD) (metis image_eqI)+
qed

locale change_feed =
  fixes ok :: "'s \<Rightarrow> bool" and step :: "'s \<Rightarrow> 's \<Rightarrow> bool"
    and seq :: "'s \<Rightarrow> int" and rows :: "'s \<Rightarrow> 'r set" and tombs :: "'s \<Rightarrow> 't set"
    and uid :: "'r \<Rightarrow> 'u" and rseq :: "'r \<Rightarrow> int" and tuid :: "'t \<Rightarrow> 'u" and tseq :: "'t \<Rightarrow> int"
  assumes ok_step: "ok s \<Longrightarrow> step s s' \<Longrightarrow> ok s'"
    and rows_unique: "ok s \<Longrightarrow> inj_on uid (rows s)"
    and row_seq: "ok s \<Longrightarrow> r \<in> rows s \<Longrightarrow> 0 < rseq r \<and> rseq r \<le> seq s"
    and tomb_not_live: "ok s \<Longrightarrow> t \<in> tombs s \<Longrightarrow> tuid t \<notin> uid ` rows s"
    and seq_mono: "ok s \<Longrightarrow> step s s' \<Longrightarrow> seq s \<le> seq s'"
    and rows_kept: "ok s \<Longrightarrow> step s s' \<Longrightarrow> r \<in> rows s' \<Longrightarrow> rseq r \<le> seq s \<Longrightarrow> r \<in> rows s"
    and deletions_named: "ok s \<Longrightarrow> step s s' \<Longrightarrow> r \<in> rows s \<Longrightarrow> uid r \<notin> uid ` rows s' \<Longrightarrow>
      \<exists>t \<in> tombs s'. tuid t = uid r \<and> seq s < tseq t"
    and tombs_kept: "ok s \<Longrightarrow> step s s' \<Longrightarrow> t \<in> tombs s \<Longrightarrow> tuid t \<notin> uid ` rows s' \<Longrightarrow>
      \<exists>t' \<in> tombs s'. tuid t' = tuid t \<and> tseq t \<le> tseq t'"
begin

abbreviation follows :: "'r set \<Rightarrow> int \<Rightarrow> 's \<Rightarrow> bool" where
  "follows S k s \<equiv> tracks uid rseq tuid tseq (rows s) (tombs s) S k"

abbreviation upd :: "int \<Rightarrow> 's \<Rightarrow> 'r set" where
  "upd k s \<equiv> {r \<in> rows s. k < rseq r}"

abbreviation del :: "int \<Rightarrow> 's \<Rightarrow> 'u set" where
  "del k s \<equiv> tuid ` {t \<in> tombs s. k < tseq t}"

lemma ok_steps: "step\<^sup>*\<^sup>* s s' \<Longrightarrow> ok s \<Longrightarrow> ok s'"
  by (induction rule: rtranclp_induct) (auto intro: ok_step)

lemma seq_steps: "step\<^sup>*\<^sup>* s s' \<Longrightarrow> ok s \<Longrightarrow> seq s \<le> seq s'"
  by (induction rule: rtranclp_induct) (auto dest: seq_mono ok_steps intro: order_trans)

text \<open>A client that has just been told everything follows.\<close>

lemma follows_self: "ok s \<Longrightarrow> follows (rows s) (seq s) s"
  by (auto simp: tracks_def rows_unique)

lemma follows_empty: "ok s \<Longrightarrow> follows {} 0 s"
  using row_seq by (fastforce simp: tracks_def)

lemma follows_step:
  assumes "ok s" "step s s'" "follows S k s" "k \<le> seq s"
  shows "follows S k s'"
  unfolding tracks_def
proof (intro conjI ballI impI)
  show "inj_on uid S" using assms(3) by (simp add: tracks_def)
next
  fix r assume "r \<in> rows s'" "rseq r \<le> k"
  then show "r \<in> S"
    using assms rows_kept [OF assms(1,2), of r] by (auto simp: tracks_def)
next
  fix r assume r: "r \<in> S" "uid r \<notin> uid ` rows s'"
  show "\<exists>t \<in> tombs s'. tuid t = uid r \<and> k < tseq t"
  proof (cases "uid r \<in> uid ` rows s")
    case True
    then obtain r' where "r' \<in> rows s" "uid r = uid r'" by auto
    with r deletions_named [OF assms(1,2), of r'] assms(4) show ?thesis by force
  next
    case False
    with assms(3) r obtain t where "t \<in> tombs s" "tuid t = uid r" "k < tseq t"
      by (auto simp: tracks_def)
    with tombs_kept [OF assms(1,2), of t] r show ?thesis by force
  qed
qed

lemma follows_steps:
  assumes "step\<^sup>*\<^sup>* s s'" "ok s" "follows S k s" "k \<le> seq s"
  shows "follows S k s'"
  using assms
proof (induction rule: rtranclp_induct)
  case (step y z)
  then show ?case using follows_step [of y z] ok_steps seq_steps [of s y] by auto
qed

text \<open>An answer read from one state brings a following client up to date.\<close>

lemma poll_quiet:
  assumes "ok s" "follows S k s"
  shows "apply_delta uid (upd k s) (del k s) S = rows s"
proof (intro equalityI subsetI)
  fix r assume "r \<in> apply_delta uid (upd k s) (del k s) S"
  then consider "r \<in> rows s" | "r \<in> S" "uid r \<notin> del k s" "uid r \<notin> uid ` upd k s"
    by (auto simp: apply_delta_def)
  then show "r \<in> rows s"
  proof cases
    case 2
    then have "uid r \<in> uid ` rows s" using assms(2) by (force simp: tracks_def)
    then obtain r' where r': "r' \<in> rows s" "uid r' = uid r" by force
    then have "rseq r' \<le> k" using 2(3) by (metis (no_types, lifting) image_eqI mem_Collect_eq not_less)
    then have "r' \<in> S" using assms(2) r'(1) by (auto simp: tracks_def)
    then have "r = r'" using 2(1) r'(2) assms(2) by (auto simp: tracks_def inj_on_def)
    then show ?thesis using r'(1) by simp
  qed
next
  fix r assume r: "r \<in> rows s"
  show "r \<in> apply_delta uid (upd k s) (del k s) S"
  proof (cases "k < rseq r")
    case False
    then have "r \<in> S" using r assms(2) by (auto simp: tracks_def)
    moreover have "uid r \<notin> del k s" using tomb_not_live [OF assms(1)] r by force
    moreover have "uid r \<notin> uid ` upd k s"
      using rows_unique [OF assms(1)] r False by (auto simp: inj_on_def)
    ultimately show ?thesis by (simp add: apply_delta_def)
  qed (simp add: apply_delta_def r)
qed

text \<open>An answer mixed from three successive states leaves the client following.\<close>

lemma poll_torn:
  assumes "ok s0" "step\<^sup>*\<^sup>* s0 s1" "step\<^sup>*\<^sup>* s1 s2" "follows S k s0" "k \<le> seq s0"
  shows "follows (apply_delta uid (upd k s1) (del k s2) S) (seq s0) s2"
proof -
  have ok: "ok s1" "ok s2" using ok_steps assms(1-3) by blast+
  have le: "seq s0 \<le> seq s1" "seq s1 \<le> seq s2" using seq_steps assms ok by blast+
  have f1: "follows S k s1" using follows_steps assms by blast
  have f2: "follows S k s2" using follows_steps [OF assms(3) ok(1) f1] le assms(5) by simp
  have g: "follows (rows s1) (seq s1) s2"
    using follows_steps [OF assms(3) ok(1) follows_self [OF ok(1)]] by simp
  let ?S = "apply_delta uid (upd k s1) (del k s2) S"
  have "inj_on uid ?S"
    by (rule inj_apply_delta) (use f1 rows_unique [OF ok(1)] in \<open>auto simp: tracks_def intro: inj_on_subset\<close>)
  moreover have "r \<in> ?S" if r: "r \<in> rows s2" "rseq r \<le> seq s0" for r
  proof -
    have r1: "r \<in> rows s1" using g r le by (auto simp: tracks_def)
    show ?thesis
    proof (cases "k < rseq r")
      case False
      then have "r \<in> S" using r f2 by (auto simp: tracks_def)
      moreover have "uid r \<notin> del k s2" using tomb_not_live [OF ok(2)] r by force
      moreover have "uid r \<notin> uid ` upd k s1"
        using rows_unique [OF ok(1)] r1 False by (auto simp: inj_on_def)
      ultimately show ?thesis by (simp add: apply_delta_def)
    qed (simp add: apply_delta_def r1)
  qed
  moreover have "\<exists>t \<in> tombs s2. tuid t = uid r \<and> seq s0 < tseq t"
    if r: "r \<in> ?S" "uid r \<notin> uid ` rows s2" for r
  proof (cases "r \<in> upd k s1")
    case True
    then obtain t where "t \<in> tombs s2" "tuid t = uid r" "seq s1 < tseq t"
      using g r(2) by (auto simp: tracks_def)
    then show ?thesis using le by force
  next
    case False
    then have "r \<in> S" "uid r \<notin> del k s2" using r(1) by (auto simp: apply_delta_def)
    then show ?thesis using f2 r(2) by (force simp: tracks_def)
  qed
  ultimately show ?thesis by (simp add: tracks_def)
qed

end

section \<open>The tables are a journal\<close>

lemma find_bump:
  "find (\<lambda>x. ab_id x = y) (bump_books b bs) =
     map_option (\<lambda>x. if ab_id x = b then x\<lparr>ab_change_seq := ab_change_seq x + 1\<rparr> else x)
       (find (\<lambda>x. ab_id x = y) bs)"
  by (induction bs) (auto simp: bump_books_def)

lemma seq_of_bump:
  "seq_of (d\<lparr>t_books := bump_books b (t_books d)\<rparr>) x = (if x = b \<and> has_book d b then seq_of d b + 1 else seq_of d x)"
proof (cases "find (\<lambda>y. ab_id y = x) (t_books d)")
  case None
  then show ?thesis by (auto simp: seq_of_def book_seq_def find_bump has_book_iff)
next
  case (Some y)
  with find_book [OF this] show ?thesis
    by (auto simp: seq_of_def book_seq_def find_bump has_book_def)
qed

lemma seq_of_update [simp]:
  "seq_of (d\<lparr>t_tombstones := ts\<rparr>) x = seq_of d x" "seq_of (d\<lparr>t_contacts := cs\<rparr>) x = seq_of d x"
  "seq_of (d\<lparr>t_children := ch\<rparr>) x = seq_of d x" "seq_of (d\<lparr>t_duplicates := ds\<rparr>) x = seq_of d x"
  by (simp_all add: seq_of_def book_seq_def)

lemma seq_of_bumped [simp]:
  "seq_of (bumped b d) x = (if x = b \<and> has_book d b then seq_of d b + 1 else seq_of d x)"
  by (simp add: bumped_def seq_of_bump)

lemma seq_of_bumped_le: "seq_of d x \<le> seq_of (bumped b d) x"
  by simp

lemma tables_buried [simp]:
  "t_contacts (buried P ts d) = filter (\<lambda>c. \<not> P c) (t_contacts d)"
  "t_tombstones (buried P ts d) = t_tombstones d @ ts" "t_books (buried P ts d) = t_books d"
  "seq_of (buried P ts d) x = seq_of d x" "has_book (buried P ts d) x = has_book d x"
  by (simp_all add: buried_def drop_contacts_def Let_def)

lemma tables_saved [simp]:
  "t_books (saved c cs d) = bump_books (c_address_book_id c) (t_books d)"
  "seq_of (saved c cs d) x = (if x = c_address_book_id c \<and> has_book d x then seq_of d x + 1 else seq_of d x)"
  "has_book (saved c cs d) x = has_book d x"
  by (simp_all add: saved_def Let_def seq_of_bump)

lemma books_nonneg_bump:
  "(\<forall>b \<in> set bs. 0 \<le> ab_change_seq b) \<Longrightarrow> (\<forall>x \<in> set (bump_books b bs). 0 \<le> ab_change_seq x)"
  by (auto simp: bump_books_def)

lemma seq_of_nonneg: "journal_ok d \<Longrightarrow> 0 \<le> seq_of d b"
  by (cases "find (\<lambda>x. ab_id x = b) (t_books d)")
    (auto simp: seq_of_def book_seq_def journal_ok_def dest: find_book)

lemma journal_ok_bumped: "journal_ok d \<Longrightarrow> journal_ok (bumped b d)"
  using seq_of_bumped_le [of d] books_nonneg_bump [of "t_books d" b]
  by (fastforce simp: journal_ok_def tables_ok_def bumped_def [of b d, THEN arg_cong, of t_books])

text \<open>The rows after a save: the saved one, and the others.\<close>

lemma rows_saved:
  assumes "tables_ok d"
  shows "set (t_contacts (saved c cs d)) =
    insert (c\<lparr>c_change_seq := seq_of d (c_address_book_id c) + 1\<rparr>) {x \<in> set (t_contacts d). c_id x \<noteq> c_id c}"
  by (auto simp: saved_def Let_def set_upsert_row image_iff)

lemma keys_upsert:
  assumes "\<forall>x \<in> set rows. key x = key r \<longrightarrow> k x = k r"
  shows "map k (upsert_row key r rows) = map k rows"
  using assms by (auto simp: upsert_row_def)

lemma keeps_key_known:
  assumes "keeps_key c d" "c_id c \<in> c_id ` set (t_contacts d)"
  shows "card_key c \<in> card_key ` set (t_contacts d)"
proof -
  obtain x where "x \<in> set (t_contacts d)" "c_id x = c_id c" using assms(2) by force
  with assms(1) have "x \<in> set (t_contacts d)" "card_key c = card_key x" by (simp_all add: keeps_key_def)
  then show ?thesis by (intro image_eqI)
qed

lemma may_save_new:
  assumes "may_save c d" "c_id c \<notin> c_id ` set (t_contacts d)"
  shows "card_key c \<notin> card_key ` set (t_contacts d)"
proof -
  have "c_id x \<noteq> c_id c" if "x \<in> set (t_contacts d)" for x using assms(2) that by (metis imageI)
  then have "{x \<in> set (t_contacts d). c_id x \<noteq> c_id c} = set (t_contacts d)" by auto
  with assms(1) show ?thesis by (simp add: may_save_def)
qed

lemma tables_ok_saved:
  assumes "tables_ok d" "may_save c d" "keeps_key c d"
  shows "tables_ok (saved c cs d)"
proof -
  let ?c = "c\<lparr>c_change_seq := seq_of d (c_address_book_id c) + 1\<rparr>"
  have "map c_id (upsert_row c_id ?c (t_contacts d)) = map c_id (t_contacts d)" by simp
  moreover have "map card_key (upsert_row c_id ?c (t_contacts d)) = map card_key (t_contacts d)"
    using assms(3) by (intro keys_upsert) (auto simp: keeps_key_def)
  moreover note may_save_new [OF assms(2)]
  ultimately have "distinct (map c_id (t_contacts (saved c cs d)))" "distinct (map card_key (t_contacts (saved c cs d)))"
    using assms(1) by (simp_all add: tables_ok_def saved_def Let_def)
  moreover have "\<forall>x \<in> set (t_contacts (saved c cs d)). has_book d (c_address_book_id x)"
    using assms(1,2) by (auto simp: rows_saved [OF assms(1)] tables_ok_def may_save_def)
  ultimately show ?thesis using assms(1) by (simp add: tables_ok_def)
qed

lemma card_keys_saved:
  assumes "tables_ok d" "keeps_key c d"
  shows "card_key ` set (t_contacts (saved c cs d)) = insert (card_key c) (card_key ` set (t_contacts d))"
  using assms(2) by (force simp: rows_saved [OF assms(1)] keeps_key_def)

lemma tombs_saved:
  "t \<in> set (t_tombstones (saved c cs d)) \<Longrightarrow> t \<in> set (t_tombstones d)"
  by (auto simp: saved_def Let_def split: if_splits)

lemma journal_ok_saved:
  assumes "journal_ok d" "may_save c d" "keeps_key c d"
  shows "journal_ok (saved c cs d)"
proof -
  have t: "tables_ok d" using assms(1) by (simp add: journal_ok_def)
  have le: "seq_of d x \<le> seq_of (saved c cs d) x" for x by simp
  have "0 < c_change_seq x \<and> c_change_seq x \<le> seq_of (saved c cs d) (c_address_book_id x)"
    if "x \<in> set (t_contacts (saved c cs d))" for x
    using that assms le [of "c_address_book_id x"] seq_of_nonneg [OF assms(1), of "c_address_book_id c"]
    by (auto simp: rows_saved [OF t] journal_ok_def may_save_def)
  moreover have "ct_change_seq x \<le> seq_of (saved c cs d) (ct_address_book_id x)
      \<and> (ct_address_book_id x, ct_uid x) \<notin> card_key ` set (t_contacts (saved c cs d))"
    if x: "x \<in> set (t_tombstones (saved c cs d))" for x
  proof -
    have x': "x \<in> set (t_tombstones d)" using tombs_saved x by blast
    then have old: "ct_change_seq x \<le> seq_of d (ct_address_book_id x)"
      "(ct_address_book_id x, ct_uid x) \<notin> card_key ` set (t_contacts d)"
      using assms(1) by (auto simp: journal_ok_def)
    have "(ct_address_book_id x, ct_uid x) \<noteq> card_key c"
    proof (cases "c_id c \<in> c_id ` set (t_contacts d)")
      case True
      with old show ?thesis using keeps_key_known [OF assms(3)] by metis
    next
      case False
      with x show ?thesis by (auto simp: saved_def Let_def)
    qed
    with old order_trans [OF old(1) le [of "ct_address_book_id x"]] show ?thesis
      by (simp add: card_keys_saved [OF t assms(3)] del: tables_saved)
  qed
  ultimately show ?thesis
    using tables_ok_saved [OF t assms(2,3)] assms(1) books_nonneg_bump [of "t_books d"]
    by (auto simp: journal_ok_def)
qed

lemma journal_ok_buried:
  assumes "journal_ok d" "buries P b uids d" "tombstones_for b s uids ts" "s \<le> seq_of d b"
  shows "journal_ok (buried P ts d)"
proof -
  have inj: "inj_on card_key (set (t_contacts d))"
    using assms(1) by (simp add: journal_ok_def tables_ok_def distinct_map)
  have new: "(ct_address_book_id t, ct_uid t) \<notin> card_key ` {c \<in> set (t_contacts d). \<not> P c}"
    if t: "t \<in> set ts" for t
  proof
    assume "(ct_address_book_id t, ct_uid t) \<in> card_key ` {c \<in> set (t_contacts d). \<not> P c}"
    then obtain c where c: "c \<in> set (t_contacts d)" "\<not> P c" "card_key c = (b, ct_uid t)"
      using assms(3) t by (auto simp: tombstones_for_def)
    have "ct_uid t \<in> set uids" using assms(3) t by (auto simp: tombstones_for_def)
    then obtain c' where c': "c' \<in> set (t_contacts d)" "P c'" "card_key c' = (b, ct_uid t)"
      using assms(2) by (auto simp: buries_def in_book_def)
    have "c = c'" by (rule inj_onD [OF inj]) (use c c' in simp_all)
    with c c' show False by simp
  qed
  have old: "(ct_address_book_id t, ct_uid t) \<notin> card_key ` {c \<in> set (t_contacts d). \<not> P c}"
    if "t \<in> set (t_tombstones d)" for t
    using assms(1) that by (auto simp: journal_ok_def)
  have "tables_ok (buried P ts d)"
    using assms(1) by (auto simp: journal_ok_def tables_ok_def distinct_map_filter)
  moreover have "ct_change_seq t \<le> seq_of d (ct_address_book_id t)" if "t \<in> set (t_tombstones d @ ts)" for t
    using assms that by (auto simp: journal_ok_def tombstones_for_def)
  ultimately show ?thesis
    using assms(1) new old by (simp add: journal_ok_def ball_Un)
qed

subsection \<open>Every write is journalled\<close>

lemma journalled_same:
  "t_books d' = t_books d \<Longrightarrow> t_contacts d' = t_contacts d \<Longrightarrow> t_tombstones d' = t_tombstones d \<Longrightarrow>
   journalled b d d'"
  by (auto simp: journalled_def book_rows_def book_tombs_def seq_of_def book_seq_def)

lemma journalled_bumped: "journalled x d (bumped b d)"
  using seq_of_bumped_le [of d x b] by (auto simp: journalled_def book_rows_def book_tombs_def)

lemma uids_of_keys: "c_uid ` book_rows b d = {u. (b, u) \<in> card_key ` set (t_contacts d)}"
  by (auto simp: book_rows_def in_book_def image_iff)

lemma journalled_saved:
  assumes "tables_ok d" "may_save c d" "keeps_key c d"
  shows "journalled x d (saved c cs d)"
proof -
  have live: "c_uid ` book_rows x d \<subseteq> c_uid ` book_rows x (saved c cs d)"
    unfolding uids_of_keys card_keys_saved [OF assms(1,3)] by auto
  have "t \<in> book_tombs x (saved c cs d)"
    if "t \<in> book_tombs x d" "ct_uid t \<notin> c_uid ` book_rows x (saved c cs d)" for t
    using that unfolding uids_of_keys card_keys_saved [OF assms(1,3)]
    by (auto simp: book_tombs_def saved_def Let_def)
  moreover have "r \<in> book_rows x d" if "r \<in> book_rows x (saved c cs d)" "c_change_seq r \<le> seq_of d x" for r
    using that by (auto simp: book_rows_def rows_saved [OF assms(1)] in_book_def)
  moreover have "c_uid r \<in> c_uid ` book_rows x (saved c cs d)" if "r \<in> book_rows x d" for r
    using live that by blast
  moreover have "seq_of d x \<le> seq_of (saved c cs d) x" by simp
  ultimately show ?thesis unfolding journalled_def by blast
qed

lemma journalled_buried:
  assumes "journal_ok d" "journalled x d d1" "buries P b uids d1" "tombstones_for b s uids ts" "seq_of d b < s"
  shows "journalled x d (buried P ts d1)"
proof -
  have rows: "book_rows x (buried P ts d1) = {c \<in> book_rows x d1. \<not> P c}"
    and tombs: "book_tombs x (buried P ts d1) = book_tombs x d1 \<union> {t \<in> set ts. ct_address_book_id t = x}"
    by (auto simp: book_rows_def book_tombs_def)
  have named: "\<exists>t \<in> book_tombs x (buried P ts d1). ct_uid t = u \<and> seq_of d x < ct_change_seq t"
    if u: "u \<in> c_uid ` book_rows x d1" "u \<notin> c_uid ` {c \<in> book_rows x d1. \<not> P c}" for u
  proof -
    obtain c where c: "c \<in> book_rows x d1" "P c" "c_uid c = u" using u by auto
    then have "in_book b c" "u \<in> set uids" using assms(3) by (auto simp: buries_def book_rows_def)
    then have "x = b" "u \<in> ct_uid ` set ts" using c(1) assms(4) by (auto simp: book_rows_def in_book_def tombstones_for_def)
    then show ?thesis unfolding tombs using assms(4,5) by (auto simp: tombstones_for_def)
  qed
  have "\<exists>t \<in> book_tombs x (buried P ts d1). ct_uid t = c_uid c \<and> seq_of d x < ct_change_seq t"
    if c: "c \<in> book_rows x d" "c_uid c \<notin> c_uid ` {c \<in> book_rows x d1. \<not> P c}" for c
  proof (cases "c_uid c \<in> c_uid ` book_rows x d1")
    case False
    with c(1) assms(2) show ?thesis unfolding tombs journalled_def by blast
  qed (rule named, use c in auto)
  moreover have "\<exists>t' \<in> book_tombs x (buried P ts d1). ct_uid t' = ct_uid t \<and> ct_change_seq t \<le> ct_change_seq t'"
    if t: "t \<in> book_tombs x d" "ct_uid t \<notin> c_uid ` {c \<in> book_rows x d1. \<not> P c}" for t
  proof (cases "ct_uid t \<in> c_uid ` book_rows x d1")
    case True
    have "ct_change_seq t \<le> seq_of d x" using assms(1) t(1) by (auto simp: journal_ok_def book_tombs_def)
    with named [OF True t(2)] show ?thesis by force
  next
    case False
    with t(1) assms(2) show ?thesis unfolding tombs journalled_def by blast
  qed
  moreover have "c \<in> book_rows x d"
    if "c \<in> book_rows x d1" "c_change_seq c \<le> seq_of d x" for c
    using assms(2) that by (simp add: journalled_def)
  ultimately show ?thesis
    using assms(2) unfolding journalled_def rows tables_buried by auto
qed

text \<open>A committed deletion: bump, drop, bury.\<close>

lemma delete_step:
  assumes "journal_ok d" "buries P b uids d" "has_book d b" "tombstones_for b (seq_of d b + 1) uids ts"
  shows "journal_ok (buried P ts (bumped b d)) \<and> journalled x d (buried P ts (bumped b d))"
proof
  have "buries P b uids (bumped b d)" using assms(2) by (simp add: buries_def)
  then show "journal_ok (buried P ts (bumped b d))"
    using journal_ok_buried [OF journal_ok_bumped [OF assms(1)]] assms(3,4) by simp
  show "journalled x d (buried P ts (bumped b d))"
    using journalled_buried [OF assms(1) journalled_bumped] \<open>buries P b uids (bumped b d)\<close> assms(4) by simp
qed

lemma buries_one:
  assumes "tables_ok d" "c \<in> set (t_contacts d)" "c_id c = i"
  shows "buries (\<lambda>c. c_id c = i) (c_address_book_id c) [c_uid c] d"
proof -
  have inj: "inj_on c_id (set (t_contacts d))" using assms(1) by (simp add: tables_ok_def distinct_map)
  have "c' = c" if "c' \<in> set (t_contacts d)" "c_id c' = i" for c'
    by (rule inj_onD [OF inj]) (use assms that in simp_all)
  then have one: "{x \<in> set (t_contacts d). c_id x = i} = {c}" using assms(2,3) by blast
  then have "\<forall>x \<in> set (t_contacts d). c_id x = i \<longrightarrow> x = c" by blast
  with one show ?thesis by (simp add: buries_def in_book_def)
qed

text \<open>A committed merge: save the winner, then bury the loser at the same sequence number.\<close>

lemma merge_step:
  assumes "journal_ok d" "may_save c d" "keeps_key c d" "i \<noteq> c_id c"
    and "l \<in> set (t_contacts d)" "c_id l = i" "c_address_book_id l = c_address_book_id c"
    and "tombstones_for (c_address_book_id l) (seq_of d (c_address_book_id c) + 1) [c_uid l] ts"
  shows "journal_ok (buried (\<lambda>x. c_id x = i) ts (saved c cs d))
    \<and> journalled x d (buried (\<lambda>x. c_id x = i) ts (saved c cs d))"
proof -
  have t: "tables_ok d" using assms(1) by (simp add: journal_ok_def)
  have ok: "journal_ok (saved c cs d)" using journal_ok_saved assms(1-3) by blast
  have "l \<in> set (t_contacts (saved c cs d))" using assms(4-6) by (auto simp: rows_saved [OF t])
  then have b: "buries (\<lambda>x. c_id x = i) (c_address_book_id l) [c_uid l] (saved c cs d)"
    using buries_one ok assms(6) by (auto simp: journal_ok_def)
  have "has_book d (c_address_book_id c)" using assms(2) by (simp add: may_save_def)
  then show ?thesis
    using journal_ok_buried [OF ok b assms(8)] journalled_saved [OF t assms(2,3), of x cs]
      journalled_buried [OF assms(1) _ b assms(8)] assms(7) by simp
qed

lemma tables_CreateBook:
  assumes "CreateBook ab w = (Inr (), w')"
  shows "w_db w' = (w_db w)\<lparr>t_books := t_books (w_db w) @ [ab]\<rparr> \<and> ab_id ab \<notin> ab_id ` set (t_books (w_db w))"
  using stmt_Inr_db [OF assms [unfolded CreateBook_def]]
  by (auto simp: insert_row_Inr split: if_splits sum.splits)

lemma book_step:
  assumes "journal_ok d" "ab_change_seq ab = 0" "ab_id ab \<notin> ab_id ` set (t_books d)"
  shows "journal_ok (d\<lparr>t_books := t_books d @ [ab]\<rparr>) \<and> journalled x d (d\<lparr>t_books := t_books d @ [ab]\<rparr>)"
proof -
  let ?d = "d\<lparr>t_books := t_books d @ [ab]\<rparr>"
  have "find P (xs @ [y]) = (case find P xs of None \<Rightarrow> if P y then Some y else None | Some z \<Rightarrow> Some z)"
    for P and xs :: "address_book list" and y by (induction xs) auto
  then have seq: "seq_of ?d y = seq_of d y" for y
    using assms(2) by (auto simp: seq_of_def book_seq_def split: option.splits)
  with assms show ?thesis
    by (auto simp: journal_ok_def tables_ok_def journalled_def book_rows_def book_tombs_def has_book_def)
qed

text \<open>The single-statement and the transactional writes: an error leaves the tables alone.\<close>

lemma writes_rollback:
  "Create c w = (Inl e, w') \<Longrightarrow> w_db w' = w_db w"
  "Delete i w = (Inl e, w') \<Longrightarrow> w_db w' = w_db w"
  "DeleteAll b w = (Inl e, w') \<Longrightarrow> w_db w' = w_db w"
  "DeleteMany b ids w = (Inl e, w') \<Longrightarrow> w_db w' = w_db w"
  "CreateBook ab w = (Inl e, w') \<Longrightarrow> w_db w' = w_db w"
  by (auto simp: Create_def Delete_def DeleteAll_def DeleteMany_def CreateBook_def prog_simps
      stmt_def Let_def split: if_splits sum.splits dest: RunInTx_Inl)

lemma MergeInto_rollback: "MergeInto c cs i w = (Inl e, w') \<Longrightarrow> w_db w' = w_db w"
  using assignChildIDs_total [where 'e = db_error, of "c_id c" cs w]
  by (auto simp: MergeInto_def andThen_def [of "assignChildIDs (c_id c) cs"] split: prod.splits sum.splits
      dest!: assignChildIDs_commit RunInTx_Inl)

lemma journal_ok_children [simp]: "journal_ok (d\<lparr>t_children := ch\<rparr>) = journal_ok d"
  by (simp add: journal_ok_def tables_ok_def)

lemma journalled_children: "journalled x d (d'\<lparr>t_children := ch\<rparr>) = journalled x d d'"
  by (simp add: journalled_def book_rows_def book_tombs_def)

lemma stepped_same: "journal_ok (w_db w) \<Longrightarrow> w_db w' = w_db w \<Longrightarrow> stepped x w w'"
  using journalled_same [of "w_db w'" "w_db w" x] by (simp add: stepped_def)

lemma keeps_key_new: "c_id c \<notin> c_id ` set (t_contacts d) \<Longrightarrow> keeps_key c d"
  unfolding keeps_key_def by (metis imageI)

lemma stepped_Create:
  assumes "journal_ok (w_db w)" "Create c w = (r, w')"
  shows "stepped x w w'"
proof (cases r)
  case (Inl e)
  with assms writes_rollback(1) show ?thesis by (intro stepped_same) auto
next
  case (Inr u)
  with assms(2) have eff: "c_id c \<notin> c_id ` set (t_contacts (w_db w)) \<and> may_save c (w_db w)
      \<and> (\<exists>cs. w_db w' = (saved c cs (w_db w))\<lparr>t_children := t_children (w_db w)\<rparr>)"
    using Create_commit [of c w w'] by auto
  have "tables_ok (w_db w)" using assms(1) by (simp add: journal_ok_def)
  with eff assms(1) show ?thesis
    using journal_ok_saved journalled_saved keeps_key_new [of c "w_db w"]
    by (auto simp: stepped_def journalled_children)
qed

lemma stepped_Save:
  assumes "journal_ok (w_db w)" "Save c cs w = (r, w')" "keeps_key c (w_db w)"
  shows "stepped x w w'"
proof (cases r)
  case (Inl e)
  with assms Save_rollback show ?thesis by (intro stepped_same) auto
next
  case (Inr u)
  with assms(2) Save_commit [of c cs w w'] obtain cs' where
    eff: "may_save c (w_db w)" "w_db w' = saved c cs' (w_db w)" by auto
  have "tables_ok (w_db w)" using assms(1) by (simp add: journal_ok_def)
  with eff assms show ?thesis
    by (simp add: stepped_def journal_ok_saved journalled_saved)
qed

lemma stepped_MergeInto:
  assumes "journal_ok (w_db w)" "MergeInto c cs i w = (r, w')"
    and "admissible (WMergeInto c cs i) (w_db w)"
  shows "stepped x w w'"
proof (cases r)
  case (Inl e)
  with assms MergeInto_rollback show ?thesis by (intro stepped_same) auto
next
  case (Inr u)
  have adm: "keeps_key c (w_db w)" "i \<noteq> c_id c"
    "\<forall>l \<in> set (t_contacts (w_db w)). c_id l = i \<longrightarrow> c_address_book_id l = c_address_book_id c"
    using assms(3) by (simp_all add: admissible_def)
  have t: "tables_ok (w_db w)" using assms(1) by (simp add: journal_ok_def)
  from Inr assms(2) MergeInto_commit [of c cs i w w'] obtain cs' where may: "may_save c (w_db w)"
    and eff: "case select_one (\<lambda>x. c_id x = i) (t_contacts (w_db w)) of
         None \<Rightarrow> w_db w' = saved c cs' (w_db w)
       | Some l \<Rightarrow> \<exists>ts. tombstones_for (c_address_book_id l) (seq_of (w_db w) (c_address_book_id c) + 1) [c_uid l] ts
           \<and> w_db w' = buried (\<lambda>x. c_id x = i) ts (saved c cs' (w_db w))" by auto
  show ?thesis
  proof (cases "select_one (\<lambda>x. c_id x = i) (t_contacts (w_db w))")
    case None
    with eff show ?thesis
      using journal_ok_saved journalled_saved [OF t may adm(1)] assms(1) may adm(1) by (simp add: stepped_def)
  next
    case (Some l)
    have l: "l \<in> set (t_contacts (w_db w))" "c_id l = i" using select_one_Some [OF Some] by simp_all
    with adm(3) have "c_address_book_id l = c_address_book_id c" by blast
    with Some eff merge_step [OF assms(1) may adm(1,2) l] show ?thesis
      by (auto simp: stepped_def)
  qed
qed

lemma stepped_Delete:
  assumes "journal_ok (w_db w)" "Delete i w = (r, w')"
  shows "stepped x w w'"
proof (cases r)
  case (Inl e)
  with assms writes_rollback(2) show ?thesis by (intro stepped_same) auto
next
  case (Inr u)
  with assms(2) Delete_commit [of i w w'] consider "w_db w' = w_db w"
    | c ts where "c \<in> set (t_contacts (w_db w))" "c_id c = i"
      "tombstones_for (c_address_book_id c) (seq_of (w_db w) (c_address_book_id c) + 1) [c_uid c] ts"
      "w_db w' = buried (\<lambda>c'. c_id c' = i) ts (bumped (c_address_book_id c) (w_db w))" by auto
  then show ?thesis
  proof cases
    case 1
    with assms(1) show ?thesis by (rule stepped_same)
  next
    case (2 c ts)
    have t: "tables_ok (w_db w)" using assms(1) by (simp add: journal_ok_def)
    then have "has_book (w_db w) (c_address_book_id c)" using 2(1) by (simp add: tables_ok_def)
    with delete_step [OF assms(1) buries_one [OF t 2(1,2)] _ 2(3)] 2(4) show ?thesis
      by (simp add: stepped_def)
  qed
qed

lemma buries_filter:
  "(\<And>c. P c \<Longrightarrow> in_book b c) \<Longrightarrow> buries P b (map c_uid (filter P (t_contacts d))) d"
  by (auto simp: buries_def)

lemma stepped_bulk:
  assumes "journal_ok (w_db w)" "\<And>c. P c \<Longrightarrow> in_book b c" "has_book (w_db w) b"
    and "tombstones_for b (seq_of (w_db w) b + 1) (map c_uid (filter P (t_contacts (w_db w)))) ts"
    and "w_db w' = buried P ts (bumped b (w_db w))"
  shows "stepped x w w'"
  using delete_step [OF assms(1) buries_filter [OF assms(2)] assms(3,4)] assms(5) by (simp add: stepped_def)

lemma stepped_DeleteAll:
  assumes "journal_ok (w_db w)" "DeleteAll b w = (r, w')"
  shows "stepped x w w'"
proof (cases r)
  case (Inl e)
  with assms writes_rollback(3) show ?thesis by (intro stepped_same) auto
next
  case (Inr u)
  with assms(2) DeleteAll_commit [of b w w'] show ?thesis
    by (auto intro: stepped_bulk [OF assms(1)])
qed

lemma stepped_DeleteMany:
  assumes "journal_ok (w_db w)" "DeleteMany b ids w = (r, w')"
  shows "stepped x w w'"
proof (cases "ids = []")
  case True
  with assms show ?thesis by (intro stepped_same) (auto simp: DeleteMany_def prog_simps)
next
  case False
  show ?thesis
  proof (cases r)
    case (Inl e)
    with assms writes_rollback(4) show ?thesis by (intro stepped_same) auto
  next
    case (Inr n)
    with assms(2) DeleteMany_commit [of b ids w n w'] False obtain ts where
      "has_book (w_db w) b"
      "tombstones_for b (seq_of (w_db w) b + 1)
        (map c_uid (filter (\<lambda>c. in_book b c \<and> c_id c \<in> set ids) (t_contacts (w_db w)))) ts"
      "w_db w' = buried (\<lambda>c. in_book b c \<and> c_id c \<in> set ids) ts (bumped b (w_db w))" by auto
    then show ?thesis by (intro stepped_bulk [OF assms(1)]) auto
  qed
qed

lemma stepped_CreateBook:
  assumes "journal_ok (w_db w)" "CreateBook ab w = (r, w')" "ab_change_seq ab = 0"
  shows "stepped x w w'"
proof (cases r)
  case (Inl e)
  with assms writes_rollback(5) show ?thesis by (intro stepped_same) auto
next
  case (Inr u)
  with assms tables_CreateBook [of ab w w'] book_step [OF assms(1,3)] show ?thesis
    by (auto simp: stepped_def)
qed

lemma perform_step:
  assumes "journal_ok (w_db w)" "admissible wr (w_db w)"
  shows "stepped x w (perform wr w)"
  using assms
  by (cases wr)
    (auto simp: perform_def admissible_def [of "WSave c cs" for c cs] admissible_def [of "WCreateBook ab" for ab]
      intro: stepped_Create stepped_Save stepped_MergeInto stepped_Delete stepped_DeleteAll
        stepped_DeleteMany stepped_CreateBook prod.collapse [symmetric])

lemma journal_step_ok:
  assumes "journal_step d d'" "journal_ok d"
  shows "journal_ok d' \<and> journalled x d d'"
  using assms(1)
proof (cases rule: journal_step.cases)
  case (run wr w)
  then show ?thesis using perform_step [of w wr x] assms(2) by (simp add: stepped_def)
next
  case other
  then have "seq_of d' y = seq_of d y" for y by (simp add: seq_of_def book_seq_def)
  with other assms(2) journalled_same [of d' d x] show ?thesis
    by (simp add: journal_ok_def tables_ok_def has_book_def)
qed

interpretation feed: change_feed journal_ok journal_step "\<lambda>d. seq_of d b" "book_rows b" "book_tombs b"
  c_uid c_change_seq ct_uid ct_change_seq for b
proof
  fix s s' t r
  assume ok: "journal_ok s"
  have "inj_on card_key (set (t_contacts s))" using ok by (simp add: journal_ok_def tables_ok_def distinct_map)
  then show "inj_on c_uid (book_rows b s)" by (auto simp: inj_on_def book_rows_def in_book_def)
  show "r \<in> book_rows b s \<Longrightarrow> 0 < c_change_seq r \<and> c_change_seq r \<le> seq_of s b"
    using ok by (auto simp: journal_ok_def book_rows_def in_book_def)
  show "t \<in> book_tombs b s \<Longrightarrow> ct_uid t \<notin> c_uid ` book_rows b s"
    using ok by (auto simp: journal_ok_def book_rows_def book_tombs_def in_book_def image_iff)
  assume "journal_step s s'"
  from journal_step_ok [OF this ok] have j: "journal_ok s'" "journalled b s s'" by blast+
  show "journal_ok s'" by (rule j)
  show "seq_of s b \<le> seq_of s' b" using j(2) by (simp add: journalled_def)
  show "r \<in> book_rows b s' \<Longrightarrow> c_change_seq r \<le> seq_of s b \<Longrightarrow> r \<in> book_rows b s"
    using j(2) by (simp add: journalled_def)
  show "r \<in> book_rows b s \<Longrightarrow> c_uid r \<notin> c_uid ` book_rows b s' \<Longrightarrow>
      \<exists>t \<in> book_tombs b s'. ct_uid t = c_uid r \<and> seq_of s b < ct_change_seq t"
    using j(2) by (simp add: journalled_def)
  show "t \<in> book_tombs b s \<Longrightarrow> ct_uid t \<notin> c_uid ` book_rows b s' \<Longrightarrow>
      \<exists>t' \<in> book_tombs b s'. ct_uid t' = ct_uid t \<and> ct_change_seq t \<le> ct_change_seq t'"
    using j(2) by (simp add: journalled_def)
qed

section \<open>Clients converge\<close>

lemma ChangesSince_commit:
  assumes "ChangesSince b k w = (Inr ch, w')"
  shows "ch = torn_changes b k (w_db w) (w_db w) (w_db w) \<and> w_db w' = w_db w"
proof -
  obtain s w1 u w2 where 1: "ChangeSeq b w = (Inr s, w1)" "query (updated_since b k) w1 = (Inr u, w2)"
    and rest: "(if k = 0 then ret \<lparr>ch_updated = u, ch_deleted_uids = [], ch_seq = s\<rparr>
       else andThen (query (deleted_since b k)) (\<lambda>uids.
         ret \<lparr>ch_updated = u, ch_deleted_uids = uids, ch_seq = s\<rparr>)) w2 = (Inr ch, w')"
    using assms unfolding ChangesSince_def by (elim andThen_InrE)
  have "s = seq_of (w_db w) b" "w_db w1 = w_db w"
    using stmt_Inr_db [OF 1(1) [unfolded ChangeSeq_def]] by (auto simp: seq_of_def split: option.splits)
  with query_Inr_db [OF 1(2)] rest show ?thesis
    by (cases "k = 0") (auto simp: torn_changes_def prog_simps andThen_Inr dest!: query_Inr_db)
qed

lemma torn_delta:
  assumes "journal_ok d1" "0 \<le> k" "k = 0 \<Longrightarrow> S = {}"
  shows "apply_changes (torn_changes b k d d1 d2) S =
    apply_delta c_uid {r \<in> book_rows b d1. k < c_change_seq r} (ct_uid ` {t \<in> book_tombs b d2. k < ct_change_seq t}) S"
proof -
  have pos: "0 < c_change_seq r" if "r \<in> book_rows b d1" for r
    using feed.row_seq [OF assms(1) that] by simp
  have "set (updated_since b k d1) = {r \<in> book_rows b d1. k < c_change_seq r}"
    using pos assms(2) by (auto simp: updated_since_def book_rows_def)
  moreover have "set (deleted_since b k d2) = ct_uid ` {t \<in> book_tombs b d2. k < ct_change_seq t}"
    by (auto simp: deleted_since_def book_tombs_def)
  ultimately show ?thesis
    using assms(3) by (cases "k = 0") (auto simp: apply_changes_def torn_changes_def apply_delta_def)
qed

lemma client_reach_follows:
  assumes "client_reach b d S k"
  shows "journal_ok d \<and> 0 \<le> k \<and> k \<le> seq_of d b \<and> (k = 0 \<longrightarrow> S = {})
    \<and> tracks c_uid c_change_seq ct_uid ct_change_seq (book_rows b d) (book_tombs b d) S k"
  using assms
proof (induction rule: client_reach.induct)
  case (start d)
  then show ?case using feed.follows_empty seq_of_nonneg by auto
next
  case (server d S k d')
  then show ?case
    using feed.follows_step [of d d' b S k] feed.ok_step [of d d'] feed.seq_mono [of d d' b] by auto
next
  case (poll d S k d1 d2)
  have ok: "journal_ok d1" "journal_ok d2" using feed.ok_steps poll by blast+
  have le: "seq_of d b \<le> seq_of d2 b"
    using feed.seq_steps [of d d2 b] poll by (meson rtranclp_trans)
  let ?S = "apply_changes (torn_changes b k d d1 d2) S"
  have S: "?S = apply_delta c_uid {r \<in> book_rows b d1. k < c_change_seq r}
      (ct_uid ` {t \<in> book_tombs b d2. k < ct_change_seq t}) S"
    using torn_delta [OF ok(1)] poll.IH by blast
  have "tracks c_uid c_change_seq ct_uid ct_change_seq (book_rows b d2) (book_tombs b d2) ?S (seq_of d b)"
    unfolding S using feed.poll_torn [of d d1 d2 b S k] poll by blast
  moreover have "?S = {}" if "seq_of d b = 0"
  proof -
    have "d1 = d" "d2 = d" using that poll by auto
    moreover have "book_rows b d = {}" using feed.row_seq [of d _ b] poll.IH that by force
    ultimately show ?thesis using feed.poll_quiet [of d b S k] poll.IH S by simp
  qed
  ultimately show ?case using ok(2) le seq_of_nonneg [of d b] poll.IH by blast
qed

lemma client_converges:
  assumes "client_reach b (w_db w) S k" and "ChangesSince b k w = (Inr ch, w')"
  shows "apply_changes ch S = book_rows b (w_db w) \<and> ch_seq ch = seq_of (w_db w) b"
proof -
  let ?d = "w_db w"
  have ch: "ch = torn_changes b k ?d ?d ?d" using ChangesSince_commit [OF assms(2)] by simp
  note inv = client_reach_follows [OF assms(1)]
  have "apply_changes ch S = book_rows b ?d"
    using torn_delta [of ?d k S b ?d ?d] feed.poll_quiet [of ?d b S k] inv unfolding ch by auto
  then show ?thesis by (simp add: ch torn_changes_def)
qed

text \<open>C9: collection synchronisation converges. Take a client at any point of a history in which
  the server performs any writes, each failing at any statement or not, also between the
  statements of the client's polls, with one exception: while the book is at sequence number 0, nothing having been
  written to it yet, no write falls between the statements of a poll; in that case, a defect stated separately, a client does keep a
  deleted contact. The next answer \<open>ChangesSince\<close> gives for the client's token, itself without a write in between,
  turns what the client holds into exactly the contacts of the address book, deletions
  included, and carries the book's sequence number.\<close>

theorem ChangesSince_client_converges:
  assumes "client_reach b (w_db w) S k" and "ChangesSince b k w = (Inr ch, w')"
  shows "apply_changes ch S = book_rows b (w_db w) \<and> ch_seq ch = seq_of (w_db w) b"
  using assms by (rule client_converges)

lemma small_db_ok: "journal_ok small_db" "seq_of small_db ''b'' = 0"
  by (simp_all add: journal_ok_def tables_ok_def small_db_def seq_of_def book_seq_def)

lemma after_save_db: "t_contacts (w_db after_save) = [ada\<lparr>c_change_seq := 1\<rparr>]" "w_faults after_save = []"
  "seq_of (w_db after_save) ''b'' = 1" "book_seq (w_db after_save) ''b'' = Some 1"
  by (simp_all add: after_save_def perform_def repo_eval seq_of_def book_seq_def)

lemma after_delete_db: "t_contacts (w_db after_delete) = []" "w_faults after_delete = []"
  "book_seq (w_db after_delete) ''b'' = Some 2"
  by (simp_all add: after_delete_def after_save_def perform_def repo_eval book_seq_def)

lemma after_save_step: "journal_step small_db (w_db after_save)"
  using journal_step.run [of "WSave ada no_children" "small_world small_db []"]
  by (simp add: after_save_def admissible_def keeps_key_def small_world_def small_db_def)

lemma after_delete_step: "journal_step (w_db after_save) (w_db after_delete)"
  using journal_step.run [of "WDelete ''i1''" after_save] by (simp add: after_delete_def admissible_def)

lemma ada_row: "ada\<lparr>c_change_seq := 1\<rparr> \<in> book_rows ''b'' (w_db after_save)"
  by (simp add: book_rows_def after_save_db in_book_def ada_def)

theorem ChangesSince_client_converges_witness:
  "\<exists>ch w'. ChangesSince ''b'' 1 after_delete = (Inr ch, w')
    \<and> apply_changes ch {ada\<lparr>c_change_seq := 1\<rparr>} = {} \<and> ch_seq ch = 2"
proof -
  let ?d1 = "w_db after_save"
  have "client_reach ''b'' ?d1 {} 0"
    using client_reach.server [OF client_reach.start [OF small_db_ok(1)] after_save_step] .
  from client_reach.poll [OF this, of ?d1 ?d1] after_delete_step
  have "client_reach ''b'' (w_db after_delete) (apply_changes (torn_changes ''b'' 0 ?d1 ?d1 ?d1) {}) 1"
    by (auto simp: after_save_db intro: client_reach.server)
  moreover have "apply_changes (torn_changes ''b'' 0 ?d1 ?d1 ?d1) {} = {ada\<lparr>c_change_seq := 1\<rparr>}"
    by (simp add: apply_changes_def apply_delta_def torn_changes_def updated_since_def after_save_db in_book_def ada_def)
  ultimately have reach: "client_reach ''b'' (w_db after_delete) {ada\<lparr>c_change_seq := 1\<rparr>} 1" by simp
  obtain ch w' where ch: "ChangesSince ''b'' 1 after_delete = (Inr ch, w')"
    by (simp add: ChangesSince_def ChangeSeq_def andThen_def prog_simps after_delete_db)
  have "book_rows ''b'' (w_db after_delete) = {}" "seq_of (w_db after_delete) ''b'' = 2"
    by (simp_all add: book_rows_def after_delete_db seq_of_def)
  with ChangesSince_client_converges [OF reach ch] ch show ?thesis by auto
qed

text \<open>C28: the guard at sequence number 0 is needed. If a contact is written between the statements
  of the very first poll of an empty book, the client is handed the contact with token 0; when
  the contact is deleted later, the answer for token 0 names no deletion and the client keeps
  a contact the server does not have.\<close>

theorem torn_first_poll_keeps_deleted:
  assumes "seq_of d b = 0" and "c \<in> book_rows b d1" and "c_uid c \<notin> c_uid ` book_rows b (w_db w)"
    and "ChangesSince b (ch_seq (torn_changes b 0 d d1 d1)) w = (Inr ch, w')"
  shows "c \<in> apply_changes ch (apply_changes (torn_changes b 0 d d1 d1) {}) \<and> c \<notin> book_rows b (w_db w)"
proof -
  have ch: "ch = torn_changes b 0 (w_db w) (w_db w) (w_db w)"
    using ChangesSince_commit [OF assms(4)] assms(1) by (simp add: torn_changes_def)
  have "c_uid c \<notin> c_uid ` set (ch_updated ch)"
    using assms(3) by (auto simp: ch torn_changes_def updated_since_def book_rows_def)
  moreover have "c \<in> apply_changes (torn_changes b 0 d d1 d1) {}"
    using assms(2) by (auto simp: apply_changes_def apply_delta_def torn_changes_def updated_since_def book_rows_def)
  moreover have "ch_deleted_uids ch = []" by (simp add: ch torn_changes_def)
  ultimately show ?thesis using assms(3) by (auto simp: apply_changes_def apply_delta_def)
qed

theorem torn_first_poll_keeps_deleted_witness:
  "\<exists>ch w'. ChangesSince ''b'' (ch_seq (torn_changes ''b'' 0 small_db (w_db after_save) (w_db after_save)))
      after_delete = (Inr ch, w')
    \<and> ada\<lparr>c_change_seq := 1\<rparr> \<in> apply_changes ch (apply_changes
        (torn_changes ''b'' 0 small_db (w_db after_save) (w_db after_save)) {})
    \<and> t_contacts (w_db after_delete) = []"
proof -
  obtain ch w' where ch: "ChangesSince ''b'' (ch_seq (torn_changes ''b'' 0 small_db (w_db after_save) (w_db after_save)))
      after_delete = (Inr ch, w')"
    by (simp add: ChangesSince_def ChangeSeq_def andThen_def prog_simps after_delete_db torn_changes_def small_db_ok)
  have "c_uid (ada\<lparr>c_change_seq := 1\<rparr>) \<notin> c_uid ` book_rows ''b'' (w_db after_delete)"
    by (simp add: book_rows_def after_delete_db)
  from torn_first_poll_keeps_deleted [OF small_db_ok(2) ada_row this ch] ch show ?thesis
    by (auto simp: after_delete_db)
qed

section \<open>Merges in the feed\<close>

lemma no_newer_tombs: "journal_ok d \<Longrightarrow> t \<in> set (t_tombstones d) \<Longrightarrow> \<not> seq_of d (ct_address_book_id t) < ct_change_seq t"
  by (auto simp: journal_ok_def)

text \<open>A merge is one change with two entries. When \<open>MergeInto\<close> commits, a client that was up
  to date before it is told exactly of the surviving contact, as saved, and of the removal of
  the other one, and nothing else.\<close>

theorem MergeInto_two_entries:
  assumes "journal_ok (w_db w)" and "admissible (WMergeInto winner cs i) (w_db w)"
    and "l \<in> set (t_contacts (w_db w))" "c_id l = i"
    and "MergeInto winner cs i w = (Inr (), w')"
    and "ChangesSince (c_address_book_id winner) (seq_of (w_db w) (c_address_book_id winner)) w' = (Inr ch, w'')"
  shows "set (ch_updated ch) = {winner\<lparr>c_change_seq := seq_of (w_db w) (c_address_book_id winner) + 1\<rparr>}
    \<and> ch_deleted_uids ch = [c_uid l]"
proof -
  let ?d = "w_db w" and ?b = "c_address_book_id winner"
  let ?s = "seq_of ?d ?b"
  have t: "tables_ok ?d" using assms(1) by (simp add: journal_ok_def)
  have adm: "i \<noteq> c_id winner" "c_address_book_id l = ?b"
    using assms(2-4) by (auto simp: admissible_def)
  have inj: "inj_on c_id (set (t_contacts ?d))" using t by (simp add: tables_ok_def distinct_map)
  have "select_one (\<lambda>x. c_id x = i) (t_contacts ?d) = Some l"
  proof (cases "select_one (\<lambda>x. c_id x = i) (t_contacts ?d)")
    case None
    with assms(3,4) show ?thesis by (auto simp: select_one_None)
  next
    case (Some x)
    have "x = l" by (rule inj_onD [OF inj]) (use select_one_Some [OF Some] assms(3,4) in auto)
    with Some show ?thesis by simp
  qed
  with MergeInto_commit [OF assms(5)] obtain cs' ts where
    ts: "tombstones_for (c_address_book_id l) (?s + 1) [c_uid l] ts"
    and d': "w_db w' = buried (\<lambda>x. c_id x = i) ts (saved winner cs' ?d)" by auto
  have pos: "0 < ?s" using feed.row_seq [OF assms(1), of l ?b] assms(3) adm by (auto simp: book_rows_def in_book_def)
  have le: "c_change_seq x \<le> ?s" if "x \<in> set (t_contacts ?d)" "in_book ?b x" for x
    using assms(1) that by (auto simp: journal_ok_def in_book_def)
  have upd: "set (updated_since ?b ?s (w_db w')) = {winner\<lparr>c_change_seq := ?s + 1\<rparr>}"
    using adm pos by (auto simp: updated_since_def d' rows_saved [OF t] in_book_def dest!: le [unfolded in_book_def])
  have old: "filter (\<lambda>t. ct_address_book_id t = ?b \<and> ?s < ct_change_seq t) (t_tombstones (saved winner cs' ?d)) = []"
    using no_newer_tombs [OF assms(1)] tombs_saved [of _ winner cs' ?d] by (fastforce simp: filter_empty_conv)
  have "filter (\<lambda>t. ct_address_book_id t = ?b \<and> ?s < ct_change_seq t) ts = ts"
    using ts adm(2) by (auto simp: tombstones_for_def)
  then have "deleted_since ?b ?s (w_db w') = [c_uid l]"
    using ts old by (simp add: deleted_since_def d' tombstones_for_def)
  then show ?thesis
    using ChangesSince_commit [OF assms(6)] upd pos by (simp add: torn_changes_def)
qed

lemma after_two_step: "journal_step (w_db after_save) (w_db after_two)"
  using journal_step.run [of "WSave bob no_children" after_save]
  by (simp add: admissible_def keeps_key_def after_save_db bob_def ada_def after_two_def)

lemma after_two_db:
  "t_contacts (w_db after_two) = [ada\<lparr>c_change_seq := 1\<rparr>, bob\<lparr>c_change_seq := 2\<rparr>]"
  "seq_of (w_db after_two) ''b'' = 2"
  "fst (MergeInto ada no_children ''i2'' after_two) = Inr ()"
  "w_faults (snd (MergeInto ada no_children ''i2'' after_two)) = []"
  "book_seq (w_db (snd (MergeInto ada no_children ''i2'' after_two))) ''b'' = Some 3"
  by (simp_all add: after_two_def bob_def after_save_def perform_def repo_eval book_seq_def seq_of_def)

theorem MergeInto_two_entries_witness:
  "\<exists>ch w''. ChangesSince ''b'' 2 (snd (MergeInto ada no_children ''i2'' after_two)) = (Inr ch, w'')
    \<and> set (ch_updated ch) = {ada\<lparr>c_change_seq := 3\<rparr>} \<and> ch_deleted_uids ch = [''bob'']"
proof -
  note ex = after_two_db
  have "journal_ok (w_db after_save)" using journal_step_ok after_save_step small_db_ok by blast
  then have ok: "journal_ok (w_db after_two)" using journal_step_ok after_two_step by blast
  obtain w' where m: "MergeInto ada no_children ''i2'' after_two = (Inr (), w')" using ex by (metis prod.collapse)
  have w': "w_faults w' = []" "book_seq (w_db w') ''b'' = Some 3" using ex m by simp_all
  obtain ch w'' where ch: "ChangesSince ''b'' 2 w' = (Inr ch, w'')"
    by (simp add: ChangesSince_def ChangeSeq_def andThen_def prog_simps w')
  have adm: "admissible (WMergeInto ada no_children ''i2'') (w_db after_two)"
    using ex by (simp add: admissible_def keeps_key_def bob_def ada_def)
  have b: "c_address_book_id ada = ''b''" by (simp add: ada_def)
  have l: "bob\<lparr>c_change_seq := 2\<rparr> \<in> set (t_contacts (w_db after_two))" "c_id (bob\<lparr>c_change_seq := 2\<rparr>) = ''i2''"
    using ex by (simp_all add: bob_def)
  show ?thesis
    using MergeInto_two_entries [OF ok adm l m] ch ex m by (simp add: b) (simp add: bob_def)
qed

end
