(* ===== verification/CardDAVBackend.thy ===== *)
theory CardDAVBackend
  imports VCardText VCardParse ChangeFeed
begin

text \<open>
  \<open>internal/carddav\<close>: the backend behind \<open>go-webdav\<close> (\<open>backend.go\<close>) and the collection
  synchronisation the server answers itself (\<open>sync_collection.go\<close>). A request reaches these
  functions authenticated, with the user's id and e-mail address. XML parsing and rendering
  are left to the standard library: a request body is what \<open>xml.Unmarshal\<close> made of it, a
  multi-status answer is the list of its entries. \<open>ConditionalMatch\<close> of \<open>go-webdav\<close> is the
  record \<open>webdav\<close>.
\<close>

section \<open>Definitions\<close>

subsection \<open>Paths\<close>

definition homeSetSegment :: string where "homeSetSegment = ''addressbooks''"
definition addressBookSegment :: string where "addressBookSegment = ''contacts''"

definition PrincipalPath :: "string \<Rightarrow> string \<Rightarrow> string" where
  "PrincipalPath prefix email = prefix @ ''/'' @ email @ ''/''"

definition HomeSetPath :: "string \<Rightarrow> string \<Rightarrow> string" where
  "HomeSetPath prefix email = PrincipalPath prefix email @ homeSetSegment @ ''/''"

definition AddressBookPath :: "string \<Rightarrow> string \<Rightarrow> string" where
  "AddressBookPath prefix email = HomeSetPath prefix email @ addressBookSegment @ ''/''"

definition AddressObjectPath :: "string \<Rightarrow> string \<Rightarrow> string \<Rightarrow> string" where
  "AddressObjectPath prefix email uid = AddressBookPath prefix email @ uid @ ''.vcf''"

definition isAddressBookPath :: "string \<Rightarrow> string \<Rightarrow> string \<Rightarrow> bool" where
  "isAddressBookPath path prefix email \<longleftrightarrow> email \<noteq> []
     \<and> (path = AddressBookPath prefix email \<or> path @ ''/'' = AddressBookPath prefix email)"

definition extractUIDFromPath :: "string \<Rightarrow> string" where
  "extractUIDFromPath path = trim_suffix (last (split_on CHR ''/'' (trim_suffix path ''/''))) ''.vcf''"

subsection \<open>Address objects\<close>

record backend =
  be_prefix :: string
  be_max_resource_size :: int

record webdav =
  wd_is_set :: "string \<Rightarrow> bool"
  wd_match_etag :: "string \<Rightarrow> string \<Rightarrow> string + bool"

record put_opts =
  po_if_none_match :: string
  po_if_match :: string

datatype dav_error =
    NoAuthenticatedUser | BookNotFound | InvalidPath | ContactNotFound | NotSupported
  | TooLarge nat int | PreconditionFailed string | BadRequest string | Repo db_error | Panicked

record address_object =
  ao_path :: string
  ao_mod_time :: int
  ao_content_length :: int
  ao_etag :: string
  ao_card :: vcard

record dav_book =
  db_path :: string
  db_name :: string
  db_description :: string
  db_max_resource_size :: int

definition CurrentUserPrincipal :: "backend \<Rightarrow> string \<Rightarrow> dav_error + string" where
  "CurrentUserPrincipal B email = (if email = [] then Inl NoAuthenticatedUser else Inr (PrincipalPath (be_prefix B) email))"

definition AddressBookHomeSetPath :: "backend \<Rightarrow> string \<Rightarrow> dav_error + string" where
  "AddressBookHomeSetPath B email = (if email = [] then Inl NoAuthenticatedUser else Inr (HomeSetPath (be_prefix B) email))"

text \<open>The lookup every method starts with; \<open>None\<close> when the user has no address book.\<close>

definition user_book :: "string \<Rightarrow> (dav_error, address_book option) prog" where
  "user_book uid = (if uid = [] then throw NoAuthenticatedUser else wrapErr Repo (GetByUserID uid))"

definition required_book :: "string \<Rightarrow> (dav_error, address_book) prog" where
  "required_book uid = andThen (user_book uid) (\<lambda>ab. case ab of None \<Rightarrow> throw BookNotFound | Some ab \<Rightarrow> ret ab)"

definition dav_book_of :: "backend \<Rightarrow> string \<Rightarrow> address_book \<Rightarrow> dav_book" where
  "dav_book_of B email ab = \<lparr>db_path = AddressBookPath (be_prefix B) email, db_name = ab_name ab,
     db_description = ab_description ab, db_max_resource_size = be_max_resource_size B\<rparr>"

definition ListAddressBooks :: "backend \<Rightarrow> string \<Rightarrow> string \<Rightarrow> (dav_error, dav_book list) prog" where
  "ListAddressBooks B uid email = andThen (user_book uid) (\<lambda>ab. case ab of
     None \<Rightarrow> ret [] | Some ab \<Rightarrow> ret [dav_book_of B email ab])"

definition GetAddressBook :: "backend \<Rightarrow> string \<Rightarrow> string \<Rightarrow> (dav_error, dav_book) prog" where
  "GetAddressBook B uid email = andThen (required_book uid) (\<lambda>ab. ret (dav_book_of B email ab))"

definition CreateAddressBook :: "dav_error + unit" where "CreateAddressBook = Inl NotSupported"
definition DeleteAddressBook :: "dav_error + unit" where "DeleteAddressBook = Inl NotSupported"

definition contactToAddressObject :: "lib \<Rightarrow> contact \<Rightarrow> string \<Rightarrow> address_object" where
  "contactToAddressObject L c path =
     (let vc = (case gv_decode L (c_vcard_data c) of
                  Inr vc \<Rightarrow> vc
                | Inl _ \<Rightarrow> gv_set_value L (gv_set_value L (gv_set_value L [] ''UID'' (c_uid c)) ''VERSION'' ''3.0'')
                    ''FN'' (c_first_name c @ '' '' @ c_last_name c))
      in \<lparr>ao_path = path, ao_mod_time = c_updated_at c, ao_content_length = int (length (c_vcard_data c)),
          ao_etag = c_etag c, ao_card = vc\<rparr>)"

definition find_object :: "string \<Rightarrow> string \<Rightarrow> (dav_error, contact) prog" where
  "find_object uid path =
     andThen (required_book uid) (\<lambda>ab.
       let cuid = extractUIDFromPath path
       in if cuid = [] then throw InvalidPath
          else andThen (wrapErr Repo (GetByUID (ab_id ab) cuid)) (\<lambda>c. case c of
            None \<Rightarrow> throw ContactNotFound | Some c \<Rightarrow> ret c))"

definition GetAddressObject :: "lib \<Rightarrow> string \<Rightarrow> string \<Rightarrow> (dav_error, address_object) prog" where
  "GetAddressObject L uid path = andThen (find_object uid path) (\<lambda>c. ret (contactToAddressObject L c path))"

definition ListAddressObjects :: "lib \<Rightarrow> backend \<Rightarrow> string \<Rightarrow> string \<Rightarrow> (dav_error, address_object list) prog" where
  "ListAddressObjects L B uid email = andThen (user_book uid) (\<lambda>ab. case ab of
     None \<Rightarrow> ret []
   | Some ab \<Rightarrow> andThen (wrapErr Repo (ListAll (ab_id ab))) (\<lambda>cs.
       ret (map (\<lambda>c. contactToAddressObject L c (AddressObjectPath (be_prefix B) email (c_uid c))) cs)))"

definition QueryAddressObjects :: "lib \<Rightarrow> backend \<Rightarrow> string \<Rightarrow> string \<Rightarrow> (dav_error, address_object list) prog" where
  "QueryAddressObjects = ListAddressObjects"

definition DeleteAddressObject :: "string \<Rightarrow> string \<Rightarrow> (dav_error, unit) prog" where
  "DeleteAddressObject uid path = andThen (find_object uid path) (\<lambda>c. wrapErr Repo (Delete (c_id c)))"

definition checkPreconditions :: "webdav \<Rightarrow> put_opts option \<Rightarrow> contact option \<Rightarrow> dav_error option" where
  "checkPreconditions W opts existing =
     (case opts of None \<Rightarrow> None
      | Some o' \<Rightarrow>
          if wd_is_set W (po_if_none_match o') then
            (case existing of Some c \<Rightarrow> Some (PreconditionFailed (c_uid c)) | None \<Rightarrow> None)
          else if \<not> wd_is_set W (po_if_match o') then None
          else case existing of
            None \<Rightarrow> Some (PreconditionFailed [])
          | Some c \<Rightarrow> (case wd_match_etag W (po_if_match o') (c_etag c) of
                Inl e \<Rightarrow> Some (BadRequest e)
              | Inr m \<Rightarrow> if m then None else Some (PreconditionFailed (c_uid c))))"

definition etag_of :: "lib \<Rightarrow> string \<Rightarrow> string" where
  "etag_of L data = hex (take 8 (l_sha256 L data))"

text \<open>The UID a PUT is stored under.\<close>

definition put_uid :: "lib \<Rightarrow> string \<Rightarrow> vcard \<Rightarrow> ('e, string) prog" where
  "put_uid L path vc =
     (let u = extractUIDFromPath path
      in if u \<noteq> [] then ret u
         else case gv_get L vc ''UID'' of
           Some f \<Rightarrow> if f_value f \<noteq> [] then ret (f_value f) else mint
         | None \<Rightarrow> mint)"

text \<open>The contact a PUT writes to: the stored one, or a new one.\<close>

definition put_contact :: "string \<Rightarrow> string \<Rightarrow> int \<Rightarrow> contact option \<Rightarrow> ('e, contact) prog" where
  "put_contact b cuid t existing = (case existing of
      Some c \<Rightarrow> ret c
    | None \<Rightarrow> andThen mint (\<lambda>i. ret (blank_contact\<lparr>c_id := i, c_address_book_id := b, c_uid := cuid, c_created_at := t\<rparr>)))"

text \<open>From the digest on: preconditions, then the save.\<close>

definition store_object ::
  "lib \<Rightarrow> webdav \<Rightarrow> string \<Rightarrow> vcard \<Rightarrow> put_opts option \<Rightarrow> string \<Rightarrow> string \<Rightarrow> string \<Rightarrow> (dav_error, address_object) prog" where
  "store_object L W path vc opts b cuid data =
     (let etag = etag_of L data;
          parsed = (case ParseVCard L data of Inl _ \<Rightarrow> empty_parsed | Inr p \<Rightarrow> p)
      in andThen now (\<lambda>t.
         andThen (wrapErr Repo (GetByUID b cuid)) (\<lambda>existing.
         case checkPreconditions W opts existing of
           Some e \<Rightarrow> throw e
         | None \<Rightarrow>
             andThen (put_contact b cuid t existing) (\<lambda>c0.
             andThen (ChildRecordsFor (c_id c0) parsed) (\<lambda>children.
             andThen (wrapErr Repo (Save (ApplyToContact (c0\<lparr>c_vcard_data := data, c_etag := etag, c_updated_at := t\<rparr>) parsed)
                children)) (\<lambda>_.
             ret \<lparr>ao_path = path, ao_mod_time = t, ao_content_length = 0, ao_etag = etag, ao_card = vc\<rparr>))))))"

definition PutAddressObject ::
  "lib \<Rightarrow> webdav \<Rightarrow> backend \<Rightarrow> string \<Rightarrow> string \<Rightarrow> vcard \<Rightarrow> put_opts option \<Rightarrow> (dav_error, address_object) prog" where
  "PutAddressObject L W B userID path vc opts =
     andThen (required_book userID) (\<lambda>ab.
     andThen (put_uid L path vc) (\<lambda>cuid.
     case InjectUID (l_unicode L) (CardToString L vc) cuid of
       None \<Rightarrow> throw Panicked
     | Some data \<Rightarrow>
         if be_max_resource_size B > 0 \<and> int (length data) > be_max_resource_size B
         then throw (TooLarge (length data) (be_max_resource_size B))
         else store_object L W path vc opts (ab_id ab) cuid data))"

subsection \<open>Collection synchronisation\<close>

definition nsDAV :: string where "nsDAV = ''DAV:''"
definition nsCardDAV :: string where "nsCardDAV = ''urn:ietf:params:xml:ns:carddav''"
definition nsCalServ :: string where "nsCalServ = ''http://calendarserver.org/ns/''"
definition syncPrefix :: string where "syncPrefix = ''urn:contactshq:sync:''"

definition syncToken :: "int \<Rightarrow> string" where
  "syncToken seq = syncPrefix @ format_int seq"

definition parseSyncToken :: "string \<Rightarrow> int option" where
  "parseSyncToken token0 =
     (let token = trim_space token0
      in if token = [] then Some 0
         else case cut_prefix token syncPrefix of
           None \<Rightarrow> None
         | Some rest \<Rightarrow> (case parse_int64 rest of None \<Rightarrow> None
              | Some seq \<Rightarrow> if seq < 0 then None else Some seq))"

text \<open>The property names of a request; nil when the request has no \<open>prop\<close> element.\<close>

type_synonym prop_names = "(string \<times> string) list option"

definition has :: "prop_names \<Rightarrow> string \<Rightarrow> string \<Rightarrow> bool" where
  "has p space name = (case p of None \<Rightarrow> False | Some ns \<Rightarrow> (space, name) \<in> set ns)"

record sync_request =
  sr_name :: "string \<times> string"
  sr_sync_token :: string
  sr_prop :: prop_names

datatype sync_entry =
    Changed string string "string option"
  | Removed string

datatype dav_response =
    Delegated
  | InvalidSyncToken
  | ServerError
  | SyncResponse "sync_entry list" string
  | PropResponse string "int option" "string option" bool bool "(string \<times> string) list"

definition collectionSeq :: "string \<Rightarrow> (db_error, int) prog" where
  "collectionSeq userID = andThen (GetOrCreateByUserID userID) (\<lambda>ab. ChangeSeq (ab_id ab))"

definition handlePropfindCTag ::
  "backend \<Rightarrow> string \<Rightarrow> string \<Rightarrow> string \<Rightarrow> prop_names option \<Rightarrow> (db_error, dav_response) prog" where
  "handlePropfindCTag B userID email depth req =
     (if depth \<noteq> [] \<and> depth \<noteq> ''0'' then ret Delegated
      else case req of None \<Rightarrow> ret Delegated
      | Some p \<Rightarrow>
          let wantsCTag = has p nsCalServ ''getctag''; wantsSyncToken = has p nsDAV ''sync-token''
          in if \<not> wantsCTag \<and> \<not> wantsSyncToken then ret Delegated
             else andThen (attempt (collectionSeq userID)) (\<lambda>r. case r of
               Inl _ \<Rightarrow> ret ServerError
             | Inr seq \<Rightarrow> ret (PropResponse (AddressBookPath (be_prefix B) email)
                 (if wantsCTag then Some seq else None)
                 (if wantsSyncToken then Some (syncToken seq) else None)
                 (has p nsDAV ''resourcetype'') (has p nsDAV ''supported-report-set'')
                 (filter (\<lambda>n. n \<notin> {(nsCalServ, ''getctag''), (nsDAV, ''sync-token''), (nsDAV, ''resourcetype''),
                    (nsDAV, ''supported-report-set'')}) (case p of None \<Rightarrow> [] | Some ns \<Rightarrow> ns)))))"

definition sync_entries :: "backend \<Rightarrow> string \<Rightarrow> bool \<Rightarrow> collection_changes \<Rightarrow> sync_entry list" where
  "sync_entries B email wantsData ch =
     map (\<lambda>c. Changed (AddressObjectPath (be_prefix B) email (c_uid c)) (c_etag c)
            (if wantsData then Some (c_vcard_data c) else None)) (ch_updated ch)
     @ map (\<lambda>u. Removed (AddressObjectPath (be_prefix B) email u)) (ch_deleted_uids ch)"

definition handleSyncCollection ::
  "backend \<Rightarrow> string \<Rightarrow> string \<Rightarrow> sync_request option \<Rightarrow> (db_error, dav_response) prog" where
  "handleSyncCollection B userID email req =
     (case req of None \<Rightarrow> ret Delegated
      | Some r \<Rightarrow>
          if sr_name r \<noteq> (nsDAV, ''sync-collection'') then ret Delegated
          else case parseSyncToken (sr_sync_token r) of
            None \<Rightarrow> ret InvalidSyncToken
          | Some sinceSeq \<Rightarrow>
              andThen (attempt (GetOrCreateByUserID userID)) (\<lambda>ab. case ab of
                Inl _ \<Rightarrow> ret ServerError
              | Inr ab \<Rightarrow>
                  andThen (attempt (ChangesSince (ab_id ab) sinceSeq)) (\<lambda>ch. case ch of
                    Inl _ \<Rightarrow> ret ServerError
                  | Inr ch \<Rightarrow>
                      if sinceSeq > ch_seq ch then ret InvalidSyncToken
                      else ret (SyncResponse (sync_entries B email (has (sr_prop r) nsCardDAV ''address-data'') ch)
                                  (syncToken (ch_seq ch))))))"

section \<open>Lemmas\<close>

subsection \<open>Paths and tokens\<close>

lemma last_split_on: "d \<notin> set s \<Longrightarrow> last (split_on d (a @ d # s)) = s"
  by (simp add: split_on_append split_on_none)

lemma trim_suffix_append [simp]: "trim_suffix (s @ p) p = s"
  by (simp add: trim_suffix_def has_suffix_def)

lemma trim_suffix_last: "s \<noteq> [] \<Longrightarrow> last s \<noteq> c \<Longrightarrow> trim_suffix s [c] = s"
  by (cases s rule: rev_cases) (auto simp: trim_suffix_def has_suffix_def)

text \<open>The path a contact is listed under names it back: from the URL of an address object the
  server reads the UID it was made from, as long as the UID has no slash.\<close>

theorem extractUID_of_object_path:
  assumes "CHR ''/'' \<notin> set uid"
  shows "extractUIDFromPath (AddressObjectPath prefix email uid) = uid"
proof -
  let ?a = "prefix @ ''/'' @ email @ ''/'' @ homeSetSegment @ ''/'' @ addressBookSegment"
  have path: "AddressObjectPath prefix email uid = ?a @ CHR ''/'' # (uid @ ''.vcf'')"
    by (simp add: AddressObjectPath_def AddressBookPath_def HomeSetPath_def PrincipalPath_def)
  have "trim_suffix (AddressObjectPath prefix email uid) [CHR ''/''] = AddressObjectPath prefix email uid"
    by (rule trim_suffix_last) (simp_all add: path)
  then show ?thesis
    using assms last_split_on [of "CHR ''/''" "uid @ ''.vcf''" ?a] by (simp add: extractUIDFromPath_def path)
qed

theorem extractUID_of_object_path_witness:
  "extractUIDFromPath (AddressObjectPath ''/dav'' ''a@b'' ''x.vcf'') = ''x.vcf''"
  by (rule extractUID_of_object_path) simp

lemma cut_prefix_append [simp]: "cut_prefix (p @ s) p = Some s"
  by (simp add: cut_prefix_def)

lemma parse_syncToken:
  assumes "0 \<le> seq" "seq < 2 ^ 63"
  shows "parseSyncToken (syncToken seq) = Some seq"
proof -
  have "is_digit (last (format_int seq))"
    using assms(1) format_nat_set [of "last (format_int seq)" "nat seq"] by (simp add: format_int_def)
  moreover have ne: "format_int seq \<noteq> []" by (simp add: format_int_def)
  ultimately have "trim_space (syncToken seq) = syncToken seq"
    by (intro trim_space_id) (auto simp: syncToken_def syncPrefix_def visible_def is_digit_def)
  then show ?thesis
    using assms parse_format_int [of seq] ne
    by (simp add: parseSyncToken_def Let_def syncToken_def)
qed

text \<open>Every token the server issues is read back as the sequence number it was made from.\<close>

theorem syncToken_roundtrip:
  assumes "0 \<le> seq" "seq < 2 ^ 63"
  shows "parseSyncToken (syncToken seq) = Some seq"
  using assms by (rule parse_syncToken)

theorem syncToken_roundtrip_witness: "parseSyncToken (syncToken 9223372036854775807) = Some 9223372036854775807"
  by (rule syncToken_roundtrip) simp_all

subsection \<open>Collection synchronisation\<close>

lemma after_save_book:
  "select_one (\<lambda>b. ab_user_id b = ''u'') (t_books (w_db after_save)) \<noteq> None"
  "map_option ab_id (select_one (\<lambda>b. ab_user_id b = ''u'') (t_books (w_db after_save))) = Some ''b''"
  by (simp_all add: after_save_def perform_def repo_eval)

lemma attempt_Inr: "attempt m w = (Inr r, w') \<longleftrightarrow> m w = (r, w')"
  by (auto simp: attempt_def split: prod.splits)

lemma GetOrCreate_existing:
  assumes "select_one (\<lambda>b. ab_user_id b = uid) (t_books (w_db w)) = Some ab"
    and "GetOrCreateByUserID uid w = (Inr ab', w')"
  shows "ab' = ab \<and> w_db w' = w_db w"
proof -
  obtain found w1 where 1: "GetByUserID uid w = (Inr found, w1)"
    and rest: "(case found of Some ab \<Rightarrow> ret ab
      | None \<Rightarrow> andThen now (\<lambda>t. andThen mint (\<lambda>i.
          let ab = \<lparr>ab_id = i, ab_user_id = uid, ab_name = ''Contacts'', ab_description = [],
                    ab_change_seq = 0, ab_created_at = t, ab_updated_at = t\<rparr>
          in andThen (attempt (CreateBook ab)) (\<lambda>r. case r of
               Inr _ \<Rightarrow> ret ab
             | Inl err \<Rightarrow> andThen (attempt (GetByUserID uid)) (\<lambda>again. case again of
                   Inr (Some ab2) \<Rightarrow> ret ab2 | _ \<Rightarrow> throw err))))) w1 = (Inr ab', w')"
    using assms(2) unfolding GetOrCreateByUserID_def by (rule andThen_InrE)
  have "found = Some ab" "w_db w1 = w_db w"
    using query_Inr_db [OF 1 [unfolded GetByUserID_def]] assms(1) by simp_all
  with rest show ?thesis by (simp add: prog_simps)
qed

text \<open>C22: what a client gets from a sync-collection report. For a client that has followed the
  address book up to its token, in the sense of the change feed, the report is either an
  internal error or a multi-status whose entries are those of a change set that turns the
  client's contacts into exactly the book's, with a token the server will read back as the
  book's sequence number.\<close>

theorem handleSyncCollection_converges:
  assumes "select_one (\<lambda>b. ab_user_id b = userID) (t_books (w_db w)) = Some ab"
    and "client_reach (ab_id ab) (w_db w) S k" and "seq_of (w_db w) (ab_id ab) < 2 ^ 63"
    and "sr_name r = (nsDAV, ''sync-collection'')"
    and "sr_sync_token r = syncToken k \<or> (k = 0 \<and> sr_sync_token r = [])"
    and "handleSyncCollection B userID email (Some r) w = (Inr resp, w')"
  shows "resp = ServerError \<or> (\<exists>ch. resp = SyncResponse (sync_entries B email (has (sr_prop r) nsCardDAV ''address-data'') ch)
        (syncToken (ch_seq ch))
      \<and> apply_changes ch S = book_rows (ab_id ab) (w_db w)
      \<and> parseSyncToken (syncToken (ch_seq ch)) = Some (seq_of (w_db w) (ab_id ab)))"
proof -
  note inv = client_reach_follows [OF assms(2)]
  have k: "parseSyncToken (sr_sync_token r) = Some k"
    using assms(3,5) inv parse_syncToken [of k] by (auto simp: parseSyncToken_def [of "[]"])
  have run: "andThen (attempt (GetOrCreateByUserID userID)) (\<lambda>ab. case ab of
                Inl _ \<Rightarrow> ret ServerError
              | Inr ab \<Rightarrow>
                  andThen (attempt (ChangesSince (ab_id ab) k)) (\<lambda>ch. case ch of
                    Inl _ \<Rightarrow> ret ServerError
                  | Inr ch \<Rightarrow>
                      if k > ch_seq ch then ret InvalidSyncToken
                      else ret (SyncResponse (sync_entries B email (has (sr_prop r) nsCardDAV ''address-data'') ch)
                                  (syncToken (ch_seq ch))))) w = (Inr resp :: db_error + dav_response, w')"
    using assms(4,6) k by (simp add: handleSyncCollection_def)
  then obtain ab' w1 where 1: "GetOrCreateByUserID userID w = (ab', w1)"
    and rest: "(case ab' of
                Inl _ \<Rightarrow> ret ServerError
              | Inr ab \<Rightarrow>
                  andThen (attempt (ChangesSince (ab_id ab) k)) (\<lambda>ch. case ch of
                    Inl _ \<Rightarrow> ret ServerError
                  | Inr ch \<Rightarrow>
                      if k > ch_seq ch then ret InvalidSyncToken
                      else ret (SyncResponse (sync_entries B email (has (sr_prop r) nsCardDAV ''address-data'') ch)
                                  (syncToken (ch_seq ch))))) w1 = (Inr resp :: db_error + dav_response, w')"
    by (auto simp: andThen_Inr [of "attempt (GetOrCreateByUserID userID)"] attempt_Inr)
  show ?thesis
  proof (cases ab')
    case (Inl e)
    with rest show ?thesis by (simp add: prog_simps)
  next
    case (Inr x)
    with 1 GetOrCreate_existing [OF assms(1), of x w1] have x: "x = ab" "w_db w1 = w_db w" by auto
    with rest Inr obtain ch w2 where 2: "ChangesSince (ab_id ab) k w1 = (ch, w2)"
      and rest2: "(case ch of Inl _ \<Rightarrow> ret ServerError
                  | Inr ch \<Rightarrow>
                      if k > ch_seq ch then ret InvalidSyncToken
                      else ret (SyncResponse (sync_entries B email (has (sr_prop r) nsCardDAV ''address-data'') ch)
                                  (syncToken (ch_seq ch)))) w2 = (Inr resp :: db_error + dav_response, w')"
      by (auto simp: andThen_Inr attempt_Inr)
    show ?thesis
    proof (cases ch)
      case (Inl e)
      with rest2 show ?thesis by (simp add: prog_simps)
    next
      case (Inr c)
      have conv: "apply_changes c S = book_rows (ab_id ab) (w_db w)" "ch_seq c = seq_of (w_db w) (ab_id ab)"
        using client_converges [of "ab_id ab" w1 S k c w2] 2 Inr x(2) assms(2) by simp_all
      then show ?thesis
        using rest2 Inr inv assms(3) parse_syncToken [of "ch_seq c"] seq_of_nonneg [of "w_db w" "ab_id ab"]
        by (auto simp: prog_simps)
    qed
  qed
qed

theorem handleSyncCollection_converges_witness:
  "\<exists>w' ch. handleSyncCollection \<lparr>be_prefix = ''/dav'', be_max_resource_size = 0\<rparr> ''u'' ''a@b''
      (Some \<lparr>sr_name = (nsDAV, ''sync-collection''), sr_sync_token = [], sr_prop = None\<rparr>) after_save
      = (Inr (SyncResponse (sync_entries \<lparr>be_prefix = ''/dav'', be_max_resource_size = 0\<rparr> ''a@b'' False ch)
          (syncToken (ch_seq ch))), w')
    \<and> apply_changes ch {} = {ada\<lparr>c_change_seq := 1\<rparr>} \<and> parseSyncToken (syncToken (ch_seq ch)) = Some 1"
proof -
  let ?B = "\<lparr>be_prefix = ''/dav'', be_max_resource_size = 0\<rparr>"
  let ?r = "\<lparr>sr_name = (nsDAV, ''sync-collection''), sr_sync_token = [], sr_prop = None\<rparr>"
  obtain ab where ab: "select_one (\<lambda>b. ab_user_id b = ''u'') (t_books (w_db after_save)) = Some ab" "ab_id ab = ''b''"
    using after_save_book by auto
  have reach: "client_reach (ab_id ab) (w_db after_save) {} 0"
    unfolding ab(2) using client_reach.server [OF client_reach.start [OF small_db_ok(1)] after_save_step] .
  have "select_one (\<lambda>b. ab_user_id b = ''u'') (t_books (w_db after_save)) = Some ab"
    "book_seq (w_db after_save) (ab_id ab) = Some 1" using ab after_save_db by simp_all
  then obtain resp w' where resp: "handleSyncCollection ?B ''u'' ''a@b'' (Some ?r) after_save = (Inr resp, w')" "resp \<noteq> ServerError"
    by (simp add: handleSyncCollection_def parseSyncToken_def GetOrCreateByUserID_def GetByUserID_def andThen_def
        attempt_def prog_simps after_save_db ChangesSince_def ChangeSeq_def)
  have rows: "book_rows (ab_id ab) (w_db after_save) = {ada\<lparr>c_change_seq := 1\<rparr>}"
    using ada_row by (auto simp: book_rows_def after_save_db ab(2))
  obtain ch where "resp = SyncResponse (sync_entries ?B ''a@b'' (has (sr_prop ?r) nsCardDAV ''address-data'') ch) (syncToken (ch_seq ch))"
    "apply_changes ch {} = book_rows (ab_id ab) (w_db after_save)"
    "parseSyncToken (syncToken (ch_seq ch)) = Some (seq_of (w_db after_save) (ab_id ab))"
    using handleSyncCollection_converges [OF ab(1) reach _ _ _ resp(1)] resp(2) by (auto simp: after_save_db ab(2))
  with resp rows show ?thesis by (auto simp: has_def after_save_db ab(2))
qed

text \<open>A token the server did not issue, or one of a sequence number the address book has not
  reached (a restored backup, another server), never gets an empty answer: the client is told
  to start over, or gets an error.\<close>

theorem handleSyncCollection_refuses_foreign_tokens:
  assumes "select_one (\<lambda>b. ab_user_id b = userID) (t_books (w_db w)) = Some ab"
    and "sr_name r = (nsDAV, ''sync-collection'')"
    and "case parseSyncToken (sr_sync_token r) of None \<Rightarrow> True | Some k \<Rightarrow> seq_of (w_db w) (ab_id ab) < k"
    and "handleSyncCollection B userID email (Some r) w = (Inr resp, w')"
  shows "resp = InvalidSyncToken \<or> resp = ServerError"
proof (cases "parseSyncToken (sr_sync_token r)")
  case None
  with assms(2,4) show ?thesis by (simp add: handleSyncCollection_def prog_simps)
next
  case (Some k)
  obtain ab' w1 where 1: "GetOrCreateByUserID userID w = (ab', w1)"
    by fastforce
  show ?thesis
  proof (cases ab')
    case (Inl e)
    with assms(2,4) Some 1 show ?thesis by (simp add: handleSyncCollection_def andThen_def attempt_def prog_simps)
  next
    case (Inr x)
    with 1 GetOrCreate_existing [OF assms(1), of x w1] have x: "x = ab" "w_db w1 = w_db w" by auto
    obtain ch w2 where 2: "ChangesSince (ab_id ab) k w1 = (ch, w2)" by fastforce
    have "ch_seq c = seq_of (w_db w) (ab_id ab)" if "ch = Inr c" for c
      using ChangesSince_commit [of "ab_id ab" k w1 c w2] 2 x that by (simp add: torn_changes_def)
    then show ?thesis
      using assms(2-4) Some 1 2 Inr x
      by (cases ch) (auto simp: handleSyncCollection_def andThen_def attempt_def prog_simps)
  qed
qed

theorem handleSyncCollection_refuses_foreign_tokens_witness:
  "\<exists>w' resp. handleSyncCollection \<lparr>be_prefix = ''/dav'', be_max_resource_size = 0\<rparr> ''u'' ''a@b''
      (Some \<lparr>sr_name = (nsDAV, ''sync-collection''), sr_sync_token = syncToken 7, sr_prop = None\<rparr>) after_save
      = (Inr resp, w') \<and> (resp = InvalidSyncToken \<or> resp = ServerError)"
proof -
  let ?B = "\<lparr>be_prefix = ''/dav'', be_max_resource_size = 0\<rparr>"
  let ?r = "\<lparr>sr_name = (nsDAV, ''sync-collection''), sr_sync_token = syncToken 7, sr_prop = None\<rparr>"
  obtain ab where ab: "select_one (\<lambda>b. ab_user_id b = ''u'') (t_books (w_db after_save)) = Some ab" "ab_id ab = ''b''"
    using after_save_book by auto
  have tok: "parseSyncToken (sr_sync_token ?r) = Some 7" using parse_syncToken [of 7] by simp
  obtain resp w' where resp: "handleSyncCollection ?B ''u'' ''a@b'' (Some ?r) after_save = (Inr resp, w')"
    using ab tok by (simp add: handleSyncCollection_def GetOrCreateByUserID_def GetByUserID_def andThen_def
        attempt_def prog_simps after_save_db ChangesSince_def ChangeSeq_def)
  with handleSyncCollection_refuses_foreign_tokens [OF ab(1) _ _ resp] tok show ?thesis
    by (auto simp: after_save_db ab(2))
qed

subsection \<open>Storing an object\<close>

lemma readonly_GetByUID [effects]: "readonly (GetByUID b u)" "readonly (GetByUserID u)" "readonly (GetByID i)"
  by (simp_all add: GetByUID_def GetByUserID_def GetByID_def effects)

lemma readonly_to_rows [effects]: "readonly (to_rows mk fs)"
  by (induction fs) (auto intro!: effects)

lemma readonly_ChildRecordsFor [effects]: "readonly (ChildRecordsFor cid p)"
  by (auto simp: ChildRecordsFor_def ToEmails_def ToPhones_def ToAddresses_def ToURLs_def ToIMs_def
      ToCategories_def ToDates_def intro!: effects)

lemma readonly_required_book [effects]: "readonly (required_book u)"
  by (auto simp: required_book_def user_book_def intro!: effects split: option.split)

lemma readonly_put_uid [effects]: "readonly (put_uid L path vc)"
  by (auto simp: put_uid_def Let_def intro!: effects split: option.split)

lemma atomic_Save [effects]: "atomic (Save c cs)"
  by (rule atomicI) (rule Save_rollback)

lemma readonly_put_contact [effects]: "readonly (put_contact b u t ex)"
  by (auto simp: put_contact_def intro!: effects split: option.split)

lemma atomic_PutAddressObject: "atomic (PutAddressObject L W B u path vc opts)"
  unfolding PutAddressObject_def store_object_def Let_def
  by (auto intro!: effects intro: readonly_atomic split: option.split)

lemma required_book_commit:
  assumes "required_book u w = (Inr ab, w')"
  shows "u \<noteq> [] \<and> select_one (\<lambda>b. ab_user_id b = u) (t_books (w_db w)) = Some ab \<and> w_db w' = w_db w"
proof -
  obtain r w1 where 1: "user_book u w = (Inr r, w1)"
    and 2: "(case r of None \<Rightarrow> throw BookNotFound | Some ab \<Rightarrow> ret ab) w1 = (Inr ab, w')"
    using assms unfolding required_book_def by (rule andThen_InrE)
  have "u \<noteq> []" "GetByUserID u w = (Inr r, w1)"
    using 1 by (auto simp: user_book_def wrapErr_Inr prog_simps split: if_splits)
  then have "r = select_one (\<lambda>b. ab_user_id b = u) (t_books (w_db w))" "w_db w1 = w_db w"
    using query_Inr_db unfolding GetByUserID_def by fastforce+
  with 2 \<open>u \<noteq> []\<close> show ?thesis by (auto simp: prog_simps split: option.splits)
qed

lemma GetByUID_commit:
  "GetByUID b u w = (Inr r, w') \<Longrightarrow>
   r = select_one (\<lambda>c. in_book b c \<and> c_uid c = u) (t_contacts (w_db w)) \<and> w_db w' = w_db w"
  unfolding GetByUID_def by (drule query_Inr_db) simp

lemma ApplyToContact_simps [simp]:
  "c_id (ApplyToContact c p) = c_id c" "c_address_book_id (ApplyToContact c p) = c_address_book_id c"
  "c_uid (ApplyToContact c p) = c_uid c" "c_etag (ApplyToContact c p) = c_etag c"
  "c_vcard_data (ApplyToContact c p) = c_vcard_data c"
  by (simp_all add: ApplyToContact_def)

text \<open>What a successful PUT did: it passed the preconditions against the stored contact, and
  saved a contact under the path's UID with the entity tag it returns.\<close>

definition put_done ::
  "lib \<Rightarrow> webdav \<Rightarrow> put_opts option \<Rightarrow> string \<Rightarrow> string \<Rightarrow> db \<Rightarrow> address_object \<Rightarrow> world \<Rightarrow> bool" where
  "put_done L W opts b u d obj w' \<longleftrightarrow>
     (let existing = select_one (\<lambda>c. in_book b c \<and> c_uid c = u) (t_contacts d)
      in checkPreconditions W opts existing = None
       \<and> (\<exists>c cs w1. w_db w1 = d \<and> Save c cs w1 = (Inr (), w') \<and> card_key c = (b, u)
           \<and> c_etag c = ao_etag obj \<and> etag_of L (c_vcard_data c) = ao_etag obj
           \<and> (case existing of Some c0 \<Rightarrow> c_id c = c_id c0 | None \<Rightarrow> True)))"

lemma put_contact_commit:
  assumes "put_contact b u t existing w = (Inr c0 :: 'e + contact, w')"
    and "existing = select_one (\<lambda>c. in_book b c \<and> c_uid c = u) rows"
  shows "card_key c0 = (b, u) \<and> (case existing of Some c1 \<Rightarrow> c_id c0 = c_id c1 | None \<Rightarrow> True) \<and> w_db w' = w_db w"
proof (cases existing)
  case None
  with assms(1) show ?thesis by (auto simp: put_contact_def andThen_Inr prog_simps)
next
  case (Some c)
  then have "in_book b c \<and> c_uid c = u"
    using select_one_Some [of "\<lambda>c. in_book b c \<and> c_uid c = u" rows c] assms(2) by simp
  moreover have "c0 = c" "w' = w" using assms(1) Some by (simp_all add: put_contact_def prog_simps)
  ultimately show ?thesis using Some by (simp add: in_book_def)
qed

lemma store_object_commit:
  assumes "store_object L W path vc opts b u data w = (Inr obj, w')"
  shows "put_done L W opts b u (w_db w) obj w'"
proof -
  let ?p = "case ParseVCard L data of Inl _ \<Rightarrow> empty_parsed | Inr p \<Rightarrow> p"
  obtain existing w1 where ex: "GetByUID b u w = (Inr existing, w1)"
    and rest: "(case checkPreconditions W opts existing of
           Some e \<Rightarrow> throw e
         | None \<Rightarrow>
             andThen (put_contact b u (w_now w) existing) (\<lambda>c0.
             andThen (ChildRecordsFor (c_id c0) ?p) (\<lambda>children.
             andThen (wrapErr Repo (Save (ApplyToContact (c0\<lparr>c_vcard_data := data, c_etag := etag_of L data,
                c_updated_at := w_now w\<rparr>) ?p) children)) (\<lambda>_.
             ret \<lparr>ao_path = path, ao_mod_time = w_now w, ao_content_length = 0, ao_etag = etag_of L data,
               ao_card = vc\<rparr>)))) w1 = (Inr obj, w')"
    using assms unfolding store_object_def Let_def
    by (auto simp: andThen_Inr [of now] andThen_Inr [of "wrapErr Repo (GetByUID b u)"] wrapErr_Inr prog_simps)
  note e = GetByUID_commit [OF ex]
  have pre: "checkPreconditions W opts existing = None"
    using rest by (cases "checkPreconditions W opts existing") (auto simp: prog_simps)
  with rest obtain c0 w2 cs w3 w4 where 1: "put_contact b u (w_now w) existing w1 = (Inr c0 :: dav_error + contact, w2)"
    "ChildRecordsFor (c_id c0) ?p w2 = (Inr cs :: dav_error + child_records, w3)"
    and sv: "Save (ApplyToContact (c0\<lparr>c_vcard_data := data, c_etag := etag_of L data, c_updated_at := w_now w\<rparr>) ?p) cs w3
      = (Inr (), w4)" and obj: "w4 = w'" "ao_etag obj = etag_of L data"
    by (auto simp: wrapErr_Inr prog_simps andThen_Inr)
  note key = put_contact_commit [OF 1(1) conjunct1 [OF e]]
  have "w_db w3 = w_db w" using key readonlyD [OF readonly_ChildRecordsFor 1(2)] e by simp
  then show ?thesis
    unfolding put_done_def Let_def conjunct1 [OF e, symmetric] using pre sv obj key
    by (intro conjI exI [of _ "ApplyToContact (c0\<lparr>c_vcard_data := data, c_etag := etag_of L data,
          c_updated_at := w_now w\<rparr>) ?p"] exI [of _ cs] exI [of _ w3]) (simp_all split: option.splits)
qed

lemma PutAddressObject_commit:
  assumes "PutAddressObject L W B userID path vc opts w = (Inr obj, w')"
  shows "\<exists>ab u. select_one (\<lambda>b. ab_user_id b = userID) (t_books (w_db w)) = Some ab
    \<and> (extractUIDFromPath path \<noteq> [] \<longrightarrow> u = extractUIDFromPath path)
    \<and> put_done L W opts (ab_id ab) u (w_db w) obj w'"
proof -
  obtain ab w1 u w2 where 1: "required_book userID w = (Inr ab, w1)" "put_uid L path vc w1 = (Inr u :: dav_error + string, w2)"
    and rest: "(case InjectUID (l_unicode L) (CardToString L vc) u of
       None \<Rightarrow> throw Panicked
     | Some data \<Rightarrow>
         if be_max_resource_size B > 0 \<and> int (length data) > be_max_resource_size B
         then throw (TooLarge (length data) (be_max_resource_size B))
         else store_object L W path vc opts (ab_id ab) u data) w2 = (Inr obj, w')"
    using assms unfolding PutAddressObject_def by (elim andThen_InrE)
  have db: "w_db w1 = w_db w" "w_db w2 = w_db w"
    using readonlyD [OF readonly_required_book 1(1)] readonlyD [OF readonly_put_uid 1(2)] by simp_all
  have path: "extractUIDFromPath path \<noteq> [] \<longrightarrow> u = extractUIDFromPath path"
    using 1(2) by (auto simp: put_uid_def prog_simps)
  from rest obtain data where "store_object L W path vc opts (ab_id ab) u data w2 = (Inr obj, w')"
    by (auto simp: prog_simps split: option.splits if_splits)
  from store_object_commit [OF this] required_book_commit [OF 1(1)] path db show ?thesis by auto
qed

text \<open>C20: a conditional PUT never overwrites what its client has not seen. Take a PUT that carries its conditions and whose path names a UID, and that
  succeeds. With If-None-Match set, the address book had no contact of that UID, and If-Match is not looked at; with If-Match set and If-None-Match not, it had
  one whose entity tag matches the client's. With either, with both or with none the book now holds a contact
  of that UID with the returned entity tag, the digest of its stored card.\<close>

theorem PutAddressObject_no_lost_update:
  assumes "PutAddressObject L W B userID path vc (Some opts) w = (Inr obj, w')"
    and "extractUIDFromPath path \<noteq> []"
  shows "\<exists>ab. select_one (\<lambda>b. ab_user_id b = userID) (t_books (w_db w)) = Some ab
    \<and> (let key = (ab_id ab, extractUIDFromPath path)
       in (wd_is_set W (po_if_none_match opts) \<longrightarrow> key \<notin> card_key ` set (t_contacts (w_db w)))
        \<and> (\<not> wd_is_set W (po_if_none_match opts) \<and> wd_is_set W (po_if_match opts) \<longrightarrow>
            (\<exists>c \<in> set (t_contacts (w_db w)). card_key c = key \<and> wd_match_etag W (po_if_match opts) (c_etag c) = Inr True))
        \<and> (\<exists>c \<in> set (t_contacts (w_db w')). card_key c = key \<and> c_etag c = ao_etag obj
            \<and> etag_of L (c_vcard_data c) = ao_etag obj))"
proof -
  let ?u = "extractUIDFromPath path"
  obtain ab where ab: "select_one (\<lambda>b. ab_user_id b = userID) (t_books (w_db w)) = Some ab"
    and d: "put_done L W (Some opts) (ab_id ab) ?u (w_db w) obj w'"
    using PutAddressObject_commit [OF assms(1)] assms(2) by auto
  let ?e = "select_one (\<lambda>c. in_book (ab_id ab) c \<and> c_uid c = ?u) (t_contacts (w_db w))"
  have none: "?e = None \<longleftrightarrow> (ab_id ab, ?u) \<notin> card_key ` set (t_contacts (w_db w))"
    by (auto simp: select_one_None in_book_def image_iff)
  have some: "?e = Some c \<Longrightarrow> c \<in> set (t_contacts (w_db w)) \<and> card_key c = (ab_id ab, ?u)" for c
    using select_one_Some [of "\<lambda>c. in_book (ab_id ab) c \<and> c_uid c = ?u" "t_contacts (w_db w)" c] by (simp add: in_book_def)
  have pre: "checkPreconditions W (Some opts) ?e = None" using d by (simp add: put_done_def Let_def)
  from d obtain c cs w1 where c: "w_db w1 = w_db w" "Save c cs w1 = (Inr (), w')" "card_key c = (ab_id ab, ?u)"
    "c_etag c = ao_etag obj" "etag_of L (c_vcard_data c) = ao_etag obj"
    by (auto simp: put_done_def Let_def)
  from Save_commit [OF c(2)] obtain cs' where sv: "w_db w' = saved c cs' (w_db w1)" by blast
  have "c\<lparr>c_change_seq := seq_of (w_db w) (c_address_book_id c) + 1\<rparr> \<in> set (t_contacts (w_db w'))"
    unfolding sv c(1) by (auto simp: saved_def Let_def set_upsert_row image_iff)
  then have stored: "\<exists>x \<in> set (t_contacts (w_db w')). card_key x = (ab_id ab, ?u) \<and> c_etag x = ao_etag obj
      \<and> etag_of L (c_vcard_data x) = ao_etag obj"
    using c by (intro bexI) auto
  have "wd_is_set W (po_if_none_match opts) \<longrightarrow> (ab_id ab, ?u) \<notin> card_key ` set (t_contacts (w_db w))"
    using pre none by (auto simp: checkPreconditions_def split: option.splits)
  moreover have "\<not> wd_is_set W (po_if_none_match opts) \<and> wd_is_set W (po_if_match opts) \<longrightarrow>
      (\<exists>c \<in> set (t_contacts (w_db w)). card_key c = (ab_id ab, ?u) \<and> wd_match_etag W (po_if_match opts) (c_etag c) = Inr True)"
    using pre some by (cases ?e) (auto simp: checkPreconditions_def split: sum.splits if_splits)
  ultimately show ?thesis using ab stored by (auto simp: Let_def)
qed

text \<open>Entity tags as the library compares them when the header is one quoted tag or a star.\<close>

definition plain_webdav :: webdav where
  "plain_webdav = \<lparr>wd_is_set = (\<lambda>h. h \<noteq> []), wd_match_etag = (\<lambda>h e. Inr (h = ''*'' \<or> h = e))\<rparr>"

definition mini_card :: vcard where
  "mini_card = [(''VERSION'', [plain_field ''4.0''])]"

lemma mini_card_text:
  "InjectUID unicode_ascii (CardToString (table_lib []) mini_card) ''ada'' =
     Some (''BEGIN:VCARD'' @ CRLF @ ''VERSION:4.0'' @ CRLF @ ''UID:ada'' @ CRLF @ ''END:VCARD'' @ CRLF)"
  by code_simp

lemmas put_eval = PutAddressObject_def required_book_def user_book_def GetByUserID_def wrapErr_def put_uid_def
  store_object_def GetByUID_def checkPreconditions_def plain_webdav_def put_contact_def ParseVCard_def
  ChildRecordsFor_def ToEmails_def ToPhones_def ToAddresses_def ToURLs_def ToIMs_def ToCategories_def
  ToDates_def empty_parsed_def ApplyToContact_def in_book_def

lemma ada_path: "extractUIDFromPath ''/dav/x/addressbooks/contacts/ada.vcf'' = ''ada''"
  by (simp add: extractUIDFromPath_def trim_suffix_def has_suffix_def)

theorem PutAddressObject_no_lost_update_witness:
  "\<exists>obj w'. PutAddressObject (table_lib []) plain_webdav \<lparr>be_prefix = ''/dav'', be_max_resource_size = 0\<rparr> ''u''
      ''/dav/x/addressbooks/contacts/ada.vcf'' mini_card (Some \<lparr>po_if_none_match = [], po_if_match = ''*''\<rparr>) after_save
      = (Inr obj, w')
    \<and> (\<exists>c \<in> set (t_contacts (w_db w')). card_key c = (''b'', ''ada'') \<and> c_etag c = ao_etag obj)"
proof -
  let ?B = "\<lparr>be_prefix = ''/dav'', be_max_resource_size = 0\<rparr>" and ?o = "\<lparr>po_if_none_match = [], po_if_match = ''*''\<rparr>"
  let ?path = "''/dav/x/addressbooks/contacts/ada.vcf''"
  let ?put = "PutAddressObject (table_lib []) plain_webdav ?B ''u'' ?path mini_card (Some ?o) after_save"
  have "\<not> isl (fst ?put)"
    by (simp add: put_eval ada_path mini_card_text after_save_def perform_def repo_eval)
  then obtain obj w' where run: "?put = (Inr obj, w')"
    by (cases ?put; cases "fst ?put") auto
  have "extractUIDFromPath ?path \<noteq> []" by (simp add: ada_path)
  from PutAddressObject_no_lost_update [OF run this] obtain ab where
    "select_one (\<lambda>b. ab_user_id b = ''u'') (t_books (w_db after_save)) = Some ab"
    "\<exists>c \<in> set (t_contacts (w_db w')). card_key c = (ab_id ab, ''ada'') \<and> c_etag c = ao_etag obj"
    by (auto simp: ada_path Let_def)
  with after_save_book(2) run show ?thesis by auto
qed

end
