(* ===== verification/ProgLogic.thy ===== *)
theory ProgLogic
  imports Database
begin

text \<open>
  Loops over a slice and a program logic for database programs. \<open>triple P m Q E\<close> says that a run
  of \<open>m\<close> from a world with \<open>P\<close> that succeeds ends with \<open>Q\<close>, and one that reports an error ends
  with \<open>E\<close>. Programs always return, so a triple is about total correctness; with \<open>E\<close> false it says
  that no error is reported. \<open>preserves I m\<close> is the case where \<open>I\<close> is a property of the tables and
  the outcome does not matter: an invariant that survives every failure.
\<close>

section \<open>Definitions\<close>

text \<open>\<open>for _, x := range xs { ... }\<close> with the variables the body assigns as the state; an error
  the body returns leaves the loop.\<close>

fun forEach :: "('a \<Rightarrow> 's \<Rightarrow> ('e, 's) prog) \<Rightarrow> 'a list \<Rightarrow> 's \<Rightarrow> ('e, 's) prog" where
  "forEach f [] s = ret s"
| "forEach f (x # xs) s = andThen (f x s) (forEach f xs)"

text \<open>\<open>if err := ctx.Err(); err != nil { return err }\<close>: a cancelled context is one more fault.\<close>

definition ctx_err :: "(db_error, unit) prog" where
  "ctx_err = query (\<lambda>_. ())"

definition triple ::
  "(world \<Rightarrow> bool) \<Rightarrow> ('e, 'a) prog \<Rightarrow> ('a \<Rightarrow> world \<Rightarrow> bool) \<Rightarrow> ('e \<Rightarrow> world \<Rightarrow> bool) \<Rightarrow> bool" where
  "triple P m Q E \<longleftrightarrow>
     (\<forall>w. P w \<longrightarrow> (case m w of (Inl e, w') \<Rightarrow> E e w' | (Inr x, w') \<Rightarrow> Q x w'))"

definition preserves :: "(db \<Rightarrow> bool) \<Rightarrow> ('e, 'a) prog \<Rightarrow> bool" where
  "preserves I m \<longleftrightarrow> (\<forall>w. I (w_db w) \<longrightarrow> I (w_db (snd (m w))))"

text \<open>A world in which every statement is answered.\<close>

definition quiet :: "world \<Rightarrow> bool" where
  "quiet w \<longleftrightarrow> w_faults w = []"

section \<open>Triples\<close>

named_theorems hoare \<open>rules of the program logic\<close>

lemma tripleI:
  "(\<And>w x w'. P w \<Longrightarrow> m w = (Inr x, w') \<Longrightarrow> Q x w') \<Longrightarrow> (\<And>w e w'. P w \<Longrightarrow> m w = (Inl e, w') \<Longrightarrow> E e w') \<Longrightarrow>
   triple P m Q E"
  unfolding triple_def by (auto split: prod.splits sum.splits)

lemma triple_Inr: "triple P m Q E \<Longrightarrow> m w = (Inr x, w') \<Longrightarrow> P w \<Longrightarrow> Q x w'"
  unfolding triple_def by (auto dest: spec [of _ w])

lemma triple_Inl: "triple P m Q E \<Longrightarrow> m w = (Inl e, w') \<Longrightarrow> P w \<Longrightarrow> E e w'"
  unfolding triple_def by (auto dest: spec [of _ w])

text \<open>With no error possible the program returns.\<close>

lemma triple_total:
  assumes "triple P m Q (\<lambda>_ _. False)" "P w"
  obtains x w' where "m w = (Inr x, w')" "Q x w'"
proof (cases "m w")
  case (Pair r w')
  then show ?thesis
    using assms that by (cases r) (auto dest: triple_Inr triple_Inl)
qed

lemma triple_conseq:
  "triple P' m Q' E' \<Longrightarrow> (\<And>w. P w \<Longrightarrow> P' w) \<Longrightarrow> (\<And>x w. Q' x w \<Longrightarrow> Q x w) \<Longrightarrow> (\<And>e w. E' e w \<Longrightarrow> E e w) \<Longrightarrow>
   triple P m Q E"
  by (rule tripleI) (blast dest: triple_Inr triple_Inl)+

lemma triple_weaken: "triple P' m Q E \<Longrightarrow> (\<And>w. P w \<Longrightarrow> P' w) \<Longrightarrow> triple P m Q E"
  by (rule triple_conseq)

lemma triple_post: "triple P m Q' E \<Longrightarrow> (\<And>x w. Q' x w \<Longrightarrow> Q x w) \<Longrightarrow> triple P m Q E"
  by (rule triple_conseq)

lemma triple_ret: "(\<And>w. P w \<Longrightarrow> Q x w) \<Longrightarrow> triple P (ret x) Q E"
  by (rule tripleI) (auto simp: prog_simps)

lemma triple_throw: "(\<And>w. P w \<Longrightarrow> E e w) \<Longrightarrow> triple P (throw e) Q E"
  by (rule tripleI) (auto simp: prog_simps)

lemma triple_now: "(\<And>w. P w \<Longrightarrow> Q (w_now w) w) \<Longrightarrow> triple P now Q E"
  by (rule tripleI) (auto simp: prog_simps)

lemma triple_mint:
  "(\<And>w. P w \<Longrightarrow> Q (w_uuid w (w_minted w)) (w\<lparr>w_minted := Suc (w_minted w)\<rparr>)) \<Longrightarrow> triple P mint Q E"
  by (rule tripleI) (auto simp: prog_simps)

lemma triple_andThen:
  assumes "triple P m R E" "\<And>x. triple (R x) (f x) Q E"
  shows "triple P (andThen m f) Q E"
proof (rule tripleI)
  fix w y w'' assume "P w" "andThen m f w = (Inr y, w'')"
  then show "Q y w''" using assms by (blast elim: andThen_InrE dest: triple_Inr)
next
  fix w e w'' assume P: "P w" and run: "andThen m f w = (Inl e, w'')"
  show "E e w''"
  proof (cases "m w")
    case (Pair r w')
    then show ?thesis
    proof (cases r)
      case (Inr x)
      then have "R x w'" "f x w' = (Inl e, w'')"
        using triple_Inr [OF assms(1)] run Pair P by (simp_all add: andThen_def)
      then show ?thesis using triple_Inl [OF assms(2)] by blast
    qed (use run P triple_Inl [OF assms(1)] in \<open>simp add: andThen_def\<close>)
  qed
qed

lemma triple_attempt: "triple P m (\<lambda>x. Q (Inr x)) (\<lambda>e. Q (Inl e)) \<Longrightarrow> triple P (attempt m) Q E"
  unfolding triple_def attempt_def by (fastforce split: prod.splits sum.splits)

lemma triple_wrapErr: "triple P m Q (\<lambda>e. E (h e)) \<Longrightarrow> triple P (wrapErr h m) Q E"
  by (rule tripleI) (auto simp: wrapErr_def split: prod.splits sum.splits dest: triple_Inr triple_Inl)

text \<open>A statement that is answered.\<close>

lemma triple_query:
  assumes "\<And>w. P w \<Longrightarrow> quiet w \<and> Q (f (w_db w)) w"
  shows "triple P (query f) Q E"
  using assms by (intro tripleI) (auto simp: quiet_def prog_simps)

lemma triple_stmt:
  assumes "\<And>w. P w \<Longrightarrow> quiet w \<and> (case q (w_db w) of Inl e \<Rightarrow> E e w | Inr (x, d) \<Rightarrow> Q x (w\<lparr>w_db := d\<rparr>))"
  shows "triple P (stmt q) Q E"
proof (rule tripleI)
  fix w x w' assume "P w" and run: "stmt q w = (Inr x, w')"
  with assms show "Q x w'" by (fastforce simp: quiet_def prog_simps split: sum.splits prod.splits)
next
  fix w e w' assume "P w" and run: "stmt q w = (Inl e, w')"
  with assms show "E e w'" by (fastforce simp: quiet_def prog_simps split: sum.splits prod.splits)
qed

lemma triple_ctx_err: "(\<And>w. P w \<Longrightarrow> quiet w \<and> Q () w) \<Longrightarrow> triple P ctx_err Q E"
  unfolding ctx_err_def by (rule triple_query)

text \<open>A loop keeps an invariant that may speak of the elements already visited.\<close>

lemma triple_forEach_from:
  assumes "\<And>ys x zs s. xs = ys @ x # zs \<Longrightarrow> triple (I (pre @ ys) s) (f x s) (\<lambda>s'. I (pre @ ys @ [x]) s') E"
  shows "triple (I pre s) (forEach f xs s) (\<lambda>s'. I (pre @ xs) s') E"
  using assms
proof (induction xs arbitrary: pre s)
  case Nil
  then show ?case by (simp add: triple_ret)
next
  case (Cons x xs)
  have "triple (I pre s) (f x s) (\<lambda>s'. I (pre @ [x]) s') E"
    using Cons.prems [of "[]" x xs s] by simp
  moreover have "triple (I (pre @ [x]) s') (forEach f xs s') (\<lambda>s''. I ((pre @ [x]) @ xs) s'') E" for s'
  proof (rule Cons.IH)
    fix ys y zs s assume "xs = ys @ y # zs"
    then show "triple (I ((pre @ [x]) @ ys) s) (f y s) (\<lambda>s'. I ((pre @ [x]) @ ys @ [y]) s') E"
      using Cons.prems [of "x # ys" y zs s] by simp
  qed
  ultimately show ?case by (auto intro!: triple_andThen)
qed

lemma triple_forEach:
  assumes "\<And>ys x zs s. xs = ys @ x # zs \<Longrightarrow> triple (I ys s) (f x s) (\<lambda>s'. I (ys @ [x]) s') E"
  shows "triple (I [] s) (forEach f xs s) (\<lambda>s'. I xs s') E"
  using triple_forEach_from [of xs I "[]" f E s] assms by simp

lemma triple_forEach_inv:
  assumes "\<And>x s. x \<in> set xs \<Longrightarrow> triple (I s) (f x s) I E"
  shows "triple (I s) (forEach f xs s) I E"
  using triple_forEach [of xs "\<lambda>_. I" f E s] assms by simp

text \<open>A read of a world where a property of the tables holds.\<close>

lemma triple_readonly:
  assumes "readonly m"
  shows "triple (\<lambda>w. I (w_db w)) m (\<lambda>_ w. I (w_db w)) (\<lambda>_ w. I (w_db w))"
  using readonlyD [OF assms] by (intro tripleI) auto

section \<open>Invariants\<close>

lemma preserves_triple:
  "preserves I m \<longleftrightarrow> triple (\<lambda>w. I (w_db w)) m (\<lambda>_ w. I (w_db w)) (\<lambda>_ w. I (w_db w))"
  unfolding preserves_def triple_def
  by (rule iff_allI) (auto split: prod.splits sum.splits)

lemma preservesD: "preserves I m \<Longrightarrow> m w = (r, w') \<Longrightarrow> I (w_db w) \<Longrightarrow> I (w_db w')"
  by (metis preserves_def snd_conv)

lemma preserves_readonly: "readonly m \<Longrightarrow> preserves I m"
  by (simp add: preserves_def readonly_def)

lemma preserves_andThen [hoare]:
  "preserves I m \<Longrightarrow> (\<And>x. preserves I (f x)) \<Longrightarrow> preserves I (andThen m f)"
  unfolding preserves_triple by (rule triple_andThen)

lemma preserves_attempt [hoare]: "preserves I m \<Longrightarrow> preserves I (attempt m)"
  unfolding preserves_triple by (rule triple_attempt)

lemma preserves_wrapErr [hoare]: "preserves I m \<Longrightarrow> preserves I (wrapErr h m)"
  unfolding preserves_triple by (rule triple_wrapErr)

lemma preserves_forEach_in:
  assumes "\<And>x s. x \<in> set xs \<Longrightarrow> preserves I (f x s)"
  shows "preserves I (forEach f xs s)"
  using assms unfolding preserves_triple
  by (intro triple_forEach_inv [where I = "\<lambda>_ w. I (w_db w)"]) blast

lemma preserves_forEach [hoare]: "(\<And>x s. preserves I (f x s)) \<Longrightarrow> preserves I (forEach f xs s)"
  by (rule preserves_forEach_in)

lemma preserves_basic [hoare]:
  "preserves I (ret x)" "preserves I (throw e)" "preserves I now" "preserves I mint" "preserves I (query f)"
  "preserves I ctx_err"
  by (simp_all add: preserves_readonly effects ctx_err_def)

lemma preserves_cases [hoare]:
  "preserves I m \<Longrightarrow> (\<And>x. preserves I (f x)) \<Longrightarrow> preserves I (case y of None \<Rightarrow> m | Some x \<Rightarrow> f x)"
  "(\<And>e. preserves I (g e)) \<Longrightarrow> (\<And>x. preserves I (f x)) \<Longrightarrow> preserves I (case r of Inl e \<Rightarrow> g e | Inr x \<Rightarrow> f x)"
  "(\<And>x y. preserves I (h x y)) \<Longrightarrow> preserves I (case p of (x, y) \<Rightarrow> h x y)"
  "preserves I m \<Longrightarrow> preserves I m' \<Longrightarrow> preserves I (if b then m else m')"
  by (simp_all split: option.split sum.split prod.split)

lemma preserves_stmt:
  assumes "\<And>d x d'. I d \<Longrightarrow> q d = Inr (x, d') \<Longrightarrow> I d'"
  shows "preserves I (stmt q)"
  using assms by (fastforce simp: preserves_def stmt_def Let_def split: sum.splits)

lemma preserves_RunInTx [hoare]:
  assumes "preserves I m"
  shows "preserves I (RunInTx m)"
  unfolding preserves_def
proof (intro allI impI)
  fix w :: world assume "I (w_db w)"
  then show "I (w_db (snd (RunInTx m w)))"
    by (cases m w rule: RunInTx_cases) (auto dest: preservesD [OF assms])
qed

lemma readonly_ctx_err [effects]: "readonly ctx_err"
  by (simp add: ctx_err_def effects)

lemma readonly_forEach [effects]:
  "(\<And>x s. readonly (f x s)) \<Longrightarrow> readonly (forEach f xs s)"
  by (induction xs arbitrary: s) (auto simp: effects)

section \<open>Frames\<close>

text \<open>What no database program does: turn back the supply of identifiers, set the clock, or
  reach the remote server.\<close>

definition steady :: "('e, 'a) prog \<Rightarrow> bool" where
  "steady m \<longleftrightarrow> (\<forall>w. w_uuid (snd (m w)) = w_uuid w \<and> w_minted w \<le> w_minted (snd (m w))
     \<and> w_now (snd (m w)) = w_now w \<and> w_remote (snd (m w)) = w_remote w \<and> w_files (snd (m w)) = w_files w)"

named_theorems frame \<open>programs that are steady\<close>

lemma steadyD:
  assumes "steady m" "m w = (r, w')"
  shows "w_uuid w' = w_uuid w" "w_minted w \<le> w_minted w'" "w_now w' = w_now w" "w_remote w' = w_remote w" "w_files w' = w_files w"
  using assms unfolding steady_def by (metis snd_conv)+

lemma steady_basic [frame]:
  "steady (ret x)" "steady (throw e)" "steady now" "steady mint" "steady (stmt q)" "steady (query f)" "steady ctx_err"
  by (auto simp: steady_def prog_simps stmt_def query_def ctx_err_def Let_def split: sum.splits)

lemma steady_andThen [frame]:
  assumes "steady m" "\<And>x. steady (f x)"
  shows "steady (andThen m f)"
  unfolding steady_def
proof
  fix w
  obtain r w1 where 1: "m w = (r, w1)" by fastforce
  show "w_uuid (snd (andThen m f w)) = w_uuid w \<and> w_minted w \<le> w_minted (snd (andThen m f w))
     \<and> w_now (snd (andThen m f w)) = w_now w \<and> w_remote (snd (andThen m f w)) = w_remote w \<and> w_files (snd (andThen m f w)) = w_files w"
  proof (cases r)
    case (Inr x)
    obtain r' w2 where 2: "f x w1 = (r', w2)" by fastforce
    show ?thesis using 1 2 Inr steadyD [OF assms(1) 1] steadyD [OF assms(2) 2] by (simp add: andThen_def)
  qed (use 1 steadyD [OF assms(1) 1] in \<open>simp add: andThen_def\<close>)
qed

lemma steady_attempt [frame]: "steady m \<Longrightarrow> steady (attempt m)"
  by (auto simp: steady_def attempt_def split: prod.splits) (metis snd_conv)+

lemma steady_wrapErr [frame]: "steady m \<Longrightarrow> steady (wrapErr h m)"
  by (auto simp: steady_def wrapErr_def split: prod.splits sum.splits) (metis snd_conv)+

lemma steady_cases [frame]:
  "steady m \<Longrightarrow> (\<And>x. steady (f x)) \<Longrightarrow> steady (case y of None \<Rightarrow> m | Some x \<Rightarrow> f x)"
  "(\<And>e. steady (g e)) \<Longrightarrow> (\<And>x. steady (f x)) \<Longrightarrow> steady (case r of Inl e \<Rightarrow> g e | Inr x \<Rightarrow> f x)"
  "(\<And>x y. steady (h x y)) \<Longrightarrow> steady (case p of (x, y) \<Rightarrow> h x y)"
  "steady m \<Longrightarrow> steady m' \<Longrightarrow> steady (if b then m else m')"
  by (simp_all split: option.split sum.split prod.split)

lemma steady_forEach [frame]: "(\<And>x s. steady (f x s)) \<Longrightarrow> steady (forEach f xs s)"
  by (induction xs arbitrary: s) (auto intro!: frame)

lemma steady_RunInTx [frame]:
  assumes "steady m"
  shows "steady (RunInTx m)"
proof -
  let ?m = "andThen (query (\<lambda>_. ())) (\<lambda>_. andThen m (\<lambda>x. query (\<lambda>_. x)))"
  have *: "steady ?m" using assms by (intro frame)
  show ?thesis
    unfolding steady_def
  proof
    fix w
    obtain r w1 where 1: "?m w = (r, w1)" by fastforce
    show "w_uuid (snd (RunInTx m w)) = w_uuid w \<and> w_minted w \<le> w_minted (snd (RunInTx m w))
      \<and> w_now (snd (RunInTx m w)) = w_now w \<and> w_remote (snd (RunInTx m w)) = w_remote w \<and> w_files (snd (RunInTx m w)) = w_files w"
      using steadyD [OF * 1] 1 by (cases r) (simp_all add: RunInTx_def)
  qed
qed

section \<open>Assertions that last\<close>

text \<open>Assertions that reading and minting do not disturb.\<close>

definition stable :: "(world \<Rightarrow> bool) \<Rightarrow> bool" where
  "stable P \<longleftrightarrow> (\<forall>w w'. P w \<longrightarrow> w_db w' = w_db w \<longrightarrow> w_uuid w' = w_uuid w \<longrightarrow> w_minted w \<le> w_minted w' \<longrightarrow>
     w_files w' = w_files w \<longrightarrow> P w')"

named_theorems stability \<open>stable assertions\<close>

lemma stable_db [stability]: "stable (\<lambda>w. Q (w_db w))"
  by (simp add: stable_def)

lemma stable_conj [stability]: "stable P \<Longrightarrow> stable Q \<Longrightarrow> stable (\<lambda>w. P w \<and> Q w)"
  unfolding stable_def by blast

lemma triple_stable:
  assumes "stable P" "readonly m" "steady m"
  shows "triple P m (\<lambda>_. P) (\<lambda>_. P)"
proof (rule tripleI)
  fix w x w' assume P: "P w" and run: "m w = (Inr x, w')"
  show "P w'" using assms(1) P readonlyD [OF assms(2) run] steadyD [OF assms(3) run] unfolding stable_def by blast
next
  fix w e w' assume P: "P w" and run: "m w = (Inl e, w')"
  show "P w'" using assms(1) P readonlyD [OF assms(2) run] steadyD [OF assms(3) run] unfolding stable_def by blast
qed

text \<open>A step that only reads, before the rest.\<close>

lemma triple_first:
  assumes "stable P" "readonly m" "steady m" "\<And>w e. P w \<Longrightarrow> E e w" "\<And>x. triple P (f x) Q E"
  shows "triple P (andThen m f) Q E"
  using triple_conseq [OF triple_stable [OF assms(1-3)], of P "\<lambda>_. P" E] assms(4,5)
  by (intro triple_andThen [where R = "\<lambda>_. P"]) blast+

lemma triple_read:
  assumes "stable P" "\<And>w e. P w \<Longrightarrow> E e w"
  shows "triple P (query f) (\<lambda>x w. P w \<and> x = f (w_db w)) E"
proof (rule tripleI)
  fix w x w' assume "P w" "query f w = (Inr x, w')"
  then show "P w' \<and> x = f (w_db w')"
    using query_Inr_db [of f w x w'] triple_Inr [OF triple_stable [OF assms(1), of "query f"]] by (simp add: effects frame)
next
  fix w e w' assume "P w" "query f w = (Inl e, w')"
  then show "E e w'" using triple_Inl [OF triple_stable [OF assms(1), of "query f"]] assms(2) by (simp add: effects frame)
qed

lemma triple_wrapped: "triple P m Q (\<lambda>_. A) \<Longrightarrow> triple P (wrapErr h m) Q (\<lambda>_. A)"
  by (rule triple_wrapErr)

lemma triple_wrapped_ret: "triple P m (\<lambda>_. A) (\<lambda>_. A) \<Longrightarrow> triple P (andThen (wrapErr h m) (\<lambda>_. ret y)) (\<lambda>_. A) (\<lambda>_. A)"
  by (rule triple_andThen [OF triple_wrapErr]) (auto intro: triple_ret)

lemma triple_conj: "triple P m Q E \<Longrightarrow> triple P' m Q' E' \<Longrightarrow> triple (\<lambda>w. P w \<and> P' w) m (\<lambda>x w. Q x w \<and> Q' x w) (\<lambda>e w. E e w \<and> E' e w)"
  by (rule tripleI) (auto dest: triple_Inr triple_Inl)

lemma triple_keeping:
  assumes "triple P m Q (\<lambda>_. A)" "preserves I m"
  shows "triple (\<lambda>w. P w \<and> I (w_db w)) m (\<lambda>x w. Q x w \<and> I (w_db w)) (\<lambda>_. A)"
  by (rule triple_conseq [OF triple_conj [OF assms(1) assms(2) [unfolded preserves_triple]]]) auto

lemma triple_loop:
  assumes "\<And>x s. triple P (f x s) (\<lambda>_. P) (\<lambda>_. A)"
  shows "triple P (forEach f xs s) (\<lambda>_. P) (\<lambda>_. A)"
  using assms by (induction xs arbitrary: s) (auto intro: triple_ret triple_andThen)

lemma triple_ignore: "triple P m (\<lambda>_. Q) (\<lambda>_. Q) \<Longrightarrow> triple P (andThen (attempt m) (\<lambda>_. ret y)) (\<lambda>_. Q) E"
  by (rule triple_andThen [OF triple_attempt]) (auto intro: triple_ret)

lemma triple_snd:
  assumes "triple P m (\<lambda>_. P) (\<lambda>_. P)" "P w"
  shows "P (snd (m w))"
proof (cases "m w")
  case (Pair r w')
  then show ?thesis using triple_Inr [OF assms(1) _ assms(2)] triple_Inl [OF assms(1) _ assms(2)] by (cases r) auto
qed

end
