(* ===== verification/EditDistance.thy ===== *)
theory EditDistance
  imports Prelude
begin

text \<open>
  \<open>levenshtein\<close> and \<open>minInt\<close> of \<open>internal/service/duplicate_detector.go\<close>: one row of the
  table, overwritten from left to right. It is shown to return the least number of single-rune
  insertions, deletions and substitutions that turn one name into the other.
\<close>

section \<open>Definitions\<close>

definition minInt :: "nat \<Rightarrow> nat \<Rightarrow> nat" where
  "minInt a b = (if a < b then a else b)"

text \<open>The inner loop: \<open>prev\<close> is the old entry left of the column, \<open>left\<close> the new one, and the
  old entries from the column on are still in \<open>dp\<close>.\<close>

fun lev_row :: "nat \<Rightarrow> nat list \<Rightarrow> nat \<Rightarrow> nat \<Rightarrow> nat list \<Rightarrow> nat list" where
  "lev_row c (b # bs) prev left (tmp # dp) =
     (let v = (if c = b then prev else 1 + minInt prev (minInt tmp left))
      in v # lev_row c bs tmp v dp)"
| "lev_row c _ prev left _ = []"

text \<open>The outer loop; \<open>i\<close> is the number of the row, and its entry in column 0.\<close>

fun lev_rows :: "nat list \<Rightarrow> nat list \<Rightarrow> nat \<Rightarrow> nat list \<Rightarrow> nat list" where
  "lev_rows rb [] i dp = dp"
| "lev_rows rb (c # cs) i dp = lev_rows rb cs (i + 1) (i # lev_row c rb (hd dp) i (tl dp))"

definition levenshtein :: "string \<Rightarrow> string \<Rightarrow> nat" where
  "levenshtein a b =
     (let ra = runes a; rb = runes b; la = length ra; lb = length rb
      in if la = 0 then lb else if lb = 0 then la
         else last (lev_rows rb ra 1 [0..<lb + 1]))"

text \<open>One edit, and the edit distance as the least number of them.\<close>

definition edit1 :: "'a list \<Rightarrow> 'a list \<Rightarrow> bool" where
  "edit1 s t \<longleftrightarrow> (\<exists>p q x y. (s = p @ x # q \<and> t = p @ y # q)
     \<or> (s = p @ q \<and> t = p @ y # q) \<or> (s = p @ x # q \<and> t = p @ q))"

definition edit_distance :: "'a list \<Rightarrow> 'a list \<Rightarrow> nat" where
  "edit_distance s t = (LEAST n. (edit1 ^^ n) s t)"

text \<open>The recursion behind the table.\<close>

fun lev :: "'a list \<Rightarrow> 'a list \<Rightarrow> nat" where
  "lev [] ys = length ys"
| "lev xs [] = length xs"
| "lev (x # xs) (y # ys) =
     (if x = y then lev xs ys else 1 + min (lev xs ys) (min (lev xs (y # ys)) (lev (x # xs) ys)))"

section \<open>The recursion computes the edit distance\<close>

lemma lev_Nil2 [simp]: "lev xs [] = length xs"
  by (cases xs) auto

lemma lev_refl [simp]: "lev xs xs = 0"
  by (induction xs) auto

text \<open>An element more on one side changes the distance by at most one.\<close>

lemma lev_singleton:
  "lev [x] ys \<le> Suc (length ys)" "length ys \<le> Suc (lev [x] ys)"
  "lev ys [x] \<le> Suc (length ys)" "length ys \<le> Suc (lev ys [x])"
  by (induction ys) auto

lemma lev_step:
  "lev (x # xs) ys \<le> Suc (lev xs ys) \<and> lev xs ys \<le> Suc (lev (x # xs) ys)
   \<and> lev xs (y # ys) \<le> Suc (lev xs ys) \<and> lev xs ys \<le> Suc (lev xs (y # ys))"
proof (induction "length xs + length ys" arbitrary: x y xs ys rule: less_induct)
  case less
  show ?case
  proof (cases xs)
    case Nil
    then show ?thesis using lev_singleton(1) [of x ys] lev_singleton(2) [of ys x] by simp
  next
    case xs: (Cons a xs')
    show ?thesis
    proof (cases ys)
      case Nil
      then show ?thesis using lev_singleton(3,4) [of xs y] by simp
    next
      case ys: (Cons b ys')
      note ih = less [of xs' ys'] less [of xs ys'] less [of xs' ys]
      have 1: "lev (x # xs) ys' \<le> Suc (lev xs ys')" "lev xs ys' \<le> Suc (lev (x # xs) ys')"
        "lev xs' (y # ys) \<le> Suc (lev xs' ys)" "lev xs' ys \<le> Suc (lev xs' (y # ys))"
        using ih(2) [of x y] ih(3) [of x y] xs ys by simp_all
      have 2: "lev xs ys' \<le> Suc (lev xs' ys')" "lev xs' ys' \<le> Suc (lev xs ys')"
        "lev xs' ys \<le> Suc (lev xs' ys')" "lev xs' ys' \<le> Suc (lev xs' ys)"
        using ih(1) [of a b] xs ys by simp_all
      have 3: "lev xs ys = (if a = b then lev xs' ys' else 1 + min (lev xs' ys') (min (lev xs' ys) (lev xs ys')))"
        by (simp add: xs ys)
      have 4: "lev (x # xs) ys = (if x = b then lev xs ys' else 1 + min (lev xs ys') (min (lev xs ys) (lev (x # xs) ys')))"
        "lev xs (y # ys) = (if a = y then lev xs' ys else 1 + min (lev xs' ys) (min (lev xs' (y # ys)) (lev xs ys)))"
        by (simp_all add: xs ys)
      show ?thesis unfolding 4 using 1 2 3 by (simp add: min_def split: if_splits)
    qed
  qed
qed

lemma lev_bounds:
  "lev (x # xs) ys \<le> Suc (lev xs ys)" "lev xs (y # ys) \<le> Suc (lev xs ys)"
  "lev (x # xs) (y # ys) \<le> Suc (lev xs ys)"
  using lev_step [of x xs ys y] by (auto simp: min_def)

lemma lev_neq_cases:
  assumes "x \<noteq> y"
  obtains "lev (x # xs) (y # ys) = Suc (lev xs ys)" | "lev (x # xs) (y # ys) = Suc (lev xs (y # ys))"
  | "lev (x # xs) (y # ys) = Suc (lev (x # xs) ys)"
  using assms by (cases "lev xs ys \<le> lev xs (y # ys)"; cases "lev xs ys \<le> lev (x # xs) ys";
    cases "lev xs (y # ys) \<le> lev (x # xs) ys"; fastforce simp: min_def)

text \<open>Changing, inserting or deleting the head of one side costs at most one.\<close>

lemma lev_change_head: "lev (x # q) u \<le> Suc (lev (y # q) u)"
proof (induction u)
  case (Cons z u)
  show ?case
  proof (cases "y = z")
    case False
    have "lev (x # q) (z # u) \<le> Suc (lev q u)" "lev (x # q) (z # u) \<le> Suc (lev q (z # u))"
      "lev (x # q) (z # u) \<le> Suc (lev (x # q) u)"
      by (rule lev_bounds)+
    then show ?thesis
      using lev_neq_cases [OF False, of q u] Cons by (metis (no_types, lifting) Suc_le_mono le_SucI le_trans)
  qed (use lev_bounds(3) [of x q z u] in simp)
qed simp

lemma lev_under_head:
  assumes "\<And>u. lev s u \<le> Suc (lev t u)"
  shows "lev (c # s) u \<le> Suc (lev (c # t) u)"
proof (induction u)
  case Nil
  show ?case using assms [of "[]"] by simp
next
  case (Cons z u)
  show ?case
  proof (cases "c = z")
    case True
    then show ?thesis using assms by simp
  next
    case False
    have "lev (c # s) (z # u) \<le> Suc (lev s u)" "lev (c # s) (z # u) \<le> Suc (lev s (z # u))"
      "lev (c # s) (z # u) \<le> Suc (lev (c # s) u)"
      by (rule lev_bounds)+
    then show ?thesis
      using lev_neq_cases [OF False, of t u] Cons assms [of u] assms [of "z # u"]
      by (metis (no_types, lifting) Suc_le_mono le_trans)
  qed
qed

lemma lev_edit1:
  assumes "edit1 s t"
  shows "lev s u \<le> Suc (lev t u)"
proof -
  have "\<forall>u. lev (p @ s') u \<le> Suc (lev (p @ t') u)" if "\<And>u. lev s' u \<le> Suc (lev t' u)" for p s' t' :: "'a list"
    using that by (induction p) (auto intro!: lev_under_head simp del: lev.simps(3))
  moreover obtain p q x y where "(s = p @ x # q \<and> t = p @ y # q) \<or> (s = p @ q \<and> t = p @ y # q) \<or> (s = p @ x # q \<and> t = p @ q)"
    using assms unfolding edit1_def by blast
  moreover have "lev (x # q) u \<le> Suc (lev (y # q) u)" "lev q u \<le> Suc (lev (y # q) u)" "lev (x # q) u \<le> Suc (lev q u)" for u
    using lev_change_head [of x q u y] lev_step [of y q u] lev_step [of x q u] by simp_all
  ultimately show ?thesis by metis
qed

lemma lev_edits: "(edit1 ^^ n) s t \<Longrightarrow> lev s t \<le> n"
proof (induction n arbitrary: s)
  case (Suc n)
  then obtain s' where "edit1 s s'" "(edit1 ^^ n) s' t" by (metis relpowp_Suc_D2)
  then show ?case using Suc.IH [of s'] lev_edit1 [of s s' t] by simp
qed simp

lemma edit1_Cons: "edit1 s t \<Longrightarrow> edit1 (x # s) (x # t)"
  unfolding edit1_def by (metis append_Cons)

lemma edits_Cons: "(edit1 ^^ n) s t \<Longrightarrow> (edit1 ^^ n) (x # s) (x # t)"
  by (induction n arbitrary: t) (auto intro: edit1_Cons)

lemma edit1_head: "edit1 (x # s) (y # s)" "edit1 s (y # s)" "edit1 (x # s) s"
  unfolding edit1_def by (rule exI [of _ "[]"], force)+

lemma edits_lev: "(edit1 ^^ lev s t) s t"
proof (induction s t rule: lev.induct)
  case (1 ys)
  show ?case by (induction ys) (auto intro: edit1_head)
next
  case (2 v va)
  have "(edit1 ^^ length xs) xs []" for xs :: "'a list"
    by (induction xs) (auto intro: edit1_head relpowp_Suc_I2 simp del: relpowp.simps(2))
  from this [of "v # va"] show ?case by simp
next
  case (3 x xs y ys)
  show ?case
  proof (cases "x = y")
    case True
    then show ?thesis using 3(1) by (simp add: edits_Cons)
  next
    case False
    show ?thesis
    proof (rule lev_neq_cases [OF False, of xs ys])
      assume "lev (x # xs) (y # ys) = Suc (lev xs ys)"
      then show ?thesis using relpowp_Suc_I2 [OF edit1_head(1) [of x xs y] edits_Cons [OF 3(2) [OF False], of y]] by metis
    next
      assume "lev (x # xs) (y # ys) = Suc (lev xs (y # ys))"
      then show ?thesis using relpowp_Suc_I2 [OF edit1_head(3) [of x xs] 3(3) [OF False]] by metis
    next
      assume "lev (x # xs) (y # ys) = Suc (lev (x # xs) ys)"
      then show ?thesis using relpowp_Suc_I [OF 3(4) [OF False] edit1_head(2)] relpowp_Suc_I2 [OF edit1_head(2) [of "x # xs" y] edits_Cons [OF 3(4) [OF False], of y]] by metis
    qed
  qed
qed

lemma lev_edit_distance: "lev s t = edit_distance s t"
  unfolding edit_distance_def by (rule Least_equality [symmetric]) (auto intro: edits_lev lev_edits)

text \<open>Reading both sides from the end makes no difference.\<close>

lemma edit1_rev: "edit1 (rev s) (rev t) \<longleftrightarrow> edit1 s t"
proof -
  have "edit1 (rev s) (rev t)" if "edit1 s t" for s t :: "'a list"
    using that unfolding edit1_def by (metis append.assoc append_Cons append_Nil rev.simps(2) rev_append)
  from this [of s t] this [of "rev s" "rev t"] show ?thesis by auto
qed

lemma edits_rev: "(edit1 ^^ n) s t \<Longrightarrow> (edit1 ^^ n) (rev s) (rev t)"
  by (induction n arbitrary: t) (auto intro!: relcomppI simp: edit1_rev)

lemma edit_distance_rev: "edit_distance (rev s) (rev t) = edit_distance s t"
  unfolding edit_distance_def using edits_rev [of _ s t] edits_rev [of _ "rev s" "rev t"]
  by (metis rev_rev_ident)

section \<open>The table\<close>

text \<open>The entries of a row from a column on: \<open>pre\<close> is the part of the second name left of the
  column, read backwards like \<open>r\<close>.\<close>

fun row :: "nat list \<Rightarrow> nat list \<Rightarrow> nat list \<Rightarrow> nat list" where
  "row r pre [] = []"
| "row r pre (b # bs) = lev r (b # pre) # row r (b # pre) bs"

lemma row_empty: "row [] pre bs = [Suc (length pre)..<Suc (length pre + length bs)]"
  by (induction bs arbitrary: pre) (simp_all add: upt_conv_Cons del: upt_Suc)

lemma last_row: "bs \<noteq> [] \<Longrightarrow> last (row r pre bs) = lev r (rev bs @ pre)"
proof (induction bs arbitrary: pre)
  case (Cons b bs)
  then show ?case by (cases bs) auto
qed simp

lemma lev_row_row: "lev_row c bs (lev r pre) (lev (c # r) pre) (row r pre bs) = row (c # r) pre bs"
proof (induction bs arbitrary: pre)
  case (Cons b bs)
  have v: "(if c = b then lev r pre else 1 + minInt (lev r pre) (minInt (lev r (b # pre)) (lev (c # r) pre)))
      = lev (c # r) (b # pre)"
    by (simp add: minInt_def min_def)
  show ?case using Cons.IH [of "b # pre"] by (simp only: row.simps lev_row.simps Let_def v)
qed simp

lemma lev_rows_row:
  "lev_rows rb cs (Suc (length r)) (length r # row r [] rb) = length (rev cs @ r) # row (rev cs @ r) [] rb"
proof (induction cs arbitrary: r)
  case (Cons c cs)
  have "lev_row c rb (length r) (Suc (length r)) (row r [] rb) = row (c # r) [] rb"
    using lev_row_row [of c rb r "[]"] by simp
  then show ?case using Cons.IH [of "c # r"] by simp
qed simp

lemma levenshtein_lev: "levenshtein a b = lev (rev (runes a)) (rev (runes b))"
proof (cases "runes a = [] \<or> runes b = []")
  case True
  then show ?thesis by (auto simp: levenshtein_def Let_def)
next
  case False
  have "[0..<length (runes b) + 1] = 0 # row [] [] (runes b)"
    by (simp add: row_empty upt_conv_Cons del: upt_Suc)
  then have "lev_rows (runes b) (runes a) 1 [0..<length (runes b) + 1]
      = length (runes a) # row (rev (runes a)) [] (runes b)"
    using lev_rows_row [of "runes b" "runes a" "[]"] by simp
  moreover have "row (rev (runes a)) [] (runes b) \<noteq> []" using False by (cases "runes b") auto
  ultimately show ?thesis
    using False last_row [of "runes b" "rev (runes a)" "[]"] by (simp add: levenshtein_def Let_def)
qed

text \<open>C26: The one-row dynamic program \<open>levenshtein\<close>, which on equal runes copies the diagonal entry
  and otherwise takes one more than the least of three neighbours, returns the edit distance of
  the two names as sequences of runes: the least number of single-rune insertions, deletions
  and substitutions leading from one to the other.\<close>

theorem levenshtein_edit_distance: "levenshtein a b = edit_distance (runes a) (runes b)"
  by (simp add: levenshtein_lev lev_edit_distance edit_distance_rev)

end
