(* ===== verification/DuplicateDetector.thy ===== *)
theory DuplicateDetector
  imports ContactRepository ProgLogic EditDistance "HOL-Library.AList"
begin

text \<open>
  Duplicate detection: \<open>internal/service/duplicate_detector.go\<close>, the projections of
  \<open>bun_contact.go\<close> it reads (\<open>ListForDedup\<close>, \<open>ListDedupValues\<close>) and
  \<open>internal/repository/bun_potential_duplicate.go\<close>. Scores are thousandths. The order in which Go
  walks a map is an argument (\<open>map_order\<close>), any permutation. \<open>ctx.Err()\<close> is a statement that may
  fail. The running scans of \<open>begin\<close> and \<open>end\<close> are a set of users.
\<close>

section \<open>Definitions\<close>

subsection \<open>The pairs table\<close>

abbreviation pair_key :: "potential_duplicate \<Rightarrow> string \<times> string \<times> string" where
  "pair_key p \<equiv> (pd_user_id p, pd_contact_a p, pd_contact_b p)"

text \<open>The foreign keys of \<open>potential_duplicates\<close> (migration 006).\<close>

definition pair_refs :: "db \<Rightarrow> potential_duplicate \<Rightarrow> bool" where
  "pair_refs d p \<longleftrightarrow> pd_user_id p \<in> u_id ` set (t_users d)
     \<and> pd_contact_a p \<in> c_id ` set (t_contacts d) \<and> pd_contact_b p \<in> c_id ` set (t_contacts d)"

definition CreatePair :: "potential_duplicate \<Rightarrow> (db_error, unit) prog" where
  "CreatePair p = stmt (\<lambda>d.
     if pd_id p \<in> pd_id ` set (t_duplicates d) \<or> pair_key p \<in> pair_key ` set (t_duplicates d) \<or> \<not> pair_refs d p
     then Inl ErrConstraint
     else Inr ((), d\<lparr>t_duplicates := t_duplicates d @ [p]\<rparr>))"

text \<open>\<open>INSERT ... ON CONFLICT (user_id, contact_a_id, contact_b_id) DO NOTHING\<close> and the rows
  affected.\<close>

definition CreateIfAbsent :: "potential_duplicate \<Rightarrow> (db_error, bool) prog" where
  "CreateIfAbsent p = stmt (\<lambda>d.
     if pair_key p \<in> pair_key ` set (t_duplicates d) then Inr (False, d)
     else if pd_id p \<in> pd_id ` set (t_duplicates d) \<or> \<not> pair_refs d p then Inl ErrConstraint
     else Inr (True, d\<lparr>t_duplicates := t_duplicates d @ [p]\<rparr>))"

definition GetPair :: "string \<Rightarrow> (db_error, potential_duplicate option) prog" where
  "GetPair i = query (\<lambda>d. select_one (\<lambda>p. pd_id p = i) (t_duplicates d))"

text \<open>\<open>GetByContacts\<close>: the row of an unordered pair.\<close>

definition GetByContacts :: "string \<Rightarrow> string \<Rightarrow> string \<Rightarrow> (db_error, potential_duplicate option) prog" where
  "GetByContacts userID aID bID =
     (let (a, b) = (if aID > bID then (bID, aID) else (aID, bID))
      in query (\<lambda>d. select_one (\<lambda>p. pair_key p = (userID, a, b)) (t_duplicates d)))"

definition UpdatePair :: "potential_duplicate \<Rightarrow> (db_error, unit) prog" where
  "UpdatePair p = stmt (\<lambda>d.
     if pd_id p \<notin> pd_id ` set (t_duplicates d) then Inr ((), d)
     else if pair_key p \<in> pair_key ` set (filter (\<lambda>q. pd_id q \<noteq> pd_id p) (t_duplicates d)) \<or> \<not> pair_refs d p
     then Inl ErrConstraint
     else Inr ((), d\<lparr>t_duplicates := upsert_row pd_id p (t_duplicates d)\<rparr>))"

definition DeleteByContact :: "string \<Rightarrow> (db_error, unit) prog" where
  "DeleteByContact i = stmt (\<lambda>d. Inr ((), d\<lparr>t_duplicates :=
     filter (\<lambda>p. \<not> (pd_contact_a p = i \<or> pd_contact_b p = i)) (t_duplicates d)\<rparr>))"

definition CountPending :: "string \<Rightarrow> (db_error, nat) prog" where
  "CountPending userID = query (\<lambda>d.
     length (filter (\<lambda>p. pd_user_id p = userID \<and> pd_status p = ''pending'') (t_duplicates d)))"

subsection \<open>The projections\<close>

text \<open>\<open>domain.ContactValueRef\<close>.\<close>

type_synonym contact_value_ref = "string \<times> string"

definition ListForDedup :: "string \<Rightarrow> (db_error, contact list) prog" where
  "ListForDedup b = query (\<lambda>d. sort_key c_id (filter (in_book b) (t_contacts d)))"

definition ListDedupValues :: "string \<Rightarrow> (db_error, contact_value_ref list \<times> contact_value_ref list) prog" where
  "ListDedupValues b =
     (let mine = (\<lambda>d cid. \<exists>c \<in> set (t_contacts d). c_id c = cid \<and> in_book b c)
      in andThen (query (\<lambda>d. map (\<lambda>e. (ch_contact_id e, ce_value e))
           (filter (\<lambda>e. mine d (ch_contact_id e)) (cr_emails (t_children d))))) (\<lambda>emails.
         andThen (query (\<lambda>d. map (\<lambda>p. (ch_contact_id p, cp_value p))
           (filter (\<lambda>p. mine d (ch_contact_id p)) (cr_phones (t_children d))))) (\<lambda>phones.
         ret (emails, phones))))"

subsection \<open>Scoring\<close>

definition duplicateScoreThreshold :: int where "duplicateScoreThreshold = 800"
definition maxBucketSize :: nat where "maxBucketSize = 500"

text \<open>\<open>range p\<close> walks the runes.\<close>

definition normalizePhone :: "string \<Rightarrow> string" where
  "normalizePhone p = string_of_runes (filter (\<lambda>r. 48 \<le> r \<and> r \<le> 57) (runes p))"

record candidate =
  cand_contact :: contact
  cand_name :: string

definition full_name :: "contact \<Rightarrow> string" where
  "full_name c = trim_space (c_first_name c @ '' '' @ c_last_name c)"

definition candidate_of :: "contact \<Rightarrow> candidate" where
  "candidate_of c = \<lparr>cand_contact = c, cand_name = full_name c\<rparr>"

definition name_reasons :: "unicode \<Rightarrow> string \<Rightarrow> string \<Rightarrow> string list" where
  "name_reasons U a b =
     (if a = [] \<or> b = [] then []
      else if equal_fold U a b then [''name_exact'']
      else if levenshtein (to_lower U a) (to_lower U b) \<le> 2 then [''name_similar'']
      else [])"

definition scoreBucketPair ::
  "unicode \<Rightarrow> string \<Rightarrow> string \<Rightarrow> candidate \<Rightarrow> candidate \<Rightarrow> int \<times> (string \<times> string) list" where
  "scoreBucketPair U kind v a b =
     (if kind = ''email'' then (1000, [(''email_match'', v)])
      else if kind = ''phone''
      then (800, (''phone_match'', v) # map (\<lambda>code. (code, cand_name a)) (name_reasons U (cand_name a) (cand_name b)))
      else (0, []))"

text \<open>The scorer of the former all-pairs scan.\<close>

definition scoreContacts :: "unicode \<Rightarrow> contact \<Rightarrow> contact \<Rightarrow> int \<times> string list" where
  "scoreContacts U a b =
     (if c_email a \<noteq> [] \<and> equal_fold U (c_email a) (c_email b) then (1000, [''email_match''])
      else
        let pa = normalizePhone (c_phone a);
            phone = (pa \<noteq> [] \<and> pa = normalizePhone (c_phone b));
            score = (if phone then 800 else 0 :: int);
            names = name_reasons U (full_name a) (full_name b);
            best = (if names = [''name_exact''] then max 700 score
                    else if names = [''name_similar''] then max 500 score else score)
        in (best, (if phone then [''phone_match''] else []) @ names))"

subsection \<open>Buckets\<close>

definition email_key :: "unicode \<Rightarrow> string \<Rightarrow> string option" where
  "email_key U v = (let email = to_lower U (trim_space v) in if email = [] then None else Some (''email:'' @ email))"

definition phone_key :: "string \<Rightarrow> string option" where
  "phone_key v = (let phone = normalizePhone v in if phone = [] then None else Some (''phone:'' @ phone))"

record bucket_state =
  seen :: "string set"
  buckets :: "(string \<times> candidate list) list"

text \<open>The closure \<open>add\<close>; a value with no key adds nothing.\<close>

definition add_key :: "string option \<Rightarrow> candidate \<Rightarrow> bucket_state \<Rightarrow> bucket_state" where
  "add_key k cand st =
     (case k of None \<Rightarrow> st
      | Some key \<Rightarrow>
          let dedupKey = key @ CHR 0x00 # c_id (cand_contact cand)
          in if dedupKey \<in> seen st then st
             else \<lparr>seen = insert dedupKey (seen st), buckets = AList.map_default key [cand] (\<lambda>cs. cs @ [cand]) (buckets st)\<rparr>)"

text \<open>One pass over a projection of child values.\<close>

definition add_values ::
  "(string \<Rightarrow> string option) \<Rightarrow> (string \<Rightarrow> candidate option) \<Rightarrow> contact_value_ref list \<Rightarrow> bucket_state \<Rightarrow> bucket_state" where
  "add_values key byID = fold (\<lambda>(cid, v) st. case byID cid of None \<Rightarrow> st | Some cand \<Rightarrow> add_key (key v) cand st)"

definition buckets_of ::
  "unicode \<Rightarrow> contact list \<Rightarrow> contact_value_ref list \<Rightarrow> contact_value_ref list \<Rightarrow> (string \<times> candidate list) list" where
  "buckets_of U contacts childEmails childPhones =
     (let byID = map_of (rev (map (\<lambda>c. (c_id c, candidate_of c)) contacts));
          st0 = \<lparr>seen = {}, buckets = []\<rparr>;
          st1 = fold (\<lambda>c st. add_key (phone_key (c_phone c)) (candidate_of c)
                  (add_key (email_key U (c_email c)) (candidate_of c) st)) contacts st0;
          st2 = add_values (email_key U) byID childEmails st1;
          st3 = add_values phone_key byID childPhones st2
      in buckets st3)"

subsection \<open>The scan\<close>

type_synonym pairs = "((string \<times> string) \<times> potential_duplicate) list"

text \<open>\<open>for i ... for j := i + 1 ...\<close>.\<close>

fun pairs_of :: "'a list \<Rightarrow> ('a \<times> 'a) list" where
  "pairs_of [] = []"
| "pairs_of (x # xs) = map (Pair x) xs @ pairs_of xs"

definition ordered :: "string \<Rightarrow> string \<Rightarrow> string \<times> string" where
  "ordered a b = (if a > b then (b, a) else (a, b))"

definition visit_pair ::
  "unicode \<Rightarrow> string \<Rightarrow> int \<Rightarrow> string \<Rightarrow> string \<Rightarrow> candidate \<times> candidate \<Rightarrow> pairs \<Rightarrow> ('e, pairs) prog" where
  "visit_pair U userID t kind v ab best =
     (let (ca, cb) = ab; a = c_id (cand_contact ca); b = c_id (cand_contact cb)
      in if a = b then ret best
         else
           let (score, reasons) = scoreBucketPair U kind v ca cb; (aID, bID) = ordered a b
           in if score < duplicateScoreThreshold then ret best
              else if (case map_of best (aID, bID) of Some p \<Rightarrow> pd_score p \<ge> score | None \<Rightarrow> False) then ret best
              else andThen mint (\<lambda>i. ret (AList.update (aID, bID)
                \<lparr>pd_id = i, pd_user_id = userID, pd_contact_a = aID, pd_contact_b = bID, pd_score = score,
                 pd_match_reasons = reasons, pd_status = ''pending'', pd_created_at = t\<rparr> best)))"

definition visit_bucket ::
  "unicode \<Rightarrow> string \<Rightarrow> int \<Rightarrow> (string \<times> candidate list) list \<Rightarrow> string \<Rightarrow> pairs \<Rightarrow> (db_error, pairs) prog" where
  "visit_bucket U userID t bs key best =
     andThen ctx_err (\<lambda>_.
     let bucket = the (map_of bs key); (kind, rest) = cut_at CHR '':'' key; v = (case rest of None \<Rightarrow> [] | Some r \<Rightarrow> r)
     in if length bucket < 2 \<or> length bucket > maxBucketSize then ret best
        else forEach (visit_pair U userID t kind v) (pairs_of bucket) best)"

definition record_pair :: "pairs \<Rightarrow> string \<times> string \<Rightarrow> nat \<Rightarrow> (db_error, nat) prog" where
  "record_pair best pk found =
     andThen ctx_err (\<lambda>_.
     andThen (attempt (CreateIfAbsent (the (map_of best pk)))) (\<lambda>r. case r of
       Inl _ \<Rightarrow> ret found
     | Inr created \<Rightarrow> ret (if created then found + 1 else found)))"

record map_order =
  mo_keys :: "string list \<Rightarrow> string list"
  mo_pairs :: "(string \<times> string) list \<Rightarrow> (string \<times> string) list"

definition permutes :: "map_order \<Rightarrow> bool" where
  "permutes mo \<longleftrightarrow> (\<forall>ks. set (mo_keys mo ks) = set ks \<and> (distinct ks \<longrightarrow> distinct (mo_keys mo ks)))
     \<and> (\<forall>ps. set (mo_pairs mo ps) = set ps \<and> (distinct ps \<longrightarrow> distinct (mo_pairs mo ps)))"

record detection_result =
  dr_found :: nat
  dr_checked :: nat

definition scan :: "unicode \<Rightarrow> map_order \<Rightarrow> string \<Rightarrow> (db_error, detection_result) prog" where
  "scan U mo userID =
     andThen (GetOrCreateByUserID userID) (\<lambda>ab.
     andThen (ListForDedup (ab_id ab)) (\<lambda>contacts.
     andThen (ListDedupValues (ab_id ab)) (\<lambda>(childEmails, childPhones).
     andThen now (\<lambda>t.
     let bs = buckets_of U contacts childEmails childPhones
     in andThen (forEach (visit_bucket U userID t bs) (mo_keys mo (map fst bs)) []) (\<lambda>best.
        andThen (forEach (record_pair best) (mo_pairs mo (map fst best)) 0) (\<lambda>found.
        ret \<lparr>dr_found = found, dr_checked = length contacts\<rparr>))))))"

datatype detect_error = ErrDetectionInProgress | DetectDB db_error

definition begin_scan :: "string set \<Rightarrow> string \<Rightarrow> string set option" where
  "begin_scan running userID = (if userID \<in> running then None else Some (insert userID running))"

definition end_scan :: "string set \<Rightarrow> string \<Rightarrow> string set" where
  "end_scan running userID = running - {userID}"

definition Detect ::
  "unicode \<Rightarrow> map_order \<Rightarrow> string \<Rightarrow> string set \<Rightarrow> world \<Rightarrow> (detect_error + detection_result) \<times> string set \<times> world" where
  "Detect U mo userID running w =
     (case begin_scan running userID of
        None \<Rightarrow> (Inl ErrDetectionInProgress, running, w)
      | Some claimed \<Rightarrow>
          (case wrapErr DetectDB (scan U mo userID) w of (r, w') \<Rightarrow> (r, end_scan claimed userID, w')))"

subsection \<open>What counts as a duplicate\<close>

text \<open>The values of a contact: its own column and its child rows.\<close>

definition email_values :: "db \<Rightarrow> contact \<Rightarrow> string set" where
  "email_values d c = insert (c_email c) (ce_value ` set (filter (\<lambda>e. ch_contact_id e = c_id c) (cr_emails (t_children d))))"

definition phone_values :: "db \<Rightarrow> contact \<Rightarrow> string set" where
  "phone_values d c = insert (c_phone c) (cp_value ` set (filter (\<lambda>e. ch_contact_id e = c_id c) (cr_phones (t_children d))))"

definition has_key :: "unicode \<Rightarrow> db \<Rightarrow> string \<Rightarrow> contact \<Rightarrow> bool" where
  "has_key U d k c \<longleftrightarrow> (\<exists>v \<in> email_values d c. email_key U v = Some k) \<or> (\<exists>v \<in> phone_values d c. phone_key v = Some k)"

definition sharers :: "unicode \<Rightarrow> db \<Rightarrow> string \<Rightarrow> string \<Rightarrow> contact set" where
  "sharers U d b k = set (filter (\<lambda>c. in_book b c \<and> has_key U d k c) (t_contacts d))"

text \<open>Two contacts of a book share a value of a kind that does not belong to too many.\<close>

definition shares :: "unicode \<Rightarrow> db \<Rightarrow> string \<Rightarrow> string \<Rightarrow> string \<Rightarrow> string \<Rightarrow> bool" where
  "shares U d b kind i j \<longleftrightarrow>
     (\<exists>v. card (sharers U d b (kind @ CHR '':'' # v)) \<le> maxBucketSize
        \<and> {i, j} \<subseteq> c_id ` sharers U d b (kind @ CHR '':'' # v))"

definition duplicates :: "unicode \<Rightarrow> db \<Rightarrow> string \<Rightarrow> string \<Rightarrow> string \<Rightarrow> bool" where
  "duplicates U d b i j \<longleftrightarrow> i < j \<and> (shares U d b ''email'' i j \<or> shares U d b ''phone'' i j)"

text \<open>The table of pairs: one row for an unordered pair of contacts that exist.\<close>

definition pairs_ok :: "db \<Rightarrow> bool" where
  "pairs_ok d \<longleftrightarrow> distinct (map pd_id (t_duplicates d)) \<and> distinct (map pair_key (t_duplicates d))
     \<and> (\<forall>p \<in> set (t_duplicates d). pd_contact_a p < pd_contact_b p \<and> pair_refs d p)"

section \<open>Buckets\<close>

definition bucket :: "(string \<times> candidate list) list \<Rightarrow> string \<Rightarrow> candidate list" where
  "bucket bs k = (case map_of bs k of None \<Rightarrow> [] | Some cs \<Rightarrow> cs)"

text \<open>The state after the candidates of \<open>A\<close> were added under their keys.\<close>

definition holds :: "(string \<times> candidate) set \<Rightarrow> bucket_state \<Rightarrow> bool" where
  "holds A st \<longleftrightarrow> seen st = (\<lambda>(k, cand). k @ CHR 0x00 # c_id (cand_contact cand)) ` A
     \<and> distinct (map fst (buckets st)) \<and> fst ` set (buckets st) = fst ` A
     \<and> (\<forall>k. distinct (bucket (buckets st) k) \<and> set (bucket (buckets st) k) = {cand. (k, cand) \<in> A})"

text \<open>Candidates that their contact id tells apart; ids hold no NUL byte.\<close>

definition told_apart :: "candidate set \<Rightarrow> bool" where
  "told_apart C \<longleftrightarrow> inj_on (\<lambda>cand. c_id (cand_contact cand)) C
     \<and> (\<forall>cand \<in> C. CHR 0x00 \<notin> set (c_id (cand_contact cand)))"

lemma append_sep_inj:
  assumes "s \<notin> set i" "s \<notin> set i'" "k @ s # i = k' @ s # i'"
  shows "k = k' \<and> i = i'"
proof -
  have "takeWhile (\<lambda>c. c \<noteq> s) (rev (k @ s # i)) = rev i" "takeWhile (\<lambda>c. c \<noteq> s) (rev (k' @ s # i')) = rev i'"
    using assms(1,2) by (auto simp: takeWhile_tail)
  then show ?thesis using assms(3) by simp
qed

lemma bucket_map_default:
  "bucket (AList.map_default key [cand] (\<lambda>cs. cs @ [cand]) bs) k = bucket bs k @ (if k = key then [cand] else [])"
  by (induction bs) (auto simp: bucket_def split: if_splits option.splits)

lemma fst_map_default: "fst ` set (AList.map_default k v f bs) = insert k (fst ` set bs)"
  by (induction bs) auto

lemma distinct_map_default: "distinct (map fst bs) \<Longrightarrow> distinct (map fst (AList.map_default k v f bs))"
  by (induction bs) (auto simp: fst_map_default image_iff dest!: fst_map_default [THEN equalityD1, THEN subsetD])

lemma add_key_holds:
  assumes "holds A st" "told_apart C" "snd ` A \<subseteq> C" "cand \<in> C"
  shows "holds (A \<union> (case k of None \<Rightarrow> {} | Some key \<Rightarrow> {(key, cand)})) (add_key k cand st)"
proof (cases k)
  case None
  then show ?thesis using assms(1) by (simp add: add_key_def)
next
  case (Some key)
  let ?dk = "\<lambda>(k, cand). k @ CHR 0x00 # c_id (cand_contact cand)"
  have *: "?dk (key, cand) \<in> ?dk ` A \<longleftrightarrow> (key, cand) \<in> A"
  proof
    assume "?dk (key, cand) \<in> ?dk ` A"
    then obtain key' cand' where m: "(key', cand') \<in> A" and eq: "?dk (key, cand) = ?dk (key', cand')" by auto
    have c': "cand' \<in> C" using m assms(3) by force
    with eq assms(2,4) have "key = key' \<and> c_id (cand_contact cand) = c_id (cand_contact cand')"
      by (intro append_sep_inj) (auto simp: told_apart_def)
    then show "(key, cand) \<in> A"
      using m c' assms(2,4) by (auto simp: told_apart_def dest: inj_onD)
  qed force
  show ?thesis
  proof (cases "(key, cand) \<in> A")
    case True
    then show ?thesis using Some assms(1) * by (simp add: add_key_def holds_def insert_absorb)
  next
    case False
    then show ?thesis using Some assms(1) *
      by (auto simp: add_key_def holds_def bucket_map_default fst_map_default distinct_map_default)
  qed
qed

text \<open>What a pass adds: the keys of its values, each under the candidate it belongs to.\<close>

definition keyed :: "string option \<Rightarrow> candidate \<Rightarrow> (string \<times> candidate) set" where
  "keyed k cand = (case k of None \<Rightarrow> {} | Some key \<Rightarrow> {(key, cand)})"

lemma mem_keyed [simp]: "(key, c) \<in> keyed k cand \<longleftrightarrow> k = Some key \<and> c = cand"
  by (cases k) (auto simp: keyed_def)

lemma snd_keyed: "snd ` keyed k cand \<subseteq> {cand}"
  by (cases k) (auto simp: keyed_def)

lemma add_key_holds':
  "holds A st \<Longrightarrow> told_apart C \<Longrightarrow> snd ` A \<subseteq> C \<Longrightarrow> cand \<in> C \<Longrightarrow>
   holds (A \<union> keyed k cand) (add_key k cand st) \<and> snd ` (A \<union> keyed k cand) \<subseteq> C"
  using add_key_holds [of A st C cand k] snd_keyed [of k cand] by (auto simp: keyed_def)

lemma fold_holds:
  assumes step: "\<And>x A st. x \<in> set xs \<Longrightarrow> holds A st \<Longrightarrow> snd ` A \<subseteq> C \<Longrightarrow> holds (A \<union> B x) (f x st) \<and> snd ` (A \<union> B x) \<subseteq> C"
    and "holds A st" "snd ` A \<subseteq> C"
  shows "holds (A \<union> \<Union> (B ` set xs)) (fold f xs st) \<and> snd ` (A \<union> \<Union> (B ` set xs)) \<subseteq> C"
  using assms
proof (induction xs arbitrary: A st)
  case (Cons x xs)
  note 1 = Cons.prems(1) [of x, OF _ Cons.prems(2,3)]
  have "holds (A \<union> B x \<union> \<Union> (B ` set xs)) (fold f xs (f x st)) \<and> snd ` (A \<union> B x \<union> \<Union> (B ` set xs)) \<subseteq> C"
    using 1 Cons.prems(1) by (intro Cons.IH) simp_all
  then show ?case by (simp add: Un_assoc)
qed simp

definition pass_adds :: "(string \<Rightarrow> string option) \<Rightarrow> (string \<Rightarrow> candidate option) \<Rightarrow> contact_value_ref \<Rightarrow> (string \<times> candidate) set" where
  "pass_adds key byID ref = (case byID (fst ref) of None \<Rightarrow> {} | Some cand \<Rightarrow> keyed (key (snd ref)) cand)"

lemma add_values_holds:
  assumes "holds A st" "snd ` A \<subseteq> C" "told_apart C" "ran byID \<subseteq> C"
  shows "holds (A \<union> \<Union> (pass_adds key byID ` set refs)) (add_values key byID refs st)
     \<and> snd ` (A \<union> \<Union> (pass_adds key byID ` set refs)) \<subseteq> C"
  unfolding add_values_def
proof (rule fold_holds)
  fix ref A st assume "holds A st" "snd ` A \<subseteq> C"
  then show "holds (A \<union> pass_adds key byID ref) ((case ref of (cid, v) \<Rightarrow> \<lambda>st.
      case byID cid of None \<Rightarrow> st | Some cand \<Rightarrow> add_key (key v) cand st) st) \<and> snd ` (A \<union> pass_adds key byID ref) \<subseteq> C"
    using add_key_holds' [OF _ assms(3)] assms(4)
    by (auto simp: pass_adds_def ran_def split: prod.splits option.splits)
qed fact+

text \<open>A bucket holds each contact with its key once.\<close>

lemma buckets_of_correct:
  fixes U contacts es ps
  assumes ids: "distinct (map c_id contacts)" "\<And>c. c \<in> set contacts \<Longrightarrow> CHR 0x00 \<notin> set (c_id c)"
  defines "bs \<equiv> buckets_of U contacts es ps"
  defines "K \<equiv> \<lambda>k c. email_key U (c_email c) = Some k \<or> phone_key (c_phone c) = Some k
     \<or> (\<exists>v. (c_id c, v) \<in> set es \<and> email_key U v = Some k) \<or> (\<exists>v. (c_id c, v) \<in> set ps \<and> phone_key v = Some k)"
  shows "distinct (map fst bs)" "k \<in> fst ` set bs \<longleftrightarrow> (\<exists>c \<in> set contacts. K k c)"
    "distinct (bucket bs k)" "set (bucket bs k) = candidate_of ` {c \<in> set contacts. K k c}"
proof -
  define byID where "byID = map_of (rev (map (\<lambda>c. (c_id c, candidate_of c)) contacts))"
  let ?C = "candidate_of ` set contacts"
  have apart: "told_apart ?C"
    using ids by (auto simp: told_apart_def candidate_of_def distinct_map inj_on_def)
  have byID: "byID cid = Some cand \<longleftrightarrow> (\<exists>c \<in> set contacts. c_id c = cid \<and> cand = candidate_of c)" for cid cand
  proof -
    have "distinct (map fst (rev (map (\<lambda>c. (c_id c, candidate_of c)) contacts)))"
      using ids(1) by (simp add: rev_map [symmetric] o_def)
    then show ?thesis by (auto simp: byID_def)
  qed
  then have ran: "ran byID \<subseteq> ?C" by (auto simp: ran_def)
  let ?B = "\<lambda>c. keyed (email_key U (c_email c)) (candidate_of c) \<union> keyed (phone_key (c_phone c)) (candidate_of c)"
  let ?f = "\<lambda>c st. add_key (phone_key (c_phone c)) (candidate_of c) (add_key (email_key U (c_email c)) (candidate_of c) st)"
  have "holds ({} \<union> \<Union> (?B ` set contacts)) (fold ?f contacts \<lparr>seen = {}, buckets = []\<rparr>)
      \<and> snd ` ({} \<union> \<Union> (?B ` set contacts)) \<subseteq> ?C"
  proof (rule fold_holds)
    fix c A st assume c: "c \<in> set contacts" and h: "holds A st" "snd ` A \<subseteq> ?C"
    then have "candidate_of c \<in> ?C" by simp
    from add_key_holds' [OF h(1) apart h(2) this, of "email_key U (c_email c)"]
      add_key_holds' [OF _ apart _ this, of _ _ "phone_key (c_phone c)"]
    show "holds (A \<union> ?B c) (?f c st) \<and> snd ` (A \<union> ?B c) \<subseteq> ?C"
      unfolding Un_assoc [symmetric] by blast
  qed (auto simp: holds_def bucket_def)
  from add_values_holds [OF this [THEN conjunct1] this [THEN conjunct2] apart ran, of "email_key U" es]
  have 2: "holds ({} \<union> \<Union> (?B ` set contacts) \<union> \<Union> (pass_adds (email_key U) byID ` set es))
      (add_values (email_key U) byID es (fold ?f contacts \<lparr>seen = {}, buckets = []\<rparr>))
     \<and> snd ` ({} \<union> \<Union> (?B ` set contacts) \<union> \<Union> (pass_adds (email_key U) byID ` set es)) \<subseteq> ?C" .
  define A where "A = \<Union> (?B ` set contacts) \<union> \<Union> (pass_adds (email_key U) byID ` set es) \<union> \<Union> (pass_adds phone_key byID ` set ps)"
  define st where "st = add_values phone_key byID ps (add_values (email_key U) byID es (fold ?f contacts \<lparr>seen = {}, buckets = []\<rparr>))"
  have h: "holds A st"
    using add_values_holds [OF 2 [THEN conjunct1] 2 [THEN conjunct2] apart ran, of phone_key ps]
    unfolding A_def st_def by simp
  have st: "bs = buckets st" by (simp add: bs_def buckets_of_def byID_def Let_def st_def)
  have pass: "(k, cand) \<in> pass_adds key byID ref \<longleftrightarrow> (\<exists>c \<in> set contacts. c_id c = fst ref \<and> cand = candidate_of c \<and> key (snd ref) = Some k)"
    for k cand key ref
  proof -
    have "(k, cand) \<in> pass_adds key byID ref \<longleftrightarrow> byID (fst ref) = Some cand \<and> key (snd ref) = Some k"
      by (cases "byID (fst ref)") (auto simp: pass_adds_def)
    then show ?thesis by (auto simp: byID)
  qed
  have "(k, cand) \<in> A \<longleftrightarrow> (\<exists>c \<in> set contacts. cand = candidate_of c \<and> K k c)" for k cand
    unfolding A_def K_def by (fastforce simp: pass)
  then have mem: "(k, cand) \<in> A \<longleftrightarrow> cand \<in> candidate_of ` {c \<in> set contacts. K k c}" for k cand by auto
  show "distinct (map fst bs)" "distinct (bucket bs k)" "set (bucket bs k) = candidate_of ` {c \<in> set contacts. K k c}"
    using h st mem by (auto simp: holds_def)
  show "k \<in> fst ` set bs \<longleftrightarrow> (\<exists>c \<in> set contacts. K k c)"
  proof -
    have "k \<in> fst ` A \<longleftrightarrow> (\<exists>cand. (k, cand) \<in> A)" by force
    then show ?thesis using h st mem by (auto simp: holds_def)
  qed
qed


section \<open>The best pairs\<close>

text \<open>What a pair of candidates offers: its pair of ids with a score.\<close>

definition offer :: "unicode \<Rightarrow> string \<Rightarrow> string \<Rightarrow> candidate \<times> candidate \<Rightarrow> ((string \<times> string) \<times> int) set" where
  "offer U kind v ab =
     (let a = c_id (cand_contact (fst ab)); b = c_id (cand_contact (snd ab));
          score = fst (scoreBucketPair U kind v (fst ab) (snd ab))
      in if a = b \<or> score < duplicateScoreThreshold then {} else {(ordered a b, score)})"

definition new_pair :: "string \<Rightarrow> string \<times> string \<Rightarrow> potential_duplicate \<Rightarrow> bool" where
  "new_pair u pk p \<longleftrightarrow> pd_user_id p = u \<and> (pd_contact_a p, pd_contact_b p) = pk \<and> pd_status p = ''pending''"

text \<open>\<open>best\<close> after the offers of \<open>H\<close>: for each pair offered a row with the highest score; the
  rows carry distinct identifiers minted since \<open>n\<close>.\<close>

definition tracks :: "string \<Rightarrow> ((string \<times> string) \<times> int) set \<Rightarrow> pairs \<Rightarrow> bool" where
  "tracks u H best \<longleftrightarrow> distinct (map fst best)
     \<and> (\<forall>pk p. map_of best pk = Some p \<longrightarrow> new_pair u pk p \<and> (pk, pd_score p) \<in> H)
     \<and> (\<forall>pk s. (pk, s) \<in> H \<longrightarrow> (\<exists>p. map_of best pk = Some p \<and> s \<le> pd_score p))"

definition fresh_ids :: "nat \<Rightarrow> pairs \<Rightarrow> world \<Rightarrow> bool" where
  "fresh_ids n best w \<longleftrightarrow> inj (w_uuid w)
     \<and> (\<forall>pk p. map_of best pk = Some p \<longrightarrow> (\<exists>m. n \<le> m \<and> m < w_minted w \<and> pd_id p = w_uuid w m))
     \<and> (\<forall>pk p pk' p'. map_of best pk = Some p \<longrightarrow> map_of best pk' = Some p' \<longrightarrow> pd_id p = pd_id p' \<longrightarrow> pk = pk')
     \<and> n \<le> w_minted w"

definition visiting :: "db \<Rightarrow> string \<Rightarrow> nat \<Rightarrow> ((string \<times> string) \<times> int) set \<Rightarrow> pairs \<Rightarrow> world \<Rightarrow> bool" where
  "visiting d u n H best w \<longleftrightarrow> quiet w \<and> w_db w = d \<and> (\<forall>m. n \<le> m \<longrightarrow> w_uuid w m \<notin> pd_id ` set (t_duplicates d))
     \<and> tracks u H best \<and> fresh_ids n best w"

lemma tracks_skip:
  "tracks u H best \<Longrightarrow> map_of best pk = Some p \<Longrightarrow> s \<le> pd_score p \<Longrightarrow> tracks u (insert (pk, s) H) best"
  unfolding tracks_def by auto

lemma tracks_update:
  assumes "tracks u H best" "new_pair u pk q" "\<And>p. map_of best pk = Some p \<Longrightarrow> pd_score p < pd_score q"
  shows "tracks u (insert (pk, pd_score q) H) (AList.update pk q best)"
  unfolding tracks_def update_conv'
proof (intro conjI allI impI)
  show "distinct (map fst (AList.update pk q best))" using assms(1) by (simp add: tracks_def distinct_update)
next
  fix pk' p assume "((map_of best)(pk \<mapsto> q)) pk' = Some p"
  then show "new_pair u pk' p" "(pk', pd_score p) \<in> insert (pk, pd_score q) H"
    using assms(1,2) by (cases pk'; auto simp: tracks_def split: if_splits)+
next
  fix pk' s assume "(pk', s) \<in> insert (pk, pd_score q) H"
  then consider "pk' = pk" "s = pd_score q" | "(pk', s) \<in> H" by auto
  then show "\<exists>p. ((map_of best)(pk \<mapsto> q)) pk' = Some p \<and> s \<le> pd_score p"
  proof cases
    case 2
    then obtain p where "map_of best pk' = Some p" "s \<le> pd_score p" using assms(1) unfolding tracks_def by blast
    then show ?thesis using assms(3) [of p] by (cases "pk' = pk") auto
  qed simp
qed

lemma fresh_ids_update:
  assumes "fresh_ids n best w" "pd_id q = w_uuid w (w_minted w)"
  shows "fresh_ids n (AList.update pk q best) (w\<lparr>w_minted := Suc (w_minted w)\<rparr>)"
proof -
  have ne: "pd_id p \<noteq> pd_id q" if "map_of best pk' = Some p" for pk' p
    using assms that unfolding fresh_ids_def by (metis injD less_irrefl)
  show ?thesis
    using assms ne ne [symmetric] unfolding fresh_ids_def update_conv'
    by (auto split: if_splits simp: less_Suc_eq_le) (metis less_imp_le | blast)+
qed

lemma triple_mint_ret:
  "(\<And>w. P w \<Longrightarrow> Q (g (w_uuid w (w_minted w))) (w\<lparr>w_minted := Suc (w_minted w)\<rparr>)) \<Longrightarrow>
   triple P (andThen mint (\<lambda>i. ret (g i))) Q E"
  by (rule tripleI) (auto simp: andThen_def prog_simps)

lemma visit_pair_tracks:
  "triple (visiting d u n H best) (visit_pair U u t kind v ab best)
     (\<lambda>best'. visiting d u n (H \<union> offer U kind v ab) best') E"
proof -
  obtain ca cb where ab: "ab = (ca, cb)" by fastforce
  obtain score reasons where sr: "scoreBucketPair U kind v ca cb = (score, reasons)" by fastforce
  let ?pk = "ordered (c_id (cand_contact ca)) (c_id (cand_contact cb))"
  obtain aID bID where pk: "?pk = (aID, bID)" by fastforce
  show ?thesis
  proof (cases "c_id (cand_contact ca) = c_id (cand_contact cb) \<or> score < duplicateScoreThreshold")
    case True
    then show ?thesis by (auto simp: visit_pair_def ab sr pk offer_def Let_def intro: triple_ret)
  next
    case False
    then have off: "offer U kind v ab = {(?pk, score)}" by (auto simp: offer_def ab sr Let_def)
    show ?thesis
    proof (cases "case map_of best ?pk of Some p \<Rightarrow> pd_score p \<ge> score | None \<Rightarrow> False")
      case True
      then show ?thesis using False
        by (auto simp: visit_pair_def ab sr pk off [unfolded ab pk] visiting_def Let_def split: option.splits
            intro!: triple_ret tracks_skip)
    next
      case keep: False
      have "visiting d u n (insert (?pk, score) H) (AList.update (aID, bID)
          \<lparr>pd_id = w_uuid w (w_minted w), pd_user_id = u, pd_contact_a = aID, pd_contact_b = bID, pd_score = score,
           pd_match_reasons = reasons, pd_status = ''pending'', pd_created_at = t\<rparr> best) (w\<lparr>w_minted := Suc (w_minted w)\<rparr>)"
        (is "visiting _ _ _ _ (AList.update _ ?q _) _") if vis: "visiting d u n H best w" for w
      proof -
        have "tracks u (insert ((aID, bID), pd_score ?q) H) (AList.update (aID, bID) ?q best)"
          using vis keep by (intro tracks_update) (auto simp: visiting_def new_pair_def pk split: option.splits)
        then show ?thesis using vis fresh_ids_update [of n best w ?q] by (simp add: visiting_def quiet_def pk)
      qed
      then show ?thesis using False keep
        by (auto simp: visit_pair_def ab sr pk off [unfolded ab pk] Let_def
            intro!: triple_mint_ret)
    qed
  qed
qed

definition bucket_offers :: "unicode \<Rightarrow> (string \<times> candidate list) list \<Rightarrow> string \<Rightarrow> ((string \<times> string) \<times> int) set" where
  "bucket_offers U bs key =
     (let cs = bucket bs key; (kind, rest) = cut_at CHR '':'' key; v = (case rest of None \<Rightarrow> [] | Some r \<Rightarrow> r)
      in if length cs > maxBucketSize then {} else \<Union> (offer U kind v ` set (pairs_of cs)))"

lemma pairs_of_small: "length xs < 2 \<Longrightarrow> pairs_of xs = []"
  by (cases xs rule: pairs_of.cases) auto

lemma visit_bucket_tracks:
  assumes "key \<in> fst ` set bs"
  shows "triple (visiting d u n H best) (visit_bucket U u t bs key best)
     (\<lambda>best'. visiting d u n (H \<union> bucket_offers U bs key) best') E"
proof -
  obtain kind rest where cut: "cut_at CHR '':'' key = (kind, rest)" by fastforce
  let ?v = "case rest of None \<Rightarrow> [] | Some r \<Rightarrow> r"
  obtain cs where cs: "map_of bs key = Some cs" using assms by (metis map_of_eq_None_iff not_None_eq)
  have loop: "triple (visiting d u n H best) (forEach (visit_pair U u t kind ?v) (pairs_of cs) best)
      (\<lambda>best'. visiting d u n (H \<union> \<Union> (offer U kind ?v ` set (pairs_of cs))) best') E"
  proof -
    let ?I = "\<lambda>ys best. visiting d u n (H \<union> \<Union> (offer U kind ?v ` set ys)) best"
    have "triple (?I ys best) (visit_pair U u t kind ?v x best) (\<lambda>s'. ?I (ys @ [x]) s') E" for ys x best
      using visit_pair_tracks [of d u n "H \<union> \<Union> (offer U kind ?v ` set ys)" best U t kind ?v x E]
      by (simp add: Un_assoc Un_commute Un_left_commute)
    then have "triple (?I [] best) (forEach (visit_pair U u t kind ?v) (pairs_of cs) best) (\<lambda>s'. ?I (pairs_of cs) s') E"
      by (intro triple_forEach [where I = ?I])
    then show ?thesis by simp
  qed
  have "triple (visiting d u n H best) ctx_err (\<lambda>_. visiting d u n H best) E"
    by (rule triple_ctx_err) (simp add: visiting_def)
  then show ?thesis
    unfolding visit_bucket_def
  proof (rule triple_andThen)
    fix x :: unit
    show "triple (visiting d u n H best) (let bucket = the (map_of bs key); (kind, rest) = cut_at CHR '':'' key;
        v = (case rest of None \<Rightarrow> [] | Some r \<Rightarrow> r)
     in if length bucket < 2 \<or> length bucket > maxBucketSize then ret best
        else forEach (visit_pair U u t kind v) (pairs_of bucket) best)
      (\<lambda>best'. visiting d u n (H \<union> bucket_offers U bs key) best') E"
      using loop by (auto simp: cut cs bucket_offers_def bucket_def Let_def pairs_of_small intro!: triple_ret)
  qed
qed

lemma visit_buckets_tracks:
  assumes "set keys \<subseteq> fst ` set bs"
  shows "triple (visiting d u n {} []) (forEach (visit_bucket U u t bs) keys [])
     (\<lambda>best. visiting d u n (\<Union> (bucket_offers U bs ` set keys)) best) E"
proof -
  let ?I = "\<lambda>ys best. visiting d u n (\<Union> (bucket_offers U bs ` set ys)) best"
  have "triple (?I ys best) (visit_bucket U u t bs key best) (\<lambda>s'. ?I (ys @ [key]) s') E"
    if "keys = ys @ key # zs" for ys key zs best
    using visit_bucket_tracks [of key bs d u n "\<Union> (bucket_offers U bs ` set ys)" best U t E] assms that
    by (simp add: Un_assoc Un_commute Un_left_commute)
  then have "triple (?I [] []) (forEach (visit_bucket U u t bs) keys []) (\<lambda>s'. ?I keys s') E"
    by (intro triple_forEach [where I = ?I])
  then show ?thesis by simp
qed


section \<open>The offers are the duplicates\<close>

lemma pairs_of_mem: "(x, y) \<in> set (pairs_of xs) \<Longrightarrow> x \<in> set xs \<and> y \<in> set xs"
  by (induction xs) auto

lemma pairs_of_total: "x \<in> set xs \<Longrightarrow> y \<in> set xs \<Longrightarrow> x \<noteq> y \<Longrightarrow> (x, y) \<in> set (pairs_of xs) \<or> (y, x) \<in> set (pairs_of xs)"
  by (induction xs) auto

lemma ordered_eq: "a \<noteq> b \<Longrightarrow> ordered a b = (i, j) \<longleftrightarrow> i < j \<and> {i, j} = {a, b}"
  by (auto simp: ordered_def doubleton_eq_iff split: if_splits)

lemma pair_offers:
  assumes "\<And>a b. fst (scoreBucketPair U kind v a b) = score" "duplicateScoreThreshold \<le> score"
  shows "((i, j), s) \<in> \<Union> (offer U kind v ` set (pairs_of cs)) \<longleftrightarrow>
     s = score \<and> i < j \<and> {i, j} \<subseteq> (c_id \<circ> cand_contact) ` set cs"
    (is "?L \<longleftrightarrow> ?R")
proof
  assume ?L
  then obtain a b where ab: "(a, b) \<in> set (pairs_of cs)" "((i, j), s) \<in> offer U kind v (a, b)" by auto
  then have "s = score" "c_id (cand_contact a) \<noteq> c_id (cand_contact b)"
    "ordered (c_id (cand_contact a)) (c_id (cand_contact b)) = (i, j)"
    by (auto simp: offer_def assms Let_def split: if_splits)
  then show ?R using pairs_of_mem [OF ab(1)] by (auto simp: ordered_eq)
next
  assume R: ?R
  then obtain a b where ab: "a \<in> set cs" "b \<in> set cs" "c_id (cand_contact a) = i" "c_id (cand_contact b) = j" by auto
  then have "(a, b) \<in> set (pairs_of cs) \<or> (b, a) \<in> set (pairs_of cs)" using R by (intro pairs_of_total) auto
  moreover have "((i, j), s) \<in> offer U kind v (a, b)" "((i, j), s) \<in> offer U kind v (b, a)"
    using R ab assms(2) by (auto simp: offer_def assms(1) Let_def ordered_def)
  ultimately show ?L by blast
qed

lemma score_by_kind:
  "fst (scoreBucketPair U ''email'' v a b) = 1000" "fst (scoreBucketPair U ''phone'' v a b) = 800"
  by (simp_all add: scoreBucketPair_def)

lemma cut_kind:
  "cut_at CHR '':'' (''email:'' @ v) = (''email'', Some v)" "cut_at CHR '':'' (''phone:'' @ v) = (''phone'', Some v)"
  by simp_all

lemma key_kind:
  assumes "has_key U d k c"
  obtains v where "k = ''email:'' @ v" | v where "k = ''phone:'' @ v"
  using assms by (auto simp: has_key_def email_key_def phone_key_def Let_def split: if_splits)

lemma card_sharers:
  assumes "distinct cs" "set cs = candidate_of ` S"
  shows "length cs = card S"
proof -
  have "inj_on candidate_of S" by (auto simp: inj_on_def candidate_of_def)
  then show ?thesis using assms by (metis card_image distinct_card)
qed

text \<open>All offers of the buckets, as a relation on the tables.\<close>

lemma offers_duplicates:
  assumes keys: "\<And>k. k \<in> fst ` set bs \<longleftrightarrow> sharers U d b k \<noteq> {}"
    and bs: "\<And>k. distinct (bucket bs k)" "\<And>k. set (bucket bs k) = candidate_of ` sharers U d b k"
  shows "((i, j), s) \<in> \<Union> (bucket_offers U bs ` fst ` set bs) \<longleftrightarrow>
     i < j \<and> (s = 1000 \<and> shares U d b ''email'' i j \<or> s = 800 \<and> shares U d b ''phone'' i j)"
    (is "?L \<longleftrightarrow> ?R")
proof -
  have ids: "(c_id \<circ> cand_contact) ` set (bucket bs k) = c_id ` sharers U d b k" for k
    unfolding bs(2) image_image by (rule image_cong) (simp_all add: candidate_of_def)
  have email: "((i, j), s) \<in> bucket_offers U bs (''email:'' @ v) \<longleftrightarrow> card (sharers U d b (''email:'' @ v)) \<le> maxBucketSize
      \<and> s = 1000 \<and> i < j \<and> {i, j} \<subseteq> c_id ` sharers U d b (''email:'' @ v)" for v
    unfolding bucket_offers_def cut_kind Let_def prod.case option.case card_sharers [OF bs]
    using pair_offers [OF score_by_kind(1), of i j s U v] by (simp add: duplicateScoreThreshold_def ids [unfolded comp_def] not_less)
  have phone: "((i, j), s) \<in> bucket_offers U bs (''phone:'' @ v) \<longleftrightarrow> card (sharers U d b (''phone:'' @ v)) \<le> maxBucketSize
      \<and> s = 800 \<and> i < j \<and> {i, j} \<subseteq> c_id ` sharers U d b (''phone:'' @ v)" for v
    unfolding bucket_offers_def cut_kind Let_def prod.case option.case card_sharers [OF bs]
    using pair_offers [OF score_by_kind(2), of i j s U v] by (simp add: duplicateScoreThreshold_def ids [unfolded comp_def] not_less)
  show ?thesis
  proof
    assume ?L
    then obtain k where k: "k \<in> fst ` set bs" "((i, j), s) \<in> bucket_offers U bs k" by blast
    then obtain c where "has_key U d k c" using keys by (auto simp: sharers_def)
    then show ?R
      by (rule key_kind) (use k(2) email phone in \<open>auto simp: shares_def\<close>)
  next
    assume ?R
    then obtain v where v: "((i, j), s) \<in> bucket_offers U bs (''email:'' @ v) \<or> ((i, j), s) \<in> bucket_offers U bs (''phone:'' @ v)"
      unfolding email phone shares_def by auto
    moreover have "sharers U d b k \<noteq> {}" if "{i, j} \<subseteq> c_id ` sharers U d b k" for k using that by auto
    ultimately have "\<exists>k. ((i, j), s) \<in> bucket_offers U bs k \<and> sharers U d b k \<noteq> {}"
      unfolding email phone using email [of v] phone [of v] by metis
    then show ?L using keys by blast
  qed
qed


section \<open>Recording\<close>

definition unrecorded :: "db \<Rightarrow> string \<Rightarrow> pairs \<Rightarrow> (string \<times> string) list \<Rightarrow> potential_duplicate list" where
  "unrecorded d u best pks =
     map (\<lambda>pk. the (map_of best pk)) (filter (\<lambda>pk. (u, fst pk, snd pk) \<notin> pair_key ` set (t_duplicates d)) pks)"

definition recording :: "db \<Rightarrow> string \<Rightarrow> pairs \<Rightarrow> (string \<times> string) list \<Rightarrow> nat \<Rightarrow> world \<Rightarrow> bool" where
  "recording d u best pks found w \<longleftrightarrow> quiet w
     \<and> w_db w = d\<lparr>t_duplicates := t_duplicates d @ unrecorded d u best pks\<rparr> \<and> found = length (unrecorded d u best pks)"

lemma record_pairs:
  assumes best: "visiting d u n H best w0" and u: "u \<in> u_id ` set (t_users d)"
    and refs: "\<And>i j s. ((i, j), s) \<in> H \<Longrightarrow> i \<in> c_id ` set (t_contacts d) \<and> j \<in> c_id ` set (t_contacts d)"
    and pks: "set pks \<subseteq> fst ` set best" "distinct pks"
  shows "triple (recording d u best [] 0) (forEach (record_pair best) pks 0) (\<lambda>found. recording d u best pks found) E"
proof (rule triple_forEach [where I = "recording d u best"])
  fix ys x zs found assume split: "pks = ys @ x # zs"
  have "\<exists>p. map_of best pk = Some p" if "pk \<in> set pks" for pk
    using that pks(1) by (metis map_of_eq_None_iff not_None_eq subsetD)
  then have row: "map_of best pk = Some (the (map_of best pk))" if "pk \<in> set pks" for pk using that by fastforce
  have np: "new_pair u pk (the (map_of best pk))" "(pk, pd_score (the (map_of best pk))) \<in> H" if "pk \<in> set pks" for pk
    using row [OF that] best unfolding visiting_def tracks_def by blast+
  have key: "pair_key (the (map_of best pk)) = (u, fst pk, snd pk)" if "pk \<in> set pks" for pk
    using np(1) [OF that] by (cases pk) (simp add: new_pair_def)
  let ?p = "the (map_of best x)"
  have x: "x \<in> set pks" "x \<notin> set ys" using split pks(2) by auto
  have fresh: "pd_id ?p \<notin> pd_id ` set (t_duplicates d)"
    using best row [OF x(1)] unfolding visiting_def fresh_ids_def by metis
  have other: "pd_id ?p \<notin> pd_id ` set (unrecorded d u best ys)"
  proof
    assume "pd_id ?p \<in> pd_id ` set (unrecorded d u best ys)"
    then obtain y where y: "y \<in> set ys" "pd_id (the (map_of best y)) = pd_id ?p" by (auto simp: unrecorded_def)
    then have "y = x" using best row [OF x(1)] row [of y] split unfolding visiting_def fresh_ids_def by (metis in_set_conv_decomp append_Cons append_assoc)
    then show False using y x by simp
  qed
  have keys: "pair_key ` set (unrecorded d u best ys) \<subseteq> (\<lambda>pk. (u, fst pk, snd pk)) ` set ys"
    using key split by (force simp: unrecorded_def)
  have in_old: "pair_key ?p \<in> pair_key ` set (t_duplicates d @ unrecorded d u best ys) \<longleftrightarrow> (u, fst x, snd x) \<in> pair_key ` set (t_duplicates d)"
  proof -
    have "(u, fst x, snd x) \<notin> pair_key ` set (unrecorded d u best ys)"
      using keys x(2) by (auto simp: prod_eq_iff)
    then show ?thesis using key [OF x(1)] by (auto simp: image_Un)
  qed
  have ok: "pair_refs d ?p"
    using np [OF x(1)] refs [of "fst x" "snd x"] u by (cases x) (auto simp: new_pair_def pair_refs_def)
  have "triple (recording d u best ys found) (attempt (CreateIfAbsent ?p))
      (\<lambda>r w. \<exists>created. r = Inr created \<and> recording d u best (ys @ [x]) (if created then found + 1 else found) w) E"
    unfolding CreateIfAbsent_def
    by (intro triple_attempt triple_stmt)
      (use in_old ok fresh other in \<open>auto simp: recording_def quiet_def unrecorded_def pair_refs_def\<close>)
  moreover have "triple (recording d u best ys found) ctx_err (\<lambda>_. recording d u best ys found) E"
    by (rule triple_ctx_err) (simp add: recording_def)
  ultimately show "triple (recording d u best ys found) (record_pair best x found) (recording d u best (ys @ [x])) E"
    unfolding record_pair_def
    by (intro triple_andThen) (auto split: sum.splits intro!: triple_ret | fastforce intro!: triple_ret split: sum.split)+
qed


section \<open>Detection\<close>

text \<open>The reads of a scan, and the sharers they bring together.\<close>

lemma scan_buckets:
  fixes U d b
  assumes ok: "tables_ok d" and nul: "\<And>c. c \<in> set (t_contacts d) \<Longrightarrow> CHR 0x00 \<notin> set (c_id c)"
  defines "cs \<equiv> sort_key c_id (filter (in_book b) (t_contacts d))"
  defines "mine \<equiv> \<lambda>cid. \<exists>c \<in> set (t_contacts d). c_id c = cid \<and> in_book b c"
  defines "es \<equiv> map (\<lambda>e. (ch_contact_id e, ce_value e)) (filter (\<lambda>e. mine (ch_contact_id e)) (cr_emails (t_children d)))"
  defines "ps \<equiv> map (\<lambda>p. (ch_contact_id p, cp_value p)) (filter (\<lambda>p. mine (ch_contact_id p)) (cr_phones (t_children d)))"
  defines "bs \<equiv> buckets_of U cs es ps"
  shows "distinct (map fst bs)" "k \<in> fst ` set bs \<longleftrightarrow> sharers U d b k \<noteq> {}" "distinct (bucket bs k)"
    "set (bucket bs k) = candidate_of ` sharers U d b k"
proof -
  have cs: "set cs = {c \<in> set (t_contacts d). in_book b c}" by (auto simp: cs_def)
  have ids: "distinct (map c_id cs)"
    using ok by (auto simp: cs_def tables_ok_def distinct_map inj_on_def distinct_filter)
  have nul': "CHR 0x00 \<notin> set (c_id c)" if "c \<in> set cs" for c using that nul cs by auto
  have K: "{c \<in> set cs. email_key U (c_email c) = Some k \<or> phone_key (c_phone c) = Some k
     \<or> (\<exists>v. (c_id c, v) \<in> set es \<and> email_key U v = Some k) \<or> (\<exists>v. (c_id c, v) \<in> set ps \<and> phone_key v = Some k)}
     = sharers U d b k"
  proof -
    have "(c_id c, v) \<in> set es \<longleftrightarrow> v \<in> ce_value ` set (filter (\<lambda>e. ch_contact_id e = c_id c) (cr_emails (t_children d)))"
      "(c_id c, v) \<in> set ps \<longleftrightarrow> v \<in> cp_value ` set (filter (\<lambda>e. ch_contact_id e = c_id c) (cr_phones (t_children d)))"
      if "c \<in> set cs" for c v
      using that unfolding cs by (force simp: es_def ps_def mine_def)+
    then show ?thesis unfolding cs by (auto simp: sharers_def has_key_def email_values_def phone_values_def)
  qed
  note bo = buckets_of_correct [OF ids nul', where U = U and es = es and ps = ps, folded bs_def]
  show "distinct (map fst bs)" by (rule bo(1))
  show "distinct (bucket bs k)" by (rule bo(3))
  show "set (bucket bs k) = candidate_of ` sharers U d b k" using bo(4) [of k] unfolding K .
  show "k \<in> fst ` set bs \<longleftrightarrow> sharers U d b k \<noteq> {}" using bo(2) [of k] unfolding K [symmetric] by auto
qed

text \<open>What a finished scan leaves.\<close>

definition scanned :: "unicode \<Rightarrow> db \<Rightarrow> string \<Rightarrow> string \<Rightarrow> detection_result \<Rightarrow> db \<Rightarrow> bool" where
  "scanned U d u b r d' \<longleftrightarrow>
     (\<exists>new. d' = d\<lparr>t_duplicates := t_duplicates d @ new\<rparr> \<and> distinct (map pair_key new)
        \<and> pair_key ` set new = {(u, i, j) | i j. duplicates U d b i j} - pair_key ` set (t_duplicates d)
        \<and> (\<forall>p \<in> set new. pd_status p = ''pending''
             \<and> pd_score p = (if shares U d b ''email'' (pd_contact_a p) (pd_contact_b p) then 1000 else 800))
        \<and> dr_found r = length new \<and> dr_checked r = length (filter (in_book b) (t_contacts d)))"

definition fresh_world :: "world \<Rightarrow> db \<Rightarrow> bool" where
  "fresh_world w d \<longleftrightarrow> quiet w \<and> w_db w = d \<and> inj (w_uuid w)
     \<and> (\<forall>n \<ge> w_minted w. w_uuid w n \<notin> pd_id ` set (t_duplicates d))"

lemma recorded_rows:
  assumes vis: "visiting d u n H best w"
    and H: "\<And>i j s. ((i, j), s) \<in> H \<longleftrightarrow> i < j \<and> (s = 1000 \<and> shares U d b ''email'' i j \<or> s = 800 \<and> shares U d b ''phone'' i j)"
    and pks: "set pks = fst ` set best" "distinct pks"
  shows "distinct (map pair_key (unrecorded d u best pks))"
    "pair_key ` set (unrecorded d u best pks) = {(u, i, j) | i j. duplicates U d b i j} - pair_key ` set (t_duplicates d)"
    "\<forall>p \<in> set (unrecorded d u best pks). pd_status p = ''pending''
       \<and> pd_score p = (if shares U d b ''email'' (pd_contact_a p) (pd_contact_b p) then 1000 else 800)"
proof -
  have tr: "tracks u H best" using vis by (simp add: visiting_def)
  have dom: "pk \<in> set pks \<longleftrightarrow> (\<exists>s. (pk, s) \<in> H)" for pk
    unfolding pks(1) using tr unfolding tracks_def by (metis map_of_eq_None_iff not_None_eq option.distinct(1))
  have row: "map_of best pk = Some (the (map_of best pk))" if "pk \<in> set pks" for pk
    using that pks(1) by (metis map_of_eq_None_iff option.collapse)
  have key: "pair_key (the (map_of best pk)) = (u, fst pk, snd pk)" "pd_status (the (map_of best pk)) = ''pending''"
    "(pd_contact_a (the (map_of best pk)), pd_contact_b (the (map_of best pk))) = pk"
    "(pk, pd_score (the (map_of best pk))) \<in> H" "(pk, s) \<in> H \<Longrightarrow> s \<le> pd_score (the (map_of best pk))"
    if "pk \<in> set pks" for pk s
    using row [OF that] tr unfolding tracks_def new_pair_def by (metis fst_conv snd_conv option.inject)+
  have keys: "map pair_key (unrecorded d u best pks)
      = map (\<lambda>pk. (u, fst pk, snd pk)) (filter (\<lambda>pk. (u, fst pk, snd pk) \<notin> pair_key ` set (t_duplicates d)) pks)"
    using key(1) by (simp add: unrecorded_def)
  show "distinct (map pair_key (unrecorded d u best pks))"
    unfolding keys using pks(2) by (auto simp: distinct_map inj_on_def prod_eq_iff)
  show "pair_key ` set (unrecorded d u best pks) = {(u, i, j) | i j. duplicates U d b i j} - pair_key ` set (t_duplicates d)"
  proof -
    have "(i, j) \<in> set pks \<longleftrightarrow> duplicates U d b i j" for i j
      unfolding dom duplicates_def by (auto simp: H)
    then show ?thesis unfolding set_map [symmetric] keys by (force simp: image_iff)
  qed
  show "\<forall>p \<in> set (unrecorded d u best pks). pd_status p = ''pending''
       \<and> pd_score p = (if shares U d b ''email'' (pd_contact_a p) (pd_contact_b p) then 1000 else 800)"
  proof
    fix p assume "p \<in> set (unrecorded d u best pks)"
    then obtain pk where pk: "pk \<in> set pks" "p = the (map_of best pk)" by (auto simp: unrecorded_def)
    obtain i j where ij: "pk = (i, j)" by fastforce
    note k = key [OF pk(1), folded pk(2), unfolded ij]
    have "pd_score p = 1000" if "shares U d b ''email'' i j"
      using k(4) k(5) [of 1000] that unfolding H by auto
    then show "pd_status p = ''pending''
       \<and> pd_score p = (if shares U d b ''email'' (pd_contact_a p) (pd_contact_b p) then 1000 else 800)"
      using k(2,3,4) unfolding H by auto
  qed
qed


lemma scan_exact:
  assumes "tables_ok d" "\<And>c. c \<in> set (t_contacts d) \<Longrightarrow> CHR 0x00 \<notin> set (c_id c)"
    and ab: "select_one (\<lambda>b. ab_user_id b = u) (t_books d) = Some ab"
    and u: "u \<in> u_id ` set (t_users d)" and mo: "permutes mo"
  shows "triple (\<lambda>w. fresh_world w d) (scan U mo u) (\<lambda>r w. scanned U d u (ab_id ab) r (w_db w)) (\<lambda>_ _. False)"
proof -
  let ?b = "ab_id ab"
  let ?cs = "sort_key c_id (filter (in_book ?b) (t_contacts d))"
  let ?mine = "\<lambda>cid. \<exists>c \<in> set (t_contacts d). c_id c = cid \<and> in_book ?b c"
  let ?es = "map (\<lambda>e. (ch_contact_id e, ce_value e)) (filter (\<lambda>e. ?mine (ch_contact_id e)) (cr_emails (t_children d)))"
  let ?ps = "map (\<lambda>p. (ch_contact_id p, cp_value p)) (filter (\<lambda>p. ?mine (ch_contact_id p)) (cr_phones (t_children d)))"
  define bs where "bs = buckets_of U ?cs ?es ?ps"
  note bk = scan_buckets [OF assms(1,2), where U = U and b = ?b, folded bs_def]
  define H where "H = \<Union> (bucket_offers U bs ` fst ` set bs)"
  have H: "((i, j), s) \<in> H \<longleftrightarrow> i < j \<and> (s = 1000 \<and> shares U d ?b ''email'' i j \<or> s = 800 \<and> shares U d ?b ''phone'' i j)" for i j s
    unfolding H_def using bk by (intro offers_duplicates) simp_all
  have refs: "i \<in> c_id ` set (t_contacts d) \<and> j \<in> c_id ` set (t_contacts d)" if "((i, j), s) \<in> H" for i j s
    using that unfolding H by (auto simp: shares_def sharers_def)
  have keys: "set (mo_keys mo (map fst bs)) = fst ` set bs" using mo by (simp add: permutes_def)
  have "\<exists>r w'. scan U mo u w = (Inr r, w') \<and> scanned U d u ?b r (w_db w')" if fw: "fresh_world w d" for w
  proof -
    have w: "w_faults w = []" "w_db w = d" using fw by (simp_all add: fresh_world_def quiet_def)
    have "visiting d u (w_minted w) {} [] w" using fw by (auto simp: visiting_def fresh_world_def tracks_def fresh_ids_def)
    with visit_buckets_tracks [of "mo_keys mo (map fst bs)" bs d u "w_minted w" U "w_now w" "\<lambda>_ _. False"]
    obtain best w1 where 1: "forEach (visit_bucket U u (w_now w) bs) (mo_keys mo (map fst bs)) [] w = (Inr best, w1)"
      and vis: "visiting d u (w_minted w) H best w1"
      by (auto simp: keys H_def elim!: triple_total)
    have pks: "set (mo_pairs mo (map fst best)) = fst ` set best" "distinct (mo_pairs mo (map fst best))"
      using vis mo by (auto simp: visiting_def tracks_def permutes_def)
    have "recording d u best [] 0 w1" using vis by (simp add: visiting_def recording_def unrecorded_def)
    moreover have "triple (recording d u best [] 0) (forEach (record_pair best) (mo_pairs mo (map fst best)) 0)
        (\<lambda>found. recording d u best (mo_pairs mo (map fst best)) found) (\<lambda>_ _. False)"
      using refs pks by (intro record_pairs [OF vis u]) blast+
    ultimately obtain found w2 where 2: "forEach (record_pair best) (mo_pairs mo (map fst best)) 0 w1 = (Inr found, w2)"
      and rec: "recording d u best (mo_pairs mo (map fst best)) found w2"
      by (auto elim!: triple_total)
    have "scan U mo u w = (Inr \<lparr>dr_found = found, dr_checked = length ?cs\<rparr>, w2)"
      using w 1 2 ab by (simp add: scan_def andThen_def GetOrCreateByUserID_def GetByUserID_def ListForDedup_def
        ListDedupValues_def prog_simps Let_def bs_def [symmetric])
    moreover have "scanned U d u ?b \<lparr>dr_found = found, dr_checked = length ?cs\<rparr> (w_db w2)"
      unfolding scanned_def using rec recorded_rows [OF vis H pks]
      by (intro exI [of _ "unrecorded d u best (mo_pairs mo (map fst best))"]) (simp add: recording_def)
    ultimately show ?thesis by blast
  qed
  then show ?thesis by (intro tripleI) fastforce+
qed

section \<open>Failures\<close>

text \<open>The rows of \<open>best\<close> are normalised, whatever happens on the way.\<close>

definition normalised :: "pairs \<Rightarrow> bool" where
  "normalised best \<longleftrightarrow> (\<forall>pk p. map_of best pk = Some p \<longrightarrow> pd_contact_a p < pd_contact_b p)"

lemma visit_pair_normalised:
  "triple (\<lambda>w. w_db w = d \<and> normalised best) (visit_pair U u t kind v ab best)
     (\<lambda>best' w. w_db w = d \<and> normalised best') (\<lambda>_ w. w_db w = d)"
proof -
  obtain ca cb where ab: "ab = (ca, cb)" by fastforce
  let ?a = "c_id (cand_contact ca)" and ?b = "c_id (cand_contact cb)"
  obtain aID bID where pk: "ordered ?a ?b = (aID, bID)" by fastforce
  have lt: "aID < bID" if "?a \<noteq> ?b" using that pk ordered_eq [OF that] by blast
  show ?thesis
    unfolding visit_pair_def ab Let_def prod.case split_beta pk fst_conv snd_conv
    using lt by (auto intro!: triple_ret triple_mint_ret simp: normalised_def update_conv' split: if_splits)
qed

lemma visit_bucket_normalised:
  "triple (\<lambda>w. w_db w = d \<and> normalised best) (visit_bucket U u t bs key best)
     (\<lambda>best' w. w_db w = d \<and> normalised best') (\<lambda>_ w. w_db w = d)"
  unfolding visit_bucket_def
proof (rule triple_andThen [where R = "\<lambda>_ w. w_db w = d \<and> normalised best"])
  show "triple (\<lambda>w. w_db w = d \<and> normalised best) ctx_err (\<lambda>_ w. w_db w = d \<and> normalised best) (\<lambda>_ w. w_db w = d)"
    using readonlyD [OF readonly_ctx_err] by (intro tripleI) blast+
next
  fix x :: unit
  have "triple (\<lambda>w. w_db w = d \<and> normalised best) (forEach (visit_pair U u t kind v) xs best)
      (\<lambda>best' w. w_db w = d \<and> normalised best') (\<lambda>_ w. w_db w = d)" for kind v xs
    by (rule triple_forEach_inv [where I = "\<lambda>best w. w_db w = d \<and> normalised best"]) (rule visit_pair_normalised)
  then show "triple (\<lambda>w. w_db w = d \<and> normalised best) (let bucket = the (map_of bs key);
       (kind, rest) = cut_at CHR '':'' key; v = (case rest of None \<Rightarrow> [] | Some r \<Rightarrow> r)
     in if length bucket < 2 \<or> length bucket > maxBucketSize then ret best
        else forEach (visit_pair U u t kind v) (pairs_of bucket) best)
     (\<lambda>best' w. w_db w = d \<and> normalised best') (\<lambda>_ w. w_db w = d)"
    unfolding Let_def by (auto split: prod.split intro!: triple_ret)
qed

lemma pair_refs_duplicates [simp]: "pair_refs (d\<lparr>t_duplicates := x\<rparr>) p = pair_refs d p"
  by (simp add: pair_refs_def)

lemma preserves_CreateIfAbsent: "pd_contact_a p < pd_contact_b p \<Longrightarrow> preserves pairs_ok (CreateIfAbsent p)"
  unfolding CreateIfAbsent_def
  by (rule preserves_stmt) (auto simp: pairs_ok_def split: if_splits)

lemma preserves_CreateBook: "preserves pairs_ok (CreateBook ab)"
  unfolding CreateBook_def
  by (rule preserves_stmt) (auto simp: pairs_ok_def pair_refs_def split: if_splits sum.splits)

lemma preserves_GetOrCreate: "preserves pairs_ok (GetOrCreateByUserID u)"
  unfolding GetOrCreateByUserID_def GetByUserID_def Let_def
  by (intro hoare preserves_CreateBook)

lemma preserves_record_pair:
  assumes "normalised best" "pk \<in> fst ` set best"
  shows "preserves pairs_ok (record_pair best pk found)"
proof -
  obtain p where "map_of best pk = Some p" using assms(2) by (metis map_of_eq_None_iff not_None_eq)
  then have "preserves pairs_ok (CreateIfAbsent (the (map_of best pk)))"
    using assms(1) by (intro preserves_CreateIfAbsent) (metis normalised_def option.sel)
  then show ?thesis unfolding record_pair_def by (intro hoare)
qed

lemma preserves_scan:
  assumes mo: "permutes mo"
  shows "preserves pairs_ok (scan U mo u)"
proof -
  let ?I = "\<lambda>w. pairs_ok (w_db w)"
  have rec: "triple (\<lambda>w. ?I w \<and> normalised best) (andThen (forEach (record_pair best) (mo_pairs mo (map fst best)) 0)
      (\<lambda>found. ret \<lparr>dr_found = found, dr_checked = n\<rparr>)) (\<lambda>_. ?I) (\<lambda>_. ?I)" for best n
  proof (cases "normalised best")
    case True
    have "preserves pairs_ok (forEach (record_pair best) (mo_pairs mo (map fst best)) 0)"
      using mo True by (intro preserves_forEach_in preserves_record_pair) (auto simp: permutes_def)
    then have "preserves pairs_ok (andThen (forEach (record_pair best) (mo_pairs mo (map fst best)) 0)
      (\<lambda>found. ret \<lparr>dr_found = found, dr_checked = n\<rparr>))" by (intro preserves_andThen preserves_basic)
    then show ?thesis unfolding preserves_triple by (rule triple_weaken) simp
  qed (simp add: triple_def)
  have visit: "triple ?I (forEach (visit_bucket U u t bs) keys []) (\<lambda>best w. ?I w \<and> normalised best) (\<lambda>_. ?I)" for t bs keys
  proof (rule tripleI)
    have *: "triple (\<lambda>w. w_db w = d \<and> normalised []) (forEach (visit_bucket U u t bs) keys [])
        (\<lambda>best w. w_db w = d \<and> normalised best) (\<lambda>_ w. w_db w = d)" for d
      by (rule triple_forEach_inv [where I = "\<lambda>best w. w_db w = d \<and> normalised best"]) (rule visit_bucket_normalised)
    fix w w'
    show "?I w' \<and> normalised best" if "?I w" "forEach (visit_bucket U u t bs) keys [] w = (Inr best, w')" for best
      using triple_Inr [OF * that(2), of "w_db w"] that(1) by (simp add: normalised_def)
    show "?I w'" if "?I w" "forEach (visit_bucket U u t bs) keys [] w = (Inl e, w')" for e
      using triple_Inl [OF * that(2), of "w_db w"] that(1) by (simp add: normalised_def)
  qed
  have tail: "preserves pairs_ok (andThen (forEach (visit_bucket U u t bs) keys []) (\<lambda>best.
      andThen (forEach (record_pair best) (mo_pairs mo (map fst best)) 0) (\<lambda>found.
        ret \<lparr>dr_found = found, dr_checked = n\<rparr>)))" for t bs keys n
    unfolding preserves_triple by (rule triple_andThen [OF visit rec])
  show ?thesis
    unfolding scan_def Let_def ListForDedup_def ListDedupValues_def
    by (intro preserves_andThen preserves_cases preserves_basic preserves_GetOrCreate tail)
qed


section \<open>Slots\<close>

text \<open>Scans of several users interleave; the detector only keeps the slots. A scan starts when
  \<open>begin\<close> grants its slot and ends with the deferred \<open>end\<close>.\<close>

inductive slot_step :: "string set \<times> string list \<Rightarrow> string set \<times> string list \<Rightarrow> bool" where
  start: "begin_scan running u = Some running' \<Longrightarrow> slot_step (running, active) (running', u # active)"
| finish: "u \<in> set active \<Longrightarrow> slot_step (running, active) (end_scan running u, remove1 u active)"

inductive_cases slot_stepE: "slot_step (running, active) st"

lemma slots_invariant:
  assumes "slot_step\<^sup>*\<^sup>* ({}, []) (running, active)"
  shows "distinct active \<and> set active = running"
proof -
  have "distinct (snd st) \<and> set (snd st) = fst st" if "slot_step\<^sup>*\<^sup>* ({}, []) st" for st
    using that
  proof (induction rule: rtranclp_induct)
    case (step st st')
    then show ?case
      by (cases st) (auto elim!: slot_stepE simp: begin_scan_def end_scan_def split: if_splits)
  qed simp
  from this [OF assms] show ?thesis by simp
qed

section \<open>The former scorer\<close>

lemma runes_ascii: "ascii s \<Longrightarrow> runes s = map of_char s"
  by (induction s) auto

lemma string_of_ascii_runes: "\<forall>r \<in> set rs. r < 128 \<Longrightarrow> string_of_runes rs = map char_of rs"
  by (induction rs) (auto simp: string_of_runes_def encode_rune_def)

lemma lower_fold_ascii: "r < 128 \<Longrightarrow> fold_rune U r = lower_rune U r \<and> lower_rune U r < 128"
  by (simp add: fold_rune_def lower_rune_def)

lemma equal_fold_ascii:
  assumes "ascii s" "ascii t"
  shows "equal_fold U s t \<longleftrightarrow> to_lower U s = to_lower U t"
proof -
  have sml: "\<forall>r \<in> set (map (lower_rune U) (runes s)). r < 128" if "ascii s" for s
    using that lower_fold_ascii by (auto simp: runes_ascii ascii_def)
  have eq: "map (fold_rune U) (runes s) = map (lower_rune U) (runes s)" if "ascii s" for s
    using that lower_fold_ascii by (auto simp: runes_ascii ascii_def)
  have inj: "map char_of rs = (map char_of rs' :: string) \<longleftrightarrow> rs = rs'"
    if "\<forall>r \<in> set rs. r < 128" "\<forall>r \<in> set rs'. r < (128 :: nat)" for rs rs'
  proof
    assume h: "map char_of rs = (map char_of rs' :: string)"
    have "map of_char (map char_of rs :: string) = rs" if "\<forall>r \<in> set rs. r < 128" for rs :: "nat list"
      using that by (induction rs) auto
    with h that show "rs = rs'" by metis
  qed simp
  show ?thesis
    unfolding equal_fold_def eq [OF assms(1)] eq [OF assms(2)] to_lower_def
      string_of_ascii_runes [OF sml [OF assms(1)]] string_of_ascii_runes [OF sml [OF assms(2)]]
    by (rule inj [symmetric]) (rule sml assms)+
qed

lemma to_lower_Nil_iff: "ascii s \<Longrightarrow> to_lower U s = [] \<longleftrightarrow> s = []"
  by (cases s) (auto simp: to_lower_def string_of_runes_def encode_rune_def lower_rune_def)

text \<open>A value as the write paths leave it: ASCII with no white space around it.\<close>

definition plain_value :: "string \<Rightarrow> bool" where
  "plain_value v \<longleftrightarrow> ascii v \<and> trim_space v = v"

lemma email_key_plain:
  "plain_value a \<Longrightarrow> email_key U a = (if a = [] then None else Some (''email:'' @ to_lower U a))"
  by (simp add: email_key_def plain_value_def to_lower_Nil_iff Let_def)

section \<open>Properties\<close>

text \<open>C25: A scan that no statement fails in returns, frees the slot of its user, and records
  exactly the duplicates: the rows it adds are the pairs (smaller id first, each once) of
  contacts of the user's book that share an email address or a phone number which at most
  500 contacts have, in their own column or in a child row, and that were not recorded before.
  A pair scores 1.0 when they share an address and 0.8 otherwise. This holds for every order
  in which Go walks its maps; \<open>Found\<close> counts the new rows.\<close>

theorem Detect_records_duplicates:
  assumes "tables_ok d" "\<forall>c \<in> set (t_contacts d). CHR 0x00 \<notin> set (c_id c)"
    "select_one (\<lambda>b. ab_user_id b = u) (t_books d) = Some ab" "u \<in> u_id ` set (t_users d)"
    "permutes mo" "fresh_world w d" "u \<notin> running"
  shows "\<exists>r w'. Detect U mo u running w = (Inr r, running, w') \<and> scanned U d u (ab_id ab) r (w_db w')"
proof -
  have "triple (\<lambda>w. fresh_world w d) (scan U mo u) (\<lambda>r w. scanned U d u (ab_id ab) r (w_db w)) (\<lambda>_ _. False)"
    using assms by (intro scan_exact) auto
  then obtain r w' where "scan U mo u w = (Inr r, w')" "scanned U d u (ab_id ab) r (w_db w')"
    using assms(6) by (rule triple_total)
  then show ?thesis
    using assms(7) by (simp add: Detect_def begin_scan_def end_scan_def wrapErr_def)
qed

definition twins_db :: db where
  "twins_db = small_db\<lparr>t_contacts := [ada\<lparr>c_email := ''A@x''\<rparr>, ada\<lparr>c_id := ''i2'', c_uid := ''a2'', c_email := ''a@X''\<rparr>]\<rparr>"

definition source_order :: map_order where
  "source_order = \<lparr>mo_keys = (\<lambda>ks. ks), mo_pairs = (\<lambda>ps. ps)\<rparr>"

lemma twins_world:
  "fresh_world (small_world twins_db []) twins_db" "tables_ok twins_db" "pairs_ok twins_db" "permutes source_order"
  by (auto simp: fresh_world_def quiet_def small_world_def twins_db_def small_db_def tables_ok_def has_book_def
      ada_def blank_contact_def pairs_ok_def permutes_def source_order_def replicate_eq_replicate intro!: injI)

theorem Detect_records_duplicates_witness:
  "\<exists>r w'. Detect unicode_ascii source_order ''u'' {} (small_world twins_db []) = (Inr r, {}, w')
     \<and> scanned unicode_ascii twins_db ''u'' ''b'' r (w_db w')"
proof -
  have "\<forall>c \<in> set (t_contacts twins_db). CHR 0x00 \<notin> set (c_id c)" "''u'' \<in> u_id ` set (t_users twins_db)"
    "select_one (\<lambda>b. ab_user_id b = ''u'') (t_books twins_db) = Some (hd (t_books twins_db))"
    "ab_id (hd (t_books twins_db)) = ''b''"
    by (simp_all add: twins_db_def small_db_def ada_def blank_contact_def select_one_def)
  with Detect_records_duplicates [of twins_db "''u''" "hd (t_books twins_db)" source_order "small_world twins_db []" "{}" unicode_ascii]
    twins_world show ?thesis by simp
qed



text \<open>However the scans of several users start and finish, at most one scan of a user is
  active at any moment, and a user without an active scan is always granted the next one: no
  slot leaks.\<close>

theorem one_scan_per_user:
  assumes "slot_step\<^sup>*\<^sup>* ({}, []) (running, active)"
  shows "distinct active \<and> (begin_scan running u = None \<longleftrightarrow> u \<in> set active)"
  using slots_invariant [OF assms] by (auto simp: begin_scan_def)

theorem one_scan_per_user_witness:
  "distinct [''v'', ''u''] \<and> begin_scan {''v'', ''u''} ''u'' = None"
proof -
  have "slot_step ({}, []) ({''u''}, [''u''])" "slot_step ({''u''}, [''u'']) ({''v'', ''u''}, [''v'', ''u''])"
    by (rule slot_step.start, simp add: begin_scan_def)+
  then have "slot_step\<^sup>*\<^sup>* ({}, []) ({''v'', ''u''}, [''v'', ''u''])"
    by (meson converse_rtranclp_into_rtranclp rtranclp.rtrancl_refl)
  from one_scan_per_user [OF this] show ?thesis by simp
qed

text \<open>Bucketing loses nothing against the all-pairs scan it replaced. For contacts whose
  address is plain (ASCII, trimmed), the former scorer \<open>scoreContacts\<close> reaches the threshold
  exactly when the two contacts get a common bucket key from their email and phone columns;
  names never decide.\<close>

theorem scoreContacts_same_buckets:
  assumes "plain_value (c_email a)" "plain_value (c_email b)"
  shows "fst (scoreContacts U a b) \<ge> duplicateScoreThreshold \<longleftrightarrow>
     (email_key U (c_email a) \<noteq> None \<and> email_key U (c_email a) = email_key U (c_email b))
     \<or> (phone_key (c_phone a) \<noteq> None \<and> phone_key (c_phone a) = phone_key (c_phone b))"
proof -
  have "equal_fold U (c_email a) (c_email b) \<longleftrightarrow> to_lower U (c_email a) = to_lower U (c_email b)"
    using assms by (intro equal_fold_ascii) (simp_all add: plain_value_def)
  moreover have "c_email b = [] \<longleftrightarrow> to_lower U (c_email b) = []" "c_email a = [] \<longleftrightarrow> to_lower U (c_email a) = []"
    using assms by (simp_all add: plain_value_def to_lower_Nil_iff)
  moreover have "phone_key p = (if normalizePhone p = [] then None else Some (''phone:'' @ normalizePhone p))" for p
    by (simp add: phone_key_def Let_def)
  ultimately show ?thesis
    unfolding email_key_plain [OF assms(1)] email_key_plain [OF assms(2)]
    by (auto simp: scoreContacts_def Let_def duplicateScoreThreshold_def)
qed

theorem scoreContacts_same_buckets_witness:
  "fst (scoreContacts unicode_ascii (ada\<lparr>c_email := ''A@x''\<rparr>) (ada\<lparr>c_email := ''a@X''\<rparr>)) \<ge> duplicateScoreThreshold"
proof -
  have plain: "plain_value ''A@x''" "plain_value ''a@X''" by (simp_all add: plain_value_def go_simps)
  have "email_key unicode_ascii ''A@x'' = email_key unicode_ascii ''a@X''"
    by (simp add: email_key_plain plain) (simp add: to_lower_def string_of_runes_def encode_rune_def lower_rune_def)
  then show ?thesis
    using scoreContacts_same_buckets [of "ada\<lparr>c_email := ''A@x''\<rparr>" "ada\<lparr>c_email := ''a@X''\<rparr>" unicode_ascii] plain
    by (simp add: email_key_plain)
qed


end
