(* ===== verification/SyncStore.thy ===== *)
theory SyncStore
  imports ContactRepository ProgLogic
begin

text \<open>
  What the sync engine remembers: the repositories of \<open>internal/repository/bun_sync.go\<close> (sync
  states), \<open>bun_sync_cursor.go\<close> (cursors), \<open>bun_sync_conflict.go\<close> (conflicts) and
  \<open>bun_sync_run.go\<close> (runs). The engine's view of the cursor repository is the interface
  \<open>CursorStore\<close> of \<open>internal/sync/engine.go\<close>, here the locale \<open>cursor_store\<close>.
\<close>

section \<open>Definitions\<close>

definition has_user :: "db \<Rightarrow> string \<Rightarrow> bool" where
  "has_user d u \<longleftrightarrow> u \<in> u_id ` set (t_users d)"

subsection \<open>Sync states\<close>

definition CreateState :: "sync_state \<Rightarrow> (db_error, unit) prog" where
  "CreateState s = stmt (\<lambda>d.
     if \<not> has_user d (ss_user_id s) then Inl ErrConstraint
     else case insert_row ss_id s (t_sync_states d) of
       Inl e \<Rightarrow> Inl e | Inr rows \<Rightarrow> Inr ((), d\<lparr>t_sync_states := rows\<rparr>))"

definition of_pipeline :: "string \<Rightarrow> string \<Rightarrow> sync_state \<Rightarrow> bool" where
  "of_pipeline u p s \<longleftrightarrow> ss_user_id s = u \<and> ss_provider_type s = p"

definition GetByRemoteID :: "string \<Rightarrow> string \<Rightarrow> string \<Rightarrow> (db_error, sync_state option) prog" where
  "GetByRemoteID u p r = query (\<lambda>d. select_one (\<lambda>s. of_pipeline u p s \<and> ss_remote_id s = r) (t_sync_states d))"

definition GetByLocalID :: "string \<Rightarrow> string \<Rightarrow> string \<Rightarrow> (db_error, sync_state option) prog" where
  "GetByLocalID u p l = query (\<lambda>d. select_one (\<lambda>s. of_pipeline u p s \<and> ss_local_id s = l) (t_sync_states d))"

definition ListStates :: "string \<Rightarrow> string \<Rightarrow> (db_error, sync_state list) prog" where
  "ListStates u p = query (\<lambda>d. filter (of_pipeline u p) (t_sync_states d))"

definition UpdateState :: "sync_state \<Rightarrow> (db_error, unit) prog" where
  "UpdateState s = stmt (\<lambda>d.
     if ss_id s \<in> ss_id ` set (t_sync_states d) \<and> \<not> has_user d (ss_user_id s) then Inl ErrConstraint
     else Inr ((), d\<lparr>t_sync_states := upsert_row ss_id s (t_sync_states d)\<rparr>))"

definition DeleteState :: "string \<Rightarrow> (db_error, unit) prog" where
  "DeleteState i = stmt (\<lambda>d. Inr ((), d\<lparr>t_sync_states := filter (\<lambda>s. ss_id s \<noteq> i) (t_sync_states d)\<rparr>))"

definition ListAllByUser :: "string \<Rightarrow> (db_error, sync_state list) prog" where
  "ListAllByUser u = query (\<lambda>d. filter (\<lambda>s. ss_user_id s = u) (t_sync_states d))"

definition DeleteByUser :: "string \<Rightarrow> string \<Rightarrow> (db_error, unit) prog" where
  "DeleteByUser u p = stmt (\<lambda>d. Inr ((), d\<lparr>t_sync_states := filter (\<lambda>s. \<not> of_pipeline u p s) (t_sync_states d)\<rparr>))"

subsection \<open>Cursors\<close>

definition GetCursor :: "string \<Rightarrow> string \<Rightarrow> (db_error, string) prog" where
  "GetCursor u p = query (\<lambda>d.
     case select_one (\<lambda>c. cur_user_id c = u \<and> cur_provider_type c = p) (t_cursors d) of
       None \<Rightarrow> [] | Some c \<Rightarrow> cur_cursor c)"

text \<open>\<open>INSERT ... ON CONFLICT (user_id, provider_type) DO UPDATE\<close>.\<close>

definition upsert_cursor :: "sync_cursor \<Rightarrow> db \<Rightarrow> db_error + unit \<times> db" where
  "upsert_cursor row d =
     (let same = (\<lambda>c. cur_user_id c = cur_user_id row \<and> cur_provider_type c = cur_provider_type row)
      in if list_ex same (t_cursors d)
         then Inr ((), d\<lparr>t_cursors := map (\<lambda>c. if same c
                then c\<lparr>cur_cursor := cur_cursor row, cur_updated_at := cur_updated_at row\<rparr> else c) (t_cursors d)\<rparr>)
         else if \<not> has_user d (cur_user_id row) then Inl ErrConstraint
         else case insert_row cur_id row (t_cursors d) of
            Inl e \<Rightarrow> Inl e
          | Inr rows \<Rightarrow> Inr ((), d\<lparr>t_cursors := rows\<rparr>))"

definition SetCursor :: "string \<Rightarrow> string \<Rightarrow> string \<Rightarrow> (db_error, unit) prog" where
  "SetCursor u p cursor =
     andThen mint (\<lambda>i. andThen now (\<lambda>t.
       stmt (upsert_cursor \<lparr>cur_id = i, cur_user_id = u, cur_provider_type = p, cur_cursor = cursor, cur_updated_at = t\<rparr>)))"

definition DeleteCursor :: "string \<Rightarrow> string \<Rightarrow> (db_error, unit) prog" where
  "DeleteCursor u p = stmt (\<lambda>d. Inr ((), d\<lparr>t_cursors :=
     filter (\<lambda>c. \<not> (cur_user_id c = u \<and> cur_provider_type c = p)) (t_cursors d)\<rparr>))"

subsection \<open>Conflicts\<close>

definition CreateConflict :: "sync_conflict \<Rightarrow> (db_error, unit) prog" where
  "CreateConflict c = stmt (\<lambda>d.
     if \<not> has_user d (sc_user_id c) then Inl ErrConstraint
     else case insert_row sc_id c (t_conflicts d) of
       Inl e \<Rightarrow> Inl e | Inr rows \<Rightarrow> Inr ((), d\<lparr>t_conflicts := rows\<rparr>))"

text \<open>Unlike its siblings this one reports a missing row as an error.\<close>

definition GetConflict :: "string \<Rightarrow> (db_error, sync_conflict) prog" where
  "GetConflict i = stmt (\<lambda>d. case select_one (\<lambda>c. sc_id c = i) (t_conflicts d) of
     None \<Rightarrow> Inl ErrNoRows | Some c \<Rightarrow> Inr (c, d))"

definition ListConflicts ::
  "string \<Rightarrow> string \<Rightarrow> nat \<Rightarrow> nat \<Rightarrow> (db_error, sync_conflict list \<times> nat) prog" where
  "ListConflicts u status limit offset = query (\<lambda>d.
     let rows = filter (\<lambda>c. sc_user_id c = u \<and> (status \<noteq> [] \<longrightarrow> sc_status c = status)) (t_conflicts d)
     in (take limit (drop offset (sort_key (\<lambda>c. - sc_created_at c) rows)), length rows))"

definition ListPendingByProvider :: "string \<Rightarrow> string \<Rightarrow> (db_error, sync_conflict list) prog" where
  "ListPendingByProvider u p = query (\<lambda>d. sort_key (\<lambda>c. - sc_created_at c)
     (filter (\<lambda>c. sc_user_id c = u \<and> sc_provider_type c = p \<and> sc_status c = ''pending'') (t_conflicts d)))"

definition UpdateConflict :: "sync_conflict \<Rightarrow> (db_error, unit) prog" where
  "UpdateConflict c = stmt (\<lambda>d.
     if sc_id c \<in> sc_id ` set (t_conflicts d) \<and> \<not> has_user d (sc_user_id c) then Inl ErrConstraint
     else Inr ((), d\<lparr>t_conflicts := upsert_row sc_id c (t_conflicts d)\<rparr>))"

definition DeleteByProvider :: "string \<Rightarrow> string \<Rightarrow> (db_error, unit) prog" where
  "DeleteByProvider u p = stmt (\<lambda>d. Inr ((), d\<lparr>t_conflicts :=
     filter (\<lambda>c. \<not> (sc_user_id c = u \<and> sc_provider_type c = p)) (t_conflicts d)\<rparr>))"

definition CountPendingConflicts :: "string \<Rightarrow> (db_error, nat) prog" where
  "CountPendingConflicts u = query (\<lambda>d.
     length (filter (\<lambda>c. sc_user_id c = u \<and> sc_status c = ''pending'') (t_conflicts d)))"

subsection \<open>Runs\<close>

definition CreateRun :: "sync_run \<Rightarrow> (db_error, unit) prog" where
  "CreateRun r = stmt (\<lambda>d.
     if \<not> has_user d (sr_user_id r) then Inl ErrConstraint
     else case insert_row sr_id r (t_sync_runs d) of
       Inl e \<Rightarrow> Inl e | Inr rows \<Rightarrow> Inr ((), d\<lparr>t_sync_runs := rows\<rparr>))"

definition UpdateRun :: "sync_run \<Rightarrow> (db_error, unit) prog" where
  "UpdateRun r = stmt (\<lambda>d.
     if sr_id r \<in> sr_id ` set (t_sync_runs d) \<and> \<not> has_user d (sr_user_id r) then Inl ErrConstraint
     else Inr ((), d\<lparr>t_sync_runs := upsert_row sr_id r (t_sync_runs d)\<rparr>))"

abbreviation newest_first :: "sync_run list \<Rightarrow> sync_run list" where
  "newest_first \<equiv> sort_key (\<lambda>r. - sr_started_at r)"

definition ListRuns :: "string \<Rightarrow> nat \<Rightarrow> (db_error, sync_run list) prog" where
  "ListRuns u limit = query (\<lambda>d. take limit (newest_first (filter (\<lambda>r. sr_user_id r = u) (t_sync_runs d))))"

definition ListActiveByUser :: "string \<Rightarrow> (db_error, sync_run list) prog" where
  "ListActiveByUser u = query (\<lambda>d. newest_first
     (filter (\<lambda>r. sr_user_id r = u \<and> sr_status r = ''running'') (t_sync_runs d)))"

definition ListByPipeline :: "string \<Rightarrow> string \<Rightarrow> nat \<Rightarrow> (db_error, sync_run list) prog" where
  "ListByPipeline u p limit = query (\<lambda>d. take limit (newest_first
     (filter (\<lambda>r. sr_user_id r = u \<and> sr_pipeline_id r = p) (t_sync_runs d))))"

definition MarkStaleInterrupted :: "int \<Rightarrow> (db_error, nat) prog" where
  "MarkStaleInterrupted startedBefore =
     andThen now (\<lambda>t. stmt (\<lambda>d.
       let stale = (\<lambda>r. sr_status r = ''running'' \<and> sr_started_at r < startedBefore)
       in Inr (affected stale (t_sync_runs d),
          d\<lparr>t_sync_runs := map (\<lambda>r. if stale r
            then r\<lparr>sr_status := ''interrupted'', sr_finished_at := Some t, sr_error_message := ''server restarted''\<rparr>
            else r) (t_sync_runs d)\<rparr>)))"

definition DeleteOlderThan :: "int \<Rightarrow> (db_error, nat) prog" where
  "DeleteOlderThan cutoff = stmt (\<lambda>d. Inr (affected (\<lambda>r. sr_started_at r < cutoff) (t_sync_runs d),
     d\<lparr>t_sync_runs := filter (\<lambda>r. \<not> sr_started_at r < cutoff) (t_sync_runs d)\<rparr>))"

section \<open>The cursor store\<close>

text \<open>The interface \<open>CursorStore\<close>: one token per user and pipeline, \<open>""\<close> when there is none; a
  call that reports an error has changed no token. \<open>token d u p\<close> is what the tables hold.\<close>

locale cursor_store =
  fixes get :: "string \<Rightarrow> string \<Rightarrow> (db_error, string) prog"
    and set_to :: "string \<Rightarrow> string \<Rightarrow> string \<Rightarrow> (db_error, unit) prog"
    and delete :: "string \<Rightarrow> string \<Rightarrow> (db_error, unit) prog"
    and token :: "db \<Rightarrow> string \<Rightarrow> string \<Rightarrow> string"
  assumes get_ok: "get u p w = (Inr c, w') \<Longrightarrow> c = token (w_db w) u p \<and> w_db w' = w_db w"
    and get_err: "get u p w = (Inl e, w') \<Longrightarrow> w_db w' = w_db w"
    and set_ok: "set_to u p c w = (Inr (), w') \<Longrightarrow>
      token (w_db w') u' p' = (if u' = u \<and> p' = p then c else token (w_db w) u' p')"
    and set_err: "set_to u p c w = (Inl e, w') \<Longrightarrow> w_db w' = w_db w"
    and delete_ok: "delete u p w = (Inr (), w') \<Longrightarrow>
      token (w_db w') u' p' = (if u' = u \<and> p' = p then [] else token (w_db w) u' p')"
    and delete_err: "delete u p w = (Inl e, w') \<Longrightarrow> w_db w' = w_db w"
begin

lemma get_after_set:
  assumes "set_to u p c w = (Inr (), w1)" "get u p w1 = (r, w2)"
  shows "r = Inr c \<or> (\<exists>e. r = Inl e)"
  using assms get_ok [of u p w1 _ w2] set_ok [of u p c w w1 u p] by (cases r) auto

lemma get_after_delete:
  assumes "delete u p w = (Inr (), w1)" "get u p w1 = (Inr c, w2)"
  shows "c = []"
  using get_ok [OF assms(2)] delete_ok [OF assms(1)] by simp

text \<open>A pipeline's token moves only by calls that name the pipeline.\<close>

lemma set_other:
  assumes "set_to u p c w = (r, w1)" "(u', p') \<noteq> (u, p)"
  shows "token (w_db w1) u' p' = token (w_db w) u' p'"
  using assms set_ok [of u p c w w1 u' p'] set_err [of u p c w _ w1] by (cases r) auto

end

definition cursor_token :: "db \<Rightarrow> string \<Rightarrow> string \<Rightarrow> string" where
  "cursor_token d u p = (case select_one (\<lambda>c. cur_user_id c = u \<and> cur_provider_type c = p) (t_cursors d) of
     None \<Rightarrow> [] | Some c \<Rightarrow> cur_cursor c)"

lemma find_map_other:
  assumes "\<And>x. P x \<longleftrightarrow> P (f x)"
  shows "find P (map f xs) = map_option f (find P xs)"
  using assms by (induction xs) auto

lemma find_append: "find P (xs @ ys) = (case find P xs of None \<Rightarrow> find P ys | Some x \<Rightarrow> Some x)"
  by (induction xs) auto

lemma find_filter: "find P (filter Q xs) = find (\<lambda>x. P x \<and> Q x) xs"
  by (induction xs) auto

lemma upsert_cursor_token:
  assumes "upsert_cursor row d = Inr ((), d')"
  shows "cursor_token d' u p = (if u = cur_user_id row \<and> p = cur_provider_type row then cur_cursor row else cursor_token d u p)"
proof -
  let ?is = "\<lambda>u p x. cur_user_id x = u \<and> cur_provider_type x = p"
  let ?u = "cur_user_id row" and ?p = "cur_provider_type row"
  show ?thesis
  proof (cases "list_ex (?is ?u ?p) (t_cursors d)")
    case True
    let ?f = "\<lambda>x. if ?is ?u ?p x then x\<lparr>cur_cursor := cur_cursor row, cur_updated_at := cur_updated_at row\<rparr> else x"
    have "find (?is u p) (map ?f (t_cursors d)) = map_option ?f (find (?is u p) (t_cursors d))"
      by (rule find_map_other) auto
    moreover have "t_cursors d' = map ?f (t_cursors d)" using assms True by (auto simp: upsert_cursor_def)
    ultimately have tok: "cursor_token d' u p = (case map_option ?f (find (?is u p) (t_cursors d)) of None \<Rightarrow> [] | Some c \<Rightarrow> cur_cursor c)"
      by (simp add: cursor_token_def select_one_def)
    have some: "find (?is ?u ?p) (t_cursors d) \<noteq> None" using True by (auto simp: find_None_iff list_ex_iff)
    show ?thesis
    proof (cases "find (?is u p) (t_cursors d)")
      case (Some x)
      then have "?is u p x" by (auto simp: find_Some_iff)
      with tok Some show ?thesis by (auto simp: cursor_token_def select_one_def)
    qed (use tok some in \<open>auto simp: cursor_token_def select_one_def\<close>)
  next
    case False
    then have "find (?is ?u ?p) (t_cursors d) = None" by (auto simp: find_None_iff list_ex_iff)
    then show ?thesis
      using assms False
      by (auto simp: upsert_cursor_def cursor_token_def select_one_def insert_row_Inr find_append
          split: if_splits sum.splits option.splits)
  qed
qed

lemma stmt_pure_db: "stmt (\<lambda>d. Inr (x, f d)) w = (Inr y, w') \<Longrightarrow> w_db w' = f (w_db w)"
  by (auto simp: stmt_def Let_def split: if_splits)

lemma delete_cursor_token:
  assumes "DeleteCursor u p w = (Inr (), w')"
  shows "cursor_token (w_db w') u' p' = (if u' = u \<and> p' = p then [] else cursor_token (w_db w) u' p')"
proof -
  let ?is = "\<lambda>u p x. cur_user_id x = u \<and> cur_provider_type x = p"
  have "t_cursors (w_db w') = filter (\<lambda>c. \<not> ?is u p c) (t_cursors (w_db w))"
    using stmt_pure_db [OF assms [unfolded DeleteCursor_def]] by simp
  then have "find (?is u' p') (t_cursors (w_db w')) = find (\<lambda>c. ?is u' p' c \<and> \<not> ?is u p c) (t_cursors (w_db w))"
    by (simp add: find_filter)
  also have "\<dots> = (if u' = u \<and> p' = p then None else find (?is u' p') (t_cursors (w_db w)))"
  proof (cases "u' = u \<and> p' = p")
    case False
    then have "find (\<lambda>c. ?is u' p' c \<and> \<not> ?is u p c) cs = find (?is u' p') cs" for cs by (intro find_cong) auto
    then show ?thesis using False by (simp only: if_False)
  qed (auto simp: find_None_iff)
  finally show ?thesis by (auto simp: cursor_token_def select_one_def)
qed

interpretation cursors: cursor_store GetCursor SetCursor DeleteCursor cursor_token
proof
  show "GetCursor u p w = (Inr c, w') \<Longrightarrow> c = cursor_token (w_db w) u p \<and> w_db w' = w_db w" for u p w c w'
    unfolding GetCursor_def cursor_token_def by (rule query_Inr_db)
  show "GetCursor u p w = (Inl e, w') \<Longrightarrow> w_db w' = w_db w" for u p w e w'
    unfolding GetCursor_def by (rule readonlyD [OF readonly_basic(5)])
  show "SetCursor u p c w = (Inr (), w') \<Longrightarrow>
      cursor_token (w_db w') u' p' = (if u' = u \<and> p' = p then c else cursor_token (w_db w) u' p')" for u p c w w' u' p'
    by (auto simp: SetCursor_def andThen_Inr prog_simps upsert_cursor_token dest!: stmt_Inr_db)
  show "SetCursor u p c w = (Inl e, w') \<Longrightarrow> w_db w' = w_db w" for u p c w e w'
    by (rule atomicD [of "SetCursor u p c"]) (auto simp: SetCursor_def effects)
  show "DeleteCursor u p w = (Inr (), w') \<Longrightarrow>
      cursor_token (w_db w') u' p' = (if u' = u \<and> p' = p then [] else cursor_token (w_db w) u' p')" for u p w w' u' p'
    by (rule delete_cursor_token)
  show "DeleteCursor u p w = (Inl e, w') \<Longrightarrow> w_db w' = w_db w" for u p w e w'
    unfolding DeleteCursor_def by (rule atomicD) (rule effects)
qed

end
