(* ===== verification/SyncEngine.thy ===== *)
theory SyncEngine
  imports SyncStore ThreeWayMerge CardDAVBackend "HOL-Library.AList"
begin

text \<open>
  The sync engine, \<open>internal/sync/engine.go\<close>, with the provider interface of
  \<open>internal/sync/provider.go\<close> and its one implementation over the application's own tables,
  \<open>internal/sync/internal_provider.go\<close>. A provider is the record of its methods; the optional
  interfaces \<open>IncrementalProvider\<close> and \<open>ConditionalWriter\<close> are optional fields. The local maps
  of the two phases are association lists, keyed as in the code, and the order in which Go walks
  a map is the argument \<open>ord\<close>. A \<open>*domain.SyncState\<close> that a phase mutates lives in the loop state, so
  that the mutation is seen by later iterations whether or not the row was written.
\<close>

section \<open>Providers\<close>

datatype provider_error = ProvDB db_error | ErrCursorExpired | ErrPreconditionFailed | ProvFail string

record sync_item =
  si_remote_id :: string
  si_etag :: string
  si_content_hash :: string
  si_vcard :: string

record put_result =
  pr_remote_id :: string
  pr_etag :: string

record delta =
  dl_updated :: "sync_item list"
  dl_deleted :: "string list"
  dl_cursor :: string
  dl_full :: bool

record provider =
  p_name :: string
  p_list :: "(provider_error, sync_item list) prog"
  p_get :: "string \<Rightarrow> (provider_error, sync_item option) prog"
  p_put :: "sync_item \<Rightarrow> (provider_error, put_result) prog"
  p_delete :: "string \<Rightarrow> (provider_error, unit) prog"
  p_list_changes :: "(string \<Rightarrow> (provider_error, delta) prog) option"
  p_put_if_match :: "(sync_item \<Rightarrow> string \<Rightarrow> (provider_error, put_result) prog) option"

definition ContentHash :: "lib \<Rightarrow> string \<Rightarrow> string" where
  "ContentHash L data = hex (l_sha256 L data)"

subsection \<open>The internal address book\<close>

definition item_of :: "lib \<Rightarrow> contact \<Rightarrow> sync_item" where
  "item_of L c = \<lparr>si_remote_id = c_uid c, si_etag = c_etag c, si_content_hash = ContentHash L (c_vcard_data c),
     si_vcard = c_vcard_data c\<rparr>"

definition internal_List :: "lib \<Rightarrow> string \<Rightarrow> (provider_error, sync_item list) prog" where
  "internal_List L u =
     andThen (wrapErr ProvDB (GetOrCreateByUserID u)) (\<lambda>ab.
     andThen (wrapErr ProvDB (ListAll (ab_id ab))) (\<lambda>contacts.
     ret (map (item_of L) contacts)))"

definition internal_Get :: "lib \<Rightarrow> string \<Rightarrow> string \<Rightarrow> (provider_error, sync_item option) prog" where
  "internal_Get L u rid =
     andThen (wrapErr ProvDB (GetOrCreateByUserID u)) (\<lambda>ab.
     andThen (wrapErr ProvDB (GetByUID (ab_id ab) rid)) (\<lambda>c. ret (map_option (item_of L) c)))"

definition internal_Put :: "lib \<Rightarrow> string \<Rightarrow> sync_item \<Rightarrow> (provider_error, put_result) prog" where
  "internal_Put L u item =
     andThen (wrapErr ProvDB (GetOrCreateByUserID u)) (\<lambda>ab.
     andThen (wrapErr ProvDB (GetByUID (ab_id ab) (si_remote_id item))) (\<lambda>existing.
     andThen now (\<lambda>t.
     let etag = etag_of L (si_vcard item);
         parsed = (case ParseVCard L (si_vcard item) of Inl _ \<Rightarrow> empty_parsed | Inr p \<Rightarrow> p)
     in case existing of
          Some c \<Rightarrow>
            andThen (ChildRecordsFor (c_id c) parsed) (\<lambda>children.
            andThen (wrapErr ProvDB (Save (ApplyToContact
               (c\<lparr>c_vcard_data := si_vcard item, c_etag := etag, c_updated_at := t\<rparr>) parsed) children)) (\<lambda>_.
            ret \<lparr>pr_remote_id = c_uid c, pr_etag = etag\<rparr>))
        | None \<Rightarrow>
            andThen (if si_remote_id item = [] then mint else ret (si_remote_id item)) (\<lambda>cuid.
            andThen mint (\<lambda>i.
            andThen (ChildRecordsFor i parsed) (\<lambda>children.
            andThen (wrapErr ProvDB (Save (ApplyToContact
               (blank_contact\<lparr>c_id := i, c_address_book_id := ab_id ab, c_uid := cuid, c_etag := etag,
                  c_vcard_data := si_vcard item, c_created_at := t, c_updated_at := t\<rparr>) parsed) children)) (\<lambda>_.
            ret \<lparr>pr_remote_id = cuid, pr_etag = etag\<rparr>)))))))"

definition internal_Delete :: "string \<Rightarrow> string \<Rightarrow> (provider_error, unit) prog" where
  "internal_Delete u rid =
     andThen (wrapErr ProvDB (GetOrCreateByUserID u)) (\<lambda>ab.
     andThen (wrapErr ProvDB (GetByUID (ab_id ab) rid)) (\<lambda>found. case found of
       None \<Rightarrow> ret ()
     | Some c \<Rightarrow> wrapErr ProvDB (Delete (c_id c))))"

definition InternalProvider :: "lib \<Rightarrow> string \<Rightarrow> provider" where
  "InternalProvider L u = \<lparr>p_name = ''internal'', p_list = internal_List L u, p_get = internal_Get L u,
     p_put = internal_Put L u, p_delete = internal_Delete u, p_list_changes = None, p_put_if_match = None\<rparr>"

section \<open>The engine\<close>

definition ConflictSourceWins :: string where "ConflictSourceWins = ''source_wins''"
definition ConflictDestWins :: string where "ConflictDestWins = ''dest_wins''"
definition ConflictSkip :: string where "ConflictSkip = ''skip''"
definition ConflictAuto :: string where "ConflictAuto = ''auto''"
definition ConflictManual :: string where "ConflictManual = ''manual''"

datatype sync_mode = SyncModeImport | SyncModeExport | SyncModeTwoWay

datatype sync_error = SyncProv provider_error | SyncDB db_error | ErrMassDeletion nat nat
  | ErrUnknownSyncMode string

definition ParseSyncMode :: "string \<Rightarrow> sync_error + sync_mode" where
  "ParseSyncMode s =
     (if s \<in> {[], ''import'', ''pull''} then Inr SyncModeImport
      else if s \<in> {''export'', ''push''} then Inr SyncModeExport
      else if s \<in> {''two_way'', ''bidirectional''} then Inr SyncModeTwoWay
      else Inl (ErrUnknownSyncMode s))"

record sync_result =
  r_created :: nat
  r_updated :: nat
  r_deleted :: nat
  r_skipped :: nat
  r_errors :: nat
  r_conflicts :: nat

definition no_result :: sync_result where
  "no_result = \<lparr>r_created = 0, r_updated = 0, r_deleted = 0, r_skipped = 0, r_errors = 0, r_conflicts = 0\<rparr>"

definition deletionAbortMinimum :: nat where "deletionAbortMinimum = 5"

text \<open>The ratio of two counts exceeds one half.\<close>

definition checkDeletionSafety :: "nat \<Rightarrow> nat \<Rightarrow> sync_error option" where
  "checkDeletionSafety toDelete tracked =
     (if tracked < deletionAbortMinimum \<or> toDelete = 0 then None
      else if 2 * toDelete > tracked then Some (ErrMassDeletion toDelete tracked) else None)"

text \<open>The optional collaborators of the engine, and go-vcard.\<close>

record engine =
  eng_lib :: lib
  eng_runs :: bool
  eng_conflicts :: bool
  eng_cursors :: bool

text \<open>A Go map built by a loop: the last item of a key stays.\<close>

definition index_by :: "('a \<Rightarrow> string) \<Rightarrow> 'a list \<Rightarrow> (string \<times> 'a) list" where
  "index_by key xs = fold (\<lambda>x m. AList.update (key x) x m) xs []"

record phase_state =
  ps_prev :: "(string \<times> sync_state) list"
  ps_pending :: "(string \<times> sync_conflict) list"
  ps_result :: sync_result

definition failed :: "phase_state \<Rightarrow> phase_state" where
  "failed st = st\<lparr>ps_result := (ps_result st)\<lparr>r_errors := r_errors (ps_result st) + 1\<rparr>\<rparr>"

definition created :: "phase_state \<Rightarrow> phase_state" where
  "created st = st\<lparr>ps_result := (ps_result st)\<lparr>r_created := r_created (ps_result st) + 1\<rparr>\<rparr>"

definition updated :: "phase_state \<Rightarrow> phase_state" where
  "updated st = st\<lparr>ps_result := (ps_result st)\<lparr>r_updated := r_updated (ps_result st) + 1\<rparr>\<rparr>"

definition removed :: "phase_state \<Rightarrow> phase_state" where
  "removed st = st\<lparr>ps_result := (ps_result st)\<lparr>r_deleted := r_deleted (ps_result st) + 1\<rparr>\<rparr>"

definition skipped :: "phase_state \<Rightarrow> phase_state" where
  "skipped st = st\<lparr>ps_result := (ps_result st)\<lparr>r_skipped := r_skipped (ps_result st) + 1\<rparr>\<rparr>"

definition clashed :: "phase_state \<Rightarrow> phase_state" where
  "clashed st = st\<lparr>ps_result := (ps_result st)\<lparr>r_conflicts := r_conflicts (ps_result st) + 1\<rparr>\<rparr>"

text \<open>A call whose error is counted and whose success goes on.\<close>

definition counting :: "('e, 'a) prog \<Rightarrow> phase_state \<Rightarrow> ('a \<Rightarrow> ('f, phase_state) prog) \<Rightarrow> ('f, phase_state) prog" where
  "counting m st f = andThen (attempt m) (\<lambda>r. case r of Inl _ \<Rightarrow> ret (failed st) | Inr x \<Rightarrow> f x)"

subsection \<open>Conflicts\<close>

definition pendingConflictsByRemoteID ::
  "engine \<Rightarrow> string \<Rightarrow> string \<Rightarrow> ('e, (string \<times> sync_conflict) list) prog" where
  "pendingConflictsByRemoteID E u p =
     (if \<not> eng_conflicts E then ret []
      else andThen (attempt (ListPendingByProvider u p)) (\<lambda>r. case r of
        Inl _ \<Rightarrow> ret []
      | Inr existing \<Rightarrow> ret (index_by sc_remote_id existing)))"

definition field_diffs :: "lib \<Rightarrow> sync_state \<Rightarrow> sync_item \<Rightarrow> sync_item \<Rightarrow> (string \<times> string \<times> string \<times> string) list" where
  "field_diffs L prev localItem remoteItem =
     (case MergeVCards L (ss_base_vcard prev) (si_vcard localItem) (si_vcard remoteItem) of
        Inl _ \<Rightarrow> []
      | Inr m \<Rightarrow> map (\<lambda>c. (fc_field c, fc_base c, fc_local c, fc_remote c)) (mr_conflicts m))"

definition recordConflict ::
  "engine \<Rightarrow> string \<Rightarrow> string \<Rightarrow> int \<Rightarrow> sync_state \<Rightarrow> sync_item \<Rightarrow> sync_item \<Rightarrow>
   (string \<times> sync_conflict) list \<Rightarrow> ('e, (string \<times> sync_conflict) list) prog" where
  "recordConflict E u p t prev localItem remoteItem pending =
     (if \<not> eng_conflicts E then ret pending
      else
        let diffs = field_diffs (eng_lib E) prev localItem remoteItem
        in case map_of pending (ss_remote_id prev) of
             Some existing \<Rightarrow>
               let c = existing\<lparr>sc_base_vcard := ss_base_vcard prev, sc_local_vcard := si_vcard localItem,
                     sc_remote_vcard := si_vcard remoteItem, sc_remote_etag := si_etag remoteItem,
                     sc_field_diffs := diffs\<rparr>
               in andThen (attempt (UpdateConflict c)) (\<lambda>_. ret (AList.update (ss_remote_id prev) c pending))
           | None \<Rightarrow>
               andThen mint (\<lambda>i.
               let c = \<lparr>sc_id = i, sc_user_id = u, sc_provider_type = p, sc_remote_id = ss_remote_id prev,
                     sc_local_contact_id = ss_local_id prev, sc_base_vcard = ss_base_vcard prev,
                     sc_local_vcard = si_vcard localItem, sc_remote_vcard = si_vcard remoteItem,
                     sc_remote_etag = si_etag remoteItem, sc_field_diffs = diffs, sc_status = ''pending'',
                     sc_resolution = [], sc_resolved_vcard = [], sc_created_at = t, sc_resolved_at = None\<rparr>
               in andThen (attempt (CreateConflict c)) (\<lambda>r. case r of
                    Inl _ \<Rightarrow> ret pending
                  | Inr _ \<Rightarrow> ret (AList.update (ss_remote_id prev) c pending))))"

subsection \<open>Pull\<close>

definition remoteChanges :: "engine \<Rightarrow> string \<Rightarrow> string \<Rightarrow> provider \<Rightarrow> (sync_error, delta) prog" where
  "remoteChanges E u p remote =
     (case (p_list_changes remote, eng_cursors E) of
        (Some listChanges, True) \<Rightarrow>
          andThen (wrapErr SyncDB (GetCursor u p)) (\<lambda>cursor.
          andThen (attempt (listChanges cursor)) (\<lambda>r.
          if r = Inl ErrCursorExpired
          then andThen (attempt (DeleteCursor u p)) (\<lambda>_. wrapErr SyncProv (listChanges []))
          else case r of Inl e \<Rightarrow> throw (SyncProv e) | Inr d \<Rightarrow> ret d))
      | _ \<Rightarrow>
          andThen (wrapErr SyncProv (p_list remote)) (\<lambda>items.
          ret \<lparr>dl_updated = items, dl_deleted = [], dl_cursor = [], dl_full = True\<rparr>))"

text \<open>The remote ids of the tracked contacts to delete.\<close>

definition deletionsFromDelta ::
  "(string list \<Rightarrow> string list) \<Rightarrow> delta \<Rightarrow> (string \<times> sync_state) list \<Rightarrow> (string \<times> sync_item) list \<Rightarrow> string list" where
  "deletionsFromDelta ord d prevs remoteMap =
     (if dl_full d then filter (\<lambda>r. map_of remoteMap r = None) (ord (map fst prevs))
      else filter (\<lambda>r. map_of prevs r \<noteq> None) (dl_deleted d))"

definition new_state :: "lib \<Rightarrow> string \<Rightarrow> string \<Rightarrow> int \<Rightarrow> string \<Rightarrow> string \<Rightarrow> string \<Rightarrow> string \<Rightarrow> string \<Rightarrow> string \<Rightarrow> sync_state" where
  "new_state L u p t i rid lid retag letag vc = \<lparr>ss_id = i, ss_user_id = u, ss_provider_type = p,
     ss_remote_id = rid, ss_local_id = lid, ss_remote_etag = retag, ss_local_etag = letag,
     ss_content_hash = ContentHash L vc, ss_base_vcard = vc, ss_last_synced_at = t\<rparr>"

text \<open>\<open>local.Put\<close> and the bookkeeping after it.\<close>

definition apply_remote ::
  "engine \<Rightarrow> provider \<Rightarrow> int \<Rightarrow> string \<Rightarrow> sync_item \<Rightarrow> sync_state \<Rightarrow> string \<Rightarrow> phase_state \<Rightarrow> ('e, phase_state) prog" where
  "apply_remote E local t rid remoteItem prev vc st =
     counting (p_put local \<lparr>si_remote_id = ss_local_id prev, si_etag = ss_local_etag prev, si_content_hash = [],
                 si_vcard = vc\<rparr>) st (\<lambda>put.
     let prev' = prev\<lparr>ss_remote_etag := si_etag remoteItem, ss_local_id := pr_remote_id put,
           ss_local_etag := pr_etag put, ss_content_hash := ContentHash (eng_lib E) vc,
           ss_base_vcard := vc, ss_last_synced_at := t\<rparr>;
         st' = st\<lparr>ps_prev := AList.update rid prev' (ps_prev st)\<rparr>
     in counting (UpdateState prev') st' (\<lambda>_. ret (updated st')))"

definition auto_merged :: "engine \<Rightarrow> string \<Rightarrow> sync_state \<Rightarrow> sync_item \<Rightarrow> sync_item \<Rightarrow> string option" where
  "auto_merged E cm prev localItem remoteItem =
     (if cm = ConflictAuto
      then case MergeVCards (eng_lib E) (ss_base_vcard prev) (si_vcard localItem) (si_vcard remoteItem) of
             Inr m \<Rightarrow> if mr_auto m then Some (mr_merged m) else None
           | Inl _ \<Rightarrow> None
      else None)"

definition remote_modified :: "engine \<Rightarrow> sync_state \<Rightarrow> sync_item \<Rightarrow> bool" where
  "remote_modified E prev item \<longleftrightarrow> ss_remote_etag prev \<noteq> si_etag item
     \<or> ss_content_hash prev \<noteq> ContentHash (eng_lib E) (si_vcard item)"

definition pull_item ::
  "engine \<Rightarrow> string \<Rightarrow> string \<Rightarrow> provider \<Rightarrow> string \<Rightarrow> int \<Rightarrow> (string \<times> sync_item) list \<Rightarrow> (string \<times> sync_item) list \<Rightarrow>
   string \<Rightarrow> phase_state \<Rightarrow> ('e, phase_state) prog" where
  "pull_item E u p local cm t localMap remoteMap rid st =
     (let item = the (map_of remoteMap rid)
      in case map_of (ps_prev st) rid of
           None \<Rightarrow>
             counting (p_put local item) st (\<lambda>put.
             andThen mint (\<lambda>i.
             counting (CreateState (new_state (eng_lib E) u p t i rid (pr_remote_id put) (si_etag item) (pr_etag put)
                (si_vcard item))) st (\<lambda>_. ret (created st))))
         | Some prev \<Rightarrow>
             if \<not> remote_modified E prev item then ret st
             else case map_of localMap (ss_local_id prev) of
               None \<Rightarrow> apply_remote E local t rid item prev (si_vcard item) st
             | Some localItem \<Rightarrow>
                 if ss_local_etag prev = si_etag localItem
                 then apply_remote E local t rid item prev (si_vcard item) st
                 else
                   let st1 = clashed st
                   in case auto_merged E cm prev localItem item of
                        Some vc \<Rightarrow> apply_remote E local t rid item prev vc st1
                      | None \<Rightarrow>
                          andThen (if cm = ConflictAuto \<or> cm = ConflictManual
                                   then recordConflict E u p t prev localItem item (ps_pending st1)
                                   else ret (ps_pending st1)) (\<lambda>pending.
                          let st2 = st1\<lparr>ps_pending := pending\<rparr>
                          in if cm \<noteq> ConflictSourceWins then ret (skipped st2)
                             else apply_remote E local t rid item prev (si_vcard item) st2))"

definition pull_deletion :: "provider \<Rightarrow> string \<Rightarrow> phase_state \<Rightarrow> ('e, phase_state) prog" where
  "pull_deletion local rid st =
     (let prev = the (map_of (ps_prev st) rid)
      in counting (p_delete local (ss_local_id prev)) st (\<lambda>_.
         counting (DeleteState (ss_id prev)) st (\<lambda>_. ret (removed st))))"

definition pullPhase ::
  "engine \<Rightarrow> (string list \<Rightarrow> string list) \<Rightarrow> string \<Rightarrow> string \<Rightarrow> provider \<Rightarrow> provider \<Rightarrow> string \<Rightarrow> sync_result \<Rightarrow>
   (sync_error, sync_result) prog" where
  "pullPhase E ord u p remote local cm result =
     andThen (remoteChanges E u p remote) (\<lambda>d.
     andThen (wrapErr SyncProv (p_list local)) (\<lambda>localItems.
     andThen (wrapErr SyncDB (ListStates u p)) (\<lambda>prevStates.
     let remoteMap = index_by si_remote_id (dl_updated d);
         localMap = index_by si_remote_id localItems;
         prevs = index_by ss_remote_id prevStates;
         deletions = deletionsFromDelta ord d prevs remoteMap
     in case checkDeletionSafety (length deletions) (length prevs) of
          Some e \<Rightarrow> throw e
        | None \<Rightarrow>
            andThen (pendingConflictsByRemoteID E u p) (\<lambda>pending.
            andThen now (\<lambda>t.
            andThen (forEach (pull_item E u p local cm t localMap remoteMap) (ord (map fst remoteMap))
              \<lparr>ps_prev = prevs, ps_pending = pending, ps_result = result\<rparr>) (\<lambda>st1.
            andThen (forEach (pull_deletion local) deletions st1) (\<lambda>st2.
            andThen (if dl_cursor d \<noteq> [] \<and> eng_cursors E
                     then andThen (attempt (SetCursor u p (dl_cursor d))) (\<lambda>_. ret ())
                     else ret ()) (\<lambda>_.
            ret (ps_result st2)))))))))"

subsection \<open>Push\<close>

definition push_done ::
  "engine \<Rightarrow> int \<Rightarrow> string \<Rightarrow> sync_item \<Rightarrow> sync_state \<Rightarrow> phase_state \<Rightarrow> provider_error + put_result \<Rightarrow> ('e, phase_state) prog" where
  "push_done E t lid localItem prev st r = (case r of
      Inl _ \<Rightarrow> ret (failed st)
    | Inr pr \<Rightarrow>
        let prev' = prev\<lparr>ss_remote_id := pr_remote_id pr, ss_remote_etag := pr_etag pr,
              ss_local_etag := si_etag localItem, ss_content_hash := ContentHash (eng_lib E) (si_vcard localItem),
              ss_base_vcard := si_vcard localItem, ss_last_synced_at := t\<rparr>;
            st' = st\<lparr>ps_prev := AList.update lid prev' (ps_prev st)\<rparr>
        in counting (UpdateState prev') st' (\<lambda>_. ret (updated st')))"

definition push_changed ::
  "engine \<Rightarrow> string \<Rightarrow> string \<Rightarrow> provider \<Rightarrow> string \<Rightarrow> int \<Rightarrow> (string \<times> sync_item) list \<Rightarrow> string \<Rightarrow> sync_item \<Rightarrow>
   sync_state \<Rightarrow> phase_state \<Rightarrow> ('e, phase_state) prog" where
  "push_changed E u p remote cm t remoteMap lid localItem prev st =
     (let out = \<lparr>si_remote_id = ss_remote_id prev, si_etag = ss_remote_etag prev, si_content_hash = [],
                 si_vcard = si_vcard localItem\<rparr>;
          overwrite = (\<lambda>st. andThen (attempt (p_put remote out)) (push_done E t lid localItem prev st));
          conflict = (\<lambda>remoteItem st. andThen (recordConflict E u p t prev localItem remoteItem (ps_pending st))
             (\<lambda>pending. ret (skipped (st\<lparr>ps_pending := pending\<rparr>))))
      in case p_put_if_match remote of
           Some putIfMatch \<Rightarrow>
             andThen (attempt (putIfMatch out (ss_remote_etag prev))) (\<lambda>r.
             if r = Inl ErrPreconditionFailed
             then if cm \<noteq> ConflictDestWins
                  then andThen (attempt (p_get remote (ss_remote_id prev))) (\<lambda>g. case g of
                         Inr (Some remoteItem) \<Rightarrow> conflict remoteItem (clashed st)
                       | _ \<Rightarrow> ret (skipped (clashed st)))
                  else overwrite (clashed st)
             else push_done E t lid localItem prev st r)
         | None \<Rightarrow>
             (case map_of remoteMap (ss_remote_id prev) of
                Some remoteItem \<Rightarrow>
                  if si_etag remoteItem \<noteq> ss_remote_etag prev
                  then if cm \<noteq> ConflictDestWins then conflict remoteItem (clashed st) else overwrite (clashed st)
                  else overwrite st
              | None \<Rightarrow> overwrite st))"

definition push_item ::
  "engine \<Rightarrow> string \<Rightarrow> string \<Rightarrow> provider \<Rightarrow> string \<Rightarrow> int \<Rightarrow> (string \<times> sync_item) list \<Rightarrow> (string \<times> sync_item) list \<Rightarrow>
   string \<Rightarrow> phase_state \<Rightarrow> ('e, phase_state) prog" where
  "push_item E u p remote cm t localMap remoteMap lid st =
     (let localItem = the (map_of localMap lid)
      in case map_of (ps_prev st) lid of
           None \<Rightarrow>
             counting (p_put remote localItem) st (\<lambda>put.
             andThen mint (\<lambda>i.
             counting (CreateState (new_state (eng_lib E) u p t i (pr_remote_id put) lid (pr_etag put) (si_etag localItem)
                (si_vcard localItem))) st (\<lambda>_. ret (created st))))
         | Some prev \<Rightarrow>
             if ss_local_etag prev = si_etag localItem then ret st
             else push_changed E u p remote cm t remoteMap lid localItem prev st)"

definition push_deletion :: "provider \<Rightarrow> string \<Rightarrow> phase_state \<Rightarrow> ('e, phase_state) prog" where
  "push_deletion remote lid st =
     (let prev = the (map_of (ps_prev st) lid)
      in counting (p_delete remote (ss_remote_id prev)) st (\<lambda>_.
         counting (DeleteState (ss_id prev)) st (\<lambda>_. ret (removed st))))"

definition pushPhase ::
  "engine \<Rightarrow> (string list \<Rightarrow> string list) \<Rightarrow> string \<Rightarrow> string \<Rightarrow> provider \<Rightarrow> provider \<Rightarrow> string \<Rightarrow> sync_result \<Rightarrow>
   (sync_error, sync_result) prog" where
  "pushPhase E ord u p local remote cm result =
     andThen (wrapErr SyncProv (p_list local)) (\<lambda>localItems.
     andThen (case p_put_if_match remote of
                Some _ \<Rightarrow> ret []
              | None \<Rightarrow> andThen (wrapErr SyncProv (p_list remote)) (\<lambda>items. ret (index_by si_remote_id items))) (\<lambda>remoteMap.
     andThen (wrapErr SyncDB (ListStates u p)) (\<lambda>prevStates.
     let localMap = index_by si_remote_id localItems;
         prevs = index_by ss_local_id prevStates;
         missing = (\<lambda>l. map_of localMap l = None)
     in case checkDeletionSafety (length (filter missing (map fst prevs))) (length prevs) of
          Some e \<Rightarrow> throw e
        | None \<Rightarrow>
            andThen (pendingConflictsByRemoteID E u p) (\<lambda>pending.
            andThen now (\<lambda>t.
            andThen (forEach (push_item E u p remote cm t localMap remoteMap) (ord (map fst localMap))
              \<lparr>ps_prev = prevs, ps_pending = pending, ps_result = result\<rparr>) (\<lambda>st1.
            andThen (forEach (push_deletion remote) (filter missing (ord (map fst prevs))) st1) (\<lambda>st2.
            ret (ps_result st2))))))))"

subsection \<open>A run\<close>

definition doSync ::
  "engine \<Rightarrow> (string list \<Rightarrow> string list) \<Rightarrow> string \<Rightarrow> string \<Rightarrow> provider \<Rightarrow> provider \<Rightarrow> string \<Rightarrow> sync_mode \<Rightarrow>
   (sync_error, sync_result) prog" where
  "doSync E ord u p remote local cm mode =
     andThen (if mode \<in> {SyncModeImport, SyncModeTwoWay}
              then pullPhase E ord u p remote local cm no_result else ret no_result) (\<lambda>result.
     if mode \<in> {SyncModeExport, SyncModeTwoWay}
     then pushPhase E ord u p local remote cm result else ret result)"

definition close_run :: "('e \<Rightarrow> string) \<Rightarrow> sync_run \<Rightarrow> int \<Rightarrow> 'e + sync_result \<Rightarrow> sync_run" where
  "close_run msg run finished r = (case r of
      Inl e \<Rightarrow> run\<lparr>sr_finished_at := Some finished, sr_status := ''failed'', sr_error_message := msg e\<rparr>
    | Inr res \<Rightarrow> run\<lparr>sr_finished_at := Some finished, sr_status := ''completed'', sr_created_count := r_created res,
        sr_updated_count := r_updated res, sr_deleted_count := r_deleted res, sr_error_count := r_errors res\<rparr>)"

text \<open>\<open>Sync\<close>; \<open>msg\<close> is \<open>err.Error()\<close>.\<close>

definition Sync ::
  "engine \<Rightarrow> (string list \<Rightarrow> string list) \<Rightarrow> (sync_error \<Rightarrow> string) \<Rightarrow> string \<Rightarrow> string \<Rightarrow> provider \<Rightarrow> provider \<Rightarrow> string \<Rightarrow>
   sync_mode \<Rightarrow> (sync_error, sync_result) prog" where
  "Sync E ord msg u pipelineID remote local cm mode =
     (let p = p_name remote @ ''->'' @ p_name local
      in andThen (if eng_runs E
                  then andThen mint (\<lambda>i. andThen now (\<lambda>t.
                    let run = \<lparr>sr_id = i, sr_user_id = u, sr_pipeline_id = pipelineID, sr_provider_type = p,
                          sr_status = ''running'', sr_created_count = 0, sr_updated_count = 0, sr_deleted_count = 0,
                          sr_error_count = 0, sr_error_message = [], sr_started_at = t, sr_finished_at = None\<rparr>
                    in andThen (attempt (CreateRun run)) (\<lambda>r. case r of
                         Inl _ \<Rightarrow> ret None | Inr _ \<Rightarrow> ret (Some run))))
                  else ret None) (\<lambda>run.
         andThen (attempt (doSync E ord u p remote local cm mode)) (\<lambda>r.
         andThen (case run of
                    None \<Rightarrow> ret ()
                  | Some run \<Rightarrow> andThen now (\<lambda>finished.
                      andThen (attempt (UpdateRun (close_run msg run finished r))) (\<lambda>_. ret ()))) (\<lambda>_.
         case r of Inl e \<Rightarrow> throw e | Inr res \<Rightarrow> ret res))))"

end
