(* ===== verification/SyncProvider.thy ===== *)
theory SyncProvider
  imports SyncEngine
begin

text \<open>
  The contract of a sync provider, as the locale \<open>sync_provider\<close>: a provider keeps a map from
  ids to cards, a call that fails leaves it alone, \<open>Put\<close> stores the card under the id it answers and
  touches no other card, \<open>Delete\<close> removes one card. The internal address book
  (\<open>internal/sync/internal_provider.go\<close>) is shown to keep it, whatever statements fail. \<open>etag_remote\<close> is what
  an export asks of a remote with \<open>PutIfMatch\<close>; the CardDAV client is shown to keep it later, over a
  server that evaluates the preconditions of HTTP.
\<close>

section \<open>The contract\<close>

definition lists :: "sync_item list \<Rightarrow> (string \<Rightarrow> sync_item option) \<Rightarrow> bool" where
  "lists items v \<longleftrightarrow> distinct (map si_remote_id items)
     \<and> (\<forall>k i. v k = Some i \<longleftrightarrow> i \<in> set items \<and> si_remote_id i = k)"

definition stores :: "sync_item \<Rightarrow> (string \<Rightarrow> sync_item option) \<Rightarrow> put_result \<Rightarrow> (string \<Rightarrow> sync_item option) \<Rightarrow> bool" where
  "stores item v r v' \<longleftrightarrow> (\<exists>h. v' = v(pr_remote_id r \<mapsto>
        \<lparr>si_remote_id = pr_remote_id r, si_etag = pr_etag r, si_content_hash = h, si_vcard = si_vcard item\<rparr>))
      \<and> (if v (si_remote_id item) = None then v (pr_remote_id r) = None else pr_remote_id r = si_remote_id item)"

text \<open>What the bookkeeping of the engine leaves alone: everything but its own tables.\<close>

definition own_tables_only :: "world \<Rightarrow> world \<Rightarrow> bool" where
  "own_tables_only w w' \<longleftrightarrow> w_uuid w' = w_uuid w \<and> w_minted w \<le> w_minted w' \<and> w_remote w' = w_remote w
     \<and> t_users (w_db w') = t_users (w_db w) \<and> t_books (w_db w') = t_books (w_db w)
     \<and> t_contacts (w_db w') = t_contacts (w_db w) \<and> t_children (w_db w') = t_children (w_db w)
     \<and> t_tombstones (w_db w') = t_tombstones (w_db w)"

text \<open>A collection of cards that the bookkeeping leaves alone.\<close>

locale card_view =
  fixes view :: "world \<Rightarrow> string \<Rightarrow> sync_item option" and inv :: "world \<Rightarrow> bool"
  assumes others: "inv w \<Longrightarrow> own_tables_only w w' \<Longrightarrow> inv w' \<and> view w' = view w"

locale sync_provider = card_view view inv for P :: provider and view :: "world \<Rightarrow> string \<Rightarrow> sync_item option" and inv :: "world \<Rightarrow> bool" +
  assumes list_ok: "inv w \<Longrightarrow> p_list P w = (Inr items, w') \<Longrightarrow> inv w' \<and> view w' = view w \<and> lists items (view w)"
    and list_err: "inv w \<Longrightarrow> p_list P w = (Inl e, w') \<Longrightarrow> inv w' \<and> view w' = view w"
    and get_ok: "inv w \<Longrightarrow> p_get P k w = (Inr x, w') \<Longrightarrow> inv w' \<and> view w' = view w \<and> x = view w k"
    and get_err: "inv w \<Longrightarrow> p_get P k w = (Inl e, w') \<Longrightarrow> inv w' \<and> view w' = view w"
    and put_ok: "inv w \<Longrightarrow> p_put P item w = (Inr r, w') \<Longrightarrow>
      inv w' \<and> stores item (view w) r (view w')"
    and put_err: "inv w \<Longrightarrow> p_put P item w = (Inl e, w') \<Longrightarrow> inv w' \<and> view w' = view w"
    and delete_ok: "inv w \<Longrightarrow> p_delete P k w = (Inr (), w') \<Longrightarrow> inv w' \<and> view w' = (view w)(k := None)"
    and delete_err: "inv w \<Longrightarrow> p_delete P k w = (Inl e, w') \<Longrightarrow> inv w' \<and> view w' = view w"
    and list_states: "inv w \<Longrightarrow> p_list P w = (res, w') \<Longrightarrow> t_sync_states (w_db w') = t_sync_states (w_db w)"
begin

text \<open>Whatever the outcome, a card of another id stays.\<close>

lemma put_keeps:
  assumes "inv w" "p_put P item w = (r, w')" "view w k = Some c" "k \<noteq> si_remote_id item"
  shows "inv w' \<and> view w' k = Some c"
  using assms put_ok [of w item _ w'] put_err [of w item _ w']
  by (cases r) (auto simp: stores_def split: if_splits)

lemma delete_keeps:
  assumes "inv w" "p_delete P k' w = (r, w')" "k \<noteq> k'"
  shows "inv w' \<and> view w' k = view w k"
  using assms delete_ok [of w k' w'] delete_err [of w k' _ w'] by (cases r) auto

lemma list_keeps: "inv w \<Longrightarrow> p_list P w = (r, w') \<Longrightarrow> inv w' \<and> view w' = view w"
  using list_ok [of w _ w'] list_err [of w _ w'] by (cases r) auto

lemma get_keeps: "inv w \<Longrightarrow> p_get P k w = (r, w') \<Longrightarrow> inv w' \<and> view w' = view w"
  using get_ok [of w k _ w'] get_err [of w k _ w'] by (cases r) auto

text \<open>Round trip: what is put is what is read back, under the id and ETag answered.\<close>

lemma put_get:
  assumes "inv w" "p_put P item w = (Inr r, w1)" "p_get P (pr_remote_id r) w1 = (Inr x, w2)"
  shows "\<exists>h. x = Some \<lparr>si_remote_id = pr_remote_id r, si_etag = pr_etag r, si_content_hash = h, si_vcard = si_vcard item\<rparr>"
  using put_ok [OF assms(1,2)] get_ok [OF _ assms(3)] by (auto simp: stores_def)

end

text \<open>What an export asks of the remote: a read leaves its cards alone, a write touches the card of its
  own id only, whether it is answered or fails, and \<open>PutIfMatch\<close> neither changes nor reports as written a card that
  has moved on from the tag it was given (\<open>moved e c\<close>: the tag \<open>e\<close>, as the provider sends it, is not
  that of \<open>c\<close>). The ids it may be asked to write are those that \<open>named\<close> allows.\<close>

locale etag_remote = card_view view inv for P :: provider and view :: "world \<Rightarrow> string \<Rightarrow> sync_item option" and inv :: "world \<Rightarrow> bool" +
  fixes put_if :: "sync_item \<Rightarrow> string \<Rightarrow> (provider_error, put_result) prog" and named :: "string \<Rightarrow> bool" and moved :: "string \<Rightarrow> sync_item \<Rightarrow> bool"
  assumes has_put_if: "p_put_if_match P = Some put_if"
    and get_keeps: "inv w \<Longrightarrow> p_get P k w = (g, w') \<Longrightarrow> inv w' \<and> view w' = view w"
    and put_keeps: "inv w \<Longrightarrow> p_put P item w = (r, w') \<Longrightarrow> named (si_remote_id item) \<Longrightarrow> named k \<Longrightarrow> view w k = Some c \<Longrightarrow> k \<noteq> si_remote_id item \<Longrightarrow>
      inv w' \<and> view w' k = Some c"
    and delete_keeps: "inv w \<Longrightarrow> p_delete P k' w = (d, w') \<Longrightarrow> named k' \<Longrightarrow> named k \<Longrightarrow> view w k = Some c \<Longrightarrow> k \<noteq> k' \<Longrightarrow> inv w' \<and> view w' k = Some c"
    and put_if_keeps: "inv w \<Longrightarrow> put_if item e w = (r, w') \<Longrightarrow> named (si_remote_id item) \<Longrightarrow> named k \<Longrightarrow> view w k = Some c \<Longrightarrow>
      k \<noteq> si_remote_id item \<or> moved e c \<Longrightarrow> inv w' \<and> view w' k = Some c"
    and put_if_answer: "inv w \<Longrightarrow> put_if item e w = (Inr x, w') \<Longrightarrow> named (si_remote_id item) \<Longrightarrow>
      pr_remote_id x = si_remote_id item \<and> (\<forall>c. view w (si_remote_id item) = Some c \<longrightarrow> \<not> moved e c)"
    and elsewhere: "inv w \<Longrightarrow> w_remote w' = w_remote w \<Longrightarrow> inv w' \<and> view w' = view w"

section \<open>The internal address book keeps it\<close>

definition user_book_id :: "db \<Rightarrow> string \<Rightarrow> string option" where
  "user_book_id d u = map_option ab_id (select_one (\<lambda>b. ab_user_id b = u) (t_books d))"

definition card_row :: "db \<Rightarrow> string \<Rightarrow> string \<Rightarrow> contact option" where
  "card_row d b k = select_one (\<lambda>c. in_book b c \<and> c_uid c = k) (t_contacts d)"

text \<open>The cards of a user's book.\<close>

definition book_view :: "lib \<Rightarrow> string \<Rightarrow> world \<Rightarrow> string \<Rightarrow> sync_item option" where
  "book_view L u w k = (case user_book_id (w_db w) u of
     None \<Rightarrow> None | Some b \<Rightarrow> map_option (item_of L) (card_row (w_db w) b k))"

text \<open>Well-formed tables with the book there, and identifiers that were not used before.\<close>

definition fresh_contacts :: "world \<Rightarrow> bool" where
  "fresh_contacts w \<longleftrightarrow> inj (w_uuid w) \<and> (\<forall>n \<ge> w_minted w. w_uuid w n \<notin> c_id ` set (t_contacts (w_db w)) \<and> w_uuid w n \<noteq> [])"

definition book_inv :: "string \<Rightarrow> world \<Rightarrow> bool" where
  "book_inv u w \<longleftrightarrow> tables_ok (w_db w) \<and> fresh_contacts w \<and> user_book_id (w_db w) u \<noteq> None"

lemma steady_tombs [frame]: "steady (tombstone_rows b seq t us)"
  by (induction us) (auto intro!: frame)

lemma steady_assign [frame]: "steady (assign_rows cid rs)"
  by (induction rs) (auto simp: childID_def intro!: frame)

lemma steady_replace [frame]: "steady (replaceRowsIn get set' cid rows)"
  by (auto simp: replaceRowsIn_def intro!: frame)

lemma steady_to_rows [frame]: "steady (to_rows mk fs)"
  by (induction fs) (auto intro!: frame)

lemma steady_repo [frame]:
  "steady (GetOrCreateByUserID u)" "steady (GetByUID b k)" "steady (ListAll b)" "steady (Delete i)" "steady (Save c cs)"
  "steady (ChildRecordsFor cid p)"
  unfolding GetOrCreateByUserID_def GetByUserID_def CreateBook_def GetByUID_def ListAll_def Delete_def Let_def
      GetByID_def delete_contacts_def nextChangeSeq_def recordDeletions_def Save_def assignChildIDs_def saveWithin_def
      update_contact_def insert_contact_def dropTombstones_def replace_children_def ChildRecordsFor_def ToEmails_def
      ToPhones_def ToAddresses_def ToURLs_def ToIMs_def ToCategories_def ToDates_def
  by (intro frame)+

lemma select_unique:
  assumes "\<And>x y. x \<in> set rows \<Longrightarrow> y \<in> set rows \<Longrightarrow> P x \<Longrightarrow> P y \<Longrightarrow> x = y"
  shows "select_one P rows = Some c \<longleftrightarrow> c \<in> set rows \<and> P c"
proof
  assume c: "c \<in> set rows \<and> P c"
  then obtain x where x: "select_one P rows = Some x" by (metis not_None_eq select_one_None)
  with select_one_Some [OF x] c assms show "select_one P rows = Some c" by blast
qed (rule select_one_Some)

lemma card_row_iff:
  assumes "tables_ok d"
  shows "card_row d b k = Some c \<longleftrightarrow> c \<in> set (t_contacts d) \<and> card_key c = (b, k)"
proof -
  have inj: "inj_on card_key (set (t_contacts d))" using assms by (simp add: tables_ok_def distinct_map)
  show ?thesis
    unfolding card_row_def
    by (subst select_unique) (auto simp: in_book_def intro: inj_onD [OF inj])
qed

lemma card_row_eqI:
  assumes "tables_ok d" "tables_ok d'"
    "\<And>c. card_key c = (b, k) \<Longrightarrow> c \<in> set (t_contacts d) \<longleftrightarrow> c \<in> set (t_contacts d')"
  shows "card_row d b k = card_row d' b k"
  by (rule option.expand) (use assms card_row_iff [OF assms(1), of b k] card_row_iff [OF assms(2), of b k] in
    \<open>metis option.collapse option.distinct(1) option.sel\<close>)+

lemma user_book_bump [simp]:
  "user_book_id (d\<lparr>t_books := bump_books b (t_books d)\<rparr>) u = user_book_id d u"
  "user_book_id (bumped b d) u = user_book_id d u" "user_book_id (saved c cs d) u = user_book_id d u"
proof -
  have "find (\<lambda>b. ab_user_id b = u) (bump_books b bs)
      = map_option (\<lambda>x. if ab_id x = b then x\<lparr>ab_change_seq := ab_change_seq x + 1\<rparr> else x) (find (\<lambda>b. ab_user_id b = u) bs)" for b bs
    unfolding bump_books_def by (rule find_map_other) simp
  then show "user_book_id (d\<lparr>t_books := bump_books b (t_books d)\<rparr>) u = user_book_id d u"
    "user_book_id (bumped b d) u = user_book_id d u" "user_book_id (saved c cs d) u = user_book_id d u"
    by (auto simp: user_book_id_def select_one_def bumped_def saved_def Let_def option.map_comp intro!: option.map_cong)
qed

lemma user_book_buried [simp]: "user_book_id (buried P ts d) u = user_book_id d u"
  by (simp add: user_book_id_def)

text \<open>The calls every method starts with.\<close>

lemma GetOrCreate_book:
  assumes "user_book_id (w_db w) u = Some b" "GetOrCreateByUserID u w = (r, w')"
  shows "w_db w' = w_db w \<and> (\<forall>ab. r = Inr ab \<longrightarrow> ab_id ab = b)"
proof -
  obtain ab where ab: "select_one (\<lambda>b. ab_user_id b = u) (t_books (w_db w)) = Some ab" "ab_id ab = b"
    using assms(1) by (auto simp: user_book_id_def)
  obtain q w1 where q: "GetByUserID u w = (q, w1)" by fastforce
  note db = readonlyD [OF readonly_GetByUID(2) q]
  show ?thesis
  proof (cases q)
    case (Inl e)
    then show ?thesis using assms(2) q db by (auto simp: GetOrCreateByUserID_def andThen_def)
  next
    case (Inr found)
    then have "found = Some ab" using query_Inr_db [OF q [unfolded Inr GetByUserID_def]] ab(1) by simp
    then show ?thesis using assms(2) q db Inr ab(2) by (auto simp: GetOrCreateByUserID_def andThen_def prog_simps)
  qed
qed

lemma fresh_contacts_mono:
  assumes "fresh_contacts w" "w_uuid w' = w_uuid w" "w_minted w \<le> w_minted w'"
    "c_id ` set (t_contacts (w_db w')) \<subseteq> c_id ` set (t_contacts (w_db w)) \<union> w_uuid w ` {w_minted w..<w_minted w'}"
  shows "fresh_contacts w'"
proof -
  have "w_uuid w n \<notin> w_uuid w ` {w_minted w..<w_minted w'}" if "n \<ge> w_minted w'" for n
  proof
    assume "w_uuid w n \<in> w_uuid w ` {w_minted w..<w_minted w'}"
    then obtain m where m: "m < w_minted w'" "w_uuid w n = w_uuid w m" by auto
    have "inj (w_uuid w)" using assms(1) by (simp add: fresh_contacts_def)
    from injD [OF this m(2)] m(1) that show False by simp
  qed
  then have "w_uuid w' n \<notin> c_id ` set (t_contacts (w_db w')) \<and> w_uuid w' n \<noteq> []" if "n \<ge> w_minted w'" for n
    using that assms(1,3) subsetD [OF assms(4), of "w_uuid w n"] unfolding fresh_contacts_def assms(2) by auto
  then show ?thesis using assms(1,2) by (simp add: fresh_contacts_def)
qed

lemma book_inv_same:
  "book_inv u w \<Longrightarrow> w_db w' = w_db w \<Longrightarrow> w_uuid w' = w_uuid w \<Longrightarrow> w_minted w \<le> w_minted w' \<Longrightarrow>
   book_inv u w' \<and> book_view L u w' = book_view L u w"
  by (auto simp: book_inv_def book_view_def fun_eq_iff intro: fresh_contacts_mono)

lemma card_row_saved:
  assumes "tables_ok d" "may_save c d" "keeps_key c d"
  shows "card_row (saved c cs d) b k =
     (if (b, k) = card_key c then Some (c\<lparr>c_change_seq := seq_of d (c_address_book_id c) + 1\<rparr>) else card_row d b k)"
proof (cases "(b, k) = card_key c")
  case True
  then show ?thesis
    using card_row_iff [OF tables_ok_saved [OF assms], of cs b k] by (simp add: rows_saved [OF assms(1)])
next
  case False
  have "x \<in> set (t_contacts (saved c cs d)) \<longleftrightarrow> x \<in> set (t_contacts d)" if "card_key x = (b, k)" for x
    using that False assms(3) by (auto simp: rows_saved [OF assms(1)] keeps_key_def)
  with False show ?thesis
    using card_row_eqI [OF tables_ok_saved [OF assms] assms(1), of b k cs] by auto
qed

lemma tables_ok_without:
  "tables_ok d \<Longrightarrow> tables_ok (buried P ts (bumped b d))"
  by (auto simp: tables_ok_def distinct_map_filter bumped_def [of b d, THEN arg_cong, of t_books])

lemma card_row_buried:
  assumes "tables_ok d" "c \<in> set (t_contacts d)"
  shows "card_row (buried (\<lambda>x. c_id x = c_id c) ts (bumped b d)) b' k = (if (b', k) = card_key c then None else card_row d b' k)"
proof -
  let ?d = "buried (\<lambda>x. c_id x = c_id c) ts (bumped b d)"
  have rows: "x \<in> set (t_contacts ?d) \<longleftrightarrow> x \<in> set (t_contacts d) \<and> x \<noteq> c" for x
    using assms by (auto simp: tables_ok_def distinct_map inj_on_def)
  note ok = tables_ok_without [OF assms(1), of "\<lambda>x. c_id x = c_id c" ts b]
  have key: "x = c" if "x \<in> set (t_contacts d)" "card_key x = card_key c" for x
    using that assms by (auto simp: tables_ok_def distinct_map inj_on_def)
  show ?thesis
  proof (cases "(b', k) = card_key c")
    case True
    then have "card_row ?d b' k \<noteq> Some x" for x
      unfolding card_row_iff [OF ok] rows using key by auto
    then show ?thesis using True by (metis not_None_eq)
  next
    case False
    then show ?thesis using card_row_eqI [OF ok assms(1), of b' k] rows by auto
  qed
qed

lemma book_view_saved:
  assumes "tables_ok (w_db w)" "may_save c (w_db w)" "keeps_key c (w_db w)" "w_db w' = saved c cs (w_db w)"
    "user_book_id (w_db w) u = Some (c_address_book_id c)"
  shows "book_view L u w' = (book_view L u w)(c_uid c \<mapsto> item_of L c)"
  using assms by (auto simp: book_view_def card_row_saved item_of_def fun_eq_iff)

text \<open>A save uses up no identifier that is still to come.\<close>

lemma fresh_save:
  assumes ok: "tables_ok (w_db w)" and fr: "fresh_contacts w" and sv: "Save c cs w = (Inr (), w')"
    and id: "c_id c \<in> c_id ` set (t_contacts (w_db w)) \<union> w_uuid w ` {n. n < w_minted w}"
  shows "fresh_contacts w'"
proof -
  obtain cs' where db: "w_db w' = saved c cs' (w_db w)" using Save_commit [OF sv] by blast
  note st = steadyD [OF steady_repo(5) sv]
  have "w_uuid w n \<notin> c_id ` set (t_contacts (w_db w'))" if "n \<ge> w_minted w'" for n
  proof -
    have "w_uuid w n \<noteq> c_id c"
    proof
      assume eq: "w_uuid w n = c_id c"
      have "n \<ge> w_minted w" using that st(2) by simp
      then have "c_id c \<notin> c_id ` set (t_contacts (w_db w))" using fr eq by (metis fresh_contacts_def)
      then obtain m where m: "m < w_minted w" "c_id c = w_uuid w m" using id by auto
      have "inj (w_uuid w)" using fr by (simp add: fresh_contacts_def)
      from injD [OF this, of n m] m eq \<open>n \<ge> w_minted w\<close> show False by simp
    qed
    moreover have "w_uuid w n \<notin> c_id ` set (t_contacts (w_db w))" using fr that st(2) by (simp add: fresh_contacts_def)
    ultimately show ?thesis by (auto simp: db rows_saved [OF ok])
  qed
  then show ?thesis using fr st by (auto simp: fresh_contacts_def)
qed

text \<open>A save through the internal provider.\<close>

lemma internal_save:
  assumes inv: "book_inv u w" and sv: "Save c cs w = (Inr (), w')" and key: "keeps_key c (w_db w)"
    and b: "user_book_id (w_db w) u = Some (c_address_book_id c)"
    and id: "c_id c \<in> c_id ` set (t_contacts (w_db w)) \<union> w_uuid w ` {n. n < w_minted w}"
  shows "book_inv u w'" "book_view L u w' = (book_view L u w)(c_uid c \<mapsto> item_of L c)"
    "c_id c \<notin> c_id ` set (t_contacts (w_db w)) \<Longrightarrow> book_view L u w (c_uid c) = None"
proof -
  obtain cs' where ms: "may_save c (w_db w)" and db: "w_db w' = saved c cs' (w_db w)" using Save_commit [OF sv] by blast
  have ok: "tables_ok (w_db w)" using inv by (simp add: book_inv_def)
  show "book_view L u w' = (book_view L u w)(c_uid c \<mapsto> item_of L c)" by (rule book_view_saved [OF ok ms key db b])
  show "book_view L u w (c_uid c) = None" if "c_id c \<notin> c_id ` set (t_contacts (w_db w))"
  proof -
    have "card_row (w_db w) (c_address_book_id c) (c_uid c) \<noteq> Some x" for x
    proof
      assume "card_row (w_db w) (c_address_book_id c) (c_uid c) = Some x"
      then have "x \<in> set (t_contacts (w_db w))" "card_key c = card_key x" unfolding card_row_iff [OF ok] by simp_all
      then have "card_key c \<in> card_key ` set (t_contacts (w_db w))" by (rule rev_image_eqI)
      with may_save_new [OF ms that] show False by blast
    qed
    then have "card_row (w_db w) (c_address_book_id c) (c_uid c) = None" by (metis not_None_eq)
    then show ?thesis using b by (simp add: book_view_def)
  qed
  have "fresh_contacts w'" using fresh_save [OF ok _ sv id] inv by (simp add: book_inv_def)
  then show "book_inv u w'" using tables_ok_saved [OF ok ms key] inv by (simp add: book_inv_def db)
qed


text \<open>A method that only reads keeps the book.\<close>

lemma book_inv_steady:
  assumes "steady m" "m w = (r, w')" "w_db w' = w_db w" "book_inv u w"
  shows "book_inv u w' \<and> book_view L u w' = book_view L u w"
  using book_inv_same [OF assms(4,3)] steadyD [OF assms(1,2)] by blast

lemma wrapErr_cases:
  assumes "wrapErr h m w = (r, w')"
  obtains e where "m w = (Inl e, w')" "r = Inl (h e)" | x where "m w = (Inr x, w')" "r = Inr x"
  using assms by (auto simp: wrapErr_def split: prod.splits sum.splits)

lemma andThen_cases:
  assumes "andThen m f w = (r, w')"
  obtains e where "m w = (Inl e, w')" "r = Inl e" | x w1 where "m w = (Inr x, w1)" "f x w1 = (r, w')"
  using assms by (auto simp: andThen_def split: prod.splits sum.splits)

text \<open>The book, then one more call.\<close>

lemma with_book:
  assumes inv: "book_inv u w" and run: "andThen (wrapErr ProvDB (GetOrCreateByUserID u)) f w = (r, w')"
  obtains e where "r = Inl e" "book_inv u w'" "book_view L u w' = book_view L u w"
  | ab w1 where "f ab w1 = (r, w')" "user_book_id (w_db w1) u = Some (ab_id ab)" "book_inv u w1"
    "book_view L u w1 = book_view L u w" "w_minted w \<le> w_minted w1"
proof -
  obtain b where b: "user_book_id (w_db w) u = Some b" using inv by (auto simp: book_inv_def)
  show ?thesis
    using run
  proof (cases rule: andThen_cases)
    case (1 e)
    then obtain e' where g: "GetOrCreateByUserID u w = (Inl e', w')" by (auto elim: wrapErr_cases)
    with GetOrCreate_book [OF b g] book_inv_steady [OF steady_repo(1) g _ inv] 1 that(1) show ?thesis by blast
  next
    case (2 ab w1)
    then have g: "GetOrCreateByUserID u w = (Inr ab, w1)" by (simp add: wrapErr_Inr)
    with GetOrCreate_book [OF b g] book_inv_steady [OF steady_repo(1) g _ inv, of L] 2 b
      steadyD(2) [OF steady_repo(1) g] that(2) [of ab w1] show ?thesis by simp
  qed
qed

lemma internal_List_ok:
  assumes inv: "book_inv u w" and run: "internal_List L u w = (r, w')"
  shows "book_inv u w' \<and> book_view L u w' = book_view L u w \<and> (\<forall>items. r = Inr items \<longrightarrow> lists items (book_view L u w))"
  using inv run [unfolded internal_List_def]
proof (cases rule: with_book [where L = L])
  case (2 ab w1)
  have ro: "readonly (ListAll (ab_id ab))" by (simp add: ListAll_def effects)
  from 2(1) show ?thesis
  proof (cases rule: andThen_cases)
    case (1 e)
    then obtain e' where l: "ListAll (ab_id ab) w1 = (Inl e', w')" by (auto elim: wrapErr_cases)
    with book_inv_steady [OF steady_repo(3) l readonlyD [OF ro l] 2(3), of L] 2(4) 1 show ?thesis by simp
  next
    case l: (2 cs w2)
    then have l': "ListAll (ab_id ab) w1 = (Inr cs, w2)" and r: "r = Inr (map (item_of L) cs)" "w' = w2"
      by (simp_all add: wrapErr_Inr prog_simps)
    have cs: "cs = by_name (filter (in_book (ab_id ab)) (t_contacts (w_db w1)))"
      using query_Inr_db [OF l' [unfolded ListAll_def]] by simp
    have ok: "tables_ok (w_db w1)" using 2(3) by (simp add: book_inv_def)
    have "inj_on c_uid (set cs)"
      using ok by (auto simp: cs tables_ok_def distinct_map inj_on_def in_book_def)
    moreover have "distinct cs" using ok by (simp add: cs tables_ok_def distinct_map)
    ultimately have "distinct (map si_remote_id (map (item_of L) cs))"
      by (simp add: distinct_map comp_def item_of_def inj_on_def)
    moreover have "book_view L u w1 k = Some i \<longleftrightarrow> i \<in> set (map (item_of L) cs) \<and> si_remote_id i = k" for k i
      using card_row_iff [OF ok, of "ab_id ab" k] 2(2)
      by (auto simp: book_view_def cs item_of_def in_book_def)
    ultimately have "lists (map (item_of L) cs) (book_view L u w)" unfolding lists_def 2(4) [symmetric] by blast
    with book_inv_steady [OF steady_repo(3) l' readonlyD [OF ro l'] 2(3), of L] 2(4) r show ?thesis by simp
  qed
qed simp

lemma internal_lookup:
  assumes inv: "book_inv u w" and b: "user_book_id (w_db w) u = Some b" and run: "GetByUID b k w = (r, w')"
  shows "book_inv u w' \<and> book_view L u w' = book_view L u w \<and> w_db w' = w_db w \<and> w_minted w \<le> w_minted w'
    \<and> (\<forall>x. r = Inr x \<longrightarrow> x = card_row (w_db w) b k \<and> map_option (item_of L) x = book_view L u w k)"
proof -
  note db = readonlyD [OF readonly_GetByUID(1) run]
  have "x = card_row (w_db w) b k" if "r = Inr x" for x
    using that run query_Inr_db [of _ w x w'] unfolding GetByUID_def card_row_def by blast
  then show ?thesis
    using book_inv_steady [OF steady_repo(2) run db inv, of L] db b steadyD(2) [OF steady_repo(2) run]
    by (auto simp: book_view_def)
qed

lemma internal_Get_ok:
  assumes inv: "book_inv u w" and run: "internal_Get L u k w = (r, w')"
  shows "book_inv u w' \<and> book_view L u w' = book_view L u w \<and> (\<forall>x. r = Inr x \<longrightarrow> x = book_view L u w k)"
  using inv run [unfolded internal_Get_def]
proof (cases rule: with_book [where L = L])
  case (2 ab w1)
  from 2(1) show ?thesis
  proof (cases rule: andThen_cases)
    case (1 e)
    then obtain e' where l: "GetByUID (ab_id ab) k w1 = (Inl e', w')" by (auto elim: wrapErr_cases)
    with internal_lookup [OF 2(3,2) l, of L] 2(4) 1 show ?thesis by simp
  next
    case l: (2 c w2)
    then have l': "GetByUID (ab_id ab) k w1 = (Inr c, w2)" and r: "r = Inr (map_option (item_of L) c)" "w' = w2"
      by (simp_all add: wrapErr_Inr prog_simps)
    with internal_lookup [OF 2(3,2) l', of L] 2(4) show ?thesis by auto
  qed
qed simp

lemma internal_Delete_ok:
  assumes inv: "book_inv u w" and run: "internal_Delete u k w = (r, w')"
  shows "book_inv u w' \<and> book_view L u w' = (if r = Inr () then (book_view L u w)(k := None) else book_view L u w)"
  using inv run [unfolded internal_Delete_def]
proof (cases rule: with_book [where L = L])
  case (2 ab w1)
  from 2(1) show ?thesis
  proof (cases rule: andThen_cases)
    case (1 e)
    then obtain e' where l: "GetByUID (ab_id ab) k w1 = (Inl e', w')" by (auto elim: wrapErr_cases)
    with internal_lookup [OF 2(3,2) l, of L] 2(4) 1 show ?thesis by simp
  next
    case l: (2 found w2)
    then have l': "GetByUID (ab_id ab) k w1 = (Inr found, w2)" by (simp add: wrapErr_Inr)
    note lk = internal_lookup [OF 2(3,2) l', of L]
    have b2: "user_book_id (w_db w2) u = Some (ab_id ab)" using lk 2(2) by simp
    show ?thesis
    proof (cases found)
      case None
      then have "book_view L u w2 k = None" "r = Inr ()" "w' = w2" using lk l by (auto simp: prog_simps)
      then show ?thesis using lk 2(4) by auto
    next
      case (Some c)
      have c: "c \<in> set (t_contacts (w_db w2))" "card_key c = (ab_id ab, k)" and ok: "tables_ok (w_db w2)"
        using lk Some card_row_iff [of "w_db w1" "ab_id ab" k c] by (auto simp: book_inv_def)
      from l(2) Some have "wrapErr ProvDB (Delete (c_id c)) w2 = (r, w')" by simp
      then show ?thesis
      proof (cases rule: wrapErr_cases)
        case (1 e)
        have "w_db w' = w_db w2" using 1(1) unfolding Delete_def by (rule RunInTx_Inl)
        with book_inv_steady [OF steady_repo(4) 1(1) this, of u L] lk 2(4) 1 show ?thesis by simp
      next
        case (2 x)
        obtain b ts where db: "w_db w' = buried (\<lambda>c'. c_id c' = c_id c) ts (bumped b (w_db w2))"
          using Delete_commit [of "c_id c" w2 w'] 2(1) c by auto
        note st = steadyD [OF steady_repo(4) 2(1)]
        have "fresh_contacts w'"
          by (rule fresh_contacts_mono [of w2]) (use lk st in \<open>auto simp: book_inv_def db\<close>)
        then have "book_inv u w'" using b2 tables_ok_without [OF ok] by (simp add: book_inv_def db)
        moreover have "book_view L u w' = (book_view L u w2)(k := None)"
          using b2 c by (auto simp: book_view_def db card_row_buried [OF ok c(1)] fun_eq_iff)
        ultimately show ?thesis using lk \<open>book_view L u w1 = book_view L u w\<close> 2 by simp
      qed
    qed
  qed
qed simp


text \<open>The last steps of a put: the child records, then the save.\<close>

lemma internal_store:
  assumes inv: "book_inv u w" and key: "keeps_key c (w_db w)"
    and b: "user_book_id (w_db w) u = Some (c_address_book_id c)"
    and id: "c_id c \<in> c_id ` set (t_contacts (w_db w)) \<union> w_uuid w ` {n. n < w_minted w}"
    and run: "andThen (ChildRecordsFor cid parsed) (\<lambda>children. andThen (wrapErr ProvDB (Save c children)) (\<lambda>_. ret res)) w = (r, w')"
  shows "book_inv u w' \<and> (if r = Inr res then book_view L u w' = (book_view L u w)(c_uid c \<mapsto> item_of L c)
        \<and> (c_id c \<notin> c_id ` set (t_contacts (w_db w)) \<longrightarrow> book_view L u w (c_uid c) = None)
     else book_view L u w' = book_view L u w \<and> (\<exists>e. r = Inl e))"
  using run
proof (cases rule: andThen_cases)
  case (1 e)
  with book_inv_steady [OF steady_repo(6) 1(1) readonlyD [OF readonly_ChildRecordsFor 1(1)] inv, of L] show ?thesis by simp
next
  case (2 children w1)
  note db = readonlyD [OF readonly_ChildRecordsFor 2(1)]
  note st = steadyD [OF steady_repo(6) 2(1)]
  have k: "book_inv u w1" "book_view L u w1 = book_view L u w"
    using book_inv_steady [OF steady_repo(6) 2(1) db inv, of L] by simp_all
  have id1: "c_id c \<in> c_id ` set (t_contacts (w_db w1)) \<union> w_uuid w1 ` {n. n < w_minted w1}"
    using id st by (auto simp: db)
  from 2(2) show ?thesis
  proof (cases rule: andThen_cases)
    case (1 e)
    then obtain e' where sv: "Save c children w1 = (Inl e', w')" by (auto elim: wrapErr_cases)
    with book_inv_steady [OF steady_repo(5) sv Save_rollback [OF sv] k(1), of L] k(2) 1 show ?thesis by simp
  next
    case (2 x w2)
    then have sv: "Save c children w1 = (Inr (), w2)" and r: "r = Inr res" "w' = w2" by (simp_all add: wrapErr_Inr prog_simps)
    have "keeps_key c (w_db w1)" "user_book_id (w_db w1) u = Some (c_address_book_id c)" using key b db by simp_all
    from internal_save(1) [OF k(1) sv this id1] internal_save(2,3) [OF k(1) sv this id1, where L = L] r k(2) db
    show ?thesis by simp
  qed
qed

lemma put_new_id:
  assumes inv: "book_inv u w" and run: "andThen (if rid = [] then mint else ret rid) (\<lambda>cuid. andThen mint (f cuid)) w = (r, w')"
  obtains cuid i w1 where "f cuid i w1 = (r, w')" "rid \<noteq> [] \<Longrightarrow> cuid = rid" "i \<notin> c_id ` set (t_contacts (w_db w))"
    "i \<in> w_uuid w1 ` {n. n < w_minted w1}" "w_db w1 = w_db w" "book_inv u w1" "book_view L u w1 = book_view L u w"
    "rid = [] \<Longrightarrow> cuid = w_uuid w (w_minted w)"
proof -
  let ?n = "if rid = [] then Suc (w_minted w) else w_minted w"
  let ?w = "w\<lparr>w_minted := Suc ?n\<rparr>"
  have run': "f (if rid = [] then w_uuid w (w_minted w) else rid) (w_uuid w ?n) ?w = (r, w')"
    using run by (simp add: andThen_def prog_simps split: if_splits)
  moreover have "w_uuid w ?n \<notin> c_id ` set (t_contacts (w_db w))" using inv by (auto simp: book_inv_def fresh_contacts_def)
  moreover have "book_inv u ?w \<and> book_view L u ?w = book_view L u w" by (rule book_inv_same [OF inv]) simp_all
  moreover have "w_uuid w ?n \<in> w_uuid ?w ` {n. n < w_minted ?w}" by (rule image_eqI [of _ _ ?n]) simp_all
  ultimately show ?thesis by (intro that [of "if rid = [] then w_uuid w (w_minted w) else rid" "w_uuid w ?n" ?w]) simp_all
qed

lemma item_of_applied [simp]:
  "item_of L (ApplyToContact c p) = item_of L c"
  by (simp add: item_of_def)

lemma internal_Put_ok:
  assumes inv: "book_inv u w" and run: "internal_Put L u item w = (r, w')"
  shows "book_inv u w' \<and> (case r of Inr x \<Rightarrow> stores item (book_view L u w) x (book_view L u w') | Inl _ \<Rightarrow> book_view L u w' = book_view L u w)"
  using inv run [unfolded internal_Put_def]
proof (cases rule: with_book [where L = L])
  case (1 e)
  then show ?thesis by simp
next
  case (2 ab w1)
  from 2(1) show ?thesis
  proof (cases rule: andThen_cases)
    case (1 e)
    then obtain e' where l: "GetByUID (ab_id ab) (si_remote_id item) w1 = (Inl e', w')" by (auto elim: wrapErr_cases)
    with internal_lookup [OF 2(3,2) l, of L] 2(4) 1 show ?thesis by simp
  next
    case l: (2 existing w2)
    then have l': "GetByUID (ab_id ab) (si_remote_id item) w1 = (Inr existing, w2)" by (simp add: wrapErr_Inr)
    note lk = internal_lookup [OF 2(3,2) l', of L]
    have b2: "user_book_id (w_db w2) u = Some (ab_id ab)" using lk 2(2) by simp
    have v2: "book_view L u w2 = book_view L u w" using lk 2(4) by simp
    let ?p = "case ParseVCard L (si_vcard item) of Inl _ \<Rightarrow> empty_parsed | Inr p \<Rightarrow> p"
    let ?t = "w_now w2" and ?e = "etag_of L (si_vcard item)"
    show ?thesis
    proof (cases existing)
      case (Some c)
      have c: "c \<in> set (t_contacts (w_db w2))" "card_key c = (ab_id ab, si_remote_id item)" and ok: "tables_ok (w_db w2)"
        using lk Some card_row_iff [of "w_db w1" "ab_id ab" "si_remote_id item" c] by (auto simp: book_inv_def)
      let ?c = "ApplyToContact (c\<lparr>c_vcard_data := si_vcard item, c_etag := ?e, c_updated_at := ?t\<rparr>) ?p"
      have "keeps_key ?c (w_db w2)"
        using c ok by (auto simp: keeps_key_def tables_ok_def distinct_map inj_on_def)
      moreover have "andThen (ChildRecordsFor (c_id c) ?p) (\<lambda>children. andThen (wrapErr ProvDB (Save ?c children))
          (\<lambda>_. ret \<lparr>pr_remote_id = c_uid c, pr_etag = ?e\<rparr>)) w2 = (r, w')"
        using l(2) Some by (simp add: andThen_def [of now] prog_simps Let_def)
      ultimately have "book_inv u w' \<and> (if r = Inr \<lparr>pr_remote_id = c_uid c, pr_etag = ?e\<rparr>
          then book_view L u w' = (book_view L u w2)(c_uid ?c \<mapsto> item_of L ?c)
             \<and> (c_id ?c \<notin> c_id ` set (t_contacts (w_db w2)) \<longrightarrow> book_view L u w2 (c_uid ?c) = None)
          else book_view L u w' = book_view L u w2 \<and> (\<exists>e. r = Inl e))"
        using lk c b2 by (intro internal_store) auto
      moreover have "book_view L u w (si_remote_id item) = Some (item_of L c)" using lk Some 2(4) by auto
      ultimately show ?thesis using v2 c by (auto simp: stores_def item_of_def split: if_splits)
    next
      case None
      have new: "book_view L u w (si_remote_id item) = None" using lk None 2(4) by auto
      let ?c = "\<lambda>cuid i. ApplyToContact (blank_contact\<lparr>c_id := i, c_address_book_id := ab_id ab, c_uid := cuid, c_etag := ?e,
          c_vcard_data := si_vcard item, c_created_at := ?t, c_updated_at := ?t\<rparr>) ?p"
      let ?f = "\<lambda>cuid i. andThen (ChildRecordsFor i ?p) (\<lambda>children. andThen (wrapErr ProvDB (Save (?c cuid i) children))
          (\<lambda>_. ret \<lparr>pr_remote_id = cuid, pr_etag = ?e\<rparr>))"
      have run2: "andThen (if si_remote_id item = [] then mint else ret (si_remote_id item)) (\<lambda>cuid. andThen mint (?f cuid)) w2 = (r, w')"
        using l(2) None by (simp add: andThen_def [of now] prog_simps Let_def)
      have inv2: "book_inv u w2" using lk by simp
      obtain cuid i w3 where run3: "?f cuid i w3 = (r, w')" and i: "i \<notin> c_id ` set (t_contacts (w_db w2))"
        and i3: "i \<in> w_uuid w3 ` {n. n < w_minted w3}" and db3: "w_db w3 = w_db w2" and inv3: "book_inv u w3"
        and v3: "book_view L u w3 = book_view L u w2"
        by (rule put_new_id [OF inv2 run2, where L = L]) blast
      have "book_inv u w' \<and> (if r = Inr \<lparr>pr_remote_id = cuid, pr_etag = ?e\<rparr>
          then book_view L u w' = (book_view L u w3)(c_uid (?c cuid i) \<mapsto> item_of L (?c cuid i))
             \<and> (c_id (?c cuid i) \<notin> c_id ` set (t_contacts (w_db w3)) \<longrightarrow> book_view L u w3 (c_uid (?c cuid i)) = None)
          else book_view L u w' = book_view L u w3 \<and> (\<exists>e. r = Inl e))"
        using inv3 run3 i i3 db3 b2 by (intro internal_store) (auto intro: keeps_key_new)
      then show ?thesis
        using v2 v3 new i db3 by (auto simp: stores_def item_of_def split: if_splits)
    qed
  qed
qed

lemma internal_List_db:
  assumes "book_inv u w" "internal_List L u w = (r, w')"
  shows "w_db w' = w_db w"
proof -
  obtain b where b: "user_book_id (w_db w) u = Some b" using assms(1) by (auto simp: book_inv_def)
  have ro: "readonly (andThen (wrapErr ProvDB (ListAll i)) (\<lambda>cs. ret (map (item_of L) cs)))" for i
    by (simp add: ListAll_def effects)
  from assms(2) [unfolded internal_List_def] show ?thesis
  proof (cases rule: andThen_cases)
    case (1 e)
    then show ?thesis using GetOrCreate_book [OF b] by (auto elim!: wrapErr_cases)
  next
    case (2 ab w1)
    then have "GetOrCreateByUserID u w = (Inr ab, w1)" by (simp add: wrapErr_Inr)
    then show ?thesis using GetOrCreate_book [OF b] readonlyD [OF ro 2(2)] by simp
  qed
qed

interpretation internal: sync_provider "InternalProvider L u" "book_view L u" "book_inv u" for L u
proof
  show "book_inv u w' \<and> book_view L u w' = book_view L u w \<and> lists items (book_view L u w)"
    if "book_inv u w" "p_list (InternalProvider L u) w = (Inr items, w')" for w items w'
    using internal_List_ok [OF that(1)] that(2) by (simp add: InternalProvider_def)
  show "book_inv u w' \<and> book_view L u w' = book_view L u w"
    if "book_inv u w" "p_list (InternalProvider L u) w = (Inl e, w')" for w e w'
    using internal_List_ok [OF that(1)] that(2) by (simp add: InternalProvider_def)
  show "book_inv u w' \<and> book_view L u w' = book_view L u w \<and> x = book_view L u w k"
    if "book_inv u w" "p_get (InternalProvider L u) k w = (Inr x, w')" for w k x w'
    using internal_Get_ok [OF that(1)] that(2) by (simp add: InternalProvider_def)
  show "book_inv u w' \<and> book_view L u w' = book_view L u w"
    if "book_inv u w" "p_get (InternalProvider L u) k w = (Inl e, w')" for w k e w'
    using internal_Get_ok [OF that(1)] that(2) by (simp add: InternalProvider_def)
  show "book_inv u w' \<and> stores item (book_view L u w) r (book_view L u w')"
    if "book_inv u w" "p_put (InternalProvider L u) item w = (Inr r, w')" for w item r w'
    using internal_Put_ok [OF that(1)] that(2) by (force simp: InternalProvider_def)
  show "book_inv u w' \<and> book_view L u w' = book_view L u w"
    if "book_inv u w" "p_put (InternalProvider L u) item w = (Inl e, w')" for w item e w'
    using internal_Put_ok [OF that(1)] that(2) by (force simp: InternalProvider_def)
  show "book_inv u w' \<and> book_view L u w' = (book_view L u w)(k := None)"
    if "book_inv u w" "p_delete (InternalProvider L u) k w = (Inr (), w')" for w k w'
    using internal_Delete_ok [OF that(1), of k "Inr ()" w' L] that(2) by (simp add: InternalProvider_def)
  show "book_inv u w' \<and> book_view L u w' = book_view L u w"
    if "book_inv u w" "p_delete (InternalProvider L u) k w = (Inl e, w')" for w k e w'
    using internal_Delete_ok [OF that(1), of k "Inl e" w' L] that(2) by (simp add: InternalProvider_def)
  show "book_inv u w' \<and> book_view L u w' = book_view L u w"
    if "book_inv u w" "own_tables_only w w'" for w w'
    using that by (auto simp: own_tables_only_def book_inv_def book_view_def fun_eq_iff user_book_id_def card_row_def
        tables_ok_def has_book_def intro: fresh_contacts_mono)
  show "t_sync_states (w_db w') = t_sync_states (w_db w)"
    if "book_inv u w" "p_list (InternalProvider L u) w = (r, w')" for w r w'
    using internal_List_db [OF that(1)] that(2) by (simp add: InternalProvider_def)
qed

section \<open>A plain remote collection\<close>

text \<open>The remote server of the closed examples: its cards are \<open>w_remote\<close>, a write gives a fresh
  ETag, and \<open>PutIfMatch\<close> compares.\<close>

definition remote_item :: "remote_card \<Rightarrow> sync_item" where
  "remote_item c = \<lparr>si_remote_id = rc_id c, si_etag = rc_etag c, si_content_hash = [], si_vcard = rc_vcard c\<rparr>"

definition remote_view :: "world \<Rightarrow> string \<Rightarrow> sync_item option" where
  "remote_view w k = map_option remote_item (find (\<lambda>c. rc_id c = k) (w_remote w))"

definition plain_put :: "sync_item \<Rightarrow> (provider_error, put_result) prog" where
  "plain_put item = andThen mint (\<lambda>e w.
     let k = si_remote_id item; c = \<lparr>rc_id = k, rc_etag = e, rc_vcard = si_vcard item\<rparr>
     in (Inr \<lparr>pr_remote_id = k, pr_etag = e\<rparr>,
         w\<lparr>w_remote := (if k \<in> rc_id ` set (w_remote w) then upsert_row rc_id c (w_remote w) else w_remote w @ [c])\<rparr>))"

definition plain_put_if :: "sync_item \<Rightarrow> string \<Rightarrow> (provider_error, put_result) prog" where
  "plain_put_if item e w =
     (if (case remote_view w (si_remote_id item) of None \<Rightarrow> e = [] | Some c \<Rightarrow> e \<noteq> [] \<and> si_etag c = e)
      then plain_put item w else (Inl ErrPreconditionFailed, w))"

definition plain_remote :: provider where
  "plain_remote = \<lparr>p_name = ''remote'', p_list = (\<lambda>w. (Inr (map remote_item (w_remote w)), w)),
     p_get = (\<lambda>k w. (Inr (remote_view w k), w)), p_put = plain_put,
     p_delete = (\<lambda>k w. (Inr (), w\<lparr>w_remote := filter (\<lambda>c. rc_id c \<noteq> k) (w_remote w)\<rparr>)),
     p_list_changes = None, p_put_if_match = Some plain_put_if\<rparr>"

section \<open>Properties\<close>

text \<open>The internal address book is a faithful provider: a card that \<open>Put\<close> reports as stored is
  read back byte for byte under the id and the ETag \<open>Put\<close> answered, an existing card keeps its
  id, and no other card of the book changes; this holds whatever the card contains, also when
  it does not parse.\<close>

theorem internal_Put_Get:
  assumes "book_inv u w" "internal_Put L u item w = (Inr r, w1)" "internal_Get L u (pr_remote_id r) w1 = (Inr x, w2)"
  shows "(\<exists>h. x = Some \<lparr>si_remote_id = pr_remote_id r, si_etag = pr_etag r, si_content_hash = h, si_vcard = si_vcard item\<rparr>)
    \<and> (book_view L u w (si_remote_id item) \<noteq> None \<longrightarrow> pr_remote_id r = si_remote_id item)
    \<and> (\<forall>k. k \<noteq> pr_remote_id r \<longrightarrow> book_view L u w1 k = book_view L u w k)"
proof -
  have p: "p_put (InternalProvider L u) item w = (Inr r, w1)" "p_get (InternalProvider L u) (pr_remote_id r) w1 = (Inr x, w2)"
    using assms(2,3) by (simp_all add: InternalProvider_def)
  show ?thesis
    using internal.put_get [OF assms(1) p] internal.put_ok [OF assms(1) p(1)]
    by (auto simp: stores_def split: if_splits)
qed

lemma small_book:
  "book_inv ''u'' (small_world small_db [])"
  by (auto simp: book_inv_def tables_ok_def fresh_contacts_def user_book_id_def select_one_def small_world_def small_db_def
      replicate_eq_replicate intro!: injI)

definition note_item :: sync_item where
  "note_item = \<lparr>si_remote_id = ''ada'', si_etag = [], si_content_hash = [], si_vcard = ''x''\<rparr>"

lemmas provider_eval = internal_Put_def internal_Get_def GetOrCreateByUserID_def GetByUserID_def GetByUID_def wrapErr_def
  ChildRecordsFor_def ToEmails_def ToPhones_def ToAddresses_def ToURLs_def ToIMs_def ToCategories_def ToDates_def
  in_book_def

theorem internal_Put_Get_witness:
  "\<exists>r w1 x w2. internal_Put (table_lib []) ''u'' note_item (small_world small_db []) = (Inr r, w1)
     \<and> internal_Get (table_lib []) ''u'' (pr_remote_id r) w1 = (Inr (Some x), w2) \<and> si_vcard x = ''x''"
proof -
  have "\<exists>r w1 x w2. internal_Put (table_lib []) ''u'' note_item (small_world small_db []) = (Inr r, w1)
      \<and> internal_Get (table_lib []) ''u'' (pr_remote_id r) w1 = (Inr x, w2)"
    by (simp add: provider_eval repo_eval note_item_def ParseVCard_def empty_parsed_def)
  then obtain r w1 x w2 where p: "internal_Put (table_lib []) ''u'' note_item (small_world small_db []) = (Inr r, w1)"
    and g: "internal_Get (table_lib []) ''u'' (pr_remote_id r) w1 = (Inr x, w2)" by blast
  from internal_Put_Get [OF small_book p g] p g show ?thesis by (fastforce simp: note_item_def)
qed

end
