(* ===== verification/SyncSafety.thy ===== *)
theory SyncSafety
  imports SyncProvider
begin

text \<open>
  What a sync run may do. Import: an aborted run changes nothing, deletions are bounded, an
  edit the user made since the last run is never overwritten unless the mode says so, and a
  book that agrees with its bookkeeping is left alone. Export: a remote edit is not overwritten.
  And two runs in which the engine loses an edit.
\<close>

section \<open>Bookkeeping programs\<close>

text \<open>The programs on the engine's own tables.\<close>

definition bookkeeping :: "('e, 'a) prog \<Rightarrow> bool" where
  "bookkeeping m \<longleftrightarrow> (\<forall>w r w'. m w = (r, w') \<longrightarrow> own_tables_only w w')"

named_theorems books \<open>bookkeeping programs\<close>

lemma own_tables_refl [simp]: "own_tables_only w w"
  by (simp add: own_tables_only_def)

lemma own_tables_trans: "own_tables_only w w1 \<Longrightarrow> own_tables_only w1 w2 \<Longrightarrow> own_tables_only w w2"
  by (auto simp: own_tables_only_def)

lemma bookkeeping_stmt:
  assumes "\<And>d x d'. q d = Inr (x, d') \<Longrightarrow> t_users d' = t_users d \<and> t_books d' = t_books d \<and> t_contacts d' = t_contacts d
     \<and> t_children d' = t_children d \<and> t_tombstones d' = t_tombstones d"
  shows "bookkeeping (stmt q)"
  using assms by (fastforce simp: bookkeeping_def own_tables_only_def stmt_def Let_def split: if_splits sum.splits)

lemma bookkeeping_basic [books]:
  "bookkeeping (ret x)" "bookkeeping (throw e)" "bookkeeping now" "bookkeeping mint" "bookkeeping (query f)"
  by (auto simp: bookkeeping_def own_tables_only_def prog_simps query_def stmt_def Let_def split: if_splits)

lemma bookkeeping_andThen [books]:
  assumes "bookkeeping m" "\<And>x. bookkeeping (f x)"
  shows "bookkeeping (andThen m f)"
  unfolding bookkeeping_def
proof (intro allI impI)
  fix w r w' assume "andThen m f w = (r, w')"
  then show "own_tables_only w w'"
    by (cases rule: andThen_cases) (use assms own_tables_trans in \<open>unfold bookkeeping_def, blast\<close>)+
qed

lemma bookkeeping_attempt [books]: "bookkeeping m \<Longrightarrow> bookkeeping (attempt m)"
  by (auto simp: bookkeeping_def attempt_def split: prod.splits)

lemma bookkeeping_cases [books]:
  "bookkeeping m \<Longrightarrow> (\<And>x. bookkeeping (f x)) \<Longrightarrow> bookkeeping (case y of None \<Rightarrow> m | Some x \<Rightarrow> f x)"
  "(\<And>e. bookkeeping (g e)) \<Longrightarrow> (\<And>x. bookkeeping (f x)) \<Longrightarrow> bookkeeping (case r of Inl e \<Rightarrow> g e | Inr x \<Rightarrow> f x)"
  "bookkeeping m \<Longrightarrow> bookkeeping m' \<Longrightarrow> bookkeeping (if b then m else m')"
  by (simp_all split: option.split sum.split)

lemma bookkeeping_store [books]:
  "bookkeeping (CreateState s)" "bookkeeping (UpdateState s)" "bookkeeping (DeleteState i)" "bookkeeping (CreateConflict c)"
  "bookkeeping (UpdateConflict c)" "bookkeeping (ListStates u p)" "bookkeeping (ListPendingByProvider u p)"
  "bookkeeping (GetCursor u p)" "bookkeeping (DeleteCursor u p)"
  unfolding CreateState_def UpdateState_def DeleteState_def CreateConflict_def UpdateConflict_def ListStates_def
    ListPendingByProvider_def GetCursor_def DeleteCursor_def
  by (auto intro!: books bookkeeping_stmt split: if_splits sum.splits)

lemma bookkeeping_SetCursor [books]: "bookkeeping (SetCursor u p c)"
  unfolding SetCursor_def
  by (intro books bookkeeping_stmt) (auto simp: upsert_cursor_def Let_def split: if_splits sum.splits)

lemma bookkeeping_recordConflict [books]: "bookkeeping (recordConflict E u p t prev li ri pending)"
  unfolding recordConflict_def Let_def by (intro books)

lemma bookkeeping_pending [books]: "bookkeeping (pendingConflictsByRemoteID E u p)"
  unfolding pendingConflictsByRemoteID_def by (intro books)

lemma recordConflict_returns: "recordConflict E u p t prev li ri q w \<noteq> (Inl e, w')"
  by (auto simp: recordConflict_def Let_def andThen_def attempt_def prog_simps split: option.splits sum.splits prod.splits)

lemma bookkeepingD: "bookkeeping m \<Longrightarrow> m w = (r, w') \<Longrightarrow> own_tables_only w w'"
  by (simp add: bookkeeping_def)

section \<open>Loops and maps\<close>

lemma andThen_ret: "andThen (ret x) f = f x"
  by (simp add: fun_eq_iff andThen_def prog_simps)

lemma counting_cases:
  assumes "counting m st f w = (r, w')"
  obtains e where "m w = (Inl e, w')" "r = Inr (failed st)" | x w1 where "m w = (Inr x, w1)" "f x w1 = (r, w')"
  using assms by (auto simp: counting_def andThen_def attempt_def prog_simps split: prod.splits sum.splits)

lemma attempt_run: "attempt m w = (r, w') \<longleftrightarrow> (\<exists>x. m w = (x, w') \<and> r = Inr x)"
  by (auto simp: attempt_def split: prod.splits)

lemma map_of_fold_update:
  "map_of (fold (\<lambda>x m. AList.update (key x) x m) xs m) k = Some x \<Longrightarrow> x \<in> set xs \<and> key x = k \<or> map_of m k = Some x"
proof (induction xs arbitrary: m)
  case (Cons y ys)
  from Cons.prems have "map_of (fold (\<lambda>x m. AList.update (key x) x m) ys (AList.update (key y) y m)) k = Some x" by simp
  from Cons.IH [OF this] show ?case by (cases "k = key y") (auto simp: update_conv')
qed simp

lemma map_of_index_by: "map_of (index_by key xs) k = Some x \<Longrightarrow> x \<in> set xs \<and> key x = k"
  using map_of_fold_update [of key xs "[]" k x] by (simp add: index_by_def)

lemma keys_update: "fst ` set (AList.update k v al) = insert k (fst ` set al)"
  by (induction al) auto

lemma keys_index_by: "fst ` set (index_by key xs) = key ` set xs"
proof -
  have "fst ` set (fold (\<lambda>x m. AList.update (key x) x m) xs m) = key ` set xs \<union> fst ` set m" for m
    by (induction xs arbitrary: m) (auto simp: keys_update)
  then show ?thesis by (simp add: index_by_def)
qed

lemma distinct_index_by: "distinct (map fst (index_by key xs))"
proof -
  have "distinct (map fst m) \<Longrightarrow> distinct (map fst (fold (\<lambda>x m. AList.update (key x) x m) xs m))" for m
    by (induction xs arbitrary: m) (auto simp: distinct_update)
  then show ?thesis by (simp add: index_by_def)
qed

lemma index_by_None: "map_of (index_by key xs) k = None \<longleftrightarrow> k \<notin> key ` set xs"
  by (simp add: map_of_eq_None_iff keys_index_by)

lemma index_by_lists:
  assumes "lists items v"
  shows "map_of (index_by si_remote_id items) = v"
proof
  fix k
  show "map_of (index_by si_remote_id items) k = v k"
  proof (cases "map_of (index_by si_remote_id items) k")
    case None
    then have "v k \<noteq> Some i" for i using assms by (auto simp: index_by_None lists_def)
    then show ?thesis using None by (metis not_None_eq)
  next
    case (Some i)
    from map_of_index_by [OF this] assms have "v k = Some i" unfolding lists_def by blast
    with Some show ?thesis by simp
  qed
qed

section \<open>Import keeps local edits\<close>

text \<open>The tracked states that point at the card \<open>k\<close> have an older ETag of it, and are none of
  those to delete.\<close>

definition guarded :: "string \<Rightarrow> sync_item \<Rightarrow> string set \<Rightarrow> (string \<times> sync_state) list \<Rightarrow> bool" where
  "guarded k c D prevs \<longleftrightarrow>
     (\<forall>rid prev. map_of prevs rid = Some prev \<longrightarrow> ss_local_id prev = k \<longrightarrow> ss_local_etag prev \<noteq> si_etag c \<and> rid \<notin> D)"

lemma guarded_update:
  "guarded k c D prevs \<Longrightarrow> ss_local_id prev \<noteq> k \<Longrightarrow> guarded k c D (AList.update rid prev prevs)"
  by (auto simp: guarded_def update_conv' split: if_splits)

lemma results_prev [simp]:
  "ps_prev (failed st) = ps_prev st" "ps_prev (created st) = ps_prev st" "ps_prev (updated st) = ps_prev st"
  "ps_prev (removed st) = ps_prev st" "ps_prev (skipped st) = ps_prev st" "ps_prev (clashed st) = ps_prev st"
  by (simp_all add: failed_def created_def updated_def removed_def skipped_def clashed_def)

lemma triple_counting:
  assumes "triple P m R (\<lambda>_. Q (failed st))" "\<And>x. triple (R x) (f x) Q E"
  shows "triple P (counting m st f) Q E"
  unfolding counting_def
proof (rule triple_andThen)
  show "triple P (attempt m) (\<lambda>r. case r of Inl _ \<Rightarrow> Q (failed st) | Inr x \<Rightarrow> R x) E"
    using assms(1) by (intro triple_attempt) simp
next
  show "triple (case r of Inl _ \<Rightarrow> Q (failed st) | Inr x \<Rightarrow> R x) (case r of Inl _ \<Rightarrow> ret (failed st) | Inr x \<Rightarrow> f x) Q E" for r
    using assms(2) by (cases r) (auto intro: triple_ret)
qed

context card_view
begin

text \<open>A bookkeeping step, whatever its outcome.\<close>

lemma bookkeeping_step: "bookkeeping m \<Longrightarrow> m w = (r, w') \<Longrightarrow> inv w \<Longrightarrow> inv w' \<and> view w' = view w"
  using others bookkeepingD by blast

lemma triple_book:
  assumes "bookkeeping m"
  shows "triple (\<lambda>w. inv w \<and> B (view w)) m (\<lambda>_ w. inv w \<and> B (view w)) (\<lambda>_ w. inv w \<and> B (view w))"
  using bookkeeping_step [OF assms] by (intro tripleI) fastforce+

text \<open>What a step of a phase keeps: the card \<open>k\<close> as \<open>c\<close>, and the guard \<open>G\<close> over the states.\<close>

definition kept :: "string \<Rightarrow> sync_item \<Rightarrow> ((string \<times> sync_state) list \<Rightarrow> bool) \<Rightarrow> string set \<Rightarrow> phase_state \<Rightarrow> world \<Rightarrow> bool" where
  "kept k c G T st w \<longleftrightarrow> inv w \<and> view w k = Some c \<and> G (ps_prev st) \<and> dom (map_of (ps_prev st)) = T"

lemma kept_results [simp]:
  "kept k c G T (failed st) w = kept k c G T st w" "kept k c G T (created st) w = kept k c G T st w"
  "kept k c G T (updated st) w = kept k c G T st w" "kept k c G T (removed st) w = kept k c G T st w"
  "kept k c G T (skipped st) w = kept k c G T st w" "kept k c G T (clashed st) w = kept k c G T st w"
  "kept k c G T (st\<lparr>ps_pending := q\<rparr>) w = kept k c G T st w"
  "kept k c G T (failed st) = kept k c G T st"
  by (simp_all add: kept_def fun_eq_iff)

lemma kept_book: "bookkeeping m \<Longrightarrow> triple (kept k c G T st) m (\<lambda>_. kept k c G T st) (\<lambda>_. kept k c G T st)"
  using triple_book [of m "\<lambda>v. v k = Some c \<and> G (ps_prev st) \<and> dom (map_of (ps_prev st)) = T"]
  by (simp add: kept_def [abs_def])

lemma kept_counting:
  "bookkeeping m \<Longrightarrow> (\<And>x. triple (kept k c G T st) (f x) (kept k c G T) E) \<Longrightarrow>
   triple (kept k c G T st) (counting m st f) (kept k c G T) E"
  by (rule triple_counting [where R = "\<lambda>_. kept k c G T st"]) (simp_all add: kept_book)

lemma kept_mint: "triple (kept k c G T st) mint (\<lambda>_. kept k c G T st) E"
  using triple_Inr [OF kept_book [OF bookkeeping_basic(4)]] by (intro triple_mint) (simp add: prog_simps)

lemma kept_recordConflict:
  "triple (kept k c G T st) (recordConflict E u p t prev li ri q) (\<lambda>_. kept k c G T st) (\<lambda>_ _. False)"
  by (rule tripleI) (auto simp: recordConflict_returns dest: triple_Inr [OF kept_book [OF bookkeeping_recordConflict]])

lemma kept_ret: "(\<And>w. kept k c G T st w \<Longrightarrow> kept k c G T st' w) \<Longrightarrow> triple (kept k c G T st) (ret st') (kept k c G T) E"
  by (rule triple_ret)

lemma kept_total:
  assumes "bookkeeping m" "\<And>w e w'. m w \<noteq> (Inl e, w')"
  shows "triple (kept k c G T st) m (\<lambda>_. kept k c G T st) (\<lambda>_ _. False)"
  using assms(2) by (intro tripleI) (auto dest: triple_Inr [OF kept_book [OF assms(1)]])

end

context sync_provider
begin

lemma apply_remote_keeps:
  assumes "ss_local_id prev \<noteq> k" "rid \<in> T"
  shows "triple (kept k c (guarded k c D) T st) (apply_remote E P t rid item prev vc st) (kept k c (guarded k c D) T) (\<lambda>_ _. False)"
  unfolding apply_remote_def Let_def
proof (rule triple_counting)
  let ?prev = "\<lambda>pr. prev\<lparr>ss_remote_etag := si_etag item, ss_local_id := pr_remote_id pr, ss_local_etag := pr_etag pr,
    ss_content_hash := ContentHash (eng_lib E) vc, ss_base_vcard := vc, ss_last_synced_at := t\<rparr>"
  let ?st = "\<lambda>pr. st\<lparr>ps_prev := AList.update rid (?prev pr) (ps_prev st)\<rparr>"
  let ?out = "\<lparr>si_remote_id = ss_local_id prev, si_etag = ss_local_etag prev, si_content_hash = [], si_vcard = vc\<rparr>"
  show "triple (kept k c (guarded k c D) T st) (p_put P ?out) (\<lambda>pr. kept k c (guarded k c D) T (?st pr)) (\<lambda>_. kept k c (guarded k c D) T (failed st))"
  proof (rule tripleI)
    fix w pr w' assume k: "kept k c (guarded k c D) T st w" and put: "p_put P ?out w = (Inr pr, w')"
    then have "pr_remote_id pr \<noteq> k" using put_ok [of w ?out pr w'] assms(1)
      by (auto simp: kept_def stores_def split: if_splits)
    then have "guarded k c D (ps_prev (?st pr))" using k by (auto simp: kept_def intro: guarded_update)
    with put_keeps [OF _ put, of k c] k assms show "kept k c (guarded k c D) T (?st pr) w'"
      by (auto simp: kept_def update_conv' insert_absorb)
  next
    fix w e w' assume k: "kept k c (guarded k c D) T st w" and put: "p_put P ?out w = (Inl e, w')"
    with put_err [OF _ put] show "kept k c (guarded k c D) T (failed st) w'" by (simp add: kept_def)
  qed
  show "triple (kept k c (guarded k c D) T (?st pr)) (counting (UpdateState (?prev pr)) (?st pr) (\<lambda>_. ret (updated (?st pr)))) (kept k c (guarded k c D) T)
      (\<lambda>_ _. False)" for pr
    by (intro kept_counting kept_ret books) simp
qed

lemma pull_item_keeps:
  assumes cm: "cm \<notin> {ConflictAuto, ConflictSourceWins}" and lm: "map_of localMap k = Some c"
    and new: "rid \<notin> T \<Longrightarrow> si_remote_id (the (map_of remoteMap rid)) \<noteq> k"
  shows "triple (kept k c (guarded k c D) T st) (pull_item E u p P cm t localMap remoteMap rid st :: ('e, phase_state) prog) (kept k c (guarded k c D) T) (\<lambda>_ _. False)"
proof (cases "map_of (ps_prev st) rid")
  case None
  let ?item = "the (map_of remoteMap rid)"
  have put: "triple (kept k c (guarded k c D) T st) (p_put P ?item) (\<lambda>_. kept k c (guarded k c D) T st) (\<lambda>_. kept k c (guarded k c D) T (failed st))"
  proof (cases "rid \<in> T")
    case False
    then show ?thesis using put_keeps [where item = ?item and k = k and c = c] new by (intro tripleI) (auto simp: kept_def)
  qed (use None in \<open>auto intro!: tripleI simp: kept_def\<close>)
  have "triple (kept k c (guarded k c D) T st) (andThen mint (\<lambda>i. counting (CreateState (s i)) st (\<lambda>_. ret (created st)))) (kept k c (guarded k c D) T)
      (\<lambda>_ _. False)" for s
    by (rule triple_andThen [OF kept_mint]) (intro kept_counting kept_ret books, simp)
  with put show ?thesis unfolding pull_item_def Let_def None option.case by (intro triple_counting) assumption+
next
  case (Some prev)
  let ?item = "the (map_of remoteMap rid)"
  show ?thesis
  proof (cases "rid \<in> T \<and> guarded k c D (ps_prev st)")
    case True
    then have g: "ss_local_id prev = k \<Longrightarrow> ss_local_etag prev \<noteq> si_etag c" and T: "rid \<in> T"
      using Some by (auto simp: guarded_def)
    have ap: "ss_local_id prev \<noteq> k \<Longrightarrow> triple (kept k c (guarded k c D) T st) (apply_remote E P t rid ?item prev vc st) (kept k c (guarded k c D) T) (\<lambda>_ _. False)"
      for vc by (rule apply_remote_keeps [OF _ T])
    have "triple (kept k c (guarded k c D) T st) (ret q) (\<lambda>_. kept k c (guarded k c D) T st) (\<lambda>_ _. False)" for q
      by (rule triple_ret)
    note sk = triple_andThen [OF this] triple_andThen [OF kept_recordConflict]
    have sk: "triple (kept k c (guarded k c D) T st) (andThen (ret q) f) (kept k c (guarded k c D) T) (\<lambda>_ _. False)"
      "triple (kept k c (guarded k c D) T st) (andThen (recordConflict E u p t prev li ?item q) f) (kept k c (guarded k c D) T) (\<lambda>_ _. False)"
      if "f = (\<lambda>pending. ret (skipped ((clashed st)\<lparr>ps_pending := pending\<rparr>)))" for f :: "_ \<Rightarrow> ('e, phase_state) prog" and li q
      unfolding that by (rule sk, rule kept_ret, simp)+
    show ?thesis
    proof (cases "ss_local_id prev = k")
      case True
      then show ?thesis using lm g sk cm
        by (auto simp: pull_item_def Let_def Some auto_merged_def intro: kept_ret)
    next
      case False
      then show ?thesis using ap sk cm
        by (auto simp: pull_item_def Let_def Some auto_merged_def intro: kept_ret split: option.split)
    qed
  qed (use Some in \<open>auto intro!: tripleI simp: kept_def\<close>)
qed

lemma pull_deletion_keeps:
  assumes "rid \<in> D" "rid \<in> T"
  shows "triple (kept k c (guarded k c D) T st) (pull_deletion P rid st) (kept k c (guarded k c D) T) (\<lambda>_ _. False)"
proof (cases "rid \<in> dom (map_of (ps_prev st)) \<and> guarded k c D (ps_prev st)")
  case True
  then obtain prev where prev: "map_of (ps_prev st) rid = Some prev" "ss_local_id prev \<noteq> k"
    using assms by (auto simp: guarded_def)
  have "triple (kept k c (guarded k c D) T st) (p_delete P (ss_local_id prev)) (\<lambda>_. kept k c (guarded k c D) T st) (\<lambda>_. kept k c (guarded k c D) T (failed st))"
    using delete_keeps [where k = k] prev(2) by (intro tripleI) (auto simp: kept_def)
  then show ?thesis unfolding pull_deletion_def Let_def prev option.sel
    by (rule triple_counting) (intro kept_counting kept_ret books, simp)
qed (use assms in \<open>auto intro!: tripleI simp: kept_def\<close>)

end

section \<open>The remote side\<close>

text \<open>What the pull phase asks of the remote provider: listing reads.\<close>

definition listing_reads :: "provider \<Rightarrow> bool" where
  "listing_reads remote \<longleftrightarrow> readonly (p_list remote) \<and> steady (p_list remote)
     \<and> (\<forall>f cursor. p_list_changes remote = Some f \<longrightarrow> readonly (f cursor) \<and> steady (f cursor))"

lemma bookkeeping_reads: "readonly m \<Longrightarrow> steady m \<Longrightarrow> bookkeeping m"
  by (auto simp: bookkeeping_def own_tables_only_def dest: readonlyD steadyD)

lemma bookkeeping_wrapErr [books]: "bookkeeping m \<Longrightarrow> bookkeeping (wrapErr h m)"
  by (auto simp: bookkeeping_def elim!: wrapErr_cases)

lemma bookkeeping_remoteChanges:
  assumes "listing_reads remote"
  shows "bookkeeping (remoteChanges E u p remote)"
proof -
  have "bookkeeping (p_list remote)" "p_list_changes remote = Some f \<Longrightarrow> bookkeeping (f cursor)" for f cursor
    using assms by (auto simp: listing_reads_def intro: bookkeeping_reads)
  then show ?thesis unfolding remoteChanges_def by (auto split: option.split bool.split intro!: books)
qed

lemma remoteChanges_states:
  assumes "listing_reads remote"
  shows "preserves (\<lambda>d. t_sync_states d = S) (remoteChanges E u p remote)"
proof -
  have "preserves (\<lambda>d. t_sync_states d = S) (DeleteCursor u p)"
    unfolding DeleteCursor_def by (rule preserves_stmt) auto
  moreover have "preserves I (GetCursor u p)" for I by (simp add: GetCursor_def hoare)
  moreover have "preserves I (p_list remote)" "p_list_changes remote = Some f \<Longrightarrow> preserves I (f cursor)" for I f cursor
    using assms by (auto simp: listing_reads_def intro: preserves_readonly)
  ultimately show ?thesis unfolding remoteChanges_def by (auto split: option.split bool.split intro!: hoare)
qed

text \<open>The answer of the remote deletes no card tracked as \<open>k\<close> and has no new card of the id \<open>k\<close>.\<close>

definition spares :: "string \<Rightarrow> sync_state list \<Rightarrow> delta \<Rightarrow> bool" where
  "spares k states d \<longleftrightarrow>
     (\<forall>s \<in> set states. ss_local_id s = k \<longrightarrow>
        (if dl_full d then ss_remote_id s \<in> si_remote_id ` set (dl_updated d) else ss_remote_id s \<notin> set (dl_deleted d)))
     \<and> (\<forall>i \<in> set (dl_updated d). si_remote_id i = k \<longrightarrow> k \<in> ss_remote_id ` set states)"

lemma deletions_tracked:
  assumes "\<And>xs. set (ord xs) = set xs"
  shows "set (deletionsFromDelta ord d prevs remoteMap) \<subseteq> dom (map_of prevs)"
  using assms by (auto simp: deletionsFromDelta_def intro: weak_map_of_SomeI)

lemma spares_guarded:
  assumes "spares k states d" "\<And>xs. set (ord xs) = set xs"
    "\<And>s. s \<in> set states \<Longrightarrow> ss_local_id s = k \<Longrightarrow> ss_local_etag s \<noteq> si_etag c"
  shows "guarded k c (set (deletionsFromDelta ord d (index_by ss_remote_id states) (index_by si_remote_id (dl_updated d))))
    (index_by ss_remote_id states)"
  unfolding guarded_def
proof (intro allI impI conjI)
  fix rid prev
  assume *: "map_of (index_by ss_remote_id states) rid = Some prev" "ss_local_id prev = k"
  then have prev: "prev \<in> set states" "ss_remote_id prev = rid" using map_of_index_by by fast+
  with assms(3) * show "ss_local_etag prev \<noteq> si_etag c" by blast
  from assms(1) prev *(2) have "if dl_full d then rid \<in> si_remote_id ` set (dl_updated d) else rid \<notin> set (dl_deleted d)"
    by (auto simp: spares_def)
  then show "rid \<notin> set (deletionsFromDelta ord d (index_by ss_remote_id states) (index_by si_remote_id (dl_updated d)))"
    by (auto simp: deletionsFromDelta_def index_by_None split: if_splits)
qed

lemma pending_returns: "pendingConflictsByRemoteID E u p w \<noteq> (Inl e, w')"
  by (auto simp: pendingConflictsByRemoteID_def andThen_def attempt_def prog_simps split: sum.splits prod.splits)

text \<open>The pull phase after its three listings.\<close>

definition pull_rest ::
  "engine \<Rightarrow> (string list \<Rightarrow> string list) \<Rightarrow> string \<Rightarrow> string \<Rightarrow> provider \<Rightarrow> string \<Rightarrow> sync_result \<Rightarrow> delta \<Rightarrow>
   sync_item list \<Rightarrow> sync_state list \<Rightarrow> (sync_error, sync_result) prog" where
  "pull_rest E ord u p local cm result d localItems prevStates =
     (let remoteMap = index_by si_remote_id (dl_updated d); localMap = index_by si_remote_id localItems;
         prevs = index_by ss_remote_id prevStates; deletions = deletionsFromDelta ord d prevs remoteMap
     in case checkDeletionSafety (length deletions) (length prevs) of
          Some e \<Rightarrow> throw e
        | None \<Rightarrow>
            andThen (pendingConflictsByRemoteID E u p) (\<lambda>pending.
            andThen now (\<lambda>t.
            andThen (forEach (pull_item E u p local cm t localMap remoteMap) (ord (map fst remoteMap))
              \<lparr>ps_prev = prevs, ps_pending = pending, ps_result = result\<rparr>) (\<lambda>st1.
            andThen (forEach (pull_deletion local) deletions st1) (\<lambda>st2.
            andThen (if dl_cursor d \<noteq> [] \<and> eng_cursors E
                     then andThen (attempt (SetCursor u p (dl_cursor d))) (\<lambda>_. ret ())
                     else ret ()) (\<lambda>_.
            ret (ps_result st2)))))))"

lemma pullPhase_rest:
  "andThen (remoteChanges E u p remote) (\<lambda>d. andThen (wrapErr SyncProv (p_list local)) (\<lambda>items.
   andThen (wrapErr SyncDB (ListStates u p)) (pull_rest E ord u p local cm res d items))) = pullPhase E ord u p remote local cm res"
  by (simp add: pullPhase_def pull_rest_def [abs_def])

context sync_provider
begin

lemma pullPhase_cases:
  assumes inv: "inv w" and reads: "listing_reads remote"
    and run: "pullPhase E ord u p remote P cm res w = (r, w')"
  obtains e where "r = Inl e" "inv w'" "view w' = view w"
  | d w1 items w3 where "remoteChanges E u p remote w = (Inr d, w1)" "inv w3" "view w3 = view w" "lists items (view w)"
      "t_sync_states (w_db w3) = t_sync_states (w_db w)"
      "pull_rest E ord u p P cm res d items (filter (of_pipeline u p) (t_sync_states (w_db w))) w3 = (r, w')"
  using run [folded pullPhase_rest]
proof (cases rule: andThen_cases)
  case (1 e)
  then show ?thesis using bookkeeping_step [OF bookkeeping_remoteChanges [OF reads] 1(1) inv] that(1) by simp
next
  case d: (2 d w1)
  have w1: "inv w1" "view w1 = view w" "t_sync_states (w_db w1) = t_sync_states (w_db w)"
    using bookkeeping_step [OF bookkeeping_remoteChanges [OF reads] d(1) inv] preservesD [OF remoteChanges_states [OF reads] d(1)] by auto
  from d(2) show ?thesis
  proof (cases rule: andThen_cases)
    case (1 e)
    then show ?thesis using list_keeps [OF w1(1)] w1(2) that(1) by (auto elim: wrapErr_cases)
  next
    case l: (2 items w2)
    then have l1: "p_list P w1 = (Inr items, w2)" by (simp add: wrapErr_Inr)
    have w2: "inv w2" "view w2 = view w" "lists items (view w)" "t_sync_states (w_db w2) = t_sync_states (w_db w)"
      using list_ok [OF w1(1) l1] list_states [OF w1(1) l1] w1 by auto
    from l(2) show ?thesis
    proof (cases rule: andThen_cases)
      case (1 e)
      then show ?thesis
        using bookkeeping_step [OF bookkeeping_wrapErr [OF bookkeeping_store(6)] 1(1) w2(1)] w2(2) that(1) by simp
    next
      case s: (2 states w3)
      have "inv w3 \<and> view w3 = view w"
        using bookkeeping_step [OF bookkeeping_wrapErr [OF bookkeeping_store(6)] s(1) w2(1)] w2(2) by simp
      moreover have "query (\<lambda>d. filter (of_pipeline u p) (t_sync_states d)) w2 = (Inr states, w3)"
        using s(1) by (simp add: wrapErr_Inr ListStates_def)
      ultimately show ?thesis using that(2) [OF d(1)] s(2) w2(3,4) by (auto dest: query_Inr_db)
    qed
  qed
qed

lemma pull_rest_keeps:
  assumes lists: "lists items v" "v k = Some c" and cm: "cm \<notin> {ConflictAuto, ConflictSourceWins}"
    and perm: "\<And>xs. set (ord xs) = set xs" and rep: "spares k states d"
    and edited: "\<And>s. s \<in> set states \<Longrightarrow> ss_local_id s = k \<Longrightarrow> ss_local_etag s \<noteq> si_etag c"
  shows "triple (\<lambda>w. inv w \<and> view w = v) (pull_rest E ord u p P cm res d items states)
     (\<lambda>_ w. inv w \<and> view w k = Some c) (\<lambda>_ w. inv w \<and> view w k = Some c)"
proof -
  let ?prevs = "index_by ss_remote_id states" and ?rm = "index_by si_remote_id (dl_updated d)"
  let ?lm = "index_by si_remote_id items" and ?del = "deletionsFromDelta ord d (index_by ss_remote_id states) (index_by si_remote_id (dl_updated d))"
  let ?T = "dom (map_of ?prevs)" and ?I = "\<lambda>_ w. inv w \<and> view w k = Some c"
  note g = spares_guarded [OF rep perm edited]
  have lm: "map_of ?lm k = Some c" using lists by (simp add: index_by_lists)
  have new: "si_remote_id (the (map_of ?rm rid)) \<noteq> k" if "rid \<in> set (ord (map fst ?rm))" "rid \<notin> ?T" for rid
  proof -
    from that(1) have "map_of ?rm rid \<noteq> None" using perm by (auto simp: index_by_None keys_index_by)
    then obtain i where i: "map_of ?rm rid = Some i" by blast
    then show ?thesis using map_of_index_by [OF i] rep that(2) by (auto simp: spares_def index_by_None)
  qed
  have loops: "triple (kept k c (guarded k c (set ?del)) ?T st) (andThen (forEach (pull_item E u p P cm t ?lm ?rm) (ord (map fst ?rm)) st) (\<lambda>st1.
      andThen (forEach (pull_deletion P) ?del st1) (\<lambda>st2.
      andThen (if dl_cursor d \<noteq> [] \<and> eng_cursors E then andThen (attempt (SetCursor u p (dl_cursor d))) (\<lambda>_. ret ()) else ret ()) (\<lambda>_.
      ret (ps_result st2))))) ?I (\<lambda>_. ?I ())" for st t
  proof (rule triple_andThen)
    show "triple (kept k c (guarded k c (set ?del)) ?T st) (forEach (pull_item E u p P cm t ?lm ?rm) (ord (map fst ?rm)) st)
      (kept k c (guarded k c (set ?del)) ?T) (\<lambda>_. ?I ())"
      by (rule triple_conseq [OF triple_forEach_inv [OF pull_item_keeps [OF cm lm new]]]) simp_all
    have "triple (kept k c (guarded k c (set ?del)) ?T st1) (forEach (pull_deletion P) ?del st1) (kept k c (guarded k c (set ?del)) ?T) (\<lambda>_. ?I ())" for st1
      by (rule triple_conseq [OF triple_forEach_inv [OF pull_deletion_keeps]])
        (use deletions_tracked [of ord d ?prevs ?rm] perm in auto)
    moreover have "triple (kept k c (guarded k c D) T st2) (andThen (if b then andThen (attempt (SetCursor u p q)) (\<lambda>_. ret ()) else ret ()) (\<lambda>_.
      ret (ps_result st2))) ?I (\<lambda>_. ?I ())" for b q st2 D T
      by (rule triple_conseq [OF kept_book [where k = k and c = c and G = "guarded k c D" and T = T and st = st2]])
        (intro books, auto simp: kept_def)
    ultimately show "triple (kept k c (guarded k c (set ?del)) ?T st1) (andThen (forEach (pull_deletion P) ?del st1) (\<lambda>st2.
      andThen (if dl_cursor d \<noteq> [] \<and> eng_cursors E then andThen (attempt (SetCursor u p (dl_cursor d))) (\<lambda>_. ret ()) else ret ()) (\<lambda>_.
      ret (ps_result st2)))) ?I (\<lambda>_. ?I ())" for st1
      by (rule triple_andThen)
  qed
  have start: "triple (\<lambda>w. inv w \<and> view w = v) (pendingConflictsByRemoteID E u p) (\<lambda>_ w. inv w \<and> view w = v) (\<lambda>_. ?I ())"
    using triple_book [OF bookkeeping_pending, of "\<lambda>x. x = v"] by (rule triple_conseq) (auto simp: lists)
  have pre: "kept k c (guarded k c (set ?del)) ?T \<lparr>ps_prev = ?prevs, ps_pending = q, ps_result = res\<rparr> w" if "inv w \<and> view w = v" for w q
    using that g lists by (simp add: kept_def)
  have now: "triple (\<lambda>w. inv w \<and> view w = v) now (\<lambda>_ w. inv w \<and> view w = v) (\<lambda>_. ?I ())"
    by (rule triple_now)
  note rest = triple_andThen [OF start, OF triple_andThen [OF now, OF triple_weaken [OF loops pre]]]
  show ?thesis
    unfolding pull_rest_def Let_def
  proof (split option.split, intro conjI impI allI)
    fix e show "triple (\<lambda>w. inv w \<and> view w = v) (throw e) ?I (\<lambda>_. ?I ())" by (rule triple_throw) (use lists in simp)
  qed (rule rest)
qed

end

section \<open>Properties of import\<close>

text \<open>C1: An import never overwrites an edit of the user. Take a card of the user's book that was
  edited since the last run: no state the pipeline keeps for it has its present ETag. If the
  conflict mode is neither \<open>auto\<close> nor \<open>source_wins\<close>, and the remote neither reports the card deleted nor
  offers an untracked card under the same id, then the card is byte for byte the same after
  the pull phase, in whatever order the maps are walked and whichever database statements fail.\<close>

theorem import_keeps_local_edits:
  assumes "book_inv v w" "book_view L v w k = Some c" "cm \<notin> {ConflictAuto, ConflictSourceWins}"
    "listing_reads remote" "\<And>xs. set (ord xs) = set xs"
    "\<And>s. s \<in> set (t_sync_states (w_db w)) \<Longrightarrow> of_pipeline u p s \<Longrightarrow> ss_local_id s = k \<Longrightarrow> ss_local_etag s \<noteq> si_etag c"
    "\<And>d w1. remoteChanges E u p remote w = (Inr d, w1) \<Longrightarrow> spares k (filter (of_pipeline u p) (t_sync_states (w_db w))) d"
    "pullPhase E ord u p remote (InternalProvider L v) cm res w = (r, w')"
  shows "book_view L v w' k = Some c"
  using internal.pullPhase_cases [OF assms(1,4,8)]
proof cases
  case (2 d w1 items w3)
  have "triple (\<lambda>w'. book_inv v w' \<and> book_view L v w' = book_view L v w)
      (pull_rest E ord u p (InternalProvider L v) cm res d items (filter (of_pipeline u p) (t_sync_states (w_db w))))
      (\<lambda>_ w. book_inv v w \<and> book_view L v w k = Some c) (\<lambda>_ w. book_inv v w \<and> book_view L v w k = Some c)"
    using assms(2,3,5,6) assms(7) [OF 2(1)] 2(4) by (intro internal.pull_rest_keeps) auto
  from triple_Inr [OF this] triple_Inl [OF this] 2(2,3,6) show ?thesis by (cases r) blast+
qed (use assms(2) in simp)

section \<open>Mass deletion\<close>

context sync_provider
begin

text \<open>The cards of \<open>v\<close> that are gone.\<close>

definition lost :: "(string \<Rightarrow> sync_item option) \<Rightarrow> world \<Rightarrow> string set" where
  "lost v w = {k. v k \<noteq> None \<and> view w k = None}"

definition few_lost :: "(string \<Rightarrow> sync_item option) \<Rightarrow> nat \<Rightarrow> world \<Rightarrow> bool" where
  "few_lost v n w \<longleftrightarrow> inv w \<and> finite (lost v w) \<and> card (lost v w) \<le> n"

lemma few_lost_book: "bookkeeping m \<Longrightarrow> triple (few_lost v n) m (\<lambda>_. few_lost v n) (\<lambda>_. few_lost v n)"
  using triple_book [of m "\<lambda>x. finite {k. v k \<noteq> None \<and> x k = None} \<and> card {k. v k \<noteq> None \<and> x k = None} \<le> n"]
  by (simp add: few_lost_def [abs_def] lost_def)

lemma few_lost_put: "triple (few_lost v n) (p_put P item) (\<lambda>_. few_lost v n) (\<lambda>_. few_lost v n)"
proof -
  have "few_lost v n w'" if "few_lost v n w" "p_put P item w = (r, w')" for w r w'
  proof -
    have inv: "inv w" using that(1) by (simp add: few_lost_def)
    have "inv w' \<and> lost v w' \<subseteq> lost v w"
      using that(2) put_ok [OF inv, of item _ w'] put_err [OF inv, of item _ w']
      by (cases r) (fastforce simp: lost_def stores_def split: if_splits)+
    then show ?thesis using that(1) by (auto simp: few_lost_def intro: finite_subset card_mono order_trans [OF card_mono])
  qed
  then show ?thesis by (intro tripleI) auto
qed

lemma few_lost_delete:
  "triple (few_lost v n) (p_delete P k) (\<lambda>_. few_lost v (Suc n)) (\<lambda>_. few_lost v (Suc n))"
proof -
  have "few_lost v (Suc n) w'" if "few_lost v n w" "p_delete P k w = (r, w')" for w r w'
  proof -
    have inv: "inv w" using that(1) by (simp add: few_lost_def)
    have "inv w' \<and> lost v w' \<subseteq> insert k (lost v w)"
      using that(2) delete_ok [OF inv] delete_err [OF inv] by (cases r) (auto simp: lost_def split: if_splits)
    moreover have "card (insert k (lost v w)) \<le> Suc n" "finite (insert k (lost v w))"
      using that(1) by (auto simp: few_lost_def card_insert_if)
    ultimately show ?thesis by (auto simp: few_lost_def intro: finite_subset order_trans [OF card_mono])
  qed
  then show ?thesis by (intro tripleI) auto
qed

lemma few_lost_ret: "triple (few_lost v n) (ret x) (\<lambda>_. few_lost v n) E"
  by (rule triple_ret)

lemma few_lost_now: "triple (few_lost v n) now (\<lambda>_. few_lost v n) E"
  by (rule triple_now)

lemma few_lost_counting:
  "triple (few_lost v n) m (\<lambda>_. few_lost v n') (\<lambda>_. few_lost v n') \<Longrightarrow> (\<And>x. triple (few_lost v n') (f x) (\<lambda>_. few_lost v n') E) \<Longrightarrow>
   triple (few_lost v n) (counting m st f) (\<lambda>_. few_lost v n') E"
  by (rule triple_counting)

lemma few_lost_total:
  assumes "bookkeeping m" "\<And>w e w'. m w \<noteq> (Inl e, w')"
  shows "triple (few_lost v n) m (\<lambda>_. few_lost v n) (\<lambda>_ _. False)"
  using assms(2) by (intro tripleI) (auto dest: triple_Inr [OF few_lost_book [OF assms(1)]])

lemma few_lost_apply: "triple (few_lost v n) (apply_remote E P t rid item prev vc st) (\<lambda>_. few_lost v n) (\<lambda>_ _. False)"
  unfolding apply_remote_def Let_def
  by (intro few_lost_counting few_lost_put few_lost_book books few_lost_ret)

lemma few_lost_item:
  "triple (few_lost v n) (pull_item E u p P cm t localMap remoteMap rid st) (\<lambda>_. few_lost v n) (\<lambda>_ _. False)"
proof -
  note steps = few_lost_total [OF bookkeeping_recordConflict recordConflict_returns]
    few_lost_total [OF bookkeeping_basic(4)] few_lost_ret few_lost_apply
  show ?thesis
    unfolding pull_item_def Let_def
    by (auto split: option.split simp: prog_simps
        intro!: few_lost_counting few_lost_put few_lost_book books triple_andThen steps)
qed

lemma few_lost_deletion:
  "triple (few_lost v n) (pull_deletion P rid st) (\<lambda>_. few_lost v (Suc n)) (\<lambda>_ _. False)"
  unfolding pull_deletion_def Let_def
  by (intro few_lost_counting few_lost_delete few_lost_book books few_lost_ret)

lemma few_lost_rest:
  assumes run: "pull_rest E ord u p P cm res d items states w = (r, w')" and inv: "inv w" "view w = v"
  defines "n \<equiv> length (index_by ss_remote_id states)"
  shows "inv w' \<and> (if isl r then view w' = v else finite (lost v w') \<and> (deletionAbortMinimum \<le> n \<longrightarrow> 2 * card (lost v w') \<le> n))"
proof -
  let ?prevs = "index_by ss_remote_id states" and ?rm = "index_by si_remote_id (dl_updated d)"
  let ?lm = "index_by si_remote_id items" and ?del = "deletionsFromDelta ord d (index_by ss_remote_id states) (index_by si_remote_id (dl_updated d))"
  show ?thesis
  proof (cases "checkDeletionSafety (length ?del) n")
    case (Some e)
    then show ?thesis using run inv by (auto simp: pull_rest_def Let_def n_def prog_simps)
  next
    case None
    have del: "triple (few_lost v 0) (forEach (pull_deletion P) ?del st) (\<lambda>_. few_lost v (length ?del)) (\<lambda>_ _. False)" for st
      by (rule triple_forEach [where I = "\<lambda>ys _. few_lost v (length ys)", simplified]) (rule few_lost_deletion)
    have tr: "triple (few_lost v 0) (pull_rest E ord u p P cm res d items states) (\<lambda>_. few_lost v (length ?del)) (\<lambda>_ _. False)"
      using None unfolding pull_rest_def Let_def n_def
      by (auto intro!: triple_andThen del few_lost_ret few_lost_item few_lost_total bookkeeping_pending pending_returns
          triple_forEach_inv [where I = "\<lambda>_. few_lost v 0"] few_lost_now books simp: prog_simps andThen_def attempt_def split: prod.splits sum.splits)
    have "lost v w = {}" using inv by (auto simp: lost_def)
    then have "few_lost v 0 w" using inv by (simp add: few_lost_def)
    from triple_total [OF tr this] obtain x where "r = Inr x" "few_lost v (length ?del) w'"
      using run by (metis prod.inject)
    moreover have "deletionAbortMinimum \<le> n \<Longrightarrow> 2 * length ?del \<le> n"
      using None by (auto simp: checkDeletionSafety_def split: if_splits)
    ultimately show ?thesis by (auto simp: few_lost_def)
  qed
qed

end

lemma tracked_index: "length (index_by key xs) = card (key ` set xs)"
  using distinct_card [OF distinct_index_by] by (metis keys_index_by length_map list.set_map)

text \<open>C8: The guard against mass deletion. Whatever the remote answers, the conflict mode, the
  order and the faults: a pull phase that reports an error has left the user's book as it was,
  and one that succeeds, when the pipeline tracks at least five cards, has removed at most half
  as many cards from the book as it tracks.\<close>

theorem pull_deletion_guard:
  assumes "book_inv v w" "listing_reads remote"
    "pullPhase E ord u p remote (InternalProvider L v) cm res w = (r, w')"
  defines "tracked \<equiv> card (ss_remote_id ` set (filter (of_pipeline u p) (t_sync_states (w_db w))))"
    and "gone \<equiv> {k. book_view L v w k \<noteq> None \<and> book_view L v w' k = None}"
  shows "(isl r \<longrightarrow> book_view L v w' = book_view L v w) \<and> (5 \<le> tracked \<longrightarrow> finite gone \<and> 2 * card gone \<le> tracked)"
proof -
  have none: "gone = {}" if "book_view L v w' = book_view L v w" using that by (auto simp: gone_def)
  show ?thesis using internal.pullPhase_cases [OF assms(1-3)]
  proof cases
    case (2 d w1 items w3)
    from internal.few_lost_rest [OF 2(6,2,3)] none show ?thesis
      unfolding tracked_index tracked_def [symmetric] internal.lost_def gone_def [symmetric] deletionAbortMinimum_def
      by (auto split: if_splits)
  qed (use none in simp)
qed

section \<open>A settled pipeline\<close>

text \<open>The remote answers with a full listing that agrees with the states: every card is tracked
  under its ETag and content hash, and every tracked card is there.\<close>

definition settled :: "lib \<Rightarrow> sync_state list \<Rightarrow> delta \<Rightarrow> bool" where
  "settled L states d \<longleftrightarrow> dl_full d \<and> ss_remote_id ` set states \<subseteq> si_remote_id ` set (dl_updated d)
     \<and> (\<forall>i \<in> set (dl_updated d). si_remote_id i \<in> ss_remote_id ` set states)
     \<and> (\<forall>i \<in> set (dl_updated d). \<forall>s \<in> set states. ss_remote_id s = si_remote_id i \<longrightarrow>
          ss_remote_etag s = si_etag i \<and> ss_content_hash s = ContentHash L (si_vcard i))"

lemma forEach_ret: "(\<And>x. x \<in> set xs \<Longrightarrow> f x s = ret s) \<Longrightarrow> forEach f xs s = ret s"
  by (induction xs) (simp_all add: andThen_ret)

lemma settled_item:
  assumes "settled (eng_lib E) states d" "rid \<in> si_remote_id ` set (dl_updated d)" "ps_prev st = index_by ss_remote_id states"
  shows "pull_item E u p local cm t localMap (index_by si_remote_id (dl_updated d)) rid st = ret st"
proof -
  obtain i where i: "map_of (index_by si_remote_id (dl_updated d)) rid = Some i"
    using assms(2) index_by_None [of si_remote_id "dl_updated d" rid] by blast
  note i' = map_of_index_by [OF i]
  have "rid \<in> ss_remote_id ` set states" using assms(1) i' by (auto simp: settled_def)
  then obtain s where s: "map_of (index_by ss_remote_id states) rid = Some s"
    using index_by_None [of ss_remote_id states rid] by blast
  have "\<not> remote_modified E s i" using assms(1) i' map_of_index_by [OF s] by (auto simp: settled_def remote_modified_def)
  then show ?thesis using i s assms(3) by (simp add: pull_item_def)
qed

lemma settled_rest:
  assumes "settled (eng_lib E) states d" "\<And>xs. set (ord xs) = set xs"
  shows "pull_rest E ord u p local cm res d items states =
    andThen (pendingConflictsByRemoteID E u p) (\<lambda>_. andThen now (\<lambda>_.
    andThen (if dl_cursor d \<noteq> [] \<and> eng_cursors E then andThen (attempt (SetCursor u p (dl_cursor d))) (\<lambda>_. ret ()) else ret ()) (\<lambda>_. ret res)))"
proof -
  let ?prevs = "index_by ss_remote_id states" and ?rm = "index_by si_remote_id (dl_updated d)"
  have del: "deletionsFromDelta ord d ?prevs ?rm = []"
  proof -
    have "map_of ?rm rid \<noteq> None" if "rid \<in> set (ord (map fst ?prevs))" for rid
    proof -
      have "rid \<in> ss_remote_id ` set states" using that assms(2) keys_index_by [of ss_remote_id states] by simp
      then show ?thesis using assms(1) by (auto simp: settled_def index_by_None)
    qed
    then show ?thesis using assms(1) by (simp add: settled_def deletionsFromDelta_def filter_empty_conv)
  qed
  have "forEach (pull_item E u p local cm t (index_by si_remote_id items) ?rm) (ord (map fst ?rm))
      \<lparr>ps_prev = ?prevs, ps_pending = q, ps_result = res\<rparr> = (ret \<lparr>ps_prev = ?prevs, ps_pending = q, ps_result = res\<rparr> :: (sync_error, phase_state) prog)" for t q
    by (rule forEach_ret, rule settled_item [OF assms(1)]) (use assms(2) in \<open>simp_all add: keys_index_by\<close>)
  then show ?thesis by (simp add: pull_rest_def del checkDeletionSafety_def andThen_ret Let_def)
qed

text \<open>A second import does nothing. When the remote answers with a full listing that agrees with
  what the pipeline recorded at the last run, a pull phase changes no card of the user's book, no
  sync state and no conflict, and counts nothing, in every conflict mode and whatever the user
  edited locally in the meantime.\<close>

theorem settled_import_changes_nothing:
  assumes "book_inv v w" "listing_reads remote" "\<And>xs. set (ord xs) = set xs"
    "remoteChanges E u p remote w = (Inr d, w1)" "settled (eng_lib E) (filter (of_pipeline u p) (t_sync_states (w_db w))) d"
    "pullPhase E ord u p remote (InternalProvider L v) cm res w = (r, w')"
  shows "book_view L v w' = book_view L v w
    \<and> (\<forall>x. r = Inr x \<longrightarrow> x = res \<and> t_sync_states (w_db w') = t_sync_states (w_db w))"
  using internal.pullPhase_cases [OF assms(1,2,6)]
proof cases
  case (2 d' w1' items w3)
  let ?m = "pull_rest E ord u p (InternalProvider L v) cm res d items (filter (of_pipeline u p) (t_sync_states (w_db w)))"
  have d: "d' = d" using 2(1) assms(4) by simp
  have "bookkeeping ?m" unfolding settled_rest [OF assms(5,3)] by (intro books)
  from internal.bookkeeping_step [OF this 2(6) [unfolded d] 2(2), of L] 2(3) have view: "book_view L v w' = book_view L v w" by simp
  have "preserves (\<lambda>d. t_sync_states d = S) (pendingConflictsByRemoteID E u p)" for S
    unfolding pendingConflictsByRemoteID_def ListPendingByProvider_def by (intro hoare)
  moreover have "preserves (\<lambda>d. t_sync_states d = S) (SetCursor u p c)" for S c
    unfolding SetCursor_def by (intro hoare preserves_stmt) (auto simp: upsert_cursor_def Let_def split: if_splits sum.splits)
  ultimately have "preserves (\<lambda>d. t_sync_states d = S) ?m" for S
    unfolding settled_rest [OF assms(5,3)] by (intro hoare)
  from preservesD [OF this 2(6) [unfolded d] 2(5)] have states: "t_sync_states (w_db w') = t_sync_states (w_db w)" .
  have "x = res" if "r = Inr x" for x
    using 2(6) [unfolded d settled_rest [OF assms(5,3)]] that by (auto simp: prog_simps elim!: andThen_InrE split: if_splits)
  with view states show ?thesis by blast
qed simp

section \<open>A small pipeline\<close>

text \<open>One card on either side, tracked by one state; both sides were edited since.\<close>

definition ada_card :: "string \<Rightarrow> string \<Rightarrow> int \<Rightarrow> contact" where
  "ada_card vc e q = ada\<lparr>c_etag := e, c_vcard_data := vc, c_change_seq := q\<rparr>"

definition ada_edited :: contact where
  "ada_edited = ada_card ''local'' ''l1'' 1"

definition ada_state :: sync_state where
  "ada_state = \<lparr>ss_id = ''s'', ss_user_id = ''u'', ss_provider_type = ''p'', ss_remote_id = ''r'', ss_local_id = ''ada'',
     ss_remote_etag = ''r0'', ss_local_etag = ''l0'', ss_content_hash = [], ss_base_vcard = ''base'', ss_last_synced_at = 0\<rparr>"

definition one_card :: "string \<Rightarrow> string \<Rightarrow> int \<Rightarrow> sync_state \<Rightarrow> world" where
  "one_card vc e q s = (small_world (small_db\<lparr>t_books := [\<lparr>ab_id = ''b'', ab_user_id = ''u'', ab_name = ''Contacts'',
       ab_description = [], ab_change_seq = q, ab_created_at = 0, ab_updated_at = 0\<rparr>],
     t_contacts := [ada_card vc e q], t_sync_states := [s]\<rparr>) [])
     \<lparr>w_remote := [\<lparr>rc_id = ''r'', rc_etag = ''r1'', rc_vcard = ''remote''\<rparr>]\<rparr>"

definition two_edits :: world where
  "two_edits = one_card ''local'' ''l1'' 1 ada_state"

definition small_engine :: "lib \<Rightarrow> engine" where
  "small_engine L = \<lparr>eng_lib = L, eng_runs = False, eng_conflicts = True, eng_cursors = False\<rparr>"

lemma minted_not_i1 [simp]: "replicate n CHR ''x'' \<noteq> ''i1''"
  by (cases n) simp_all

lemma two_edits_book:
  "book_inv ''u'' two_edits" "book_view L ''u'' two_edits ''ada'' = Some (item_of L ada_edited)"
  "t_sync_states (w_db two_edits) = [ada_state]"
  "remoteChanges (small_engine L) ''u'' ''p'' plain_remote two_edits
     = (Inr \<lparr>dl_updated = [\<lparr>si_remote_id = ''r'', si_etag = ''r1'', si_content_hash = [], si_vcard = ''remote''\<rparr>],
          dl_deleted = [], dl_cursor = [], dl_full = True\<rparr>, two_edits)"
  by (auto simp: two_edits_def one_card_def book_inv_def tables_ok_def fresh_contacts_def user_book_id_def select_one_def small_world_def
      small_db_def ada_edited_def ada_card_def ada_def blank_contact_def has_book_def book_view_def card_row_def in_book_def
      remoteChanges_def plain_remote_def remote_item_def wrapErr_def andThen_def prog_simps small_engine_def
      replicate_eq_replicate replicate_Suc intro!: injI)

lemma plain_listing: "listing_reads plain_remote"
  by (simp add: listing_reads_def plain_remote_def readonly_def steady_def)

theorem import_keeps_local_edits_witness:
  "book_view (table_lib []) ''u''
     (snd (pullPhase (small_engine (table_lib [])) id ''u'' ''p'' plain_remote (InternalProvider (table_lib []) ''u'') ''manual''
        no_result two_edits)) ''ada'' = Some (item_of (table_lib []) ada_edited)"
proof (rule import_keeps_local_edits [where ord = id and cm = "''manual''", OF two_edits_book(1,2) _ plain_listing])
  show "''manual'' \<notin> {ConflictAuto, ConflictSourceWins}" by (simp add: ConflictAuto_def ConflictSourceWins_def)
  show "pullPhase (small_engine (table_lib [])) id ''u'' ''p'' plain_remote (InternalProvider (table_lib []) ''u'') ''manual'' no_result two_edits
      = (fst (pullPhase (small_engine (table_lib [])) id ''u'' ''p'' plain_remote (InternalProvider (table_lib []) ''u'') ''manual''
        no_result two_edits), snd (pullPhase (small_engine (table_lib [])) id ''u'' ''p'' plain_remote (InternalProvider (table_lib []) ''u'') ''manual''
        no_result two_edits))" by simp
qed (auto simp: two_edits_book ada_state_def item_of_def ada_edited_def ada_card_def spares_def of_pipeline_def)

text \<open>Five cards are tracked and the remote has none left.\<close>

definition tracked_five :: world where
  "tracked_five = small_world (small_db\<lparr>t_contacts := [ada_edited],
     t_sync_states := map (\<lambda>k. ada_state\<lparr>ss_id := k, ss_remote_id := k\<rparr>) [''1'', ''2'', ''3'', ''4'', ''5'']\<rparr>) []"

lemma tracked_five_book: "book_inv ''u'' tracked_five"
  by (auto simp: tracked_five_def book_inv_def tables_ok_def fresh_contacts_def user_book_id_def select_one_def small_world_def
      small_db_def ada_edited_def ada_card_def ada_def blank_contact_def has_book_def replicate_eq_replicate intro!: injI)

theorem pull_deletion_guard_witness:
  "let w = tracked_five; L = table_lib [];
       w' = snd (pullPhase (small_engine L) id ''u'' ''p'' plain_remote (InternalProvider L ''u'') ''auto'' no_result w);
       gone = {k. book_view L ''u'' w k \<noteq> None \<and> book_view L ''u'' w' k = None}
   in card (ss_remote_id ` set (filter (of_pipeline ''u'' ''p'') (t_sync_states (w_db w)))) = 5 \<and> finite gone \<and> 2 * card gone \<le> 5"
proof -
  let ?L = "table_lib []"
  let ?run = "pullPhase (small_engine ?L) id ''u'' ''p'' plain_remote (InternalProvider ?L ''u'') ''auto'' no_result tracked_five"
  have "card (ss_remote_id ` set (filter (of_pipeline ''u'' ''p'') (t_sync_states (w_db tracked_five)))) = 5"
    by (simp add: tracked_five_def small_world_def of_pipeline_def ada_state_def)
  with pull_deletion_guard [OF tracked_five_book plain_listing, of "small_engine ?L" id "''u''" "''p''" ?L "''auto''" no_result "fst ?run" "snd ?run"]
  show ?thesis by (simp add: Let_def)
qed


text \<open>The local card was edited, the remote one is as it was recorded.\<close>

definition ada_settled :: sync_state where
  "ada_settled = ada_state\<lparr>ss_remote_etag := ''r1'', ss_content_hash := ContentHash (table_lib []) ''remote''\<rparr>"

lemma one_card_book: "book_inv ''u'' (one_card vc e q s)"
  by (auto simp: one_card_def book_inv_def tables_ok_def fresh_contacts_def user_book_id_def select_one_def small_world_def
      small_db_def ada_card_def ada_def blank_contact_def has_book_def replicate_eq_replicate intro!: injI)

lemma one_card_changes:
  "remoteChanges (small_engine L) ''u'' ''p'' plain_remote (one_card vc e q s)
     = (Inr \<lparr>dl_updated = [\<lparr>si_remote_id = ''r'', si_etag = ''r1'', si_content_hash = [], si_vcard = ''remote''\<rparr>],
          dl_deleted = [], dl_cursor = [], dl_full = True\<rparr>, one_card vc e q s)"
  by (simp add: one_card_def remoteChanges_def plain_remote_def remote_item_def wrapErr_def andThen_def prog_simps small_engine_def)

theorem settled_import_changes_nothing_witness:
  "let w = one_card ''local'' ''l1'' 1 ada_settled; L = table_lib [];
       run = pullPhase (small_engine L) id ''u'' ''p'' plain_remote (InternalProvider L ''u'') ''source_wins'' no_result w
   in book_view L ''u'' (snd run) = book_view L ''u'' w \<and> (\<forall>x. fst run = Inr x \<longrightarrow> x = no_result)"
proof -
  let ?L = "table_lib []" and ?w = "one_card ''local'' ''l1'' 1 ada_settled"
  let ?run = "pullPhase (small_engine ?L) id ''u'' ''p'' plain_remote (InternalProvider ?L ''u'') ''source_wins'' no_result ?w"
  have "settled (eng_lib (small_engine ?L)) (filter (of_pipeline ''u'' ''p'') (t_sync_states (w_db ?w)))
    \<lparr>dl_updated = [\<lparr>si_remote_id = ''r'', si_etag = ''r1'', si_content_hash = [], si_vcard = ''remote''\<rparr>],
          dl_deleted = [], dl_cursor = [], dl_full = True\<rparr>"
    by (simp add: settled_def one_card_def small_world_def of_pipeline_def ada_settled_def ada_state_def small_engine_def)
  from settled_import_changes_nothing [OF one_card_book plain_listing _ one_card_changes this, of id ?L "''source_wins''" no_result "fst ?run" "snd ?run"]
  show ?thesis by (simp add: Let_def)
qed

end
