(* ===== verification/SyncExport.thy ===== *)
theory SyncExport
  imports SyncSafety
begin

text \<open>
  What the push phase of \<open>internal/sync/engine.go\<close> may do to the remote collection, over a remote that keeps the contract
  \<open>etag_remote\<close>: a card that changed there since the last run is not overwritten. The CardDAV client is shown to keep it in \<open>CardDAVClient\<close>.
\<close>

section \<open>Steps\<close>

text \<open>The phase after its listings.\<close>

definition push_rest ::
  "engine \<Rightarrow> (string list \<Rightarrow> string list) \<Rightarrow> string \<Rightarrow> string \<Rightarrow> provider \<Rightarrow> string \<Rightarrow> sync_result \<Rightarrow>
   (string \<times> sync_item) list \<Rightarrow> sync_item list \<Rightarrow> sync_state list \<Rightarrow> (sync_error, sync_result) prog" where
  "push_rest E ord u p remote cm result remoteMap localItems prevStates =
     (let localMap = index_by si_remote_id localItems; prevs = index_by ss_local_id prevStates;
          missing = (\<lambda>l. map_of localMap l = None)
      in case checkDeletionSafety (length (filter missing (map fst prevs))) (length prevs) of
          Some e \<Rightarrow> throw e
        | None \<Rightarrow>
            andThen (pendingConflictsByRemoteID E u p) (\<lambda>pending.
            andThen now (\<lambda>t.
            andThen (forEach (push_item E u p remote cm t localMap remoteMap) (ord (map fst localMap))
              \<lparr>ps_prev = prevs, ps_pending = pending, ps_result = result\<rparr>) (\<lambda>st1.
            andThen (forEach (push_deletion remote) (filter missing (ord (map fst prevs))) st1) (\<lambda>st2.
            ret (ps_result st2))))))"

lemma pushPhase_rest:
  "p_put_if_match remote = Some f \<Longrightarrow> pushPhase E ord u p local remote cm res =
     andThen (wrapErr SyncProv (p_list local)) (\<lambda>items. andThen (wrapErr SyncDB (ListStates u p)) (push_rest E ord u p remote cm res [] items))"
  by (simp add: pushPhase_def push_rest_def [abs_def] andThen_ret)

context etag_remote
begin

text \<open>The tracked states of the remote card \<open>j\<close> have a tag it has moved on from, and are none of those whose
  local card is gone; every tracked id may be written.\<close>

definition stale :: "string \<Rightarrow> sync_item \<Rightarrow> string set \<Rightarrow> (string \<times> sync_state) list \<Rightarrow> bool" where
  "stale j c D prevs \<longleftrightarrow> (\<forall>lid prev. map_of prevs lid = Some prev \<longrightarrow> named (ss_remote_id prev) \<and>
     (ss_remote_id prev = j \<longrightarrow> moved (ss_remote_etag prev) c \<and> lid \<notin> D))"

lemma stale_update:
  "stale j c D prevs \<Longrightarrow> named (ss_remote_id prev) \<Longrightarrow> ss_remote_id prev \<noteq> j \<Longrightarrow> stale j c D (AList.update lid prev prevs)"
  by (auto simp: stale_def update_conv' split: if_splits)

lemma push_done_keeps:
  assumes "lid \<in> T" "\<And>pr. r = Inr pr \<Longrightarrow> pr_remote_id pr \<noteq> j \<and> named (pr_remote_id pr)"
  shows "triple (kept j c (stale j c D) T st) (push_done E t lid li prev st r) (kept j c (stale j c D) T) (\<lambda>_ _. False)"
proof (cases r)
  case (Inr pr)
  let ?prev = "prev\<lparr>ss_remote_id := pr_remote_id pr, ss_remote_etag := pr_etag pr,
              ss_local_etag := si_etag li, ss_content_hash := ContentHash (eng_lib E) (si_vcard li),
              ss_base_vcard := si_vcard li, ss_last_synced_at := t\<rparr>"
  let ?st = "st\<lparr>ps_prev := AList.update lid ?prev (ps_prev st)\<rparr>"
  have "kept j c (stale j c D) T ?st w" if "kept j c (stale j c D) T st w" for w
    using that assms Inr by (auto simp: kept_def update_conv' insert_absorb intro: stale_update)
  moreover have "triple (kept j c (stale j c D) T ?st) (counting (UpdateState ?prev) ?st (\<lambda>_. ret (updated ?st)))
      (kept j c (stale j c D) T) (\<lambda>_ _. False)"
    by (intro kept_counting kept_ret books) simp
  ultimately show ?thesis unfolding push_done_def Inr sum.case Let_def by (blast intro: triple_weaken)
qed (auto simp: push_done_def intro: kept_ret)

lemma push_changed_keeps:
  assumes prev: "map_of (ps_prev st) lid = Some prev" and cm: "cm \<noteq> ConflictDestWins" and j: "named j"
  shows "triple (kept j c (stale j c D) T st) (push_changed E u p P cm t remoteMap lid li prev st)
     (kept j c (stale j c D) T) (\<lambda>_ _. False)"
proof -
  let ?out = "\<lparr>si_remote_id = ss_remote_id prev, si_etag = ss_remote_etag prev, si_content_hash = [], si_vcard = si_vcard li\<rparr>"
  let ?K = "kept j c (stale j c D) T" and ?free = "\<lambda>r :: provider_error + put_result. \<forall>pr. r = Inr pr \<longrightarrow> pr_remote_id pr \<noteq> j \<and> named (pr_remote_id pr)"
  have step: "?K st w' \<and> lid \<in> T \<and> ?free r" if k: "?K st w" and run: "put_if ?out (ss_remote_etag prev) w = (r, w')" for w r w'
  proof -
    have st: "inv w" "view w j = Some c" "named (ss_remote_id prev)" "ss_remote_id prev = j \<Longrightarrow> moved (ss_remote_etag prev) c" "lid \<in> T"
      using k prev by (auto simp: kept_def stale_def)
    have "inv w' \<and> view w' j = Some c" using put_if_keeps [OF st(1) run _ j st(2)] st(3,4) by auto
    moreover have "?free r" using put_if_answer [OF st(1), of ?out "ss_remote_etag prev" _ w'] run st by auto
    ultimately show ?thesis using k st by (simp add: kept_def)
  qed
  then have put: "triple (?K st) (attempt (put_if ?out (ss_remote_etag prev))) (\<lambda>r w. ?K st w \<and> lid \<in> T \<and> ?free r) (\<lambda>_ _. False)"
    by (intro triple_attempt tripleI) blast+
  have get: "triple (?K st) (attempt (p_get P k)) (\<lambda>_. ?K st) (\<lambda>_ _. False)" for k
    using get_keeps [where k = k] by (intro triple_attempt tripleI) (auto simp: kept_def)
  have conflict: "triple (?K st) (andThen (recordConflict E u p t prev li ri q)
      (\<lambda>pending. ret (skipped ((clashed st)\<lparr>ps_pending := pending\<rparr>)))) ?K (\<lambda>_ _. False)" for ri q
    by (rule triple_andThen [OF kept_recordConflict]) (rule kept_ret, simp)
  have skip: "triple (?K st) (ret (skipped (clashed st))) ?K (\<lambda>_ _. False)" by (rule kept_ret) simp
  have "triple (\<lambda>w. ?K st w \<and> lid \<in> T \<and> ?free r) (push_done E t lid li prev st r) ?K (\<lambda>_ _. False)" for r
  proof (cases "lid \<in> T \<and> ?free r")
    case True
    with push_done_keeps [of lid T r j c D st E t li prev] show ?thesis by (auto intro: triple_weaken)
  qed (auto intro!: tripleI)
  then show ?thesis
    using cm unfolding push_changed_def Let_def has_put_if option.case
    by (auto intro!: triple_andThen [OF put] triple_weaken [OF triple_andThen [OF get]] split: sum.split option.split
        simp: conflict skip)
qed

lemma push_item_keeps:
  assumes cm: "cm \<noteq> ConflictDestWins" and j: "named j"
    and new: "lid \<notin> T \<Longrightarrow> si_remote_id (the (map_of localMap lid)) \<noteq> j \<and> named (si_remote_id (the (map_of localMap lid)))"
  shows "triple (kept j c (stale j c D) T st) (push_item E u p P cm t localMap remoteMap lid st) (kept j c (stale j c D) T) (\<lambda>_ _. False)"
proof (cases "map_of (ps_prev st) lid")
  case None
  let ?item = "the (map_of localMap lid)" and ?K = "kept j c (stale j c D) T"
  have put: "triple (?K st) (p_put P ?item) (\<lambda>_. ?K st) (\<lambda>_. ?K (failed st))"
  proof (cases "lid \<in> T")
    case False
    then show ?thesis using put_keeps [where item = ?item and k = j and c = c] new j by (intro tripleI) (auto simp: kept_def)
  qed (use None in \<open>auto intro!: tripleI simp: kept_def\<close>)
  have "triple (?K st) (andThen mint (\<lambda>i. counting (CreateState (s i)) st (\<lambda>_. ret (created st)))) ?K (\<lambda>_ _. False)" for s
    by (rule triple_andThen [OF kept_mint]) (intro kept_counting kept_ret books, simp)
  with put show ?thesis unfolding push_item_def Let_def None option.case by (intro triple_counting) assumption+
next
  case (Some prev)
  then show ?thesis using push_changed_keeps [OF Some cm j] by (auto simp: push_item_def Let_def intro: kept_ret)
qed

lemma push_deletion_keeps:
  assumes "lid \<in> D" "lid \<in> T" "named j"
  shows "triple (kept j c (stale j c D) T st) (push_deletion P lid st) (kept j c (stale j c D) T) (\<lambda>_ _. False)"
proof (cases "lid \<in> dom (map_of (ps_prev st)) \<and> stale j c D (ps_prev st)")
  case True
  then obtain prev where prev: "map_of (ps_prev st) lid = Some prev" "ss_remote_id prev \<noteq> j" "named (ss_remote_id prev)"
    using assms by (auto simp: stale_def)
  have "triple (kept j c (stale j c D) T st) (p_delete P (ss_remote_id prev)) (\<lambda>_. kept j c (stale j c D) T st)
      (\<lambda>_. kept j c (stale j c D) T (failed st))"
    using delete_keeps [OF _ _ prev(3) assms(3) _ prev(2) [symmetric], of _ _ _ c] by (intro tripleI) (simp_all add: kept_def, blast+)
  then show ?thesis unfolding push_deletion_def Let_def prev(1) option.sel
    by (rule triple_counting) (intro kept_counting kept_ret books, simp)
qed (use assms in \<open>auto intro!: tripleI simp: kept_def\<close>)

lemma push_rest_keeps:
  assumes cm: "cm \<noteq> ConflictDestWins" and perm: "\<And>xs. set (ord xs) = set xs" and lists: "lists items lv" and j: "named j"
    and tracked: "\<And>s. s \<in> set states \<Longrightarrow> named (ss_remote_id s) \<and> (ss_remote_id s = j \<longrightarrow> moved (ss_remote_etag s) c \<and> lv (ss_local_id s) \<noteq> None)"
    and ids: "\<And>k. lv k \<noteq> None \<Longrightarrow> k \<notin> ss_local_id ` set states \<Longrightarrow> named k"
    and new: "lv j \<noteq> None \<Longrightarrow> j \<in> ss_local_id ` set states"
  shows "triple (\<lambda>w. inv w \<and> view w j = Some c) (push_rest E ord u p P cm res remoteMap items states)
     (\<lambda>_ w. inv w \<and> view w j = Some c) (\<lambda>_ w. inv w \<and> view w j = Some c)"
proof -
  define localMap where "localMap = index_by si_remote_id items"
  define prevs where "prevs = index_by ss_local_id states"
  let ?D = "{l. map_of localMap l = None}" and ?T = "dom (map_of prevs)"
  let ?K = "kept j c (stale j c ?D) ?T" and ?I = "\<lambda>_ w. inv w \<and> view w j = Some c"
  have lm: "map_of localMap = lv" using lists by (simp add: localMap_def index_by_lists)
  have "stale j c ?D prevs"
    using tracked map_of_index_by [of ss_local_id states] by (fastforce simp: stale_def prevs_def lm)
  then have K0: "?K \<lparr>ps_prev = prevs, ps_pending = q, ps_result = res\<rparr> w" if "inv w \<and> view w j = Some c" for q w
    using that by (simp add: kept_def)
  have item: "si_remote_id (the (map_of localMap lid)) \<noteq> j \<and> named (si_remote_id (the (map_of localMap lid)))" if "lid \<in> set (ord (map fst localMap))" "lid \<notin> ?T" for lid
  proof -
    have "map_of localMap lid \<noteq> None" using that(1) perm by (auto simp: localMap_def index_by_None keys_index_by)
    then obtain i where i: "map_of localMap lid = Some i" by blast
    then show ?thesis using map_of_index_by [OF i [unfolded localMap_def]] new ids [of lid] that(2) i
      by (auto simp: index_by_None prevs_def lm domIff)
  qed
  have loop1: "triple (?K st) (forEach (push_item E u p P cm t localMap remoteMap) (ord (map fst localMap)) st) ?K (\<lambda>_ _. False)" for st t
    by (rule triple_forEach_inv [OF push_item_keeps [OF cm j item]])
  have loop2: "triple (?K st) (forEach (push_deletion P) (filter (\<lambda>l. map_of localMap l = None) (ord (map fst prevs))) st) ?K (\<lambda>_ _. False)" for st
    by (rule triple_forEach_inv [OF push_deletion_keeps])
      (use perm j in \<open>auto simp: dom_map_of_conv_image_fst intro: weak_map_of_SomeI\<close>)
  have start: "triple (\<lambda>w. inv w \<and> view w j = Some c) (pendingConflictsByRemoteID E u p) ?I (\<lambda>_ _. False)"
    using triple_Inr [OF triple_book [OF bookkeeping_pending, of "\<lambda>x. x j = Some c"]] pending_returns
    by (intro tripleI) fast+
  have fin: "triple (?K st) (ret (ps_result st)) ?I (\<lambda>_ _. False)" for st by (rule triple_ret) (simp add: kept_def)
  have now: "triple (\<lambda>w. inv w \<and> view w j = Some c) now ?I (\<lambda>_ _. False)" by (rule triple_now)
  note rest = triple_andThen [OF start, OF triple_andThen [OF now, OF triple_weaken [OF triple_andThen [OF loop1, OF triple_andThen [OF loop2 fin]] K0]]]
  show ?thesis
    unfolding push_rest_def localMap_def [symmetric] prevs_def [symmetric] Let_def
  proof (split option.split, intro conjI impI allI)
    fix e show "triple (\<lambda>w. inv w \<and> view w j = Some c) (throw e) ?I (\<lambda>_. ?I ())" by (rule triple_throw)
  qed (rule triple_conseq [OF rest], simp_all)
qed

end

section \<open>The push phase\<close>

lemma steady_internal_List [frame]: "steady (internal_List L u)"
  unfolding internal_List_def by (intro frame)

lemma steady_ListStates [frame]: "steady (ListStates u p)"
  unfolding ListStates_def by (intro frame)

context etag_remote
begin

text \<open>A card that moved on since the last run is the same after the push phase, as long as the cards tracked as
  its local side are still there and no untracked local card has its id.\<close>

lemma pushPhase_keeps:
  assumes w: "inv w" "view w j = Some c" "named j" and local: "book_inv v w" and opts: "cm \<noteq> ConflictDestWins" "\<And>xs. set (ord xs) = set xs"
    and tracked: "\<And>s. s \<in> set (t_sync_states (w_db w)) \<Longrightarrow> of_pipeline u p s \<Longrightarrow> named (ss_remote_id s) \<and>
       (ss_remote_id s = j \<longrightarrow> moved (ss_remote_etag s) c \<and> book_view L v w (ss_local_id s) \<noteq> None)"
    and ids: "\<And>k. book_view L v w k \<noteq> None \<Longrightarrow> k \<notin> ss_local_id ` {s \<in> set (t_sync_states (w_db w)). of_pipeline u p s} \<Longrightarrow> named k \<and> k \<noteq> j"
    and run: "pushPhase E ord u p (InternalProvider L v) P cm res w = (r, w')"
  shows "view w' j = Some c"
proof -
  have mono: "inv w2 \<and> view w2 j = Some c" if "steady m" "m w1 = (x, w2)" "inv w1 \<and> view w1 j = Some c" for m w1 x w2
    using elsewhere [of w1 w2] steadyD [OF that(1,2)] that(3) by simp
  from run [unfolded pushPhase_rest [OF has_put_if]] show ?thesis
  proof (cases rule: andThen_cases)
    case (1 e)
    then show ?thesis using mono w by (auto simp: InternalProvider_def elim!: wrapErr_cases intro!: frame)
  next
    case l: (2 items w1)
    then have l1: "internal_List L v w = (Inr items, w1)" by (simp add: wrapErr_Inr InternalProvider_def)
    have w1: "inv w1 \<and> view w1 j = Some c" using mono [OF steady_internal_List l1] w by simp
    have lists: "lists items (book_view L v w)" "w_db w1 = w_db w"
      using internal_List_ok [OF local l1] internal_List_db [OF local l1] by auto
    from l(2) show ?thesis
    proof (cases rule: andThen_cases)
      case (1 e)
      then show ?thesis using mono [OF steady_wrapErr [OF steady_ListStates] 1(1) w1] by simp
    next
      case s: (2 states w2)
      have w2: "inv w2 \<and> view w2 j = Some c" using mono [OF steady_wrapErr [OF steady_ListStates] s(1) w1] .
      have "query (\<lambda>d. filter (of_pipeline u p) (t_sync_states d)) w1 = (Inr states, w2)"
        using s(1) by (simp add: wrapErr_Inr ListStates_def)
      then have states: "states = filter (of_pipeline u p) (t_sync_states (w_db w))"
        using lists(2) by (auto dest: query_Inr_db)
      have "triple (\<lambda>w. inv w \<and> view w j = Some c) (push_rest E ord u p P cm res [] items states)
          (\<lambda>_ w. inv w \<and> view w j = Some c) (\<lambda>_ w. inv w \<and> view w j = Some c)"
        using lists(1) tracked ids by (intro push_rest_keeps opts w(3)) (auto simp: states)
      from triple_Inr [OF this] triple_Inl [OF this] s(2) w2 show ?thesis by (cases r) blast+
    qed
  qed
qed

end

lemma two_edits_r: "book_view L ''u'' two_edits ''r'' = None"
  by (simp add: two_edits_def one_card_def small_world_def small_db_def book_view_def user_book_id_def select_one_def card_row_def
      ada_card_def ada_def blank_contact_def)

section \<open>An automatic merge is undone by the next import\<close>

text \<open>A full import in \<open>auto\<close> mode, as the engine runs it.\<close>

definition auto_import :: "world \<Rightarrow> world" where
  "auto_import w = snd (pullPhase (small_engine merge_lib) id ''u'' ''p'' plain_remote (InternalProvider merge_lib ''u'') ConflictAuto
     no_result w)"

definition merged_text :: string where
  "merged_text = mr_merged (projr (MergeVCards merge_lib ''base'' ''local'' ''remote''))"

lemma merged: "\<exists>m. MergeVCards merge_lib ''base'' ''local'' ''remote'' = Inr m \<and> mr_auto m \<and> mr_merged m = merged_text"
  by (simp add: merged_text_def MergeVCards_def merge_lib_parse person_merge_conflicts)

lemma merged_text_neq: "merged_text \<noteq> ''remote''" "gv_decode merge_lib merged_text = Inl ''EOF''"
  unfolding merged_text_def by code_simp+

lemma put_ada:
  assumes "gv_decode L vc = Inl e'"
  shows "internal_Put L ''u'' \<lparr>si_remote_id = ''ada'', si_etag = e, si_content_hash = [], si_vcard = vc\<rparr> (one_card vc0 e0 q s)
    = (Inr \<lparr>pr_remote_id = ''ada'', pr_etag = etag_of L vc\<rparr>, one_card vc (etag_of L vc) (q + 1) s)"
  using assms by (simp add: provider_eval repo_eval ParseVCard_def one_card_def ada_card_def ApplyToContact_def empty_parsed_def)

lemma parse_remote:
  "ParseVCard merge_lib ''remote'' = Inr (empty_parsed\<lparr>p_fn := ''Eve'', p_first_name := ''Eve'', p_primary_phone := ''1'',
     p_phones := [\<lparr>pf_value = ''1'', pf_type = [], pf_pref = 0, pf_label = []\<rparr>], p_uid := ''u1''\<rparr>)"
  by code_simp

lemma put_remote:
  "\<exists>x w'. internal_Put merge_lib ''u'' \<lparr>si_remote_id = ''ada'', si_etag = e, si_content_hash = [], si_vcard = ''remote''\<rparr> (one_card vc0 e0 q s)
    = (Inr x, w') \<and> t_sync_states (w_db w') = [s] \<and> w_faults w' = [] \<and> map c_vcard_data (t_contacts (w_db w')) = [''remote'']"
  using parse_remote by (simp add: provider_eval repo_eval one_card_def ada_card_def ApplyToContact_def empty_parsed_def childID_def)

lemma one_card_list:
  "internal_List L ''u'' (one_card vc e q s) = (Inr [item_of L (ada_card vc e q)], one_card vc e q s)"
  by (simp add: internal_List_def GetOrCreateByUserID_def GetByUserID_def ListAll_def wrapErr_def andThen_def prog_simps query_def stmt_def
      one_card_def small_world_def small_db_def select_one_def in_book_def ada_card_def ada_def blank_contact_def)

text \<open>One import of the one card.\<close>

lemma one_card_pull:
  assumes "ss_user_id s = ''u''" "ss_provider_type s = ''p''" "ss_remote_id s = ''r''"
  shows "auto_import (one_card vc e q s) =
    snd (pull_item (small_engine merge_lib) ''u'' ''p'' (InternalProvider merge_lib ''u'') ConflictAuto 0
      [(''ada'', item_of merge_lib (ada_card vc e q))]
      [(''r'', \<lparr>si_remote_id = ''r'', si_etag = ''r1'', si_content_hash = [], si_vcard = ''remote''\<rparr>)] ''r''
      \<lparr>ps_prev = [(''r'', s)], ps_pending = [], ps_result = no_result\<rparr> (one_card vc e q s) :: (sync_error + phase_state) \<times> world)"
proof -
  have "remoteChanges (small_engine merge_lib) ''u'' ''p'' plain_remote (one_card vc e q s) =
    (Inr \<lparr>dl_updated = [\<lparr>si_remote_id = ''r'', si_etag = ''r1'', si_content_hash = [], si_vcard = ''remote''\<rparr>], dl_deleted = [],
      dl_cursor = [], dl_full = True\<rparr>, one_card vc e q s)"
    by (simp add: remoteChanges_def plain_remote_def remote_item_def wrapErr_def andThen_def prog_simps small_engine_def one_card_def)
  moreover have "wrapErr SyncDB (ListStates ''u'' ''p'') (one_card vc e q s) = (Inr [s], one_card vc e q s)"
    "pendingConflictsByRemoteID (small_engine merge_lib) ''u'' ''p'' (one_card vc e q s) = (Inr [] :: sync_error + _, one_card vc e q s)"
    "w_now (one_card vc e q s) = 0"
    using assms by (simp_all add: ListStates_def wrapErr_def prog_simps query_def stmt_def one_card_def small_world_def of_pipeline_def
        pendingConflictsByRemoteID_def ListPendingByProvider_def andThen_def attempt_def small_db_def index_by_def)
  moreover have "wrapErr SyncProv (p_list (InternalProvider merge_lib ''u'')) (one_card vc e q s)
      = (Inr [item_of merge_lib (ada_card vc e q)], one_card vc e q s)"
    by (simp add: one_card_list wrapErr_def InternalProvider_def)
  ultimately show ?thesis
    using assms
    by (simp add: auto_import_def pullPhase_def andThen_def index_by_def deletionsFromDelta_def checkDeletionSafety_def item_of_def
        ada_card_def ada_def blank_contact_def Let_def prog_simps small_engine_def split: prod.split sum.split)
qed

definition ada_merged :: sync_state where
  "ada_merged = ada_state\<lparr>ss_remote_etag := ''r1'', ss_local_etag := etag_of merge_lib merged_text,
     ss_content_hash := ContentHash merge_lib merged_text, ss_base_vcard := merged_text\<rparr>"

lemmas pull_eval = pull_item_def Let_def remote_modified_def small_engine_def apply_remote_def counting_def andThen_def attempt_def
  prog_simps InternalProvider_def

lemma one_card_update:
  "ss_id s' = ss_id s \<Longrightarrow> ss_user_id s' = ''u'' \<Longrightarrow> UpdateState s' (one_card vc e q s) = (Inr (), one_card vc e q s')"
  by (simp add: UpdateState_def one_card_def prog_simps stmt_def small_world_def small_db_def has_user_def upsert_row_def)

lemma length_hex: "length (hex s) = 2 * length s"
  by (induction s) (simp_all add: hex_def)

lemma length_merged: "length merged_text \<noteq> length ''remote''"
  unfolding merged_text_def by code_simp

lemma hex_merged: "ContentHash merge_lib merged_text \<noteq> ContentHash merge_lib ''remote''"
proof -
  have "ContentHash merge_lib s = hex s" for s by (simp add: ContentHash_def merge_lib_def table_lib_def)
  then show ?thesis using length_merged length_hex [of merged_text] length_hex [of "''remote''"] by force
qed

lemma first_auto_import: "auto_import two_edits = one_card merged_text (etag_of merge_lib merged_text) 2 ada_merged"
proof -
  obtain m where m: "MergeVCards merge_lib ''base'' ''local'' ''remote'' = Inr m" "mr_auto m" "mr_merged m = merged_text"
    using merged by blast
  then have "auto_merged (small_engine merge_lib) ConflictAuto ada_state (item_of merge_lib ada_edited)
      \<lparr>si_remote_id = ''r'', si_etag = ''r1'', si_content_hash = [], si_vcard = ''remote''\<rparr> = Some merged_text"
    by (simp add: auto_merged_def small_engine_def ada_state_def ada_edited_def ada_card_def item_of_def)
  then show ?thesis
    unfolding two_edits_def
    by (subst one_card_pull) (simp_all add: ada_state_def pull_eval ada_edited_def item_of_def ada_card_def put_ada [OF merged_text_neq(2)]
        one_card_update ada_merged_def)
qed

lemma second_auto_import:
  "map c_vcard_data (t_contacts (w_db (auto_import (one_card merged_text (etag_of merge_lib merged_text) 2 ada_merged)))) = [''remote'']"
proof -
  let ?w = "one_card merged_text (etag_of merge_lib merged_text) 2 ada_merged"
  obtain x w1 where put: "internal_Put merge_lib ''u'' \<lparr>si_remote_id = ''ada'', si_etag = etag_of merge_lib merged_text, si_content_hash = [],
      si_vcard = ''remote''\<rparr> ?w = (Inr x, w1)" and w1: "map c_vcard_data (t_contacts (w_db w1)) = [''remote'']"
    using put_remote [of "etag_of merge_lib merged_text" merged_text "etag_of merge_lib merged_text" 2 ada_merged] by auto
  have "t_contacts (w_db w') = t_contacts (w_db w1)" if "UpdateState s w1 = (r, w')" for s r w'
    using bookkeepingD [OF bookkeeping_store(2) that] by (simp add: own_tables_only_def)
  then show ?thesis using w1 hex_merged put
    by (subst one_card_pull)
      (auto simp: ada_merged_def ada_state_def pull_eval item_of_def ada_card_def ada_def split: prod.split sum.split)
qed

text \<open>The engine loses an automatic merge. In one concrete world the card was edited on both sides, in different fields;
  the first import in \<open>auto\<close> mode stores the three-way merge, which is what \<open>MergeVCards\<close> answers, and records its content hash where the next run expects that of the remote
  card. The remote did not change again and the user did nothing, yet the second import replaces
  the merged card by the remote one: the local edit is gone.\<close>

theorem auto_merge_undone:
  "map c_vcard_data (t_contacts (w_db two_edits)) = [''local'']
   \<and> (\<exists>m. MergeVCards merge_lib ''base'' ''local'' ''remote'' = Inr m \<and> mr_auto m \<and> mr_merged m \<noteq> ''remote''
        \<and> map c_vcard_data (t_contacts (w_db (auto_import two_edits))) = [mr_merged m])
   \<and> w_remote (auto_import two_edits) = w_remote two_edits
   \<and> map c_vcard_data (t_contacts (w_db (auto_import (auto_import two_edits)))) = [''remote'']"
  using merged merged_text_neq(1) second_auto_import unfolding first_auto_import
  by (auto simp: two_edits_def one_card_def ada_card_def small_world_def)

end
