(* ===== verification/PasswordHash.thy ===== *)
theory PasswordHash
  imports GoInt "HOL-Library.Word"
begin

text \<open>
  Password hashes: \<open>hashPassword\<close> and \<open>verifyPassword\<close> of \<open>internal/service/auth.go\<close>, and the second
  verifier of \<open>internal/carddav/auth.go\<close>, with what they use of the standard library (\<open>base64\<close> without
  padding, \<open>fmt.Sscanf\<close> with \<open>%d\<close> and \<open>%s\<close>, \<open>subtle.ConstantTimeCompare\<close>). Argon2id is not code of the
  repository: it is the argument \<open>K\<close>, and \<open>None\<close> is its panic on a zero number of rounds or threads.
  The parameters of a hash are machine words of the widths the code gives them.
\<close>

unbundle bit_operations_syntax

section \<open>The standard library\<close>

subsection \<open>Base64 without padding\<close>

definition b64_alphabet :: string where
  "b64_alphabet = ''ABCDEFGHIJKLMNOPQRSTUVWXYZabcdefghijklmnopqrstuvwxyz0123456789+/''"

definition b64_char :: "nat \<Rightarrow> char" where
  "b64_char n = b64_alphabet ! n"

definition b64_val :: "char \<Rightarrow> nat option" where
  "b64_val c = (let n = (of_char c :: nat) in
     if 65 \<le> n \<and> n \<le> 90 then Some (n - 65)
     else if 97 \<le> n \<and> n \<le> 122 then Some (n - 71)
     else if 48 \<le> n \<and> n \<le> 57 then Some (n + 4)
     else if n = 43 then Some 62 else if n = 47 then Some 63 else None)"

fun to_sextets :: "nat list \<Rightarrow> nat list" where
  "to_sextets [] = []"
| "to_sextets [a] = [a div 4, (a mod 4) * 16]"
| "to_sextets [a, b] = [a div 4, (a mod 4) * 16 + b div 16, (b mod 16) * 4]"
| "to_sextets (a # b # c # r) =
     [a div 4, (a mod 4) * 16 + b div 16, (b mod 16) * 4 + c div 64, c mod 64] @ to_sextets r"

text \<open>The bits a last, short group has too many are ignored, as \<open>RawStdEncoding\<close> does.\<close>

fun of_sextets :: "nat list \<Rightarrow> nat list option" where
  "of_sextets [] = Some []"
| "of_sextets [x] = None"
| "of_sextets [x, y] = Some [x * 4 + y div 16]"
| "of_sextets [x, y, z] = Some [x * 4 + y div 16, (y mod 16) * 16 + z div 4]"
| "of_sextets (x # y # z # w # r) =
     map_option (\<lambda>bs. [x * 4 + y div 16, (y mod 16) * 16 + z div 4, (z mod 4) * 64 + w] @ bs) (of_sextets r)"

definition b64_encode :: "string \<Rightarrow> string" where
  "b64_encode s = map b64_char (to_sextets (map of_char s))"

text \<open>\<open>DecodeString\<close> skips line breaks.\<close>

definition b64_decode :: "string \<Rightarrow> string option" where
  "b64_decode s =
     (case those (map b64_val (filter (\<lambda>c. c \<noteq> CR \<and> c \<noteq> LF) s)) of
        None \<Rightarrow> None
      | Some xs \<Rightarrow> map_option (map char_of) (of_sextets xs))"

subsection \<open>Scanning\<close>

text \<open>\<open>SkipSpace\<close> under \<open>Sscanf\<close>: a line break is an error.\<close>

function skip_space :: "nat list \<Rightarrow> nat list option" where
  "skip_space bs =
     (if bs = [] then Some []
      else if hd bs = 10 then None
      else if space_width bs = 0 then Some bs else skip_space (drop (space_width bs) bs))"
  by pat_completeness auto
termination by (relation "measure length") auto

declare skip_space.simps [simp del]

definition scan_literal :: "string \<Rightarrow> string \<Rightarrow> string option" where
  "scan_literal lit s = cut_prefix s lit"

text \<open>\<open>%d\<close> into an unsigned integer of a width.\<close>

definition scan_uint :: "nat \<Rightarrow> string \<Rightarrow> (nat \<times> string) option" where
  "scan_uint width s =
     (case skip_space (map of_char s) of
        None \<Rightarrow> None
      | Some bs \<Rightarrow>
          let s' = map char_of bs; tok = takeWhile is_digit s'
          in case parse_digits tok of
               None \<Rightarrow> None
             | Some n \<Rightarrow> if n < 2 ^ width then Some (n, drop (length tok) s') else None)"

text \<open>\<open>%s\<close>: up to the next white space; no token is an error.\<close>

fun token :: "nat list \<Rightarrow> nat list" where
  "token [] = []"
| "token (b # bs) = (if space_width (b # bs) > 0 then [] else b # token bs)"

definition scan_string :: "string \<Rightarrow> string option" where
  "scan_string s =
     (case skip_space (map of_char s) of
        None \<Rightarrow> None
      | Some bs \<Rightarrow> if bs = [] then None else Some (map char_of (token bs)))"

section \<open>The CardDAV verifier\<close>

type_synonym idkey = "string \<Rightarrow> string \<Rightarrow> 32 word \<Rightarrow> 32 word \<Rightarrow> 8 word \<Rightarrow> 32 word \<Rightarrow> string option"

definition parseUint :: "string \<Rightarrow> 64 word" where
  "parseUint s = fold (\<lambda>c n. if is_digit c then n * 10 + of_nat (of_char c - 48) else n) s 0"

definition set_param :: "string \<Rightarrow> 32 word \<times> 32 word \<times> 8 word \<Rightarrow> 32 word \<times> 32 word \<times> 8 word" where
  "set_param part mtp =
     (case mtp of (memory, time, threads) \<Rightarrow>
      case cut_at CHR ''='' part of
        (_, None) \<Rightarrow> (memory, time, threads)
      | (k, Some v) \<Rightarrow>
          let val = parseUint v
          in if k = ''m'' then (ucast val, time, threads)
             else if k = ''t'' then (memory, ucast val, threads)
             else if k = ''p'' then (memory, time, ucast val)
             else (memory, time, threads))"

text \<open>The loop over the bytes of both hashes.\<close>

definition same_bytes :: "string \<Rightarrow> string \<Rightarrow> bool" where
  "same_bytes xs ys \<longleftrightarrow>
     fold (\<lambda>(x, y) r. r OR (of_nat (of_char x) XOR of_nat (of_char y))) (zip xs ys) (0 :: 8 word) = 0"

definition hash_prefix :: string where "hash_prefix = ''$argon2id$v=19$''"

definition VerifyArgon2id :: "idkey \<Rightarrow> string \<Rightarrow> string \<Rightarrow> bool option" where
  "VerifyArgon2id K password encodedHash =
     (case cut_prefix encodedHash hash_prefix of
        None \<Rightarrow> Some False
      | Some rest \<Rightarrow>
     (case cut_at CHR ''$'' rest of
        (_, None) \<Rightarrow> Some False
      | (params, Some rest1) \<Rightarrow>
          let (memory, time, threads) = fold set_param (split_on CHR '','' params) (0, 0, 0)
          in case cut_at CHR ''$'' rest1 of
               (_, None) \<Rightarrow> Some False
             | (b64Salt, Some b64Hash) \<Rightarrow>
                 (case (b64_decode b64Salt, b64_decode b64Hash) of
                    (Some salt, Some expectedHash) \<Rightarrow>
                      map_option (\<lambda>computedHash. length expectedHash = length computedHash \<and> same_bytes expectedHash computedHash)
                        (K password salt time memory threads (of_nat (length expectedHash)))
                  | _ \<Rightarrow> Some False)))"

section \<open>The service\<close>

definition argonTime :: "32 word" where "argonTime = 1"
definition argonMemory :: "32 word" where "argonMemory = 64 * 1024"
definition argonThreads :: "8 word" where "argonThreads = 4"
definition argonKeyLen :: "32 word" where "argonKeyLen = 32"
definition argonSaltLen :: nat where "argonSaltLen = 16"

definition encoded_hash :: "string \<Rightarrow> string \<Rightarrow> string" where
  "encoded_hash salt hash = hash_prefix @ ''m='' @ format_nat (unat argonMemory) @ '',t='' @ format_nat (unat argonTime)
     @ '',p='' @ format_nat (unat argonThreads) @ ''$'' @ b64_encode salt @ ''$'' @ b64_encode hash"

text \<open>\<open>hashPassword\<close> with the bytes \<open>rand.Read\<close> has filled the salt with.\<close>

definition hashPassword :: "idkey \<Rightarrow> string \<Rightarrow> string \<Rightarrow> string option" where
  "hashPassword K salt password =
     map_option (encoded_hash salt) (K password salt argonTime argonMemory argonThreads argonKeyLen)"

fun splitLast :: "char \<Rightarrow> string \<Rightarrow> (string \<times> string) option" where
  "splitLast d [] = None"
| "splitLast d (c # s) =
     (case splitLast d s of
        Some (a, b) \<Rightarrow> Some (c # a, b)
      | None \<Rightarrow> if c = d then Some ([], s) else None)"

definition scan_hash :: "string \<Rightarrow> (nat \<times> nat \<times> nat \<times> string) option" where
  "scan_hash s =
     Option.bind (scan_literal (hash_prefix @ ''m='') s) (\<lambda>s.
     Option.bind (scan_uint 32 s) (\<lambda>(memory, s).
     Option.bind (scan_literal '',t='' s) (\<lambda>s.
     Option.bind (scan_uint 32 s) (\<lambda>(time, s).
     Option.bind (scan_literal '',p='' s) (\<lambda>s.
     Option.bind (scan_uint 8 s) (\<lambda>(threads, s).
     Option.bind (scan_literal ''$'' s) (\<lambda>s.
     Option.bind (scan_string s) (\<lambda>b64Salt. Some (memory, time, threads, b64Salt)))))))))"

definition verifyPassword :: "idkey \<Rightarrow> string \<Rightarrow> string \<Rightarrow> bool option" where
  "verifyPassword K password encodedHash =
     (case scan_hash encodedHash of
        None \<Rightarrow> Some False
      | Some (memory, time, threads, b64) \<Rightarrow>
     (case splitLast CHR ''$'' b64 of
        None \<Rightarrow> Some False
      | Some (b64Salt, b64Hash) \<Rightarrow>
          (case (b64_decode b64Salt, b64_decode b64Hash) of
             (Some salt, Some expectedHash) \<Rightarrow>
               map_option (\<lambda>computedHash. expectedHash = computedHash)
                 (K password salt (of_nat time) (of_nat memory) (of_nat threads) argonKeyLen)
           | _ \<Rightarrow> Some False)))"

section \<open>Base64 round trip\<close>

lemma of_to_sextets:
  assumes "\<forall>b \<in> set bs. b < 256"
  shows "of_sextets (to_sextets bs) = Some bs"
  using assms
proof (induction bs rule: to_sextets.induct)
  case (2 a)
  then show ?case by simp
next
  case (3 a b)
  have "((a mod 4) * 16 + b div 16) div 16 = a mod 4" "((a mod 4) * 16 + b div 16) mod 16 = b div 16"
    using 3 by (simp_all add: less_mult_imp_div_less)
  then show ?case by simp
next
  case (4 a b c r)
  have "((a mod 4) * 16 + b div 16) div 16 = a mod 4" "((a mod 4) * 16 + b div 16) mod 16 = b div 16"
    "((b mod 16) * 4 + c div 64) div 4 = b mod 16" "((b mod 16) * 4 + c div 64) mod 4 = c div 64"
    using 4 by (simp_all add: less_mult_imp_div_less)
  with 4 show ?case by simp
qed simp

lemma sextets_bound: "\<forall>b \<in> set bs. b < 256 \<Longrightarrow> \<forall>x \<in> set (to_sextets bs). x < 64"
  by (induction bs rule: to_sextets.induct) (auto simp: less_mult_imp_div_less)

lemma b64_alphabet_vals: "map b64_val b64_alphabet = map Some [0..<64]"
  by (simp add: b64_alphabet_def b64_val_def upt_rec)

lemma b64_char_props:
  assumes "n < 64"
  shows "b64_val (b64_char n) = Some n" "b64_char n \<in> set b64_alphabet"
proof -
  have len: "length b64_alphabet = 64" by (simp add: b64_alphabet_def)
  then have "b64_val (b64_alphabet ! n) = map b64_val b64_alphabet ! n" using assms by simp
  with assms show "b64_val (b64_char n) = Some n" unfolding b64_alphabet_vals by (simp add: b64_char_def)
  show "b64_char n \<in> set b64_alphabet" using assms len by (simp add: b64_char_def)
qed

lemma those_map_Some: "those (map Some xs) = Some xs"
  by (induction xs) simp_all

lemma b64_encode_set: "set (b64_encode s) \<subseteq> set b64_alphabet"
  using sextets_bound [of "map of_char s"] b64_char_props(2) by (fastforce simp: b64_encode_def)

lemma b64_plain:
  "c \<in> set b64_alphabet \<Longrightarrow> c \<noteq> CR \<and> c \<noteq> LF \<and> c \<noteq> CHR ''$'' \<and> of_char c \<notin> {10 :: nat, 32} \<and> 13 < (of_char c :: nat) \<and> (of_char c :: nat) < 128"
  by (auto simp: b64_alphabet_def CR_def LF_def)

lemma b64_roundtrip: "b64_decode (b64_encode s) = Some s"
proof -
  have "filter (\<lambda>c. c \<noteq> CR \<and> c \<noteq> LF) (b64_encode s) = b64_encode s"
    using b64_encode_set [of s] b64_plain by (auto simp: filter_id_conv)
  moreover have "map b64_val (b64_encode s) = map Some (to_sextets (map of_char s))"
    using sextets_bound [of "map of_char s"] b64_char_props(1) by (simp add: b64_encode_def)
  moreover have "of_sextets (to_sextets (map of_char s)) = Some (map of_char s)"
    by (rule of_to_sextets) auto
  ultimately show ?thesis by (simp add: b64_decode_def those_map_Some comp_def)
qed

section \<open>Scanning an encoded hash\<close>

lemma skip_none: "space_width bs = 0 \<Longrightarrow> bs \<noteq> [] \<Longrightarrow> skip_space bs = Some bs"
  by (cases bs) (auto simp: skip_space.simps split: if_splits)

lemma plain_no_space: "14 \<le> b \<Longrightarrow> b \<noteq> 32 \<Longrightarrow> b < 128 \<Longrightarrow> space_width (b # bs) = 0"
  by (auto split: list.splits)

lemma token_plain: "\<forall>b \<in> set bs. 14 \<le> b \<and> b \<noteq> 32 \<and> b < 128 \<Longrightarrow> token bs = bs"
  by (induction bs) (auto simp: plain_no_space simp del: space_width.simps)

lemma map_char_of_char: "map char_of (map of_char s :: nat list) = s"
  by (simp add: comp_def)

lemma scan_digits:
  assumes "is_digit d" "\<forall>c \<in> set ds. is_digit c" "\<not> is_digit c" "digits_val 0 (d # ds) = Some n" "n < 2 ^ w"
  shows "scan_uint w (d # ds @ c # s) = Some (n, c # s)"
proof -
  have "skip_space (map of_char (d # ds @ c # s)) = Some (map of_char (d # ds @ c # s))"
    using assms(1) by (intro skip_none) (auto simp: is_digit_def simp del: space_width.simps intro!: plain_no_space)
  moreover have "takeWhile is_digit (d # ds @ c # s) = d # ds" using assms(1-3) by (simp add: takeWhile_append2)
  ultimately show ?thesis using assms(4,5) by (simp add: scan_uint_def parse_digits_def Let_def comp_def)
qed

lemma splitLast_none: "d \<notin> set s \<Longrightarrow> splitLast d s = None"
  by (induction s) auto

lemma splitLast_at: "d \<notin> set b \<Longrightarrow> splitLast d (a @ d # b) = Some (a, b)"
  by (induction a) (auto simp: splitLast_none)

lemma cut_at_app: "d \<notin> set a \<Longrightarrow> cut_at d (a @ d # b) = (a, Some b)"
  by (induction a) auto

lemma encoded_hash_text: "encoded_hash salt h = ''$argon2id$v=19$m=65536,t=1,p=4$'' @ b64_encode salt @ ''$'' @ b64_encode h"
  by (simp add: encoded_hash_def hash_prefix_def argonMemory_def argonTime_def argonThreads_def format_nat.simps digit_def char_of_eq_iff take_bit_eq_mod)

lemma scan_string_plain:
  assumes "\<And>c. c \<in> set s \<Longrightarrow> (14::nat) \<le> of_char c \<and> of_char c \<noteq> (32::nat) \<and> of_char c < (128::nat)" "s \<noteq> []"
  shows "scan_string s = Some s"
proof (cases s)
  case (Cons c r)
  have "skip_space (map of_char s) = Some (map of_char s)"
    using assms(1) [of c] unfolding Cons by (intro skip_none) (auto simp del: space_width.simps intro!: plain_no_space)
  moreover have "token (map of_char s) = map of_char s" by (rule token_plain) (use assms(1) in auto)
  ultimately show ?thesis using assms(2) by (simp add: scan_string_def comp_def)
qed (use assms(2) in simp)

lemma scan_own_hash: "scan_hash (encoded_hash salt h) = Some (65536, 1, 4, b64_encode salt @ ''$'' @ b64_encode h)"
proof -
  let ?r = "b64_encode salt @ ''$'' @ b64_encode h"
  have plain: "(14::nat) \<le> of_char c \<and> of_char c \<noteq> (32::nat) \<and> of_char c < (128::nat)" if "c \<in> set ?r" for c
    using that b64_encode_set [of salt] b64_encode_set [of h] b64_plain [of c] by auto
  then have "scan_string ?r = Some ?r" by (intro scan_string_plain) auto
  moreover have "scan_uint 32 (''65536'' @ CHR '','' # s) = Some (65536, CHR '','' # s)"
    "scan_uint 32 (''1'' @ CHR '','' # s) = Some (1, CHR '','' # s)" "scan_uint 8 (''4'' @ CHR ''$'' # s) = Some (4, CHR ''$'' # s)" for s
    using scan_digits [of "CHR ''6''" "''5536''" "CHR '',''" 65536 32 s] scan_digits [of "CHR ''1''" "[]" "CHR '',''" 1 32 s]
      scan_digits [of "CHR ''4''" "[]" "CHR ''$''" 4 8 s] by (simp_all add: is_digit_def)
  ultimately show ?thesis
    by (simp add: scan_hash_def encoded_hash_text scan_literal_def cut_prefix_def hash_prefix_def)
qed

section \<open>The two verifiers\<close>

lemma parse_params: "fold set_param (split_on CHR '','' ''m=65536,t=1,p=4'') (0, 0, 0) = (65536, 1, 4)"
  by (simp add: set_param_def parseUint_def is_digit_def Let_def)

lemma byte_eq_iff: "(of_nat (of_char x) :: 8 word) = of_nat (of_char y) \<longleftrightarrow> x = y"
proof -
  have "unat (of_nat (of_char c) :: 8 word) = of_char c" for c by (simp add: unat_of_nat)
  then show ?thesis by (metis char_of_char)
qed

lemma or_fold:
  "fold (\<lambda>(x, y) r. r OR (f x XOR f y)) ps (a :: 8 word) = 0 \<longleftrightarrow> a = 0 \<and> (\<forall>(x, y) \<in> set ps. f x = f y)"
proof (induction ps arbitrary: a)
  case (Cons p ps)
  obtain x y where p: "p = (x, y)" by (cases p)
  have "a OR (f x XOR f y) = 0 \<longleftrightarrow> a = 0 \<and> f x = f y"
    by (metis or.left_neutral or_eq_0_iff xor_self_eq xor.left_neutral xor.assoc xor.right_neutral)
  then show ?case using Cons.IH [of "a OR (f x XOR f y)"] by (auto simp: p)
qed simp

lemma same_bytes_eq:
  assumes "length xs = length ys"
  shows "same_bytes xs ys \<longleftrightarrow> xs = ys"
proof -
  have "same_bytes xs ys \<longleftrightarrow> (\<forall>(x, y) \<in> set (zip xs ys). x = y)"
    unfolding same_bytes_def or_fold by (simp add: byte_eq_iff)
  also have "\<dots> \<longleftrightarrow> xs = ys" using assms by (auto simp: list_eq_iff_zip_eq)
  finally show ?thesis .
qed

lemma verifyPassword_own:
  "verifyPassword K pw (encoded_hash salt h) = map_option (\<lambda>k. h = k) (K pw salt argonTime argonMemory argonThreads argonKeyLen)"
proof -
  have "splitLast CHR ''$'' (b64_encode salt @ ''$'' @ b64_encode h) = Some (b64_encode salt, b64_encode h)"
    using splitLast_at [of "CHR ''$''" "b64_encode h"] b64_encode_set [of h] b64_plain by auto
  then show ?thesis
    unfolding verifyPassword_def scan_own_hash
    by (simp add: b64_roundtrip argonTime_def argonMemory_def argonThreads_def)
qed

lemma VerifyArgon2id_own:
  "VerifyArgon2id K pw (encoded_hash salt h) =
     map_option (\<lambda>k. h = k) (K pw salt argonTime argonMemory argonThreads (of_nat (length h)))"
proof -
  define ps where "ps = ''m=65536,t=1,p=4''"
  have no: "CHR ''$'' \<notin> set (b64_encode s)" for s using b64_encode_set [of s] b64_plain by blast
  have pre: "cut_prefix (encoded_hash salt h) hash_prefix = Some (ps @ CHR ''$'' # b64_encode salt @ CHR ''$'' # b64_encode h)"
    by (simp add: encoded_hash_text hash_prefix_def cut_prefix_def ps_def)
  have params: "fold set_param (split_on CHR '','' ps) (0, 0, 0) = (argonMemory, argonTime, argonThreads)"
    unfolding ps_def parse_params by (simp add: argonTime_def argonMemory_def argonThreads_def)
  have "CHR ''$'' \<notin> set ps" by (simp add: ps_def)
  note cuts = cut_at_app [OF this] cut_at_app [OF no]
  have "(length h = length k \<and> same_bytes h k) = (h = k)" for k using same_bytes_eq by blast
  then show ?thesis unfolding VerifyArgon2id_def pre by (simp add: cuts params b64_roundtrip)
qed

section \<open>Properties\<close>

text \<open>C33: The two password verifiers agree on the hashes the application writes. For every hash
  \<open>hashPassword\<close> returns, whatever Argon2id computes as long as it answers the 32 bytes it is asked for,
  the CardDAV verifier and the HTTP one give the same answer for every password: true exactly when
  Argon2id gives the stored key under the stored salt; in particular both accept the password
  itself.\<close>

theorem verifiers_agree:
  assumes "\<And>p s t m q k. K p s t m q argonKeyLen = Some k \<Longrightarrow> length k = 32" "hashPassword K salt password = Some h"
  shows "VerifyArgon2id K other h = verifyPassword K other h \<and> verifyPassword K password h = Some True
    \<and> VerifyArgon2id K password h = Some True
    \<and> verifyPassword K other h = map_option (\<lambda>k. K password salt argonTime argonMemory argonThreads argonKeyLen = Some k)
        (K other salt argonTime argonMemory argonThreads argonKeyLen)"
proof -
  obtain key where key: "K password salt argonTime argonMemory argonThreads argonKeyLen = Some key" "h = encoded_hash salt key"
    using assms(2) by (auto simp: hashPassword_def)
  have "of_nat (length key) = argonKeyLen" using assms(1) [OF key(1)] by (simp add: argonKeyLen_def)
  then show ?thesis using key(1) unfolding key(2) VerifyArgon2id_own verifyPassword_own by simp
qed

text \<open>A stand-in for Argon2id: the password and the salt, padded or cut to the length asked for.\<close>

definition toy_key :: idkey where
  "toy_key p s t m q n = (if t = 0 \<or> q = 0 then None else Some (take (unat n) (p @ s @ replicate (unat n) CHR ''x'')))"

theorem verifiers_agree_witness:
  "\<exists>h. hashPassword toy_key ''salt'' ''secret'' = Some h \<and> VerifyArgon2id toy_key ''secret'' h = Some True
     \<and> VerifyArgon2id toy_key ''guess'' h = Some False"
proof -
  have len: "length k = 32" if "toy_key p s t m q argonKeyLen = Some k" for p s t m q k
    using that by (auto simp: toy_key_def argonKeyLen_def split: if_splits)
  have "\<exists>h. hashPassword toy_key ''salt'' ''secret'' = Some h"
    by (simp add: hashPassword_def toy_key_def argonTime_def argonThreads_def)
  then obtain h where h: "hashPassword toy_key ''salt'' ''secret'' = Some h" by blast
  from verifiers_agree [OF len h, where other = "''guess''"] h show ?thesis
    by (simp add: toy_key_def argonTime_def argonThreads_def argonKeyLen_def)
qed

end
