(* ===== verification/Accounts.thy ===== *)
theory Accounts
  imports ProgLogic ContactRepository PasswordHash GoVCard
begin

text \<open>
  Accounts: the user and app-password repositories (\<open>internal/repository/bun_user.go\<close>,
  \<open>bun_app_password.go\<close>) and the services above them (\<open>internal/service/auth.go\<close>, \<open>user.go\<close>,
  \<open>app_password.go\<close>). Argon2id and the JWT library are arguments; \<open>rand.Read\<close> is the argument \<open>rnd\<close>, the
  bytes it returns, \<open>None\<close> when it fails. An operation that calls the credential invalidator answers
  the emails it called it with.
\<close>

section \<open>Repositories\<close>

definition CreateUser :: "user \<Rightarrow> (db_error, unit) prog" where
  "CreateUser u = stmt (\<lambda>d.
     if u_email u \<in> u_email ` set (t_users d) then Inl ErrConstraint
     else case insert_row u_id u (t_users d) of
       Inl e \<Rightarrow> Inl e | Inr users \<Rightarrow> Inr ((), d\<lparr>t_users := users\<rparr>))"

definition GetUserByID :: "string \<Rightarrow> (db_error, user option) prog" where
  "GetUserByID i = query (\<lambda>d. select_one (\<lambda>u. u_id u = i) (t_users d))"

definition GetByEmail :: "string \<Rightarrow> (db_error, user option) prog" where
  "GetByEmail email = query (\<lambda>d. select_one (\<lambda>u. u_email u = email) (t_users d))"

definition UpdateUser :: "user \<Rightarrow> (db_error, unit) prog" where
  "UpdateUser u = stmt (\<lambda>d.
     if \<exists>v \<in> set (t_users d). u_id v = u_id u \<and> (\<exists>x \<in> set (t_users d). u_id x \<noteq> u_id u \<and> u_email x = u_email u)
     then Inl ErrConstraint
     else Inr ((), d\<lparr>t_users := upsert_row u_id u (t_users d)\<rparr>))"

text \<open>The rows that go with a user by \<open>ON DELETE CASCADE\<close>.\<close>

definition DeleteUser :: "string \<Rightarrow> (db_error, unit) prog" where
  "DeleteUser i = stmt (\<lambda>d.
     let books = ab_id ` {b \<in> set (t_books d). ab_user_id b = i};
         pipelines = pl_id ` {p \<in> set (t_pipelines d). pl_user_id p = i};
         d1 = drop_contacts (\<lambda>c. c_address_book_id c \<in> books) d
     in Inr ((), d1\<lparr>t_users := filter (\<lambda>u. u_id u \<noteq> i) (t_users d1),
          t_app_passwords := filter (\<lambda>p. ap_user_id p \<noteq> i) (t_app_passwords d1),
          t_books := filter (\<lambda>b. ab_user_id b \<noteq> i) (t_books d1),
          t_tombstones := filter (\<lambda>t. ct_address_book_id t \<notin> books) (t_tombstones d1),
          t_duplicates := filter (\<lambda>p. pd_user_id p \<noteq> i) (t_duplicates d1),
          t_merge_log := filter (\<lambda>m. ml_user_id m \<noteq> i) (t_merge_log d1),
          t_sync_states := filter (\<lambda>s. ss_user_id s \<noteq> i) (t_sync_states d1),
          t_cursors := filter (\<lambda>c. cur_user_id c \<noteq> i) (t_cursors d1),
          t_conflicts := filter (\<lambda>c. sc_user_id c \<noteq> i) (t_conflicts d1),
          t_sync_runs := filter (\<lambda>r. sr_user_id r \<noteq> i) (t_sync_runs d1),
          t_pipelines := filter (\<lambda>p. pl_user_id p \<noteq> i) (t_pipelines d1),
          t_pipeline_steps := filter (\<lambda>s. ps_pipeline_id s \<notin> pipelines) (t_pipeline_steps d1),
          t_connections := filter (\<lambda>c. pc_user_id c \<noteq> i) (t_connections d1),
          t_backup_runs := filter (\<lambda>r. br_user_id r \<noteq> i) (t_backup_runs d1),
          t_backup_settings := filter (\<lambda>s. bs_user_id s \<noteq> i) (t_backup_settings d1),
          t_dedup_settings := filter (\<lambda>s. ds_user_id s \<noteq> i) (t_dedup_settings d1)\<rparr>))"

definition ListUsers :: "nat \<Rightarrow> nat \<Rightarrow> (db_error, user list \<times> nat) prog" where
  "ListUsers limit offset = query (\<lambda>d.
     (take limit (drop offset (sort_key (\<lambda>u. - u_created_at u) (t_users d))), length (t_users d)))"

definition ListAllIDs :: "(db_error, string list) prog" where
  "ListAllIDs = query (\<lambda>d. map u_id (t_users d))"

definition CreateAppPassword :: "app_password \<Rightarrow> (db_error, unit) prog" where
  "CreateAppPassword p = stmt (\<lambda>d.
     if ap_user_id p \<notin> u_id ` set (t_users d) then Inl ErrConstraint
     else case insert_row ap_id p (t_app_passwords d) of
       Inl e \<Rightarrow> Inl e | Inr ps \<Rightarrow> Inr ((), d\<lparr>t_app_passwords := ps\<rparr>))"

definition ListAppPasswords :: "string \<Rightarrow> (db_error, app_password list) prog" where
  "ListAppPasswords uid = query (\<lambda>d.
     sort_key (\<lambda>p. - ap_created_at p) (filter (\<lambda>p. ap_user_id p = uid) (t_app_passwords d)))"

definition GetAppPassword :: "string \<Rightarrow> (db_error, app_password option) prog" where
  "GetAppPassword i = query (\<lambda>d. select_one (\<lambda>p. ap_id p = i) (t_app_passwords d))"

definition DeleteAppPassword :: "string \<Rightarrow> (db_error, unit) prog" where
  "DeleteAppPassword i = stmt (\<lambda>d. Inr ((), d\<lparr>t_app_passwords := filter (\<lambda>p. ap_id p \<noteq> i) (t_app_passwords d)\<rparr>))"

definition UpdateLastUsed :: "string \<Rightarrow> (db_error, unit) prog" where
  "UpdateLastUsed i = andThen now (\<lambda>t. stmt (\<lambda>d. Inr ((), d\<lparr>t_app_passwords :=
     map (\<lambda>p. if ap_id p = i then p\<lparr>ap_last_used_at := Some t\<rparr> else p) (t_app_passwords d)\<rparr>)))"

section \<open>Tokens\<close>

datatype account_error = AccDB db_error | ErrInvalidCredentials | ErrEmailTaken | ErrUserNotFound
  | ErrWrongTokenType string string | ErrRegistrationClosed | ErrPasswordTooShort
  | ErrAppPasswordNotFound | ErrTooManyAppPasswords | ErrRand | ErrToken string | Panicked

definition RoleAdmin :: string where "RoleAdmin = ''admin''"
definition RoleUser :: string where "RoleUser = ''user''"
definition TokenTypeAccess :: string where "TokenTypeAccess = ''access''"
definition TokenTypeRefresh :: string where "TokenTypeRefresh = ''refresh''"

record claims =
  cl_user_id :: string
  cl_email :: string
  cl_role :: string
  cl_token_type :: string
  cl_expires_at :: int
  cl_issued_at :: int
  cl_subject :: string

record token_pair =
  tp_access :: string
  tp_refresh :: string
  tp_expires_at :: int

text \<open>The JWT library: signing with HS256, and parsing at a time with a key that is only given out
  for an HMAC method; the answer says whether the token is valid.\<close>

record jwt =
  jw_sign :: "string \<Rightarrow> claims \<Rightarrow> string + string"
  jw_parse :: "string \<Rightarrow> int \<Rightarrow> string \<Rightarrow> string + claims \<times> bool"

record auth_config =
  ac_secret :: string
  ac_token_ttl :: int
  ac_refresh_ttl :: int
  ac_allow_registration :: bool

definition validateToken :: "jwt \<Rightarrow> auth_config \<Rightarrow> string \<Rightarrow> string \<Rightarrow> (account_error, claims) prog" where
  "validateToken J cfg tokenStr want =
     andThen now (\<lambda>t. case jw_parse J (ac_secret cfg) t tokenStr of
       Inl e \<Rightarrow> throw (ErrToken e)
     | Inr (claims, valid) \<Rightarrow>
         if \<not> valid then throw ErrInvalidCredentials
         else if cl_token_type claims \<noteq> want then throw (ErrWrongTokenType want (cl_token_type claims))
         else ret claims)"

definition ValidateToken :: "jwt \<Rightarrow> auth_config \<Rightarrow> string \<Rightarrow> (account_error, claims) prog" where
  "ValidateToken J cfg tokenStr = validateToken J cfg tokenStr TokenTypeAccess"

definition ValidateRefreshToken :: "jwt \<Rightarrow> auth_config \<Rightarrow> string \<Rightarrow> (account_error, claims) prog" where
  "ValidateRefreshToken J cfg tokenStr = validateToken J cfg tokenStr TokenTypeRefresh"

definition claims_of :: "user \<Rightarrow> string \<Rightarrow> int \<Rightarrow> int \<Rightarrow> claims" where
  "claims_of u typ t expires = \<lparr>cl_user_id = u_id u, cl_email = u_email u, cl_role = u_role u, cl_token_type = typ,
     cl_expires_at = expires, cl_issued_at = t, cl_subject = u_id u\<rparr>"

definition generateTokenPair :: "jwt \<Rightarrow> auth_config \<Rightarrow> user \<Rightarrow> (account_error, token_pair) prog" where
  "generateTokenPair J cfg u =
     andThen now (\<lambda>t.
     let expiresAt = t + ac_token_ttl cfg
     in case jw_sign J (ac_secret cfg) (claims_of u TokenTypeAccess t expiresAt) of
          Inl e \<Rightarrow> throw (ErrToken e)
        | Inr access \<Rightarrow>
            (case jw_sign J (ac_secret cfg) (claims_of u TokenTypeRefresh t (t + ac_refresh_ttl cfg)) of
               Inl e \<Rightarrow> throw (ErrToken e)
             | Inr refresh \<Rightarrow> ret \<lparr>tp_access = access, tp_refresh = refresh, tp_expires_at = expiresAt\<rparr>))"

section \<open>Authentication service\<close>

text \<open>\<open>hashPassword\<close> with its random bytes, and a verification that may panic.\<close>

definition hashed :: "idkey \<Rightarrow> string option \<Rightarrow> string \<Rightarrow> (account_error, string) prog" where
  "hashed K rnd password = (case rnd of
      None \<Rightarrow> throw ErrRand
    | Some salt \<Rightarrow> (case hashPassword K salt password of None \<Rightarrow> throw Panicked | Some h \<Rightarrow> ret h))"

definition verified :: "bool option \<Rightarrow> (account_error, bool) prog" where
  "verified r = (case r of None \<Rightarrow> throw Panicked | Some b \<Rightarrow> ret b)"

definition RegistrationOpen :: "auth_config \<Rightarrow> (account_error, bool) prog" where
  "RegistrationOpen cfg =
     (if ac_allow_registration cfg then ret True
      else andThen (wrapErr AccDB (ListUsers 1 0)) (\<lambda>(_, total). ret (total = 0)))"

definition register ::
  "idkey \<Rightarrow> auth_config \<Rightarrow> string option \<Rightarrow> string \<Rightarrow> string \<Rightarrow> string \<Rightarrow> bool \<Rightarrow> (account_error, user) prog" where
  "register K cfg rnd email password displayName bypassPolicy =
     andThen (wrapErr AccDB (GetByEmail email)) (\<lambda>existing.
     if existing \<noteq> None then throw ErrEmailTaken
     else andThen (wrapErr AccDB (ListUsers 1 0)) (\<lambda>(_, total).
     if total > 0 \<and> \<not> bypassPolicy \<and> \<not> ac_allow_registration cfg then throw ErrRegistrationClosed
     else andThen (hashed K rnd password) (\<lambda>hash.
     andThen now (\<lambda>t.
     andThen mint (\<lambda>uid.
     let u = \<lparr>u_id = uid, u_email = email, u_password_hash = hash, u_display_name = displayName,
               u_role = (if total = 0 then RoleAdmin else RoleUser), u_created_at = t, u_updated_at = t\<rparr>
     in andThen (wrapErr AccDB (CreateUser u)) (\<lambda>_.
        andThen mint (\<lambda>bid.
        andThen (wrapErr AccDB (CreateBook \<lparr>ab_id = bid, ab_user_id = uid, ab_name = ''Contacts'', ab_description = [],
                   ab_change_seq = 0, ab_created_at = t, ab_updated_at = t\<rparr>)) (\<lambda>_.
        ret u))))))))"

definition Register ::
  "idkey \<Rightarrow> auth_config \<Rightarrow> string option \<Rightarrow> string \<Rightarrow> string \<Rightarrow> string \<Rightarrow> (account_error, user) prog" where
  "Register K cfg rnd email password displayName = register K cfg rnd email password displayName False"

definition RegisterBypassPolicy ::
  "idkey \<Rightarrow> auth_config \<Rightarrow> string option \<Rightarrow> string \<Rightarrow> string \<Rightarrow> string \<Rightarrow> (account_error, user) prog" where
  "RegisterBypassPolicy K cfg rnd email password displayName = register K cfg rnd email password displayName True"

definition Login :: "jwt \<Rightarrow> idkey \<Rightarrow> auth_config \<Rightarrow> string \<Rightarrow> string \<Rightarrow> (account_error, token_pair) prog" where
  "Login J K cfg email password =
     andThen (wrapErr AccDB (GetByEmail email)) (\<lambda>found. case found of
       None \<Rightarrow> throw ErrInvalidCredentials
     | Some u \<Rightarrow>
         andThen (verified (verifyPassword K password (u_password_hash u))) (\<lambda>ok.
         if \<not> ok then throw ErrInvalidCredentials else generateTokenPair J cfg u))"

definition RefreshToken :: "jwt \<Rightarrow> auth_config \<Rightarrow> string \<Rightarrow> (account_error, token_pair) prog" where
  "RefreshToken J cfg tokenStr =
     andThen (attempt (ValidateRefreshToken J cfg tokenStr)) (\<lambda>r. case r of
       Inl _ \<Rightarrow> throw ErrInvalidCredentials
     | Inr claims \<Rightarrow>
         andThen (wrapErr AccDB (GetUserByID (cl_user_id claims))) (\<lambda>found. case found of
           None \<Rightarrow> throw ErrUserNotFound | Some u \<Rightarrow> generateTokenPair J cfg u))"

section \<open>User service\<close>

definition MinPasswordLen :: nat where "MinPasswordLen = 8"

definition invalidateCredentials :: "bool \<Rightarrow> string \<Rightarrow> string list" where
  "invalidateCredentials wired email = (if wired \<and> email \<noteq> [] then [email] else [])"

definition required_user :: "string \<Rightarrow> (account_error, user) prog" where
  "required_user i = andThen (wrapErr AccDB (GetUserByID i)) (\<lambda>found. case found of
     None \<Rightarrow> throw ErrUserNotFound | Some u \<Rightarrow> ret u)"

definition UpdateProfile :: "string \<Rightarrow> string \<Rightarrow> string \<Rightarrow> (account_error, user) prog" where
  "UpdateProfile i displayName email =
     andThen (required_user i) (\<lambda>u.
     andThen (if email \<noteq> [] \<and> email \<noteq> u_email u
              then andThen (wrapErr AccDB (GetByEmail email)) (\<lambda>existing.
                if existing \<noteq> None then throw ErrEmailTaken else ret (u\<lparr>u_email := email\<rparr>))
              else ret u) (\<lambda>u1.
     let u2 = (if displayName \<noteq> [] then u1\<lparr>u_display_name := displayName\<rparr> else u1)
     in andThen now (\<lambda>t.
        let u3 = u2\<lparr>u_updated_at := t\<rparr>
        in andThen (wrapErr AccDB (UpdateUser u3)) (\<lambda>_. ret u3))))"

definition store_password :: "idkey \<Rightarrow> bool \<Rightarrow> string option \<Rightarrow> user \<Rightarrow> string \<Rightarrow> (account_error, string list) prog" where
  "store_password K wired rnd u newPassword =
     andThen (hashed K rnd newPassword) (\<lambda>hash.
     andThen now (\<lambda>t.
     andThen (wrapErr AccDB (UpdateUser (u\<lparr>u_password_hash := hash, u_updated_at := t\<rparr>))) (\<lambda>_.
     ret (invalidateCredentials wired (u_email u)))))"

definition ChangePassword :: "idkey \<Rightarrow> bool \<Rightarrow> string option \<Rightarrow> string \<Rightarrow> string \<Rightarrow> string \<Rightarrow> (account_error, string list) prog" where
  "ChangePassword K wired rnd i oldPassword newPassword =
     andThen (required_user i) (\<lambda>u.
     andThen (verified (verifyPassword K oldPassword (u_password_hash u))) (\<lambda>ok.
     if \<not> ok then throw ErrInvalidCredentials else store_password K wired rnd u newPassword))"

definition SetPassword :: "idkey \<Rightarrow> bool \<Rightarrow> string option \<Rightarrow> string \<Rightarrow> string \<Rightarrow> (account_error, string list) prog" where
  "SetPassword K wired rnd email newPassword =
     (if length newPassword < MinPasswordLen then throw ErrPasswordTooShort
      else andThen (wrapErr AccDB (GetByEmail email)) (\<lambda>found. case found of
        None \<Rightarrow> throw ErrUserNotFound | Some u \<Rightarrow> store_password K wired rnd u newPassword))"

definition UpdateRole :: "string \<Rightarrow> string \<Rightarrow> (account_error, unit) prog" where
  "UpdateRole i role =
     andThen (required_user i) (\<lambda>u. andThen now (\<lambda>t.
     wrapErr AccDB (UpdateUser (u\<lparr>u_role := role, u_updated_at := t\<rparr>))))"

section \<open>App passwords\<close>

definition MaxAppPasswordsPerUser :: nat where "MaxAppPasswordsPerUser = 20"

text \<open>\<open>tok\<close> is what \<open>generateToken\<close> read from \<open>rand\<close>.\<close>

definition AppPasswordCreate ::
  "idkey \<Rightarrow> string option \<Rightarrow> string option \<Rightarrow> string \<Rightarrow> string \<Rightarrow> (account_error, string \<times> app_password) prog" where
  "AppPasswordCreate K tok rnd uid label =
     andThen (wrapErr AccDB (ListAppPasswords uid)) (\<lambda>existing.
     if length existing \<ge> MaxAppPasswordsPerUser then throw ErrTooManyAppPasswords
     else case tok of None \<Rightarrow> throw ErrRand
     | Some bytes \<Rightarrow>
     let token = hex bytes
     in andThen (hashed K rnd token) (\<lambda>hash.
        andThen mint (\<lambda>i.
        andThen now (\<lambda>t.
        let ap = \<lparr>ap_id = i, ap_user_id = uid, ap_label = label, ap_password_hash = hash, ap_last_used_at = None,
                   ap_created_at = t\<rparr>
        in andThen (wrapErr AccDB (CreateAppPassword ap)) (\<lambda>_. ret (token, ap))))))"

definition AppPasswordDelete :: "bool \<Rightarrow> string \<Rightarrow> string \<Rightarrow> (account_error, string list) prog" where
  "AppPasswordDelete wired uid i =
     andThen (wrapErr AccDB (GetAppPassword i)) (\<lambda>found. case found of
       None \<Rightarrow> throw ErrAppPasswordNotFound
     | Some ap \<Rightarrow>
         if ap_user_id ap \<noteq> uid then throw ErrAppPasswordNotFound
         else andThen (wrapErr AccDB (DeleteAppPassword i)) (\<lambda>_.
           if \<not> wired then ret []
           else andThen (attempt (GetUserByID uid)) (\<lambda>r. case r of
             Inr (Some u) \<Rightarrow> ret [u_email u] | _ \<Rightarrow> ret [])))"

fun first_match :: "idkey \<Rightarrow> string \<Rightarrow> app_password list \<Rightarrow> (account_error, app_password option) prog" where
  "first_match K plaintext [] = ret None"
| "first_match K plaintext (p # ps) =
     andThen (verified (verifyPassword K plaintext (ap_password_hash p))) (\<lambda>ok.
     if ok then andThen (attempt (UpdateLastUsed (ap_id p))) (\<lambda>_. ret (Some p)) else first_match K plaintext ps)"

definition AppPasswordVerify :: "idkey \<Rightarrow> string \<Rightarrow> string \<Rightarrow> (account_error, app_password option) prog" where
  "AppPasswordVerify K uid plaintext =
     andThen (attempt (ListAppPasswords uid)) (\<lambda>r. case r of
       Inl _ \<Rightarrow> ret None | Inr ps \<Rightarrow> first_match K plaintext ps)"

section \<open>Lemmas\<close>

text \<open>What the code relies on of the JWT library: a token that was signed parses, with the same key and
  before it expires, to the claims it was signed with.\<close>

definition jwt_roundtrip :: "jwt \<Rightarrow> bool" where
  "jwt_roundtrip J \<longleftrightarrow> (\<forall>s c t tok. jw_sign J s c = Inr tok \<longrightarrow> t < cl_expires_at c \<longrightarrow> jw_parse J s t tok = Inr (c, True))"

lemmas run_simps = andThen_Inr wrapErr_Inr prog_simps Let_def

lemma validate_signed:
  assumes "jwt_roundtrip J" "jw_sign J (ac_secret cfg) c = Inr tok" "w_now w < cl_expires_at c"
  shows "validateToken J cfg tok want w = (if cl_token_type c = want then Inr c else Inl (ErrWrongTokenType want (cl_token_type c)), w)"
  using assms by (auto simp: validateToken_def andThen_def prog_simps jwt_roundtrip_def)

lemma GetByEmail_Inr:
  "GetByEmail email w = (Inr found, w') \<Longrightarrow> found = select_one (\<lambda>u. u_email u = email) (t_users (w_db w)) \<and> w_db w' = w_db w"
  unfolding GetByEmail_def by (auto dest: query_Inr_db)

lemma generateTokenPair_Inr:
  assumes "generateTokenPair J cfg u w = (Inr p, w')"
  shows "w' = w \<and> jw_sign J (ac_secret cfg) (claims_of u TokenTypeAccess (w_now w) (w_now w + ac_token_ttl cfg)) = Inr (tp_access p)
    \<and> jw_sign J (ac_secret cfg) (claims_of u TokenTypeRefresh (w_now w) (w_now w + ac_refresh_ttl cfg)) = Inr (tp_refresh p)"
  using assms by (auto simp: generateTokenPair_def run_simps split: sum.splits)

lemma Login_Inr:
  assumes "Login J K cfg email password w = (Inr p, w')"
  obtains u where "u \<in> set (t_users (w_db w))" "u_email u = email" "verifyPassword K password (u_password_hash u) = Some True"
    "generateTokenPair J cfg u w' = (Inr p, w')"
proof -
  obtain u w1 where *: "GetByEmail email w = (Inr (Some u), w1)" "verifyPassword K password (u_password_hash u) = Some True"
    "generateTokenPair J cfg u w1 = (Inr p, w')"
  proof -
    obtain found w1 where g: "GetByEmail email w = (Inr found, w1)" and rest: "(case found of None \<Rightarrow> throw ErrInvalidCredentials
        | Some u \<Rightarrow> andThen (verified (verifyPassword K password (u_password_hash u))) (\<lambda>ok.
            if \<not> ok then throw ErrInvalidCredentials else generateTokenPair J cfg u)) w1 = (Inr p, w')"
      using assms by (auto simp: Login_def andThen_Inr wrapErr_Inr)
    then obtain u where u: "found = Some u" by (cases found) (simp_all add: prog_simps)
    with rest obtain ok where ok: "verifyPassword K password (u_password_hash u) = Some ok"
      by (cases "verifyPassword K password (u_password_hash u)") (simp_all add: verified_def andThen_def prog_simps)
    with rest u have "ok \<and> generateTokenPair J cfg u w1 = (Inr p, w')"
      by (cases ok) (simp_all add: verified_def andThen_def prog_simps)
    with g u ok that show thesis by simp
  qed
  have u: "GetByEmail email w = (Inr (Some u), w')" "verifyPassword K password (u_password_hash u) = Some True"
    "generateTokenPair J cfg u w' = (Inr p, w')"
    using * generateTokenPair_Inr [OF *(3)] by simp_all
  then have "u \<in> set (t_users (w_db w))" "u_email u = email"
    using select_one_Some [of "\<lambda>u. u_email u = email" "t_users (w_db w)" u] GetByEmail_Inr [OF u(1)] by auto
  with u that show ?thesis by blast
qed

text \<open>The steps of a registration that succeeds.\<close>

lemma register_Inr:
  assumes "register K cfg rnd email password name bypass w = (Inr u, w1)"
  obtains salt h ab wa wb wc where "\<forall>x \<in> set (t_users (w_db w)). u_email x \<noteq> email"
    "t_users (w_db w) = [] \<or> bypass \<or> ac_allow_registration cfg"
    "hashPassword K salt password = Some h" "u_email u = email" "u_password_hash u = h"
    "u_role u = (if t_users (w_db w) = [] then RoleAdmin else RoleUser)"
    "CreateUser u wa = (Inr (), wb)" "w_db wa = w_db w" "CreateBook ab wc = (Inr (), w1)" "w_db wc = w_db wb"
    "ab_user_id ab = u_id u" "ab_change_seq ab = 0"
proof -
  obtain w2 users total w3 h w4 where r: "GetByEmail email w = (Inr None, w2)" "ListUsers 1 0 w2 = (Inr (users, total), w3)"
      "\<not> (total > 0 \<and> \<not> bypass \<and> \<not> ac_allow_registration cfg)" "hashed K rnd password w3 = (Inr h, w4)"
    and u: "u = \<lparr>u_id = w_uuid w4 (w_minted w4), u_email = email, u_password_hash = h, u_display_name = name,
        u_role = (if total = 0 then RoleAdmin else RoleUser), u_created_at = w_now w4, u_updated_at = w_now w4\<rparr>"
    and rest: "\<exists>wb. CreateUser u (w4\<lparr>w_minted := Suc (w_minted w4)\<rparr>) = (Inr (), wb)
        \<and> (\<exists>ab. CreateBook ab (wb\<lparr>w_minted := Suc (w_minted wb)\<rparr>) = (Inr (), w1) \<and> ab_user_id ab = u_id u \<and> ab_change_seq ab = 0)"
    using assms unfolding register_def
    by (elim andThen_InrE) (auto simp: wrapErr_Inr prog_simps Let_def elim!: andThen_InrE split: if_splits; fastforce)
  from rest obtain wb ab where c: "CreateUser u (w4\<lparr>w_minted := Suc (w_minted w4)\<rparr>) = (Inr (), wb)"
    "CreateBook ab (wb\<lparr>w_minted := Suc (w_minted wb)\<rparr>) = (Inr (), w1)" "ab_user_id ab = u_id u" "ab_change_seq ab = 0" by blast
  obtain salt where salt: "hashPassword K salt password = Some h" "w4 = w3"
    using r(4) by (auto simp: hashed_def prog_simps split: option.splits)
  have "total = length (t_users (w_db w2))" "w_db w3 = w_db w2"
    using query_Inr_db [OF r(2) [unfolded ListUsers_def]] by simp_all
  then have total: "total = length (t_users (w_db w))" "w_db w4 = w_db w" using GetByEmail_Inr [OF r(1)] salt(2) by simp_all
  have "\<forall>x \<in> set (t_users (w_db w)). u_email x \<noteq> email"
    using GetByEmail_Inr [OF r(1)] select_one_None [of "\<lambda>u. u_email u = email"] by metis
  then show ?thesis using r(3) salt(1) u c total
    by (intro that [of salt h "w4\<lparr>w_minted := Suc (w_minted w4)\<rparr>" wb ab "wb\<lparr>w_minted := Suc (w_minted wb)\<rparr>"]) auto
qed

section \<open>Properties\<close>



text \<open>C34: Registering. When \<open>Register\<close> succeeds, the instance was empty or accepts registrations, nobody
  had the email, the new account is an administrator exactly if it is the first one, and logging in
  with the password just chosen succeeds, as long as the statements are answered and the token
  library signs. Exactly one address book is added, with no change counted yet, and it belongs to the new user; the
  other books stay as they were.\<close>

theorem Register_then_Login:
  assumes "\<And>s c. \<exists>tok. jw_sign J s c = Inr tok"
    "Register K cfg rnd email password name w = (Inr u, w1)" "w_faults w1 = []"
  shows "(t_users (w_db w) = [] \<or> ac_allow_registration cfg) \<and> email \<notin> u_email ` set (t_users (w_db w))
    \<and> (u_role u = ''admin'' \<longleftrightarrow> t_users (w_db w) = [])
    \<and> t_users (w_db w1) = t_users (w_db w) @ [u]
    \<and> (\<exists>ab. t_books (w_db w1) = t_books (w_db w) @ [ab] \<and> ab_user_id ab = u_id u \<and> ab_change_seq ab = 0)
    \<and> (\<exists>p w2. Login J K cfg email password w1 = (Inr p, w2))"
proof -
  obtain salt h ab wa wb wc where r: "\<forall>x \<in> set (t_users (w_db w)). u_email x \<noteq> email"
      "t_users (w_db w) = [] \<or> ac_allow_registration cfg" "hashPassword K salt password = Some h"
    and u: "u_email u = email" "u_password_hash u = h" "u_role u = (if t_users (w_db w) = [] then RoleAdmin else RoleUser)"
    and c: "CreateUser u wa = (Inr (), wb)" "w_db wa = w_db w" "CreateBook ab wc = (Inr (), w1)" "w_db wc = w_db wb"
    and ab: "ab_user_id ab = u_id u" "ab_change_seq ab = 0"
    using assms(2) [unfolded Register_def] by (rule register_Inr) auto
  have "w_db wb = (w_db w)\<lparr>t_users := t_users (w_db w) @ [u]\<rparr>"
    using c(1,2) by (auto simp: CreateUser_def insert_row_def elim!: stmt_InrE split: if_splits sum.splits)
  moreover have "w_db w1 = (w_db wc)\<lparr>t_books := t_books (w_db wc) @ [ab]\<rparr>"
    using c(3) by (auto simp: CreateBook_def insert_row_def elim!: stmt_InrE split: if_splits sum.splits)
  ultimately have users: "t_users (w_db w1) = t_users (w_db w) @ [u]" and books: "t_books (w_db w1) = t_books (w_db w) @ [ab]" using c(4) by simp_all
  have "find (\<lambda>u. u_email u = email) (us @ [u]) = Some u" if "\<forall>x \<in> set us. u_email x \<noteq> email" for us
    using that u(1) by (induction us) auto
  then have found: "GetByEmail email w1 = (Inr (Some u), w1)"
    using r(1) assms(3) by (simp add: GetByEmail_def query_def stmt_def select_one_def users)
  have v: "verifyPassword K password (u_password_hash u) = Some True"
    using r(3) unfolding u(2) by (auto simp: hashPassword_def verifyPassword_own)
  obtain a b where "jw_sign J (ac_secret cfg) (claims_of u TokenTypeAccess (w_now w1) (w_now w1 + ac_token_ttl cfg)) = Inr a"
    "jw_sign J (ac_secret cfg) (claims_of u TokenTypeRefresh (w_now w1) (w_now w1 + ac_refresh_ttl cfg)) = Inr b"
    using assms(1) by blast
  then have "\<exists>p. Login J K cfg email password w1 = (Inr p, w1)"
    using found v by (simp add: Login_def andThen_def wrapErr_def verified_def prog_simps generateTokenPair_def Let_def)
  with r u users books ab show ?thesis by (auto simp: RoleAdmin_def RoleUser_def)
qed

text \<open>A JWT library for the closed examples: the token is the list of the claims.\<close>

definition show_claims :: "claims \<Rightarrow> string" where
  "show_claims c = join '','' [cl_user_id c, cl_email c, cl_role c, cl_token_type c, cl_subject c]"

definition open_config :: auth_config where
  "open_config = \<lparr>ac_secret = ''k'', ac_token_ttl = 10, ac_refresh_ttl = 20, ac_allow_registration = False\<rparr>"

text \<open>The one account of the examples, and the tokens signed for it.\<close>

definition ada_user :: user where
  "ada_user = \<lparr>u_id = ''u'', u_email = ''a@b'', u_password_hash = encoded_hash ''salt'' (the (toy_key ''secret'' ''salt'' 1 65536 4 32)),
     u_display_name = [], u_role = ''user'', u_created_at = 0, u_updated_at = 0\<rparr>"

definition toy_jwt :: jwt where
  "toy_jwt = \<lparr>jw_sign = (\<lambda>s c. if c = claims_of ada_user TokenTypeAccess 0 10 then Inr ''A''
       else if c = claims_of ada_user TokenTypeRefresh 0 20 then Inr ''R'' else Inl ''cannot sign''),
     jw_parse = (\<lambda>s t tok. if tok = ''A'' then Inr (claims_of ada_user TokenTypeAccess 0 10, True)
       else if tok = ''R'' then Inr (claims_of ada_user TokenTypeRefresh 0 20, True) else Inl ''malformed'')\<rparr>"

lemma toy_jwt_ok: "jwt_roundtrip toy_jwt"
  by (auto simp: jwt_roundtrip_def toy_jwt_def claims_of_def TokenTypeAccess_def TokenTypeRefresh_def split: if_splits)

definition ada_world :: world where
  "ada_world = small_world (small_db\<lparr>t_users := [ada_user]\<rparr>) []"

lemma ada_login: "Login toy_jwt toy_key open_config ''a@b'' ''secret'' ada_world = (Inr \<lparr>tp_access = ''A'', tp_refresh = ''R'', tp_expires_at = 10\<rparr>, ada_world)"
proof -
  have "verifyPassword toy_key ''secret'' (u_password_hash ada_user) = Some True"
    unfolding ada_user_def by (simp add: verifyPassword_own toy_key_def argonTime_def argonMemory_def argonThreads_def argonKeyLen_def)
  moreover have "GetByEmail ''a@b'' ada_world = (Inr (Some ada_user), ada_world)"
    by (simp add: GetByEmail_def query_def stmt_def ada_world_def small_world_def select_one_def ada_user_def)
  ultimately show ?thesis
    by (simp add: Login_def andThen_def wrapErr_def verified_def prog_simps generateTokenPair_def Let_def toy_jwt_def open_config_def
        ada_world_def small_world_def claims_of_def TokenTypeAccess_def TokenTypeRefresh_def)
qed


text \<open>A library that signs everything.\<close>

definition signing_jwt :: jwt where
  "signing_jwt = \<lparr>jw_sign = (\<lambda>s c. Inr (show_claims c)), jw_parse = (\<lambda>s t tok. Inl ''unused'')\<rparr>"

theorem Register_then_Login_witness:
  "\<exists>u w1 p w2. Register toy_key open_config (Some ''salt'') ''a@b'' ''secret'' ''Ada'' (small_world (small_db\<lparr>t_users := [], t_books := []\<rparr>) []) = (Inr u, w1)
     \<and> u_role u = ''admin'' \<and> Login signing_jwt toy_key open_config ''a@b'' ''secret'' w1 = (Inr p, w2)"
proof -
  have s: "\<exists>tok. jw_sign signing_jwt s c = Inr tok" for s c by (simp add: signing_jwt_def)
  have "\<exists>u w1. Register toy_key open_config (Some ''salt'') ''a@b'' ''secret'' ''Ada'' (small_world (small_db\<lparr>t_users := [], t_books := []\<rparr>) []) = (Inr u, w1) \<and> w_faults w1 = []"
    by (simp add: Register_def register_def andThen_def wrapErr_def prog_simps GetByEmail_def ListUsers_def query_def stmt_def select_one_def
        small_world_def hashed_def hashPassword_def toy_key_def argonTime_def argonThreads_def CreateUser_def CreateBook_def insert_row_def Let_def
        small_db_def)
  then obtain u w1 where r: "Register toy_key open_config (Some ''salt'') ''a@b'' ''secret'' ''Ada'' (small_world (small_db\<lparr>t_users := [], t_books := []\<rparr>) []) = (Inr u, w1)"
    "w_faults w1 = []" by blast
  from Register_then_Login [OF s r] r show ?thesis by (fastforce simp: small_world_def)
qed

end
