(* ===== verification/AuthThrottle.thy ===== *)
theory AuthThrottle
  imports GoVCard "HOL-Library.AList"
begin

text \<open>
  The two tables that stand in front of the password hash of the CardDAV mount: the failure
  counter of \<open>internal/carddav/throttle.go\<close> and the verdict cache of \<open>internal/carddav/authcache.go\<close>. A
  method holds the mutex of its table from the first to the last access, so it is one function
  of the table and of the time it reads; a time is a number of nanoseconds. A table is an association
  list with distinct keys. The theorems are about sequences of calls at increasing times.
\<close>

section \<open>Tables of bounded size\<close>

text \<open>The eviction of both tables: when the table is full the stale entries go, and when that is
  not enough all of them.\<close>

definition make_room :: "nat \<Rightarrow> ('v \<Rightarrow> bool) \<Rightarrow> (string \<times> 'v) list \<Rightarrow> (string \<times> 'v) list" where
  "make_room limit stale tab =
     (if length tab \<ge> limit
      then let kept = filter (\<lambda>(k, v). \<not> stale v) tab in if length kept \<ge> limit then [] else kept
      else tab)"

section \<open>The failure counter\<close>

definition seconds :: "int \<Rightarrow> int" where "seconds n = n * 10 ^ 9"

definition authFailureLimit :: nat where "authFailureLimit = 10"
definition authFailureWindow :: int where "authFailureWindow = 5 * seconds 60"
definition authBlockDuration :: int where "authBlockDuration = 5 * seconds 60"
definition authThrottleMaxIPs :: nat where "authThrottleMaxIPs = 1024"

text \<open>A zero \<open>blockedUntil\<close> is \<open>None\<close>.\<close>

record failure_record =
  fr_count :: nat
  fr_first :: int
  fr_blocked :: "int option"

type_synonym throttle = "(string \<times> failure_record) list"

definition blocked :: "int \<Rightarrow> string \<Rightarrow> throttle \<Rightarrow> bool \<times> throttle" where
  "blocked now ip T =
     (if ip = [] then (False, T)
      else case map_of T ip of
        None \<Rightarrow> (False, T)
      | Some rec \<Rightarrow>
          (case fr_blocked rec of
             None \<Rightarrow> (False, T)
           | Some b \<Rightarrow> if now < b then (True, T) else (False, AList.delete ip T)))"

definition stale_record :: "int \<Rightarrow> failure_record \<Rightarrow> bool" where
  "stale_record now rec \<longleftrightarrow> (case fr_blocked rec of None \<Rightarrow> True | Some b \<Rightarrow> b < now) \<and> now - fr_first rec > authFailureWindow"

definition next_record :: "int \<Rightarrow> failure_record option \<Rightarrow> failure_record" where
  "next_record now old =
     (let rec = (case old of
            None \<Rightarrow> \<lparr>fr_count = 0, fr_first = now, fr_blocked = None\<rparr>
          | Some r \<Rightarrow> if now - fr_first r > authFailureWindow
                     then \<lparr>fr_count = 0, fr_first = now, fr_blocked = None\<rparr> else r);
          rec1 = rec\<lparr>fr_count := fr_count rec + 1\<rparr>
      in if fr_count rec1 \<ge> authFailureLimit then rec1\<lparr>fr_blocked := Some (now + authBlockDuration)\<rparr> else rec1)"

definition recordFailure :: "int \<Rightarrow> string \<Rightarrow> throttle \<Rightarrow> throttle" where
  "recordFailure now ip T =
     (if ip = [] then T
      else AList.update ip (next_record now (map_of T ip)) (make_room authThrottleMaxIPs (stale_record now) T))"

definition recordSuccess :: "string \<Rightarrow> throttle \<Rightarrow> throttle" where
  "recordSuccess ip T = (if ip = [] then T else AList.delete ip T)"

section \<open>The verdict cache\<close>

definition authCachePositiveTTL :: int where "authCachePositiveTTL = 5 * seconds 60"
definition authCacheNegativeTTL :: int where "authCacheNegativeTTL = seconds 30"
definition authCacheMaxEntries :: nat where "authCacheMaxEntries = 1024"

record auth_verdict =
  av_ok :: bool
  av_user_id :: string
  av_user_email :: string
  av_expires_at :: int

type_synonym auth_cache = "(string \<times> auth_verdict) list"

definition no_verdict :: auth_verdict where
  "no_verdict = \<lparr>av_ok = False, av_user_id = [], av_user_email = [], av_expires_at = 0\<rparr>"

definition authCacheKey :: "lib \<Rightarrow> string \<Rightarrow> string \<Rightarrow> string" where
  "authCacheKey L email password = email @ '':'' @ hex (l_sha256 L password)"

definition cache_get :: "int \<Rightarrow> string \<Rightarrow> auth_cache \<Rightarrow> auth_verdict option \<times> auth_cache" where
  "cache_get now key C =
     (case map_of C key of
        None \<Rightarrow> (None, C)
      | Some v \<Rightarrow> if av_expires_at v < now then (None, AList.delete key C) else (Some v, C))"

definition cache_put :: "int \<Rightarrow> string \<Rightarrow> auth_verdict \<Rightarrow> auth_cache \<Rightarrow> auth_cache" where
  "cache_put now key v C =
     (let ttl = (if av_ok v then authCachePositiveTTL else authCacheNegativeTTL)
      in AList.update key (v\<lparr>av_expires_at := now + ttl\<rparr>)
           (make_room authCacheMaxEntries (\<lambda>v. av_expires_at v < now) C))"

definition invalidateEmail :: "string \<Rightarrow> auth_cache \<Rightarrow> auth_cache" where
  "invalidateEmail email C =
     (if email = [] then C else filter (\<lambda>(k, v). \<not> has_prefix k (email @ '':'')) C)"

section \<open>Sequences of calls\<close>

datatype attempt_outcome = Asked | Refused | Accepted

type_synonym throttle_event = "int \<times> string \<times> attempt_outcome"

fun throttle_step :: "throttle_event \<Rightarrow> throttle \<Rightarrow> throttle" where
  "throttle_step (now, ip, Asked) T = snd (blocked now ip T)"
| "throttle_step (now, ip, Refused) T = recordFailure now ip T"
| "throttle_step (now, ip, Accepted) T = recordSuccess ip T"

definition throttle_run :: "throttle_event list \<Rightarrow> throttle" where
  "throttle_run es = fold throttle_step es []"

text \<open>The refusals of an address in an interval.\<close>

definition refusals :: "string \<Rightarrow> int \<Rightarrow> int \<Rightarrow> throttle_event list \<Rightarrow> throttle_event list" where
  "refusals ip s t es = filter (\<lambda>(u, i, e). i = ip \<and> e = Refused \<and> s \<le> u \<and> u \<le> t) es"

section \<open>Lemmas\<close>

lemma make_room_length: "0 < limit \<Longrightarrow> length (make_room limit stale tab) < limit"
  by (simp add: make_room_def Let_def)

lemma make_room_subset: "set (make_room limit stale tab) \<subseteq> set tab"
  by (auto simp: make_room_def Let_def)

lemma make_room_distinct: "distinct (map fst tab) \<Longrightarrow> distinct (map fst (make_room limit stale tab))"
  by (simp add: make_room_def Let_def distinct_map_filter)

lemma make_room_map_of:
  assumes "distinct (map fst tab)" "map_of (make_room limit stale tab) k = Some v"
  shows "map_of tab k = Some v"
  using assms map_of_SomeD [OF assms(2)] make_room_subset [of limit stale tab] by (auto simp: map_of_eq_Some_iff)

lemma length_update: "length (AList.update k v al) \<le> Suc (length al)"
  by (induction al) auto

lemma length_delete: "length (AList.delete k al) \<le> length al"
  by (simp add: AList.delete_eq)

text \<open>A full table never grows.\<close>

lemma bounded_insert: "0 < limit \<Longrightarrow> length (AList.update k v (make_room limit stale tab)) \<le> limit"
  using length_update [of k v "make_room limit stale tab"] make_room_length [of limit stale tab] by simp

lemma throttle_run_snoc: "throttle_run (es @ [e]) = throttle_step e (throttle_run es)"
  by (simp add: throttle_run_def)

lemma throttle_table:
  "length (throttle_run es) \<le> authThrottleMaxIPs \<and> distinct (map fst (throttle_run es))"
proof (induction es rule: rev_induct)
  case Nil
  then show ?case by (simp add: throttle_run_def)
next
  case (snoc e es)
  obtain now ip k where e: "e = (now, ip, k)" by (cases e)
  have "length (AList.delete ip (throttle_run es)) \<le> authThrottleMaxIPs"
    using snoc length_delete [of ip "throttle_run es"] by linarith
  with snoc show ?case
    using bounded_insert [of authThrottleMaxIPs ip "next_record now (map_of (throttle_run es) ip)" "stale_record now" "throttle_run es"]
    by (cases k) (auto simp: e throttle_run_snoc blocked_def recordFailure_def recordSuccess_def distinct_update distinct_delete
        make_room_distinct authThrottleMaxIPs_def split: option.splits)
qed

lemma refusals_snoc:
  "length (refusals ip s t es) \<le> length (refusals ip s t (es @ [e]))"
  "s \<le> u \<Longrightarrow> u \<le> t \<Longrightarrow> length (refusals ip s t (es @ [(u, ip, Refused)])) = Suc (length (refusals ip s t es))"
  by (auto simp: refusals_def)

text \<open>Every record is backed by refusals of its own address.\<close>

definition backed :: "throttle_event list \<Rightarrow> string \<Rightarrow> failure_record \<Rightarrow> bool" where
  "backed es ip rec \<longleftrightarrow> fr_count rec \<le> length (refusals ip (fr_first rec) (fr_first rec + authFailureWindow) es)
     \<and> (\<exists>e \<in> set es. fst e = fr_first rec)
     \<and> (\<forall>b. fr_blocked rec = Some b \<longrightarrow> authFailureLimit \<le> fr_count rec \<and> (\<exists>s. (s, ip, Refused) \<in> set es \<and> b = s + authBlockDuration))"

lemma backed_mono: "backed es ip rec \<Longrightarrow> backed (es @ [e]) ip rec"
  using refusals_snoc(1) [of ip "fr_first rec" "fr_first rec + authFailureWindow" es e] by (auto simp: backed_def)

lemma backed_next:
  assumes "\<forall>e \<in> set es. fst e \<le> now" "\<And>r. old = Some r \<Longrightarrow> backed es ip r"
  shows "backed (es @ [(now, ip, Refused)]) ip (next_record now old)"
proof (cases "\<exists>r. old = Some r \<and> now - fr_first r \<le> authFailureWindow")
  case True
  then obtain r where r: "old = Some r" "now - fr_first r \<le> authFailureWindow" by blast
  with assms have b: "backed es ip r" "fr_first r \<le> now" by (fastforce simp: backed_def)+
  have "length (refusals ip (fr_first r) (fr_first r + authFailureWindow) (es @ [(now, ip, Refused)]))
      = Suc (length (refusals ip (fr_first r) (fr_first r + authFailureWindow) es))"
    using b(2) r(2) by (intro refusals_snoc(2)) auto
  with r b show ?thesis by (auto simp: next_record_def Let_def backed_def)
next
  case False
  have "0 \<le> authFailureWindow" by (simp add: authFailureWindow_def seconds_def)
  then have "1 \<le> length (refusals ip now (now + authFailureWindow) (es @ [(now, ip, Refused)]))"
    using refusals_snoc(2) [of now now "now + authFailureWindow" ip es] by simp
  moreover have "next_record now old = \<lparr>fr_count = 1, fr_first = now, fr_blocked = None\<rparr>"
    using False by (auto simp: next_record_def Let_def authFailureLimit_def split: option.splits)
  ultimately show ?thesis by (auto simp: backed_def)
qed

lemma throttle_backed:
  assumes "sorted (map fst es)" "map_of (throttle_run es) ip = Some rec"
  shows "backed es ip rec"
  using assms
proof (induction es arbitrary: ip rec rule: rev_induct)
  case Nil
  then show ?case by (simp add: throttle_run_def)
next
  case (snoc e es)
  obtain now i k where e: "e = (now, i, k)" by (cases e)
  have sorted: "sorted (map fst es)" "\<forall>e \<in> set es. fst e \<le> now"
    using snoc.prems(1) by (auto simp: e sorted_append)
  note IH = snoc.IH [OF sorted(1)]
  have old: "backed (es @ [e]) ip rec" if "map_of (throttle_run es) ip = Some rec"
    using IH [OF that] by (rule backed_mono)
  show ?case
  proof (cases k)
    case Refused
    have "backed (es @ [(now, i, Refused)]) i (next_record now (map_of (throttle_run es) i))"
      using backed_next [OF sorted(2)] IH by blast
    moreover have "map_of (make_room authThrottleMaxIPs (stale_record now) (throttle_run es)) ip = Some rec \<Longrightarrow> backed (es @ [e]) ip rec"
      using old make_room_map_of [of "throttle_run es" authThrottleMaxIPs "stale_record now" ip rec] throttle_table [of es] by simp
    ultimately show ?thesis
      using snoc.prems(2) old Refused by (auto simp: e throttle_run_snoc recordFailure_def update_conv' split: if_splits)
  qed (use snoc.prems(2) old in \<open>auto simp: e throttle_run_snoc blocked_def recordSuccess_def delete_conv' split: if_splits option.splits\<close>)
qed

subsection \<open>The cache\<close>

datatype cache_event = Put int string auth_verdict | Get int string | Invalidate string

fun cache_step :: "cache_event \<Rightarrow> auth_cache \<Rightarrow> auth_cache" where
  "cache_step (Put now key v) C = cache_put now key v C"
| "cache_step (Get now key) C = snd (cache_get now key C)"
| "cache_step (Invalidate email) C = invalidateEmail email C"

definition cache_run :: "cache_event list \<Rightarrow> auth_cache" where
  "cache_run es = fold cache_step es []"

definition verdict_ttl :: "auth_verdict \<Rightarrow> int" where
  "verdict_ttl v = (if av_ok v then authCachePositiveTTL else authCacheNegativeTTL)"

text \<open>An entry comes from a call of \<open>put\<close> after which its account was not invalidated.\<close>

definition justified :: "cache_event list \<Rightarrow> string \<Rightarrow> auth_verdict \<Rightarrow> bool" where
  "justified es key v \<longleftrightarrow> (\<exists>pre s v0 post. es = pre @ Put s key v0 # post \<and> v = v0\<lparr>av_expires_at := s + verdict_ttl v0\<rparr>
     \<and> (\<forall>email. Invalidate email \<in> set post \<longrightarrow> email = [] \<or> \<not> has_prefix key (email @ '':'')))"

lemma cache_run_snoc: "cache_run (es @ [e]) = cache_step e (cache_run es)"
  by (simp add: cache_run_def)

lemma cache_table: "length (cache_run es) \<le> authCacheMaxEntries \<and> distinct (map fst (cache_run es))"
proof (induction es rule: rev_induct)
  case Nil
  then show ?case by (simp add: cache_run_def)
next
  case (snoc e es)
  have "length (AList.delete k (cache_run es)) \<le> authCacheMaxEntries" for k
    using snoc length_delete [of k "cache_run es"] by linarith
  moreover have "length (filter q (cache_run es)) \<le> authCacheMaxEntries" for q
    using snoc length_filter_le [of q "cache_run es"] by linarith
  moreover have "length (AList.update k v (make_room authCacheMaxEntries q (cache_run es))) \<le> authCacheMaxEntries" for k v q
    by (intro bounded_insert) (simp add: authCacheMaxEntries_def)
  ultimately show ?case using snoc
    by (cases e) (auto simp: cache_run_snoc cache_put_def cache_get_def invalidateEmail_def Let_def distinct_update distinct_delete
        make_room_distinct distinct_map_filter split: option.splits)
qed

lemma justified_mono:
  "justified es key v \<Longrightarrow> (\<And>email. e = Invalidate email \<Longrightarrow> email = [] \<or> \<not> has_prefix key (email @ '':'')) \<Longrightarrow> justified (es @ [e]) key v"
  unfolding justified_def
proof (elim exE conjE)
  fix pre s v0 post
  assume *: "\<And>email. e = Invalidate email \<Longrightarrow> email = [] \<or> \<not> has_prefix key (email @ '':'')" "es = pre @ Put s key v0 # post"
    "v = v0\<lparr>av_expires_at := s + verdict_ttl v0\<rparr>"
    "\<forall>email. Invalidate email \<in> set post \<longrightarrow> email = [] \<or> \<not> has_prefix key (email @ '':'')"
  show "\<exists>pre s v0 post. es @ [e] = pre @ Put s key v0 # post \<and> v = v0\<lparr>av_expires_at := s + verdict_ttl v0\<rparr>
     \<and> (\<forall>email. Invalidate email \<in> set post \<longrightarrow> email = [] \<or> \<not> has_prefix key (email @ '':''))"
    using * by (intro exI [of _ pre] exI [of _ s] exI [of _ v0] exI [of _ "post @ [e]"]) auto
qed

lemma cache_justified: "map_of (cache_run es) key = Some v \<Longrightarrow> justified es key v"
proof (induction es arbitrary: key v rule: rev_induct)
  case Nil
  then show ?case by (simp add: cache_run_def)
next
  case (snoc e es)
  have distinct: "distinct (map fst (cache_run es))" using cache_table by blast
  show ?case
  proof (cases e)
    case (Put s k v0)
    have "justified (es @ [e]) k (v0\<lparr>av_expires_at := s + verdict_ttl v0\<rparr>)"
      unfolding justified_def Put by (intro exI [of _ es] exI [of _ s] exI [of _ v0] exI [of _ "[]"]) simp
    moreover have "justified (es @ [e]) key v" if "map_of (make_room authCacheMaxEntries (\<lambda>v. av_expires_at v < s) (cache_run es)) key = Some v"
      using snoc.IH [OF make_room_map_of [OF distinct that]] by (rule justified_mono) (simp add: Put)
    ultimately show ?thesis using snoc.prems
      by (auto simp: Put cache_run_snoc cache_put_def Let_def update_conv' verdict_ttl_def split: if_splits)
  next
    case (Get s k)
    have "map_of (cache_run es) key = Some v"
      using snoc.prems by (auto simp: Get cache_run_snoc cache_get_def delete_conv' split: option.splits if_splits)
    from snoc.IH [OF this] show ?thesis by (rule justified_mono) (simp add: Get)
  next
    case (Invalidate email)
    have m: "map_of (cache_run es) key = Some v \<and> (email = [] \<or> \<not> has_prefix key (email @ '':''))"
      using snoc.prems distinct map_of_SomeD [OF snoc.prems]
      by (auto simp: Invalidate cache_run_snoc invalidateEmail_def distinct_map_filter split: if_splits)
    from m snoc.IH show ?thesis by (intro justified_mono) (auto simp: Invalidate)
  qed
qed

subsection \<open>Counting up to a block\<close>

definition refused_at :: "string \<Rightarrow> throttle_event list \<Rightarrow> int list" where
  "refused_at ip es = map fst (filter (\<lambda>(u, i, e). i = ip \<and> e = Refused) es)"

text \<open>What the record of an address says after the refusals at \<open>us\<close>, none of them forgotten.\<close>

definition counted :: "string \<Rightarrow> int list \<Rightarrow> throttle \<Rightarrow> bool" where
  "counted ip us T \<longleftrightarrow> map_of T ip = (if us = [] then None else
     Some \<lparr>fr_count = length us, fr_first = hd us,
       fr_blocked = (if length us \<ge> authFailureLimit then Some (last us + authBlockDuration) else None)\<rparr>)"

lemma refused_at_snoc: "refused_at ip (es @ [(u, i, k)]) = refused_at ip es @ (if i = ip \<and> k = Refused then [u] else [])"
  by (simp add: refused_at_def)

lemma make_room_enough:
  assumes "distinct (map fst T)" "fst ` set T \<subseteq> A" "finite A" "card A < limit"
  shows "make_room limit stale T = T"
proof -
  have "length T = card (fst ` set T)" using distinct_card [OF assms(1)] by simp
  also have "\<dots> \<le> card A" using assms by (intro card_mono)
  finally show ?thesis using assms(4) by (simp add: make_room_def)
qed

lemma keys_of_update: "fst ` set (AList.update k v al) = insert k (fst ` set al)"
  by (induction al) auto

lemma step_keys:
  assumes "distinct (map fst T)" "fst ` set T \<subseteq> A" "i \<in> A" "finite A" "card A < authThrottleMaxIPs"
  shows "distinct (map fst (throttle_step (u, i, k) T)) \<and> fst ` set (throttle_step (u, i, k) T) \<subseteq> A"
  using assms make_room_enough [OF assms(1,2,4,5), of "stale_record u"]
  by (cases k) (auto simp: blocked_def recordFailure_def recordSuccess_def distinct_update distinct_delete keys_of_update
      AList.delete_eq distinct_map_filter split: option.splits dest: subsetD)

lemma counted_step:
  assumes "counted ip us T" "distinct (map fst T)" "fst ` set T \<subseteq> A" "finite A" "card A < authThrottleMaxIPs" "ip \<noteq> []"
    "i = ip \<Longrightarrow> k \<noteq> Accepted" "\<forall>v \<in> set us. s \<le> v \<and> v < s + authFailureWindow"
    "k = Refused \<Longrightarrow> i = ip \<Longrightarrow> s \<le> u \<and> u < s + authFailureWindow"
    "us \<noteq> [] \<Longrightarrow> u < s + authFailureWindow \<or> u < last us + authBlockDuration"
  shows "counted ip (us @ (if i = ip \<and> k = Refused then [u] else [])) (throttle_step (u, i, k) T)"
proof -
  have W: "authBlockDuration = authFailureWindow" by (simp add: authFailureWindow_def authBlockDuration_def)
  have keep: "u < last us + authBlockDuration" if "us \<noteq> []"
    using assms(8,10) last_in_set [OF that] that W by fastforce
  show ?thesis
  proof (cases "i = ip")
    case True
    show ?thesis
    proof (cases k)
      case Asked
      then show ?thesis using assms(1) keep True by (auto simp: counted_def blocked_def)
    next
      case Refused
      have "u - hd us \<le> authFailureWindow" if "us \<noteq> []"
        using assms(8,9) hd_in_set [OF that] Refused True by fastforce
      then show ?thesis
        using assms(1) make_room_enough [OF assms(2-5), of "stale_record u"] Refused True assms(6)
        by (cases us) (auto simp: counted_def recordFailure_def next_record_def Let_def authFailureLimit_def update_conv')
    qed (use assms(7) True in simp)
  next
    case False
    then show ?thesis
      using assms(1) make_room_enough [OF assms(2-5), of "stale_record u"]
      by (cases k) (auto simp: counted_def blocked_def recordFailure_def recordSuccess_def update_conv' delete_conv' split: option.splits)
  qed
qed

lemma counted_run:
  assumes "ip \<noteq> []" "map_of (throttle_run pre) ip = None" "finite A" "card A < authThrottleMaxIPs"
    "fst ` set (throttle_run pre) \<subseteq> A" "\<forall>(u, i, k) \<in> set post. i \<in> A \<and> (i = ip \<longrightarrow> k \<noteq> Accepted)"
    "\<forall>v \<in> set (refused_at ip post). s \<le> v \<and> v < s + authFailureWindow" "sorted (map fst post)"
    "\<And>e. e \<in> set post \<Longrightarrow> fst e < s + authFailureWindow \<or> fst e < last (refused_at ip post) + authBlockDuration"
  shows "counted ip (refused_at ip post) (throttle_run (pre @ post)) \<and> distinct (map fst (throttle_run (pre @ post)))
    \<and> fst ` set (throttle_run (pre @ post)) \<subseteq> A"
  using assms(6-9)
proof (induction post rule: rev_induct)
  case Nil
  then show ?case using assms(1-5) throttle_table [of pre] by (simp add: counted_def refused_at_def)
next
  case (snoc e es)
  obtain u i k where e: "e = (u, i, k)" by (cases e)
  let ?us = "refused_at ip es"
  have us: "refused_at ip (es @ [e]) = ?us @ (if i = ip \<and> k = Refused then [u] else [])"
    by (simp add: e refused_at_snoc)
  have le: "v \<le> u" if "v \<in> set ?us" for v using that snoc.prems(3) by (auto simp: e refused_at_def sorted_append)
  have W: "authBlockDuration = authFailureWindow" by (simp add: authFailureWindow_def authBlockDuration_def)
  have later: "fst e' < s + authFailureWindow \<or> fst e' < last ?us + authBlockDuration" if "e' \<in> set es" for e'
  proof (cases "i = ip \<and> k = Refused")
    case True
    then have "fst e' \<le> u" "u < s + authFailureWindow" using that snoc.prems(2,3) us by (auto simp: e sorted_append)
    then show ?thesis by simp
  qed (use snoc.prems(4) [of e'] that us in auto)
  have IH: "counted ip ?us (throttle_run (pre @ es))" "distinct (map fst (throttle_run (pre @ es)))" "fst ` set (throttle_run (pre @ es)) \<subseteq> A"
    using snoc.IH snoc.prems(1-3) later us by (auto simp: sorted_append)
  have last: "u < s + authFailureWindow \<or> u < last ?us + authBlockDuration"
    using snoc.prems(2) snoc.prems(4) [of e] us by (auto simp: e split: if_splits)
  have "counted ip (?us @ (if i = ip \<and> k = Refused then [u] else [])) (throttle_step (u, i, k) (throttle_run (pre @ es)))"
    using snoc.prems(1,2) us last by (intro counted_step [OF IH(1-3) assms(3,4,1), where s = s]) (auto simp: e)
  then have "counted ip (refused_at ip (es @ [e])) (throttle_step e (throttle_run (pre @ es)))" by (simp add: us [symmetric] e)
  moreover have "i \<in> A" using snoc.prems(1) by (auto simp: e)
  ultimately show ?case
    using step_keys [OF IH(2,3) _ assms(3,4), of i u k] throttle_run_snoc [of "pre @ es" e] by (simp add: e)
qed

section \<open>Properties\<close>

text \<open>The failure counter only shuts out an address for what was refused to that address. In any
  sequence of calls at increasing times, an address that is blocked has had at least ten refused
  attempts of its own within five minutes, one of them less than five minutes ago; no activity of
  other addresses, not even one that overflows the table, can block it; and the table never holds
  more than 1024 addresses.\<close>

theorem blocked_by_own_refusals:
  assumes "sorted (map fst es)" "fst (blocked now ip (throttle_run es))"
  shows "(\<exists>s. length (refusals ip s (s + authFailureWindow) es) \<ge> 10)
    \<and> (\<exists>s. (s, ip, Refused) \<in> set es \<and> now < s + authBlockDuration) \<and> length (throttle_run es) \<le> 1024"
proof -
  obtain rec b where rec: "map_of (throttle_run es) ip = Some rec" "fr_blocked rec = Some b" "now < b"
    using assms(2) by (auto simp: blocked_def split: if_splits option.splits)
  note b = throttle_backed [OF assms(1) rec(1), unfolded backed_def]
  then have "10 \<le> length (refusals ip (fr_first rec) (fr_first rec + authFailureWindow) es)"
    using rec(2) by (simp add: authFailureLimit_def)
  moreover have "\<exists>s. (s, ip, Refused) \<in> set es \<and> now < s + authBlockDuration" using b rec(2,3) by auto
  ultimately show ?thesis using throttle_table [of es] by (auto simp: authThrottleMaxIPs_def)
qed


text \<open>The failure counter stops a grinding address. Let an address have no record, and then be refused
  at least ten times within less than five minutes, without a success in between and whatever other
  addresses do meanwhile, as long as fewer than 1024 addresses are involved; then it is blocked from
  the last refusal on for five minutes.\<close>

theorem repeated_refusals_block:
  assumes "ip \<noteq> []" "map_of (throttle_run pre) ip = None"
    "card (fst ` set (throttle_run pre) \<union> (fst \<circ> snd) ` set post) < 1024"
    "\<forall>(u, i, k) \<in> set post. i = ip \<longrightarrow> k \<noteq> Accepted" "sorted (map fst post @ [now])"
    "10 \<le> length (refused_at ip post)" "\<forall>v \<in> set (refused_at ip post). s \<le> v \<and> v < s + authFailureWindow"
    "now < last (refused_at ip post) + authBlockDuration"
  shows "fst (blocked now ip (throttle_run (pre @ post)))"
proof -
  let ?A = "fst ` set (throttle_run pre) \<union> (fst \<circ> snd) ` set post"
  have "fst e < last (refused_at ip post) + authBlockDuration" if "e \<in> set post" for e
    using that assms(5,8) by (fastforce simp: sorted_append)
  moreover have "\<forall>(u, i, k) \<in> set post. i \<in> ?A \<and> (i = ip \<longrightarrow> k \<noteq> Accepted)"
    using assms(4) by (force simp: image_iff)
  ultimately have "counted ip (refused_at ip post) (throttle_run (pre @ post))"
    using assms(5) counted_run [OF assms(1,2) _ _ _ _ assms(7), of ?A] assms(3) by (auto simp: sorted_append authThrottleMaxIPs_def)
  then show ?thesis using assms(1,6,8) by (auto simp: counted_def blocked_def authFailureLimit_def)
qed

definition ten_refusals :: "throttle_event list" where
  "ten_refusals = map (\<lambda>n. (int n, ''10.0.0.1'', Refused)) [0..<10]"

theorem blocked_by_own_refusals_witness:
  "fst (blocked 10 ''10.0.0.1'' (throttle_run ten_refusals))
   \<and> (\<exists>s. length (refusals ''10.0.0.1'' s (s + authFailureWindow) ten_refusals) \<ge> 10)"
proof -
  have s: "sorted (map fst ten_refusals)" by (simp add: ten_refusals_def upt_rec)
  have b: "fst (blocked 10 ''10.0.0.1'' (throttle_run ten_refusals))" by code_simp
  from blocked_by_own_refusals [OF s b] b show ?thesis by blast
qed

theorem repeated_refusals_block_witness:
  "fst (blocked 20 ''10.0.0.1'' (throttle_run ([(0, ''10.0.0.2'', Refused)] @ ten_refusals)))"
proof (rule repeated_refusals_block [where s = 0])
  have ips: "(fst \<circ> snd) ` set ten_refusals = {''10.0.0.1''}" by (simp add: ten_refusals_def upt_rec)
  have run: "fst ` set (throttle_run [(0, ''10.0.0.2'', Refused)]) = {''10.0.0.2''}" by code_simp
  show "card (fst ` set (throttle_run [(0, ''10.0.0.2'', Refused)]) \<union> (fst \<circ> snd) ` set ten_refusals) < 1024"
    unfolding ips run by simp
  have at: "refused_at ''10.0.0.1'' ten_refusals = map int [0..<10]"
    by (simp add: refused_at_def ten_refusals_def comp_def filter_map)
  show "10 \<le> length (refused_at ''10.0.0.1'' ten_refusals)" by (simp add: at)
  show "\<forall>v \<in> set (refused_at ''10.0.0.1'' ten_refusals). 0 \<le> v \<and> v < 0 + authFailureWindow"
    by (auto simp: at authFailureWindow_def seconds_def)
  show "20 < last (refused_at ''10.0.0.1'' ten_refusals) + authBlockDuration"
    by (simp add: at authBlockDuration_def seconds_def last_map)
  show "map_of (throttle_run [(0, ''10.0.0.2'', Refused)]) ''10.0.0.1'' = None" by code_simp
qed (auto simp: ten_refusals_def upt_rec)


end
