(* ===== verification/CardDAVAuth.thy ===== *)
theory CardDAVAuth
  imports Accounts AuthThrottle "HOL-Library.Product_Lexorder"
begin

text \<open>
  Credential checks of the CardDAV mount, \<open>internal/carddav/auth.go\<close>, over the tables of
  \<open>AuthThrottle\<close> and the repositories of \<open>Accounts\<close>. \<open>authenticate\<close> is split where the code lets other
  requests in: what happens before the password is hashed, the hash with its database reads, and
  what is recorded afterwards. The step relation \<open>auth_sys\<close> interleaves any number of requests and
  revocations at these points. The calls on the cache and on the counter within one part are one step: the
  two tables share nothing, and a request makes one call on the cache in each part.
\<close>

section \<open>Definitions\<close>

text \<open>Most recently used first: the stable sort of the code.\<close>

definition recency :: "app_password \<Rightarrow> nat \<times> int" where
  "recency p = (case ap_last_used_at p of None \<Rightarrow> (1, 0) | Some t \<Rightarrow> (0, - t))"

fun try_passwords :: "idkey \<Rightarrow> string \<Rightarrow> app_password list \<Rightarrow> (account_error, bool) prog" where
  "try_passwords K password [] = ret False"
| "try_passwords K password (ap # aps) =
     andThen (verified (VerifyArgon2id K password (ap_password_hash ap))) (\<lambda>ok.
     if ok then andThen (attempt (UpdateLastUsed (ap_id ap))) (\<lambda>_. ret True) else try_passwords K password aps)"

definition verifyAppPassword :: "idkey \<Rightarrow> bool \<Rightarrow> string \<Rightarrow> string \<Rightarrow> (account_error, bool) prog" where
  "verifyAppPassword K has_repo uid password =
     (if \<not> has_repo then ret False
      else andThen (attempt (ListAppPasswords uid)) (\<lambda>r. case r of
        Inl _ \<Rightarrow> ret False
      | Inr passwords \<Rightarrow> try_passwords K password (sort_key recency passwords)))"

text \<open>The select on the hashing slot: a request whose context ends first is refused.\<close>

definition verifyCredentials :: "idkey \<Rightarrow> bool \<Rightarrow> string \<Rightarrow> string \<Rightarrow> (account_error, auth_verdict) prog" where
  "verifyCredentials K has_repo email password =
     andThen (attempt ctx_err) (\<lambda>slot. case slot of
       Inl _ \<Rightarrow> ret no_verdict
     | Inr _ \<Rightarrow>
     andThen (attempt (GetByEmail email)) (\<lambda>r. case r of
       Inr (Some u) \<Rightarrow>
         andThen (verified (VerifyArgon2id K password (u_password_hash u))) (\<lambda>ok.
         andThen (if ok then ret True else verifyAppPassword K has_repo (u_id u) password) (\<lambda>ok2.
         ret (if ok2 then \<lparr>av_ok = True, av_user_id = u_id u, av_user_email = u_email u, av_expires_at = 0\<rparr> else no_verdict)))
     | _ \<Rightarrow> ret no_verdict))"

record dav_server =
  ds_cache :: auth_cache
  ds_throttle :: throttle

definition newServer :: dav_server where
  "newServer = \<lparr>ds_cache = [], ds_throttle = []\<rparr>"

definition InvalidateUser :: "string \<Rightarrow> dav_server \<Rightarrow> dav_server" where
  "InvalidateUser email S = S\<lparr>ds_cache := invalidateEmail email (ds_cache S)\<rparr>"

text \<open>Up to the hash: an answer (the verdict and whether the address is throttled), or none.\<close>

definition auth_begin ::
  "lib \<Rightarrow> int \<Rightarrow> string \<Rightarrow> string \<Rightarrow> string \<Rightarrow> dav_server \<Rightarrow> (auth_verdict \<times> bool) option \<times> dav_server" where
  "auth_begin L t email password ip S =
     (let (cached, C) = cache_get t (authCacheKey L email password) (ds_cache S); S1 = S\<lparr>ds_cache := C\<rparr>
      in if (case cached of Some v \<Rightarrow> av_ok v | None \<Rightarrow> False) then (Some (the cached, False), S1)
         else let (b, T) = blocked t ip (ds_throttle S1); S2 = S1\<lparr>ds_throttle := T\<rparr>
              in if b then (Some (no_verdict, True), S2)
                 else if cached \<noteq> None
                 then (Some (no_verdict, False), S2\<lparr>ds_throttle := recordFailure t ip (ds_throttle S2)\<rparr>)
                 else (None, S2))"

definition auth_finish :: "lib \<Rightarrow> int \<Rightarrow> string \<Rightarrow> string \<Rightarrow> string \<Rightarrow> auth_verdict \<Rightarrow> dav_server \<Rightarrow> dav_server" where
  "auth_finish L t email password ip v S =
     S\<lparr>ds_cache := cache_put t (authCacheKey L email password) v (ds_cache S),
       ds_throttle := (if av_ok v then recordSuccess ip (ds_throttle S) else recordFailure t ip (ds_throttle S))\<rparr>"

definition authenticate ::
  "lib \<Rightarrow> idkey \<Rightarrow> bool \<Rightarrow> string \<Rightarrow> string \<Rightarrow> string \<Rightarrow> dav_server \<Rightarrow> (account_error, (auth_verdict \<times> bool) \<times> dav_server) prog" where
  "authenticate L K has_repo email password ip S =
     andThen now (\<lambda>t.
     case auth_begin L t email password ip S of
       (Some answer, S1) \<Rightarrow> ret (answer, S1)
     | (None, S1) \<Rightarrow>
         andThen (verifyCredentials K has_repo email password) (\<lambda>v.
         andThen now (\<lambda>t1. ret ((v, False), auth_finish L t1 email password ip v S1))))"

section \<open>Interleaved requests\<close>

definition authArgon2Concurrency :: nat where "authArgon2Concurrency = 4"

text \<open>Where a request is that was not answered at once: waiting for a slot, hashing, or with its
  verdict and about to record it.\<close>

datatype phase = Waiting | Hashing | Decided auth_verdict

type_synonym request = "string \<times> string \<times> string \<times> phase"

datatype auth_event = Began int string string "(auth_verdict \<times> bool) option"
  | Verified int string string auth_verdict | Finished int string string auth_verdict | Revoked string

fun event_time :: "auth_event \<Rightarrow> int option" where
  "event_time (Began t _ _ _) = Some t" | "event_time (Verified t _ _ _) = Some t"
| "event_time (Finished t _ _ _) = Some t" | "event_time (Revoked _) = None"

definition not_before :: "auth_event list \<Rightarrow> int \<Rightarrow> bool" where
  "not_before tr t \<longleftrightarrow> (\<forall>e \<in> set tr. \<forall>s. event_time e = Some s \<longrightarrow> s \<le> t)"

inductive auth_sys :: "lib \<Rightarrow> auth_event list \<Rightarrow> dav_server \<Rightarrow> request list \<Rightarrow> bool" for L where
  sys_start: "auth_sys L [] newServer []"
| sys_answer: "auth_sys L tr S fl \<Longrightarrow> not_before tr t \<Longrightarrow> auth_begin L t email pw ip S = (Some ans, S') \<Longrightarrow>
     auth_sys L (tr @ [Began t email pw (Some ans)]) S' fl"
| sys_begin: "auth_sys L tr S fl \<Longrightarrow> not_before tr t \<Longrightarrow> auth_begin L t email pw ip S = (None, S') \<Longrightarrow>
     auth_sys L (tr @ [Began t email pw None]) S' (fl @ [(email, pw, ip, Waiting)])"
| sys_slot: "auth_sys L tr S (fl @ (email, pw, ip, Waiting) # fl') \<Longrightarrow>
     length (filter (\<lambda>r. snd (snd (snd r)) = Hashing) (fl @ fl')) < authArgon2Concurrency \<Longrightarrow>
     auth_sys L tr S (fl @ (email, pw, ip, Hashing) # fl')"
| sys_cancel: "auth_sys L tr S (fl @ (email, pw, ip, Waiting) # fl') \<Longrightarrow>
     auth_sys L tr S (fl @ (email, pw, ip, Decided no_verdict) # fl')"
| sys_verify: "auth_sys L tr S (fl @ (email, pw, ip, Hashing) # fl') \<Longrightarrow> not_before tr t \<Longrightarrow>
     auth_sys L (tr @ [Verified t email pw v]) S (fl @ (email, pw, ip, Decided v) # fl')"
| sys_finish: "auth_sys L tr S (fl @ (email, pw, ip, Decided v) # fl') \<Longrightarrow> not_before tr t \<Longrightarrow>
     auth_sys L (tr @ [Finished t email pw v]) (auth_finish L t email pw ip v S) (fl @ fl')"
| sys_revoke: "auth_sys L tr S fl \<Longrightarrow> auth_sys L (tr @ [Revoked email]) (InvalidateUser email S) fl"

section \<open>Lemmas\<close>

text \<open>The calls on the cache that a sequence of events made.\<close>

definition cache_calls :: "lib \<Rightarrow> auth_event list \<Rightarrow> cache_event list" where
  "cache_calls L tr = concat (map (\<lambda>e. case e of
     Began t email pw _ \<Rightarrow> [Get t (authCacheKey L email pw)] | Verified _ _ _ _ \<Rightarrow> []
   | Finished t email pw v \<Rightarrow> [Put t (authCacheKey L email pw) v] | Revoked email \<Rightarrow> [Invalidate email]) tr)"

lemma cache_calls_snoc: "cache_calls L (tr @ [e]) = cache_calls L tr @ cache_calls L [e]"
  by (simp add: cache_calls_def)

lemma begin_cache: "ds_cache (snd (auth_begin L t email pw ip S)) = snd (cache_get t (authCacheKey L email pw) (ds_cache S))"
  by (simp add: auth_begin_def Let_def split: prod.split option.split)

lemma finish_cache: "ds_cache (auth_finish L t email pw ip v S) = cache_put t (authCacheKey L email pw) v (ds_cache S)"
  by (simp add: auth_finish_def)

lemma sys_cache: "auth_sys L tr S fl \<Longrightarrow> ds_cache S = cache_run (cache_calls L tr)"
proof (induction rule: auth_sys.induct)
  case (sys_answer tr S fl t email pw ip ans S')
  then show ?case using begin_cache [of L t email pw ip S] by (simp add: cache_calls_snoc cache_run_def) (simp add: cache_calls_def)
next
  case (sys_begin tr S fl t email pw ip S')
  then show ?case using begin_cache [of L t email pw ip S] by (simp add: cache_calls_snoc cache_run_def) (simp add: cache_calls_def)
next
  case (sys_verify tr S fl email pw ip fl' t v)
  then show ?case by (simp add: cache_calls_snoc cache_run_def) (simp add: cache_calls_def)
next
  case (sys_finish tr S fl email pw ip v fl' t)
  then show ?case by (simp add: finish_cache cache_calls_snoc cache_run_def) (simp add: cache_calls_def)
next
  case (sys_revoke tr S fl email)
  then show ?case by (simp add: InvalidateUser_def cache_calls_snoc cache_run_def) (simp add: cache_calls_def)
qed (simp_all add: newServer_def cache_run_def cache_calls_def)

text \<open>A positive verdict that is recorded was decided by a hash.\<close>

definition sound_so_far :: "auth_event list \<Rightarrow> request list \<Rightarrow> bool" where
  "sound_so_far tr fl \<longleftrightarrow>
     (\<forall>email pw ip v. (email, pw, ip, Decided v) \<in> set fl \<longrightarrow> av_ok v \<longrightarrow> (\<exists>s. Verified s email pw v \<in> set tr))
   \<and> (\<forall>t email pw v. Finished t email pw v \<in> set tr \<longrightarrow> av_ok v \<longrightarrow> (\<exists>s \<le> t. Verified s email pw v \<in> set tr))"

lemma sys_sound: "auth_sys L tr S fl \<Longrightarrow> sound_so_far tr fl"
proof (induction rule: auth_sys.induct)
  case (sys_finish tr S fl email pw ip v fl' t)
  then show ?case by (fastforce simp: sound_so_far_def not_before_def)
qed (fastforce simp: sound_so_far_def no_verdict_def)+

lemma cache_calls_Put:
  "cache_calls L tr = a @ Put s k v # b \<Longrightarrow>
   \<exists>pre email pw post. tr = pre @ Finished s email pw v # post \<and> k = authCacheKey L email pw \<and> b = cache_calls L post"
proof (induction tr arbitrary: a)
  case Nil
  then show ?case by (simp add: cache_calls_def)
next
  case (Cons e tr)
  have split: "cache_calls L (e # tr) = cache_calls L [e] @ cache_calls L tr" by (simp add: cache_calls_def)
  show ?case
  proof (cases "\<exists>a'. cache_calls L tr = a' @ Put s k v # b")
    case True
    then obtain pre email pw post where "tr = pre @ Finished s email pw v # post" "k = authCacheKey L email pw" "b = cache_calls L post"
      using Cons.IH by blast
    then show ?thesis by (intro exI [of _ "e # pre"]) auto
  next
    case False
    with Cons.prems split have "cache_calls L [e] = [Put s k v] \<and> b = cache_calls L tr"
      by (cases e) (auto simp: cache_calls_def append_eq_Cons_conv Cons_eq_append_conv)
    then obtain email pw where "e = Finished s email pw v" "k = authCacheKey L email pw" "b = cache_calls L tr"
      by (cases e) (auto simp: cache_calls_def)
    then show ?thesis by (intro exI [of _ "[]"] exI [of _ email] exI [of _ pw] exI [of _ tr]) simp
  qed
qed

lemma hex_digit_inj: "m < 16 \<Longrightarrow> n < 16 \<Longrightarrow> hex_digit m = hex_digit n \<Longrightarrow> m = n"
proof -
  have val: "of_char (hex_digit k) = (if k < 10 then k + 48 else k + 87)" if "k < 16" for k
  proof -
    have "(if k < 10 then k + 48 else k + 87) mod 256 = (if k < 10 then k + 48 else k + 87)" using that by simp
    then show ?thesis unfolding hex_digit_def of_char_of .
  qed
  assume "m < 16" "n < 16" "hex_digit m = hex_digit n"
  then have "(if m < 10 then m + 48 else m + 87) = (if n < 10 then n + 48 else n + 87)" using val [of m] val [of n] by metis
  with \<open>m < 16\<close> \<open>n < 16\<close> show "m = n" by (auto split: if_splits)
qed

lemma hex_inj: "hex s = hex t \<Longrightarrow> s = t"
proof (induction s arbitrary: t)
  case Nil
  then show ?case by (cases t) (simp_all add: hex_def)
next
  case (Cons c s)
  then obtain d t' where t: "t = d # t'" by (cases t) (simp_all add: hex_def)
  with Cons.prems have digits: "hex_digit (of_char c div 16) = hex_digit (of_char d div 16)" "hex_digit (of_char c mod 16) = hex_digit (of_char d mod 16)"
    and rest: "hex s = hex t'" by (simp_all add: hex_def)
  have less: "(of_char x :: nat) div 16 < 16" for x :: char
    using nat_of_char_less_256 [of x] by (simp add: less_mult_imp_div_less)
  have "of_char c div 16 = (of_char d div 16 :: nat)" by (rule hex_digit_inj [OF less less digits(1)])
  moreover have "of_char c mod 16 = (of_char d mod 16 :: nat)" by (rule hex_digit_inj [OF _ _ digits(2)]) simp_all
  ultimately have "of_char c = (of_char d :: nat)" by (metis div_mult_mod_eq)
  with t Cons.IH [OF rest] show ?case by simp
qed

text \<open>The hash of the password has a fixed length, so a key names one account and one hash.\<close>

lemma key_inj:
  assumes "\<And>x. length (l_sha256 L x) = n" "authCacheKey L email pw = authCacheKey L email' pw'"
  shows "email = email' \<and> l_sha256 L pw = l_sha256 L pw'"
proof -
  have "length (hex s) = 2 * length s" for s by (induction s) (simp_all add: hex_def)
  then have "length ('':'' @ hex (l_sha256 L pw)) = length ('':'' @ hex (l_sha256 L pw'))" using assms(1) by simp
  with assms(2) have "email = email' \<and> hex (l_sha256 L pw) = hex (l_sha256 L pw')"
    unfolding authCacheKey_def by (metis append_Cons append_Nil append_eq_append_conv list.inject)
  with hex_inj show ?thesis by blast
qed

lemma begin_shape:
  assumes "auth_begin L t email pw ip S = (Some (v, thr), S')" "av_ok v"
  shows "map_of (ds_cache S) (authCacheKey L email pw) = Some v \<and> t \<le> av_expires_at v"
  using assms by (auto simp: auth_begin_def cache_get_def Let_def no_verdict_def split: prod.splits option.splits if_splits)

lemma not_revoked_after:
  assumes "\<forall>e. Invalidate e \<in> set (cache_calls L post) \<longrightarrow> e = [] \<or> \<not> has_prefix (authCacheKey L email pw) (e @ '':'')" "email \<noteq> []"
  shows "Revoked email \<notin> set post"
proof
  assume "Revoked email \<in> set post"
  then have "Invalidate email \<in> set (cache_calls L post)"
    unfolding cache_calls_def by (force intro!: bexI [of _ "Revoked email"])
  moreover have "has_prefix (authCacheKey L email pw) (email @ '':'')" by (simp add: authCacheKey_def has_prefix_iff)
  ultimately show False using assms by blast
qed

text \<open>C29: An answer that lets a request in without hashing its password is justified. Whatever the
  interleaving of requests and revocations, it was recorded by a request for the same account whose password
  has the same SHA-256, at most five minutes earlier, whose verdict came from the password hash; and the
  account was not invalidated after it was recorded.\<close>

theorem positive_answer_justified:
  assumes "auth_sys L tr S fl" "auth_begin L t email pw ip S = (Some (v, thr), S')" "av_ok v" "email \<noteq> []"
    "\<And>x. length (l_sha256 L x) = 32"
  shows "\<exists>pre s pw' v' post. tr = pre @ Finished s email pw' v' # post \<and> l_sha256 L pw' = l_sha256 L pw
     \<and> t \<le> s + authCachePositiveTTL \<and> v = v'\<lparr>av_expires_at := s + authCachePositiveTTL\<rparr> \<and> Revoked email \<notin> set post
     \<and> (\<exists>s' \<le> s. Verified s' email pw' v' \<in> set tr)"
proof -
  have hit: "map_of (cache_run (cache_calls L tr)) (authCacheKey L email pw) = Some v" "t \<le> av_expires_at v"
    using begin_shape [OF assms(2,3)] sys_cache [OF assms(1)] by simp_all
  from cache_justified [OF hit(1)] obtain a s v' b where put: "cache_calls L tr = a @ Put s (authCacheKey L email pw) v' # b"
    "v = v'\<lparr>av_expires_at := s + verdict_ttl v'\<rparr>"
    "\<forall>e. Invalidate e \<in> set b \<longrightarrow> e = [] \<or> \<not> has_prefix (authCacheKey L email pw) (e @ '':'')"
    unfolding justified_def by blast
  from cache_calls_Put [OF put(1)] obtain pre email' pw' post where tr: "tr = pre @ Finished s email' pw' v' # post"
    "authCacheKey L email pw = authCacheKey L email' pw'" "b = cache_calls L post" by blast
  have same: "email' = email" "l_sha256 L pw' = l_sha256 L pw" using key_inj [OF assms(5) tr(2)] by simp_all
  have ok: "av_ok v'" using put(2) assms(3) by simp
  obtain s' where "s' \<le> s" "Verified s' email pw' v' \<in> set tr"
    using sys_sound [OF assms(1)] ok tr(1) same(1) unfolding sound_so_far_def by (metis in_set_conv_decomp)
  moreover have "Revoked email \<notin> set post" using not_revoked_after put(3) assms(4) tr(3) by blast
  ultimately show ?thesis using tr(1) same hit(2) put(2) ok by (intro exI [of _ pre] exI [of _ s] exI [of _ pw'] exI [of _ v'] exI [of _ post])
      (auto simp: verdict_ttl_def)
qed

lemma sys_slots: "auth_sys L tr S fl \<Longrightarrow> length (filter (\<lambda>r. snd (snd (snd r)) = Hashing) fl) \<le> authArgon2Concurrency"
  by (induction rule: auth_sys.induct) auto

text \<open>The calls on the failure counter are not a function of the events alone, so its table is bounded
  by its own induction.\<close>

lemma throttle_bounded:
  assumes "length T \<le> authThrottleMaxIPs"
  shows "length (snd (blocked t ip T)) \<le> authThrottleMaxIPs" "length (recordFailure t ip T) \<le> authThrottleMaxIPs"
    "length (recordSuccess ip T) \<le> authThrottleMaxIPs"
  using assms length_delete [of ip T] bounded_insert [of authThrottleMaxIPs ip "next_record t (map_of T ip)" "stale_record t" T]
  by (auto simp: blocked_def recordFailure_def recordSuccess_def authThrottleMaxIPs_def split: option.splits)

lemma begin_throttle:
  "length (ds_throttle S) \<le> authThrottleMaxIPs \<Longrightarrow> length (ds_throttle (snd (auth_begin L t email pw ip S))) \<le> authThrottleMaxIPs"
  using throttle_bounded(1) [of "ds_throttle S" t ip] throttle_bounded(2) [of "snd (blocked t ip (ds_throttle S))" t ip]
  by (auto simp: auth_begin_def Let_def split: prod.splits option.splits)

lemma sys_throttle: "auth_sys L tr S fl \<Longrightarrow> length (ds_throttle S) \<le> authThrottleMaxIPs"
proof (induction rule: auth_sys.induct)
  case (sys_answer tr S fl t email pw ip ans S')
  then show ?case using begin_throttle [of S L t email pw ip] by simp
next
  case (sys_begin tr S fl t email pw ip S')
  then show ?case using begin_throttle [of S L t email pw ip] by simp
qed (simp_all add: newServer_def auth_finish_def InvalidateUser_def throttle_bounded)

text \<open>C35: The mount's own memory is bounded under any load: at every moment at most four requests hash a
  password, and neither the verdict cache nor the failure counter holds more than 1024 entries, whatever
  addresses and credentials are tried.\<close>

theorem mount_bounded:
  assumes "auth_sys L tr S fl"
  shows "length (filter (\<lambda>(_, _, _, p). p = Hashing) fl) \<le> 4 \<and> length (ds_cache S) \<le> 1024 \<and> length (ds_throttle S) \<le> 1024"
proof -
  have "(\<lambda>(_, _, _, p). p = Hashing) = (\<lambda>r :: request. snd (snd (snd r)) = Hashing)" by auto
  then show ?thesis using sys_slots [OF assms] sys_throttle [OF assms] cache_table [of "cache_calls L tr"] sys_cache [OF assms]
    by (simp add: authArgon2Concurrency_def authCacheMaxEntries_def authThrottleMaxIPs_def)
qed

text \<open>C36: A revocation does not reach a request that has already checked its password. When a request holds a
  positive verdict that it has not recorded yet and the account is invalidated meanwhile, the verdict
  is recorded after the invalidation, and for five minutes the same credentials are let in without a
  look at the database, although they may have been withdrawn.\<close>

theorem late_verdict_survives_revocation:
  assumes "auth_sys L tr S (fl @ (email, pw, ip, Decided v) # fl')" "av_ok v" "not_before tr t" "t \<le> u" "u \<le> t + authCachePositiveTTL"
  shows "\<exists>S'. auth_sys L (tr @ [Revoked email, Finished t email pw v, Began u email pw (Some (v\<lparr>av_expires_at := t + authCachePositiveTTL\<rparr>, False))]) S' (fl @ fl')"
proof -
  let ?S = "auth_finish L t email pw ip v (InvalidateUser email S)"
  have "auth_sys L (tr @ [Revoked email]) (InvalidateUser email S) (fl @ (email, pw, ip, Decided v) # fl')"
    using assms(1) by (rule sys_revoke)
  moreover have "not_before (tr @ [Revoked email]) t" using assms(3) by (auto simp: not_before_def)
  ultimately have "auth_sys L ((tr @ [Revoked email]) @ [Finished t email pw v]) ?S (fl @ fl')" by (rule sys_finish)
  moreover have "not_before ((tr @ [Revoked email]) @ [Finished t email pw v]) u"
    using assms(3,4) by (force simp: not_before_def)
  moreover have "map_of (ds_cache ?S) (authCacheKey L email pw) = Some (v\<lparr>av_expires_at := t + authCachePositiveTTL\<rparr>)"
    using assms(2) by (simp add: finish_cache cache_put_def Let_def update_conv')
  then have "auth_begin L u email pw ip ?S = (Some (v\<lparr>av_expires_at := t + authCachePositiveTTL\<rparr>, False), ?S)"
    using assms(2,5) by (simp add: auth_begin_def cache_get_def)
  ultimately show ?thesis using sys_answer [of L "(tr @ [Revoked email]) @ [Finished t email pw v]" ?S "fl @ fl'" u email pw ip] by auto
qed

section \<open>Concrete runs\<close>

definition demo_lib :: lib where
  "demo_lib = (table_lib [])\<lparr>l_sha256 := (\<lambda>s. take 32 (s @ replicate 32 (CHR ''.'')))\<rparr>"

definition alice :: auth_verdict where
  "alice = \<lparr>av_ok = True, av_user_id = ''u1'', av_user_email = ''a@x'', av_expires_at = 0\<rparr>"

lemma demo_run:
  "auth_sys demo_lib [Began 0 ''a@x'' ''pw'' None, Verified 1 ''a@x'' ''pw'' alice] newServer [(''a@x'', ''pw'', ''1.2.3.4'', Decided alice)]"
proof -
  have "auth_begin demo_lib 0 ''a@x'' ''pw'' ''1.2.3.4'' newServer = (None, newServer)"
    by (simp add: auth_begin_def newServer_def cache_get_def blocked_def)
  then have "auth_sys demo_lib ([] @ [Began 0 ''a@x'' ''pw'' None]) newServer ([] @ [(''a@x'', ''pw'', ''1.2.3.4'', Waiting)])"
    by (intro sys_begin [OF sys_start]) (simp_all add: not_before_def)
  then have "auth_sys demo_lib [Began 0 ''a@x'' ''pw'' None] newServer ([] @ (''a@x'', ''pw'', ''1.2.3.4'', Hashing) # [])"
    by (intro sys_slot) (simp_all add: authArgon2Concurrency_def)
  then have "auth_sys demo_lib ([Began 0 ''a@x'' ''pw'' None] @ [Verified 1 ''a@x'' ''pw'' alice]) newServer ([] @ (''a@x'', ''pw'', ''1.2.3.4'', Decided alice) # [])"
    by (rule sys_verify) (simp add: not_before_def)
  then show ?thesis by simp
qed

lemma demo_finished:
  "auth_sys demo_lib [Began 0 ''a@x'' ''pw'' None, Verified 1 ''a@x'' ''pw'' alice, Finished 2 ''a@x'' ''pw'' alice]
     (auth_finish demo_lib 2 ''a@x'' ''pw'' ''1.2.3.4'' alice newServer) []"
  using sys_finish [of demo_lib "[Began 0 ''a@x'' ''pw'' None, Verified 1 ''a@x'' ''pw'' alice]"
     newServer "[]" "''a@x''" "''pw''" "''1.2.3.4''" alice "[]" 2] demo_run by (simp add: not_before_def)

theorem late_verdict_survives_revocation_witness:
  "\<exists>S. auth_sys demo_lib [Began 0 ''a@x'' ''pw'' None, Verified 1 ''a@x'' ''pw'' alice, Revoked ''a@x'', Finished 2 ''a@x'' ''pw'' alice,
     Began 3 ''a@x'' ''pw'' (Some (alice\<lparr>av_expires_at := 2 + authCachePositiveTTL\<rparr>, False))] S []"
  using late_verdict_survives_revocation [of demo_lib "[Began 0 ''a@x'' ''pw'' None, Verified 1 ''a@x'' ''pw'' alice]"
     newServer "[]" "''a@x''" "''pw''" "''1.2.3.4''" alice "[]" 2 3] demo_run
  by (simp add: not_before_def alice_def authCachePositiveTTL_def seconds_def)

theorem mount_bounded_witness:
  "length (ds_cache (auth_finish demo_lib 2 ''a@x'' ''pw'' ''1.2.3.4'' alice newServer)) \<le> 1024"
  using mount_bounded [OF demo_finished] by simp

theorem positive_answer_justified_witness:
  "\<exists>pre s pw' v' post. [Began 0 ''a@x'' ''pw'' None, Verified 1 ''a@x'' ''pw'' alice, Finished 2 ''a@x'' ''pw'' alice] = pre @ Finished s ''a@x'' pw' v' # post
     \<and> 3 \<le> s + authCachePositiveTTL \<and> Revoked ''a@x'' \<notin> set post"
proof -
  have "auth_begin demo_lib 3 ''a@x'' ''pw'' [] (auth_finish demo_lib 2 ''a@x'' ''pw'' ''1.2.3.4'' alice newServer)
      = (Some (alice\<lparr>av_expires_at := 2 + authCachePositiveTTL\<rparr>, False), auth_finish demo_lib 2 ''a@x'' ''pw'' ''1.2.3.4'' alice newServer)"
    by (simp add: auth_begin_def auth_finish_def newServer_def cache_get_def cache_put_def make_room_def alice_def authCachePositiveTTL_def seconds_def
        authCacheMaxEntries_def)
  moreover have "length (l_sha256 demo_lib x) = 32" for x by (simp add: demo_lib_def)
  moreover have "av_ok (alice\<lparr>av_expires_at := 2 + authCachePositiveTTL\<rparr>)" by (simp add: alice_def)
  ultimately show ?thesis using positive_answer_justified [OF demo_finished] by blast
qed

end
