(* ===== verification/ContactService.thy ===== *)
theory ContactService
  imports SyncProvider VCardText
begin

text \<open>
  The contact service (\<open>internal/service/contact.go\<close>, \<open>contact_fields.go\<close>) and the importer
  (\<open>importer.go\<close>), over the repositories of \<open>ContactRepository\<close>. A contact that an operation answers is the
  row it wrote but for the sequence number, which \<open>Save\<close> fills in and JSON omits. The text of a CSV file
  is read by the standard library; the model starts from the records of its reader.
\<close>

section \<open>Definitions\<close>

datatype service_error = SvcDB db_error | ErrContactNotFound | ErrTooManyIDs nat
  | SvcBuild encode_error | SvcParse string | SvcPanicked | SvcCSVHeader

subsection \<open>The form\<close>

record contact_field_value =
  fv_value :: string
  fv_type :: string
  fv_label :: string
  fv_pref :: int

record contact_address_value =
  av_type :: string
  av_label :: string
  av_po_box :: string
  av_extended :: string
  av_street :: string
  av_city :: string
  av_region :: string
  av_postal_code :: string
  av_country :: string
  av_pref :: int

record contact_fields =
  cf_first_name :: string
  cf_last_name :: string
  cf_middle_name :: string
  cf_name_prefix :: string
  cf_name_suffix :: string
  cf_nickname :: string
  cf_emails :: "contact_field_value list"
  cf_phones :: "contact_field_value list"
  cf_urls :: "contact_field_value list"
  cf_ims :: "contact_field_value list"
  cf_addresses :: "contact_address_value list"
  cf_org :: string
  cf_department :: string
  cf_title :: string
  cf_role :: string
  cf_note :: string
  cf_categories :: "string list"
  cf_bday :: string
  cf_anniversary :: string
  cf_gender :: string
  cf_tz :: string
  cf_geo :: string

definition toVCardFields :: "contact_field_value list \<Rightarrow> pfield list" where
  "toVCardFields fs = map (\<lambda>f. \<lparr>pf_value = fv_value f, pf_type = fv_type f, pf_pref = fv_pref f, pf_label = fv_label f\<rparr>)
     (filter (\<lambda>f. fv_value f \<noteq> []) fs)"

definition blank_address :: "contact_address_value \<Rightarrow> bool" where
  "blank_address a \<longleftrightarrow> av_street a = [] \<and> av_city a = [] \<and> av_region a = [] \<and> av_postal_code a = []
     \<and> av_country a = [] \<and> av_po_box a = [] \<and> av_extended a = []"

definition toVCardAddress :: "contact_address_value \<Rightarrow> paddress" where
  "toVCardAddress a = \<lparr>pa_type = av_type a, pa_pref = av_pref a, pa_label = av_label a, pa_po_box = av_po_box a,
     pa_extended = av_extended a, pa_street = av_street a, pa_city = av_city a, pa_region = av_region a,
     pa_postal_code = av_postal_code a, pa_country = av_country a\<rparr>"

definition first_value :: "pfield list \<Rightarrow> string" where
  "first_value fs = (case fs of [] \<Rightarrow> [] | f # _ \<Rightarrow> pf_value f)"

definition ToParsed :: "contact_fields \<Rightarrow> string \<Rightarrow> parsed_contact" where
  "ToParsed f uid =
     (let emails = toVCardFields (cf_emails f); phones = toVCardFields (cf_phones f)
      in empty_parsed\<lparr>p_uid := uid, p_first_name := cf_first_name f, p_last_name := cf_last_name f,
           p_middle_name := cf_middle_name f, p_name_prefix := cf_name_prefix f, p_name_suffix := cf_name_suffix f,
           p_nickname := cf_nickname f, p_org := cf_org f, p_department := cf_department f, p_title := cf_title f,
           p_role := cf_role f, p_note := cf_note f, p_gender := cf_gender f, p_tz := cf_tz f, p_geo := cf_geo f,
           p_emails := emails, p_phones := phones, p_urls := toVCardFields (cf_urls f), p_ims := toVCardFields (cf_ims f),
           p_categories := filter (\<lambda>c. c \<noteq> []) (cf_categories f),
           p_addresses := map toVCardAddress (filter (\<lambda>a. \<not> blank_address a) (cf_addresses f)),
           p_dates := (if cf_bday f \<noteq> [] then [\<lparr>pt_kind = ''bday'', pt_value = cf_bday f, pt_label = []\<rparr>] else [])
             @ (if cf_anniversary f \<noteq> [] then [\<lparr>pt_kind = ''anniversary'', pt_value = cf_anniversary f, pt_label = []\<rparr>] else []),
           p_primary_email := first_value emails, p_primary_phone := first_value phones\<rparr>)"

subsection \<open>The service\<close>

definition ContactETag :: "lib \<Rightarrow> string \<Rightarrow> string" where
  "ContactETag L data = hex (take 8 (l_sha256 L data))"

record create_input =
  ni_first_name :: string
  ni_last_name :: string
  ni_email :: string
  ni_phone :: string
  ni_org :: string
  ni_title :: string
  ni_note :: string
  ni_vcard :: string
  ni_fields :: "contact_fields option"

record update_input =
  ui_first_name :: "string option"
  ui_last_name :: "string option"
  ui_email :: "string option"
  ui_phone :: "string option"
  ui_org :: "string option"
  ui_title :: "string option"
  ui_note :: "string option"
  ui_vcard :: "string option"
  ui_fields :: "contact_fields option"

definition built :: "lib \<Rightarrow> parsed_contact \<Rightarrow> service_error + string" where
  "built L p = (case BuildVCard L p of Inl e \<Rightarrow> Inl (SvcBuild e) | Inr data \<Rightarrow> Inr data)"

text \<open>The UID, the card and its parsed form that \<open>Create\<close> stores.\<close>

definition created_card :: "lib \<Rightarrow> string \<Rightarrow> create_input \<Rightarrow> service_error + string \<times> string \<times> parsed_contact" where
  "created_card L uid input =
     (case ni_fields input of
        Some f \<Rightarrow> let p = ToParsed f uid in (case built L p of Inl e \<Rightarrow> Inl e | Inr data \<Rightarrow> Inr (uid, data, p))
      | None \<Rightarrow>
          if ni_vcard input = []
          then let p = NewFromSimple uid (ni_first_name input) (ni_last_name input) (ni_email input) (ni_phone input)
                         (ni_org input) (ni_title input) (ni_note input)
               in (case built L p of Inl e \<Rightarrow> Inl e | Inr data \<Rightarrow> Inr (uid, data, p))
          else case ParseVCard L (ni_vcard input) of
              Inl e \<Rightarrow> Inl (SvcParse e)
            | Inr p \<Rightarrow>
                if p_uid p = []
                then (case InjectUID (l_unicode L) (ni_vcard input) uid of
                        None \<Rightarrow> Inl SvcPanicked | Some data \<Rightarrow> Inr (uid, data, p\<lparr>p_uid := uid\<rparr>))
                else Inr (p_uid p, ni_vcard input, p))"

definition of_result :: "'e + 'a \<Rightarrow> ('e, 'a) prog" where
  "of_result r = (case r of Inl e \<Rightarrow> throw e | Inr x \<Rightarrow> ret x)"

definition svc_book :: "string \<Rightarrow> (service_error, address_book) prog" where
  "svc_book userID = wrapErr SvcDB (GetOrCreateByUserID userID)"

definition new_contact :: "lib \<Rightarrow> string \<Rightarrow> string \<Rightarrow> string \<Rightarrow> int \<Rightarrow> parsed_contact \<Rightarrow> string \<Rightarrow> contact" where
  "new_contact L b uid data t parsed i = ApplyToContact (blank_contact\<lparr>c_id := i, c_address_book_id := b, c_uid := uid,
     c_etag := ContactETag L data, c_vcard_data := data, c_created_at := t, c_updated_at := t\<rparr>) parsed"

text \<open>\<open>contactRepo.Save(ctx, contact, ChildRecordsFor(contact.ID, parsed))\<close>.\<close>

definition save_parsed :: "contact \<Rightarrow> parsed_contact \<Rightarrow> (db_error, unit) prog" where
  "save_parsed c parsed = andThen (ChildRecordsFor (c_id c) parsed) (\<lambda>children. Save c children)"

definition CreateContact :: "lib \<Rightarrow> string \<Rightarrow> create_input \<Rightarrow> (service_error, contact) prog" where
  "CreateContact L userID input =
     andThen (svc_book userID) (\<lambda>ab.
     andThen mint (\<lambda>uid0.
     andThen now (\<lambda>t.
     andThen (of_result (created_card L uid0 input)) (\<lambda>(uid, data, parsed).
     andThen mint (\<lambda>i.
     let c = new_contact L (ab_id ab) uid data t parsed i
     in andThen (wrapErr SvcDB (save_parsed c parsed)) (\<lambda>_. ret c))))))"

text \<open>The contact, when it is in the caller's book.\<close>

definition own_contact :: "address_book \<Rightarrow> string \<Rightarrow> (service_error, contact) prog" where
  "own_contact ab contactID =
     andThen (wrapErr SvcDB (GetByID contactID)) (\<lambda>found. case found of
       None \<Rightarrow> throw ErrContactNotFound
     | Some c \<Rightarrow> if c_address_book_id c \<noteq> ab_id ab then throw ErrContactNotFound else ret c)"

text \<open>One query for the contact and one for each of its seven relations.\<close>

definition GetByIDWithRelations :: "string \<Rightarrow> (db_error, (contact \<times> child_records) option) prog" where
  "GetByIDWithRelations i =
     andThen (GetByID i) (\<lambda>found. case found of
       None \<Rightarrow> ret None
     | Some c \<Rightarrow>
         andThen (query (\<lambda>d. filter (\<lambda>r. ch_contact_id r = i) (cr_emails (t_children d)))) (\<lambda>emails.
         andThen (query (\<lambda>d. filter (\<lambda>r. ch_contact_id r = i) (cr_phones (t_children d)))) (\<lambda>phones.
         andThen (query (\<lambda>d. filter (\<lambda>r. ch_contact_id r = i) (cr_addresses (t_children d)))) (\<lambda>addresses.
         andThen (query (\<lambda>d. filter (\<lambda>r. ch_contact_id r = i) (cr_urls (t_children d)))) (\<lambda>urls.
         andThen (query (\<lambda>d. filter (\<lambda>r. ch_contact_id r = i) (cr_ims (t_children d)))) (\<lambda>ims.
         andThen (query (\<lambda>d. filter (\<lambda>r. ch_contact_id r = i) (cr_categories (t_children d)))) (\<lambda>categories.
         andThen (query (\<lambda>d. filter (\<lambda>r. ch_contact_id r = i) (cr_dates (t_children d)))) (\<lambda>dates.
         ret (Some (c, \<lparr>cr_emails = emails, cr_phones = phones, cr_addresses = addresses, cr_urls = urls,
            cr_ims = ims, cr_categories = categories, cr_dates = dates\<rparr>))))))))))"

definition GetContact :: "string \<Rightarrow> string \<Rightarrow> (service_error, contact \<times> child_records) prog" where
  "GetContact userID contactID =
     andThen (svc_book userID) (\<lambda>ab.
     andThen (wrapErr SvcDB (GetByIDWithRelations contactID)) (\<lambda>found. case found of
       None \<Rightarrow> throw ErrContactNotFound
     | Some (c, children) \<Rightarrow>
         if c_address_book_id c \<noteq> ab_id ab then throw ErrContactNotFound else ret (c, children)))"

definition set_first :: "pfield list \<Rightarrow> string \<Rightarrow> pfield list" where
  "set_first fs v = (case fs of
     [] \<Rightarrow> [\<lparr>pf_value = v, pf_type = [], pf_pref = 0, pf_label = []\<rparr>] | f # rest \<Rightarrow> f\<lparr>pf_value := v\<rparr> # rest)"

text \<open>The flat fields that were given, over the parsed card.\<close>

definition flat_update :: "update_input \<Rightarrow> parsed_contact \<Rightarrow> parsed_contact" where
  "flat_update input p0 =
     (let p = (case ui_first_name input of None \<Rightarrow> p0 | Some v \<Rightarrow> p0\<lparr>p_first_name := v\<rparr>);
          p = (case ui_last_name input of None \<Rightarrow> p | Some v \<Rightarrow> p\<lparr>p_last_name := v\<rparr>);
          p = (case ui_email input of None \<Rightarrow> p
               | Some v \<Rightarrow> p\<lparr>p_emails := set_first (p_emails p) v, p_primary_email := v\<rparr>);
          p = (case ui_phone input of None \<Rightarrow> p
               | Some v \<Rightarrow> p\<lparr>p_phones := set_first (p_phones p) v, p_primary_phone := v\<rparr>);
          p = (case ui_org input of None \<Rightarrow> p | Some v \<Rightarrow> p\<lparr>p_org := v\<rparr>);
          p = (case ui_title input of None \<Rightarrow> p | Some v \<Rightarrow> p\<lparr>p_title := v\<rparr>);
          p = (case ui_note input of None \<Rightarrow> p | Some v \<Rightarrow> p\<lparr>p_note := v\<rparr>)
      in if ui_first_name input \<noteq> None \<or> ui_last_name input \<noteq> None then p\<lparr>p_fn := []\<rparr> else p)"

definition merged_into :: "lib \<Rightarrow> string \<Rightarrow> parsed_contact \<Rightarrow> service_error + string" where
  "merged_into L stored p = (case MergeIntoVCard L stored p of Inl e \<Rightarrow> Inl (SvcBuild e) | Inr data \<Rightarrow> Inr data)"

text \<open>The card and its parsed form that \<open>Update\<close> stores.\<close>

definition updated_card :: "lib \<Rightarrow> contact \<Rightarrow> update_input \<Rightarrow> service_error + string \<times> parsed_contact" where
  "updated_card L c input =
     (case ui_fields input of
        Some f \<Rightarrow>
          let p = ToParsed f (c_uid c)
          in (case merged_into L (c_vcard_data c) p of
                Inl e \<Rightarrow> Inl e
              | Inr data \<Rightarrow> Inr (data, case ParseVCard L data of Inl _ \<Rightarrow> p | Inr reparsed \<Rightarrow> reparsed))
      | None \<Rightarrow>
          (case ui_vcard input of
             Some data \<Rightarrow> (case ParseVCard L data of Inl e \<Rightarrow> Inl (SvcParse e) | Inr p \<Rightarrow> Inr (data, p))
           | None \<Rightarrow>
               let p = flat_update input
                     (case ParseVCard L (c_vcard_data c) of Inl _ \<Rightarrow> empty_parsed\<lparr>p_uid := c_uid c\<rparr> | Inr p \<Rightarrow> p)
               in (case merged_into L (c_vcard_data c) p of Inl e \<Rightarrow> Inl e | Inr data \<Rightarrow> Inr (data, p))))"

definition UpdateContact :: "lib \<Rightarrow> string \<Rightarrow> string \<Rightarrow> update_input \<Rightarrow> (service_error, contact) prog" where
  "UpdateContact L userID contactID input =
     andThen (svc_book userID) (\<lambda>ab.
     andThen (own_contact ab contactID) (\<lambda>c0.
     andThen (of_result (updated_card L c0 input)) (\<lambda>(data, parsed).
     andThen now (\<lambda>t.
     let c = (ApplyToContact (c0\<lparr>c_vcard_data := data\<rparr>) parsed)\<lparr>c_etag := ContactETag L data, c_updated_at := t\<rparr>
     in andThen (wrapErr SvcDB (save_parsed c parsed)) (\<lambda>_. ret c)))))"

definition DeleteContact :: "string \<Rightarrow> string \<Rightarrow> (service_error, unit) prog" where
  "DeleteContact userID contactID =
     andThen (svc_book userID) (\<lambda>ab.
     andThen (own_contact ab contactID) (\<lambda>c. wrapErr SvcDB (Delete (c_id c))))"

definition MaxBulkIDs :: nat where "MaxBulkIDs = 500"

fun dedupe_from :: "string list \<Rightarrow> string list \<Rightarrow> string list" where
  "dedupe_from seen [] = []"
| "dedupe_from seen (i # is) =
     (if i = [] \<or> i \<in> set seen then dedupe_from seen is else i # dedupe_from (i # seen) is)"

definition dedupe :: "string list \<Rightarrow> string list" where
  "dedupe ids = dedupe_from [] ids"

definition DeleteManyContacts :: "string \<Rightarrow> string list \<Rightarrow> (service_error, nat) prog" where
  "DeleteManyContacts userID ids =
     (if length ids > MaxBulkIDs then throw (ErrTooManyIDs (length ids))
      else andThen (svc_book userID) (\<lambda>ab. wrapErr SvcDB (DeleteMany (ab_id ab) (dedupe ids))))"

definition DeleteAllContacts :: "string \<Rightarrow> (service_error, unit) prog" where
  "DeleteAllContacts userID = andThen (svc_book userID) (\<lambda>ab. wrapErr SvcDB (DeleteAll (ab_id ab)))"

definition ListAllContacts :: "string \<Rightarrow> (service_error, contact list) prog" where
  "ListAllContacts userID = andThen (svc_book userID) (\<lambda>ab. wrapErr SvcDB (ListAll (ab_id ab)))"

subsection \<open>The importer\<close>

record import_result =
  im_imported :: nat
  im_skipped :: nat
  im_errors :: nat

definition nothing_imported :: import_result where
  "nothing_imported = \<lparr>im_imported = 0, im_skipped = 0, im_errors = 0\<rparr>"

definition import_failed :: "import_result \<Rightarrow> import_result" where
  "import_failed r = r\<lparr>im_errors := im_errors r + 1\<rparr>"

text \<open>The save at the end of an iteration: its error is counted.\<close>

definition import_save :: "contact \<Rightarrow> parsed_contact \<Rightarrow> import_result \<Rightarrow> (service_error, import_result) prog" where
  "import_save c parsed r =
     andThen (attempt (save_parsed c parsed)) (\<lambda>out. ret (case out of
       Inl _ \<Rightarrow> import_failed r | Inr _ \<Rightarrow> r\<lparr>im_imported := im_imported r + 1\<rparr>))"

text \<open>The card under the UID it is stored with.\<close>

definition identified :: "lib \<Rightarrow> string \<Rightarrow> parsed_contact \<Rightarrow> (service_error, string \<times> string \<times> parsed_contact) prog" where
  "identified L vc parsed =
     (if p_uid parsed \<noteq> [] then ret (p_uid parsed, vc, parsed)
      else andThen mint (\<lambda>uid.
        case InjectUID (l_unicode L) vc uid of
          None \<Rightarrow> throw SvcPanicked | Some vc' \<Rightarrow> ret (uid, vc', parsed\<lparr>p_uid := uid\<rparr>)))"

definition import_card :: "lib \<Rightarrow> string \<Rightarrow> string \<Rightarrow> import_result \<Rightarrow> (service_error, import_result) prog" where
  "import_card L b vc0 r =
     andThen (wrapErr SvcDB ctx_err) (\<lambda>_.
     let vc = Terminated vc0
     in if vc = [] then ret r
        else case ParseVCard L vc of
          Inl _ \<Rightarrow> ret (import_failed r)
        | Inr parsed0 \<Rightarrow>
            andThen (identified L vc parsed0) (\<lambda>(uid, data, parsed).
            andThen (attempt (GetByUID b uid)) (\<lambda>found. case found of
              Inl _ \<Rightarrow> ret (import_failed r)
            | Inr (Some c) \<Rightarrow>
                andThen now (\<lambda>t. import_save ((ApplyToContact (c\<lparr>c_vcard_data := data, c_etag := ContactETag L data\<rparr>) parsed)
                  \<lparr>c_updated_at := t\<rparr>) parsed r)
            | Inr None \<Rightarrow>
                andThen now (\<lambda>t. andThen mint (\<lambda>i. import_save (new_contact L b uid data t parsed i) parsed r)))))"

definition ImportVCard :: "lib \<Rightarrow> string \<Rightarrow> string \<Rightarrow> (service_error, import_result) prog" where
  "ImportVCard L userID data =
     andThen (svc_book userID) (\<lambda>ab.
     forEach (import_card L (ab_id ab)) (SplitVCards (l_unicode L) data) nothing_imported)"

text \<open>The column of each name of the header; the last of two equal names stays.\<close>

definition csv_columns :: "lib \<Rightarrow> string list \<Rightarrow> string \<Rightarrow> nat option" where
  "csv_columns L header = map_of (rev (zip (map (\<lambda>col. to_lower (l_unicode L) (trim_space col)) header) [0..<length header]))"

fun getCSVField :: "string list \<Rightarrow> (string \<Rightarrow> nat option) \<Rightarrow> string list \<Rightarrow> string" where
  "getCSVField row cols [] = []"
| "getCSVField row cols (name # names) =
     (case cols name of
        Some idx \<Rightarrow> if idx < length row then trim_space (row ! idx) else getCSVField row cols names
      | None \<Rightarrow> getCSVField row cols names)"

definition csv_parsed :: "(string \<Rightarrow> nat option) \<Rightarrow> string list \<Rightarrow> string \<Rightarrow> parsed_contact" where
  "csv_parsed cols row uid = NewFromSimple uid
     (getCSVField row cols [''first_name'', ''firstname'', ''first name''])
     (getCSVField row cols [''last_name'', ''lastname'', ''last name''])
     (getCSVField row cols [''email'', ''e-mail''])
     (getCSVField row cols [''phone'', ''telephone'', ''tel''])
     (getCSVField row cols [''org'', ''organization'', ''company''])
     (getCSVField row cols [''title'', ''job_title''])
     (getCSVField row cols [''note'', ''notes'', ''description''])"

text \<open>A record of the reader, \<open>None\<close> when it reports an error.\<close>

definition import_row :: "lib \<Rightarrow> string \<Rightarrow> (string \<Rightarrow> nat option) \<Rightarrow> string list option \<Rightarrow> import_result \<Rightarrow> (service_error, import_result) prog" where
  "import_row L b cols record' r =
     andThen (wrapErr SvcDB ctx_err) (\<lambda>_. case record' of
       None \<Rightarrow> ret (import_failed r)
     | Some row \<Rightarrow>
         andThen mint (\<lambda>uid.
         let p = csv_parsed cols row uid
         in case BuildVCard L p of
              Inl _ \<Rightarrow> ret (import_failed r)
            | Inr data \<Rightarrow> andThen now (\<lambda>t. andThen mint (\<lambda>i. import_save (new_contact L b uid data t p i) p r))))"

text \<open>The records of the file: the header is the first.\<close>

definition ImportCSV :: "lib \<Rightarrow> string \<Rightarrow> string list option list \<Rightarrow> (service_error, import_result) prog" where
  "ImportCSV L userID records =
     andThen (svc_book userID) (\<lambda>ab. case records of
       Some header # rows \<Rightarrow>
         andThen (forEach (import_row L (ab_id ab) (csv_columns L header)) rows nothing_imported) (\<lambda>r.
         andThen (wrapErr SvcDB ctx_err) (\<lambda>_. ret r))
     | _ \<Rightarrow> throw SvcCSVHeader)"

section \<open>Lemmas\<close>

lemma readonly_of_result [effects]: "readonly (of_result r)" and steady_of_result [frame]: "steady (of_result r)"
  by (simp_all add: of_result_def effects frame split: sum.split)

lemma readonly_assign [effects]: "readonly (assign_rows cid rs)"
  by (induction rs) (auto simp: childID_def intro!: effects)

lemma readonly_assignChildIDs [effects]: "readonly (assignChildIDs cid cs)"
  unfolding assignChildIDs_def by (intro effects)

lemma atomic_writes [effects]:
  "atomic (MergeInto c cs i)" "atomic (Delete i)" "atomic (DeleteAll b)" "atomic (DeleteMany b ids)"
  unfolding MergeInto_def Delete_def DeleteAll_def DeleteMany_def by (auto intro!: effects)

lemma steady_writes [frame]: "steady (MergeInto c cs i)" "steady (DeleteAll b)" "steady (DeleteMany b ids)"
  unfolding MergeInto_def DeleteAll_def DeleteMany_def assignChildIDs_def GetByID_def saveWithin_def update_contact_def
    insert_contact_def dropTombstones_def replace_children_def nextChangeSeq_def uidsOf_def delete_contacts_def recordDeletions_def Let_def
  by (intro frame)+

lemma applied_keys [simp]:
  "c_id (ApplyToContact c p) = c_id c" "c_address_book_id (ApplyToContact c p) = c_address_book_id c" "c_uid (ApplyToContact c p) = c_uid c"
  "c_vcard_data (ApplyToContact c p) = c_vcard_data c"
  by (simp_all add: ApplyToContact_def)

lemma new_contact_keys [simp]: "c_id (new_contact L b k data t p i) = i" "c_address_book_id (new_contact L b k data t p i) = b"
  "c_uid (new_contact L b k data t p i) = k" "c_vcard_data (new_contact L b k data t p i) = data"
  by (simp_all add: new_contact_def)

lemma readonly_identified [effects]: "readonly (identified L vc p)" and steady_identified [frame]: "steady (identified L vc p)"
  by (auto simp: identified_def intro!: effects frame split: option.split)

end
