(* ===== verification/MergeService.thy ===== *)
theory MergeService
  imports ContactService DuplicateDetector VCardMerge
begin

text \<open>
  Merging two contacts: \<open>internal/service/merge_service.go\<close> over the repositories, with the merge log of
  \<open>internal/repository/bun_merge_log.go\<close>. The JSON text of the choices that the log keeps is an argument,
  as is whether a log repository is wired in.
\<close>

section \<open>Definitions\<close>

subsection \<open>Repositories\<close>

text \<open>The zero time is 0.\<close>

definition CreateLogEntry :: "merge_log_entry \<Rightarrow> (db_error, unit) prog" where
  "CreateLogEntry e =
     andThen now (\<lambda>t.
     let row = (if ml_merged_at e = 0 then e\<lparr>ml_merged_at := t\<rparr> else e)
     in stmt (\<lambda>d.
        if ml_user_id row \<notin> u_id ` set (t_users d) then Inl ErrConstraint
        else case insert_row ml_id row (t_merge_log d) of
          Inl err \<Rightarrow> Inl err | Inr rows \<Rightarrow> Inr ((), d\<lparr>t_merge_log := rows\<rparr>)))"

definition ListLogByUser :: "string \<Rightarrow> int \<Rightarrow> (db_error, merge_log_entry list) prog" where
  "ListLogByUser userID limit =
     (let n = (if limit \<le> 0 \<or> limit > 200 then 50 else limit)
      in query (\<lambda>d. take (nat n) (sort_key (\<lambda>e. - ml_merged_at e) (filter (\<lambda>e. ml_user_id e = userID) (t_merge_log d)))))"

definition DeleteLogOlderThan :: "int \<Rightarrow> (db_error, nat) prog" where
  "DeleteLogOlderThan cutoff = stmt (\<lambda>d. Inr (affected (\<lambda>e. ml_merged_at e < cutoff) (t_merge_log d),
     d\<lparr>t_merge_log := filter (\<lambda>e. \<not> ml_merged_at e < cutoff) (t_merge_log d)\<rparr>))"

definition loadRelationsFor :: "contact option \<Rightarrow> (db_error, (contact \<times> child_records) option) prog" where
  "loadRelationsFor found = (case found of
     None \<Rightarrow> ret None
   | Some c \<Rightarrow> andThen (GetByIDWithRelations (c_id c)) (\<lambda>full. ret (Some (case full of None \<Rightarrow> (c, no_children) | Some f \<Rightarrow> f))))"

definition GetByIDWithContacts ::
  "string \<Rightarrow> string \<Rightarrow> (db_error, (potential_duplicate \<times> (contact \<times> child_records) option \<times> (contact \<times> child_records) option) option) prog" where
  "GetByIDWithContacts userID i =
     andThen (query (\<lambda>d. map_option (\<lambda>p. (p, select_one (\<lambda>c. c_id c = pd_contact_a p) (t_contacts d),
         select_one (\<lambda>c. c_id c = pd_contact_b p) (t_contacts d)))
       (select_one (\<lambda>p. pd_id p = i \<and> pd_user_id p = userID) (t_duplicates d)))) (\<lambda>found. case found of
       None \<Rightarrow> ret None
     | Some (p, a, b) \<Rightarrow>
         andThen (loadRelationsFor a) (\<lambda>fullA. andThen (loadRelationsFor b) (\<lambda>fullB. ret (Some (p, fullA, fullB)))))"

subsection \<open>The service\<close>

datatype merge_service_error = MsDB db_error | ErrSameContact | ErrDuplicateNotFound | MsContactNotFound
  | MsSelection mc_error | MsResolution merge_error | MsParse string

record merge_input =
  mi_winner_id :: string
  mi_loser_id :: string
  mi_resolution :: "string go_map"
  mi_selection :: selection
  mi_dup_id :: string

definition verifyDuplicateOwnership :: "string \<Rightarrow> string \<Rightarrow> (merge_service_error, unit) prog" where
  "verifyDuplicateOwnership userID dupID =
     (if dupID = [] then ret ()
      else andThen (wrapErr MsDB (GetByIDWithContacts userID dupID)) (\<lambda>dup.
        if dup = None then throw ErrDuplicateNotFound else ret ()))"

definition mergedCard :: "lib \<Rightarrow> contact \<Rightarrow> contact \<Rightarrow> merge_input \<Rightarrow> merge_service_error + string" where
  "mergedCard L winner loser input =
     (if mi_selection input \<noteq> []
      then (case MergeCards L (c_vcard_data winner) (c_vcard_data loser) (mi_selection input) of
              Inl e \<Rightarrow> Inl (MsSelection e) | Inr data \<Rightarrow> Inr data)
      else (case ApplyResolution L (c_vcard_data winner) (c_vcard_data loser)
                (map (\<lambda>(field, choice). (field, if choice = ''loser'' then ''remote'' else ''local'')) (mi_resolution input)) of
              Inl e \<Rightarrow> Inl (MsResolution e) | Inr data \<Rightarrow> Inr data))"

definition contactDisplayName :: "contact \<Rightarrow> string" where
  "contactDisplayName c =
     (let name = trim_space (c_first_name c @ '' '' @ c_last_name c)
      in if name \<noteq> [] then name else if c_email c \<noteq> [] then c_email c else c_uid c)"

definition recordMerge :: "lib \<Rightarrow> (merge_input \<Rightarrow> string) \<Rightarrow> bool \<Rightarrow> string \<Rightarrow> contact \<Rightarrow> contact \<Rightarrow> merge_input \<Rightarrow> ('e, unit) prog" where
  "recordMerge L marshal logged userID winner loser input =
     (if \<not> logged then ret ()
      else andThen mint (\<lambda>i. andThen now (\<lambda>t.
        andThen (attempt (CreateLogEntry \<lparr>ml_id = i, ml_user_id = userID, ml_winner_id = c_id winner,
          ml_winner_display_name = contactDisplayName winner, ml_loser_uid = c_uid loser,
          ml_loser_display_name = contactDisplayName loser, ml_loser_vcard = StripPhoto L (c_vcard_data loser),
          ml_resolution = marshal input, ml_merged_at = t\<rparr>)) (\<lambda>_. ret ()))))"

definition clear_state :: "string \<Rightarrow> sync_state \<Rightarrow> unit \<Rightarrow> ('e, unit) prog" where
  "clear_state contactID st u =
     (if ss_local_id st \<noteq> contactID then ret () else andThen (attempt (DeleteState (ss_id st))) (\<lambda>_. ret ()))"

definition clearSyncState :: "string \<Rightarrow> string \<Rightarrow> ('e, unit) prog" where
  "clearSyncState userID contactID =
     andThen (attempt (ListAllByUser userID)) (\<lambda>r. case r of
       Inl _ \<Rightarrow> ret () | Inr states \<Rightarrow> forEach (clear_state contactID) states ())"

text \<open>A contact of the caller's book; any error reads as not found.\<close>

definition merge_contact :: "address_book \<Rightarrow> string \<Rightarrow> (merge_service_error, contact) prog" where
  "merge_contact ab i =
     andThen (attempt (GetByID i)) (\<lambda>r. case r of
       Inr (Some c) \<Rightarrow> if c_address_book_id c \<noteq> ab_id ab then throw MsContactNotFound else ret c
     | _ \<Rightarrow> throw MsContactNotFound)"

text \<open>The surviving row.\<close>

definition merged_contact :: "lib \<Rightarrow> int \<Rightarrow> contact \<Rightarrow> string \<Rightarrow> parsed_contact \<Rightarrow> contact" where
  "merged_contact L t winner data parsed = (ApplyToContact winner parsed)
     \<lparr>c_vcard_data := data, c_etag := ContactETag L data, c_updated_at := t\<rparr>"

definition Merge :: "lib \<Rightarrow> (merge_input \<Rightarrow> string) \<Rightarrow> bool \<Rightarrow> string \<Rightarrow> merge_input \<Rightarrow> (merge_service_error, contact) prog" where
  "Merge L marshal logged userID input =
     (if mi_winner_id input = mi_loser_id input then throw ErrSameContact
      else
        andThen (wrapErr MsDB (GetOrCreateByUserID userID)) (\<lambda>ab.
        andThen (verifyDuplicateOwnership userID (mi_dup_id input)) (\<lambda>_.
        andThen (merge_contact ab (mi_winner_id input)) (\<lambda>winner0.
        andThen (merge_contact ab (mi_loser_id input)) (\<lambda>loser.
        andThen (of_result (mergedCard L winner0 loser input)) (\<lambda>data.
        case ParseVCard L data of
          Inl e \<Rightarrow> throw (MsParse e)
        | Inr parsed \<Rightarrow>
            andThen now (\<lambda>t.
            let winner = merged_contact L t winner0 data parsed
            in andThen (recordMerge L marshal logged userID winner loser input) (\<lambda>_.
               andThen (attempt (DeleteByContact (c_id loser))) (\<lambda>_.
               andThen (ChildRecordsFor (c_id winner) parsed) (\<lambda>children.
               andThen (wrapErr MsDB (MergeInto winner children (c_id loser))) (\<lambda>_.
               andThen (clearSyncState userID (c_id loser)) (\<lambda>_.
               andThen (attempt (DeleteByContact (c_id winner))) (\<lambda>_.
               ret winner)))))))))))))"

section \<open>Lemmas\<close>

lemma readonly_relations [effects]: "readonly (GetByIDWithRelations i)" and steady_relations [frame]: "steady (GetByIDWithRelations i)"
  unfolding GetByIDWithRelations_def GetByID_def by (auto intro!: effects frame split: option.split)

lemma readonly_verify [effects]: "readonly (verifyDuplicateOwnership v i)" and steady_verify [frame]: "steady (verifyDuplicateOwnership v i)"
  unfolding verifyDuplicateOwnership_def GetByIDWithContacts_def loadRelationsFor_def by (auto intro!: effects frame split: option.split prod.split)

lemma merged_keys [simp]:
  "c_id (merged_contact L t c data p) = c_id c" "c_address_book_id (merged_contact L t c data p) = c_address_book_id c" "c_uid (merged_contact L t c data p) = c_uid c"
  by (simp_all add: merged_contact_def)

text \<open>What a merge is about: the contacts with their rows, the tombstones and the sync states.\<close>

type_synonym card_tables = "contact list \<times> child_records \<times> contact_tombstone list \<times> sync_state list"

definition card_tables :: "db \<Rightarrow> card_tables" where
  "card_tables d = (t_contacts d, t_children d, t_tombstones d, t_sync_states d)"

definition untouched :: "card_tables \<Rightarrow> db \<Rightarrow> bool" where
  "untouched K d \<longleftrightarrow> tables_ok d \<and> card_tables d = K"

text \<open>The loser is gone, with its rows, and buried; the winner is \<open>c\<close>; the others are as they were.\<close>

definition merged_rows :: "contact list \<Rightarrow> contact \<Rightarrow> contact \<Rightarrow> contact \<Rightarrow> db \<Rightarrow> bool" where
  "merged_rows old a b c d \<longleftrightarrow>
     (\<exists>n. set (t_contacts d) = insert (c\<lparr>c_change_seq := n\<rparr>) {x \<in> set old. c_id x \<noteq> c_id a \<and> c_id x \<noteq> c_id b})
   \<and> (\<exists>t \<in> set (t_tombstones d). ct_address_book_id t = c_address_book_id b \<and> ct_uid t = c_uid b)
   \<and> keep_children (\<lambda>i. i = c_id b) (t_children d) = no_children"

lemma untouched_books: "preserves (untouched K) (GetOrCreateByUserID k)"
  unfolding GetOrCreateByUserID_def GetByUserID_def CreateBook_def Let_def
  by (intro hoare preserves_stmt) (auto simp: untouched_def card_tables_def tables_ok_def has_book_def insert_row_Inr split: if_splits sum.splits)

lemma untouched_log: "preserves (untouched K) (recordMerge L marshal logged v x l input)"
  unfolding recordMerge_def CreateLogEntry_def Let_def
  by (intro hoare preserves_stmt) (auto simp: untouched_def card_tables_def tables_ok_def has_book_def split: if_splits sum.splits)

lemma untouched_duplicates: "preserves (untouched K) (DeleteByContact i)"
  unfolding DeleteByContact_def
  by (rule preserves_stmt) (auto simp: untouched_def card_tables_def tables_ok_def has_book_def)

lemma merged_rows_frame:
  "merged_rows old a b c (d\<lparr>t_duplicates := x\<rparr>) = merged_rows old a b c d"
  "merged_rows old a b c (d\<lparr>t_sync_states := y\<rparr>) = merged_rows old a b c d"
  by (simp_all add: merged_rows_def)

lemma merged_duplicates: "preserves (merged_rows old a b c) (DeleteByContact j)"
  unfolding DeleteByContact_def by (rule preserves_stmt) (auto simp: merged_rows_frame)

lemma merged_states: "preserves (merged_rows old a b c) (clearSyncState v i)"
proof -
  have "preserves (merged_rows old a b c) (DeleteState k)" for k
    unfolding DeleteState_def by (rule preserves_stmt) (auto simp: merged_rows_frame)
  then show ?thesis unfolding clearSyncState_def ListAllByUser_def clear_state_def by (intro hoare)
qed

lemma keep_none: "keep_children (\<lambda>i. i = k) (keep_children (\<lambda>i. i \<notin> K) cs) = no_children" if "k \<in> K"
  using that by (auto simp: keep_children_def no_children_def filter_empty_conv)

lemma MergeInto_rows:
  assumes "{a, b} \<subseteq> set old" "c_id a \<noteq> c_id b" "c_id c = c_id a" "card_key c = card_key a"
  shows "triple (\<lambda>w. untouched (old, rest) (w_db w)) (MergeInto c cs (c_id b)) (\<lambda>_ w. merged_rows old a b c (w_db w))
     (\<lambda>_ w. untouched (old, rest) (w_db w))"
proof (rule tripleI)
  fix w x w' assume P: "untouched (old, rest) (w_db w)" and "MergeInto c cs (c_id b) w = (Inr x, w')"
  then have run: "MergeInto c cs (c_id b) w = (Inr (), w')" by simp
  let ?d = "w_db w"
  have ok: "tables_ok ?d" and old: "t_contacts ?d = old" using P by (auto simp: untouched_def card_tables_def)
  have inj: "inj_on c_id (set old)" using ok old by (simp add: tables_ok_def distinct_map)
  have "select_one (\<lambda>x. c_id x = c_id b) old = Some b"
    using assms(1) by (subst select_unique) (auto intro: inj_onD [OF inj])
  with MergeInto_commit [OF run] old obtain cs' ts where ts: "tombstones_for (c_address_book_id b) (seq_of ?d (c_address_book_id c) + 1) [c_uid b] ts"
    and db: "w_db w' = buried (\<lambda>x. c_id x = c_id b) ts (saved c cs' ?d)" by auto
  have rows: "set (t_contacts (saved c cs' ?d)) = insert (c\<lparr>c_change_seq := seq_of ?d (c_address_book_id c) + 1\<rparr>) {x \<in> set old. c_id x \<noteq> c_id a}"
    using rows_saved [OF ok] old assms(3) by simp
  have b: "b \<in> set (t_contacts (saved c cs' ?d))" using assms(1,2) by (auto simp: rows)
  have "set (t_contacts (w_db w')) = {x \<in> set (t_contacts (saved c cs' ?d)). c_id x \<noteq> c_id b}"
    by (simp add: db buried_def drop_contacts_def Let_def)
  also have "\<dots> = insert (c\<lparr>c_change_seq := seq_of ?d (c_address_book_id c) + 1\<rparr>) {x \<in> set old. c_id x \<noteq> c_id a \<and> c_id x \<noteq> c_id b}"
    unfolding rows using assms(2,3) by auto
  finally have "set (t_contacts (w_db w')) = insert (c\<lparr>c_change_seq := seq_of ?d (c_address_book_id c) + 1\<rparr>) {x \<in> set old. c_id x \<noteq> c_id a \<and> c_id x \<noteq> c_id b}" .
  moreover have "\<exists>t \<in> set (t_tombstones (w_db w')). ct_address_book_id t = c_address_book_id b \<and> ct_uid t = c_uid b"
    using ts by (cases ts) (auto simp: tombstones_for_def db buried_def)
  moreover have "keep_children (\<lambda>i. i = c_id b) (t_children (w_db w')) = no_children"
  proof -
    let ?gone = "c_id ` set (filter (\<lambda>x. c_id x = c_id b) (t_contacts (saved c cs' ?d)))"
    have "t_children (w_db w') = keep_children (\<lambda>i. i \<notin> ?gone) (t_children (saved c cs' ?d))"
      by (simp add: db buried_def drop_contacts_def Let_def)
    moreover have "c_id b \<in> ?gone" using b by auto
    ultimately show ?thesis using keep_none by simp
  qed
  ultimately show "merged_rows old a b c (w_db w')" unfolding merged_rows_def by blast
next
  fix w e w' assume "untouched (old, rest) (w_db w)" "MergeInto c cs (c_id b) w = (Inl e, w')"
  then show "untouched (old, rest) (w_db w')" using atomicD [OF atomic_writes(1)] by metis
qed

text \<open>The outcome of a merge that succeeds.\<close>

definition merge_outcome :: "lib \<Rightarrow> merge_input \<Rightarrow> contact list \<Rightarrow> contact \<Rightarrow> db \<Rightarrow> bool" where
  "merge_outcome L input old c d \<longleftrightarrow> (\<exists>a b data p t. {a, b} \<subseteq> set old \<and> c_id a = mi_winner_id input \<and> c_id b = mi_loser_id input
     \<and> c_address_book_id a = c_address_book_id b \<and> mergedCard L a b input = Inr data \<and> ParseVCard L data = Inr p
     \<and> c = merged_contact L t a data p \<and> merged_rows old a b c d)"

lemma triple_fact: "(B \<Longrightarrow> triple P m Q E) \<Longrightarrow> triple (\<lambda>w. P w \<and> B) m Q E"
  by (cases B) (simp_all add: triple_def)

lemma merge_contact_row:
  "triple (\<lambda>w. untouched (old, rest) (w_db w)) (merge_contact ab i)
     (\<lambda>c w. untouched (old, rest) (w_db w) \<and> (c \<in> set old \<and> c_id c = i \<and> c_address_book_id c = ab_id ab)) (\<lambda>_ w. untouched (old, rest) (w_db w))"
proof -
  let ?U = "\<lambda>w. untouched (old, rest) (w_db w)"
  have get: "triple ?U (GetByID i) (\<lambda>found w. ?U w \<and> (\<forall>c. found = Some c \<longrightarrow> c \<in> set old \<and> c_id c = i)) (\<lambda>_. ?U)"
    unfolding GetByID_def
    by (rule triple_post [OF triple_read [OF stable_db]]) (auto simp: untouched_def card_tables_def dest!: select_one_Some)
  show ?thesis
    unfolding merge_contact_def
    by (rule triple_andThen [OF triple_attempt [where Q = "\<lambda>q. case q of Inl _ \<Rightarrow> ?U | Inr found \<Rightarrow> \<lambda>w. ?U w \<and> (\<forall>c. found = Some c \<longrightarrow> c \<in> set old \<and> c_id c = i)"]])
      (use get in \<open>auto intro!: triple_ret triple_throw split: sum.split option.split\<close>)
qed

lemmas preserved = preserves_triple [THEN iffD1]

lemma clear_states_total: "\<exists>w'. forEach (clear_state i) sts u w = (Inr u, w')"
  by (induction sts arbitrary: w) (auto simp: andThen_def prog_simps clear_state_def attempt_def split: prod.splits)

lemma clearSyncState_total: "\<exists>w'. clearSyncState v i w = (Inr (), w')"
proof (cases "ListAllByUser v w")
  case (Pair r w1)
  then show ?thesis using clear_states_total [of i _ "()" w1]
    by (cases r) (simp_all add: clearSyncState_def andThen_def attempt_def prog_simps)
qed

lemma Merge_rest:
  assumes "{a, b} \<subseteq> set old" "c_id a \<noteq> c_id b" "c_id c = c_id a" "card_key c = card_key a"
  shows "triple (\<lambda>w. untouched (old, rest) (w_db w)) (andThen (recordMerge L marshal logged v c b input) (\<lambda>_.
     andThen (attempt (DeleteByContact (c_id b))) (\<lambda>_. andThen (ChildRecordsFor (c_id c) p) (\<lambda>children.
     andThen (wrapErr MsDB (MergeInto c children (c_id b))) (\<lambda>_. andThen (clearSyncState v (c_id b)) (\<lambda>_.
     andThen (attempt (DeleteByContact (c_id c))) (\<lambda>_. ret c)))))))
     (\<lambda>r w. r = c \<and> merged_rows old a b c (w_db w)) (\<lambda>_ w. untouched (old, rest) (w_db w))"
proof -
  let ?U = "\<lambda>w. untouched (old, rest) (w_db w)" and ?M = "\<lambda>w. merged_rows old a b c (w_db w)"
  have cleared: "triple ?M (clearSyncState v i) (\<lambda>_. ?M) (\<lambda>_. ?U)" for i
    by (rule tripleI) (use preservesD [OF merged_states] clearSyncState_total in \<open>metis Inl_Inr_False Pair_inject\<close>)+
  have dup: "triple ?M (andThen (attempt (DeleteByContact i)) (\<lambda>_. ret c)) (\<lambda>r w. r = c \<and> ?M w) (\<lambda>_. ?U)" for i
    by (rule triple_andThen [OF triple_attempt [OF preserved [OF merged_duplicates]]]) (auto intro: triple_ret)
  show ?thesis
    by (intro triple_andThen [OF preserved [OF untouched_log]] triple_andThen [OF triple_attempt [OF preserved [OF untouched_duplicates]]]
        triple_first [OF stable_db readonly_ChildRecordsFor steady_repo(6)] triple_andThen [OF triple_wrapped [OF MergeInto_rows [OF assms]]]
        triple_andThen [OF cleared] dup)
qed

lemma Merge_run:
  "triple (\<lambda>w. untouched (old, rest) (w_db w)) (Merge L marshal logged v input) (\<lambda>c w. merge_outcome L input old c (w_db w))
     (\<lambda>_ w. untouched (old, rest) (w_db w))"
proof (cases "mi_winner_id input = mi_loser_id input")
  case True
  then show ?thesis by (simp add: Merge_def triple_throw)
next
  case False
  let ?U = "\<lambda>w. untouched (old, rest) (w_db w)"
  let ?row = "\<lambda>ab c i. c \<in> set old \<and> c_id c = i \<and> c_address_book_id c = ab_id ab"
  have last: "triple ?U (andThen (of_result (mergedCard L a b input)) (\<lambda>data. case ParseVCard L data of
        Inl e \<Rightarrow> throw (MsParse e) | Inr parsed \<Rightarrow> andThen now (\<lambda>t. andThen (recordMerge L marshal logged v (merged_contact L t a data parsed) b input) (\<lambda>_.
     andThen (attempt (DeleteByContact (c_id b))) (\<lambda>_. andThen (ChildRecordsFor (c_id (merged_contact L t a data parsed)) parsed) (\<lambda>children.
     andThen (wrapErr MsDB (MergeInto (merged_contact L t a data parsed) children (c_id b))) (\<lambda>_. andThen (clearSyncState v (c_id b)) (\<lambda>_.
     andThen (attempt (DeleteByContact (c_id (merged_contact L t a data parsed)))) (\<lambda>_. ret (merged_contact L t a data parsed))))))))))
     (\<lambda>c w. merge_outcome L input old c (w_db w)) (\<lambda>_. ?U)"
    if a: "?row ab a (mi_winner_id input)" and b: "?row ab b (mi_loser_id input)" for ab a b
  proof (cases "mergedCard L a b input")
    case (Inl e)
    then show ?thesis by (simp add: of_result_def andThen_def [abs_def] prog_simps triple_def)
  next
    case (Inr data)
    have "triple ?U (case ParseVCard L data of Inl e \<Rightarrow> throw (MsParse e) | Inr parsed \<Rightarrow> andThen now (\<lambda>t. andThen (recordMerge L marshal logged v (merged_contact L t a data parsed) b input) (\<lambda>_.
     andThen (attempt (DeleteByContact (c_id b))) (\<lambda>_. andThen (ChildRecordsFor (c_id (merged_contact L t a data parsed)) parsed) (\<lambda>children.
     andThen (wrapErr MsDB (MergeInto (merged_contact L t a data parsed) children (c_id b))) (\<lambda>_. andThen (clearSyncState v (c_id b)) (\<lambda>_.
     andThen (attempt (DeleteByContact (c_id (merged_contact L t a data parsed)))) (\<lambda>_. ret (merged_contact L t a data parsed)))))))))
     (\<lambda>c w. merge_outcome L input old c (w_db w)) (\<lambda>_. ?U)"
    proof (cases "ParseVCard L data")
      case (Inr p)
      have "merge_outcome L input old c d" if "c = merged_contact L t a data p \<and> merged_rows old a b (merged_contact L t a data p) d" for c d t
        unfolding merge_outcome_def using that a b \<open>mergedCard L a b input = Inr data\<close> Inr
        by (intro exI [of _ a] exI [of _ b] exI [of _ data] exI [of _ p] exI [of _ t]) simp
      then show ?thesis unfolding Inr sum.case using a b False
        by (intro triple_first [OF stable_db readonly_basic(3) steady_basic(3)] triple_post [OF Merge_rest [where a = a]]) auto
    qed (simp add: triple_throw)
    then show ?thesis using Inr by (simp add: of_result_def andThen_def [abs_def] prog_simps)
  qed
  show ?thesis
    unfolding Merge_def Let_def if_not_P [OF False]
    by (rule triple_andThen [OF triple_wrapped [OF preserved [OF untouched_books]]], rule triple_first [OF stable_db readonly_verify steady_verify],
        assumption, rule triple_andThen [OF merge_contact_row], rule triple_fact, rule triple_andThen [OF merge_contact_row], rule triple_fact)
      (rule last)
qed

subsection \<open>The sync states\<close>

lemma same_states:
  "preserves (\<lambda>d. t_sync_states d = S) (GetOrCreateByUserID k)" "preserves (\<lambda>d. t_sync_states d = S) (recordMerge L marshal logged v x l input)"
  "preserves (\<lambda>d. t_sync_states d = S) (MergeInto c cs i)"
proof -
  show "preserves (\<lambda>d. t_sync_states d = S) (GetOrCreateByUserID k)"
    unfolding GetOrCreateByUserID_def GetByUserID_def CreateBook_def Let_def
    by (intro hoare preserves_stmt) (auto split: if_splits sum.splits)
  show "preserves (\<lambda>d. t_sync_states d = S) (recordMerge L marshal logged v x l input)"
    unfolding recordMerge_def CreateLogEntry_def Let_def by (intro hoare preserves_stmt) (auto split: if_splits sum.splits)
  show "preserves (\<lambda>d. t_sync_states d = S) (MergeInto c cs i)"
    unfolding preserves_def
  proof (intro allI impI)
    fix w :: world assume S: "t_sync_states (w_db w) = S"
    obtain r w' where run: "MergeInto c cs i w = (r, w')" by fastforce
    have "t_sync_states (w_db w') = t_sync_states (w_db w)"
    proof (cases r)
      case (Inl e)
      then show ?thesis using atomicD [OF atomic_writes(1)] run by metis
    next
      case (Inr x)
      from MergeInto_commit [of c cs i w w'] run Inr show ?thesis
        by (auto simp: saved_def buried_def drop_contacts_def Let_def split: option.splits)
    qed
    then show "t_sync_states (w_db (snd (MergeInto c cs i w))) = S" using S run by simp
  qed
qed

text \<open>Clearing by a row id leaves a state that is filed under another id.\<close>

lemma clear_elsewhere:
  assumes "s \<in> set S" "distinct (map ss_id S)" "ss_local_id s \<noteq> i"
  shows "triple (\<lambda>w. t_sync_states (w_db w) = S) (clearSyncState v i) (\<lambda>_ w. s \<in> set (t_sync_states (w_db w))) (\<lambda>_ w. s \<in> set (t_sync_states (w_db w)))"
proof -
  let ?I = "\<lambda>w. s \<in> set (t_sync_states (w_db w))"
  have other: "ss_id st \<noteq> ss_id s" if "st \<in> set S" "ss_local_id st = i" for st
    using assms that by (auto simp: distinct_map dest: inj_onD)
  have one: "preserves (\<lambda>d. s \<in> set (t_sync_states d)) (clear_state i st x)" if "st \<in> set S" for st x
  proof (cases "ss_local_id st = i")
    case True
    have "preserves (\<lambda>d. s \<in> set (t_sync_states d)) (DeleteState (ss_id st))"
      unfolding DeleteState_def using other [OF that True] by (intro preserves_stmt) auto
    then show ?thesis using True unfolding clear_state_def by (simp add: hoare)
  qed (simp add: clear_state_def hoare)
  have loop: "preserves (\<lambda>d. s \<in> set (t_sync_states d)) (forEach (clear_state i) sts x)" if "set sts \<subseteq> set S" for sts x
    using one that by (intro preserves_forEach_in) blast
  show ?thesis
    unfolding clearSyncState_def
  proof (rule triple_andThen [OF triple_attempt [where Q = "\<lambda>q w. ?I w \<and> (\<forall>sts. q = Inr sts \<longrightarrow> set sts \<subseteq> set S)"]])
    show "triple (\<lambda>w. t_sync_states (w_db w) = S) (ListAllByUser v) (\<lambda>x w. ?I w \<and> (\<forall>sts. Inr x = Inr sts \<longrightarrow> set sts \<subseteq> set S))
        (\<lambda>e w. ?I w \<and> (\<forall>sts. Inl e = Inr sts \<longrightarrow> set sts \<subseteq> set S))"
      unfolding ListAllByUser_def
      by (rule triple_post [OF triple_read [OF stable_db]]) (use assms(1) in auto)
    show "triple (\<lambda>w. ?I w \<and> (\<forall>sts. q = Inr sts \<longrightarrow> set sts \<subseteq> set S)) (case q of Inl _ \<Rightarrow> ret () | Inr states \<Rightarrow> forEach (clear_state i) states ()) (\<lambda>_. ?I) (\<lambda>_. ?I)" for q
      by (cases q) (auto intro!: triple_fact preserved loop preserves_basic)
  qed
qed

lemma merge_contact_id: "triple (\<lambda>w. I (w_db w)) (merge_contact ab i) (\<lambda>c w. I (w_db w) \<and> c_id c = i) (\<lambda>_ w. I (w_db w))"
proof -
  have get: "triple (\<lambda>w. I (w_db w)) (GetByID i) (\<lambda>found w. I (w_db w) \<and> (\<forall>c. found = Some c \<longrightarrow> c_id c = i)) (\<lambda>_ w. I (w_db w))"
    unfolding GetByID_def by (rule triple_post [OF triple_read [OF stable_db]]) (auto dest!: select_one_Some)
  show ?thesis
    unfolding merge_contact_def
    by (rule triple_andThen [OF triple_attempt [where Q = "\<lambda>q w. I (w_db w) \<and> (\<forall>c. q = Inr (Some c) \<longrightarrow> c_id c = i)"]])
      (use get in \<open>auto intro!: triple_ret triple_throw split: sum.split option.split\<close>)
qed

lemma Merge_states:
  assumes "s \<in> set S" "distinct (map ss_id S)" "ss_local_id s \<noteq> mi_loser_id input"
  shows "triple (\<lambda>w. t_sync_states (w_db w) = S) (Merge L marshal logged v input) (\<lambda>_ w. s \<in> set (t_sync_states (w_db w))) (\<lambda>_ w. s \<in> set (t_sync_states (w_db w)))"
proof -
  let ?S = "\<lambda>w. t_sync_states (w_db w) = S" and ?I = "\<lambda>w. s \<in> set (t_sync_states (w_db w))"
  have weak: "triple ?S m Q (\<lambda>_. ?I)" if "triple ?S m Q (\<lambda>_. ?S)" for m :: "(merge_service_error, 'x) prog" and Q
    using assms(1) by (intro triple_conseq [OF that]) auto
  have dup: "preserves (\<lambda>d. t_sync_states d = S) (DeleteByContact j)" "preserves (\<lambda>d. s \<in> set (t_sync_states d)) (DeleteByContact j)" for j
    unfolding DeleteByContact_def by (rule preserves_stmt, auto)+
  have last: "triple ?I (andThen (attempt (DeleteByContact j)) (\<lambda>_. ret c)) (\<lambda>_. ?I) (\<lambda>_. ?I)" for j and c :: contact
    by (rule triple_ignore) (rule preserved [OF dup(2)])
  have rest: "triple ?S (andThen (recordMerge L marshal logged v c b input) (\<lambda>_.
     andThen (attempt (DeleteByContact (c_id b))) (\<lambda>_. andThen (ChildRecordsFor (c_id c) p) (\<lambda>children.
     andThen (wrapErr MsDB (MergeInto c children (c_id b))) (\<lambda>_. andThen (clearSyncState v (c_id b)) (\<lambda>_.
     andThen (attempt (DeleteByContact (c_id c))) (\<lambda>_. ret c))))))) (\<lambda>_. ?I) (\<lambda>_. ?I)" if "c_id b = mi_loser_id input" for c b p
    by (intro triple_andThen [OF weak [OF preserved [OF same_states(2)]]] triple_andThen [OF weak [OF triple_attempt [OF preserved [OF dup(1)]]]]
        triple_andThen [OF weak [OF triple_wrapped [OF preserved [OF same_states(3)]]]]
        triple_andThen [OF weak [OF triple_stable [OF stable_db readonly_ChildRecordsFor steady_repo(6)]]]
        triple_andThen [OF clear_elsewhere [OF assms(1,2)]] last) (use that assms(3) in simp)
  show ?thesis
  proof (cases "mi_winner_id input = mi_loser_id input")
    case True
    then show ?thesis using assms(1) by (auto simp: Merge_def intro: triple_throw)
  next
    case False
    have card: "triple ?S (andThen (of_result (mergedCard L a b input)) f) (\<lambda>_. ?I) (\<lambda>_. ?I)" if "\<And>x. triple ?S (f x) (\<lambda>_. ?I) (\<lambda>_. ?I)" for a b and f :: "string \<Rightarrow> (merge_service_error, contact) prog"
      by (rule triple_andThen [OF weak [OF triple_stable [OF stable_db readonly_of_result steady_of_result]]]) (rule that)
    have timed: "triple ?S (case ParseVCard L data of Inl e \<Rightarrow> throw (MsParse e) | Inr p \<Rightarrow> andThen now (f p)) (\<lambda>_. ?I) (\<lambda>_. ?I)"
      if "\<And>p x. triple ?S (f p x) (\<lambda>_. ?I) (\<lambda>_. ?I)" for f data
      using assms(1) that by (auto split: sum.split intro!: triple_throw triple_andThen [OF weak [OF triple_stable [OF stable_db readonly_basic(3) steady_basic(3)]]])
    show ?thesis
      unfolding Merge_def Let_def if_not_P [OF False]
      by (rule triple_andThen [OF weak [OF triple_wrapped [OF preserved [OF same_states(1)]]]],
          rule triple_andThen [OF weak [OF triple_stable [OF stable_db readonly_verify steady_verify]]],
          rule triple_andThen [OF weak [OF merge_contact_id]], rule triple_fact, rule triple_andThen [OF weak [OF merge_contact_id]], rule triple_fact)
        (intro card timed rest)
  qed
qed

section \<open>Properties\<close>

text \<open>C7: A merge is all or nothing for the cards. When it reports an error, at whatever statement it failed, every
  contact, child row, tombstone and sync state is as it was. When it succeeds, the two contacts were in one
  book, the winner is stored with the card the choices describe and the fields parsed from it, the loser is
  gone with its rows and has a tombstone, and the other contacts are unchanged.\<close>

theorem Merge_all_or_nothing:
  assumes "tables_ok (w_db w)"
  shows "case Merge L marshal logged v input w of
     (Inl e, w') \<Rightarrow> card_tables (w_db w') = card_tables (w_db w)
   | (Inr c, w') \<Rightarrow> merge_outcome L input (t_contacts (w_db w)) c (w_db w')"
proof -
  obtain rest where rest: "card_tables (w_db w) = (t_contacts (w_db w), rest)" by (simp add: card_tables_def)
  have "untouched (t_contacts (w_db w), rest) (w_db w)" using assms rest by (simp add: untouched_def)
  note P = this
  obtain r w' where run: "Merge L marshal logged v input w = (r, w')" by fastforce
  show ?thesis
  proof (cases r)
    case (Inl e)
    then show ?thesis using triple_Inl [OF Merge_run _ P] run rest by (fastforce simp: untouched_def)
  next
    case (Inr c)
    then show ?thesis using triple_Inr [OF Merge_run _ P] run by fastforce
  qed
qed

text \<open>A merge does not clear the sync state of the contact it removes. The engine files a state under the
  contact's UID, \<open>clearSyncState\<close> looks for the row id: whatever the outcome, a state filed under the UID of
  the loser is still there when the UID is not the row id.\<close>

theorem Merge_leaves_sync_state:
  assumes "distinct (map ss_id (t_sync_states (w_db w)))" "s \<in> set (t_sync_states (w_db w))" "ss_local_id s \<noteq> mi_loser_id input"
  shows "s \<in> set (t_sync_states (w_db (snd (Merge L marshal logged v input w))))"
proof -
  note T = Merge_states [OF assms(2,1,3), of L marshal logged v]
  obtain r w' where run: "Merge L marshal logged v input w = (r, w')" by fastforce
  show ?thesis using run triple_Inl [OF T, of w _ w'] triple_Inr [OF T, of w _ w'] by (cases r) auto
qed

subsection \<open>Concrete runs\<close>

definition bob_row :: contact where
  "bob_row = blank_contact\<lparr>c_id := ''i2'', c_address_book_id := ''b'', c_uid := ''bob''\<rparr>"

definition bob_state :: sync_state where
  "bob_state = \<lparr>ss_id = ''s1'', ss_user_id = ''u'', ss_provider_type = ''p'', ss_remote_id = ''r1'', ss_local_id = ''bob'',
     ss_remote_etag = [], ss_local_etag = [], ss_content_hash = [], ss_base_vcard = [], ss_last_synced_at = 0\<rparr>"

definition pair_world :: world where
  "pair_world = small_world (small_db\<lparr>t_contacts := [ada, bob_row], t_sync_states := [bob_state]\<rparr>) []"

definition keep_ada :: merge_input where
  "keep_ada = \<lparr>mi_winner_id = ''i1'', mi_loser_id = ''i2'', mi_resolution = [], mi_selection = [], mi_dup_id = []\<rparr>"

lemma pair_world_ok: "tables_ok (w_db pair_world)"
  by (simp add: pair_world_def small_world_def small_db_def tables_ok_def has_book_def ada_def bob_row_def blank_contact_def)

theorem Merge_all_or_nothing_witness:
  "case Merge (table_lib []) (\<lambda>_. []) True ''u'' keep_ada pair_world of
     (Inl e, w') \<Rightarrow> card_tables (w_db w') = card_tables (w_db pair_world)
   | (Inr c, w') \<Rightarrow> merge_outcome (table_lib []) keep_ada (t_contacts (w_db pair_world)) c (w_db w')"
  by (rule Merge_all_or_nothing [OF pair_world_ok])

theorem Merge_leaves_sync_state_witness:
  "c_uid bob_row = ss_local_id bob_state \<and> c_id bob_row = mi_loser_id keep_ada
   \<and> bob_state \<in> set (t_sync_states (w_db (snd (Merge (table_lib [([], photo_card)]) (\<lambda>_. []) True ''u'' keep_ada pair_world))))"
  using Merge_leaves_sync_state [of pair_world bob_state keep_ada]
  by (simp add: pair_world_def small_world_def small_db_def bob_row_def bob_state_def keep_ada_def blank_contact_def)

end
