(* ===== verification/ConflictService.thy ===== *)
theory ConflictService
  imports ContactService SyncExport
begin

text \<open>
  Resolving a sync conflict by hand: \<open>internal/service/sync_conflict.go\<close>. The resolution is written to the
  contact, the sync state and the conflict row, in that order, and meets the engine of \<open>SyncEngine\<close> again
  at the next run.
\<close>

section \<open>Definitions\<close>

datatype conflict_error = CfDB db_error | ErrConflictNotFound | ErrConflictNotPending | ErrConflictForbidden
  | ErrConflictContactGone string | CfResolution merge_error | CfParse string

definition etagOf :: "lib \<Rightarrow> string \<Rightarrow> string" where
  "etagOf L data = hex (take 8 (l_sha256 L data))"

definition contentHashOf :: "lib \<Rightarrow> string \<Rightarrow> string" where
  "contentHashOf L data = hex (l_sha256 L data)"

definition load_conflict :: "string \<Rightarrow> string \<Rightarrow> (conflict_error, sync_conflict) prog" where
  "load_conflict userID conflictID =
     andThen (attempt (GetConflict conflictID)) (\<lambda>r. case r of
       Inl _ \<Rightarrow> throw ErrConflictNotFound
     | Inr c \<Rightarrow>
         if sc_user_id c \<noteq> userID then throw ErrConflictForbidden
         else if sc_status c \<noteq> ''pending'' then throw ErrConflictNotPending else ret c)"

definition advanced :: "lib \<Rightarrow> sync_conflict \<Rightarrow> string \<Rightarrow> int \<Rightarrow> sync_state \<Rightarrow> sync_state" where
  "advanced L conflict resolved t st = st\<lparr>ss_base_vcard := resolved, ss_content_hash := contentHashOf L resolved,
     ss_remote_etag := sc_remote_etag conflict, ss_local_etag := [], ss_last_synced_at := t\<rparr>"

definition advanceSyncState :: "lib \<Rightarrow> string \<Rightarrow> sync_conflict \<Rightarrow> string \<Rightarrow> (conflict_error, unit) prog" where
  "advanceSyncState L userID conflict resolved =
     andThen (wrapErr CfDB (GetByRemoteID userID (sc_provider_type conflict) (sc_remote_id conflict))) (\<lambda>found. case found of
       None \<Rightarrow> ret ()
     | Some st \<Rightarrow> andThen now (\<lambda>t. wrapErr CfDB (UpdateState (advanced L conflict resolved t st))))"

definition resolved_contact :: "lib \<Rightarrow> int \<Rightarrow> contact \<Rightarrow> string \<Rightarrow> parsed_contact \<Rightarrow> contact" where
  "resolved_contact L t c resolved parsed =
     ApplyToContact (c\<lparr>c_vcard_data := resolved, c_etag := etagOf L resolved, c_updated_at := t\<rparr>) parsed"

definition Resolve :: "lib \<Rightarrow> string \<Rightarrow> string \<Rightarrow> string go_map \<Rightarrow> (conflict_error, sync_conflict) prog" where
  "Resolve L userID conflictID resolution =
     andThen (load_conflict userID conflictID) (\<lambda>conflict.
     case ApplyResolution L (sc_local_vcard conflict) (sc_remote_vcard conflict) resolution of
       Inl e \<Rightarrow> throw (CfResolution e)
     | Inr resolved \<Rightarrow>
     andThen (wrapErr CfDB (GetOrCreateByUserID userID)) (\<lambda>ab.
     andThen (wrapErr CfDB (GetByUID (ab_id ab) (sc_local_contact_id conflict))) (\<lambda>found. case found of
       None \<Rightarrow> throw (ErrConflictContactGone (sc_local_contact_id conflict))
     | Some c0 \<Rightarrow>
         (case ParseVCard L resolved of
            Inl e \<Rightarrow> throw (CfParse e)
          | Inr parsed \<Rightarrow>
              andThen now (\<lambda>t.
              andThen (wrapErr CfDB (save_parsed (resolved_contact L t c0 resolved parsed) parsed)) (\<lambda>_.
              andThen (advanceSyncState L userID conflict resolved) (\<lambda>_.
              let done' = conflict\<lparr>sc_status := ''resolved'', sc_resolved_vcard := resolved, sc_resolved_at := Some t\<rparr>
              in andThen (wrapErr CfDB (UpdateConflict done')) (\<lambda>_. ret done'))))))))"

definition Dismiss :: "string \<Rightarrow> string \<Rightarrow> (conflict_error, unit) prog" where
  "Dismiss userID conflictID =
     andThen (load_conflict userID conflictID) (\<lambda>conflict.
     andThen now (\<lambda>t.
     wrapErr CfDB (UpdateConflict (conflict\<lparr>sc_status := ''dismissed'', sc_resolved_at := Some t\<rparr>))))"

section \<open>Lemmas\<close>

subsection \<open>Statements that succeed\<close>

lemma GetConflict_commit:
  "GetConflict i w = (Inr c, w') \<Longrightarrow> w_db w' = w_db w \<and> c \<in> set (t_conflicts (w_db w)) \<and> sc_id c = i"
  unfolding GetConflict_def by (drule stmt_Inr_db) (auto split: option.splits dest!: select_one_Some)

lemma load_conflict_commit:
  assumes "load_conflict v i w = (Inr c, w')"
  shows "w_db w' = w_db w \<and> c \<in> set (t_conflicts (w_db w)) \<and> sc_id c = i \<and> sc_user_id c = v \<and> sc_status c = ''pending''"
proof -
  obtain r w1 where get: "GetConflict i w = (r, w1)" by fastforce
  then have "(case r of Inl _ \<Rightarrow> throw ErrConflictNotFound | Inr c \<Rightarrow> if sc_user_id c \<noteq> v then throw ErrConflictForbidden
     else if sc_status c \<noteq> ''pending'' then throw ErrConflictNotPending else ret c) w1 = (Inr c, w')"
    using assms by (simp add: load_conflict_def andThen_def attempt_def)
  then have "r = Inr c" "w1 = w'" "sc_user_id c = v" "sc_status c = ''pending''"
    by (auto simp: prog_simps split: sum.splits if_splits)
  with get GetConflict_commit show ?thesis by blast
qed

text \<open>The tables a resolution writes, as they are before it.\<close>

definition unresolved :: "contact list \<Rightarrow> sync_state list \<Rightarrow> sync_conflict list \<Rightarrow> db \<Rightarrow> bool" where
  "unresolved R S C d \<longleftrightarrow> tables_ok d \<and> t_contacts d = R \<and> t_sync_states d = S \<and> t_conflicts d = C"

lemma unresolved_book: "preserves (unresolved R S C) (GetOrCreateByUserID v)"
  unfolding GetOrCreateByUserID_def GetByUserID_def CreateBook_def Let_def
  by (intro hoare preserves_stmt) (auto simp: unresolved_def tables_ok_def has_book_def insert_row_Inr split: if_splits sum.splits)

lemma save_parsed_commit:
  "save_parsed c p w = (Inr (), w') \<Longrightarrow> \<exists>cs. w_db w' = saved c cs (w_db w)"
  unfolding save_parsed_def using readonlyD [OF readonly_ChildRecordsFor] Save_commit
  by (fastforce simp: andThen_Inr)

lemma UpdateState_commit:
  "UpdateState s w = (Inr (), w') \<Longrightarrow> w_db w' = (w_db w)\<lparr>t_sync_states := upsert_row ss_id s (t_sync_states (w_db w))\<rparr>"
  unfolding UpdateState_def by (drule stmt_Inr_db) (auto split: if_splits)

lemma UpdateConflict_commit:
  "UpdateConflict c w = (Inr (), w') \<Longrightarrow> w_db w' = (w_db w)\<lparr>t_conflicts := upsert_row sc_id c (t_conflicts (w_db w))\<rparr>"
  unfolding UpdateConflict_def by (drule stmt_Inr_db) (auto split: if_splits)

lemma advance_commit:
  assumes "advanceSyncState L v c resolved w = (Inr (), w')"
  shows "t_contacts (w_db w') = t_contacts (w_db w)" "t_conflicts (w_db w') = t_conflicts (w_db w)"
    "select_one (\<lambda>s. of_pipeline v (sc_provider_type c) s \<and> ss_remote_id s = sc_remote_id c) (t_sync_states (w_db w)) = Some st
     \<Longrightarrow> \<exists>t. advanced L c resolved t st \<in> set (t_sync_states (w_db w'))"
proof -
  obtain found w1 where "GetByRemoteID v (sc_provider_type c) (sc_remote_id c) w = (Inr found, w1)"
    and rest: "(case found of None \<Rightarrow> ret () | Some st \<Rightarrow> andThen now (\<lambda>t. wrapErr CfDB (UpdateState (advanced L c resolved t st)))) w1 = (Inr (), w')"
    using assms by (auto simp: advanceSyncState_def andThen_Inr wrapErr_Inr)
  then have found: "found = select_one (\<lambda>s. of_pipeline v (sc_provider_type c) s \<and> ss_remote_id s = sc_remote_id c) (t_sync_states (w_db w))"
    and db: "w_db w1 = w_db w" unfolding GetByRemoteID_def by (auto dest!: query_Inr_db)
  have set: "w_db w' = (w_db w)\<lparr>t_sync_states := upsert_row ss_id (advanced L c resolved (w_now w1) s) (t_sync_states (w_db w))\<rparr>" if "found = Some s" for s
    using rest that by (auto simp: andThen_def prog_simps db wrapErr_Inr dest!: UpdateState_commit)
  have unset: "w_db w' = w_db w" if "found = None" using rest that db by (auto simp: prog_simps)
  show "t_contacts (w_db w') = t_contacts (w_db w)" "t_conflicts (w_db w') = t_conflicts (w_db w)"
    using set unset by (cases found; simp)+
  assume st: "select_one (\<lambda>s. of_pipeline v (sc_provider_type c) s \<and> ss_remote_id s = sc_remote_id c) (t_sync_states (w_db w)) = Some st"
  then have "st \<in> set (t_sync_states (w_db w))" by (auto dest: select_one_Some)
  with set [of st] found st show "\<exists>t. advanced L c resolved t st \<in> set (t_sync_states (w_db w'))"
    by (auto simp: set_upsert_row advanced_def image_iff)
qed

subsection \<open>A resolution\<close>

lemma Resolve_steps:
  assumes "Resolve L v i res w = (Inr r, w')"
  obtains c resolved ab c0 p t w1 w2 w3 w4 w5 where
    "load_conflict v i w = (Inr c, w1)" "ApplyResolution L (sc_local_vcard c) (sc_remote_vcard c) res = Inr resolved"
    "GetOrCreateByUserID v w1 = (Inr ab, w2)" "GetByUID (ab_id ab) (sc_local_contact_id c) w2 = (Inr (Some c0), w3)"
    "ParseVCard L resolved = Inr p" "save_parsed (resolved_contact L t c0 resolved p) p w3 = (Inr (), w4)"
    "advanceSyncState L v c resolved w4 = (Inr (), w5)"
    "r = c\<lparr>sc_status := ''resolved'', sc_resolved_vcard := resolved, sc_resolved_at := Some t\<rparr>" "UpdateConflict r w5 = (Inr (), w')"
proof -
  obtain c w1 where 1: "load_conflict v i w = (Inr c, w1)"
    and rest: "(case ApplyResolution L (sc_local_vcard c) (sc_remote_vcard c) res of Inl e \<Rightarrow> throw (CfResolution e)
      | Inr resolved \<Rightarrow> andThen (wrapErr CfDB (GetOrCreateByUserID v)) (\<lambda>ab. andThen (wrapErr CfDB (GetByUID (ab_id ab) (sc_local_contact_id c))) (\<lambda>found. case found of
          None \<Rightarrow> throw (ErrConflictContactGone (sc_local_contact_id c))
        | Some c0 \<Rightarrow> (case ParseVCard L resolved of Inl e \<Rightarrow> throw (CfParse e) | Inr parsed \<Rightarrow> andThen now (\<lambda>t.
              andThen (wrapErr CfDB (save_parsed (resolved_contact L t c0 resolved parsed) parsed)) (\<lambda>_. andThen (advanceSyncState L v c resolved) (\<lambda>_.
              andThen (wrapErr CfDB (UpdateConflict (c\<lparr>sc_status := ''resolved'', sc_resolved_vcard := resolved, sc_resolved_at := Some t\<rparr>)))
                (\<lambda>_. ret (c\<lparr>sc_status := ''resolved'', sc_resolved_vcard := resolved, sc_resolved_at := Some t\<rparr>))))))))) w1 = (Inr r, w')"
    by (rule andThen_InrE [OF assms [unfolded Resolve_def Let_def]])
  from rest obtain resolved ab w2 found w3 where 2: "ApplyResolution L (sc_local_vcard c) (sc_remote_vcard c) res = Inr resolved"
    "GetOrCreateByUserID v w1 = (Inr ab, w2)" "GetByUID (ab_id ab) (sc_local_contact_id c) w2 = (Inr found, w3)"
    and rest: "(case found of None \<Rightarrow> throw (ErrConflictContactGone (sc_local_contact_id c))
        | Some c0 \<Rightarrow> (case ParseVCard L resolved of Inl e \<Rightarrow> throw (CfParse e) | Inr parsed \<Rightarrow> andThen now (\<lambda>t.
              andThen (wrapErr CfDB (save_parsed (resolved_contact L t c0 resolved parsed) parsed)) (\<lambda>_. andThen (advanceSyncState L v c resolved) (\<lambda>_.
              andThen (wrapErr CfDB (UpdateConflict (c\<lparr>sc_status := ''resolved'', sc_resolved_vcard := resolved, sc_resolved_at := Some t\<rparr>)))
                (\<lambda>_. ret (c\<lparr>sc_status := ''resolved'', sc_resolved_vcard := resolved, sc_resolved_at := Some t\<rparr>))))))) w3 = (Inr r, w')"
    by (cases "ApplyResolution L (sc_local_vcard c) (sc_remote_vcard c) res") (auto simp: andThen_Inr wrapErr_Inr prog_simps)
  from rest obtain c0 p where 3: "found = Some c0" "ParseVCard L resolved = Inr p"
    by (cases found; cases "ParseVCard L resolved") (simp_all add: prog_simps)
  from rest [unfolded 3 option.case sum.case] show thesis
    using that [OF 1 2(1,2) _ 3(2)] 2(3) 3(1) by (auto simp: andThen_Inr wrapErr_Inr prog_simps)
qed

lemma Resolve_rows:
  assumes "tables_ok (w_db w)" "Resolve L v i res w = (Inr r, w')"
  obtains c resolved p t c0 n where "c \<in> set (t_conflicts (w_db w))" "sc_id c = i" "sc_user_id c = v" "sc_status c = ''pending''"
    "ApplyResolution L (sc_local_vcard c) (sc_remote_vcard c) res = Inr resolved" "ParseVCard L resolved = Inr p"
    "r = c\<lparr>sc_status := ''resolved'', sc_resolved_vcard := resolved, sc_resolved_at := Some t\<rparr>" "r \<in> set (t_conflicts (w_db w'))"
    "c0 \<in> set (t_contacts (w_db w))" "c_uid c0 = sc_local_contact_id c"
    "(resolved_contact L t c0 resolved p)\<lparr>c_change_seq := n\<rparr> \<in> set (t_contacts (w_db w'))"
    "\<And>st. select_one (\<lambda>s. of_pipeline v (sc_provider_type c) s \<and> ss_remote_id s = sc_remote_id c) (t_sync_states (w_db w)) = Some st
       \<Longrightarrow> \<exists>t. advanced L c resolved t st \<in> set (t_sync_states (w_db w'))"
proof -
  from assms(2) obtain c resolved ab c0 p t w1 w2 w3 w4 w5 where run:
    "load_conflict v i w = (Inr c, w1)" "ApplyResolution L (sc_local_vcard c) (sc_remote_vcard c) res = Inr resolved"
    "GetOrCreateByUserID v w1 = (Inr ab, w2)" "GetByUID (ab_id ab) (sc_local_contact_id c) w2 = (Inr (Some c0), w3)"
    "ParseVCard L resolved = Inr p" "save_parsed (resolved_contact L t c0 resolved p) p w3 = (Inr (), w4)"
    "advanceSyncState L v c resolved w4 = (Inr (), w5)"
    "r = c\<lparr>sc_status := ''resolved'', sc_resolved_vcard := resolved, sc_resolved_at := Some t\<rparr>" "UpdateConflict r w5 = (Inr (), w')"
    by (rule Resolve_steps)
  note load = load_conflict_commit [OF run(1)]
  have "unresolved (t_contacts (w_db w)) (t_sync_states (w_db w)) (t_conflicts (w_db w)) (w_db w1)" using load assms(1) by (simp add: unresolved_def)
  with preservesD [OF unresolved_book run(3)] have 2: "unresolved (t_contacts (w_db w)) (t_sync_states (w_db w)) (t_conflicts (w_db w)) (w_db w2)" .
  note found = GetByUID_commit [OF run(4)]
  have 3: "unresolved (t_contacts (w_db w)) (t_sync_states (w_db w)) (t_conflicts (w_db w)) (w_db w3)" using 2 found by simp
  have c0: "c0 \<in> set (t_contacts (w_db w))" "c_uid c0 = sc_local_contact_id c"
    using found 2 by (auto simp: unresolved_def dest!: sym [of "Some c0"] select_one_Some)
  obtain cs where "w_db w4 = saved (resolved_contact L t c0 resolved p) cs (w_db w3)" using save_parsed_commit [OF run(6)] by blast
  with 3 have 4: "t_conflicts (w_db w4) = t_conflicts (w_db w)" "t_sync_states (w_db w4) = t_sync_states (w_db w)"
    "\<exists>n. (resolved_contact L t c0 resolved p)\<lparr>c_change_seq := n\<rparr> \<in> set (t_contacts (w_db w4))"
    using rows_saved [of "w_db w3" "resolved_contact L t c0 resolved p" cs] by (auto simp: saved_def Let_def unresolved_def)
  note adv = advance_commit [OF run(7)] and upd = UpdateConflict_commit [OF run(9)]
  have "r \<in> set (t_conflicts (w_db w'))" using load adv(2) 4(1) run(8) by (auto simp: upd set_upsert_row)
  with that [of c resolved p t c0] load run(2,5,8) c0 4 adv upd show thesis by (auto simp del: fun_upd_apply)
qed

text \<open>Merging against a base that is the local card takes every value of the remote one.\<close>

lemma merge_unmoved:
  assumes "\<not> skipFields k"
  shows "merge_field False b b r k = Inr (if serializeField r k = serializeField b k then map_of b k else map_of r k)"
  by (simp add: merge_field_def Let_def)

lemma no_conflict_unmoved: "merge_conflicts False b b r = []"
proof -
  have "fc \<notin> set (merge_conflicts False b b r)" for fc
    using merge_unmoved by (auto simp: merge_conflicts_iff)
  then show ?thesis by (cases "merge_conflicts False b b r") auto
qed

lemma merged_unmoved:
  assumes "\<not> skipFields k"
  shows "serializeField (merged_card L False b b r) k = serializeField r k"
proof -
  have "map_of (merged_card L False b b r) k = (if serializeField r k = serializeField b k then map_of b k else map_of r k)"
    by (simp add: map_of_merged_card [OF assms] merge_unmoved [OF assms])
  then show ?thesis using serializeField_map_of [of "merged_card L False b b r" k] by (metis (full_types))
qed

section \<open>Properties\<close>

text \<open>C30: A resolution does what it answers. When \<open>Resolve\<close> succeeds, the conflict was a pending one of the caller,
  the contact it is about is stored with the card the choices describe, the fields parsed from it and its
  ETag, the conflict row is marked resolved with that card, and the sync state of the pair has the card as
  its merge base, the ETag the remote card had and no local ETag.\<close>

theorem Resolve_applies:
  assumes "tables_ok (w_db w)" "Resolve L v i res w = (Inr r, w')"
  shows "\<exists>c resolved p t c0 n. c \<in> set (t_conflicts (w_db w)) \<and> sc_id c = i \<and> sc_user_id c = v \<and> sc_status c = ''pending''
    \<and> ApplyResolution L (sc_local_vcard c) (sc_remote_vcard c) res = Inr resolved \<and> ParseVCard L resolved = Inr p
    \<and> r = c\<lparr>sc_status := ''resolved'', sc_resolved_vcard := resolved, sc_resolved_at := Some t\<rparr> \<and> r \<in> set (t_conflicts (w_db w'))
    \<and> c0 \<in> set (t_contacts (w_db w)) \<and> c_uid c0 = sc_local_contact_id c
    \<and> (resolved_contact L t c0 resolved p)\<lparr>c_change_seq := n\<rparr> \<in> set (t_contacts (w_db w'))
    \<and> (\<forall>st. select_one (\<lambda>s. of_pipeline v (sc_provider_type c) s \<and> ss_remote_id s = sc_remote_id c) (t_sync_states (w_db w)) = Some st
         \<longrightarrow> (\<exists>t. advanced L c resolved t st \<in> set (t_sync_states (w_db w'))))"
  using assms by (rule Resolve_rows) blast

text \<open>C31: An automatic import undoes a resolution. The advanced state holds the hash of the resolved card, so a remote
  card that has not moved since the conflict still looks modified, and the cleared local ETag makes the
  contact look modified too; the merge base is the contact itself, so the three-way merge reports no conflict
  and the card it stores over the resolution has the value of the remote card in every merged property.\<close>

theorem resolution_undone_by_import:
  assumes "eng_lib E = L" "resolved \<noteq> []" "parseCard L resolved = Inr b" "parseCard L (sc_remote_vcard c) = Inr r"
    "contentHashOf L resolved \<noteq> contentHashOf L (sc_remote_vcard c)" "etagOf L resolved \<noteq> []"
    "map_of remoteMap k = Some item" "si_etag item = sc_remote_etag c" "si_vcard item = sc_remote_vcard c"
    "map_of localMap (ss_local_id st) = Some mine" "si_etag mine = etagOf L resolved" "si_vcard mine = resolved"
    "map_of (ps_prev ps) k = Some (advanced L c resolved t st)"
  shows "pull_item E u p local ConflictAuto t' localMap remoteMap k ps =
      apply_remote E local t' k item (advanced L c resolved t st) (CardToString L (merged_card L False b b r)) (clashed ps)
    \<and> (\<forall>q. \<not> skipFields q \<longrightarrow> serializeField (merged_card L False b b r) q = serializeField r q)"
proof
  have "remote_modified E (advanced L c resolved t st) item"
    using assms(1,5,9) by (simp add: remote_modified_def advanced_def contentHashOf_def ContentHash_def)
  moreover have "auto_merged E ConflictAuto (advanced L c resolved t st) mine item = Some (CardToString L (merged_card L False b b r))"
    using assms(1-4,9,12) by (simp add: auto_merged_def MergeVCards_def Let_def advanced_def no_conflict_unmoved)
  moreover have "ss_local_etag (advanced L c resolved t st) \<noteq> si_etag mine" "ss_local_id (advanced L c resolved t st) = ss_local_id st"
    using assms(6,11) by (simp_all add: advanced_def)
  ultimately show "pull_item E u p local ConflictAuto t' localMap remoteMap k ps =
      apply_remote E local t' k item (advanced L c resolved t st) (CardToString L (merged_card L False b b r)) (clashed ps)"
    using assms(7,10,13) by (simp add: pull_item_def Let_def)
  show "\<forall>q. \<not> skipFields q \<longrightarrow> serializeField (merged_card L False b b r) q = serializeField r q"
    by (simp add: merged_unmoved)
qed

subsection \<open>Concrete runs\<close>

definition kept_text :: string where
  "kept_text = CardToString (table_lib []) (person ''Ada'' [plain_field ''2''])"

definition clash_lib :: lib where
  "clash_lib = table_lib [(''l'', person ''Ada'' [plain_field ''2'']), (''r'', person ''Ada'' [plain_field ''3'']),
     (kept_text, person ''Ada'' [plain_field ''2''])]"

definition ada_conflict :: sync_conflict where
  "ada_conflict = \<lparr>sc_id = ''k'', sc_user_id = ''u'', sc_provider_type = ''p'', sc_remote_id = ''r1'', sc_local_contact_id = ''ada'',
     sc_base_vcard = [], sc_local_vcard = ''l'', sc_remote_vcard = ''r'', sc_remote_etag = ''e'', sc_field_diffs = [],
     sc_status = ''pending'', sc_resolution = [], sc_resolved_vcard = [], sc_created_at = 0, sc_resolved_at = None\<rparr>"

definition clash_world :: world where
  "clash_world = small_world (small_db\<lparr>t_contacts := [ada], t_conflicts := [ada_conflict]\<rparr>) []"

lemma clash_world_ok: "tables_ok (w_db clash_world)"
  by (simp add: clash_world_def small_world_def small_db_def tables_ok_def has_book_def ada_def blank_contact_def)

lemma kept_applied: "ApplyResolution clash_lib ''l'' ''r'' [(''*'', ''local'')] = Inr kept_text"
  by code_simp

lemma kept_parsed:
  "ParseVCard clash_lib kept_text = Inr (empty_parsed\<lparr>p_fn := ''Ada'', p_first_name := ''Ada'', p_primary_phone := ''2'',
     p_phones := [\<lparr>pf_value = ''2'', pf_type = [], pf_pref = 0, pf_label = []\<rparr>], p_uid := ''u1''\<rparr>)"
  by code_simp

lemma clash_resolved: "\<exists>r w'. Resolve clash_lib ''u'' ''k'' [(''*'', ''local'')] clash_world = (Inr r, w')"
  using kept_applied kept_parsed
  by (simp add: Resolve_def load_conflict_def GetConflict_def advanceSyncState_def GetByRemoteID_def UpdateConflict_def save_parsed_def
      provider_eval repo_eval clash_world_def ada_conflict_def ada_def resolved_contact_def ApplyToContact_def empty_parsed_def childID_def
      has_user_def attempt_def)

theorem Resolve_applies_witness:
  "\<exists>r w'. Resolve clash_lib ''u'' ''k'' [(''*'', ''local'')] clash_world = (Inr r, w') \<and> r \<in> set (t_conflicts (w_db w')) \<and> sc_status r = ''resolved''"
proof -
  obtain r w' where run: "Resolve clash_lib ''u'' ''k'' [(''*'', ''local'')] clash_world = (Inr r, w')" using clash_resolved by blast
  from Resolve_applies [OF clash_world_ok run] have "r \<in> set (t_conflicts (w_db w')) \<and> sc_status r = ''resolved''" by auto
  with run show ?thesis by blast
qed

definition ada_pair :: sync_state where
  "ada_pair = \<lparr>ss_id = ''s1'', ss_user_id = ''u'', ss_provider_type = ''p'', ss_remote_id = ''r1'', ss_local_id = ''ada'',
     ss_remote_etag = [], ss_local_etag = [], ss_content_hash = [], ss_base_vcard = [], ss_last_synced_at = 0\<rparr>"

definition remote_ada :: sync_item where
  "remote_ada = \<lparr>si_remote_id = ''r1'', si_etag = ''e'', si_content_hash = [], si_vcard = ''r''\<rparr>"

definition kept_ada :: sync_item where
  "kept_ada = \<lparr>si_remote_id = ''ada'', si_etag = etagOf clash_lib kept_text, si_content_hash = [], si_vcard = kept_text\<rparr>"

definition next_import :: phase_state where
  "next_import = \<lparr>ps_prev = [(''r1'', advanced clash_lib ada_conflict kept_text 1 ada_pair)], ps_pending = [], ps_result = no_result\<rparr>"

lemma kept_long: "8 < length kept_text"
  by code_simp

lemma kept_facts:
  "kept_text \<noteq> []" "contentHashOf clash_lib kept_text \<noteq> contentHashOf clash_lib ''r''" "etagOf clash_lib kept_text \<noteq> []"
  "parseCard clash_lib kept_text = Inr (person ''Ada'' [plain_field ''2''])" "parseCard clash_lib ''r'' = Inr (person ''Ada'' [plain_field ''3''])"
proof -
  have sha: "l_sha256 clash_lib s = s" for s by (simp add: clash_lib_def table_lib_def)
  show "kept_text \<noteq> []" using kept_long by auto
  show "contentHashOf clash_lib kept_text \<noteq> contentHashOf clash_lib ''r''"
    using kept_long length_hex [of kept_text] length_hex [of "''r''"] by (auto simp: contentHashOf_def sha)
  show "etagOf clash_lib kept_text \<noteq> []"
    using kept_long length_hex [of "take 8 kept_text"] by (auto simp: etagOf_def sha)
  show "parseCard clash_lib kept_text = Inr (person ''Ada'' [plain_field ''2''])" "parseCard clash_lib ''r'' = Inr (person ''Ada'' [plain_field ''3''])"
    by code_simp+
qed

theorem resolution_undone_by_import_witness:
  "pull_item (small_engine clash_lib) ''u'' ''p'' (InternalProvider clash_lib ''u'') ConflictAuto 2 [(''ada'', kept_ada)] [(''r1'', remote_ada)] ''r1'' next_import =
      (apply_remote (small_engine clash_lib) (InternalProvider clash_lib ''u'') 2 ''r1'' remote_ada (advanced clash_lib ada_conflict kept_text 1 ada_pair)
        (CardToString clash_lib (merged_card clash_lib False (person ''Ada'' [plain_field ''2'']) (person ''Ada'' [plain_field ''2'']) (person ''Ada'' [plain_field ''3''])))
        (clashed next_import) :: (unit, phase_state) prog)
    \<and> serializeField (merged_card clash_lib False (person ''Ada'' [plain_field ''2'']) (person ''Ada'' [plain_field ''2'']) (person ''Ada'' [plain_field ''3''])) ''TEL'' = ''3''"
proof -
  have pull: "map_of (ps_prev next_import) ''r1'' = Some (advanced clash_lib ada_conflict kept_text 1 ada_pair)"
    "map_of [(''r1'', remote_ada)] ''r1'' = Some remote_ada" "map_of [(''ada'', kept_ada)] (ss_local_id ada_pair) = Some kept_ada"
    "eng_lib (small_engine clash_lib) = clash_lib" by (simp_all add: next_import_def ada_pair_def small_engine_def)
  have tel: "\<not> skipFields ''TEL''" "serializeField (person ''Ada'' [plain_field ''3'']) ''TEL'' = ''3''" by code_simp+
  note undone = resolution_undone_by_import [where 'a = unit and E = "small_engine clash_lib" and L = clash_lib and c = ada_conflict and resolved = kept_text and item = remote_ada
      and mine = kept_ada and k = "''r1''" and ps = next_import and st = ada_pair and t = 1 and remoteMap = "[(''r1'', remote_ada)]" and localMap = "[(''ada'', kept_ada)]"]
  show ?thesis
    using undone [of "person ''Ada'' [plain_field ''2'']" "person ''Ada'' [plain_field ''3'']" "''u''" "''p''" "InternalProvider clash_lib ''u''" 2] kept_facts pull tel
    by (simp add: ada_conflict_def remote_ada_def kept_ada_def)
qed

end
