(* ===== verification/Tenancy.thy ===== *)
theory Tenancy
  imports MergeService ConflictService
begin

text \<open>
  The accounts of one instance share its tables. This theory is about what separates them: the rows that
  belong to a user (\<open>tenant\<close>), and that no request made for another user changes them. The requests are those
  of the contact service, the importer, the merge service, the conflict service and the CardDAV server; the proofs are triples
  over the invariant \<open>apart\<close>.
\<close>

section \<open>Definitions\<close>

definition books_of :: "string \<Rightarrow> db \<Rightarrow> address_book list" where
  "books_of u d = filter (\<lambda>b. ab_user_id b = u) (t_books d)"

definition my_books :: "string \<Rightarrow> db \<Rightarrow> string set" where
  "my_books u d = ab_id ` set (books_of u d)"

definition contacts_of :: "string \<Rightarrow> db \<Rightarrow> contact list" where
  "contacts_of u d = filter (\<lambda>c. c_address_book_id c \<in> my_books u d) (t_contacts d)"

record tenant_data =
  td_books :: "address_book list"
  td_contacts :: "contact list"
  td_children :: child_records
  td_tombstones :: "contact_tombstone list"
  td_states :: "sync_state list"
  td_conflicts :: "sync_conflict list"
  td_log :: "merge_log_entry list"

text \<open>Everything an account owns: its books with their contacts, the rows under these, the journal of
  deletions, and what the sync engine and the merge service keep for it.\<close>

definition tenant :: "string \<Rightarrow> db \<Rightarrow> tenant_data" where
  "tenant u d = \<lparr>td_books = books_of u d, td_contacts = contacts_of u d,
     td_children = keep_children (\<lambda>i. i \<in> c_id ` set (contacts_of u d)) (t_children d),
     td_tombstones = filter (\<lambda>t. ct_address_book_id t \<in> my_books u d) (t_tombstones d),
     td_states = filter (\<lambda>s. ss_user_id s = u) (t_sync_states d),
     td_conflicts = filter (\<lambda>c. sc_user_id c = u) (t_conflicts d),
     td_log = filter (\<lambda>e. ml_user_id e = u) (t_merge_log d)\<rparr>"

text \<open>The primary keys of the tables the services write to.\<close>

definition keys_ok :: "db \<Rightarrow> bool" where
  "keys_ok d \<longleftrightarrow> tables_ok d \<and> distinct (map ss_id (t_sync_states d)) \<and> distinct (map sc_id (t_conflicts d))"

definition sound_world :: "world \<Rightarrow> bool" where
  "sound_world w \<longleftrightarrow> keys_ok (w_db w) \<and> fresh_contacts w"

section \<open>Writes to one book\<close>

lemma tenant_frame:
  assumes "t_books d' = t_books d" "t_contacts d' = t_contacts d" "t_children d' = t_children d"
    "t_tombstones d' = t_tombstones d" "t_sync_states d' = t_sync_states d" "t_conflicts d' = t_conflicts d"
    "t_merge_log d' = t_merge_log d"
  shows "tenant u d' = tenant u d"
  using assms by (simp add: tenant_def contacts_of_def my_books_def books_of_def)

lemma book_owner:
  assumes "tables_ok d" "b \<in> my_books v d" "u \<noteq> v"
  shows "b \<notin> my_books u d"
proof
  assume "b \<in> my_books u d"
  with assms(2) obtain x y where "x \<in> set (t_books d)" "y \<in> set (t_books d)" "ab_id x = b" "ab_id y = b"
    "ab_user_id x = u" "ab_user_id y = v" by (auto simp: my_books_def books_of_def)
  moreover have "inj_on ab_id (set (t_books d))" using assms(1) by (simp add: tables_ok_def distinct_map)
  ultimately have "x = y" by (metis inj_onD)
  with \<open>ab_user_id x = u\<close> \<open>ab_user_id y = v\<close> assms(3) show False by simp
qed

lemma books_of_bump:
  assumes "b \<notin> my_books u d"
  shows "filter (\<lambda>x. ab_user_id x = u) (bump_books b (t_books d)) = books_of u d"
proof -
  have "filter (\<lambda>x. ab_user_id x = u) (bump_books b bs) = filter (\<lambda>x. ab_user_id x = u) bs"
    if "\<forall>x \<in> set bs. ab_user_id x = u \<longrightarrow> ab_id x \<noteq> b" for bs
    using that by (induction bs) (auto simp: bump_books_def)
  then show ?thesis using assms by (auto simp: books_of_def my_books_def)
qed

lemma keep_children_replaced:
  assumes "\<not> K cid" "same_children cid cs0 cs"
  shows "keep_children K (replaced_children cid cs old) = keep_children K old"
proof -
  have rows: "filter (K \<circ> ch_contact_id) (replaced cid rows olds) = filter (K \<circ> ch_contact_id) olds"
    if "\<forall>r \<in> set rows. ch_contact_id r = cid" for rows olds :: "'a child_scheme list"
    using that assms(1) by (auto simp: replaced_def filter_empty_conv intro!: filter_cong)
  show ?thesis using assms(2)
    by (simp add: keep_children_def replaced_children_def same_children_def same_rows_def rows)
qed

lemma contact_owner:
  assumes "tables_ok d" "c \<in> set (t_contacts d)" "c_address_book_id c \<notin> my_books u d"
  shows "c_id c \<notin> c_id ` set (contacts_of u d)"
proof
  assume "c_id c \<in> c_id ` set (contacts_of u d)"
  then obtain x where x: "x \<in> set (t_contacts d)" "c_address_book_id x \<in> my_books u d" "c_id x = c_id c"
    by (auto simp: contacts_of_def)
  have "inj_on c_id (set (t_contacts d))" using assms(1) by (simp add: tables_ok_def distinct_map)
  with x assms(2) have "x = c" by (metis inj_onD)
  with x(2) assms(3) show False by simp
qed

lemma tenant_saved:
  assumes ok: "tables_ok d" and own: "c_address_book_id c \<notin> my_books u d" and key: "keeps_key c d"
    and cs: "same_children (c_id c) cs0 cs"
  shows "tenant u (saved c cs d) = tenant u d"
proof -
  let ?d = "saved c cs d" and ?b = "c_address_book_id c"
  have books: "books_of u ?d = books_of u d"
    using books_of_bump [OF own] by (simp add: books_of_def saved_def Let_def)
  then have mine: "my_books u ?d = my_books u d" by (simp add: my_books_def)
  have old: "c_address_book_id x = ?b" if "x \<in> set (t_contacts d)" "c_id x = c_id c" for x
    using key that by (auto simp: keeps_key_def)
  have rows: "filter (\<lambda>x. c_address_book_id x \<in> my_books u d) (upsert_row c_id c' xs) = filter (\<lambda>x. c_address_book_id x \<in> my_books u d) xs"
    if "c_id c' = c_id c" "c_address_book_id c' = ?b" "\<forall>x \<in> set xs. c_id x = c_id c \<longrightarrow> c_address_book_id x = ?b" for c' xs
    using that own by (induction xs) (auto simp: upsert_row_def)
  then have "filter (\<lambda>x. c_address_book_id x \<in> my_books u d) (upsert_row c_id (c\<lparr>c_change_seq := n\<rparr>) (t_contacts d))
      = filter (\<lambda>x. c_address_book_id x \<in> my_books u d) (t_contacts d)" for n
    using old by (intro rows) auto
  then have contacts: "contacts_of u ?d = contacts_of u d"
    unfolding contacts_of_def mine using own by (simp add: saved_def Let_def)
  have "c_id c \<notin> c_id ` set (contacts_of u d)"
  proof (cases "c_id c \<in> c_id ` set (t_contacts d)")
    case True
    then obtain x where "x \<in> set (t_contacts d)" "c_id x = c_id c" by auto
    then show ?thesis using contact_owner [OF ok, of x u] own old by simp
  qed (auto simp: contacts_of_def)
  then have children: "keep_children (\<lambda>i. i \<in> c_id ` set (contacts_of u d)) (t_children ?d)
      = keep_children (\<lambda>i. i \<in> c_id ` set (contacts_of u d)) (t_children d)"
    using keep_children_replaced [OF _ cs] by (simp add: saved_def Let_def)
  have tombs: "filter (\<lambda>t. ct_address_book_id t \<in> my_books u d) (t_tombstones ?d)
      = filter (\<lambda>t. ct_address_book_id t \<in> my_books u d) (t_tombstones d)"
    using own by (auto simp: saved_def Let_def intro!: filter_cong)
  show ?thesis
    unfolding tenant_def books contacts mine children tombs by (simp add: saved_def Let_def)
qed

lemma tenant_bumped: "b \<notin> my_books u d \<Longrightarrow> tenant u (bumped b d) = tenant u d"
  using books_of_bump [of b u d]
  by (simp add: tenant_def bumped_def contacts_of_def my_books_def books_of_def)

lemma keep_children_keep: "(\<And>i. K i \<Longrightarrow> K' i) \<Longrightarrow> keep_children K (keep_children K' cs) = keep_children K cs"
  by (auto simp: keep_children_def intro!: filter_cong)

lemma tenant_buried:
  assumes ok: "tables_ok d" and own: "\<forall>c \<in> set (t_contacts d). P c \<longrightarrow> c_address_book_id c \<notin> my_books u d"
    and ts: "\<forall>t \<in> set ts. ct_address_book_id t \<notin> my_books u d"
  shows "tenant u (buried P ts d) = tenant u d"
proof -
  let ?d = "buried P ts d"
  have mine: "books_of u ?d = books_of u d" "my_books u ?d = my_books u d"
    by (simp_all add: my_books_def books_of_def buried_def drop_contacts_def Let_def)
  have contacts: "contacts_of u ?d = contacts_of u d"
    unfolding contacts_of_def mine using own by (auto simp: buried_def drop_contacts_def Let_def intro!: filter_cong)
  have ch: "t_children ?d = keep_children (\<lambda>i. i \<notin> c_id ` set (filter P (t_contacts d))) (t_children d)"
    by (simp add: buried_def drop_contacts_def Let_def)
  have gone: "i \<notin> c_id ` set (filter P (t_contacts d))" if "i \<in> c_id ` set (contacts_of u d)" for i
  proof
    assume "i \<in> c_id ` set (filter P (t_contacts d))"
    then obtain c where "c \<in> set (t_contacts d)" "P c" "c_id c = i" by auto
    with contact_owner [OF ok, of c u] own that show False by simp
  qed
  have "keep_children (\<lambda>i. i \<in> c_id ` set (contacts_of u d)) (t_children ?d)
      = keep_children (\<lambda>i. i \<in> c_id ` set (contacts_of u d)) (t_children d)"
    unfolding ch by (rule keep_children_keep) (rule gone)
  moreover have "filter (\<lambda>t. ct_address_book_id t \<in> my_books u d) (t_tombstones ?d)
      = filter (\<lambda>t. ct_address_book_id t \<in> my_books u d) (t_tombstones d)"
    using ts by (auto simp: buried_def filter_empty_conv)
  ultimately show ?thesis
    unfolding tenant_def contacts mine by (simp add: buried_def drop_contacts_def Let_def)
qed

section \<open>Triples\<close>

definition apart :: "string \<Rightarrow> tenant_data \<Rightarrow> world \<Rightarrow> bool" where
  "apart u F w \<longleftrightarrow> sound_world w \<and> tenant u (w_db w) = F"

text \<open>A contact that a request for the user \<open>v\<close> may write: it is in a book of \<open>v\<close>, its identifier is that of
  the same card or was minted for it.\<close>

definition writable :: "string \<Rightarrow> contact \<Rightarrow> world \<Rightarrow> bool" where
  "writable v c w \<longleftrightarrow> c_address_book_id c \<in> my_books v (w_db w) \<and> keeps_key c (w_db w)
     \<and> c_id c \<in> c_id ` set (t_contacts (w_db w)) \<union> w_uuid w ` {n. n < w_minted w}"

definition owns :: "string \<Rightarrow> string \<Rightarrow> world \<Rightarrow> bool" where
  "owns v b w \<longleftrightarrow> b \<in> my_books v (w_db w)"

lemma stable_owns [stability]: "stable (owns v b)"
  by (simp add: stable_def owns_def)

lemma stable_apart [stability]: "stable (apart u F)"
  unfolding stable_def apart_def sound_world_def by (auto intro: fresh_contacts_mono)

lemma stable_writable [stability]: "stable (writable v c)"
  unfolding stable_def writable_def by fastforce

lemmas triple_quietly = triple_first [where E = "\<lambda>_. apart u F" for u F]

text \<open>A statement that leaves the tenant and the contacts' identifiers alone.\<close>

lemma triple_apart_stmt:
  assumes "\<And>d x d'. keys_ok d \<Longrightarrow> I d \<Longrightarrow> q d = Inr (x, d') \<Longrightarrow>
     J x d' \<and> keys_ok d' \<and> tenant u d' = tenant u d \<and> c_id ` set (t_contacts d') \<subseteq> c_id ` set (t_contacts d)"
  shows "triple (\<lambda>w. apart u F w \<and> I (w_db w)) (stmt q) (\<lambda>x w. apart u F w \<and> J x (w_db w))
     (\<lambda>_ w. apart u F w \<and> I (w_db w))"
proof (rule tripleI)
  fix w x w' assume P: "apart u F w \<and> I (w_db w)" and run: "stmt q w = (Inr x, w')"
  note st = steadyD [OF steady_basic(5) run]
  have q: "q (w_db w) = Inr (x, w_db w')" using run by (rule stmt_Inr_db)
  have "fresh_contacts w'"
    using P assms [OF _ _ q] st by (intro fresh_contacts_mono [of w w']) (auto simp: apart_def sound_world_def)
  then show "apart u F w' \<and> J x (w_db w')" using P assms [OF _ _ q] by (simp add: apart_def sound_world_def)
next
  fix w e w' assume P: "apart u F w \<and> I (w_db w)" and run: "stmt q w = (Inl e, w')"
  have "w_db w' = w_db w" using atomicD [OF atomic_stmt run] .
  then show "apart u F w' \<and> I (w_db w')" using P stable_apart [of u F] steadyD [OF steady_basic(5) run] unfolding stable_def by metis
qed

lemma tenant_new_book:
  "ab_user_id ab \<noteq> u \<Longrightarrow> tenant u (d\<lparr>t_books := t_books d @ [ab]\<rparr>) = tenant u d"
  by (simp add: tenant_def contacts_of_def my_books_def books_of_def)

lemma apart_CreateBook:
  assumes "ab_user_id ab = v" "u \<noteq> v"
  shows "triple (apart u F) (CreateBook ab) (\<lambda>_ w. apart u F w \<and> owns v (ab_id ab) w) (\<lambda>_. apart u F)"
proof -
  have "triple (\<lambda>w. apart u F w \<and> True) (CreateBook ab) (\<lambda>_ w. apart u F w \<and> ab_id ab \<in> my_books v (w_db w)) (\<lambda>_ w. apart u F w \<and> True)"
    unfolding CreateBook_def
  proof (rule triple_apart_stmt)
    fix d x d'
    assume ok: "keys_ok d" and q: "(if ab_user_id ab \<notin> u_id ` set (t_users d) then Inl ErrConstraint
       else case insert_row ab_id ab (t_books d) of Inl e \<Rightarrow> Inl e | Inr books \<Rightarrow> Inr ((), d\<lparr>t_books := books\<rparr>)) = Inr (x, d')"
    from q have d': "d' = d\<lparr>t_books := t_books d @ [ab]\<rparr>" "ab_id ab \<notin> ab_id ` set (t_books d)"
      by (auto simp: insert_row_Inr split: if_splits sum.splits)
    have "keys_ok d'" using ok d' by (auto simp: keys_ok_def tables_ok_def has_book_def)
    moreover have "ab_id ab \<in> my_books v d'" using assms(1) d'(1) by (simp add: my_books_def books_of_def)
    moreover have "tenant u d' = tenant u d" using tenant_new_book [of ab u d] assms d'(1) by simp
    ultimately show "ab_id ab \<in> my_books v d' \<and> keys_ok d' \<and> tenant u d' = tenant u d
        \<and> c_id ` set (t_contacts d') \<subseteq> c_id ` set (t_contacts d)" using d'(1) by simp
  qed
  then show ?thesis by (simp add: owns_def)
qed

lemma select_mine: "select_one (\<lambda>b. ab_user_id b = v) (t_books d) = Some ab \<Longrightarrow> ab_id ab \<in> my_books v d"
  using select_one_Some [of "\<lambda>b. ab_user_id b = v" "t_books d" ab] by (auto simp: my_books_def books_of_def)

lemma apart_GetByUserID:
  "triple (apart u F) (GetByUserID v) (\<lambda>found w. apart u F w \<and> (\<forall>ab. found = Some ab \<longrightarrow> owns v (ab_id ab) w)) (\<lambda>_. apart u F)"
  unfolding GetByUserID_def
  by (rule triple_post [OF triple_read [OF stable_apart]]) (auto simp: owns_def dest: select_mine)

lemma apart_GetOrCreate:
  assumes "u \<noteq> v"
  shows "triple (apart u F) (GetOrCreateByUserID v) (\<lambda>ab w. apart u F w \<and> owns v (ab_id ab) w) (\<lambda>_. apart u F)"
proof -
  let ?own = "\<lambda>found w. apart u F w \<and> (\<forall>ab. found = Some ab \<longrightarrow> owns v (ab_id ab) w)"
  have again: "triple (apart u F) (andThen (attempt (GetByUserID v)) (\<lambda>again. case again of Inr (Some ab2) \<Rightarrow> ret ab2 | _ \<Rightarrow> throw e))
      (\<lambda>ab w. apart u F w \<and> owns v (ab_id ab) w) (\<lambda>_. apart u F)" for e :: db_error
    by (rule triple_andThen [OF triple_attempt [where Q = "\<lambda>r. case r of Inl _ \<Rightarrow> apart u F | Inr found \<Rightarrow> ?own found"]])
      (use apart_GetByUserID in \<open>auto intro!: triple_ret triple_throw split: sum.split option.split\<close>)
  have create: "triple (apart u F) (andThen (attempt (CreateBook ab)) (\<lambda>r. case r of Inr _ \<Rightarrow> ret ab
      | Inl err \<Rightarrow> andThen (attempt (GetByUserID v)) (\<lambda>again. case again of Inr (Some ab2) \<Rightarrow> ret ab2 | _ \<Rightarrow> throw err)))
      (\<lambda>ab w. apart u F w \<and> owns v (ab_id ab) w) (\<lambda>_. apart u F)" if "ab_user_id ab = v" for ab
    by (rule triple_andThen [OF triple_attempt [where Q = "\<lambda>r. case r of Inl _ \<Rightarrow> apart u F | Inr _ \<Rightarrow> \<lambda>w. apart u F w \<and> owns v (ab_id ab) w"]])
      (use apart_CreateBook [OF that assms] again in \<open>auto intro!: triple_ret split: sum.split\<close>)
  show ?thesis
    unfolding GetOrCreateByUserID_def
  proof (rule triple_andThen [OF apart_GetByUserID])
    fix found
    show "triple (?own found) (case found of None \<Rightarrow> andThen now (\<lambda>t. andThen mint (\<lambda>i.
          let ab = \<lparr>ab_id = i, ab_user_id = v, ab_name = ''Contacts'', ab_description = [], ab_change_seq = 0, ab_created_at = t, ab_updated_at = t\<rparr>
          in andThen (attempt (CreateBook ab)) (\<lambda>r. case r of Inl err \<Rightarrow> andThen (attempt (GetByUserID v)) (\<lambda>again. case again of
               Inl x \<Rightarrow> throw err | Inr None \<Rightarrow> throw err | Inr (Some ab2) \<Rightarrow> ret ab2) | Inr x \<Rightarrow> ret ab)))
        | Some ab \<Rightarrow> ret ab) (\<lambda>ab w. apart u F w \<and> owns v (ab_id ab) w) (\<lambda>_. apart u F)"
    proof (cases found)
      case None
      then show ?thesis unfolding Let_def
        by simp (intro triple_quietly [where u = u and F = F, OF stable_apart] effects frame create; simp)
    qed (auto intro: triple_ret)
  qed
qed

text \<open>A call that commits or rolls back.\<close>

lemma triple_commit:
  assumes "steady m" "atomic m" "\<And>w. P w \<Longrightarrow> apart u F w"
    "\<And>w x w'. P w \<Longrightarrow> m w = (Inr x, w') \<Longrightarrow> keys_ok (w_db w') \<and> fresh_contacts w' \<and> tenant u (w_db w') = tenant u (w_db w)"
  shows "triple P m (\<lambda>_. apart u F) (\<lambda>_. apart u F)"
proof (rule tripleI)
  fix w x w' assume "P w" "m w = (Inr x, w')"
  then show "apart u F w'" using assms(3) [of w] assms(4) [of w x w'] by (simp add: apart_def sound_world_def)
next
  fix w e w' assume P: "P w" and run: "m w = (Inl e, w')"
  show "apart u F w'"
    using stable_apart [of u F] assms(3) [OF P] atomicD [OF assms(2) run] steadyD [OF assms(1) run] unfolding stable_def by blast
qed

lemma keys_ok_saved: "keys_ok d \<Longrightarrow> may_save c d \<Longrightarrow> keeps_key c d \<Longrightarrow> keys_ok (saved c cs d)"
  using tables_ok_saved [of d c cs] by (simp add: keys_ok_def) (simp add: saved_def Let_def)

lemma keys_ok_buried: "keys_ok d \<Longrightarrow> keys_ok (buried P ts d)"
  by (auto simp: keys_ok_def tables_ok_def distinct_map_filter) (auto simp: buried_def drop_contacts_def Let_def)

lemma keys_ok_bumped: "keys_ok d \<Longrightarrow> keys_ok (bumped b d)"
  by (auto simp: keys_ok_def tables_ok_def bumped_def [of b d, THEN arg_cong, of t_books]) (auto simp: bumped_def)

lemma my_books_bumped: "my_books v (bumped b d) = my_books v d"
proof -
  have "ab_id ` set (filter (\<lambda>x. ab_user_id x = v) (bump_books b bs)) = ab_id ` set (filter (\<lambda>x. ab_user_id x = v) bs)" for bs
    by (induction bs) (auto simp: bump_books_def)
  then show ?thesis by (simp add: my_books_def books_of_def bumped_def)
qed

lemma my_books_saved: "my_books v (saved c cs d) = my_books v d"
  using my_books_bumped [of v "c_address_book_id c" d] by (simp add: my_books_def books_of_def bumped_def saved_def Let_def)

lemma apart_Save:
  assumes "u \<noteq> v"
  shows "triple (\<lambda>w. apart u F w \<and> writable v c w) (Save c cs) (\<lambda>_. apart u F) (\<lambda>_. apart u F)"
proof (rule triple_commit)
  fix w x w' assume P: "apart u F w \<and> writable v c w" and "Save c cs w = (Inr x, w')"
  then have run: "Save c cs w = (Inr (), w')" by simp
  from Save_commit [OF run] obtain cs' where cs: "same_children (c_id c) cs cs'" and ms: "may_save c (w_db w)"
    and db: "w_db w' = saved c cs' (w_db w)" by blast
  have ok: "keys_ok (w_db w)" "tables_ok (w_db w)" "fresh_contacts w" using P by (simp_all add: apart_def sound_world_def keys_ok_def)
  have key: "keeps_key c (w_db w)" and own: "c_address_book_id c \<notin> my_books u (w_db w)"
    using P book_owner [OF ok(2) _ assms] by (simp_all add: writable_def)
  have "fresh_contacts w'" using fresh_save [OF ok(2,3) run] P by (simp add: writable_def)
  with db keys_ok_saved [OF ok(1) ms key] tenant_saved [OF ok(2) own key cs]
  show "keys_ok (w_db w') \<and> fresh_contacts w' \<and> tenant u (w_db w') = tenant u (w_db w)" by simp
qed (simp_all add: effects frame)

lemma fresh_fewer:
  assumes "fresh_contacts w" "steady m" "m w = (r, w')" "c_id ` set (t_contacts (w_db w')) \<subseteq> c_id ` set (t_contacts (w_db w))"
  shows "fresh_contacts w'"
  by (rule fresh_contacts_mono [OF assms(1) steadyD(1,2) [OF assms(2,3)]]) (use assms(4) in blast)

text \<open>A deletion in one book.\<close>

lemma apart_bury:
  assumes "u \<noteq> v" "steady m" "atomic m"
    "\<And>w x w'. P w \<Longrightarrow> m w = (Inr x, w') \<Longrightarrow> w_db w' = w_db w \<or> (\<exists>p ts b. w_db w' = buried p ts (bumped b (w_db w))
        \<and> owns v b w \<and> (\<forall>c \<in> set (t_contacts (w_db w)). p c \<longrightarrow> owns v (c_address_book_id c) w) \<and> (\<forall>t \<in> set ts. ct_address_book_id t = b))"
    "\<And>w. P w \<Longrightarrow> apart u F w"
  shows "triple P m (\<lambda>_. apart u F) (\<lambda>_. apart u F)"
proof (rule triple_commit [OF assms(2,3,5)])
  fix w x w' assume P: "P w" and run: "m w = (Inr x, w')"
  have ok: "keys_ok (w_db w)" "tables_ok (w_db w)" "fresh_contacts w" using assms(5) [OF P] by (simp_all add: apart_def sound_world_def keys_ok_def)
  show "keys_ok (w_db w') \<and> fresh_contacts w' \<and> tenant u (w_db w') = tenant u (w_db w)"
    using assms(4) [OF P run]
  proof (elim disjE exE conjE)
    assume "w_db w' = w_db w"
    then show ?thesis using ok fresh_fewer [OF ok(3) assms(2) run] by simp
  next
    fix p ts b
    assume db: "w_db w' = buried p ts (bumped b (w_db w))" and own: "owns v b w"
      "\<forall>c \<in> set (t_contacts (w_db w)). p c \<longrightarrow> owns v (c_address_book_id c) w" and ts: "\<forall>t \<in> set ts. ct_address_book_id t = b"
    have b: "b \<notin> my_books u (w_db w)" using own(1) book_owner [OF ok(2) _ assms(1)] by (simp add: owns_def)
    have "tenant u (w_db w') = tenant u (bumped b (w_db w))"
      unfolding db using keys_ok_bumped [OF ok(1), of b] own(2) ts b book_owner [OF ok(2) _ assms(1)]
      by (intro tenant_buried) (auto simp: keys_ok_def my_books_bumped owns_def)
    then show ?thesis
      using keys_ok_buried [OF keys_ok_bumped [OF ok(1)], of p ts b] tenant_bumped [OF b] fresh_fewer [OF ok(3) assms(2) run]
      by (auto simp: db)
  qed
qed

lemma apart_Delete:
  assumes "u \<noteq> v"
  shows "triple (\<lambda>w. apart u F w \<and> (\<forall>c \<in> set (t_contacts (w_db w)). c_id c = i \<longrightarrow> owns v (c_address_book_id c) w)) (Delete i)
     (\<lambda>_. apart u F) (\<lambda>_. apart u F)"
proof (rule apart_bury [OF assms])
  fix w x w' assume "apart u F w \<and> (\<forall>c \<in> set (t_contacts (w_db w)). c_id c = i \<longrightarrow> owns v (c_address_book_id c) w)" "Delete i w = (Inr x, w')"
  then show "w_db w' = w_db w \<or> (\<exists>p ts b. w_db w' = buried p ts (bumped b (w_db w)) \<and> owns v b w
      \<and> (\<forall>c \<in> set (t_contacts (w_db w)). p c \<longrightarrow> owns v (c_address_book_id c) w) \<and> (\<forall>t \<in> set ts. ct_address_book_id t = b))"
    using Delete_commit [of i w w'] by (fastforce simp: tombstones_for_def)
qed (simp_all add: effects frame)

lemma apart_DeleteAll:
  assumes "u \<noteq> v"
  shows "triple (\<lambda>w. apart u F w \<and> owns v b w) (DeleteAll b) (\<lambda>_. apart u F) (\<lambda>_. apart u F)"
proof (rule apart_bury [OF assms])
  fix w x w' assume "apart u F w \<and> owns v b w" "DeleteAll b w = (Inr x, w')"
  then show "w_db w' = w_db w \<or> (\<exists>p ts b. w_db w' = buried p ts (bumped b (w_db w)) \<and> owns v b w
      \<and> (\<forall>c \<in> set (t_contacts (w_db w)). p c \<longrightarrow> owns v (c_address_book_id c) w) \<and> (\<forall>t \<in> set ts. ct_address_book_id t = b))"
    using DeleteAll_commit [of b w w'] by (fastforce simp: tombstones_for_def in_book_def)
qed (simp_all add: effects frame)

lemma apart_DeleteMany:
  assumes "u \<noteq> v"
  shows "triple (\<lambda>w. apart u F w \<and> owns v b w) (DeleteMany b ids) (\<lambda>_. apart u F) (\<lambda>_. apart u F)"
proof (rule apart_bury [OF assms])
  fix w x w' assume P: "apart u F w \<and> owns v b w" and run: "DeleteMany b ids w = (Inr x, w')"
  show "w_db w' = w_db w \<or> (\<exists>p ts b. w_db w' = buried p ts (bumped b (w_db w)) \<and> owns v b w
      \<and> (\<forall>c \<in> set (t_contacts (w_db w)). p c \<longrightarrow> owns v (c_address_book_id c) w) \<and> (\<forall>t \<in> set ts. ct_address_book_id t = b))"
  proof (cases "ids = []")
    case True
    then show ?thesis using run by (simp add: DeleteMany_def prog_simps)
  next
    case False
    from DeleteMany_commit [OF run False] P show ?thesis by (fastforce simp: tombstones_for_def in_book_def)
  qed
qed (simp_all add: effects frame)

lemma apart_MergeInto:
  assumes "u \<noteq> v"
  shows "triple (\<lambda>w. apart u F w \<and> owns v (c_address_book_id c) w \<and> keeps_key c (w_db w) \<and> c_id c \<in> c_id ` set (t_contacts (w_db w)) \<and> i \<noteq> c_id c
      \<and> (\<forall>l \<in> set (t_contacts (w_db w)). c_id l = i \<longrightarrow> owns v (c_address_book_id l) w))
    (MergeInto c cs i) (\<lambda>_. apart u F) (\<lambda>_. apart u F)" (is "triple ?P _ _ _")
proof (rule triple_commit)
  fix w x w' assume P: "?P w" and "MergeInto c cs i w = (Inr x, w')"
  then have run: "MergeInto c cs i w = (Inr (), w')" by simp
  have ok: "keys_ok (w_db w)" "tables_ok (w_db w)" "fresh_contacts w" using P by (simp_all add: apart_def sound_world_def keys_ok_def)
  have key: "keeps_key c (w_db w)" and own: "c_address_book_id c \<notin> my_books u (w_db w)"
    using P book_owner [OF ok(2) _ assms] by (simp_all add: owns_def)
  from MergeInto_commit [OF run] obtain cs' where cs: "same_children (c_id c) cs cs'" and ms: "may_save c (w_db w)"
    and m: "case select_one (\<lambda>x. c_id x = i) (t_contacts (w_db w)) of None \<Rightarrow> w_db w' = saved c cs' (w_db w)
       | Some l \<Rightarrow> \<exists>ts. tombstones_for (c_address_book_id l) (seq_of (w_db w) (c_address_book_id c) + 1) [c_uid l] ts
           \<and> w_db w' = buried (\<lambda>x. c_id x = i) ts (saved c cs' (w_db w))" by blast
  let ?d = "saved c cs' (w_db w)"
  have sv: "keys_ok ?d" "tables_ok ?d" "tenant u ?d = tenant u (w_db w)"
    using keys_ok_saved [OF ok(1) ms key] tenant_saved [OF ok(2) own key cs] by (simp_all add: keys_ok_def)
  have ids: "c_id ` set (t_contacts ?d) \<subseteq> c_id ` set (t_contacts (w_db w))" using P by (auto simp: rows_saved [OF ok(2)])
  have "keys_ok (w_db w') \<and> tenant u (w_db w') = tenant u (w_db w) \<and> c_id ` set (t_contacts (w_db w')) \<subseteq> c_id ` set (t_contacts ?d)"
  proof (cases "select_one (\<lambda>x. c_id x = i) (t_contacts (w_db w))")
    case None
    then show ?thesis using m sv by simp
  next
    case (Some l)
    then obtain ts where ts: "\<forall>t \<in> set ts. ct_address_book_id t = c_address_book_id l" and db: "w_db w' = buried (\<lambda>x. c_id x = i) ts ?d"
      using m by (auto simp: tombstones_for_def)
    have l: "l \<in> set (t_contacts (w_db w))" "c_id l = i" using select_one_Some [OF Some] by simp_all
    have away: "c_address_book_id y \<notin> my_books u (w_db w)" if "y \<in> set (t_contacts (w_db w))" "c_id y = i" for y
      using P that book_owner [OF ok(2) _ assms] by (auto simp: owns_def)
    have "tenant u (w_db w') = tenant u ?d" unfolding db
      using away l ts P by (intro tenant_buried [OF sv(2)]) (auto simp: rows_saved [OF ok(2)] my_books_saved)
    then show ?thesis using keys_ok_buried [OF sv(1)] sv(3) db by auto
  qed
  then show "keys_ok (w_db w') \<and> fresh_contacts w' \<and> tenant u (w_db w') = tenant u (w_db w)"
    using fresh_fewer [OF ok(3) steady_writes(1) run] ids by blast
qed (simp_all add: effects frame)

text \<open>The tables of the sync engine and the merge log: a row keeps its owner.\<close>

lemma filter_upsert_other:
  assumes "\<not> Q r" "\<forall>s \<in> set rows. key s = key r \<longrightarrow> \<not> Q s"
  shows "filter Q (upsert_row key r rows) = filter Q rows"
  using assms by (induction rows) (auto simp: upsert_row_def)

definition states_owned :: "string \<Rightarrow> string \<Rightarrow> db \<Rightarrow> bool" where
  "states_owned v i d \<longleftrightarrow> (\<forall>s \<in> set (t_sync_states d). ss_id s = i \<longrightarrow> ss_user_id s = v)"

definition conflicts_owned :: "string \<Rightarrow> string \<Rightarrow> db \<Rightarrow> bool" where
  "conflicts_owned v i d \<longleftrightarrow> (\<forall>c \<in> set (t_conflicts d). sc_id c = i \<longrightarrow> sc_user_id c = v)"

lemma apart_UpdateState:
  assumes "u \<noteq> v" "ss_user_id s = v"
  shows "triple (\<lambda>w. apart u F w \<and> states_owned v (ss_id s) (w_db w)) (UpdateState s) (\<lambda>_. apart u F) (\<lambda>_. apart u F)"
proof -
  have "triple (\<lambda>w. apart u F w \<and> states_owned v (ss_id s) (w_db w)) (UpdateState s) (\<lambda>_ w. apart u F w \<and> True)
      (\<lambda>_ w. apart u F w \<and> states_owned v (ss_id s) (w_db w))"
    unfolding UpdateState_def
    by (rule triple_apart_stmt) (use assms in \<open>auto simp: keys_ok_def tables_ok_def has_book_def tenant_def contacts_of_def my_books_def
        books_of_def states_owned_def filter_upsert_other split: if_splits\<close>)
  then show ?thesis by (rule triple_conseq) auto
qed

lemma apart_DeleteState:
  assumes "u \<noteq> v" "i \<in> ss_id ` set states"
  shows "triple (\<lambda>w. apart u F w \<and> (\<forall>st \<in> set states. states_owned v (ss_id st) (w_db w))) (DeleteState i)
     (\<lambda>_ w. apart u F w \<and> (\<forall>st \<in> set states. states_owned v (ss_id st) (w_db w)))
     (\<lambda>_ w. apart u F w \<and> (\<forall>st \<in> set states. states_owned v (ss_id st) (w_db w)))"
  unfolding DeleteState_def
proof (rule triple_apart_stmt)
  fix d x d' assume "keys_ok d" and I: "\<forall>st \<in> set states. states_owned v (ss_id st) d"
    and "Inr ((), d\<lparr>t_sync_states := filter (\<lambda>s. ss_id s \<noteq> i) (t_sync_states d)\<rparr>) = Inr (x, d')"
  then have d': "d' = d\<lparr>t_sync_states := filter (\<lambda>s. ss_id s \<noteq> i) (t_sync_states d)\<rparr>" by simp
  have "\<forall>s \<in> set (t_sync_states d). ss_id s = i \<longrightarrow> ss_user_id s \<noteq> u" using I assms by (auto simp: states_owned_def)
  then have "filter (\<lambda>s. ss_id s \<noteq> i \<and> ss_user_id s = u) (t_sync_states d) = filter (\<lambda>s. ss_user_id s = u) (t_sync_states d)"
    by (intro filter_cong) auto
  then have "tenant u d' = tenant u d" by (simp add: d' tenant_def contacts_of_def my_books_def books_of_def)
  then show "(\<forall>st \<in> set states. states_owned v (ss_id st) d') \<and> keys_ok d' \<and> tenant u d' = tenant u d
      \<and> c_id ` set (t_contacts d') \<subseteq> c_id ` set (t_contacts d)"
    using I \<open>keys_ok d\<close> by (auto simp: d' states_owned_def keys_ok_def tables_ok_def has_book_def distinct_map_filter)
qed

lemma apart_UpdateConflict:
  assumes "u \<noteq> v" "sc_user_id c = v"
  shows "triple (\<lambda>w. apart u F w \<and> conflicts_owned v (sc_id c) (w_db w)) (UpdateConflict c) (\<lambda>_. apart u F) (\<lambda>_. apart u F)"
proof -
  have "triple (\<lambda>w. apart u F w \<and> conflicts_owned v (sc_id c) (w_db w)) (UpdateConflict c) (\<lambda>_ w. apart u F w \<and> True)
      (\<lambda>_ w. apart u F w \<and> conflicts_owned v (sc_id c) (w_db w))"
    unfolding UpdateConflict_def
    by (rule triple_apart_stmt) (use assms in \<open>auto simp: keys_ok_def tables_ok_def has_book_def tenant_def contacts_of_def my_books_def
        books_of_def conflicts_owned_def filter_upsert_other split: if_splits\<close>)
  then show ?thesis by (rule triple_conseq) auto
qed

lemma apart_DeleteByContact:
  assumes "\<And>d f. I (d\<lparr>t_duplicates := f\<rparr>) = I d"
  shows "triple (\<lambda>w. apart u F w \<and> I (w_db w)) (DeleteByContact i) (\<lambda>_ w. apart u F w \<and> I (w_db w)) (\<lambda>_ w. apart u F w \<and> I (w_db w))"
  unfolding DeleteByContact_def
  by (rule triple_apart_stmt) (auto simp: assms keys_ok_def tables_ok_def has_book_def intro!: tenant_frame)

lemma apart_CreateLogEntry:
  assumes "u \<noteq> v" "ml_user_id e = v" "\<And>d f. I (d\<lparr>t_merge_log := f\<rparr>) = I d"
  shows "triple (\<lambda>w. apart u F w \<and> I (w_db w)) (CreateLogEntry e) (\<lambda>_ w. apart u F w \<and> I (w_db w)) (\<lambda>_ w. apart u F w \<and> I (w_db w))"
  unfolding CreateLogEntry_def Let_def
proof (rule triple_first)
  fix t
  show "triple (\<lambda>w. apart u F w \<and> I (w_db w)) (stmt (\<lambda>d. if ml_user_id (if ml_merged_at e = 0 then e\<lparr>ml_merged_at := t\<rparr> else e) \<notin> u_id ` set (t_users d)
        then Inl ErrConstraint else case insert_row ml_id (if ml_merged_at e = 0 then e\<lparr>ml_merged_at := t\<rparr> else e) (t_merge_log d) of
          Inl err \<Rightarrow> Inl err | Inr rows \<Rightarrow> Inr ((), d\<lparr>t_merge_log := rows\<rparr>)))
     (\<lambda>_ w. apart u F w \<and> I (w_db w)) (\<lambda>_ w. apart u F w \<and> I (w_db w))"
    by (rule triple_apart_stmt) (use assms in \<open>auto simp: insert_row_Inr keys_ok_def tables_ok_def has_book_def tenant_def contacts_of_def my_books_def
        books_of_def split: if_splits sum.splits\<close>)
qed (auto intro: effects frame stability)

section \<open>Requests\<close>

subsection \<open>Contacts\<close>

definition own_row :: "string \<Rightarrow> contact \<Rightarrow> world \<Rightarrow> bool" where
  "own_row v c w \<longleftrightarrow> c \<in> set (t_contacts (w_db w)) \<and> owns v (c_address_book_id c) w"

lemma stable_own_row [stability]: "stable (own_row v c)"
  by (simp add: stable_def own_row_def owns_def)

lemma writable_row:
  assumes "apart u F w" "own_row v c0 w" "c_id c = c_id c0" "card_key c = card_key c0"
  shows "writable v c w"
proof -
  have "inj_on c_id (set (t_contacts (w_db w)))" using assms(1) by (simp add: apart_def sound_world_def keys_ok_def tables_ok_def distinct_map)
  then show ?thesis using assms(2-4) by (auto simp: writable_def own_row_def owns_def keeps_key_def dest: inj_onD)
qed

lemma apart_save_parsed:
  "u \<noteq> v \<Longrightarrow> triple (\<lambda>w. apart u F w \<and> writable v c w) (save_parsed c p) (\<lambda>_. apart u F) (\<lambda>_. apart u F)"
  unfolding save_parsed_def
  by (rule triple_quietly) (auto intro!: stability effects frame apart_Save)

lemma apart_svc_book:
  "u \<noteq> v \<Longrightarrow> triple (apart u F) (svc_book v) (\<lambda>ab w. apart u F w \<and> owns v (ab_id ab) w) (\<lambda>_. apart u F)"
  unfolding svc_book_def by (rule triple_wrapErr) (rule apart_GetOrCreate)

lemma apart_mint:
  "triple (\<lambda>w. apart u F w \<and> owns v b w) mint
     (\<lambda>i w. apart u F w \<and> owns v b w \<and> i \<notin> c_id ` set (t_contacts (w_db w)) \<and> i \<in> w_uuid w ` {n. n < w_minted w}) E"
proof (rule tripleI)
  fix w i w' assume P: "apart u F w \<and> owns v b w" and run: "mint w = (Inr i, w')"
  have "apart u F w' \<and> owns v b w'"
    using triple_Inr [OF triple_stable [of "\<lambda>w. apart u F w \<and> owns v b w" mint] run P] by (simp add: stability effects frame)
  moreover have "i = w_uuid w (w_minted w)" "w' = w\<lparr>w_minted := Suc (w_minted w)\<rparr>" using run by (simp_all add: prog_simps)
  moreover have "w_uuid w (w_minted w) \<notin> c_id ` set (t_contacts (w_db w))" using P by (simp add: apart_def sound_world_def fresh_contacts_def)
  ultimately show "apart u F w' \<and> owns v b w' \<and> i \<notin> c_id ` set (t_contacts (w_db w')) \<and> i \<in> w_uuid w' ` {n. n < w_minted w'}" by simp
qed (simp add: prog_simps)

lemma writable_new:
  "owns v b w \<Longrightarrow> i \<notin> c_id ` set (t_contacts (w_db w)) \<Longrightarrow> i \<in> w_uuid w ` {n. n < w_minted w} \<Longrightarrow> writable v (new_contact L b k data t p i) w"
  by (auto simp: writable_def owns_def intro: keeps_key_new)

text \<open>The end of every creation.\<close>

lemma apart_store_new:
  assumes "u \<noteq> v" "\<And>i. triple (\<lambda>w. apart u F w \<and> writable v (new_contact L b k data t p i) w) (f i) Q E"
  shows "triple (\<lambda>w. apart u F w \<and> owns v b w) (andThen mint f) Q E"
  by (rule triple_andThen [OF apart_mint]) (rule triple_weaken [OF assms(2)], auto intro: writable_new)

lemma apart_CreateContact:
  assumes "u \<noteq> v"
  shows "triple (apart u F) (CreateContact L v input) (\<lambda>_. apart u F) (\<lambda>_. apart u F)"
  unfolding CreateContact_def Let_def
proof (rule triple_andThen [OF apart_svc_book [OF assms]], intro triple_quietly)
  fix ab uid0 t r
  show "triple (\<lambda>w. apart u F w \<and> owns v (ab_id ab) w) (case r of (uid, data, parsed) \<Rightarrow> andThen mint (\<lambda>i.
      andThen (wrapErr SvcDB (save_parsed (new_contact L (ab_id ab) uid data t parsed i) parsed)) (\<lambda>_. ret (new_contact L (ab_id ab) uid data t parsed i))))
    (\<lambda>_. apart u F) (\<lambda>_. apart u F)"
    by (cases r) (auto intro!: apart_store_new [OF assms] triple_andThen [OF triple_wrapped [OF apart_save_parsed [OF assms]]] triple_ret)
qed (auto intro: stability effects frame)

lemma own_row_of: "c \<in> set (t_contacts (w_db w)) \<Longrightarrow> owns v b w \<Longrightarrow> c_address_book_id c = b \<Longrightarrow> own_row v c w"
  by (simp add: own_row_def)

lemma apart_GetByID:
  "triple (\<lambda>w. apart u F w \<and> owns v b w) (GetByID i)
     (\<lambda>found w. apart u F w \<and> (\<forall>c. found = Some c \<longrightarrow> c_id c = i \<and> (c_address_book_id c = b \<longrightarrow> own_row v c w))) (\<lambda>_. apart u F)"
  unfolding GetByID_def
  by (rule triple_post [OF triple_read]) (auto intro!: stability own_row_of dest!: select_one_Some)

lemma apart_own_contact:
  "triple (\<lambda>w. apart u F w \<and> owns v (ab_id ab) w) (own_contact ab i) (\<lambda>c w. apart u F w \<and> own_row v c w) (\<lambda>_. apart u F)"
  unfolding own_contact_def
  by (rule triple_andThen [OF triple_wrapped [OF apart_GetByID]]) (auto intro!: triple_ret triple_throw split: option.split)

text \<open>Writing a row again.\<close>

lemma apart_store_row:
  assumes "u \<noteq> v" "c_id c = c_id c0" "card_key c = card_key c0"
  shows "triple (\<lambda>w. apart u F w \<and> own_row v c0 w) (save_parsed c p) (\<lambda>_. apart u F) (\<lambda>_. apart u F)"
  using writable_row [OF _ _ assms(2,3)] by (intro triple_weaken [OF apart_save_parsed [OF assms(1)]]) blast

lemma apart_UpdateContact:
  assumes "u \<noteq> v"
  shows "triple (apart u F) (UpdateContact L v i input) (\<lambda>_. apart u F) (\<lambda>_. apart u F)"
  unfolding UpdateContact_def Let_def
proof (rule triple_andThen [OF apart_svc_book [OF assms]], rule triple_andThen [OF apart_own_contact])
  fix ab c0
  show "triple (\<lambda>w. apart u F w \<and> own_row v c0 w) (andThen (of_result (updated_card L c0 input)) (\<lambda>(data, parsed). andThen now (\<lambda>t.
      andThen (wrapErr SvcDB (save_parsed ((ApplyToContact (c0\<lparr>c_vcard_data := data\<rparr>) parsed)\<lparr>c_etag := ContactETag L data, c_updated_at := t\<rparr>) parsed))
        (\<lambda>_. ret ((ApplyToContact (c0\<lparr>c_vcard_data := data\<rparr>) parsed)\<lparr>c_etag := ContactETag L data, c_updated_at := t\<rparr>)))))
    (\<lambda>_. apart u F) (\<lambda>_. apart u F)"
    by (rule triple_quietly)
      (auto intro!: triple_quietly [OF _ readonly_basic(3) steady_basic(3)] triple_wrapped_ret apart_store_row assms stability effects frame split: prod.split)
qed

lemma apart_delete_row:
  assumes "u \<noteq> v"
  shows "triple (\<lambda>w. apart u F w \<and> own_row v c w) (Delete (c_id c)) (\<lambda>_. apart u F) (\<lambda>_. apart u F)"
proof -
  have "owns v (c_address_book_id x) w" if "apart u F w" "own_row v c w" "x \<in> set (t_contacts (w_db w))" "c_id x = c_id c" for x w
  proof -
    have "inj_on c_id (set (t_contacts (w_db w)))" using that(1) by (simp add: apart_def sound_world_def keys_ok_def tables_ok_def distinct_map)
    with that show ?thesis by (auto simp: own_row_def dest: inj_onD)
  qed
  then show ?thesis by (intro triple_weaken [OF apart_Delete [OF assms]]) auto
qed

lemma apart_DeleteContact:
  assumes "u \<noteq> v"
  shows "triple (apart u F) (DeleteContact v i) (\<lambda>_. apart u F) (\<lambda>_. apart u F)"
  unfolding DeleteContact_def
  by (rule triple_andThen [OF apart_svc_book [OF assms]], rule triple_andThen [OF apart_own_contact], rule triple_wrapErr, rule apart_delete_row [OF assms])

lemma apart_bulk:
  assumes "u \<noteq> v"
  shows "triple (apart u F) (DeleteManyContacts v ids) (\<lambda>_. apart u F) (\<lambda>_. apart u F)"
    "triple (apart u F) (DeleteAllContacts v) (\<lambda>_. apart u F) (\<lambda>_. apart u F)"
  unfolding DeleteManyContacts_def DeleteAllContacts_def
  by (auto intro!: triple_throw triple_andThen [OF apart_svc_book [OF assms]] triple_wrapErr apart_DeleteMany apart_DeleteAll assms)

subsection \<open>Imports\<close>

lemma readonly_ctx [effects]: "readonly (wrapErr h ctx_err)" and steady_ctx [frame]: "steady (wrapErr h ctx_err)"
  by (simp_all add: effects frame)

text \<open>A loop iteration stays in the book: its precondition is there for the next one.\<close>

definition in_my_book :: "string \<Rightarrow> tenant_data \<Rightarrow> string \<Rightarrow> string \<Rightarrow> world \<Rightarrow> bool" where
  "in_my_book u F v b w \<longleftrightarrow> apart u F w \<and> owns v b w"

lemma save_keeps_owner: "triple (owns v b) (save_parsed c p) (\<lambda>_. owns v b) (\<lambda>_. owns v b)"
proof -
  have "preserves (\<lambda>d. b \<in> my_books v d) (Save c cs)" for cs
    unfolding preserves_def
  proof (intro allI impI)
    fix w :: world assume b: "b \<in> my_books v (w_db w)"
    obtain r w' where run: "Save c cs w = (r, w')" by fastforce
    have "w_db w' = w_db w \<or> (\<exists>cs'. w_db w' = saved c cs' (w_db w))"
      using run Save_commit [of c cs w w'] Save_rollback [of c cs w _ w'] by (cases r) auto
    then show "b \<in> my_books v (w_db (snd (Save c cs w)))" using b run by (auto simp: my_books_saved)
  qed
  then have "preserves (\<lambda>d. b \<in> my_books v d) (save_parsed c p)"
    unfolding save_parsed_def by (intro preserves_andThen preserves_readonly [OF readonly_ChildRecordsFor])
  then show ?thesis unfolding preserves_triple owns_def by simp
qed

lemma import_saved:
  assumes "triple (\<lambda>w. apart u F w \<and> P w) (save_parsed c p) (\<lambda>_. apart u F) (\<lambda>_. apart u F)"
  shows "triple (\<lambda>w. in_my_book u F v b w \<and> P w) (import_save c p r) (\<lambda>_. in_my_book u F v b) (\<lambda>_. apart u F)"
proof -
  have "triple (\<lambda>w. in_my_book u F v b w \<and> P w) (attempt (save_parsed c p)) (\<lambda>_. in_my_book u F v b) (\<lambda>_. apart u F)"
    by (rule triple_attempt, rule triple_conseq [OF triple_conj [OF assms save_keeps_owner [of v b]]])
      (auto simp: in_my_book_def)
  then show ?thesis unfolding import_save_def by (rule triple_andThen) (rule triple_ret)
qed

lemma stable_in_my_book [stability]: "stable (in_my_book u F v b)"
  using stable_conj [OF stable_apart [of u F] stable_owns [of v b]] by (simp add: in_my_book_def [abs_def])

lemma in_my_bookD: "in_my_book u F v b w \<Longrightarrow> apart u F w"
  by (simp add: in_my_book_def)

lemma import_new:
  assumes "u \<noteq> v"
  shows "triple (in_my_book u F v b) (andThen mint (\<lambda>i. import_save (new_contact L b k data t p i) p r)) (\<lambda>_. in_my_book u F v b) (\<lambda>_. apart u F)"
proof (rule triple_andThen [OF triple_weaken [OF apart_mint [of u F v b]]])
  fix i
  show "triple (\<lambda>w. apart u F w \<and> owns v b w \<and> i \<notin> c_id ` set (t_contacts (w_db w)) \<and> i \<in> w_uuid w ` {n. n < w_minted w})
      (import_save (new_contact L b k data t p i) p r) (\<lambda>_. in_my_book u F v b) (\<lambda>_. apart u F)"
    by (rule triple_weaken [OF import_saved [OF apart_save_parsed [OF assms]]]) (auto simp: in_my_book_def intro: writable_new)
qed (simp add: in_my_book_def)

lemma apart_GetByUID:
  "triple (in_my_book u F v b) (GetByUID b k) (\<lambda>found w. in_my_book u F v b w \<and> (\<forall>c. found = Some c \<longrightarrow> own_row v c w)) (\<lambda>_. in_my_book u F v b)"
proof (rule tripleI)
  note keep = triple_stable [OF stable_in_my_book [of u F v b] readonly_GetByUID(1) [of b k] steady_repo(2) [of b k]]
  fix w found w' assume P: "in_my_book u F v b w" and run: "GetByUID b k w = (Inr found, w')"
  have q: "found = select_one (\<lambda>c. in_book b c \<and> c_uid c = k) (t_contacts (w_db w'))"
    using run query_Inr_db unfolding GetByUID_def by (metis (no_types, lifting))
  have "in_my_book u F v b w'" using triple_Inr [OF keep run P] .
  then show "in_my_book u F v b w' \<and> (\<forall>c. found = Some c \<longrightarrow> own_row v c w')"
    using q by (auto simp: in_my_book_def own_row_def in_book_def dest!: select_one_Some)
next
  note keep = triple_stable [OF stable_in_my_book [of u F v b] readonly_GetByUID(1) [of b k] steady_repo(2) [of b k]]
  fix w e w' assume P: "in_my_book u F v b w" and run: "GetByUID b k w = (Inl e, w')"
  show "in_my_book u F v b w'" using triple_Inl [OF keep run P] .
qed

lemma import_card_apart:
  assumes "u \<noteq> v"
  shows "triple (in_my_book u F v b) (import_card L b vc r) (\<lambda>_. in_my_book u F v b) (\<lambda>_. apart u F)"
proof -
  have stored: "triple (in_my_book u F v b) (andThen (attempt (GetByUID b k)) (\<lambda>found. case found of
      Inl _ \<Rightarrow> ret (import_failed r)
    | Inr None \<Rightarrow> andThen now (\<lambda>t. andThen mint (\<lambda>i. import_save (new_contact L b k data t p i) p r))
    | Inr (Some c) \<Rightarrow> andThen now (\<lambda>t. import_save ((ApplyToContact (c\<lparr>c_vcard_data := data, c_etag := ContactETag L data\<rparr>) p)\<lparr>c_updated_at := t\<rparr>) p r)))
    (\<lambda>_. in_my_book u F v b) (\<lambda>_. apart u F)" for k data p
  proof (rule triple_andThen [OF triple_attempt [where Q = "\<lambda>q. case q of Inl _ \<Rightarrow> in_my_book u F v b
        | Inr found \<Rightarrow> \<lambda>w. in_my_book u F v b w \<and> (\<forall>c. found = Some c \<longrightarrow> own_row v c w)"]])
    have again: "triple (\<lambda>w. in_my_book u F v b w \<and> own_row v c w)
        (import_save ((ApplyToContact (c\<lparr>c_vcard_data := data, c_etag := ContactETag L data\<rparr>) p)\<lparr>c_updated_at := t\<rparr>) p r)
        (\<lambda>_. in_my_book u F v b) (\<lambda>_. apart u F)" for c t
      by (intro import_saved apart_store_row assms) simp_all
    show "triple (case q of Inl _ \<Rightarrow> in_my_book u F v b | Inr found \<Rightarrow> \<lambda>w. in_my_book u F v b w \<and> (\<forall>c. found = Some c \<longrightarrow> own_row v c w))
        (case q of Inl _ \<Rightarrow> ret (import_failed r)
          | Inr None \<Rightarrow> andThen now (\<lambda>t. andThen mint (\<lambda>i. import_save (new_contact L b k data t p i) p r))
          | Inr (Some c) \<Rightarrow> andThen now (\<lambda>t. import_save ((ApplyToContact (c\<lparr>c_vcard_data := data, c_etag := ContactETag L data\<rparr>) p)\<lparr>c_updated_at := t\<rparr>) p r))
        (\<lambda>_. in_my_book u F v b) (\<lambda>_. apart u F)" for q
      by (auto split: sum.split option.split intro!: triple_ret triple_quietly [OF _ readonly_basic(3) steady_basic(3)] stability
          import_new [OF assms] again dest: in_my_bookD)
  qed (simp add: apart_GetByUID)
  show ?thesis
    unfolding import_card_def Let_def
    by (auto intro!: triple_quietly [OF stable_in_my_book readonly_ctx steady_ctx] triple_quietly [OF stable_in_my_book readonly_identified steady_identified]
        triple_ret stored split: sum.split prod.split dest: in_my_bookD)
qed

lemma import_row_apart:
  assumes "u \<noteq> v"
  shows "triple (in_my_book u F v b) (import_row L b cols rw r) (\<lambda>_. in_my_book u F v b) (\<lambda>_. apart u F)"
  unfolding import_row_def Let_def
  by (auto intro!: triple_quietly [OF stable_in_my_book readonly_ctx steady_ctx] triple_quietly [OF stable_in_my_book readonly_basic(3) steady_basic(3)]
      triple_quietly [OF stable_in_my_book readonly_basic(4) steady_basic(4)] triple_ret import_new [OF assms] split: sum.split option.split dest: in_my_bookD)

lemma apart_Import:
  assumes "u \<noteq> v"
  shows "triple (apart u F) (ImportVCard L v data) (\<lambda>_. apart u F) (\<lambda>_. apart u F)"
    "triple (apart u F) (ImportCSV L v records) (\<lambda>_. apart u F) (\<lambda>_. apart u F)"
proof -
  note book = apart_svc_book [OF assms, of F, folded in_my_book_def]
  show "triple (apart u F) (ImportVCard L v data) (\<lambda>_. apart u F) (\<lambda>_. apart u F)"
    unfolding ImportVCard_def
    by (rule triple_andThen [OF book], rule triple_post [OF triple_loop [OF import_card_apart [OF assms]]]) (rule in_my_bookD)
  have rows: "triple (in_my_book u F v b) (andThen (forEach (import_row L b cols) rows nothing_imported) (\<lambda>r. andThen (wrapErr SvcDB ctx_err) (\<lambda>_. ret r)))
      (\<lambda>_. apart u F) (\<lambda>_. apart u F)" for b cols rows
    by (rule triple_andThen [OF triple_loop [OF import_row_apart [OF assms]]])
      (auto intro!: triple_quietly [OF stable_in_my_book readonly_ctx steady_ctx] triple_ret dest: in_my_bookD)
  show "triple (apart u F) (ImportCSV L v records) (\<lambda>_. apart u F) (\<lambda>_. apart u F)"
    unfolding ImportCSV_def
    by (rule triple_andThen [OF book]) (auto intro!: triple_throw rows dest: in_my_bookD split: list.split option.split)
qed

subsection \<open>CardDAV\<close>

lemma apart_user_book:
  "triple (apart u F) (user_book v) (\<lambda>found w. apart u F w \<and> (\<forall>ab. found = Some ab \<longrightarrow> owns v (ab_id ab) w)) (\<lambda>_. apart u F)"
  unfolding user_book_def by (auto intro: triple_throw triple_wrapped apart_GetByUserID)

lemma apart_required_book: "triple (apart u F) (required_book v) (\<lambda>ab. in_my_book u F v (ab_id ab)) (\<lambda>_. apart u F)"
  unfolding required_book_def
  by (rule triple_andThen [OF apart_user_book]) (auto intro!: triple_ret triple_throw simp: in_my_book_def split: option.split)

lemma apart_lookup:
  "triple (in_my_book u F v b) (wrapErr h (GetByUID b k)) (\<lambda>found w. in_my_book u F v b w \<and> (\<forall>c. found = Some c \<longrightarrow> own_row v c w)) (\<lambda>_. apart u F)"
  by (rule triple_wrapped, rule triple_conseq [OF apart_GetByUID]) (auto dest: in_my_bookD)

lemma apart_find_object:
  "triple (apart u F) (find_object v path) (\<lambda>c w. apart u F w \<and> own_row v c w) (\<lambda>_. apart u F)"
  unfolding find_object_def Let_def
proof (rule triple_andThen [OF apart_required_book])
  fix ab
  have found: "triple (\<lambda>w. in_my_book u F v b w \<and> (\<forall>c. found = Some c \<longrightarrow> own_row v c w)) (case found of None \<Rightarrow> throw ContactNotFound | Some c \<Rightarrow> ret c)
      (\<lambda>c w. apart u F w \<and> own_row v c w) (\<lambda>_. apart u F)" for found b
    by (cases found) (auto intro!: triple_ret triple_throw dest: in_my_bookD)
  show "triple (in_my_book u F v (ab_id ab)) (if extractUIDFromPath path = [] then throw InvalidPath
      else andThen (wrapErr Repo (GetByUID (ab_id ab) (extractUIDFromPath path))) (\<lambda>c. case c of None \<Rightarrow> throw ContactNotFound | Some c \<Rightarrow> ret c))
    (\<lambda>c w. apart u F w \<and> own_row v c w) (\<lambda>_. apart u F)"
    using triple_andThen [OF apart_lookup found] by (auto intro!: triple_throw dest: in_my_bookD)
qed

lemma apart_DeleteAddressObject:
  assumes "u \<noteq> v"
  shows "triple (apart u F) (DeleteAddressObject v path) (\<lambda>_. apart u F) (\<lambda>_. apart u F)"
  unfolding DeleteAddressObject_def
  by (rule triple_andThen [OF apart_find_object], rule triple_wrapErr, rule apart_delete_row [OF assms])

lemma writable_same: "writable v c0 w \<Longrightarrow> c_id c = c_id c0 \<Longrightarrow> card_key c = card_key c0 \<Longrightarrow> writable v c w"
  by (auto simp: writable_def keeps_key_def)

lemma apart_put_contact:
  "triple (\<lambda>w. in_my_book u F v b w \<and> (\<forall>c. existing = Some c \<longrightarrow> own_row v c w)) (put_contact b k t existing)
     (\<lambda>c w. apart u F w \<and> writable v c w) (\<lambda>_. apart u F)"
proof (cases existing)
  case None
  have "triple (\<lambda>w. apart u F w \<and> owns v b w) (andThen mint (\<lambda>i. ret (blank_contact\<lparr>c_id := i, c_address_book_id := b, c_uid := k, c_created_at := t\<rparr>)))
      (\<lambda>c w. apart u F w \<and> writable v c w) (\<lambda>_. apart u F)"
    by (rule triple_andThen [OF apart_mint], rule triple_ret) (auto simp: writable_def owns_def intro!: keeps_key_new)
  then show ?thesis unfolding None put_contact_def by (auto simp: in_my_book_def elim!: triple_weaken)
next
  case (Some c)
  then show ?thesis unfolding put_contact_def by (auto simp: in_my_book_def intro!: triple_ret intro: writable_row)
qed

lemma apart_store_object:
  assumes "u \<noteq> v"
  shows "triple (in_my_book u F v b) (store_object L W path vc opts b k data) (\<lambda>_. apart u F) (\<lambda>_. apart u F)"
proof -
  have save: "triple (\<lambda>w. apart u F w \<and> writable v c0 w) (andThen (ChildRecordsFor (c_id c0) p) (\<lambda>cs. andThen (wrapErr Repo (Save c cs)) (\<lambda>_. ret x)))
      (\<lambda>_. apart u F) (\<lambda>_. apart u F)" if "c_id c = c_id c0" "card_key c = card_key c0" for c0 c p x
  proof (rule triple_weaken [where P' = "\<lambda>w. apart u F w \<and> writable v c w"])
    have "stable (\<lambda>w. apart u F w \<and> writable v c w)" by (intro stability)
    then show "triple (\<lambda>w. apart u F w \<and> writable v c w) (andThen (ChildRecordsFor (c_id c0) p) (\<lambda>cs. andThen (wrapErr Repo (Save c cs)) (\<lambda>_. ret x)))
        (\<lambda>_. apart u F) (\<lambda>_. apart u F)"
      by (rule triple_quietly [OF _ readonly_ChildRecordsFor]) (auto intro!: frame triple_wrapped_ret apart_Save assms)
  qed (use that in \<open>blast intro: writable_same\<close>)
  have found: "triple (\<lambda>w. in_my_book u F v b w \<and> (\<forall>c. existing = Some c \<longrightarrow> own_row v c w)) (case checkPreconditions W opts existing of Some e \<Rightarrow> throw e
    | None \<Rightarrow> andThen (put_contact b k t existing) (\<lambda>c0. andThen (ChildRecordsFor (c_id c0) p) (\<lambda>cs.
        andThen (wrapErr Repo (Save (ApplyToContact (c0\<lparr>c_vcard_data := data, c_etag := tag, c_updated_at := t\<rparr>) p) cs)) (\<lambda>_. ret x))))
    (\<lambda>_. apart u F) (\<lambda>_. apart u F)" for existing t p tag x
    by (cases "checkPreconditions W opts existing")
      (auto simp: triple_andThen [OF apart_put_contact save] intro!: triple_throw dest: in_my_bookD)
  show ?thesis
    unfolding store_object_def Let_def
    by (rule triple_quietly [OF stable_in_my_book readonly_basic(3) steady_basic(3) in_my_bookD triple_andThen [OF apart_lookup found]])
qed

lemma apart_put_uid: "triple (in_my_book u F v b) (put_uid L path vc) (\<lambda>_. in_my_book u F v b) E"
proof -
  have "triple (in_my_book u F v b) mint (\<lambda>_. in_my_book u F v b) E"
    unfolding in_my_book_def [abs_def] by (rule triple_post [OF apart_mint]) simp
  then show ?thesis unfolding put_uid_def by (auto intro!: triple_ret simp: Let_def split: option.split)
qed

lemma apart_PutAddressObject:
  assumes "u \<noteq> v"
  shows "triple (apart u F) (PutAddressObject L W B v path vc opts) (\<lambda>_. apart u F) (\<lambda>_. apart u F)"
  unfolding PutAddressObject_def
  by (rule triple_andThen [OF apart_required_book], rule triple_andThen [OF apart_put_uid])
    (auto intro!: triple_throw apart_store_object [OF assms] dest: in_my_bookD split: option.split)

subsection \<open>Merges\<close>

definition own_pair :: "string \<Rightarrow> contact \<Rightarrow> contact \<Rightarrow> db \<Rightarrow> bool" where
  "own_pair v a b d \<longleftrightarrow> {a, b} \<subseteq> set (t_contacts d) \<and> c_address_book_id a \<in> my_books v d \<and> c_address_book_id b \<in> my_books v d \<and> c_id a \<noteq> c_id b"

lemma own_pair_frame:
  "own_pair v a b (d\<lparr>t_duplicates := x\<rparr>) = own_pair v a b d" "own_pair v a b (d\<lparr>t_merge_log := y\<rparr>) = own_pair v a b d"
  by (simp_all add: own_pair_def my_books_def books_of_def)

lemma apart_recordMerge:
  assumes "u \<noteq> v"
  shows "triple (\<lambda>w. apart u F w \<and> own_pair v a b (w_db w)) (recordMerge L marshal logged v x l input)
     (\<lambda>_ w. apart u F w \<and> own_pair v a b (w_db w)) (\<lambda>_. apart u F)"
  unfolding recordMerge_def
  by (auto intro!: triple_ret triple_quietly stability effects frame triple_ignore
      apart_CreateLogEntry [where I = "own_pair v a b", OF assms] simp: own_pair_frame)

lemma apart_clearSyncState:
  assumes "u \<noteq> v"
  shows "triple (apart u F) (clearSyncState v i) (\<lambda>_. apart u F) (\<lambda>_. apart u F)"
proof -
  let ?P = "\<lambda>states w. apart u F w \<and> (\<forall>st \<in> set states. states_owned v (ss_id st) (w_db w))"
  have listed: "?P states w" if "apart u F w" "states = filter (\<lambda>s. ss_user_id s = v) (t_sync_states (w_db w))" for states w
  proof -
    have "inj_on ss_id (set (t_sync_states (w_db w)))" using that(1) by (simp add: apart_def sound_world_def keys_ok_def distinct_map)
    with that show ?thesis by (auto simp: states_owned_def dest: inj_onD)
  qed
  have one: "triple (?P states) (clear_state i st x) (\<lambda>_. ?P states) (\<lambda>_. apart u F)" if "st \<in> set states" for states st x
    unfolding clear_state_def using that by (auto intro!: triple_ret triple_ignore apart_DeleteState assms)
  have loop: "triple (?P states) (forEach (clear_state i) sts x) (\<lambda>_. ?P states) (\<lambda>_. apart u F)" if "set sts \<subseteq> set states" for states sts x
    using that by (induction sts arbitrary: x) (auto intro!: triple_ret triple_andThen [OF one])
  show ?thesis
    unfolding clearSyncState_def
  proof (rule triple_andThen [OF triple_attempt [where Q = "\<lambda>q. case q of Inl _ \<Rightarrow> apart u F | Inr states \<Rightarrow> ?P states"]])
    show "triple (apart u F) (ListAllByUser v) (\<lambda>x. case Inr x of Inl _ \<Rightarrow> apart u F | Inr states \<Rightarrow> ?P states)
        (\<lambda>e. case Inl e of Inl _ \<Rightarrow> apart u F | Inr states \<Rightarrow> ?P states)"
      unfolding ListAllByUser_def by (simp, rule triple_post [OF triple_read [OF stable_apart]]) (use listed in blast)+
    show "triple (case q of Inl _ \<Rightarrow> apart u F | Inr states \<Rightarrow> ?P states) (case q of Inl _ \<Rightarrow> ret () | Inr states \<Rightarrow> forEach (clear_state i) states ())
        (\<lambda>_. apart u F) (\<lambda>_. apart u F)" for q
    proof (cases q)
      case (Inr states)
      show ?thesis unfolding Inr sum.case by (rule triple_post [OF loop [OF subset_refl]]) simp
    qed (simp add: triple_ret)
  qed
qed

lemma apart_merge_contact:
  "triple (\<lambda>w. (apart u F w \<and> owns v (ab_id ab) w) \<and> P (w_db w)) (merge_contact ab i)
     (\<lambda>c w. ((apart u F w \<and> owns v (ab_id ab) w) \<and> P (w_db w)) \<and> own_row v c w \<and> c_id c = i) (\<lambda>_. apart u F)"
proof -
  let ?A = "\<lambda>w. (apart u F w \<and> owns v (ab_id ab) w) \<and> P (w_db w)"
  have st: "stable ?A" by (intro stability)
  have get: "triple ?A (GetByID i) (\<lambda>found w. ?A w \<and> (\<forall>c. found = Some c \<longrightarrow> c_id c = i \<and> (c_address_book_id c = ab_id ab \<longrightarrow> own_row v c w))) (\<lambda>_. apart u F)"
    unfolding GetByID_def
    by (rule triple_post [OF triple_read [OF st]]) (auto intro!: own_row_of dest!: select_one_Some)
  show ?thesis
    unfolding merge_contact_def
    by (rule triple_andThen [OF triple_attempt [where Q = "\<lambda>q. case q of Inl _ \<Rightarrow> apart u F
        | Inr found \<Rightarrow> \<lambda>w. ?A w \<and> (\<forall>c. found = Some c \<longrightarrow> c_id c = i \<and> (c_address_book_id c = ab_id ab \<longrightarrow> own_row v c w))"]])
      (use get in \<open>auto intro!: triple_ret triple_throw split: sum.split option.split\<close>)
qed

lemma apart_merge_pair:
  assumes "u \<noteq> v" "c_id c = c_id a" "card_key c = card_key a"
  shows "triple (\<lambda>w. apart u F w \<and> own_pair v a b (w_db w)) (MergeInto c cs (c_id b)) (\<lambda>_. apart u F) (\<lambda>_. apart u F)"
proof (rule triple_weaken [OF apart_MergeInto [OF assms(1)]])
  fix w assume P: "apart u F w \<and> own_pair v a b (w_db w)"
  have inj: "inj_on c_id (set (t_contacts (w_db w)))" using P by (simp add: apart_def sound_world_def keys_ok_def tables_ok_def distinct_map)
  have same: "x = a \<or> c_id x \<noteq> c_id a" "x = b \<or> c_id x \<noteq> c_id b" if "x \<in> set (t_contacts (w_db w))" for x
    using that P inj_onD [OF inj] by (auto simp: own_pair_def)
  have "keeps_key c (w_db w)" using same(1) assms(2,3) by (fastforce simp: keeps_key_def)
  moreover have "\<forall>l \<in> set (t_contacts (w_db w)). c_id l = c_id b \<longrightarrow> owns v (c_address_book_id l) w"
    using same(2) P by (fastforce simp: own_pair_def owns_def)
  ultimately show "apart u F w \<and> owns v (c_address_book_id c) w \<and> keeps_key c (w_db w) \<and> c_id c \<in> c_id ` set (t_contacts (w_db w)) \<and> c_id b \<noteq> c_id c
      \<and> (\<forall>l \<in> set (t_contacts (w_db w)). c_id l = c_id b \<longrightarrow> owns v (c_address_book_id l) w)"
    using P assms(2,3) by (auto simp: own_pair_def owns_def)
qed

lemma apart_attempt_DeleteByContact:
  assumes "\<And>d f. I (d\<lparr>t_duplicates := f\<rparr>) = I d"
  shows "triple (\<lambda>w. apart u F w \<and> I (w_db w)) (attempt (DeleteByContact i)) (\<lambda>_ w. apart u F w \<and> I (w_db w)) (\<lambda>_. apart u F)"
  by (rule triple_attempt) (rule apart_DeleteByContact [OF assms])

text \<open>From the log entry on.\<close>

lemma apart_merge_rest:
  assumes "u \<noteq> v" "c_id c = c_id a" "card_key c = card_key a"
  shows "triple (\<lambda>w. apart u F w \<and> own_pair v a b (w_db w)) (andThen (recordMerge L marshal logged v c b input) (\<lambda>_.
     andThen (attempt (DeleteByContact (c_id b))) (\<lambda>_. andThen (ChildRecordsFor (c_id c) p) (\<lambda>children.
     andThen (wrapErr MsDB (MergeInto c children (c_id b))) (\<lambda>_. andThen (clearSyncState v (c_id b)) (\<lambda>_.
     andThen (attempt (DeleteByContact (c_id c))) (\<lambda>_. ret c)))))))
     (\<lambda>_. apart u F) (\<lambda>_. apart u F)"
proof (rule triple_andThen [OF apart_recordMerge [OF assms(1)]],
    rule triple_andThen [OF apart_attempt_DeleteByContact [OF own_pair_frame(1)]], rule triple_quietly)
  fix children
  show "triple (\<lambda>w. apart u F w \<and> own_pair v a b (w_db w)) (andThen (wrapErr MsDB (MergeInto c children (c_id b))) (\<lambda>_. andThen (clearSyncState v (c_id b)) (\<lambda>_.
     andThen (attempt (DeleteByContact (c_id c))) (\<lambda>_. ret c)))) (\<lambda>_. apart u F) (\<lambda>_. apart u F)"
  proof (rule triple_andThen [OF triple_wrapped [OF apart_merge_pair [OF assms]]], rule triple_andThen [OF apart_clearSyncState [OF assms(1)]])
    show "triple (apart u F) (andThen (attempt (DeleteByContact (c_id c))) (\<lambda>_. ret c)) (\<lambda>_. apart u F) (\<lambda>_. apart u F)"
      using apart_DeleteByContact [where I = "\<lambda>_. True", of u F "c_id c"] by (intro triple_ignore) simp
  qed
qed (auto intro: stability effects frame)

lemma apart_Merge:
  assumes "u \<noteq> v"
  shows "triple (apart u F) (Merge L marshal logged v input) (\<lambda>_. apart u F) (\<lambda>_. apart u F)"
proof (cases "mi_winner_id input = mi_loser_id input")
  case True
  then show ?thesis by (simp add: Merge_def triple_throw)
next
  case False
  let ?own = "\<lambda>ab w. apart u F w \<and> owns v (ab_id ab) w"
  note mr = apart_merge_rest [OF assms, of "merged_contact L t a data p" a for t data p a, simplified]
  have rest: "triple (\<lambda>w. apart u F w \<and> own_pair v a b (w_db w)) (andThen (of_result (mergedCard L a b input)) (\<lambda>data. case ParseVCard L data of
        Inl e \<Rightarrow> throw (MsParse e) | Inr parsed \<Rightarrow> andThen now (\<lambda>t. andThen (recordMerge L marshal logged v (merged_contact L t a data parsed) b input) (\<lambda>_.
     andThen (attempt (DeleteByContact (c_id b))) (\<lambda>_. andThen (ChildRecordsFor (c_id (merged_contact L t a data parsed)) parsed) (\<lambda>children.
     andThen (wrapErr MsDB (MergeInto (merged_contact L t a data parsed) children (c_id b))) (\<lambda>_. andThen (clearSyncState v (c_id b)) (\<lambda>_.
     andThen (attempt (DeleteByContact (c_id (merged_contact L t a data parsed)))) (\<lambda>_. ret (merged_contact L t a data parsed))))))))))
     (\<lambda>_. apart u F) (\<lambda>_. apart u F)" for a b
    by (rule triple_quietly)
      (auto intro!: triple_throw triple_quietly [OF _ readonly_basic(3) steady_basic(3)] mr stability effects frame
        split: sum.split)
  have pair: "triple (\<lambda>w. (?own ab w \<and> (a \<in> set (t_contacts (w_db w)) \<and> c_address_book_id a \<in> my_books v (w_db w) \<and> c_id a = mi_winner_id input))
        \<and> own_row v b w \<and> c_id b = mi_loser_id input) m (\<lambda>_. apart u F) (\<lambda>_. apart u F)"
    if "triple (\<lambda>w. apart u F w \<and> own_pair v a b (w_db w)) m (\<lambda>_. apart u F) (\<lambda>_. apart u F)"
    for ab a b and m :: "(merge_service_error, contact) prog"
    by (rule triple_weaken [OF that]) (use False in \<open>auto simp: own_pair_def own_row_def owns_def\<close>)
  have second: "triple (\<lambda>w. (?own ab w \<and> True) \<and> own_row v a w \<and> c_id a = mi_winner_id input) (andThen (merge_contact ab (mi_loser_id input)) f)
      (\<lambda>_. apart u F) (\<lambda>_. apart u F)"
    if "\<And>b. triple (\<lambda>w. apart u F w \<and> own_pair v a b (w_db w)) (f b) (\<lambda>_. apart u F) (\<lambda>_. apart u F)" for ab a and f :: "contact \<Rightarrow> (merge_service_error, contact) prog"
  proof (rule triple_andThen)
    show "triple (\<lambda>w. (?own ab w \<and> True) \<and> own_row v a w \<and> c_id a = mi_winner_id input) (merge_contact ab (mi_loser_id input))
        (\<lambda>b w. (?own ab w \<and> (a \<in> set (t_contacts (w_db w)) \<and> c_address_book_id a \<in> my_books v (w_db w) \<and> c_id a = mi_winner_id input))
          \<and> own_row v b w \<and> c_id b = mi_loser_id input) (\<lambda>_. apart u F)"
      by (rule triple_weaken [OF apart_merge_contact]) (auto simp: own_row_def owns_def)
  qed (rule pair, rule that)
  have first: "triple (?own ab) (andThen (merge_contact ab (mi_winner_id input)) (\<lambda>a. andThen (merge_contact ab (mi_loser_id input)) (f a)))
      (\<lambda>_. apart u F) (\<lambda>_. apart u F)"
    if "\<And>a b. triple (\<lambda>w. apart u F w \<and> own_pair v a b (w_db w)) (f a b) (\<lambda>_. apart u F) (\<lambda>_. apart u F)"
    for ab and f :: "contact \<Rightarrow> contact \<Rightarrow> (merge_service_error, contact) prog"
  proof (rule triple_andThen)
    show "triple (?own ab) (merge_contact ab (mi_winner_id input)) (\<lambda>a w. (?own ab w \<and> True) \<and> own_row v a w \<and> c_id a = mi_winner_id input)
        (\<lambda>_. apart u F)" by (rule triple_weaken [OF apart_merge_contact [where P = "\<lambda>_. True"]]) simp
  qed (rule second, rule that)
  show ?thesis
    unfolding Merge_def Let_def using False
    by (auto intro!: triple_andThen [OF triple_wrapped [OF apart_GetOrCreate [OF assms]]]
        triple_quietly [OF _ readonly_verify steady_verify] first rest intro: stability)
qed

subsection \<open>Conflicts\<close>

lemma apart_load_conflict:
  "triple (apart u F) (load_conflict v i) (\<lambda>c w. apart u F w \<and> conflicts_owned v (sc_id c) (w_db w) \<and> sc_user_id c = v) (\<lambda>_. apart u F)"
proof -
  have owner: "conflicts_owned (sc_user_id c) (sc_id c) d" if "keys_ok d" "c \<in> set (t_conflicts d)" for c d
  proof -
    have "inj_on sc_id (set (t_conflicts d))" using that(1) by (simp add: keys_ok_def distinct_map)
    with that show ?thesis by (auto simp: conflicts_owned_def dest: inj_onD)
  qed
  have "triple (\<lambda>w. apart u F w \<and> True) (GetConflict i) (\<lambda>c w. apart u F w \<and> (sc_user_id c = v \<longrightarrow> conflicts_owned v (sc_id c) (w_db w)))
      (\<lambda>_ w. apart u F w \<and> True)"
    unfolding GetConflict_def
    by (rule triple_apart_stmt) (auto intro!: owner dest!: select_one_Some split: option.splits)
  then show ?thesis
    unfolding load_conflict_def
    by (intro triple_andThen [OF triple_attempt [where Q = "\<lambda>q. case q of Inl _ \<Rightarrow> apart u F
        | Inr c \<Rightarrow> \<lambda>w. apart u F w \<and> (sc_user_id c = v \<longrightarrow> conflicts_owned v (sc_id c) (w_db w))"]])
      (auto intro!: triple_ret triple_throw split: sum.split)
qed

lemma apart_Dismiss:
  assumes "u \<noteq> v"
  shows "triple (apart u F) (Dismiss v i) (\<lambda>_. apart u F) (\<lambda>_. apart u F)"
  unfolding Dismiss_def
proof (rule triple_andThen [OF apart_load_conflict], rule triple_quietly, intro stability, rule readonly_basic, rule steady_basic, blast)
  fix c t
  show "triple (\<lambda>w. apart u F w \<and> conflicts_owned v (sc_id c) (w_db w) \<and> sc_user_id c = v)
      (wrapErr CfDB (UpdateConflict (c\<lparr>sc_status := ''dismissed'', sc_resolved_at := Some t\<rparr>))) (\<lambda>_. apart u F) (\<lambda>_. apart u F)"
  proof (cases "sc_user_id c = v")
    case True
    then show ?thesis
      by (intro triple_wrapped triple_weaken [OF apart_UpdateConflict [OF assms]]) simp_all
  qed (simp add: triple_def)
qed

lemma conflicts_kept [hoare]:
  "preserves (conflicts_owned v i) (GetOrCreateByUserID k)" "preserves (conflicts_owned v i) (save_parsed c p)"
  "preserves (conflicts_owned v i) (UpdateState s)"
proof -
  show "preserves (conflicts_owned v i) (GetOrCreateByUserID k)"
    unfolding GetOrCreateByUserID_def GetByUserID_def CreateBook_def Let_def
    by (intro hoare preserves_stmt) (auto simp: conflicts_owned_def split: if_splits sum.splits)
  show "preserves (conflicts_owned v i) (UpdateState s)"
    unfolding UpdateState_def by (rule preserves_stmt) (auto simp: conflicts_owned_def split: if_splits)
  have "preserves (conflicts_owned v i) (Save c cs)" for cs
    unfolding preserves_def
  proof (intro allI impI)
    fix w :: world assume I: "conflicts_owned v i (w_db w)"
    obtain r w' where run: "Save c cs w = (r, w')" by fastforce
    have "w_db w' = w_db w \<or> (\<exists>cs'. w_db w' = saved c cs' (w_db w))"
      using run Save_commit [of c cs w w'] Save_rollback [of c cs w _ w'] by (cases r) auto
    then show "conflicts_owned v i (w_db (snd (Save c cs w)))" using I run by (auto simp: conflicts_owned_def saved_def Let_def)
  qed
  then show "preserves (conflicts_owned v i) (save_parsed c p)"
    unfolding save_parsed_def by (intro preserves_andThen preserves_readonly [OF readonly_ChildRecordsFor])
qed

lemma apart_advance:
  assumes "u \<noteq> v"
  shows "triple (\<lambda>w. apart u F w \<and> conflicts_owned v i (w_db w)) (advanceSyncState L v c resolved)
     (\<lambda>_ w. apart u F w \<and> conflicts_owned v i (w_db w)) (\<lambda>_. apart u F)"
proof -
  have owner: "states_owned v (ss_id s) d" if "keys_ok d" "select_one (\<lambda>s. of_pipeline v p s \<and> ss_remote_id s = r) (t_sync_states d) = Some s" for s d p r
  proof -
    have "inj_on ss_id (set (t_sync_states d))" using that(1) by (simp add: keys_ok_def distinct_map)
    moreover have "s \<in> set (t_sync_states d)" "ss_user_id s = v" using select_one_Some [OF that(2)] by (simp_all add: of_pipeline_def)
    ultimately show ?thesis by (auto simp: states_owned_def dest: inj_onD)
  qed
  let ?A = "\<lambda>w. apart u F w \<and> conflicts_owned v i (w_db w)"
  have stA: "stable ?A" by (intro stability)
  have found: "triple ?A (wrapErr CfDB (GetByRemoteID v p r)) (\<lambda>found w. ?A w \<and> (\<forall>s. found = Some s \<longrightarrow> states_owned v (ss_id s) (w_db w) \<and> ss_user_id s = v)) (\<lambda>_. apart u F)" for p r
    unfolding GetByRemoteID_def
    by (rule triple_wrapped, rule triple_post [OF triple_read [OF stA]])
      (auto intro!: owner simp: apart_def sound_world_def, auto simp: of_pipeline_def dest!: select_one_Some)
  show ?thesis
    unfolding advanceSyncState_def
  proof (rule triple_andThen [OF found])
    fix st
    show "triple (\<lambda>w. ?A w \<and> (\<forall>s. st = Some s \<longrightarrow> states_owned v (ss_id s) (w_db w) \<and> ss_user_id s = v)) (case st of None \<Rightarrow> ret ()
       | Some st \<Rightarrow> andThen now (\<lambda>t. wrapErr CfDB (UpdateState (advanced L c resolved t st)))) (\<lambda>_. ?A) (\<lambda>_. apart u F)"
    proof (cases st)
      case (Some s)
      have upd: "triple (\<lambda>w. ?A w \<and> (states_owned v (ss_id s) (w_db w) \<and> ss_user_id s = v)) (wrapErr CfDB (UpdateState (advanced L c resolved t s))) (\<lambda>_. ?A) (\<lambda>_. apart u F)" for t
      proof (cases "ss_user_id s = v")
        case True
        then show ?thesis
          by (intro triple_wrapped triple_weaken [OF triple_keeping [OF apart_UpdateState [OF assms] conflicts_kept(3)]]) (auto simp: advanced_def)
      qed (simp add: triple_def)
      have st: "stable (\<lambda>w. ?A w \<and> (states_owned v (ss_id s) (w_db w) \<and> ss_user_id s = v))" by (intro stability)
      show ?thesis unfolding Some option.case
        by (rule triple_weaken [OF triple_quietly [OF st readonly_basic(3) steady_basic(3) _ upd]]) auto
    qed (simp add: triple_ret)
  qed
qed

lemma apart_Resolve:
  assumes "u \<noteq> v"
  shows "triple (apart u F) (Resolve L v i res) (\<lambda>_. apart u F) (\<lambda>_. apart u F)"
proof -
  let ?mine = "\<lambda>c w. apart u F w \<and> conflicts_owned v (sc_id c) (w_db w) \<and> sc_user_id c = v"
  have last: "triple (\<lambda>w. apart u F w \<and> conflicts_owned v (sc_id c) (w_db w)) (andThen (advanceSyncState L v c resolved) (\<lambda>_.
      andThen (wrapErr CfDB (UpdateConflict (c\<lparr>sc_status := ''resolved'', sc_resolved_vcard := resolved, sc_resolved_at := Some t\<rparr>)))
        (\<lambda>_. ret (c\<lparr>sc_status := ''resolved'', sc_resolved_vcard := resolved, sc_resolved_at := Some t\<rparr>))))
      (\<lambda>_. apart u F) (\<lambda>_. apart u F)" if "sc_user_id c = v" for c resolved t
    by (rule triple_andThen [OF apart_advance [OF assms]], rule triple_wrapped_ret, rule triple_weaken [OF apart_UpdateConflict [OF assms]])
      (use that in simp_all)
  have save: "triple (\<lambda>w. (apart u F w \<and> own_row v c0 w) \<and> conflicts_owned v (sc_id c) (w_db w)) (andThen (wrapErr CfDB (save_parsed (resolved_contact L t c0 resolved p) p)) f)
      (\<lambda>_. apart u F) (\<lambda>_. apart u F)"
    if "\<And>x. triple (\<lambda>w. apart u F w \<and> conflicts_owned v (sc_id c) (w_db w)) (f x) (\<lambda>_. apart u F) (\<lambda>_. apart u F)" for c c0 t resolved p f
    by (rule triple_andThen [OF triple_wrapped [OF triple_keeping [OF apart_store_row [OF assms] conflicts_kept(2)]]])
      (simp_all add: resolved_contact_def that)
  have book: "triple (\<lambda>w. apart u F w \<and> conflicts_owned v (sc_id c) (w_db w)) (andThen (wrapErr CfDB (GetOrCreateByUserID v)) f) (\<lambda>_. apart u F) (\<lambda>_. apart u F)"
    if "\<And>ab. triple (\<lambda>w. (apart u F w \<and> owns v (ab_id ab) w) \<and> conflicts_owned v (sc_id c) (w_db w)) (f ab) (\<lambda>_. apart u F) (\<lambda>_. apart u F)" for c f
    by (rule triple_andThen [OF triple_wrapped [OF triple_keeping [OF apart_GetOrCreate [OF assms] conflicts_kept(1)]]]) (rule that)
  have look: "triple (\<lambda>w. (apart u F w \<and> owns v b w) \<and> conflicts_owned v (sc_id c) (w_db w)) (andThen (wrapErr CfDB (GetByUID b k)) (\<lambda>found. case found of
      None \<Rightarrow> throw e | Some c0 \<Rightarrow> f c0)) (\<lambda>_. apart u F) (\<lambda>_. apart u F)"
    if f: "\<And>c0. triple (\<lambda>w. (apart u F w \<and> own_row v c0 w) \<and> conflicts_owned v (sc_id c) (w_db w)) (f c0) (\<lambda>_. apart u F) (\<lambda>_. apart u F)" for c b k e f
  proof (rule triple_andThen [OF triple_wrapped])
    show "triple (\<lambda>w. (apart u F w \<and> owns v b w) \<and> conflicts_owned v (sc_id c) (w_db w)) (GetByUID b k)
        (\<lambda>found w. (apart u F w \<and> (\<forall>c0. found = Some c0 \<longrightarrow> own_row v c0 w)) \<and> conflicts_owned v (sc_id c) (w_db w)) (\<lambda>_. apart u F)"
      by (rule triple_keeping [OF triple_conseq [OF apart_GetByUID [of u F v b k]] preserves_readonly [OF readonly_GetByUID(1)]])
        (auto simp: in_my_book_def)
    show "triple (\<lambda>w. (apart u F w \<and> (\<forall>c0. found = Some c0 \<longrightarrow> own_row v c0 w)) \<and> conflicts_owned v (sc_id c) (w_db w))
        (case found of None \<Rightarrow> throw e | Some c0 \<Rightarrow> f c0) (\<lambda>_. apart u F) (\<lambda>_. apart u F)" for found
      using f by (cases found) (auto intro: triple_throw)
  qed
  show ?thesis
    unfolding Resolve_def Let_def
  proof (rule triple_andThen [OF apart_load_conflict])
    fix c
    show "triple (?mine c) (case ApplyResolution L (sc_local_vcard c) (sc_remote_vcard c) res of Inl e \<Rightarrow> throw (CfResolution e)
      | Inr resolved \<Rightarrow> andThen (wrapErr CfDB (GetOrCreateByUserID v)) (\<lambda>ab. andThen (wrapErr CfDB (GetByUID (ab_id ab) (sc_local_contact_id c))) (\<lambda>found. case found of
          None \<Rightarrow> throw (ErrConflictContactGone (sc_local_contact_id c))
        | Some c0 \<Rightarrow> (case ParseVCard L resolved of Inl e \<Rightarrow> throw (CfParse e) | Inr parsed \<Rightarrow> andThen now (\<lambda>t.
              andThen (wrapErr CfDB (save_parsed (resolved_contact L t c0 resolved parsed) parsed)) (\<lambda>_. andThen (advanceSyncState L v c resolved) (\<lambda>_.
              andThen (wrapErr CfDB (UpdateConflict (c\<lparr>sc_status := ''resolved'', sc_resolved_vcard := resolved, sc_resolved_at := Some t\<rparr>)))
                (\<lambda>_. ret (c\<lparr>sc_status := ''resolved'', sc_resolved_vcard := resolved, sc_resolved_at := Some t\<rparr>)))))))))
      (\<lambda>_. apart u F) (\<lambda>_. apart u F)"
    proof (cases "sc_user_id c = v")
      case True
      have "stable (\<lambda>w. (apart u F w \<and> own_row v c0 w) \<and> conflicts_owned v (sc_id c) (w_db w))" for c0 by (intro stability)
      note timed = triple_quietly [OF this readonly_basic(3) steady_basic(3), where u = u and F = F]
      show ?thesis
        by (rule triple_weaken [where P' = "\<lambda>w. apart u F w \<and> conflicts_owned v (sc_id c) (w_db w)"])
          (auto split: sum.split intro!: triple_throw book look timed save last True simp del: conj_assoc)
    qed (simp add: triple_def)
  qed
qed

section \<open>Isolation\<close>

text \<open>The requests that write, and a server that answers them one after the other; before each of them time
  passes and the database decides which statements it will refuse.\<close>

datatype service_request = ReqCreate create_input | ReqUpdate string update_input | ReqDelete string
  | ReqDeleteMany "string list" | ReqDeleteAll | ReqImportVCard string | ReqImportCSV "string list option list"
  | ReqMerge merge_input | ReqResolve string "string go_map" | ReqDismiss string
  | DavPut webdav backend string vcard "put_opts option" | DavDelete string

fun serve :: "lib \<Rightarrow> (merge_input \<Rightarrow> string) \<Rightarrow> bool \<Rightarrow> string \<Rightarrow> service_request \<Rightarrow> world \<Rightarrow> world" where
  "serve L marshal logged v (ReqCreate input) w = snd (CreateContact L v input w)"
| "serve L marshal logged v (ReqUpdate i input) w = snd (UpdateContact L v i input w)"
| "serve L marshal logged v (ReqDelete i) w = snd (DeleteContact v i w)"
| "serve L marshal logged v (ReqDeleteMany ids) w = snd (DeleteManyContacts v ids w)"
| "serve L marshal logged v ReqDeleteAll w = snd (DeleteAllContacts v w)"
| "serve L marshal logged v (ReqImportVCard data) w = snd (ImportVCard L v data w)"
| "serve L marshal logged v (ReqImportCSV records) w = snd (ImportCSV L v records w)"
| "serve L marshal logged v (ReqMerge input) w = snd (Merge L marshal logged v input w)"
| "serve L marshal logged v (ReqResolve i res) w = snd (Resolve L v i res w)"
| "serve L marshal logged v (ReqDismiss i) w = snd (Dismiss v i w)"
| "serve L marshal logged v (DavPut W B path vc opts) w = snd (PutAddressObject L W B v path vc opts w)"
| "serve L marshal logged v (DavDelete path) w = snd (DeleteAddressObject v path w)"

fun serve_all :: "lib \<Rightarrow> (merge_input \<Rightarrow> string) \<Rightarrow> bool \<Rightarrow> (string \<times> service_request \<times> int \<times> bool list) list \<Rightarrow> world \<Rightarrow> world" where
  "serve_all L marshal logged [] w = w"
| "serve_all L marshal logged ((v, rq, t, faults) # rqs) w =
     serve_all L marshal logged rqs (serve L marshal logged v rq (w\<lparr>w_now := t, w_faults := faults\<rparr>))"

lemma serve_apart: "u \<noteq> v \<Longrightarrow> apart u F w \<Longrightarrow> apart u F (serve L marshal logged v rq w)"
  by (cases rq) (simp_all add: triple_snd [where P = "apart u F"] apart_CreateContact apart_UpdateContact apart_DeleteContact apart_bulk apart_Import
      apart_Merge apart_Resolve apart_Dismiss apart_PutAddressObject apart_DeleteAddressObject)

lemma apart_between: "apart u F (w\<lparr>w_now := t, w_faults := fs\<rparr>) = apart u F w"
  by (simp add: apart_def sound_world_def fresh_contacts_def)

text \<open>C3: Users are isolated from each other in the work on contacts. Take any sequence of these requests for other users: create, update, delete, bulk delete and delete all of the contact service, import
  of vCards and of CSV, merge of two contacts, resolution and dismissal of a sync conflict, and PUT and DELETE of the CardDAV server;
  with whatever inputs, ids and paths and whichever statements the database refuses, a user keeps every book, contact, child
  row, tombstone, sync state, conflict and log entry, unchanged, and gains none; and the keys of
  the tables stay unique, so that this holds for the next sequence too. The administration of accounts, which deletes the rows of a user, restores and sync runs are not among these requests.\<close>

theorem tenants_isolated:
  assumes "sound_world w" "\<forall>(v, rq) \<in> set rqs. v \<noteq> u"
  shows "tenant u (w_db (serve_all L marshal logged rqs w)) = tenant u (w_db w) \<and> sound_world (serve_all L marshal logged rqs w)"
proof -
  have "apart u F (serve_all L marshal logged rqs w)" if "apart u F w" for F
    using assms(2) that
  proof (induction rqs arbitrary: w)
    case (Cons r rqs)
    obtain v rq t fs where r: "r = (v, rq, t, fs)" by (cases r)
    have "apart u F (serve L marshal logged v rq (w\<lparr>w_now := t, w_faults := fs\<rparr>))"
      using Cons.prems by (intro serve_apart) (auto simp: r apart_between)
    then show ?case using Cons by (simp add: r)
  qed simp
  from this [of "tenant u (w_db w)"] show ?thesis using assms(1) by (simp add: apart_def)
qed

lemma ada_world_sound: "sound_world (small_world (small_db\<lparr>t_contacts := [ada]\<rparr>) [])"
  by (auto simp: sound_world_def keys_ok_def tables_ok_def fresh_contacts_def small_world_def small_db_def ada_def blank_contact_def has_book_def
      inj_def Cons_replicate_eq dest: arg_cong [of _ _ length])

theorem tenants_isolated_witness:
  "tenant ''u'' (w_db (serve_all (table_lib []) (\<lambda>_. []) True [(''eve'', ReqDelete ''i1'', 1, []), (''eve'', ReqDeleteAll, 2, [False, True]), (''eve'', DavDelete ''/dav/u/ada.vcf'', 3, [])]
     (small_world (small_db\<lparr>t_contacts := [ada]\<rparr>) []))) = tenant ''u'' (small_db\<lparr>t_contacts := [ada]\<rparr>)"
  using tenants_isolated [OF ada_world_sound, of "[(''eve'', ReqDelete ''i1'', 1, []), (''eve'', ReqDeleteAll, 2, [False, True]), (''eve'', DavDelete ''/dav/u/ada.vcf'', 3, [])]" "''u''"
      "table_lib []" "\<lambda>_. []" True] by (simp add: small_world_def)

end
