(* ===== verification/FileStore.thy ===== *)
theory FileStore
  imports Database GoInt ProgLogic "HOL-Library.AList"
begin

text \<open>
  The standard library the backup service uses on files: cleaning and joining of paths
  (\<open>path/filepath\<close>), the layout it formats a time with (\<open>time\<close>), and the calls of \<open>os\<close> on the files of
  the world. A file is kept under the cleaned path the program uses for it; a directory exists when it is
  created, and holds the files whose path is its own followed by one more name.
\<close>

section \<open>Definitions\<close>

subsection \<open>Paths\<close>

text \<open>The elements of a path one after the other, over the ones kept so far, the last first.\<close>

fun clean_parts :: "bool \<Rightarrow> string list \<Rightarrow> string list \<Rightarrow> string list" where
  "clean_parts rooted acc [] = rev acc"
| "clean_parts rooted acc (c # cs) =
     (if c = [] \<or> c = ''.'' then clean_parts rooted acc cs
      else if c = ''..'' then
        (if acc \<noteq> [] \<and> hd acc \<noteq> ''..'' then clean_parts rooted (tl acc) cs
         else if rooted then clean_parts rooted acc cs
         else clean_parts rooted (c # acc) cs)
      else clean_parts rooted (c # acc) cs)"

definition is_abs :: "string \<Rightarrow> bool" where
  "is_abs p = has_prefix p ''/''"

text \<open>\<open>filepath.Clean\<close>.\<close>

definition clean :: "string \<Rightarrow> string" where
  "clean p =
     (let parts = clean_parts (is_abs p) [] (split_on CHR ''/'' p)
      in if is_abs p then CHR ''/'' # join ''/'' parts
         else if parts = [] then ''.'' else join ''/'' parts)"

text \<open>\<open>filepath.Join\<close>.\<close>

definition join_path :: "string list \<Rightarrow> string" where
  "join_path elems = (case dropWhile (\<lambda>e. e = []) elems of [] \<Rightarrow> [] | es \<Rightarrow> clean (join ''/'' es))"

text \<open>\<open>filepath.Abs\<close> with the working directory, \<open>None\<close> when it cannot be read.\<close>

definition abs_path :: "string option \<Rightarrow> string \<Rightarrow> string option" where
  "abs_path wd p = (if is_abs p then Some (clean p) else map_option (\<lambda>d. join_path [d, p]) wd)"

subsection \<open>Times\<close>

text \<open>The proleptic Gregorian date of a day counted from 1970-01-01, in years that begin in March.\<close>

definition civil_date :: "int \<Rightarrow> int \<times> int \<times> int" where
  "civil_date days =
     (let z = days + 719468; era = z div 146097; doe = z mod 146097;
          yoe = (doe - doe div 1460 + doe div 36524 - doe div 146096) div 365;
          doy = doe - (365 * yoe + yoe div 4 - yoe div 100);
          mp = (5 * doy + 2) div 153;
          m = (if mp < 10 then mp + 3 else mp - 9)
      in (yoe + era * 400 + (if m \<le> 2 then 1 else 0), m, doy - (153 * mp + 2) div 5 + 1))"

definition pad :: "nat \<Rightarrow> int \<Rightarrow> string" where
  "pad k n = (let s = format_nat (nat n) in replicate (k - length s) CHR ''0'' @ s)"

text \<open>\<open>t.Format("20060102-150405-000")\<close> for a time in nanoseconds, with the offset of the local zone in
  seconds. A fraction of a second is only printed after a point or a comma, so the last four characters of the
  layout stand for themselves.\<close>

definition format_stamp :: "int \<Rightarrow> int \<Rightarrow> string" where
  "format_stamp zone t =
     (let s = t div 1000000000 + zone; (y, m, d) = civil_date (s div 86400); r = s mod 86400
      in pad 4 y @ pad 2 m @ pad 2 d @ ''-'' @ pad 2 (r div 3600) @ pad 2 (r div 60 mod 60) @ pad 2 (r mod 60) @ ''-000'')"

subsection \<open>Files\<close>

datatype os_error = OsIO | OsNotExist

type_synonym files = "(string \<times> disk_file) list"

text \<open>One call of the operating system: it fails when the disk says so, or because of the path.\<close>

definition os_call :: "(int \<Rightarrow> files \<Rightarrow> os_error + 'a \<times> files) \<Rightarrow> (os_error, 'a) prog" where
  "os_call q w =
     (let w' = w\<lparr>w_faults := tl (w_faults w)\<rparr>
      in if w_faults w \<noteq> [] \<and> hd (w_faults w) then (Inl OsIO, w')
         else case q (w_now w) (w_files w) of
           Inl e \<Rightarrow> (Inl e, w')
         | Inr (x, fs) \<Rightarrow> (Inr x, w'\<lparr>w_files := fs\<rparr>))"

definition os_Create :: "string \<Rightarrow> (os_error, unit) prog" where
  "os_Create p = os_call (\<lambda>t fs. Inr ((), AList.update p \<lparr>fl_data = [], fl_mtime = t\<rparr> fs))"

definition os_Append :: "string \<Rightarrow> string \<Rightarrow> (os_error, unit) prog" where
  "os_Append p s = os_call (\<lambda>t fs. case map_of fs p of
     None \<Rightarrow> Inl OsNotExist | Some f \<Rightarrow> Inr ((), AList.update p \<lparr>fl_data = fl_data f @ s, fl_mtime = t\<rparr> fs))"

definition os_Close :: "(os_error, unit) prog" where
  "os_Close = os_call (\<lambda>_ fs. Inr ((), fs))"

definition os_MkdirAll :: "(os_error, unit) prog" where
  "os_MkdirAll = os_call (\<lambda>_ fs. Inr ((), fs))"

definition os_Rename :: "string \<Rightarrow> string \<Rightarrow> (os_error, unit) prog" where
  "os_Rename p q = os_call (\<lambda>_ fs. case map_of fs p of
     None \<Rightarrow> Inl OsNotExist | Some f \<Rightarrow> Inr ((), AList.update q f (AList.delete p fs)))"

definition os_Remove :: "string \<Rightarrow> (os_error, unit) prog" where
  "os_Remove p = os_call (\<lambda>_ fs. if map_of fs p = None then Inl OsNotExist else Inr ((), AList.delete p fs))"

definition os_Stat :: "string \<Rightarrow> (os_error, disk_file) prog" where
  "os_Stat p = os_call (\<lambda>_ fs. case map_of fs p of None \<Rightarrow> Inl OsNotExist | Some f \<Rightarrow> Inr (f, fs))"

definition os_ReadFile :: "string \<Rightarrow> (os_error, string) prog" where
  "os_ReadFile p = os_call (\<lambda>_ fs. case map_of fs p of None \<Rightarrow> Inl OsNotExist | Some f \<Rightarrow> Inr (fl_data f, fs))"

text \<open>\<open>os.ReadDir\<close>: the entries of a directory, sorted by name.\<close>

definition entry_name :: "string \<Rightarrow> string \<Rightarrow> string option" where
  "entry_name dir p = (case cut_prefix p (dir @ ''/'') of
     None \<Rightarrow> None | Some name \<Rightarrow> if name = [] \<or> CHR ''/'' \<in> set name then None else Some name)"

definition dir_entries :: "string \<Rightarrow> files \<Rightarrow> (string \<times> disk_file) list" where
  "dir_entries dir fs = sort_key fst (List.map_filter (\<lambda>(p, f). map_option (\<lambda>n. (n, f)) (entry_name dir p)) fs)"

definition os_ReadDir :: "string \<Rightarrow> (os_error, (string \<times> disk_file) list) prog" where
  "os_ReadDir dir = os_call (\<lambda>_ fs. Inr (dir_entries dir fs, fs))"

section \<open>Lemmas\<close>

subsection \<open>Paths\<close>

text \<open>A name: one element of a path that stands for itself.\<close>

definition path_name :: "string \<Rightarrow> bool" where
  "path_name c \<longleftrightarrow> c \<noteq> [] \<and> c \<noteq> ''.'' \<and> c \<noteq> ''..'' \<and> CHR ''/'' \<notin> set c"

lemma split_join:
  assumes "\<forall>c \<in> set cs. CHR ''/'' \<notin> set c" "cs \<noteq> []"
  shows "split_on CHR ''/'' (join ''/'' cs) = cs"
  using assms by (induction "''/''" cs rule: join.induct) (auto simp: split_on_none split_on_first)

lemma join_snoc: "cs \<noteq> [] \<Longrightarrow> join sep (cs @ [c]) = join sep cs @ sep @ c"
  by (induction sep cs rule: join.induct) auto

lemma join_append: "cs \<noteq> [] \<Longrightarrow> ds \<noteq> [] \<Longrightarrow> join sep (cs @ ds) = join sep cs @ sep @ join sep ds"
  by (induction sep cs rule: join.induct) (auto simp: neq_Nil_conv)

lemma clean_parts_rooted:
  "list_all path_name acc \<Longrightarrow> \<forall>c \<in> set cs. CHR ''/'' \<notin> set c \<Longrightarrow> list_all path_name (clean_parts True acc cs)"
proof (induction cs arbitrary: acc)
  case (Cons c cs)
  have rest: "list_all path_name (clean_parts True acc' cs)" if "list_all path_name acc'" for acc' using Cons that by simp
  have up: "list_all path_name (tl acc)" using Cons.prems(1) by (cases acc) simp_all
  show ?case
  proof (cases "c = [] \<or> c = ''.'' \<or> c = ''..''")
    case True
    then show ?thesis using rest [OF up] rest [OF Cons.prems(1)] by auto
  next
    case False
    then have "path_name c" using Cons.prems(2) by (simp add: path_name_def)
    then show ?thesis using rest [of "c # acc"] Cons.prems(1) False by simp
  qed
qed (simp add: list_all_iff)

lemma clean_parts_snoc: "path_name c \<Longrightarrow> clean_parts rooted acc (cs @ [c]) = clean_parts rooted acc cs @ [c]"
  by (induction cs arbitrary: acc; cases rooted) (simp_all add: path_name_def)

text \<open>An absolute path is cleaned to a root and names.\<close>

lemma clean_abs:
  assumes "is_abs p"
  obtains parts where "clean p = CHR ''/'' # join ''/'' parts" "\<forall>c \<in> set parts. path_name c"
proof
  let ?parts = "clean_parts True [] (split_on CHR ''/'' p)"
  show "clean p = CHR ''/'' # join ''/'' ?parts" using assms by (simp add: clean_def)
  have "list_all path_name ?parts" by (rule clean_parts_rooted) (auto dest: split_on_pieces)
  then show "\<forall>c \<in> set ?parts. path_name c" by (simp add: list_all_iff)
qed

lemma abs_path_names:
  assumes "abs_path wd p = Some q" "\<forall>d. wd = Some d \<longrightarrow> is_abs d"
  obtains parts where "q = CHR ''/'' # join ''/'' parts" "\<forall>c \<in> set parts. path_name c"
proof (cases "is_abs p")
  case True
  then show ?thesis using assms(1) clean_abs [OF True] that by (auto simp: abs_path_def)
next
  case False
  then obtain d where d: "wd = Some d" "q = join_path [d, p]" using assms(1) by (auto simp: abs_path_def)
  then have "is_abs d" using assms(2) by simp
  then have "d \<noteq> []" "is_abs (d @ ''/'' @ p)" by (cases d; simp add: is_abs_def)+
  then show ?thesis using clean_abs [of "d @ ''/'' @ p"] that d by (auto simp: join_path_def)
qed

text \<open>Below a directory.\<close>

lemma names_below:
  assumes "\<forall>c \<in> set parts. path_name c" "\<forall>c \<in> set base. path_name c"
    "has_prefix (CHR ''/'' # join ''/'' parts) ((CHR ''/'' # join ''/'' base) @ ''/'')"
  shows "\<exists>names. names \<noteq> [] \<and> parts = base @ names"
proof -
  obtain rest where rest: "join ''/'' parts = join ''/'' base @ CHR ''/'' # rest"
    using assms(3) by (auto simp: has_prefix_iff)
  have slash: "\<forall>c \<in> set parts. CHR ''/'' \<notin> set c" "\<forall>c \<in> set base. CHR ''/'' \<notin> set c"
    using assms(1,2) by (auto simp: path_name_def)
  show ?thesis
  proof (cases "base = [] \<or> parts = []")
    case True
    then show ?thesis
    proof
      assume "base = []"
      with rest obtain c cs where "parts = c # cs" by (cases parts) auto
      with rest \<open>base = []\<close> slash assms(1) have False by (cases c; cases cs) (auto simp: path_name_def)
      then show ?thesis ..
    qed (use rest in simp)
  next
    case False
    then have "parts = split_on CHR ''/'' (join ''/'' parts)" using split_join slash(1) by simp
    also have "\<dots> = base @ split_on CHR ''/'' rest" using False slash(2) by (simp add: rest split_on_append split_join)
    finally show ?thesis using split_on_not_Nil [of "CHR ''/''" rest] by blast
  qed
qed

text \<open>The path of a file of a directory.\<close>

lemma join_path_entry:
  assumes "path_name u" "path_name name"
  shows "join_path [dir, u, name] = join_path [dir, u] @ ''/'' @ name"
proof -
  have slash: "CHR ''/'' \<notin> set u" "CHR ''/'' \<notin> set name" and "u \<noteq> []" using assms by (auto simp: path_name_def)
  have u: "\<not> is_abs u" "\<not> is_abs (u @ CHR ''/'' # name)" using assms(1) by (cases u; auto simp: is_abs_def path_name_def)+
  show ?thesis
  proof (cases "dir = []")
    case True
    then show ?thesis using \<open>u \<noteq> []\<close> slash u assms
      by (simp add: join_path_def clean_def split_on_first split_on_none) (auto simp: path_name_def)
  next
    case False
    let ?d = "clean_parts (is_abs dir) [] (split_on CHR ''/'' dir)"
    have "is_abs (dir @ CHR ''/'' # s) = is_abs dir" for s using False by (cases dir) (auto simp: is_abs_def)
    moreover have "split_on CHR ''/'' (dir @ CHR ''/'' # u) = split_on CHR ''/'' dir @ [u]"
      "split_on CHR ''/'' (dir @ CHR ''/'' # u @ CHR ''/'' # name) = (split_on CHR ''/'' dir @ [u]) @ [name]"
      using slash by (simp_all add: split_on_append split_on_none split_on_first)
    ultimately show ?thesis
      using False assms by (simp add: join_path_def clean_def clean_parts_snoc join_snoc Let_def del: append_assoc)
  qed
qed

subsection \<open>Files\<close>

text \<open>Programs that touch no table and no file but those of a set.\<close>

definition confined :: "string set \<Rightarrow> ('e, 'a) prog \<Rightarrow> bool" where
  "confined P m \<longleftrightarrow> (\<forall>w. w_db (snd (m w)) = w_db w \<and> w_now (snd (m w)) = w_now w
     \<and> (\<forall>q. q \<notin> P \<longrightarrow> map_of (w_files (snd (m w))) q = map_of (w_files w) q))"

named_theorems confine \<open>programs confined to some files\<close>

lemma confinedD:
  assumes "confined P m" "m w = (r, w')"
  shows "w_db w' = w_db w" "w_now w' = w_now w" "q \<notin> P \<Longrightarrow> map_of (w_files w') q = map_of (w_files w) q"
  using assms unfolding confined_def by (metis snd_conv)+

lemma confined_basic [confine]: "confined P (ret x)" "confined P (throw e)" "confined P now"
  by (simp_all add: confined_def prog_simps)

lemma confined_andThen [confine]:
  assumes "confined P m" "\<And>x. confined P (f x)"
  shows "confined P (andThen m f)"
  unfolding confined_def
proof
  fix w
  obtain r w1 where 1: "m w = (r, w1)" by fastforce
  show "w_db (snd (andThen m f w)) = w_db w \<and> w_now (snd (andThen m f w)) = w_now w
     \<and> (\<forall>q. q \<notin> P \<longrightarrow> map_of (w_files (snd (andThen m f w))) q = map_of (w_files w) q)"
  proof (cases r)
    case (Inr x)
    obtain r' w2 where 2: "f x w1 = (r', w2)" by fastforce
    show ?thesis using 1 2 Inr confinedD [OF assms(1) 1] confinedD [OF assms(2) 2] by (simp add: andThen_def)
  qed (use 1 confinedD [OF assms(1) 1] in \<open>simp add: andThen_def\<close>)
qed

lemma confined_attempt [confine]: "confined P m \<Longrightarrow> confined P (attempt m)"
  by (auto simp: confined_def attempt_def split: prod.splits) (metis snd_conv)+

lemma confined_wrapErr [confine]: "confined P m \<Longrightarrow> confined P (wrapErr h m)"
  by (auto simp: confined_def wrapErr_def split: prod.splits sum.splits) (metis snd_conv)+

lemma confined_cases [confine]:
  "(\<And>e. confined P (g e)) \<Longrightarrow> (\<And>x. confined P (f x)) \<Longrightarrow> confined P (case r of Inl e \<Rightarrow> g e | Inr x \<Rightarrow> f x)"
  "confined P m \<Longrightarrow> confined P m' \<Longrightarrow> confined P (if b then m else m')"
  by (simp_all split: sum.split)

lemma confined_forEach [confine]: "(\<And>x s. x \<in> set xs \<Longrightarrow> confined P (f x s)) \<Longrightarrow> confined P (forEach f xs s)"
  by (induction xs arbitrary: s) (auto intro!: confine)

lemma confined_os_call:
  assumes "\<And>t fs x fs' q. k t fs = Inr (x, fs') \<Longrightarrow> q \<notin> P \<Longrightarrow> map_of fs' q = map_of fs q"
  shows "confined P (os_call k)"
  using assms by (auto simp: confined_def os_call_def Let_def split: sum.split)

lemma confined_os [confine]:
  "p \<in> P \<Longrightarrow> confined P (os_Create p)" "p \<in> P \<Longrightarrow> confined P (os_Append p s)" "p \<in> P \<Longrightarrow> confined P (os_Remove p)"
  "p \<in> P \<Longrightarrow> q \<in> P \<Longrightarrow> confined P (os_Rename p q)" "confined P os_Close" "confined P os_MkdirAll" "confined P (os_Stat p)"
  "confined P (os_ReadFile p)" "confined P (os_ReadDir d)"
  unfolding os_Create_def os_Append_def os_Remove_def os_Rename_def os_Close_def os_MkdirAll_def os_Stat_def os_ReadFile_def os_ReadDir_def
  by (rule confined_os_call, auto simp: update_conv' delete_conv' split: option.splits if_splits)+

lemma os_call_Inr: "os_call k w = (Inr x, w') \<Longrightarrow> \<exists>fs. k (w_now w) (w_files w) = Inr (x, fs) \<and> w' = w\<lparr>w_faults := tl (w_faults w), w_files := fs\<rparr>"
  by (auto simp: os_call_def Let_def split: if_splits sum.splits)

lemma os_commit:
  "os_Create p w = (Inr (), w') \<Longrightarrow> map_of (w_files w') p = Some \<lparr>fl_data = [], fl_mtime = w_now w\<rparr>"
  "os_Append p s w = (Inr (), w') \<Longrightarrow> \<exists>f. map_of (w_files w) p = Some f \<and> map_of (w_files w') p = Some \<lparr>fl_data = fl_data f @ s, fl_mtime = w_now w\<rparr>"
  "os_Rename p q w = (Inr (), w') \<Longrightarrow> \<exists>f. map_of (w_files w) p = Some f \<and> map_of (w_files w') q = Some f \<and> (p \<noteq> q \<longrightarrow> map_of (w_files w') p = None)"
  "os_Remove p w = (Inr (), w') \<Longrightarrow> map_of (w_files w') p = None"
  "os_Stat p w = (Inr f, w') \<Longrightarrow> map_of (w_files w) p = Some f \<and> w_files w' = w_files w"
  "os_ReadFile p w = (Inr s, w') \<Longrightarrow> \<exists>f. map_of (w_files w) p = Some f \<and> s = fl_data f \<and> w_files w' = w_files w"
  "os_ReadDir d w = (Inr es, w') \<Longrightarrow> es = dir_entries d (w_files w) \<and> w_files w' = w_files w"
  "os_Close w = (Inr (), w') \<Longrightarrow> w_files w' = w_files w"
  unfolding os_Create_def os_Append_def os_Remove_def os_Rename_def os_Close_def os_Stat_def os_ReadFile_def os_ReadDir_def
  by (drule os_call_Inr, auto simp: update_conv' delete_conv' split: option.splits if_splits)+

lemma os_Remove_effect: "os_Remove p w = (r, w') \<Longrightarrow> map_of (w_files w') p = map_of (w_files w) p \<or> map_of (w_files w') p = None"
  by (auto simp: os_Remove_def os_call_def Let_def delete_conv' split: if_splits sum.splits)

text \<open>The entries of a directory.\<close>

lemma entry_name_Some: "entry_name dir p = Some name \<longleftrightarrow> p = dir @ ''/'' @ name \<and> name \<noteq> [] \<and> CHR ''/'' \<notin> set name"
  by (auto simp: entry_name_def cut_prefix_def has_prefix_iff split: if_splits)

lemma set_map_filter_iff: "y \<in> set (List.map_filter f xs) \<longleftrightarrow> (\<exists>x \<in> set xs. f x = Some y)"
  by (induction xs) (auto simp: map_filter_simps split: option.splits)

lemma distinct_map_filter_inj:
  "distinct xs \<Longrightarrow> (\<And>x y n. f x = Some n \<Longrightarrow> f y = Some n \<Longrightarrow> x = y) \<Longrightarrow> distinct (List.map_filter f xs)"
proof (induction xs)
  case (Cons x xs)
  then show ?case by (auto simp: map_filter_simps set_map_filter_iff split: option.splits)
qed (simp add: map_filter_simps)

lemma dir_entries_iff:
  "(name, f) \<in> set (dir_entries dir fs) \<longleftrightarrow> (dir @ ''/'' @ name, f) \<in> set fs \<and> name \<noteq> [] \<and> CHR ''/'' \<notin> set name"
  by (auto simp: dir_entries_def set_map_filter_iff entry_name_Some split: prod.splits)

lemma distinct_entries:
  assumes "distinct (map fst fs)"
  shows "distinct (map fst (dir_entries dir fs))"
proof -
  have "map fst (List.map_filter (\<lambda>(p, f). map_option (\<lambda>n. (n, f)) (entry_name dir p)) fs) = List.map_filter (entry_name dir) (map fst fs)"
    by (induction fs) (auto simp: map_filter_simps split: option.splits)
  then have "distinct (map fst (List.map_filter (\<lambda>(p, f). map_option (\<lambda>n. (n, f)) (entry_name dir p)) fs))"
    using assms distinct_map_filter_inj [of "map fst fs" "entry_name dir"] by (auto simp: entry_name_Some)
  then show ?thesis by (simp add: dir_entries_def distinct_map)
qed

end
