(* ===== verification/Backup.thy ===== *)
theory Backup
  imports ContactService FileStore "HOL-Library.Multiset"
begin

text \<open>
  Backups: \<open>internal/service/backup.go\<close> with its tables (\<open>internal/repository/bun_backup_run.go\<close>,
  \<open>bun_user_backup_settings.go\<close>). A backup is the cards of a book one after the other in a file, which
  \<open>Restore\<close> cuts apart with \<open>SplitVCards\<close> and saves again. The gzip format is a parameter, and so is the order
  \<open>sort.Slice\<close> leaves backups of the same time in.
\<close>

section \<open>Definitions\<close>

subsection \<open>Runs and settings\<close>

definition BackupRunRunning :: string where "BackupRunRunning = ''running''"
definition BackupRunOK :: string where "BackupRunOK = ''completed''"
definition BackupRunFailed :: string where "BackupRunFailed = ''failed''"
definition BackupRunInterrupted :: string where "BackupRunInterrupted = ''interrupted''"

definition BackupTriggerManual :: string where "BackupTriggerManual = ''manual''"
definition BackupTriggerScheduled :: string where "BackupTriggerScheduled = ''scheduled''"
definition BackupTriggerCatchup :: string where "BackupTriggerCatchup = ''catchup''"

definition CreateBackupRun :: "backup_run \<Rightarrow> (db_error, unit) prog" where
  "CreateBackupRun run = andThen now (\<lambda>t.
     let r = (if br_started_at run = 0 then run\<lparr>br_started_at := t\<rparr> else run)
     in stmt (\<lambda>d. if \<not> has_user d (br_user_id r) then Inl ErrConstraint
          else case insert_row br_id r (t_backup_runs d) of
            Inl e \<Rightarrow> Inl e | Inr rows \<Rightarrow> Inr ((), d\<lparr>t_backup_runs := rows\<rparr>)))"

definition UpdateBackupRun :: "backup_run \<Rightarrow> (db_error, unit) prog" where
  "UpdateBackupRun run = stmt (\<lambda>d.
     if br_id run \<in> br_id ` set (t_backup_runs d) \<and> \<not> has_user d (br_user_id run) then Inl ErrConstraint
     else Inr ((), d\<lparr>t_backup_runs := upsert_row br_id run (t_backup_runs d)\<rparr>))"

definition ListBackupRuns :: "string \<Rightarrow> int \<Rightarrow> (db_error, backup_run list) prog" where
  "ListBackupRuns u limit = query (\<lambda>d.
     take (nat (if limit \<le> 0 \<or> limit > 200 then 50 else limit))
       (sort_key (\<lambda>r. - br_started_at r) (filter (\<lambda>r. br_user_id r = u) (t_backup_runs d))))"

definition LastSuccess :: "string \<Rightarrow> (db_error, backup_run option) prog" where
  "LastSuccess u = query (\<lambda>d. select_one (\<lambda>_. True)
     (sort_key (\<lambda>r. - br_started_at r) (filter (\<lambda>r. br_user_id r = u \<and> br_status r = BackupRunOK) (t_backup_runs d))))"

definition LastRun :: "string \<Rightarrow> (db_error, backup_run option) prog" where
  "LastRun u = query (\<lambda>d. select_one (\<lambda>_. True)
     (sort_key (\<lambda>r. - br_started_at r) (filter (\<lambda>r. br_user_id r = u) (t_backup_runs d))))"

definition MarkStaleBackups :: "int \<Rightarrow> (db_error, nat) prog" where
  "MarkStaleBackups startedBefore = andThen now (\<lambda>t. stmt (\<lambda>d.
     let stale = (\<lambda>r. br_status r = BackupRunRunning \<and> br_started_at r < startedBefore)
     in Inr (affected stale (t_backup_runs d), d\<lparr>t_backup_runs := map (\<lambda>r. if stale r
          then r\<lparr>br_status := BackupRunInterrupted, br_finished_at := Some t, br_error_message := ''server restarted''\<rparr>
          else r) (t_backup_runs d)\<rparr>)))"

definition GetBackupSettings :: "string \<Rightarrow> (db_error, backup_settings option) prog" where
  "GetBackupSettings u = query (\<lambda>d. select_one (\<lambda>s. bs_user_id s = u) (t_backup_settings d))"

definition UpsertBackupSettings :: "backup_settings \<Rightarrow> (db_error, unit) prog" where
  "UpsertBackupSettings s = stmt (\<lambda>d.
     if \<not> has_user d (bs_user_id s) then Inl ErrConstraint
     else Inr ((), d\<lparr>t_backup_settings :=
       (if bs_user_id s \<in> bs_user_id ` set (t_backup_settings d) then upsert_row bs_user_id s (t_backup_settings d)
        else t_backup_settings d @ [s])\<rparr>))"

definition ListAllBackupSettings :: "(db_error, backup_settings list) prog" where
  "ListAllBackupSettings = query t_backup_settings"

subsection \<open>The service\<close>

definition DefaultMaxRestoreBytes :: int where "DefaultMaxRestoreBytes = 128 * 2 ^ 20"

record backup_service =
  bk_dir :: string
  bk_default_schedule :: string
  bk_default_retention :: int
  bk_max_restore :: int
  bk_states :: bool
  bk_runs :: bool
  bk_wd :: "string option"
  bk_zone :: int

definition NewBackupService :: "string \<Rightarrow> string \<Rightarrow> int \<Rightarrow> string option \<Rightarrow> int \<Rightarrow> backup_service" where
  "NewBackupService dir schedule retention wd zone = \<lparr>bk_dir = dir, bk_default_schedule = schedule,
     bk_default_retention = (if retention \<le> 0 then 7 else retention), bk_max_restore = DefaultMaxRestoreBytes,
     bk_states = False, bk_runs = False, bk_wd = wd, bk_zone = zone\<rparr>"

definition WithSyncStateRepo :: "backup_service \<Rightarrow> backup_service" where "WithSyncStateRepo S = S\<lparr>bk_states := True\<rparr>"
definition WithRunRepo :: "backup_service \<Rightarrow> backup_service" where "WithRunRepo S = S\<lparr>bk_runs := True\<rparr>"

definition WithMaxRestoreBytes :: "int \<Rightarrow> backup_service \<Rightarrow> backup_service" where
  "WithMaxRestoreBytes m S = (if m > 0 then S\<lparr>bk_max_restore := m\<rparr> else S)"

text \<open>\<open>gz_read\<close> answers the bytes a reader gets out of a stream and whether the stream ends well, \<open>None\<close> when it has
  no gzip header.\<close>

record gzip =
  gz_write :: "string \<Rightarrow> string"
  gz_read :: "string \<Rightarrow> (string \<times> bool) option"

datatype backup_error = BkDB db_error | BkOs os_error | BkSvc service_error | BkInvalidPath | BkNotFound | BkGzip | BkReadData
  | ErrBackupTooLarge int | ErrEmptyBackup nat | BkRetention "(string \<times> os_error) list" | BkReconcile db_error

record backup_info =
  bi_id :: string
  bi_size :: nat
  bi_created_at :: int

definition GetSettings :: "backup_service \<Rightarrow> string \<Rightarrow> (backup_error, backup_settings) prog" where
  "GetSettings S u = andThen (wrapErr BkDB (GetBackupSettings u)) (\<lambda>found. ret (case found of
     Some s \<Rightarrow> s
   | None \<Rightarrow> \<lparr>bs_user_id = u, bs_schedule = bk_default_schedule S, bs_retention = bk_default_retention S,
       bs_enabled = (bk_default_schedule S \<noteq> []), bs_compress = False, bs_updated_at = 0\<rparr>))"

definition SaveSettings :: "string \<Rightarrow> backup_settings \<Rightarrow> (backup_error, unit) prog" where
  "SaveSettings u s = andThen now (\<lambda>t. wrapErr BkDB (UpsertBackupSettings (s\<lparr>bs_user_id := u, bs_updated_at := t\<rparr>)))"

definition GetUserSchedule :: "backup_service \<Rightarrow> string \<Rightarrow> (backup_error, string) prog" where
  "GetUserSchedule S u = andThen (GetSettings S u) (\<lambda>s. ret (if \<not> bs_enabled s then [] else bs_schedule s))"

definition startRun :: "backup_service \<Rightarrow> string \<Rightarrow> string \<Rightarrow> ('e, backup_run option) prog" where
  "startRun S u trigger =
     (if \<not> bk_runs S then ret None
      else andThen mint (\<lambda>i. andThen now (\<lambda>t.
        let run = \<lparr>br_id = i, br_user_id = u, br_trigger = trigger, br_status = BackupRunRunning, br_filename = [],
              br_size_bytes = 0, br_contact_count = 0, br_compressed = False, br_error_message = [],
              br_started_at = t, br_finished_at = None\<rparr>
        in andThen (attempt (CreateBackupRun run)) (\<lambda>r. ret (case r of Inl _ \<Rightarrow> None | Inr _ \<Rightarrow> Some run)))))"

definition finishRun :: "(backup_error \<Rightarrow> string) \<Rightarrow> backup_run option \<Rightarrow> backup_error + backup_info \<times> nat \<Rightarrow> ('e, unit) prog" where
  "finishRun msg run outcome = (case run of
     None \<Rightarrow> ret ()
   | Some r0 \<Rightarrow> andThen now (\<lambda>t.
       let r = r0\<lparr>br_finished_at := Some t\<rparr>
       in andThen (attempt (UpdateBackupRun (case outcome of
            Inl e \<Rightarrow> r\<lparr>br_status := BackupRunFailed, br_error_message := msg e\<rparr>
          | Inr (info, n) \<Rightarrow> r\<lparr>br_status := BackupRunOK, br_contact_count := n, br_filename := bi_id info,
              br_size_bytes := bi_size info, br_compressed := has_suffix (bi_id info) ''.gz''\<rparr>))) (\<lambda>_. ret ())))"

text \<open>The file is written under a temporary name. What the compressor has put into it before it is closed is not
  read by anyone; the model keeps it empty until then.\<close>

definition write_cards :: "gzip \<Rightarrow> bool \<Rightarrow> string \<Rightarrow> contact list \<Rightarrow> (os_error, unit) prog" where
  "write_cards G compress tmp contacts =
     (if compress
      then andThen (forEach (\<lambda>c _. os_call (\<lambda>_ fs. Inr ((), fs))) contacts ())
        (\<lambda>_. os_Append tmp (gz_write G (concat (map (\<lambda>c. Terminated (c_vcard_data c)) contacts))))
      else forEach (\<lambda>c _. os_Append tmp (Terminated (c_vcard_data c))) contacts ())"

definition writeBackupFile :: "gzip \<Rightarrow> string \<Rightarrow> contact list \<Rightarrow> bool \<Rightarrow> (backup_error, unit) prog" where
  "writeBackupFile G path contacts compress =
     (let tmp = path @ ''.tmp''
      in andThen (wrapErr BkOs (os_Create tmp)) (\<lambda>_.
         andThen (attempt (andThen (write_cards G compress tmp contacts) (\<lambda>_. andThen os_Close (\<lambda>_. os_Rename tmp path)))) (\<lambda>r. case r of
           Inr _ \<Rightarrow> ret ()
         | Inl e \<Rightarrow> andThen (attempt os_Close) (\<lambda>_. andThen (attempt (os_Remove tmp)) (\<lambda>_. throw (BkOs e))))))"

definition isBackupFilename :: "string \<Rightarrow> bool" where
  "isBackupFilename name \<longleftrightarrow> has_suffix name ''.vcf'' \<or> has_suffix name ''.vcf.gz''"

definition cut_digits :: "nat \<Rightarrow> string \<Rightarrow> string option" where
  "cut_digits k s = (if k \<le> length s \<and> list_all is_digit (take k s) then Some (drop k s) else None)"

text \<open>The regular expression \<open>mintedBackupName\<close>, from the left.\<close>

definition isMintedBackup :: "string \<Rightarrow> bool" where
  "isMintedBackup name =
     (case Option.bind (cut_prefix name ''backup-'') (\<lambda>a. Option.bind (cut_digits 8 a) (\<lambda>b. Option.bind (cut_prefix b ''-'') (\<lambda>c.
        Option.bind (cut_digits 6 c) (\<lambda>d. Option.bind (cut_prefix d ''-'') (\<lambda>e. cut_digits 3 e))))) of
        None \<Rightarrow> False | Some rest \<Rightarrow> rest = ''.vcf'' \<or> rest = ''.vcf.gz'')"

text \<open>One entry of the user's directory: the subdirectories are not among the entries of \<open>os_ReadDir\<close>; a file that \<open>entry.Info\<close> fails on is left out.\<close>

definition list_entry :: "backup_service \<Rightarrow> string \<Rightarrow> string \<Rightarrow> backup_info list \<Rightarrow> (backup_error, backup_info list) prog" where
  "list_entry S u name backups =
     (if \<not> isBackupFilename name then ret backups
      else andThen (attempt (os_Stat (join_path [bk_dir S, u, name]))) (\<lambda>r. ret (case r of
        Inl _ \<Rightarrow> backups
      | Inr f \<Rightarrow> backups @ [\<lparr>bi_id = name, bi_size = length (fl_data f), bi_created_at = fl_mtime f\<rparr>])))"

definition BackupList :: "(backup_info list \<Rightarrow> backup_info list) \<Rightarrow> backup_service \<Rightarrow> string \<Rightarrow> (backup_error, backup_info list) prog" where
  "BackupList ord S u =
     andThen (attempt (os_ReadDir (join_path [bk_dir S, u]))) (\<lambda>r. case r of
       Inl OsNotExist \<Rightarrow> ret []
     | Inl e \<Rightarrow> throw (BkOs e)
     | Inr entries \<Rightarrow> andThen (forEach (list_entry S u) (map fst entries) []) (\<lambda>backups.
         ret (sort_key (\<lambda>b. - bi_created_at b) (ord backups))))"

definition prune :: "backup_service \<Rightarrow> string \<Rightarrow> backup_info \<Rightarrow> (string \<times> os_error) list \<Rightarrow> (backup_error, (string \<times> os_error) list) prog" where
  "prune S u b errs = andThen (attempt (os_Remove (join_path [bk_dir S, u, bi_id b]))) (\<lambda>r.
     ret (case r of Inl e \<Rightarrow> errs @ [(bi_id b, e)] | Inr _ \<Rightarrow> errs))"

definition applyRetention ::
  "(backup_info list \<Rightarrow> backup_info list) \<Rightarrow> backup_service \<Rightarrow> string \<Rightarrow> int \<Rightarrow> (backup_error, unit) prog" where
  "applyRetention ord S u maxCount =
     andThen (BackupList ord S u) (\<lambda>listed.
     let backups = filter (\<lambda>b. isMintedBackup (bi_id b)) listed
     in if int (length backups) \<le> maxCount then ret ()
        else andThen (forEach (prune S u) (drop (nat maxCount) backups) []) (\<lambda>errs.
          if errs = [] then ret () else throw (BkRetention errs)))"

definition backup_name :: "backup_service \<Rightarrow> int \<Rightarrow> bool \<Rightarrow> string" where
  "backup_name S t compress = ''backup-'' @ format_stamp (bk_zone S) t @ (if compress then ''.vcf.gz'' else ''.vcf'')"

definition createBackup ::
  "(backup_info list \<Rightarrow> backup_info list) \<Rightarrow> backup_service \<Rightarrow> gzip \<Rightarrow> string \<Rightarrow> (backup_error, backup_info \<times> nat) prog" where
  "createBackup ord S G u =
     andThen (wrapErr BkDB (GetOrCreateByUserID u)) (\<lambda>ab.
     andThen (attempt (GetSettings S u)) (\<lambda>settings.
     let retention = (case settings of Inl _ \<Rightarrow> bk_default_retention S | Inr s \<Rightarrow> bs_retention s);
         compress = (case settings of Inl _ \<Rightarrow> False | Inr s \<Rightarrow> bs_compress s)
     in andThen (wrapErr BkDB (ListAll (ab_id ab))) (\<lambda>contacts.
        andThen (wrapErr BkOs os_MkdirAll) (\<lambda>_.
        andThen now (\<lambda>t.
        let filename = backup_name S t compress; fullPath = join_path [bk_dir S, u, filename]
        in andThen (writeBackupFile G fullPath contacts compress) (\<lambda>_.
           andThen (wrapErr BkOs (os_Stat fullPath)) (\<lambda>f.
           andThen (if retention > 0 then attempt (applyRetention ord S u retention) else ret (Inr ())) (\<lambda>_.
           ret (\<lparr>bi_id = filename, bi_size = length (fl_data f), bi_created_at = fl_mtime f\<rparr>, length contacts)))))))))"

definition CreateWithTrigger ::
  "(backup_info list \<Rightarrow> backup_info list) \<Rightarrow> backup_service \<Rightarrow> gzip \<Rightarrow> (backup_error \<Rightarrow> string) \<Rightarrow> string \<Rightarrow> string \<Rightarrow> (backup_error, backup_info) prog" where
  "CreateWithTrigger ord S G msg u trigger =
     andThen (startRun S u trigger) (\<lambda>run.
     andThen (attempt (createBackup ord S G u)) (\<lambda>outcome.
     andThen (finishRun msg run outcome) (\<lambda>_.
     case outcome of Inl e \<Rightarrow> throw e | Inr (info, n) \<Rightarrow> ret info)))"

definition BackupCreate ::
  "(backup_info list \<Rightarrow> backup_info list) \<Rightarrow> backup_service \<Rightarrow> gzip \<Rightarrow> (backup_error \<Rightarrow> string) \<Rightarrow> string \<Rightarrow> (backup_error, backup_info) prog" where
  "BackupCreate ord S G msg u = CreateWithTrigger ord S G msg u BackupTriggerManual"

definition GetPath :: "backup_service \<Rightarrow> string \<Rightarrow> string \<Rightarrow> (backup_error, string) prog" where
  "GetPath S u backupID =
     (if \<not> isBackupFilename backupID then throw BkInvalidPath
      else let fullPath = join_path [bk_dir S, u, backupID]
      in case (abs_path (bk_wd S) fullPath, abs_path (bk_wd S) (join_path [bk_dir S, u])) of
           (Some absPath, Some absBase) \<Rightarrow>
             if \<not> has_prefix absPath (absBase @ ''/'') \<and> absPath \<noteq> absBase then throw BkInvalidPath
             else andThen (attempt (os_Stat fullPath)) (\<lambda>r. case r of Inl _ \<Rightarrow> throw BkNotFound | Inr _ \<Rightarrow> ret fullPath)
         | _ \<Rightarrow> throw (BkOs OsIO))"

definition DeleteBackup :: "backup_service \<Rightarrow> string \<Rightarrow> string \<Rightarrow> (backup_error, unit) prog" where
  "DeleteBackup S u backupID = andThen (GetPath S u backupID) (\<lambda>p. wrapErr BkOs (os_Remove p))"

subsection \<open>Restoring\<close>

text \<open>\<open>io.ReadAll(io.LimitReader(r, max+1))\<close> on the bytes of a reader: a reader that would fail is not asked further
  once the limit is reached.\<close>

definition read_limited :: "int \<Rightarrow> string \<times> bool \<Rightarrow> string option" where
  "read_limited n r = (if n \<le> int (length (fst r)) then Some (take (nat n) (fst r)) else if snd r then Some (fst r) else None)"

definition readBackupFile :: "backup_service \<Rightarrow> gzip \<Rightarrow> string \<Rightarrow> (backup_error, string) prog" where
  "readBackupFile S G path =
     andThen (wrapErr BkOs (os_ReadFile path)) (\<lambda>bytes.
     case (if has_suffix path ''.gz'' then gz_read G bytes else Some (bytes, True)) of
       None \<Rightarrow> throw BkGzip
     | Some r \<Rightarrow>
         let m = (if bk_max_restore S \<le> 0 then DefaultMaxRestoreBytes else bk_max_restore S)
         in case read_limited (m + 1) r of
              None \<Rightarrow> throw BkReadData
            | Some data \<Rightarrow> if int (length data) > m then throw (ErrBackupTooLarge m) else ret data)"

record restore_result =
  rr_imported :: nat
  rr_skipped :: nat
  rr_errors :: nat

definition restore_failed :: "restore_result \<Rightarrow> restore_result" where
  "restore_failed r = r\<lparr>rr_errors := rr_errors r + 1\<rparr>"

type_synonym prepared = "(contact \<times> parsed_contact) list"

definition prepare_card :: "lib \<Rightarrow> string \<Rightarrow> string \<Rightarrow> prepared \<times> restore_result \<Rightarrow> (backup_error, prepared \<times> restore_result) prog" where
  "prepare_card L b vc0 st =
     (let vc = Terminated vc0
      in if vc = [] then ret st
         else case ParseVCard L vc of
           Inl _ \<Rightarrow> ret (fst st, restore_failed (snd st))
         | Inr parsed0 \<Rightarrow>
             andThen (wrapErr BkSvc (identified L vc parsed0)) (\<lambda>(uid, data, parsed).
             andThen now (\<lambda>t.
             andThen mint (\<lambda>i.
             andThen (wrapErr BkDB ctx_err) (\<lambda>_.
             ret (fst st @ [(new_contact L b uid data t parsed i, parsed)], snd st))))))"

definition restore_one :: "string \<Rightarrow> string \<Rightarrow> contact \<times> parsed_contact \<Rightarrow> restore_result \<Rightarrow> (backup_error, restore_result) prog" where
  "restore_one b mode p r =
     (let c = fst p;
          save = andThen (attempt (save_parsed c (snd p))) (\<lambda>out. ret (case out of
            Inl _ \<Rightarrow> restore_failed r | Inr _ \<Rightarrow> r\<lparr>rr_imported := rr_imported r + 1\<rparr>))
      in if mode = ''merge''
         then andThen (attempt (GetByUID b (c_uid c))) (\<lambda>found. case found of
           Inl _ \<Rightarrow> ret (restore_failed r)
         | Inr (Some _) \<Rightarrow> ret (r\<lparr>rr_skipped := rr_skipped r + 1\<rparr>)
         | Inr None \<Rightarrow> save)
         else save)"

definition reconcile_one :: "string \<Rightarrow> sync_state \<Rightarrow> unit \<Rightarrow> (db_error, unit) prog" where
  "reconcile_one b st _ =
     (if ss_local_id st = [] then ret ()
      else andThen (GetByUID b (ss_local_id st)) (\<lambda>found. case found of
        Some _ \<Rightarrow> ret () | None \<Rightarrow> DeleteState (ss_id st)))"

definition reconcileSyncState :: "backup_service \<Rightarrow> string \<Rightarrow> string \<Rightarrow> (db_error, unit) prog" where
  "reconcileSyncState S u b =
     (if \<not> bk_states S then ret ()
      else andThen (ListAllByUser u) (\<lambda>states. forEach (reconcile_one b) states ()))"

definition Restore :: "lib \<Rightarrow> backup_service \<Rightarrow> gzip \<Rightarrow> string \<Rightarrow> string \<Rightarrow> string \<Rightarrow> (backup_error, restore_result) prog" where
  "Restore L S G u backupID mode =
     andThen (GetPath S u backupID) (\<lambda>fullPath.
     andThen (wrapErr BkDB (GetOrCreateByUserID u)) (\<lambda>ab.
     andThen (readBackupFile S G fullPath) (\<lambda>data.
     andThen (forEach (prepare_card L (ab_id ab)) (SplitVCards (l_unicode L) data) ([], \<lparr>rr_imported = 0, rr_skipped = 0, rr_errors = 0\<rparr>))
       (\<lambda>(prepared, result).
     andThen (if mode = ''replace''
              then if prepared = [] then throw (ErrEmptyBackup (rr_errors result)) else wrapErr BkDB (DeleteAll (ab_id ab))
              else ret ()) (\<lambda>_.
     andThen (forEach (restore_one (ab_id ab) mode) prepared result) (\<lambda>result'.
     andThen (wrapErr BkReconcile (reconcileSyncState S u (ab_id ab))) (\<lambda>_. ret result')))))))"

section \<open>Lemmas\<close>

subsection \<open>Where a backup may be\<close>

lemma GetPath_found:
  assumes "GetPath S u backupID w = (Inr p, w')"
  shows "p = join_path [bk_dir S, u, backupID]" "isBackupFilename backupID" "w_db w' = w_db w" "w_files w' = w_files w"
    "\<exists>q base. abs_path (bk_wd S) p = Some q \<and> abs_path (bk_wd S) (join_path [bk_dir S, u]) = Some base
       \<and> (q = base \<or> has_prefix q (base @ ''/''))"
    "\<exists>f. map_of (w_files w) p = Some f"
proof -
  let ?p = "join_path [bk_dir S, u, backupID]"
  from assms obtain q base where name: "isBackupFilename backupID"
    and abs: "abs_path (bk_wd S) ?p = Some q" "abs_path (bk_wd S) (join_path [bk_dir S, u]) = Some base" "q = base \<or> has_prefix q (base @ ''/'')"
    and run: "andThen (attempt (os_Stat ?p)) (\<lambda>r. case r of Inl _ \<Rightarrow> throw BkNotFound | Inr _ \<Rightarrow> ret ?p) w = (Inr p, w')"
    by (auto simp: GetPath_def Let_def prog_simps split: if_splits option.splits)
  from run have stat: "p = ?p" "\<exists>f. os_Stat ?p w = (Inr f, w')"
    by (auto simp: andThen_def attempt_def prog_simps split: prod.splits sum.splits)
  then show "w_db w' = w_db w" "w_files w' = w_files w" "\<exists>f. map_of (w_files w) p = Some f"
    by (auto simp: os_Stat_def os_call_def Let_def split: if_splits option.splits)
  show "p = ?p" "isBackupFilename backupID" by (fact stat(1)) (fact name)
  show "\<exists>q base. abs_path (bk_wd S) p = Some q \<and> abs_path (bk_wd S) (join_path [bk_dir S, u]) = Some base \<and> (q = base \<or> has_prefix q (base @ ''/''))"
    using stat(1) abs by blast
qed

subsection \<open>Writing a backup\<close>

text \<open>The bytes of a finished backup.\<close>

definition backup_bytes :: "gzip \<Rightarrow> bool \<Rightarrow> contact list \<Rightarrow> string" where
  "backup_bytes G compress contacts =
     (let text = concat (map (\<lambda>c. Terminated (c_vcard_data c)) contacts) in if compress then gz_write G text else text)"

lemma confined_write_cards [confine]: "tmp \<in> P \<Longrightarrow> confined P (write_cards G compress tmp contacts)"
  unfolding write_cards_def by (intro confine confined_os_call) simp_all

lemma append_cards:
  assumes "forEach (\<lambda>c _. os_Append tmp (Terminated (c_vcard_data c))) contacts () w = (Inr (), w')" "map_of (w_files w) tmp = Some f"
  shows "\<exists>f'. map_of (w_files w') tmp = Some f' \<and> fl_data f' = fl_data f @ concat (map (\<lambda>c. Terminated (c_vcard_data c)) contacts)"
  using assms
proof (induction contacts arbitrary: w f)
  case (Cons c cs)
  then obtain w1 where 1: "os_Append tmp (Terminated (c_vcard_data c)) w = (Inr (), w1)"
    and 2: "forEach (\<lambda>c _. os_Append tmp (Terminated (c_vcard_data c))) cs () w1 = (Inr (), w')" by (auto simp: andThen_Inr)
  from os_commit(2) [OF 1] Cons.prems(2) Cons.IH [OF 2] show ?case by force
qed (simp add: prog_simps)

lemma write_cards_bytes:
  assumes "write_cards G compress tmp contacts w = (Inr (), w')" "map_of (w_files w) tmp = Some f" "fl_data f = []"
  shows "\<exists>f'. map_of (w_files w') tmp = Some f' \<and> fl_data f' = backup_bytes G compress contacts"
proof (cases compress)
  case True
  let ?loop = "forEach (\<lambda>c _. os_call (\<lambda>_ fs. Inr ((), fs))) contacts () :: (os_error, unit) prog"
  from assms(1) True obtain w1 where loop: "?loop w = (Inr (), w1)"
    and put: "os_Append tmp (gz_write G (concat (map (\<lambda>c. Terminated (c_vcard_data c)) contacts))) w1 = (Inr (), w')"
    by (auto simp: write_cards_def andThen_Inr)
  have "confined {} ?loop" by (intro confine confined_os_call) simp
  from confinedD(3) [OF this loop] os_commit(2) [OF put] assms(2,3) True show ?thesis by (auto simp: backup_bytes_def)
next
  case False
  then show ?thesis using append_cards [of tmp contacts w w' f] assms by (simp add: write_cards_def backup_bytes_def)
qed

lemma confined_writeBackupFile: "confined {path, path @ ''.tmp''} (writeBackupFile G path contacts compress)"
  unfolding writeBackupFile_def Let_def by (intro confine) simp_all

text \<open>Until it is renamed, the new file is nowhere but under its temporary name.\<close>

lemma publish_failed:
  assumes "andThen (write_cards G compress tmp contacts) (\<lambda>_. andThen os_Close (\<lambda>_. os_Rename tmp path)) w = (Inl e, w')" "tmp \<noteq> path"
  shows "map_of (w_files w') path = map_of (w_files w) path"
proof -
  obtain rw w3 where wr: "write_cards G compress tmp contacts w = (rw, w3)" by fastforce
  obtain rcl w4 where cl: "os_Close w3 = (rcl, w4)" by fastforce
  have 3: "map_of (w_files w3) path = map_of (w_files w) path" using confinedD(3) [OF confined_write_cards [of tmp "{tmp}"] wr, of path] assms(2) by auto
  have 4: "map_of (w_files w4) path = map_of (w_files w3) path" using confinedD(3) [OF confined_os(5) [of "{}"] cl] by simp
  have "w_files w' = w_files w4" if "os_Rename tmp path w4 = (Inl e, w')"
    using that by (auto simp: os_Rename_def os_call_def Let_def split: if_splits sum.splits option.splits)
  then show ?thesis using assms(1) wr cl 3 4 by (cases rw; cases rcl) (auto simp: andThen_def)
qed

lemma writeBackupFile_failed:
  assumes "writeBackupFile G path contacts compress w = (Inl e, w')"
  shows "map_of (w_files w') path = map_of (w_files w) path"
proof -
  let ?tmp = "path @ ''.tmp''"
  let ?body = "andThen (write_cards G compress ?tmp contacts) (\<lambda>_. andThen os_Close (\<lambda>_. os_Rename ?tmp path))"
  let ?undo = "\<lambda>e. andThen (attempt os_Close) (\<lambda>_. andThen (attempt (os_Remove ?tmp)) (\<lambda>_. throw (BkOs e))) :: (backup_error, unit) prog"
  obtain rc w1 where create: "os_Create ?tmp w = (rc, w1)" by fastforce
  obtain rb w2 where body: "?body w1 = (rb, w2)" by fastforce
  have 1: "map_of (w_files w1) path = map_of (w_files w) path" by (rule confinedD(3) [OF confined_os(1) create, of "{?tmp}"]) simp_all
  have undo: "confined {?tmp} (?undo e)" for e by (intro confine) simp
  show ?thesis
  proof (cases rc)
    case (Inr x)
    from assms create Inr body obtain eb where rb: "rb = Inl eb" and rest: "?undo eb w2 = (Inl e, w')"
      by (cases rb) (simp_all add: writeBackupFile_def Let_def andThen_def wrapErr_def attempt_def prog_simps)
    show ?thesis using confinedD(3) [OF undo rest, of path] publish_failed [OF body [unfolded rb]] 1 by simp
  qed (use assms create 1 in \<open>simp add: writeBackupFile_def Let_def andThen_def wrapErr_def\<close>)
qed

lemma writeBackupFile_done:
  assumes "writeBackupFile G path contacts compress w = (Inr (), w')"
  shows "\<exists>f. map_of (w_files w') path = Some f \<and> fl_data f = backup_bytes G compress contacts"
    "map_of (w_files w') (path @ ''.tmp'') = None"
proof -
  let ?tmp = "path @ ''.tmp''"
  let ?body = "andThen (write_cards G compress ?tmp contacts) (\<lambda>_. andThen os_Close (\<lambda>_. os_Rename ?tmp path))"
  obtain rc w1 where create: "os_Create ?tmp w = (rc, w1)" by fastforce
  with assms have 1: "os_Create ?tmp w = (Inr (), w1)" by (cases rc) (simp_all add: writeBackupFile_def Let_def andThen_def wrapErr_def)
  obtain rb w2 where body: "?body w1 = (rb, w2)" by fastforce
  with assms 1 have "rb = Inr ()" "w2 = w'"
    by (cases rb; auto simp: writeBackupFile_def Let_def andThen_def wrapErr_def attempt_def prog_simps split: prod.splits)+
  with body obtain w3 w4 where 2: "write_cards G compress ?tmp contacts w1 = (Inr (), w3)" "os_Close w3 = (Inr (), w4)" "os_Rename ?tmp path w4 = (Inr (), w')"
    by (auto simp: andThen_Inr)
  from write_cards_bytes [OF 2(1) os_commit(1) [OF 1]] os_commit(8) [OF 2(2)] os_commit(3) [OF 2(3)]
  show "\<exists>f. map_of (w_files w') path = Some f \<and> fl_data f = backup_bytes G compress contacts" "map_of (w_files w') ?tmp = None" by auto
qed

subsection \<open>Retention\<close>

lemma cut_prefix_Some: "cut_prefix s p = Some r \<longleftrightarrow> s = p @ r"
  by (auto simp: cut_prefix_def has_prefix_iff)

lemma cut_digits_Some: "cut_digits k s = Some r \<Longrightarrow> \<exists>ds. s = ds @ r \<and> list_all is_digit ds"
  by (auto simp: cut_digits_def split: if_splits) (metis append_take_drop_id)

lemma no_slash_digits: "list_all is_digit ds \<Longrightarrow> CHR ''/'' \<notin> set ds"
  by (auto simp: list_all_iff is_digit_def)

lemma minted_name: "isMintedBackup name \<Longrightarrow> path_name name"
  by (auto simp: isMintedBackup_def bind_eq_Some_conv cut_prefix_Some path_name_def dest!: cut_digits_Some no_slash_digits split: option.splits)

lemma minted_backup: "isMintedBackup name \<Longrightarrow> isBackupFilename name"
  by (auto simp: isMintedBackup_def isBackupFilename_def bind_eq_Some_conv cut_prefix_Some has_suffix_def dest!: cut_digits_Some split: option.splits)

definition minted_files :: "backup_service \<Rightarrow> string \<Rightarrow> world \<Rightarrow> (string \<times> disk_file) set" where
  "minted_files S u w = {(n, f). isMintedBackup n \<and> map_of (w_files w) (join_path [bk_dir S, u, n]) = Some f}"

definition info_of :: "string \<times> disk_file \<Rightarrow> backup_info" where
  "info_of e = \<lparr>bi_id = fst e, bi_size = length (fl_data (snd e)), bi_created_at = fl_mtime (snd e)\<rparr>"

text \<open>The loop over the entries: what it lists is there, and everything is listed when no call fails.\<close>

definition no_faults :: "world \<Rightarrow> bool" where
  "no_faults w \<longleftrightarrow> True \<notin> set (w_faults w)"

lemma faults_tl: "True \<notin> set xs \<Longrightarrow> True \<notin> set (tl xs)"
  by (cases xs) auto

lemma stat_quiet:
  "os_Stat p w = (r, w') \<Longrightarrow> w_files w' = w_files w \<and> (no_faults w \<longrightarrow> no_faults w' \<and> (\<forall>f. map_of (w_files w) p = Some f \<longrightarrow> r = Inr f))"
  by (auto simp: os_Stat_def os_call_def no_faults_def Let_def split: if_splits option.splits dest: faults_tl hd_in_set)

lemma list_loop:
  assumes "forEach (list_entry S u) names acc w = (Inr acc', w')" "distinct names"
  shows "w_files w' = w_files w \<and> (\<exists>new. acc' = acc @ new \<and> distinct (map bi_id new) \<and> bi_id ` set new \<subseteq> set names
    \<and> (\<forall>b \<in> set new. \<exists>f. map_of (w_files w) (join_path [bk_dir S, u, bi_id b]) = Some f \<and> b = info_of (bi_id b, f))
    \<and> (no_faults w \<longrightarrow> (\<forall>n \<in> set names. isBackupFilename n \<longrightarrow> map_of (w_files w) (join_path [bk_dir S, u, n]) \<noteq> None \<longrightarrow> n \<in> bi_id ` set new)))"
  using assms
proof (induction names arbitrary: acc w)
  case (Cons n names)
  let ?p = "join_path [bk_dir S, u, n]"
  obtain acc1 w1 where one: "list_entry S u n acc w = (Inr acc1, w1)" and rest: "forEach (list_entry S u) names acc1 w1 = (Inr acc', w')"
    using Cons.prems(1) by (auto simp: andThen_Inr)
  have step: "w_files w1 = w_files w \<and> (no_faults w \<longrightarrow> no_faults w1) \<and> (acc1 = acc \<and> (no_faults w \<longrightarrow> isBackupFilename n \<longrightarrow> map_of (w_files w) ?p = None)
      \<or> (\<exists>f. map_of (w_files w) ?p = Some f \<and> acc1 = acc @ [info_of (n, f)]))"
  proof (cases "isBackupFilename n")
    case True
    obtain r w2 where stat: "os_Stat ?p w = (r, w2)" by fastforce
    with True one have "w1 = w2" "acc1 = (case r of Inl _ \<Rightarrow> acc | Inr f \<Rightarrow> acc @ [info_of (n, f)])"
      by (auto simp: list_entry_def andThen_def attempt_def prog_simps info_of_def split: sum.split)
    with stat_quiet [OF stat] stat os_commit(5) [of ?p w _ w2] show ?thesis by (cases r) auto
  qed (use one in \<open>auto simp: list_entry_def prog_simps\<close>)
  note IH = Cons.IH [OF rest]
  have names: "distinct names" "n \<notin> set names" using Cons.prems(2) by auto
  obtain new where new: "acc' = acc1 @ new" "distinct (map bi_id new)" "bi_id ` set new \<subseteq> set names"
    "\<forall>b \<in> set new. \<exists>f. map_of (w_files w) (join_path [bk_dir S, u, bi_id b]) = Some f \<and> b = info_of (bi_id b, f)" and files: "w_files w' = w_files w"
    and all: "no_faults w \<Longrightarrow> \<forall>n \<in> set names. isBackupFilename n \<longrightarrow> map_of (w_files w) (join_path [bk_dir S, u, n]) \<noteq> None \<longrightarrow> n \<in> bi_id ` set new"
    using IH [OF names(1)] step by (metis (no_types, lifting))
  have id: "bi_id (info_of (n, f)) = n" for f by (simp add: info_of_def)
  from step show ?case
  proof (elim conjE disjE exE)
    assume "acc1 = acc" "no_faults w \<longrightarrow> isBackupFilename n \<longrightarrow> map_of (w_files w) ?p = None"
    with new files all show ?thesis by (intro conjI exI [of _ new]) auto
  next
    fix f assume f: "map_of (w_files w) ?p = Some f" "acc1 = acc @ [info_of (n, f)]"
    with new files all names id show ?thesis by (intro conjI exI [of _ "info_of (n, f) # new"]) auto
  qed
qed (simp add: prog_simps)

lemma list_total: "\<exists>bs w'. forEach (list_entry S u) names acc w = (Inr bs, w')"
  by (induction names arbitrary: acc w) (auto simp: list_entry_def andThen_def attempt_def prog_simps split: prod.splits)

lemma BackupList_files: "BackupList ord S u w = (r, w') \<Longrightarrow> w_files w' = w_files w"
proof -
  assume run: "BackupList ord S u w = (r, w')"
  obtain e w1 where dir: "os_ReadDir (join_path [bk_dir S, u]) w = (e, w1)" by fastforce
  then have w1: "w_files w1 = w_files w" by (auto simp: os_ReadDir_def os_call_def Let_def split: if_splits)
  have loop: "w_files w2 = w_files w1" if "forEach (list_entry S u) ns acc w1 = (x, w2)" for ns acc x w2
    using that
  proof (induction ns arbitrary: acc w1)
    case (Cons n ns)
    then obtain acc1 w3 where "list_entry S u n acc w1 = (Inr acc1, w3)" "forEach (list_entry S u) ns acc1 w3 = (x, w2)"
      using list_total [of S u "[n]" acc w1] by (auto simp: andThen_def prog_simps split: prod.splits sum.splits)
    moreover have "w_files w3 = w_files w1" using calculation(1) stat_quiet
      by (fastforce simp: list_entry_def andThen_def attempt_def prog_simps split: if_splits prod.splits)
    ultimately show ?case using Cons.IH by simp
  qed (simp add: prog_simps)
  show "w_files w' = w_files w"
    using run dir w1 loop by (auto simp: BackupList_def andThen_def attempt_def prog_simps split: prod.splits sum.splits os_error.splits)
qed

lemma minted_entries:
  assumes "distinct (map fst (w_files w))" "path_name u"
  shows "(n, f) \<in> minted_files S u w \<longleftrightarrow> isMintedBackup n \<and> (n, f) \<in> set (dir_entries (join_path [bk_dir S, u]) (w_files w))"
  using minted_name [of n] assms by (auto simp: minted_files_def dir_entries_iff join_path_entry path_name_def)

lemma finite_minted: "distinct (map fst (w_files w)) \<Longrightarrow> path_name u \<Longrightarrow> finite (minted_files S u w)"
  by (rule finite_subset [of _ "set (dir_entries (join_path [bk_dir S, u]) (w_files w))"]) (auto simp: minted_entries)

lemma BackupList_listed:
  assumes "BackupList ord S u w = (Inr listed, w')" "\<forall>xs. mset (ord xs) = mset xs" "distinct (map fst (w_files w))" "path_name u"
  shows "w_files w' = w_files w" "distinct (map bi_id (filter (\<lambda>b. isMintedBackup (bi_id b)) listed))"
    "set (filter (\<lambda>b. isMintedBackup (bi_id b)) listed) \<subseteq> info_of ` minted_files S u w"
    "no_faults w \<Longrightarrow> set (filter (\<lambda>b. isMintedBackup (bi_id b)) listed) = info_of ` minted_files S u w"
    "sorted (map (\<lambda>b. - bi_created_at b) (filter (\<lambda>b. isMintedBackup (bi_id b)) listed))"
proof -
  let ?d = "join_path [bk_dir S, u]" let ?es = "dir_entries ?d (w_files w)"
  show "w_files w' = w_files w" by (rule BackupList_files [OF assms(1)])
  let ?w1 = "w\<lparr>w_faults := tl (w_faults w)\<rparr>"
  obtain new w2 where loop: "forEach (list_entry S u) (map fst ?es) [] ?w1 = (Inr new, w2)" using list_total by blast
  have listed: "listed = sort_key (\<lambda>b. - bi_created_at b) (ord new)"
    using assms(1) loop
    by (auto simp: BackupList_def andThen_def attempt_def prog_simps os_ReadDir_def os_call_def Let_def split: prod.splits sum.splits os_error.splits if_splits)
  have w1: "w_files ?w1 = w_files w" "no_faults w \<Longrightarrow> no_faults ?w1" by (auto simp: no_faults_def dest: faults_tl)
  have "distinct (map fst ?es)" by (rule distinct_entries [OF assms(3)])
  note L = list_loop [OF loop this, unfolded w1(1)]
  have new: "distinct (map bi_id new)" "\<forall>b \<in> set new. \<exists>f. map_of (w_files w) (join_path [bk_dir S, u, bi_id b]) = Some f \<and> b = info_of (bi_id b, f)"
    "no_faults w \<Longrightarrow> \<forall>n \<in> set (map fst ?es). isBackupFilename n \<longrightarrow> map_of (w_files w) (join_path [bk_dir S, u, n]) \<noteq> None \<longrightarrow> n \<in> bi_id ` set new"
    using L w1(2) by auto
  have ms: "mset listed = mset new" using assms(2) by (simp add: listed mset_sort)
  then have set: "set listed = set new" by (metis mset_eq_setD)
  have "distinct (map bi_id listed)" using new(1) ms by (metis mset_map mset_eq_imp_distinct_iff)
  then show "distinct (map bi_id (filter (\<lambda>b. isMintedBackup (bi_id b)) listed))" by (rule distinct_map_filter)
  show "sorted (map (\<lambda>b. - bi_created_at b) (filter (\<lambda>b. isMintedBackup (bi_id b)) listed))" by (simp add: listed sorted_filter)
  show sub: "set (filter (\<lambda>b. isMintedBackup (bi_id b)) listed) \<subseteq> info_of ` minted_files S u w"
    using new(2) by (fastforce simp: set minted_files_def)
  show "set (filter (\<lambda>b. isMintedBackup (bi_id b)) listed) = info_of ` minted_files S u w" if quiet: "no_faults w"
  proof (rule equalityI [OF sub], rule subsetI)
    fix b assume "b \<in> info_of ` minted_files S u w"
    then obtain n f where b: "b = info_of (n, f)" "(n, f) \<in> minted_files S u w" by auto
    then have n: "isMintedBackup n" "map_of (w_files w) (join_path [bk_dir S, u, n]) = Some f" by (auto simp: minted_files_def)
    moreover have "n \<in> set (map fst ?es)" using b(2) minted_entries [OF assms(3,4)] by force
    ultimately obtain c where c: "c \<in> set new" "bi_id c = n" using new(3) [OF quiet] minted_backup [OF n(1)] by fastforce
    then have "c = b" using new(2) n(2) b(1) by fastforce
    with c n(1) show "b \<in> set (filter (\<lambda>b. isMintedBackup (bi_id b)) listed)" by (auto simp: set)
  qed
qed

lemma prune_loop:
  assumes "forEach (prune S u) bs errs w = (Inr errs', w')"
  shows "\<forall>q. map_of (w_files w') q = map_of (w_files w) q \<or> q \<in> (\<lambda>b. join_path [bk_dir S, u, bi_id b]) ` set bs \<and> map_of (w_files w') q = None"
    "\<exists>more. errs' = errs @ more" "errs' = errs \<Longrightarrow> \<forall>b \<in> set bs. map_of (w_files w') (join_path [bk_dir S, u, bi_id b]) = None"
proof -
  have "(\<forall>q. map_of (w_files w') q = map_of (w_files w) q \<or> q \<in> (\<lambda>b. join_path [bk_dir S, u, bi_id b]) ` set bs \<and> map_of (w_files w') q = None)
     \<and> (\<exists>more. errs' = errs @ more) \<and> (errs' = errs \<longrightarrow> (\<forall>b \<in> set bs. map_of (w_files w') (join_path [bk_dir S, u, bi_id b]) = None))"
    using assms
  proof (induction bs arbitrary: errs w)
    case (Cons b bs)
    let ?p = "join_path [bk_dir S, u, bi_id b]"
    obtain r w1 where rm: "os_Remove ?p w = (r, w1)" by fastforce
    let ?errs = "case r of Inl e \<Rightarrow> errs @ [(bi_id b, e)] | Inr _ \<Rightarrow> errs"
    have "prune S u b errs w = (Inr ?errs, w1)" using rm by (simp add: prune_def andThen_def attempt_def prog_simps)
    then have rest: "forEach (prune S u) bs ?errs w1 = (Inr errs', w')" using Cons.prems by (simp add: andThen_def)
    note IH = Cons.IH [OF rest]
    have one: "map_of (w_files w1) q = map_of (w_files w) q \<or> q = ?p \<and> map_of (w_files w1) q = None" for q
      using os_Remove_effect [OF rm] confinedD(3) [OF confined_os(3) rm, of "{?p}" q] by (cases "q = ?p") auto
    have gone: "map_of (w_files w') ?p = None" if "errs' = errs"
    proof (cases r)
      case (Inr x)
      with os_commit(4) rm IH show ?thesis by (metis (full_types) old.unit.exhaust)
    qed (use that IH in auto)
    have same: "?errs = errs" if "errs' = errs" using that IH by (cases r) auto
    have grow: "\<exists>more. errs' = errs @ more" using IH by (cases r) auto
    have "map_of (w_files w') q = map_of (w_files w) q \<or> q \<in> (\<lambda>b. join_path [bk_dir S, u, bi_id b]) ` set (b # bs) \<and> map_of (w_files w') q = None" for q
      using conjunct1 [OF IH, rule_format, of q] one [of q] by auto
    with gone same grow IH show ?case by auto
  qed (simp add: prog_simps)
  then show "\<forall>q. map_of (w_files w') q = map_of (w_files w) q \<or> q \<in> (\<lambda>b. join_path [bk_dir S, u, bi_id b]) ` set bs \<and> map_of (w_files w') q = None"
    "\<exists>more. errs' = errs @ more" "errs' = errs \<Longrightarrow> \<forall>b \<in> set bs. map_of (w_files w') (join_path [bk_dir S, u, bi_id b]) = None" by blast+
qed


lemma prune_total: "\<exists>errs w'. forEach (prune S u) bs e w = (Inr errs, w')"
  by (induction bs arbitrary: e w) (auto simp: prune_def andThen_def attempt_def prog_simps split: prod.splits)

lemma join_path_inj: "path_name u \<Longrightarrow> path_name m \<Longrightarrow> path_name n \<Longrightarrow> join_path [dir, u, m] = join_path [dir, u, n] \<longleftrightarrow> m = n"
  by (simp add: join_path_entry)

text \<open>Retention removes the tail of the list: what is left of the sorted backups are the newest.\<close>

lemma applyRetention_effect:
  assumes "applyRetention ord S u n w = (r, w')" "\<forall>xs. mset (ord xs) = mset xs" "distinct (map fst (w_files w))" "path_name u" "0 \<le> n"
  obtains (failed) e where "w_files w' = w_files w" "r = Inl e"
  | (same) listed w1 where "w_files w' = w_files w" "BackupList ord S u w = (Inr listed, w1)" "r = Inr ()" "int (length (filter (\<lambda>b. isMintedBackup (bi_id b)) listed)) \<le> n"
  | (pruned) kept gone listed w1 where "BackupList ord S u w = (Inr listed, w1)" "filter (\<lambda>b. isMintedBackup (bi_id b)) listed = kept @ gone"
    "set kept \<union> set gone \<subseteq> info_of ` minted_files S u w" "distinct (map bi_id (kept @ gone))" "length kept = nat n"
    "\<forall>a \<in> set kept. \<forall>b \<in> set gone. bi_created_at b \<le> bi_created_at a"
    "\<forall>q. map_of (w_files w') q = map_of (w_files w) q \<or> q \<in> (\<lambda>b. join_path [bk_dir S, u, bi_id b]) ` set gone \<and> map_of (w_files w') q = None"
    "r = Inr () \<Longrightarrow> \<forall>b \<in> set gone. map_of (w_files w') (join_path [bk_dir S, u, bi_id b]) = None"
proof -
  obtain rl w1 where list: "BackupList ord S u w = (rl, w1)" by fastforce
  show thesis
  proof (cases rl)
    case (Inl e)
    then show ?thesis using assms(1) list BackupList_files [OF list] by (intro failed) (auto simp: applyRetention_def andThen_def)
  next
    case (Inr listed)
    let ?bs = "filter (\<lambda>b. isMintedBackup (bi_id b)) listed"
    note L = BackupList_listed [OF list [unfolded Inr] assms(2-4)]
    have run: "(if int (length ?bs) \<le> n then ret () else andThen (forEach (prune S u) (drop (nat n) ?bs) [])
        (\<lambda>errs. if errs = [] then ret () else throw (BkRetention errs))) w1 = (r, w')"
      using assms(1) list Inr by (simp add: applyRetention_def andThen_def [of "BackupList ord S u"] Let_def)
    show ?thesis
    proof (cases "int (length ?bs) \<le> n")
      case True
      then show ?thesis using run L(1) list Inr by (intro same) (auto simp: prog_simps)
    next
      case False
      obtain re w2 where loop: "forEach (prune S u) (drop (nat n) ?bs) [] w1 = (re, w2)" by fastforce
      obtain errs where re: "re = Inr errs" using loop prune_total [of S u "drop (nat n) ?bs" "[]" w1] by auto
      then have w2: "w' = w2" "r = Inr () \<Longrightarrow> errs = []" using run False loop by (auto simp: andThen_def prog_simps split: if_splits)
      note P = prune_loop [OF loop [unfolded re]]
      have split: "?bs = take (nat n) ?bs @ drop (nat n) ?bs" by simp
      show ?thesis
      proof (rule pruned)
        show "BackupList ord S u w = (Inr listed, w1)" using list Inr by simp
        show "?bs = take (nat n) ?bs @ drop (nat n) ?bs" by (rule split)
        show "set (take (nat n) ?bs) \<union> set (drop (nat n) ?bs) \<subseteq> info_of ` minted_files S u w" using L(3) split by (metis set_append)
        show "distinct (map bi_id (take (nat n) ?bs @ drop (nat n) ?bs))" using L(2) by simp
        show "length (take (nat n) ?bs) = nat n" using False by simp
        show "\<forall>a \<in> set (take (nat n) ?bs). \<forall>b \<in> set (drop (nat n) ?bs). bi_created_at b \<le> bi_created_at a"
          using L(5) split by (metis (no_types, lifting) map_append neg_le_iff_le sorted_append image_eqI list.set_map)
        show "\<forall>q. map_of (w_files w') q = map_of (w_files w) q \<or> q \<in> (\<lambda>b. join_path [bk_dir S, u, bi_id b]) ` set (drop (nat n) ?bs) \<and> map_of (w_files w') q = None"
          using P(1) L(1) w2(1) by simp
        show "\<forall>b \<in> set (drop (nat n) ?bs). map_of (w_files w') (join_path [bk_dir S, u, bi_id b]) = None" if "r = Inr ()"
          using P(3) w2 that by simp
      qed
    qed
  qed
qed

text \<open>What is left after pruning.\<close>

lemma minted_path: "(m, f) \<in> minted_files S u w \<Longrightarrow> (n, g) \<in> minted_files S u w \<Longrightarrow> path_name u \<Longrightarrow>
    join_path [bk_dir S, u, m] = join_path [bk_dir S, u, n] \<longleftrightarrow> m = n"
  by (rule join_path_inj) (auto simp: minted_files_def minted_name)

lemma minted_row: "b \<in> info_of ` minted_files S u w \<Longrightarrow> \<exists>f. (bi_id b, f) \<in> minted_files S u w \<and> bi_created_at b = fl_mtime f"
  by (auto simp: info_of_def)

lemma minted_inj: "inj_on fst (minted_files S u w)" "inj_on info_of (minted_files S u w)"
  by (auto simp: inj_on_def minted_files_def info_of_def)

lemma pruned_stay:
  assumes "set kept \<union> set gone \<subseteq> info_of ` minted_files S u w" "distinct (map bi_id (kept @ gone))" "path_name u" "a \<in> set kept"
    "\<forall>q. map_of (w_files w') q = map_of (w_files w) q \<or> q \<in> (\<lambda>b. join_path [bk_dir S, u, bi_id b]) ` set gone \<and> map_of (w_files w') q = None"
  shows "\<exists>g. (bi_id a, g) \<in> minted_files S u w' \<and> fl_mtime g = bi_created_at a"
proof -
  obtain g where g: "(bi_id a, g) \<in> minted_files S u w" "bi_created_at a = fl_mtime g" using minted_row [of a] assms(1,4) by blast
  have "join_path [bk_dir S, u, bi_id a] \<noteq> join_path [bk_dir S, u, bi_id b]" if b: "b \<in> set gone" for b
  proof -
    obtain f where "(bi_id b, f) \<in> minted_files S u w" using minted_row [of b] assms(1) b by blast
    moreover have "bi_id a \<noteq> bi_id b" using assms(2,4) b by auto
    ultimately show ?thesis using minted_path [OF g(1) _ assms(3)] by blast
  qed
  then have "map_of (w_files w') (join_path [bk_dir S, u, bi_id a]) = map_of (w_files w) (join_path [bk_dir S, u, bi_id a])"
    using assms(5) by blast
  with g show ?thesis by (auto simp: minted_files_def)
qed

lemma pruned_subset:
  assumes "\<forall>q. map_of (w_files w') q = map_of (w_files w) q \<or> Q q \<and> map_of (w_files w') q = None"
  shows "minted_files S u w' \<subseteq> minted_files S u w"
proof -
  have "map_of (w_files w) q = Some f" if "map_of (w_files w') q = Some f" for q f using assms that by (metis option.distinct(1))
  then show ?thesis by (auto simp: minted_files_def)
qed

lemma pruned_enough:
  assumes "finite M" "distinct (map bi_id kept)" "length kept = nat n" "\<forall>a \<in> set kept. \<exists>g. (bi_id a, g) \<in> M \<and> t \<le> fl_mtime g"
  shows "n \<le> int (card {(m, g) \<in> M. t \<le> fl_mtime g})"
proof -
  have fin: "finite {(m, g) \<in> M. t \<le> fl_mtime g}" using assms(1) by (rule rev_finite_subset) auto
  have "bi_id ` set kept \<subseteq> fst ` {(m, g) \<in> M. t \<le> fl_mtime g}" using assms(4) by force
  then have "card (bi_id ` set kept) \<le> card (fst ` {(m, g) \<in> M. t \<le> fl_mtime g})" using fin by (intro card_mono) simp_all
  also have "\<dots> \<le> card {(m, g) \<in> M. t \<le> fl_mtime g}" using fin by (rule card_image_le)
  finally show ?thesis using assms(2,3) distinct_card [of "map bi_id kept"] by simp
qed

lemma pruned_few:
  assumes "\<forall>b \<in> set gone. map_of (w_files w') (join_path [bk_dir S, u, bi_id b]) = None"
  shows "card {(m, g) \<in> minted_files S u w'. m \<in> bi_id ` set (kept @ gone)} \<le> length kept"
proof -
  let ?M = "{(m, g) \<in> minted_files S u w'. m \<in> bi_id ` set (kept @ gone)}"
  have "fst ` ?M \<subseteq> bi_id ` set kept" using assms by (auto simp: minted_files_def)
  then have "card (fst ` ?M) \<le> card (bi_id ` set kept)" by (intro card_mono) simp_all
  also have "\<dots> \<le> length kept" using card_image_le [of "set kept" bi_id] card_length [of kept] by simp
  finally have "card (fst ` ?M) \<le> length kept" .
  moreover have "inj_on fst ?M" by (rule inj_on_subset [OF minted_inj(1) [of S u w']]) auto
  ultimately show ?thesis by (simp add: card_image)
qed

text \<open>The minted backups of a listing.\<close>

lemma listed_minted:
  assumes "M \<subseteq> minted_files S u w"
  shows "{(m, g) \<in> M. m \<in> bi_id ` set listed} = {(m, g) \<in> M. m \<in> bi_id ` set (filter (\<lambda>b. isMintedBackup (bi_id b)) listed)}"
  using assms by (auto simp: minted_files_def)

section \<open>Properties\<close>

text \<open>C17: A backup id cannot lead out of the user's directory. Whatever id a request names, with dots, slashes or
  absolute parts in it, a path that \<open>GetPath\<close> answers, and so every file that is downloaded, restored or deleted by
  id, is the user's directory or lies below it: its absolute form continues that of the directory by names, none
  of which is empty, a dot or two dots.\<close>

theorem GetPath_contained:
  assumes "\<forall>d. bk_wd S = Some d \<longrightarrow> is_abs d" "GetPath S u backupID w = (Inr p, w')"
  shows "\<exists>base names. abs_path (bk_wd S) (join_path [bk_dir S, u]) = Some (CHR ''/'' # join ''/'' base)
    \<and> abs_path (bk_wd S) p = Some (CHR ''/'' # join ''/'' (base @ names)) \<and> (\<forall>n \<in> set names. path_name n)"
proof -
  from GetPath_found [OF assms(2)] obtain q d where q: "abs_path (bk_wd S) p = Some q"
    and d: "abs_path (bk_wd S) (join_path [bk_dir S, u]) = Some d" and below: "q = d \<or> has_prefix q (d @ ''/'')" by blast
  from abs_path_names [OF q assms(1)] obtain parts where parts: "q = CHR ''/'' # join ''/'' parts" "\<forall>c \<in> set parts. path_name c" .
  from abs_path_names [OF d assms(1)] obtain base where base: "d = CHR ''/'' # join ''/'' base" "\<forall>c \<in> set base. path_name c" .
  from below show ?thesis
  proof
    assume "q = d"
    with q d base show ?thesis by (intro exI [of _ base] exI [of _ "[]"]) simp
  next
    assume "has_prefix q (d @ ''/'')"
    with parts base obtain names where "parts = base @ names" using names_below [of parts base] by auto
    with q d base parts show ?thesis by (intro exI [of _ base] exI [of _ names]) simp
  qed
qed

text \<open>C18: Retention prunes only what it may. Whatever the order of backups with equal times and whichever calls
  the disk refuses, a file that is gone afterwards was in the user's directory under a name this service mints, and
  at least as many minted backups as the setting asks for, none of them older, are still there; no file appears or changes. When no error is reported,
  at most that many of the minted backups that the listing saw are left. The listing leaves out a file whose size and time cannot be read, and no error is reported for it, so the bound is
  on all minted backups when no call of the disk fails.\<close>

theorem retention_bound:
  assumes "applyRetention ord S u n w = (r, w')" "\<forall>xs. mset (ord xs) = mset xs" "distinct (map fst (w_files w))" "path_name u" "0 \<le> n"
  shows "(\<forall>q. map_of (w_files w') q = map_of (w_files w) q \<or> map_of (w_files w') q = None \<and>
      (\<exists>name f. q = join_path [bk_dir S, u, name] \<and> (name, f) \<in> minted_files S u w
         \<and> n \<le> int (card {(m, g) \<in> minted_files S u w'. fl_mtime f \<le> fl_mtime g})))
    \<and> (r = Inr () \<longrightarrow> (\<exists>listed w1. BackupList ord S u w = (Inr listed, w1)
         \<and> int (card {(m, g) \<in> minted_files S u w'. m \<in> bi_id ` set listed}) \<le> n))
    \<and> (r = Inr () \<longrightarrow> True \<notin> set (w_faults w) \<longrightarrow> int (card (minted_files S u w')) \<le> n)"
proof -
  have all: "minted_files S u w' = {(m, g) \<in> minted_files S u w'. m \<in> bi_id ` set listed}"
    if "True \<notin> set (w_faults w)" "BackupList ord S u w = (Inr listed, w1)" "minted_files S u w' \<subseteq> minted_files S u w" for listed w1
  proof -
    have "info_of ` minted_files S u w \<subseteq> set listed" using BackupList_listed(4) [OF that(2) assms(2-4)] that(1) by (auto simp: no_faults_def)
    then have "n \<in> bi_id ` set listed" if "(n, f) \<in> minted_files S u w" for n f using that by (force simp: info_of_def)
    with that(3) show ?thesis by auto
  qed
  from assms(1-5) show ?thesis
  proof (cases rule: applyRetention_effect)
    case (same listed w1)
    let ?bs = "filter (\<lambda>b. isMintedBackup (bi_id b)) listed"
    have M: "minted_files S u w' = minted_files S u w" using same(1) by (simp add: minted_files_def)
    have "card {(m, g) \<in> minted_files S u w'. m \<in> bi_id ` set listed} \<le> length ?bs"
      using pruned_few [of "[]" w' S u ?bs] listed_minted [OF order_refl, of S u w' listed] by simp
    with same M all [OF _ same(2)] show ?thesis by (intro conjI impI exI [of _ listed] exI [of _ w1]) auto
  next
    case (pruned kept gone listed w1)
    note sub = pruned_subset [OF pruned(7), of S u]
    have fin: "finite (minted_files S u w')" using finite_subset [OF sub finite_minted [OF assms(3,4)]] .
    have left: "map_of (w_files w') q = map_of (w_files w) q \<or> map_of (w_files w') q = None \<and>
        (\<exists>name f. q = join_path [bk_dir S, u, name] \<and> (name, f) \<in> minted_files S u w \<and> n \<le> int (card {(m, g) \<in> minted_files S u w'. fl_mtime f \<le> fl_mtime g}))" for q
    proof (cases "map_of (w_files w') q = map_of (w_files w) q")
      case False
      with pruned(7) obtain b where b: "b \<in> set gone" "q = join_path [bk_dir S, u, bi_id b]" "map_of (w_files w') q = None" by blast
      then obtain f where f: "(bi_id b, f) \<in> minted_files S u w" "bi_created_at b = fl_mtime f" using minted_row [of b] pruned(3) by blast
      have "\<forall>a \<in> set kept. \<exists>g. (bi_id a, g) \<in> minted_files S u w' \<and> fl_mtime f \<le> fl_mtime g"
        using pruned_stay [OF pruned(3,4) assms(4) _ pruned(7)] pruned(6) b(1) f(2) by metis
      with fin pruned(4,5) have "n \<le> int (card {(m, g) \<in> minted_files S u w'. fl_mtime f \<le> fl_mtime g})" by (intro pruned_enough) auto
      with b f show ?thesis by blast
    qed simp
    have few: "int (card {(m, g) \<in> minted_files S u w'. m \<in> bi_id ` set listed}) \<le> n" if "r = Inr ()"
      using pruned_few [OF pruned(8) [OF that], of kept] listed_minted [OF order_refl, of S u w' listed] pruned(2,5) assms(5) by simp
    with left all [OF _ pruned(1) sub] pruned(1) show ?thesis by auto
  qed simp
qed

subsection \<open>Concrete runs\<close>

definition small_service :: backup_service where
  "small_service = NewBackupService ''data'' [] 0 (Some ''/srv'') 0"

definition stored_world :: world where
  "stored_world = (small_world small_db [])\<lparr>w_files := [(''data/u/old.vcf'', \<lparr>fl_data = ''x'', fl_mtime = 0\<rparr>)]\<rparr>"

theorem GetPath_contained_witness:
  "fst (GetPath small_service ''u'' ''a/../old.vcf'' stored_world) = Inr ''data/u/old.vcf''
   \<and> fst (GetPath small_service ''u'' ''../u2/old.vcf'' stored_world) = Inl BkInvalidPath
   \<and> (\<exists>base names. abs_path (Some ''/srv'') ''data/u/old.vcf'' = Some (CHR ''/'' # join ''/'' (base @ names)) \<and> (\<forall>n \<in> set names. path_name n))"
proof -
  have run: "fst (GetPath small_service ''u'' ''a/../old.vcf'' stored_world) = Inr ''data/u/old.vcf''"
    "fst (GetPath small_service ''u'' ''../u2/old.vcf'' stored_world) = Inl BkInvalidPath" by code_simp+
  then have "GetPath small_service ''u'' ''a/../old.vcf'' stored_world = (Inr ''data/u/old.vcf'', snd (GetPath small_service ''u'' ''a/../old.vcf'' stored_world))"
    by (simp add: prod_eq_iff)
  with GetPath_contained [OF _ this] run show ?thesis by (auto simp: small_service_def NewBackupService_def is_abs_def)
qed

definition two_backups :: world where
  "two_backups = (small_world small_db [])\<lparr>w_files :=
     [(''data/u/backup-20260101-000000-000.vcf'', \<lparr>fl_data = ''a'', fl_mtime = 1\<rparr>),
      (''data/u/backup-20260102-000000-000.vcf'', \<lparr>fl_data = ''b'', fl_mtime = 2\<rparr>),
      (''data/u/old.vcf'', \<lparr>fl_data = ''c'', fl_mtime = 0\<rparr>)]\<rparr>"

theorem retention_bound_witness:
  "map fst (w_files (snd (applyRetention (\<lambda>xs. xs) small_service ''u'' 1 two_backups))) = [''data/u/backup-20260102-000000-000.vcf'', ''data/u/old.vcf'']
   \<and> int (card (minted_files small_service ''u'' (snd (applyRetention (\<lambda>xs. xs) small_service ''u'' 1 two_backups)))) \<le> 1"
proof -
  let ?w = "snd (applyRetention (\<lambda>xs. xs) small_service ''u'' 1 two_backups)"
  have run: "fst (applyRetention (\<lambda>xs. xs) small_service ''u'' 1 two_backups) = Inr ()"
    "map fst (w_files ?w) = [''data/u/backup-20260102-000000-000.vcf'', ''data/u/old.vcf'']" by code_simp+
  then have "applyRetention (\<lambda>xs. xs) small_service ''u'' 1 two_backups = (Inr (), ?w)" by (simp add: prod_eq_iff)
  from conjunct2 [OF conjunct2 [OF retention_bound [OF this]]] have "int (card (minted_files small_service ''u'' ?w)) \<le> 1"
    by (simp add: two_backups_def path_name_def small_world_def)
  with run(2) show ?thesis by blast
qed


end
