(* ===== verification/BackupRestore.thy ===== *)
theory BackupRestore
  imports Backup ConflictService "HOL-Library.Sublist"
begin

text \<open>
  What restoring a backup does (\<open>BackupService.Restore\<close>). The first half of a restore only reads: until every card of
  the file is parsed, no contact is touched. In replace mode the book is then emptied and the prepared contacts are
  saved one by one, each in its own transaction; a save that fails is counted and the next one is tried.
\<close>

section \<open>Reading\<close>

lemma readonly_os [effects]: "readonly (os_Stat p)" "readonly (os_ReadFile p)"
  by (auto simp: readonly_def os_Stat_def os_ReadFile_def os_call_def Let_def split: option.split)

lemma steady_os [frame]: "steady (os_Stat p)" "steady (os_ReadFile p)"
  by (auto simp: steady_def os_Stat_def os_ReadFile_def os_call_def Let_def split: option.split)

lemma readonly_GetPath [effects]: "readonly (GetPath S u i)" and steady_GetPath [frame]: "steady (GetPath S u i)"
  by (auto simp: GetPath_def Let_def intro!: effects frame split: option.split sum.split)

lemma readonly_read [effects]: "readonly (readBackupFile S G p)" and steady_read [frame]: "steady (readBackupFile S G p)"
  by (auto simp: readBackupFile_def Let_def intro!: effects frame split: option.split)

lemma readonly_prepare [effects]: "readonly (prepare_card L b vc st)" and steady_prepare [frame]: "steady (prepare_card L b vc st)"
  by (auto simp: prepare_card_def Let_def intro!: effects frame split: sum.split prod.split)

text \<open>The contacts a restore prepares carry identifiers minted for them, and belong to the book.\<close>

definition minted_for :: "string \<Rightarrow> world \<Rightarrow> world \<Rightarrow> prepared \<Rightarrow> bool" where
  "minted_for b w w' ps \<longleftrightarrow> distinct (map (c_id \<circ> fst) ps) \<and>
     (\<forall>p \<in> set ps. c_address_book_id (fst p) = b \<and> c_id (fst p) \<in> w_uuid w ` {w_minted w ..< w_minted w'})"

lemma prepare_card_minted:
  assumes "prepare_card L b vc (ps, r) w1 = (Inr (ps', r'), w2)" "minted_for b w w1 ps"
    "w_uuid w1 = w_uuid w" "w_minted w \<le> w_minted w1" "inj (w_uuid w)"
  shows "minted_for b w w2 ps'"
proof -
  note st = steadyD [OF steady_prepare assms(1)]
  have grow: "minted_for b w w2 ps" using assms(2) st(2) by (fastforce simp: minted_for_def)
  consider (same) "ps' = ps" | (more) c parsed i w3 w4 where "ps' = ps @ [(c, parsed)]" "c_id c = i" "c_address_book_id c = b"
      "mint w3 = (Inr i :: backup_error + string, w4)" "w_uuid w3 = w_uuid w1" "w_minted w1 \<le> w_minted w3" "w_minted w4 \<le> w_minted w2"
  proof (cases "Terminated vc = [] \<or> (\<exists>e. ParseVCard L (Terminated vc) = Inl e)")
    case True
    then show ?thesis using assms(1) by (auto intro!: same simp: prepare_card_def Let_def prog_simps split: if_splits)
  next
    case False
    then obtain parsed0 where p0: "ParseVCard L (Terminated vc) = Inr parsed0" by (cases "ParseVCard L (Terminated vc)") auto
    with False assms(1) obtain uid data parsed i wa wb wc wd where
      steps: "wrapErr BkSvc (identified L (Terminated vc) parsed0) w1 = (Inr (uid, data, parsed), wa)"
      "now wa = (Inr (w_now wa) :: backup_error + int, wb)" "mint wb = (Inr i :: backup_error + string, wc)" "wrapErr BkDB ctx_err wc = (Inr (), wd)"
      and fin: "ps' = ps @ [(new_contact L b uid data (w_now wa) parsed i, parsed)]" "wd = w2"
      by (auto simp: prepare_card_def Let_def andThen_Inr prog_simps)
    have "steady (wrapErr BkSvc (identified L (Terminated vc) parsed0))" "steady (wrapErr BkDB ctx_err)" by (intro frame)+
    from steadyD [OF this(1) steps(1)] steadyD [OF this(2) steps(4)] steps(2,3) fin show ?thesis
      by (intro more [of _ _ i wb wc]) (auto simp: prog_simps)
  qed
  then show ?thesis
  proof cases
    case (more c parsed i w3 w4)
    then have i: "i = w_uuid w (w_minted w3)" "w_minted w4 = Suc (w_minted w3)" using assms(3) by (auto simp: prog_simps)
    have "c_id (fst p) \<noteq> i" if p: "p \<in> set ps" for p
    proof -
      from p assms(2) obtain n where "n < w_minted w1" "c_id (fst p) = w_uuid w n" unfolding minted_for_def by fastforce
      with more(6) show ?thesis using i assms(5) by (metis injD leD)
    qed
    then have "i \<notin> (c_id \<circ> fst) ` set ps" by auto
    moreover have "i \<in> w_uuid w ` {w_minted w ..< w_minted w2}" using i more(6,7) assms(4) by auto
    ultimately show ?thesis using grow more(1-3) by (auto simp: minted_for_def)
  qed (use grow in simp)
qed

lemma prepare_minted:
  assumes "forEach (prepare_card L b) cards (ps, r) w1 = (Inr (ps', r'), w2)" "minted_for b w w1 ps"
    "w_uuid w1 = w_uuid w" "w_minted w \<le> w_minted w1" "inj (w_uuid w)"
  shows "minted_for b w w2 ps'"
  using assms
proof (induction cards arbitrary: ps r w1)
  case (Cons vc cards)
  then obtain ps1 r1 w3 where 1: "prepare_card L b vc (ps, r) w1 = (Inr (ps1, r1), w3)"
    and 2: "forEach (prepare_card L b) cards (ps1, r1) w3 = (Inr (ps', r'), w2)" by (auto simp: andThen_Inr)
  note st = steadyD [OF steady_prepare 1]
  show ?case
    using prepare_card_minted [OF 1 Cons.prems(2-5)] st Cons.prems(3-5) by (intro Cons.IH [OF 2]) auto
qed (simp add: prog_simps)

text \<open>A card whose UID is readable is prepared as it is.\<close>

definition readable :: "lib \<Rightarrow> string \<Rightarrow> string \<Rightarrow> bool" where
  "readable L uid vc \<longleftrightarrow> vc \<noteq> [] \<and> uid \<noteq> [] \<and> (\<exists>p. ParseVCard L vc = Inr p \<and> p_uid p = uid)"

definition card_of :: "contact \<Rightarrow> string \<times> string" where
  "card_of c = (c_uid c, c_vcard_data c)"

lemma prepare_readable:
  assumes "forEach (prepare_card L b) (map snd cards) (ps, r) w1 = (Inr (ps', r'), w2)" "\<forall>(uid, vc) \<in> set cards. readable L uid vc \<and> Terminated vc = vc"
  shows "map (card_of \<circ> fst) ps' = map (card_of \<circ> fst) ps @ cards \<and> r' = r"
  using assms
proof (induction cards arbitrary: ps w1)
  case (Cons k cards)
  obtain uid vc where k: "k = (uid, vc)" by fastforce
  with Cons.prems(2) obtain p where p: "vc \<noteq> []" "ParseVCard L vc = Inr p" "p_uid p = uid" "uid \<noteq> []" "Terminated vc = vc" by (auto simp: readable_def)
  from Cons.prems(1) k obtain st w3 where step: "prepare_card L b vc (ps, r) w1 = (Inr st, w3)"
    and rest: "forEach (prepare_card L b) (map snd cards) st w3 = (Inr (ps', r'), w2)" by (auto simp: andThen_Inr)
  let ?c = "(new_contact L b uid vc (w_now w1) p (w_uuid w1 (w_minted w1)), p)"
  from step p have "st = (ps @ [?c], r)" by (auto simp: prepare_card_def identified_def wrapErr_def Let_def andThen_Inr prog_simps)
  with rest Cons.IH [of "ps @ [?c]" w3] Cons.prems(2) k show ?case by (simp add: card_of_def)
qed (simp add: prog_simps)


lemma prepare_imports: "forEach (prepare_card L b) cs st w = (Inr st', w') \<Longrightarrow> rr_imported (snd st') = rr_imported (snd st)"
proof (induction cs arbitrary: st w)
  case (Cons c cs)
  then obtain st1 w1 where step: "prepare_card L b c st w = (Inr st1, w1)" and rest: "forEach (prepare_card L b) cs st1 w1 = (Inr st', w')"
    by (auto simp: andThen_Inr)
  from step have "rr_imported (snd st1) = rr_imported (snd st)"
    by (auto simp: prepare_card_def Let_def andThen_Inr prog_simps restore_failed_def split: if_splits sum.splits)
  with Cons.IH [OF rest] show ?case by simp
qed (simp add: prog_simps)

section \<open>Saving\<close>

definition book_cards :: "string \<Rightarrow> db \<Rightarrow> (string \<times> string) list" where
  "book_cards b d = map card_of (filter (in_book b) (t_contacts d))"

lemma save_parsed_rollback: "save_parsed c p w = (Inl e, w') \<Longrightarrow> w_db w' = w_db w"
  using readonlyD [OF readonly_ChildRecordsFor] Save_rollback
  by (fastforce simp: save_parsed_def andThen_def split: prod.splits sum.splits)

lemma saved_new:
  assumes "c_id c \<notin> c_id ` set (t_contacts d)"
  shows "book_cards b (saved c cs d) = book_cards b d @ (if c_address_book_id c = b then [card_of c] else [])"
    "c_id ` set (t_contacts (saved c cs d)) = insert (c_id c) (c_id ` set (t_contacts d))"
  using assms by (auto simp: saved_def Let_def book_cards_def card_of_def in_book_def)

text \<open>The saves of a replacing restore: what was kept, in the order of the file, and what was counted as an error.\<close>

lemma restore_loop:
  assumes "forEach (restore_one b mode) ps r w = (res, w')" "mode \<noteq> ''merge''" "distinct (map (c_id \<circ> fst) ps)"
    "\<forall>p \<in> set ps. c_address_book_id (fst p) = b \<and> c_id (fst p) \<notin> c_id ` set (t_contacts (w_db w))"
  shows "\<exists>r' kept. res = Inr r' \<and> subseq kept ps \<and> book_cards b (w_db w') = book_cards b (w_db w) @ map (card_of \<circ> fst) kept
    \<and> rr_imported r' = rr_imported r + length kept \<and> rr_errors r' + length kept = rr_errors r + length ps"
  using assms
proof (induction ps arbitrary: r w)
  case (Cons p ps)
  obtain out w1 where sv: "save_parsed (fst p) (snd p) w = (out, w1)" by fastforce
  let ?r = "case out of Inl _ \<Rightarrow> restore_failed r | Inr _ \<Rightarrow> r\<lparr>rr_imported := rr_imported r + 1\<rparr>"
  have one: "restore_one b mode p r w = (Inr ?r, w1)" using sv Cons.prems(2) by (simp add: restore_one_def Let_def andThen_def attempt_def prog_simps)
  with Cons.prems(1) have rest: "forEach (restore_one b mode) ps ?r w1 = (res, w')" by (simp add: andThen_def)
  show ?case
  proof (cases out)
    case (Inl e)
    then have "w_db w1 = w_db w" using save_parsed_rollback sv by blast
    with Cons.IH [OF rest Cons.prems(2)] Cons.prems(3,4) obtain r' kept where "res = Inr r'" "subseq kept ps"
      "book_cards b (w_db w') = book_cards b (w_db w) @ map (card_of \<circ> fst) kept" "rr_imported r' = rr_imported ?r + length kept"
      "rr_errors r' + length kept = rr_errors ?r + length ps" by auto
    then show ?thesis using Inl by (intro exI [of _ r'] exI [of _ kept]) (auto simp: restore_failed_def list_emb_Cons)
  next
    case (Inr x)
    then obtain cs where db: "w_db w1 = saved (fst p) cs (w_db w)" using save_parsed_commit sv by (cases x) blast
    have "\<forall>q \<in> set ps. c_address_book_id (fst q) = b \<and> c_id (fst q) \<notin> c_id ` set (t_contacts (w_db w1))"
    proof
      fix q assume q: "q \<in> set ps"
      then have "c_id (fst q) \<noteq> c_id (fst p)" using Cons.prems(3) by (simp add: image_iff) metis
      with q Cons.prems(4) saved_new(2) [of "fst p" "w_db w" cs] show "c_address_book_id (fst q) = b \<and> c_id (fst q) \<notin> c_id ` set (t_contacts (w_db w1))"
        by (simp add: db)
    qed
    with Cons.IH [OF rest Cons.prems(2)] Cons.prems(3,4) obtain r' kept where "res = Inr r'" "subseq kept ps"
      "book_cards b (w_db w') = book_cards b (w_db w1) @ map (card_of \<circ> fst) kept" "rr_imported r' = rr_imported ?r + length kept"
      "rr_errors r' + length kept = rr_errors ?r + length ps" by auto
    then show ?thesis using Inr saved_new(1) [of "fst p" "w_db w" b cs] Cons.prems(4) by (intro exI [of _ r'] exI [of _ "p # kept"]) (auto simp: db)
  qed
qed (auto simp: prog_simps)

text \<open>Reconciling the sync states leaves the contacts alone.\<close>

definition contacts_are :: "contact list \<Rightarrow> db \<Rightarrow> bool" where
  "contacts_are cs d \<longleftrightarrow> t_contacts d = cs"

lemma contacts_DeleteState: "preserves (contacts_are cs) (DeleteState i)"
  unfolding DeleteState_def by (rule preserves_stmt) (auto simp: contacts_are_def split: if_splits)

lemma contacts_reconcile: "preserves (contacts_are cs) (reconcileSyncState S u b)"
  unfolding reconcileSyncState_def reconcile_one_def GetByUID_def ListAllByUser_def
  by (intro hoare contacts_DeleteState)

lemma contacts_book: "preserves (contacts_are cs) (GetOrCreateByUserID u)"
  unfolding GetOrCreateByUserID_def CreateBook_def GetByUserID_def Let_def
  by (intro hoare preserves_stmt) (auto simp: contacts_are_def split: if_splits sum.splits)


section \<open>The stages of a restore\<close>

lemma restore_one_total: "\<exists>r' w'. restore_one b mode p r w = (Inr r', w')"
  by (auto simp: restore_one_def Let_def andThen_def attempt_def prog_simps split: prod.split sum.split option.split)

lemma restore_loop_total: "triple P (forEach (restore_one b mode) ps r) (\<lambda>_ _. True) E"
proof (rule tripleI)
  fix w e w' assume "forEach (restore_one b mode) ps r w = (Inl e, w')"
  moreover have "\<exists>r' w'. forEach (restore_one b mode) ps r w = (Inr r', w')"
  proof (induction ps arbitrary: r w)
    case (Cons p ps)
    obtain r1 w1 where "restore_one b mode p r w = (Inr r1, w1)" using restore_one_total by blast
    with Cons.IH [of r1 w1] show ?case by (simp add: andThen_def)
  qed (simp add: prog_simps)
  ultimately show "E e w'" by simp
qed simp

text \<open>Until the book is emptied every error leaves the contacts as they were, and after that the only error reported
  is that of the sync states.\<close>

lemma Restore_error:
  "triple (\<lambda>w. contacts_are cs (w_db w)) (Restore L S G u backupID mode) (\<lambda>_ _. True)
     (\<lambda>e w. (\<forall>x. e \<noteq> BkReconcile x) \<longrightarrow> contacts_are cs (w_db w))"
proof -
  let ?I = "\<lambda>w. contacts_are cs (w_db w)" and ?E = "\<lambda>e w. (\<forall>x. e \<noteq> BkReconcile x) \<longrightarrow> contacts_are cs (w_db w)"
  have early: "triple ?I m (\<lambda>_. ?I) ?E" if "preserves (contacts_are cs) m" for m :: "(backup_error, 'a) prog"
    using that unfolding preserves_triple by (rule triple_conseq) auto
  have del: "triple ?I (wrapErr BkDB (DeleteAll b)) (\<lambda>_ _. True) ?E" for b
    by (rule triple_wrapErr, rule tripleI) (auto dest: atomicD [OF atomic_writes(3)])
  have emptied: "triple ?I (if mode = ''replace'' then if ps = [] then throw (ErrEmptyBackup n) else wrapErr BkDB (DeleteAll b) else ret ())
      (\<lambda>_ _. True) ?E" for ps :: prepared and n b
    using del by (auto intro!: triple_throw triple_ret)
  have late: "triple (\<lambda>_. True) (wrapErr BkReconcile (reconcileSyncState S u b)) (\<lambda>_ _. True) ?E" for b
    by (rule triple_wrapErr, rule tripleI) auto
  show ?thesis
    unfolding Restore_def case_prod_beta
    by (rule triple_andThen [OF early [OF preserves_readonly [OF readonly_GetPath]]],
        rule triple_andThen [OF early [OF preserves_wrapErr [OF contacts_book]]],
        rule triple_andThen [OF early [OF preserves_readonly [OF readonly_read]]],
        rule triple_andThen [OF early [OF preserves_readonly [OF readonly_forEach [OF readonly_prepare]]]],
        rule triple_andThen [OF emptied], rule triple_andThen [OF restore_loop_total], rule triple_andThen [OF late], rule triple_ret, simp)
qed

text \<open>A replacing restore that answers has emptied the book and then saved the prepared contacts.\<close>

lemma Restore_replaced:
  assumes "Restore L S G u backupID ''replace'' w = (Inr r, w')" "user_book_id (w_db w) u = Some b"
  obtains data ps r0 w2 w3 w4 w5 where "readBackupFile S G (join_path [bk_dir S, u, backupID]) w2 = (Inr data, w3)"
    "forEach (prepare_card L b) (SplitVCards (l_unicode L) data) ([], \<lparr>rr_imported = 0, rr_skipped = 0, rr_errors = 0\<rparr>) w3 = (Inr (ps, r0), w4)"
    "DeleteAll b w4 = (Inr (), w5)" "book_cards b (w_db w5) = []" "t_contacts (w_db w5) = filter (\<lambda>c. \<not> in_book b c) (t_contacts (w_db w))"
    "\<exists>w6. forEach (restore_one b ''replace'') ps r0 w5 = (Inr r, w6) \<and> t_contacts (w_db w') = t_contacts (w_db w6)"
    "w_uuid w3 = w_uuid w" "w_minted w \<le> w_minted w3" "w_files w2 = w_files w" "w_db w4 = w_db w" "w_uuid w4 = w_uuid w"
proof -
  from assms(1) obtain p ab data ps r0 w1 w2 w3 w4 w5 w6 where
    run: "GetPath S u backupID w = (Inr p, w1)" "wrapErr BkDB (GetOrCreateByUserID u) w1 = (Inr ab, w2)" "readBackupFile S G p w2 = (Inr data, w3)"
      "forEach (prepare_card L (ab_id ab)) (SplitVCards (l_unicode L) data) ([], \<lparr>rr_imported = 0, rr_skipped = 0, rr_errors = 0\<rparr>) w3 = (Inr (ps, r0), w4)"
      "wrapErr BkDB (DeleteAll (ab_id ab)) w4 = (Inr (), w5)" "forEach (restore_one (ab_id ab) ''replace'') ps r0 w5 = (Inr r, w6)"
      "wrapErr BkReconcile (reconcileSyncState S u (ab_id ab)) w6 = (Inr (), w')"
    unfolding Restore_def by (auto simp: andThen_Inr prog_simps split: if_splits)
  have steady: "steady (wrapErr BkDB (GetOrCreateByUserID u))" by (intro frame)
  note 1 = GetPath_found [OF run(1)] steadyD [OF steady_GetPath run(1)]
  note 2 = GetOrCreate_book [of w1 u b "Inr ab" w2] steadyD [OF steady run(2)]
  have ab: "w_db w2 = w_db w" "ab_id ab = b" using 2(1) 1(3) assms(2) run(2) by (auto simp: wrapErr_Inr)
  note 3 = readonlyD [OF readonly_read run(3)] steadyD [OF steady_read run(3)]
  have 4: "w_db w4 = w_db w3" "w_uuid w4 = w_uuid w3"
    using readonlyD [OF readonly_forEach [OF readonly_prepare] run(4)] steadyD [OF steady_forEach [OF steady_prepare] run(4)] by auto
  have del: "DeleteAll b w4 = (Inr (), w5)" using run(5) ab by (simp add: wrapErr_Inr)
  from DeleteAll_commit [OF this] obtain ts where "w_db w5 = buried (in_book b) ts (bumped b (w_db w4))" by blast
  then have 5: "t_contacts (w_db w5) = filter (\<lambda>c. \<not> in_book b c) (t_contacts (w_db w))"
    using 4 3 ab by (simp add: buried_def bumped_def drop_contacts_def)
  have "contacts_are (t_contacts (w_db w6)) (w_db w')"
    using preservesD [OF preserves_wrapErr [OF contacts_reconcile] run(7)] by (simp add: contacts_are_def)
  then have 6: "\<exists>w6. forEach (restore_one b ''replace'') ps r0 w5 = (Inr r, w6) \<and> t_contacts (w_db w') = t_contacts (w_db w6)"
    using run(6) ab by (auto simp: contacts_are_def)
  show thesis
    by (rule that [of w2 data w3 ps r0 w4 w5]) (use run ab 1 2 3 4 5 6 del in \<open>auto simp: book_cards_def\<close>)
qed

text \<open>Its count of imported contacts is the size of the book.\<close>

lemma replaced_cards:
  assumes "Restore L S G u backupID ''replace'' w = (Inr r, w')" "user_book_id (w_db w) u = Some b" "fresh_contacts w"
  obtains data ps r0 w2 w3 w4 kept where "readBackupFile S G (join_path [bk_dir S, u, backupID]) w2 = (Inr data, w3)" "w_files w2 = w_files w"
    "forEach (prepare_card L b) (SplitVCards (l_unicode L) data) ([], \<lparr>rr_imported = 0, rr_skipped = 0, rr_errors = 0\<rparr>) w3 = (Inr (ps, r0), w4)"
    "subseq kept ps" "book_cards b (w_db w') = map (card_of \<circ> fst) kept" "rr_imported r = rr_imported r0 + length kept"
    "rr_errors r + length kept = rr_errors r0 + length ps"
  using assms(1,2)
proof (cases rule: Restore_replaced)
  case (1 data ps r0 w2 w3 w4 w5)
  from 1(6) obtain w6 where loop: "forEach (restore_one b ''replace'') ps r0 w5 = (Inr r, w6)" "t_contacts (w_db w') = t_contacts (w_db w6)" by blast
  have "minted_for b w w3 []" by (simp add: minted_for_def)
  with prepare_minted [OF 1(2)] 1 assms(3) have minted: "minted_for b w w4 ps" by (simp add: fresh_contacts_def)
  have "c_id (fst p) \<notin> c_id ` set (t_contacts (w_db w5))" if "p \<in> set ps" for p
    using that minted assms(3) 1(5) by (force simp: minted_for_def fresh_contacts_def)
  with minted restore_loop [OF loop(1)] obtain kept where "subseq kept ps" "book_cards b (w_db w6) = book_cards b (w_db w5) @ map (card_of \<circ> fst) kept"
    "rr_imported r = rr_imported r0 + length kept" "rr_errors r + length kept = rr_errors r0 + length ps" by (auto simp: minted_for_def)
  with 1 loop(2) show thesis by (intro that [of w2 data w3 ps r0 w4 kept]) (auto simp: book_cards_def)
qed

section \<open>The file of a backup\<close>

lemma pad_digits: "c \<in> set (pad k n) \<Longrightarrow> is_digit c"
  using format_nat_set by (auto simp: pad_def Let_def is_digit_def split: if_splits)

lemma stamp_set: "c \<in> set (format_stamp zone t) \<Longrightarrow> is_digit c \<or> c = CHR ''-''"
  by (auto simp: format_stamp_def Let_def is_digit_def split: prod.splits dest!: pad_digits)

lemma name_of_backup: "path_name (backup_name S t compress)"
  by (auto simp: backup_name_def path_name_def is_digit_def dest!: stamp_set)

lemma suffix_of_backup: "path_name u \<Longrightarrow> has_suffix (join_path [bk_dir S, u, backup_name S t compress]) ''.gz'' = compress"
  by (cases compress) (simp_all add: join_path_entry name_of_backup, simp_all add: backup_name_def has_suffix_def)

lemma retention_removes:
  assumes "applyRetention ord S u n w = (r, w')" "map_of (w_files w') q = Some f"
  shows "map_of (w_files w) q = Some f"
proof -
  obtain rl w1 where list: "BackupList ord S u w = (rl, w1)" by fastforce
  then have files: "w_files w1 = w_files w" by (rule BackupList_files)
  have pruned: "map_of (w_files w2) q = Some f \<Longrightarrow> map_of (w_files w1) q = Some f" if "forEach (prune S u) bs [] w1 = (re, w2)" for bs re w2
    using that prune_total [of S u bs "[]" w1] prune_loop(1) [of S u bs "[]" w1] by (metis (no_types, lifting) Pair_inject option.distinct(1))
  show ?thesis
    using assms list files pruned
    by (cases rl) (auto simp: applyRetention_def andThen_def [of "BackupList ord S u"] andThen_def [of "forEach (prune S u) bs []" for bs] Let_def prog_simps
        split: if_splits prod.splits sum.splits)
qed

lemma createBackup_file:
  assumes "createBackup ord S G u w = (Inr (info, n), w')" "user_book_id (w_db w) u = Some b" "path_name u"
  obtains contacts where "mset contacts = mset (filter (in_book b) (t_contacts (w_db w)))" "n = length contacts"
    "\<And>f. map_of (w_files w') (join_path [bk_dir S, u, bi_id info]) = Some f \<Longrightarrow>
       fl_data f = backup_bytes G (has_suffix (join_path [bk_dir S, u, bi_id info]) ''.gz'') contacts"
proof -
  let ?gz = "\<lambda>settings. case settings of Inl _ \<Rightarrow> False | Inr s \<Rightarrow> bs_compress s"
  let ?path = "\<lambda>t settings. join_path [bk_dir S, u, backup_name S t (?gz settings)]"
  let ?keep = "\<lambda>settings. case settings of Inl _ \<Rightarrow> bk_default_retention S | Inr s \<Rightarrow> bs_retention s"
  from assms(1) [unfolded createBackup_def Let_def andThen_Inr] obtain ab settings contacts t f0 x y z w1 w2 w3 w4 w5 w6 w7 w8 where
    run: "wrapErr BkDB (GetOrCreateByUserID u) w = (Inr ab, w1)" "attempt (GetSettings S u) w1 = (Inr settings :: backup_error + (backup_error + backup_settings), w2)"
      "wrapErr BkDB (ListAll (ab_id ab)) w2 = (Inr contacts, w3)"
    and wrote: "writeBackupFile G (?path t settings) contacts (?gz settings) w5 = (Inr y, w6)"
    and stat: "wrapErr BkOs (os_Stat (?path t settings)) w6 = (Inr f0, w7)"
    and last: "(if ?keep settings > 0 then attempt (applyRetention ord S u (?keep settings)) else ret (Inr ())) w7 = (Inr z :: backup_error + (backup_error + unit), w8)"
    and fin: "ret (\<lparr>bi_id = backup_name S t (?gz settings), bi_size = length (fl_data f0), bi_created_at = fl_mtime f0\<rparr>, length contacts) w8 = (Inr (info, n) :: backup_error + backup_info \<times> nat, w')"
    by blast
  have info: "bi_id info = backup_name S t (?gz settings)" "n = length contacts" "w8 = w'" using fin by (auto simp: prog_simps)
  have kept: "map_of (w_files w7) q = Some f" if "map_of (w_files w') q = Some f" for q f
    using last that retention_removes info(3) by (auto simp: attempt_def prog_simps split: if_splits prod.splits)
  have ab: "w_db w1 = w_db w" "ab_id ab = b" using GetOrCreate_book [OF assms(2)] run(1) by (auto simp: wrapErr_Inr)
  have "readonly (attempt (GetSettings S u) :: (backup_error, backup_error + backup_settings) prog)"
    unfolding GetSettings_def GetBackupSettings_def by (intro effects)
  then have "w_db w2 = w_db w" using readonlyD run(2) ab by metis
  then have rows: "mset contacts = mset (filter (in_book b) (t_contacts (w_db w)))"
    using run(3) ab by (auto simp: wrapErr_Inr ListAll_def dest!: query_Inr_db)
  let ?p = "join_path [bk_dir S, u, bi_id info]"
  have gz: "has_suffix ?p ''.gz'' = ?gz settings" unfolding info by (rule suffix_of_backup [OF assms(3)])
  show thesis
  proof (rule that [OF rows info(2)])
    fix f assume "map_of (w_files w') ?p = Some f"
    then have "map_of (w_files w6) ?p = Some f" using kept steadyD(5) [OF steady_os(1)] stat info(1) by (metis wrapErr_Inr)
    with writeBackupFile_done(1) [of G "?path t settings" contacts "?gz settings" w5 w6] wrote
    show "fl_data f = backup_bytes G (has_suffix ?p ''.gz'') contacts" unfolding gz by (simp add: info(1))
  qed
qed

text \<open>What is read is the whole content: one byte more than the limit is an error, not a shorter answer.\<close>

lemma readBackupFile_bytes:
  assumes "readBackupFile S G p w = (Inr data, w')"
  obtains f where "map_of (w_files w) p = Some f" "(if has_suffix p ''.gz'' then gz_read G (fl_data f) else Some (fl_data f, True)) = Some (data, True)"
proof -
  define m where "m = (if bk_max_restore S \<le> 0 then DefaultMaxRestoreBytes else bk_max_restore S)"
  then have m: "0 < m" by (simp add: DefaultMaxRestoreBytes_def)
  from assms obtain bytes w1 where read: "os_ReadFile p w = (Inr bytes, w1)"
    and rest: "(case (if has_suffix p ''.gz'' then gz_read G bytes else Some (bytes, True)) of None \<Rightarrow> throw BkGzip
      | Some r \<Rightarrow> case read_limited (m + 1) r of None \<Rightarrow> throw BkReadData
          | Some data \<Rightarrow> if int (length data) > m then throw (ErrBackupTooLarge m) else ret data) w1 = (Inr data, w')"
    unfolding readBackupFile_def m_def Let_def by (auto simp only: andThen_Inr wrapErr_Inr)
  then obtain r where r: "(if has_suffix p ''.gz'' then gz_read G bytes else Some (bytes, True)) = Some r" by (auto simp: prog_simps split: option.splits)
  have "r = (data, True)" using rest m unfolding r
    by (cases r) (auto simp: read_limited_def prog_simps split: option.splits if_splits)
  moreover obtain f where "map_of (w_files w) p = Some f" "bytes = fl_data f"
    using read by (auto simp: os_ReadFile_def dest!: os_call_Inr split: option.splits)
  ultimately show thesis using r by (intro that [of f]) (auto split: if_splits)
qed

section \<open>Properties\<close>

text \<open>C11: A backup brings the book back. When a backup of a book was written and a replacing restore of its file, at any later
  time and whatever happened to the contacts in between, reports no error, then the book holds exactly the cards that were
  backed up, with the UIDs they had, each card with its trailing line break and nothing else changed, and the number
  reported is that of the backup. The cards are stored as one card each and carry the UID they are filed under, and
  what was compressed reads back as it was.\<close>

theorem restore_brings_back:
  assumes gzip: "\<forall>s. gz_read G (gz_write G s) = Some (s, True)"
    and backup: "createBackup ord S G u w0 = (Inr (info, n), w1)" "user_book_id (w_db w0) u = Some b" "path_name u"
    and cards: "\<forall>c \<in> set (t_contacts (w_db w0)). in_book b c \<longrightarrow>
      stored_card (l_unicode L) (c_vcard_data c) \<and> readable L (c_uid c) (Terminated (c_vcard_data c))"
    and later: "map_of (w_files w) (join_path [bk_dir S, u, bi_id info]) = map_of (w_files w1) (join_path [bk_dir S, u, bi_id info])"
      "user_book_id (w_db w) u = Some b" "fresh_contacts w"
    and restore: "Restore L S G u (bi_id info) ''replace'' w = (Inr r, w')" "rr_errors r = 0"
  shows "mset (book_cards b (w_db w')) = mset (map (\<lambda>(uid, vc). (uid, Terminated vc)) (book_cards b (w_db w0))) \<and> rr_imported r = n"
  using restore(1) later(2,3)
proof (cases rule: replaced_cards)
  case (1 data ps r0 w2 w3 w4 kept)
  let ?p = "join_path [bk_dir S, u, bi_id info]" and ?card = "\<lambda>c. (c_uid c, Terminated (c_vcard_data c))"
  from createBackup_file [OF backup] obtain contacts where contacts: "mset contacts = mset (filter (in_book b) (t_contacts (w_db w0)))" "n = length contacts"
    and bytes: "\<And>f. map_of (w_files w1) ?p = Some f \<Longrightarrow> fl_data f = backup_bytes G (has_suffix ?p ''.gz'') contacts" by blast
  have ok: "\<forall>c \<in> set contacts. stored_card (l_unicode L) (c_vcard_data c) \<and> readable L (c_uid c) (Terminated (c_vcard_data c))"
    using cards mset_eq_setD [OF contacts(1)] by auto
  from readBackupFile_bytes [OF 1(1)] obtain f where f: "map_of (w_files w2) ?p = Some f"
    "(if has_suffix ?p ''.gz'' then gz_read G (fl_data f) else Some (fl_data f, True)) = Some (data, True)" .
  have "fl_data f = backup_bytes G (has_suffix ?p ''.gz'') contacts" using bytes [of f] f(1) 1(2) later(1) by simp
  with f(2) gzip have "data = concat (map Terminated (map c_vcard_data contacts))"
    by (cases "has_suffix ?p ''.gz''") (simp_all add: backup_bytes_def comp_def)
  then have "SplitVCards (l_unicode L) data = map snd (map ?card contacts)" using split_terminated [of "map c_vcard_data contacts"] ok by (simp add: comp_def)
  with prepare_readable [of L b "map ?card contacts"] 1(3) ok
  have ps: "map (card_of \<circ> fst) ps = map ?card contacts" "r0 = \<lparr>rr_imported = 0, rr_skipped = 0, rr_errors = 0\<rparr>" by (auto simp: Terminated_idem)
  have len: "length ps = length contacts" using ps(1) by (metis length_map)
  have "length kept = length ps" using 1(7) ps(2) restore(2) by simp
  with 1(4) have "kept = ps" by (simp add: subseq_same_length)
  with 1(5,6) ps len contacts(2) have "book_cards b (w_db w') = map ?card contacts" "rr_imported r = n" by simp_all
  moreover have "mset (map ?card contacts) = mset (map (\<lambda>(uid, vc). (uid, Terminated vc)) (book_cards b (w_db w0)))"
    using contacts(1) by (simp add: book_cards_def card_of_def image_mset.compositionality comp_def)
  ultimately show ?thesis by simp
qed


text \<open>C32: A replacing restore can report success and leave the book empty. The contacts are deleted in one transaction and
  saved again in others, under the same request context; the loop goes on after every failed save and the restore answers
  without an error. What it reports is at least exact: the number of imported contacts is the number of cards the book then
  has, so a restore that reports none has emptied the book.\<close>

theorem restore_reports_what_is_left:
  assumes "Restore L S G u backupID ''replace'' w = (Inr r, w')" "user_book_id (w_db w) u = Some b" "fresh_contacts w"
  shows "length (book_cards b (w_db w')) = rr_imported r"
  using assms
proof (cases rule: replaced_cards)
  case (1 data ps r0 w2 w3 w4 kept)
  from prepare_imports [OF 1(3)] 1(5,6) show ?thesis by simp
qed

subsection \<open>Concrete runs\<close>

definition ada_text :: string where
  "ada_text = unlines sample_lines"

definition book_lib :: lib where
  "book_lib = table_lib [(ada_text, person ''Ada'' [])]"

definition plain_gzip :: gzip where
  "plain_gzip = \<lparr>gz_write = (\<lambda>s. s), gz_read = (\<lambda>s. Some (s, True))\<rparr>"

definition one_card_world :: world where
  "one_card_world = small_world (small_db\<lparr>t_contacts := [ada\<lparr>c_uid := ''u1'', c_vcard_data := ada_text\<rparr>]\<rparr>) []"

definition first_backup :: string where
  "first_backup = ''backup-19700101-000000-000.vcf''"

definition backup_path :: string where
  "backup_path = ''data/u/backup-19700101-000000-000.vcf''"

definition backed_up :: world where
  "backed_up = one_card_world\<lparr>w_files := [(backup_path, \<lparr>fl_data = ada_text, fl_mtime = 0\<rparr>)]\<rparr>"

lemma first_backup_name: "backup_name (NewBackupService ''data'' [] 0 (Some ''/srv'') 0) 0 False = first_backup" "isBackupFilename first_backup"
  by code_simp+

lemma backup_paths: "join_path [''data'', ''u'', first_backup] = backup_path" "join_path [''data'', ''u''] = ''data/u''"
  "backup_path @ ''.tmp'' \<noteq> backup_path" "has_suffix backup_path ''.gz'' = False"
  "abs_path (Some ''/srv'') backup_path = Some ''/srv/data/u/backup-19700101-000000-000.vcf''" "abs_path (Some ''/srv'') ''data/u'' = Some ''/srv/data/u''"
  by code_simp+

lemma ada_text_card: "stored_card unicode_ascii ada_text" "Terminated ada_text = ada_text" "ada_text \<noteq> []"
proof -
  show "Terminated ada_text = ada_text" unfolding ada_text_def by (rule Terminated_unlines) (simp_all add: sample_lines_def plain_line_def go_simps)
  show "stored_card unicode_ascii ada_text" unfolding ada_text_def by (rule stored_card_unlines [OF sample_card_lines])
  show "ada_text \<noteq> []" by code_simp
qed

lemma listed_backup: "dir_entries ''data/u'' [(backup_path, f)] = [(first_backup, f)]"
  by (simp add: dir_entries_def entry_name_def cut_prefix_def backup_path_def first_backup_def map_filter_def)

lemmas backup_eval = small_service_def NewBackupService_def plain_gzip_def GetSettings_def GetBackupSettings_def
  writeBackupFile_def write_cards_def os_Create_def os_Append_def os_Close_def os_Rename_def os_Stat_def os_ReadFile_def os_MkdirAll_def
  os_call_def applyRetention_def BackupList_def list_entry_def os_ReadDir_def attempt_def

lemma backup_made:
  "\<exists>w1. createBackup (\<lambda>xs. xs) small_service plain_gzip ''u'' one_card_world =
     (Inr (\<lparr>bi_id = first_backup, bi_size = length ada_text, bi_created_at = 0\<rparr>, 1), w1)
   \<and> map_of (w_files w1) backup_path = map_of (w_files backed_up) backup_path"
  using first_backup_name backup_paths ada_text_card listed_backup
  by (simp add: createBackup_def backup_eval provider_eval repo_eval ListAll_def one_card_world_def backed_up_def)

lemma ada_parsed:
  "ParseVCard book_lib ada_text = Inr (empty_parsed\<lparr>p_fn := ''Ada'', p_first_name := ''Ada'', p_uid := ''u1''\<rparr>)"
  by code_simp

lemma ada_split: "SplitVCards (l_unicode book_lib) ada_text = [ada_text]" "l_unicode book_lib = unicode_ascii"
  using split_terminated [of "[ada_text]" unicode_ascii] ada_text_card by (simp_all add: book_lib_def table_lib_def)

lemma ada_small: "length ada_text = 45"
  by code_simp

lemmas restore_eval = Restore_def GetPath_def readBackupFile_def read_limited_def DefaultMaxRestoreBytes_def prepare_card_def identified_def
  restore_one_def restore_failed_def reconcileSyncState_def save_parsed_def new_contact_def ApplyToContact_def empty_parsed_def
  DeleteAll_def uidsOf_def ctx_err_def childID_def backed_up_def one_card_world_def

lemma restored: "\<exists>r w'. Restore book_lib small_service plain_gzip ''u'' first_backup ''replace'' backed_up = (Inr r, w') \<and> rr_errors r = 0"
  using first_backup_name backup_paths ada_text_card ada_parsed ada_split ada_small
  by (simp add: restore_eval backup_eval provider_eval repo_eval)

lemma emptied: "\<exists>r w'. Restore book_lib small_service plain_gzip ''u'' first_backup ''replace'' (backed_up\<lparr>w_faults := replicate 12 False @ [True]\<rparr>) = (Inr r, w')
   \<and> rr_imported r = 0 \<and> rr_errors r = 1"
  using first_backup_name backup_paths ada_text_card ada_parsed ada_split ada_small
  by (simp add: restore_eval backup_eval provider_eval repo_eval)

lemma backed_up_fresh: "fresh_contacts backed_up" "fresh_contacts (backed_up\<lparr>w_faults := fs\<rparr>)"
  "user_book_id (w_db backed_up) ''u'' = Some ''b''" "user_book_id (w_db one_card_world) ''u'' = Some ''b''"
  by (auto simp: fresh_contacts_def backed_up_def one_card_world_def small_world_def small_db_def user_book_id_def select_one_def ada_def blank_contact_def
      intro!: injI dest: arg_cong [of _ _ set] arg_cong [of _ _ length])

theorem restore_brings_back_witness:
  "\<exists>r w'. Restore book_lib small_service plain_gzip ''u'' first_backup ''replace'' backed_up = (Inr r, w')
     \<and> mset (book_cards ''b'' (w_db w')) = {# (''u1'', ada_text) #} \<and> rr_imported r = 1"
proof -
  from backup_made obtain w1 where made: "createBackup (\<lambda>xs. xs) small_service plain_gzip ''u'' one_card_world =
      (Inr (\<lparr>bi_id = first_backup, bi_size = length ada_text, bi_created_at = 0\<rparr>, 1), w1)" (is "_ = (Inr (?info, _), _)")
    and left: "map_of (w_files w1) backup_path = map_of (w_files backed_up) backup_path" by blast
  obtain r w' where run: "Restore book_lib small_service plain_gzip ''u'' (bi_id ?info) ''replace'' backed_up = (Inr r, w')" "rr_errors r = 0"
    using restored by auto
  have dir: "join_path [bk_dir small_service, ''u'', bi_id ?info] = backup_path" using backup_paths(1) by (simp add: small_service_def NewBackupService_def)
  have cards: "\<forall>c \<in> set (t_contacts (w_db one_card_world)). in_book ''b'' c \<longrightarrow>
      stored_card (l_unicode book_lib) (c_vcard_data c) \<and> readable book_lib (c_uid c) (Terminated (c_vcard_data c))"
    using ada_text_card ada_split ada_parsed by (simp add: one_card_world_def small_world_def readable_def)
  have "mset (book_cards ''b'' (w_db w')) = mset (map (\<lambda>(uid, vc). (uid, Terminated vc)) (book_cards ''b'' (w_db one_card_world))) \<and> rr_imported r = 1"
    by (rule restore_brings_back [OF _ made backed_up_fresh(4) _ cards _ backed_up_fresh(3,1) run])
      (use left dir in \<open>simp_all add: plain_gzip_def path_name_def\<close>)
  then show ?thesis using run ada_text_card
    by (auto simp: book_cards_def card_of_def one_card_world_def small_world_def in_book_def ada_def)
qed


theorem restore_reports_what_is_left_witness:
  "\<exists>r w'. Restore book_lib small_service plain_gzip ''u'' first_backup ''replace'' (backed_up\<lparr>w_faults := replicate 12 False @ [True]\<rparr>) = (Inr r, w')
     \<and> book_cards ''b'' (w_db backed_up) \<noteq> [] \<and> book_cards ''b'' (w_db w') = []"
proof -
  let ?w = "backed_up\<lparr>w_faults := replicate 12 False @ [True]\<rparr>"
  obtain r w' where run: "Restore book_lib small_service plain_gzip ''u'' first_backup ''replace'' ?w = (Inr r, w')" "rr_imported r = 0" using emptied by blast
  have "length (book_cards ''b'' (w_db w')) = rr_imported r"
    by (rule restore_reports_what_is_left [OF run(1) _ backed_up_fresh(2)]) (simp add: backed_up_fresh)
  with run show ?thesis by (auto simp: book_cards_def backed_up_def one_card_world_def small_world_def in_book_def ada_def)
qed

end
