(* ===== verification/Worker.thy ===== *)
theory Worker
  imports Prelude "HOL-Library.Multiset" "HOL-Library.AList"
begin

text \<open>
  The background worker (\<open>internal/worker/goroutine_worker.go\<close>): a bounded queue, a pool of goroutines that take jobs
  from it, and the two calls other goroutines make, \<open>Enqueue\<close> and \<open>Stop\<close>. The state is what the goroutines share and, for
  each goroutine and each call under way, where it is; a step is one operation on a channel, the wait group or a
  context. The handlers of the jobs are parameters: they return an outcome, and every handler returns. A context
  can expire at any moment. \<open>Start\<close> is called once, as \<open>cmd/server/main.go\<close> does.
\<close>

section \<open>Definitions\<close>

record job =
  j_type :: string
  j_payload :: string

datatype run_outcome = UnknownType | Handled | HandlerFailed string | HandlerPanicked

datatype enqueue_error = EnqContext | ErrWorkerStopped | EnqMarshal | ErrQueueFull

type_synonym job_handler = "string \<Rightarrow> run_outcome"

text \<open>What the goroutines share. \<open>wk_accepted\<close>, \<open>wk_taken\<close> and \<open>wk_log\<close> are a record of what happened: the jobs \<open>Enqueue\<close>
  answered \<open>nil\<close> for, the jobs received from the queue, and the jobs that were run with what came of them.\<close>

record worker =
  wk_handlers :: "(string \<times> job_handler) list"
  wk_jobs :: "job list"
  wk_workers :: nat
  wk_quit :: bool
  wk_started :: bool
  wk_cancelled :: bool
  wk_wg :: nat
  wk_accepted :: "job list"
  wk_taken :: "job list"
  wk_log :: "(job \<times> run_outcome) list"

definition queue_capacity :: nat where "queue_capacity = 100"

definition NewGoroutineWorker :: "int \<Rightarrow> worker" where
  "NewGoroutineWorker n = \<lparr>wk_handlers = [], wk_jobs = [], wk_workers = (if n \<le> 0 then 4 else nat n), wk_quit = False,
     wk_started = False, wk_cancelled = False, wk_wg = 0, wk_accepted = [], wk_taken = [], wk_log = []\<rparr>"

definition RegisterHandler :: "string \<Rightarrow> job_handler \<Rightarrow> worker \<Rightarrow> worker" where
  "RegisterHandler jobType handler W = W\<lparr>wk_handlers := AList.update jobType handler (wk_handlers W)\<rparr>"

definition handlerFor :: "worker \<Rightarrow> string \<Rightarrow> job_handler option" where
  "handlerFor W jobType = map_of (wk_handlers W) jobType"

definition QueueDepth :: "worker \<Rightarrow> nat" where
  "QueueDepth W = length (wk_jobs W)"

definition run_job :: "worker \<Rightarrow> job \<Rightarrow> run_outcome" where
  "run_job W j = (case handlerFor W (j_type j) of None \<Rightarrow> UnknownType | Some handler \<Rightarrow> handler (j_payload j))"

definition ran :: "job \<Rightarrow> worker \<Rightarrow> worker" where
  "ran j W = W\<lparr>wk_log := wk_log W @ [(j, run_job W j)]\<rparr>"

text \<open>Where a goroutine is: in a call of \<open>Enqueue\<close> (before its checks, before the send, returned), in the loop of a worker
  (before the first and the second \<open>select\<close>, running a job, returned) or in a call of \<open>Stop\<close> (called, waiting for the
  workers, waiting after an interrupt, draining, running a job, returned with or without an error of the context).\<close>

datatype pc = ECall bool string "string option" | ESend job | EDone "enqueue_error option"
  | WPoll | WSelect | WRun job | WExit
  | SCall | SWait | SInterrupt | SDrain | SRun job | SDone bool

inductive enqueue_step :: "worker \<Rightarrow> pc \<Rightarrow> worker \<Rightarrow> pc \<Rightarrow> bool" where
  enq_ctx: "enqueue_step W (ECall True k p) W (EDone (Some EnqContext))"
| enq_stopped: "wk_quit W \<Longrightarrow> enqueue_step W (ECall False k p) W (EDone (Some ErrWorkerStopped))"
| enq_marshal: "\<not> wk_quit W \<Longrightarrow> enqueue_step W (ECall False k None) W (EDone (Some EnqMarshal))"
| enq_ready: "\<not> wk_quit W \<Longrightarrow> enqueue_step W (ECall False k (Some data)) W (ESend \<lparr>j_type = k, j_payload = data\<rparr>)"
| enq_send: "length (wk_jobs W) < queue_capacity \<Longrightarrow>
    enqueue_step W (ESend j) (W\<lparr>wk_jobs := wk_jobs W @ [j], wk_accepted := wk_accepted W @ [j]\<rparr>) (EDone None)"
| enq_full: "\<not> length (wk_jobs W) < queue_capacity \<Longrightarrow> enqueue_step W (ESend j) W (EDone (Some ErrQueueFull))"

definition receive :: "worker \<Rightarrow> worker" where
  "receive W = W\<lparr>wk_jobs := tl (wk_jobs W), wk_taken := wk_taken W @ [hd (wk_jobs W)]\<rparr>"

inductive worker_step :: "worker \<Rightarrow> pc \<Rightarrow> worker \<Rightarrow> pc \<Rightarrow> bool" where
  poll_job: "wk_jobs W \<noteq> [] \<Longrightarrow> worker_step W WPoll (receive W) (WRun (hd (wk_jobs W)))"
| poll_none: "wk_jobs W = [] \<Longrightarrow> worker_step W WPoll W WSelect"
| select_done: "wk_cancelled W \<Longrightarrow> worker_step W WSelect (W\<lparr>wk_wg := wk_wg W - 1\<rparr>) WExit"
| select_quit: "wk_quit W \<Longrightarrow> worker_step W WSelect (W\<lparr>wk_wg := wk_wg W - 1\<rparr>) WExit"
| select_job: "wk_jobs W \<noteq> [] \<Longrightarrow> worker_step W WSelect (receive W) (WRun (hd (wk_jobs W)))"
| worker_ran: "worker_step W (WRun j) (ran j W) WPoll"

inductive stop_step :: "worker \<Rightarrow> pc \<Rightarrow> worker \<Rightarrow> pc \<Rightarrow> bool" where
  stop_idle: "\<not> wk_started W \<Longrightarrow> stop_step W SCall (W\<lparr>wk_quit := True\<rparr>) (SDone False)"
| stop_quit: "wk_started W \<Longrightarrow> stop_step W SCall (W\<lparr>wk_quit := True\<rparr>) SWait"
| wait_done: "wk_wg W = 0 \<Longrightarrow> stop_step W SWait W SDrain"
| wait_deadline: "stop_step W SWait (W\<lparr>wk_cancelled := True\<rparr>) SInterrupt"
| interrupted: "wk_wg W = 0 \<Longrightarrow> stop_step W SInterrupt W (SDone True)"
| drain_deadline: "stop_step W SDrain (W\<lparr>wk_cancelled := True\<rparr>) (SDone True)"
| drain_job: "wk_jobs W \<noteq> [] \<Longrightarrow> stop_step W SDrain (receive W) (SRun (hd (wk_jobs W)))"
| drain_empty: "wk_jobs W = [] \<Longrightarrow> stop_step W SDrain (W\<lparr>wk_cancelled := True\<rparr>) (SDone False)"
| drain_ran: "stop_step W (SRun j) (ran j W) SDrain"

definition thread_step :: "worker \<Rightarrow> pc \<Rightarrow> worker \<Rightarrow> pc \<Rightarrow> bool" where
  "thread_step W p W' p' \<longleftrightarrow> enqueue_step W p W' p' \<or> worker_step W p W' p' \<or> stop_step W p W' p'"

type_synonym pool = "worker \<times> pc list"

definition Start :: "pool \<Rightarrow> pool" where
  "Start s = ((fst s)\<lparr>wk_started := True, wk_cancelled := False, wk_wg := wk_wg (fst s) + wk_workers (fst s)\<rparr>,
     snd s @ replicate (wk_workers (fst s)) WPoll)"

text \<open>A step of the pool is a step of one of its goroutines, in any order.\<close>

inductive pool_step :: "pool \<Rightarrow> pool \<Rightarrow> bool" where
  thread: "i < length ps \<Longrightarrow> thread_step W (ps ! i) W' p' \<Longrightarrow> pool_step (W, ps) (W', ps[i := p'])"

inductive reachable :: "pool \<Rightarrow> bool" where
  new: "reachable (NewGoroutineWorker n, [])"
| registered: "reachable (W, ps) \<Longrightarrow> reachable (RegisterHandler k h W, ps)"
| started: "reachable s \<Longrightarrow> \<not> wk_started (fst s) \<Longrightarrow> reachable (Start s)"
| enqueue_called: "reachable (W, ps) \<Longrightarrow> reachable (W, ps @ [ECall expired k payload])"
| stop_called: "reachable (W, ps) \<Longrightarrow> reachable (W, ps @ [SCall])"
| stepped: "reachable s \<Longrightarrow> pool_step s s' \<Longrightarrow> reachable s'"

inductive_simps enqueue_simps: "enqueue_step W p W' p'"
inductive_simps worker_simps: "worker_step W p W' p'"
inductive_simps stop_simps: "stop_step W p W' p'"
inductive_cases pool_stepE: "pool_step s s'"

text \<open>A call that has returned or a worker that has ended.\<close>

fun finished :: "pc \<Rightarrow> bool" where
  "finished (EDone _) = True" | "finished WExit = True" | "finished (SDone _) = True" | "finished _ = False"

text \<open>The goroutines the wait group counts.\<close>

fun live_worker :: "pc \<Rightarrow> bool" where
  "live_worker WPoll = True" | "live_worker WSelect = True" | "live_worker (WRun _) = True" | "live_worker _ = False"

text \<open>The job a goroutine is running.\<close>

fun running :: "pc \<Rightarrow> job multiset" where
  "running (WRun j) = {#j#}" | "running (SRun j) = {#j#}" | "running _ = {#}"

definition in_hand :: "pc list \<Rightarrow> job multiset" where
  "in_hand ps = sum_list (map running ps)"

section \<open>Lemmas\<close>

lemma sum_list_update: "i < length ps \<Longrightarrow> sum_list (map f (ps[i := p])) + f (ps ! i) = sum_list (map f ps) + (f p :: 'b::comm_monoid_add)"
proof (induction ps arbitrary: i)
  case (Cons q ps)
  show ?case
  proof (cases i)
    case (Suc k)
    with Cons show ?thesis by (simp add: add.assoc)
  qed (simp add: ac_simps)
qed simp

lemma balance:
  fixes a :: "'b::cancel_comm_monoid_add"
  assumes "a' + l + r = a + l' + r'" "h' + r = h + r'" "a = l + h"
  shows "a' = l' + h'"
proof -
  have "a' + (l + h + r') = (a' + l + r) + h'" using arg_cong [OF assms(2), of "\<lambda>x. a' + l + x"] by (simp add: ac_simps)
  also have "\<dots> = (l' + h') + (l + h + r')" unfolding assms(1) assms(3) by (simp add: ac_simps)
  finally show ?thesis by simp
qed

definition live :: "pc list \<Rightarrow> nat" where
  "live ps = sum_list (map (\<lambda>p. of_bool (live_worker p)) ps)"

lemma live_update: "i < length ps \<Longrightarrow> live (ps[i := p]) + of_bool (live_worker (ps ! i)) = live ps + of_bool (live_worker p)"
  unfolding live_def by (rule sum_list_update)

lemma in_hand_update: "i < length ps \<Longrightarrow> in_hand (ps[i := p]) + running (ps ! i) = in_hand ps + running p"
  unfolding in_hand_def by (rule sum_list_update)

lemma live_append [simp]: "live (ps @ qs) = live ps + live qs" and in_hand_append [simp]: "in_hand (ps @ qs) = in_hand ps + in_hand qs"
  by (simp_all add: live_def in_hand_def)

lemma live_Nil [simp]: "live [] = 0" "in_hand [] = {#}" and live_Cons [simp]: "live (p # ps) = of_bool (live_worker p) + live ps" "in_hand (p # ps) = running p + in_hand ps"
  by (simp_all add: live_def in_hand_def)

lemma new_workers [simp]: "live (replicate n WPoll) = n" "in_hand (replicate n WPoll) = {#}"
  by (induction n) simp_all

lemma live_zero: "live ps = 0 \<longleftrightarrow> (\<forall>p \<in> set ps. \<not> live_worker p)"
  by (induction ps) auto

subsection \<open>The invariant\<close>

fun draining :: "pc \<Rightarrow> bool" where
  "draining SDrain = True" | "draining (SRun _) = True" | "draining _ = False"

fun stopping :: "pc \<Rightarrow> bool" where
  "stopping SWait = True" | "stopping SInterrupt = True" | "stopping SDrain = True" | "stopping (SRun _) = True"
| "stopping (SDone _) = True" | "stopping _ = False"

text \<open>Where every accepted job is: in the queue, in the hands of a goroutine, or run. The wait group counts the workers; a call of
  \<open>Stop\<close> that drains has seen all of them end, and none starts again.\<close>

definition accounts :: "worker \<Rightarrow> pc list \<Rightarrow> bool" where
  "accounts W ps \<longleftrightarrow> length (wk_jobs W) \<le> queue_capacity \<and> mset (wk_accepted W) = mset (wk_jobs W) + mset (wk_taken W)
     \<and> mset (wk_taken W) = mset (map fst (wk_log W)) + in_hand ps"

definition phases :: "worker \<Rightarrow> pc list \<Rightarrow> bool" where
  "phases W ps \<longleftrightarrow> wk_wg W = live ps \<and> (\<not> wk_started W \<longrightarrow> live ps = 0) \<and> (\<forall>p \<in> set ps. stopping p \<longrightarrow> wk_quit W)
     \<and> (SWait \<in> set ps \<longrightarrow> wk_started W) \<and> (\<forall>p \<in> set ps. draining p \<longrightarrow> wk_started W \<and> live ps = 0)"

lemma accounts_step:
  assumes "thread_step W (ps ! i) W' p'" "i < length ps" "accounts W ps"
  shows "accounts W' (ps[i := p'])"
proof -
  have "length (wk_jobs W') \<le> queue_capacity" "mset (wk_accepted W') = mset (wk_jobs W') + mset (wk_taken W')"
    "mset (wk_taken W') + mset (map fst (wk_log W)) + running (ps ! i) = mset (wk_taken W) + mset (map fst (wk_log W')) + running p'"
    using assms(1,3) by (auto simp: thread_step_def enqueue_simps worker_simps stop_simps accounts_def receive_def ran_def neq_Nil_conv)
  then show ?thesis using balance [OF _ in_hand_update [OF assms(2), of p']] assms(3) unfolding accounts_def by blast
qed

lemma step_phase:
  assumes "thread_step W p W' p'"
  shows "wk_started W' = wk_started W" "wk_quit W \<Longrightarrow> wk_quit W'" "stopping p' \<Longrightarrow> wk_quit W' \<or> stopping p" "live_worker p' \<Longrightarrow> live_worker p"
    "draining p' \<Longrightarrow> draining p \<or> p = SWait \<and> wk_wg W = 0" "wk_wg W' = (if live_worker p \<and> \<not> live_worker p' then wk_wg W - 1 else wk_wg W)"
    "p' = SWait \<Longrightarrow> wk_started W"
  using assms by (auto simp: thread_step_def enqueue_simps worker_simps stop_simps receive_def ran_def)


lemma phases_step:
  assumes "thread_step W (ps ! i) W' p'" "i < length ps" "phases W ps"
  shows "phases W' (ps[i := p'])"
proof -
  let ?p = "ps ! i"
  note st = step_phase [OF assms(1)]
  have mem: "?p \<in> set ps" using assms(2) by simp
  have sub: "set (ps[i := p']) \<subseteq> insert p' (set ps)" by (rule set_update_subset_insert)
  have wg: "wk_wg W' = live (ps[i := p'])" "live (ps[i := p']) \<le> live ps"
    using live_update [OF assms(2), of p'] st(4,6) assms(3) by (auto simp: phases_def split: if_splits)
  have drain: "live (ps[i := p']) = 0 \<and> wk_started W" if "draining p'"
  proof -
    have "live ps = 0 \<and> wk_started W" using st(5) [OF that] assms(3) mem by (metis phases_def)
    with wg(2) show ?thesis by simp
  qed
  show ?thesis unfolding phases_def st(1)
  proof (intro conjI ballI impI)
    fix p assume p: "p \<in> set (ps[i := p'])"
    show "wk_quit W'" if "stopping p" using p sub that assms(3) st(2,3) mem by (auto simp: phases_def)
    show "live (ps[i := p']) = 0" if "draining p" using p sub that assms(3) drain wg(2) by (auto simp: phases_def)
    show "wk_started W" if "draining p" using p sub that assms(3) drain by (auto simp: phases_def)
  next
    show "wk_started W" if "SWait \<in> set (ps[i := p'])" using that sub assms(3) st(7) by (auto simp: phases_def)
  qed (use wg assms(3) in \<open>auto simp: phases_def\<close>)
qed

lemma reachable_inv: "reachable s \<Longrightarrow> accounts (fst s) (snd s) \<and> phases (fst s) (snd s)"
proof (induction rule: reachable.induct)
  case (stepped s s')
  then show ?case by (auto elim!: pool_stepE intro: accounts_step phases_step)
next
  case (started s)
  then show ?case by (auto simp: accounts_def phases_def Start_def)
qed (auto simp: accounts_def phases_def NewGoroutineWorker_def RegisterHandler_def)

subsection \<open>Every run ends\<close>

text \<open>Steps that use up a weight: no run of them is infinite, and every state leads to one with no step left.\<close>

locale measured_steps =
  fixes step :: "'s \<Rightarrow> 's \<Rightarrow> bool" and weight :: "'s \<Rightarrow> nat"
  assumes decreases: "step s s' \<Longrightarrow> weight s' < weight s"
begin

lemma bounded_runs: "(\<And>i. i < n \<Longrightarrow> step (run i) (run (Suc i))) \<Longrightarrow> n + weight (run n) \<le> weight (run 0)"
proof (induction n)
  case (Suc n)
  have "weight (run (Suc n)) < weight (run n)" by (rule decreases) (simp add: Suc.prems)
  with Suc show ?case by simp
qed simp

lemma no_infinite_run: "\<not> (\<exists>run. run 0 = s \<and> (\<forall>i. step (run i) (run (Suc i))))"
proof
  assume "\<exists>run. run 0 = s \<and> (\<forall>i. step (run i) (run (Suc i)))"
  then obtain run where "\<forall>i. step (run i) (run (Suc i))" by blast
  with bounded_runs [of "Suc (weight (run 0))" run] show False by simp
qed

lemma settles: "\<exists>s'. step\<^sup>*\<^sup>* s s' \<and> (\<forall>s''. \<not> step s' s'')"
proof (induction "weight s" arbitrary: s rule: less_induct)
  case less
  show ?case
  proof (cases "\<exists>s1. step s s1")
    case True
    then obtain s1 where s1: "step s s1" by blast
    with less [OF decreases [OF s1]] show ?thesis by (meson converse_rtranclp_into_rtranclp)
  qed auto
qed

end

fun pc_weight :: "pc \<Rightarrow> nat" where
  "pc_weight (ECall _ _ _) = 7" | "pc_weight (ESend _) = 6" | "pc_weight (EDone _) = 0"
| "pc_weight WPoll = 2" | "pc_weight WSelect = 1" | "pc_weight (WRun _) = 3" | "pc_weight WExit = 0"
| "pc_weight SCall = 4" | "pc_weight SWait = 3" | "pc_weight SInterrupt = 2" | "pc_weight SDrain = 1" | "pc_weight (SRun _) = 2" | "pc_weight (SDone _) = 0"

definition pool_weight :: "pool \<Rightarrow> nat" where
  "pool_weight s = 5 * length (wk_jobs (fst s)) + sum_list (map pc_weight (snd s))"

lemma thread_weight:
  "thread_step W p W' p' \<Longrightarrow> 5 * length (wk_jobs W') + pc_weight p' < 5 * length (wk_jobs W) + pc_weight p"
  by (auto simp: thread_step_def enqueue_simps worker_simps stop_simps receive_def ran_def neq_Nil_conv)

interpretation workers: measured_steps pool_step pool_weight
proof
  fix s s' assume "pool_step s s'"
  then show "pool_weight s' < pool_weight s"
  proof cases
    case (thread i ps W W' p')
    with thread_weight [OF thread(4)] sum_list_update [OF thread(3), of pc_weight p'] show ?thesis by (simp add: pool_weight_def)
  qed
qed

text \<open>Once the pool is asked to stop, a goroutine that has not finished can take a step, or waits for a worker that can.\<close>

lemma can_step:
  assumes "\<not> finished p" "wk_quit W" "live_worker p \<or> wk_wg W = 0"
  shows "\<exists>W' p'. thread_step W p W' p'"
proof -
  have "\<exists>W' p'. enqueue_step W p W' p' \<or> worker_step W p W' p' \<or> stop_step W p W' p'"
  proof (cases p)
    case (ECall e k d)
    then show ?thesis using assms by (cases e) (auto intro: enqueue_step.intros)
  next
    case (ESend j)
    then show ?thesis by (cases "length (wk_jobs W) < queue_capacity") (auto intro: enqueue_step.intros)
  next
    case WPoll
    then show ?thesis by (cases "wk_jobs W = []") (auto intro: worker_step.intros)
  next
    case SCall
    then show ?thesis by (cases "wk_started W") (auto intro: stop_step.intros)
  qed (use assms in \<open>auto intro: worker_step.intros stop_step.intros\<close>)
  then show ?thesis by (simp add: thread_step_def)
qed

lemma settled_finished:
  assumes "reachable (W, ps)" "\<forall>s'. \<not> pool_step (W, ps) s'" "wk_quit W" "p \<in> set ps"
  shows "finished p"
proof -
  have stuck: "\<not> thread_step W q W' q'" if "q \<in> set ps" for q W' q'
    using assms(2) that pool_step.thread by (metis in_set_conv_nth)
  have "\<not> finished q" if "live_worker q" for q using that by (cases q) auto
  then have "\<not> live_worker q" if "q \<in> set ps" for q
    using can_step [OF _ assms(3)] stuck [OF that] by blast
  then have "wk_wg W = 0" using reachable_inv [OF assms(1)] by (simp add: phases_def live_zero)
  with can_step [OF _ assms(3)] stuck [OF assms(4)] show ?thesis by blast
qed


lemma later_reachable:
  assumes "pool_step\<^sup>*\<^sup>* s s'" "reachable s" "wk_quit (fst s)"
  shows "reachable s' \<and> wk_quit (fst s')"
  using assms
proof (induction rule: rtranclp_induct)
  case (step s1 s2)
  moreover from this have "wk_quit (fst s2)" by (auto elim!: pool_stepE dest: step_phase(2))
  ultimately show ?case by (blast intro: reachable.stepped)
qed simp

lemma reachable_thread: "reachable (W, ps) \<Longrightarrow> i < length ps \<Longrightarrow> thread_step W (ps ! i) W' p' \<Longrightarrow> reachable (W', ps[i := p'])"
  by (blast intro: reachable.stepped pool_step.thread)

section \<open>Properties\<close>

text \<open>C15: No job is lost or run twice while the pool works. In whatever order the goroutines, the callers of \<open>Enqueue\<close> and those
  of \<open>Stop\<close> take their steps, at most a hundred jobs wait, and the jobs \<open>Enqueue\<close> has answered \<open>nil\<close> for are exactly, each as
  many times as it was accepted, those in the queue, those a goroutine is running and those that were run.\<close>

theorem queue_accounts:
  assumes "reachable (W, ps)"
  shows "QueueDepth W \<le> queue_capacity \<and> mset (wk_accepted W) = mset (wk_jobs W) + in_hand ps + mset (map fst (wk_log W))"
  using reachable_inv [OF assms] by (simp add: accounts_def QueueDepth_def ac_simps)

text \<open>C37: \<open>Stop\<close> that answers \<open>nil\<close> has emptied the queue. At the moment a call of \<open>Stop\<close> returns without an error from a pool that was
  started, every worker has ended, no job waits, and every job accepted until then was run or is being run by another
  call of \<open>Stop\<close>.\<close>

theorem stop_runs_accepted:
  assumes "reachable (W, ps)" "SDrain \<in> set ps" "stop_step W SDrain W' (SDone False)"
  shows "(\<forall>p \<in> set ps. \<not> live_worker p) \<and> wk_jobs W' = [] \<and> mset (wk_accepted W') = mset (map fst (wk_log W')) + in_hand ps"
proof -
  have "wk_jobs W = []" "W' = W\<lparr>wk_cancelled := True\<rparr>" using assms(3) by (auto simp: stop_simps)
  moreover have "draining SDrain" by simp
  with reachable_inv [OF assms(1)] assms(2) have "live ps = 0" unfolding phases_def by (metis snd_conv)
  ultimately show ?thesis using reachable_inv [OF assms(1)] by (simp add: accounts_def live_zero)
qed

text \<open>C16: Shutting down ends. Once a call of \<open>Stop\<close> has closed the \<open>quit\<close> channel, and as long as no new call is made, the pool cannot
  take steps for ever; some sequence of steps ends, and wherever the steps end, every worker has ended and every
  call of \<open>Enqueue\<close> and of \<open>Stop\<close> has returned: none waits for another.\<close>

theorem shutdown_ends:
  assumes "reachable s" "wk_quit (fst s)"
  shows "\<not> (\<exists>run. run 0 = s \<and> (\<forall>i. pool_step (run i) (run (Suc i))))
    \<and> (\<exists>s'. pool_step\<^sup>*\<^sup>* s s' \<and> (\<forall>s''. \<not> pool_step s' s''))
    \<and> (\<forall>s'. pool_step\<^sup>*\<^sup>* s s' \<and> (\<forall>s''. \<not> pool_step s' s'') \<longrightarrow> (\<forall>p \<in> set (snd s'). finished p))"
  using workers.no_infinite_run [of s] workers.settles [of s] later_reachable [OF _ assms] settled_finished by (metis prod.collapse)

text \<open>A job accepted during a shutdown can be lost. \<open>Enqueue\<close> looks at \<open>quit\<close> and sends later; in between \<open>Stop\<close> can wait for the
  workers, find the queue empty and return. Then every goroutine has ended, \<open>Stop\<close> and \<open>Enqueue\<close> have both answered \<open>nil\<close>, and the
  job is in the queue of a pool in which nothing can take it.\<close>

theorem accepted_job_lost:
  "\<exists>W ps j. reachable (W, ps) \<and> wk_started W \<and> SDone False \<in> set ps \<and> EDone None \<in> set ps \<and> list_all finished ps
     \<and> j \<in> set (wk_accepted W) \<and> j \<notin> fst ` set (wk_log W)"
proof -
  let ?j = "\<lparr>j_type = ''backup'', j_payload = ''{}''\<rparr>"
  define W where "W = fst (Start (NewGoroutineWorker 1, []))"
  let ?Q = "W\<lparr>wk_quit := True\<rparr>" let ?E = "?Q\<lparr>wk_wg := 0\<rparr>" let ?D = "?E\<lparr>wk_cancelled := True\<rparr>"
  have W: "wk_started W" "\<not> wk_quit W" "wk_jobs W = []" "wk_wg W = 1" "wk_accepted W = []" "wk_log W = []"
    by (simp_all add: W_def Start_def NewGoroutineWorker_def)
  note go = reachable_thread
  have "reachable (W, [WPoll])"
    using reachable.started [OF reachable.new, of 1] by (simp add: W_def Start_def NewGoroutineWorker_def)
  then have "reachable (W, [WPoll, ECall False ''backup'' (Some ''{}'')])" using reachable.enqueue_called by fastforce
  then have "reachable (W, [WPoll, ESend ?j])" using W by (drule_tac i = 1 in go) (auto simp: thread_step_def intro: enqueue_step.intros)
  then have "reachable (W, [WSelect, ESend ?j])" using W by (drule_tac i = 0 in go) (auto simp: thread_step_def intro: worker_step.intros)
  then have "reachable (W, [WSelect, ESend ?j, SCall])" using reachable.stop_called by fastforce
  then have "reachable (?Q, [WSelect, ESend ?j, SWait])" using W by (drule_tac i = 2 in go) (auto simp: thread_step_def intro: stop_step.intros)
  then have "reachable (?E, [WExit, ESend ?j, SWait])" using W select_quit [of ?Q] by (drule_tac i = 0 in go) (auto simp: thread_step_def)
  then have "reachable (?E, [WExit, ESend ?j, SDrain])" using wait_done [of ?E] by (drule_tac i = 2 in go) (auto simp: thread_step_def)
  then have "reachable (?D, [WExit, ESend ?j, SDone False])" using W drain_empty [of ?E] by (drule_tac i = 2 in go) (auto simp: thread_step_def)
  then have "reachable (?D\<lparr>wk_jobs := [?j], wk_accepted := [?j]\<rparr>, [WExit, EDone None, SDone False])"
    using W enq_send [of ?D ?j] by (drule_tac i = 1 in go) (auto simp: thread_step_def queue_capacity_def)
  then show ?thesis using W by (intro exI [of _ "?D\<lparr>wk_jobs := [?j], wk_accepted := [?j]\<rparr>"] exI [of _ "[WExit, EDone None, SDone False]"] exI [of _ ?j]) auto
qed


subsection \<open>Concrete runs\<close>

definition nightly :: job where
  "nightly = \<lparr>j_type = ''backup'', j_payload = ''{}''\<rparr>"

definition one_worker :: worker where
  "one_worker = (NewGoroutineWorker 1)\<lparr>wk_started := True, wk_wg := 1\<rparr>"

definition queued :: worker where
  "queued = one_worker\<lparr>wk_jobs := [nightly], wk_accepted := [nightly]\<rparr>"

definition drained :: worker where
  "drained = one_worker\<lparr>wk_quit := True, wk_wg := 0, wk_accepted := [nightly], wk_taken := [nightly], wk_log := [(nightly, UnknownType)]\<rparr>"

lemma queued_reachable: "reachable (queued, [WPoll, EDone None])"
proof -
  have "reachable (one_worker, [WPoll])" using reachable.started [OF reachable.new, of 1] by (simp add: one_worker_def Start_def NewGoroutineWorker_def)
  then have "reachable (one_worker, [WPoll, ECall False ''backup'' (Some ''{}'')])" using reachable.enqueue_called by fastforce
  then have "reachable (one_worker, [WPoll, ESend nightly])" by (drule_tac i = 1 in reachable_thread)
      (auto simp: thread_step_def one_worker_def NewGoroutineWorker_def nightly_def intro: enqueue_step.intros)
  then show ?thesis using enq_send [of one_worker nightly] by (drule_tac i = 1 in reachable_thread)
      (auto simp: thread_step_def queued_def one_worker_def NewGoroutineWorker_def queue_capacity_def)
qed

lemma drained_reachable: "reachable (drained, [WExit, EDone None, SDrain])"
proof -
  let ?R = "one_worker\<lparr>wk_accepted := [nightly], wk_taken := [nightly]\<rparr>"
  let ?L = "?R\<lparr>wk_log := [(nightly, UnknownType)]\<rparr>" let ?Q = "?L\<lparr>wk_quit := True\<rparr>"
  note unf = thread_step_def queued_def drained_def one_worker_def NewGoroutineWorker_def receive_def ran_def run_job_def handlerFor_def
  have "reachable (?R, [WRun nightly, EDone None])" using queued_reachable poll_job [of queued]
    by (drule_tac i = 0 in reachable_thread) (auto simp: unf)
  then have "reachable (?L, [WPoll, EDone None])" using worker_ran [of ?R nightly] by (drule_tac i = 0 in reachable_thread) (auto simp: unf)
  then have "reachable (?L, [WSelect, EDone None])" using poll_none [of ?L] by (drule_tac i = 0 in reachable_thread) (auto simp: unf)
  then have "reachable (?L, [WSelect, EDone None, SCall])" using reachable.stop_called by fastforce
  then have "reachable (?Q, [WSelect, EDone None, SWait])" using stop_quit [of ?L] by (drule_tac i = 2 in reachable_thread) (auto simp: unf)
  then have "reachable (drained, [WExit, EDone None, SWait])" using select_quit [of ?Q] by (drule_tac i = 0 in reachable_thread) (auto simp: unf)
  then show ?thesis using wait_done [of drained] by (drule_tac i = 2 in reachable_thread) (auto simp: unf)
qed

theorem queue_accounts_witness:
  "reachable (queued, [WPoll, EDone None]) \<and> mset (wk_accepted queued) = mset (wk_jobs queued) + in_hand [WPoll, EDone None] + mset (map fst (wk_log queued))"
  using queue_accounts [OF queued_reachable] queued_reachable by blast

theorem stop_runs_accepted_witness:
  "stop_step drained SDrain (drained\<lparr>wk_cancelled := True\<rparr>) (SDone False)
   \<and> mset (wk_accepted (drained\<lparr>wk_cancelled := True\<rparr>)) = mset (map fst (wk_log (drained\<lparr>wk_cancelled := True\<rparr>))) + in_hand [WExit, EDone None, SDrain]"
proof -
  have "stop_step drained SDrain (drained\<lparr>wk_cancelled := True\<rparr>) (SDone False)"
    by (rule drain_empty) (simp add: drained_def one_worker_def NewGoroutineWorker_def)
  with stop_runs_accepted [OF drained_reachable _ this] show ?thesis by simp
qed

theorem shutdown_ends_witness:
  "wk_quit drained \<and> (\<exists>s'. pool_step\<^sup>*\<^sup>* (drained, [WExit, EDone None, SDrain]) s' \<and> (\<forall>p \<in> set (snd s'). finished p))"
proof -
  have "wk_quit drained" by (simp add: drained_def)
  with shutdown_ends [OF drained_reachable] show ?thesis by auto blast
qed


end
