(* ===== verification/CardDAVClient.thy ===== *)
theory CardDAVClient
  imports SyncExport CardDAVBackend
begin

text \<open>
  The CardDAV client (\<open>internal/sync/carddav_client.go\<close>): how the address book of a server is found, and the sync provider on it. The client of
  \<open>go-webdav\<close>, plain HTTP requests and the look-up of DNS records are the fields of two records; a request that fails answers its
  message. The identifier of a card is its UID where the card has one, and the last part of its path where it has none.
\<close>

section \<open>Definitions\<close>

subsection \<open>The HTTP client\<close>

text \<open>What matters of an \<open>http.Client\<close>: its time limit, whether redirects are checked, and what its transport sends, the name and password
  of \<open>basicAuthTransport\<close> or the tokens of a stored connection.\<close>

definition defaultHTTPTimeout :: int where "defaultHTTPTimeout = 30 * 1000000000"

record http_client =
  hc_timeout :: int
  hc_redirect_policy :: bool
  hc_basic_auth :: "(string \<times> string) option"
  hc_token_source :: "string option"
  hc_skip_tls_verify :: bool

definition withTimeout :: "http_client \<Rightarrow> http_client" where
  "withTimeout c =
     (if hc_timeout c > 0 \<and> hc_redirect_policy c then c
      else c\<lparr>hc_timeout := (if hc_timeout c = 0 then defaultHTTPTimeout else hc_timeout c), hc_redirect_policy := True\<rparr>)"

definition basic_client :: "string \<Rightarrow> string \<Rightarrow> bool \<Rightarrow> http_client" where
  "basic_client username password skip = \<lparr>hc_timeout = defaultHTTPTimeout, hc_redirect_policy = True,
     hc_basic_auth = Some (username, password), hc_token_source = None, hc_skip_tls_verify = skip\<rparr>"

subsection \<open>Discovery\<close>

record parsed_url =
  pu_scheme :: string
  pu_host :: string
  pu_path :: string
  pu_user :: bool

text \<open>\<open>dw_get\<close> answers the status and the final URL after redirects.\<close>

record dav_web =
  dw_parse :: "string \<Rightarrow> parsed_url option"
  dw_client :: "string \<Rightarrow> bool"
  dw_principal :: "http_client \<Rightarrow> string \<Rightarrow> (string, string) prog"
  dw_home_set :: "http_client \<Rightarrow> string \<Rightarrow> string \<Rightarrow> (string, string) prog"
  dw_books :: "http_client \<Rightarrow> string \<Rightarrow> string \<Rightarrow> (string, string list) prog"
  dw_get :: "http_client \<Rightarrow> string \<Rightarrow> (string, nat \<times> string) prog"
  dw_dns :: "string \<Rightarrow> (string, string) prog"

datatype connect_error = CnInvalidURL | CnClient | CnHomeSet string | CnBooks string | CnNoBooks | CnRequest string | CnStatus nat

definition tryDiscoverFull :: "dav_web \<Rightarrow> http_client \<Rightarrow> string \<Rightarrow> (connect_error, string) prog" where
  "tryDiscoverFull D h endpoint =
     (if \<not> dw_client D endpoint then throw CnClient
      else andThen (attempt (dw_principal D h endpoint)) (\<lambda>r.
        andThen (wrapErr CnHomeSet (dw_home_set D h endpoint (case r of Inl _ \<Rightarrow> [] | Inr p \<Rightarrow> p))) (\<lambda>homeSet.
        andThen (wrapErr CnBooks (dw_books D h endpoint homeSet)) (\<lambda>books.
        case books of [] \<Rightarrow> throw CnNoBooks | b # _ \<Rightarrow> ret b))))"

definition wellKnownURL :: "parsed_url \<Rightarrow> string" where
  "wellKnownURL u = pu_scheme u @ ''://'' @ pu_host u @ ''/.well-known/carddav''"

definition resolveWellKnown :: "dav_web \<Rightarrow> http_client \<Rightarrow> parsed_url \<Rightarrow> (connect_error, string) prog" where
  "resolveWellKnown D h u =
     andThen (wrapErr CnRequest (dw_get D h (wellKnownURL u))) (\<lambda>(status, final).
     if status \<ge> 400 then throw (CnStatus status) else ret final)"

text \<open>A strategy is tried and its failure only passes on to the next.\<close>

definition try_at :: "dav_web \<Rightarrow> http_client \<Rightarrow> ('e, string) prog \<Rightarrow> ('f, (string \<times> string) option) prog" where
  "try_at D h locate = andThen (attempt locate) (\<lambda>r. case r of
     Inl _ \<Rightarrow> ret None
   | Inr endpoint \<Rightarrow> andThen (attempt (tryDiscoverFull D h endpoint)) (\<lambda>r2.
       ret (case r2 of Inl _ \<Rightarrow> None | Inr path \<Rightarrow> Some (endpoint, path))))"

definition discoverAddressBook :: "dav_web \<Rightarrow> http_client \<Rightarrow> string \<Rightarrow> (connect_error, string \<times> string) prog" where
  "discoverAddressBook D h endpoint = (case dw_parse D endpoint of
     None \<Rightarrow> throw CnInvalidURL
   | Some u \<Rightarrow>
       andThen (try_at D h (ret endpoint :: (string, string) prog)) (\<lambda>r1. case r1 of Some f \<Rightarrow> ret f | None \<Rightarrow>
       andThen (try_at D h (resolveWellKnown D h u)) (\<lambda>r2. case r2 of Some f \<Rightarrow> ret f | None \<Rightarrow>
       andThen (if pu_path u = [] \<or> pu_path u = ''/'' then try_at D h (dw_dns D (pu_host u)) else ret None) (\<lambda>r3. case r3 of Some f \<Rightarrow> ret f | None \<Rightarrow>
       ret (endpoint, if pu_path u = [] then ''/'' else pu_path u)))))"

subsection \<open>The provider\<close>

record dav_object =
  ob_path :: string
  ob_etag :: string
  ob_card :: vcard

record sync_answer =
  sa_token :: string
  sa_updated :: "string list"
  sa_deleted :: "string list"

datatype precondition = IfNoneMatchAny | IfMatch string

text \<open>\<open>dc_put_raw\<close> is the raw request of a conditional write; it answers the status and the \<open>ETag\<close> header.\<close>

record dav_client =
  dc_query :: "string \<Rightarrow> (string, dav_object list) prog"
  dc_sync :: "string \<Rightarrow> string \<Rightarrow> (string, sync_answer) prog"
  dc_multiget :: "string \<Rightarrow> string list \<Rightarrow> (string, dav_object list) prog"
  dc_get :: "string \<Rightarrow> (string, dav_object) prog"
  dc_put :: "string \<Rightarrow> vcard \<Rightarrow> (string, string) prog"
  dc_remove :: "string \<Rightarrow> (string, unit) prog"
  dc_put_raw :: "string \<Rightarrow> string \<Rightarrow> precondition \<Rightarrow> (string, nat \<times> string) prog"

record carddav_provider =
  cp_client :: dav_client
  cp_ab_path :: string

definition newCardDAVClientProvider ::
  "dav_web \<Rightarrow> (http_client \<Rightarrow> string \<Rightarrow> dav_client) \<Rightarrow> string \<Rightarrow> http_client \<Rightarrow> (connect_error, carddav_provider) prog" where
  "newCardDAVClientProvider D mk endpoint h = andThen (discoverAddressBook D h endpoint) (\<lambda>(resolved, abPath).
     if \<not> dw_client D resolved then throw CnClient
     else if dw_parse D resolved = None then throw CnInvalidURL
     else ret \<lparr>cp_client = mk h resolved, cp_ab_path = abPath\<rparr>)"

definition NewCardDAVClientProviderWithHTTPClient ::
  "dav_web \<Rightarrow> (http_client \<Rightarrow> string \<Rightarrow> dav_client) \<Rightarrow> string \<Rightarrow> http_client \<Rightarrow> (connect_error, carddav_provider) prog" where
  "NewCardDAVClientProviderWithHTTPClient D mk endpoint h = newCardDAVClientProvider D mk endpoint (withTimeout h)"

definition NewCardDAVClientProviderWithOptions ::
  "dav_web \<Rightarrow> (http_client \<Rightarrow> string \<Rightarrow> dav_client) \<Rightarrow> string \<Rightarrow> string \<Rightarrow> string \<Rightarrow> bool \<Rightarrow> (connect_error, carddav_provider) prog" where
  "NewCardDAVClientProviderWithOptions D mk endpoint username password skip =
     newCardDAVClientProvider D mk endpoint (basic_client username password skip)"

definition getUID :: "lib \<Rightarrow> vcard \<Rightarrow> string" where
  "getUID L c = (case gv_get L c ''UID'' of None \<Rightarrow> [] | Some f \<Rightarrow> f_value f)"

definition uid_from_path :: "string \<Rightarrow> string" where
  "uid_from_path path = trim_suffix (last (split_on CHR ''/'' (trim_suffix path ''/''))) ''.vcf''"

definition object_path :: "carddav_provider \<Rightarrow> string \<Rightarrow> string" where
  "object_path P uid = cp_ab_path P @ uid @ ''.vcf''"

definition object_item :: "lib \<Rightarrow> dav_object \<Rightarrow> sync_item" where
  "object_item L obj =
     (let data = CardToString L (ob_card obj); uid = getUID L (ob_card obj)
      in \<lparr>si_remote_id = (if uid = [] then uid_from_path (ob_path obj) else uid), si_etag = ob_etag obj,
          si_content_hash = hex (l_sha256 L data), si_vcard = data\<rparr>)"

definition client_List :: "lib \<Rightarrow> carddav_provider \<Rightarrow> (provider_error, sync_item list) prog" where
  "client_List L P = andThen (wrapErr ProvFail (dc_query (cp_client P) (cp_ab_path P))) (\<lambda>objects. ret (map (object_item L) objects))"

definition quoteETag :: "string \<Rightarrow> string" where
  "quoteETag etag = (if has_prefix etag [CHR 0x22] then etag else CHR 0x22 # etag @ [CHR 0x22])"

definition unquoteETag :: "string \<Rightarrow> string" where
  "unquoteETag etag = rev (dropWhile (\<lambda>c. c = CHR 0x22) (rev (dropWhile (\<lambda>c. c = CHR 0x22) etag)))"

definition client_PutIfMatch :: "carddav_provider \<Rightarrow> sync_item \<Rightarrow> string \<Rightarrow> (provider_error, put_result) prog" where
  "client_PutIfMatch P item ifMatch =
     andThen (wrapErr ProvFail (dc_put_raw (cp_client P) (object_path P (si_remote_id item)) (si_vcard item)
        (if ifMatch = [] then IfNoneMatchAny else IfMatch (quoteETag ifMatch)))) (\<lambda>(status, header).
     if status = 412 then throw ErrPreconditionFailed
     else if status \<ge> 400 then throw (ProvFail ''HTTP status'')
     else let etag = unquoteETag header
          in if etag \<noteq> [] then ret \<lparr>pr_remote_id = si_remote_id item, pr_etag = etag\<rparr>
             else andThen (attempt (dc_get (cp_client P) (object_path P (si_remote_id item)))) (\<lambda>r.
               ret \<lparr>pr_remote_id = si_remote_id item, pr_etag = (case r of Inl _ \<Rightarrow> [] | Inr obj \<Rightarrow> ob_etag obj)\<rparr>))"

definition client_ListChanges :: "lib \<Rightarrow> carddav_provider \<Rightarrow> string \<Rightarrow> (provider_error, delta) prog" where
  "client_ListChanges L P cursor =
     andThen (attempt (dc_sync (cp_client P) (cp_ab_path P) cursor)) (\<lambda>r. case r of
       Inl _ \<Rightarrow>
         if cursor = []
         then andThen (client_List L P) (\<lambda>items. ret \<lparr>dl_updated = items, dl_deleted = [], dl_cursor = [], dl_full = True\<rparr>)
         else throw ErrCursorExpired
     | Inr resp \<Rightarrow>
         andThen (if sa_updated resp = [] then ret []
                  else wrapErr ProvFail (dc_multiget (cp_client P) (cp_ab_path P) (sa_updated resp))) (\<lambda>objects.
         ret \<lparr>dl_updated = map (object_item L) objects, dl_deleted = map uid_from_path (sa_deleted resp),
              dl_cursor = sa_token resp, dl_full = (cursor = [])\<rparr>))"

definition client_Get :: "lib \<Rightarrow> carddav_provider \<Rightarrow> string \<Rightarrow> (provider_error, sync_item option) prog" where
  "client_Get L P rid = andThen (wrapErr ProvFail (dc_get (cp_client P) (object_path P rid))) (\<lambda>obj.
     ret (Some ((object_item L obj)\<lparr>si_remote_id := rid\<rparr>)))"

definition client_Put :: "lib \<Rightarrow> carddav_provider \<Rightarrow> sync_item \<Rightarrow> (provider_error, put_result) prog" where
  "client_Put L P item = (case gv_decode L (si_vcard item) of
     Inl e \<Rightarrow> throw (ProvFail e)
   | Inr decoded \<Rightarrow> andThen (wrapErr ProvFail (dc_put (cp_client P) (object_path P (si_remote_id item)) decoded)) (\<lambda>etag.
       ret \<lparr>pr_remote_id = si_remote_id item, pr_etag = etag\<rparr>))"

definition client_Delete :: "carddav_provider \<Rightarrow> string \<Rightarrow> (provider_error, unit) prog" where
  "client_Delete P rid = wrapErr ProvFail (dc_remove (cp_client P) (object_path P rid))"

definition CardDAVClientProvider :: "lib \<Rightarrow> carddav_provider \<Rightarrow> provider" where
  "CardDAVClientProvider L P = \<lparr>p_name = ''carddav'', p_list = client_List L P, p_get = client_Get L P, p_put = client_Put L P,
     p_delete = client_Delete P, p_list_changes = Some (client_ListChanges L P), p_put_if_match = Some (client_PutIfMatch P)\<rparr>"

section \<open>Lemmas\<close>

text \<open>Discovery only fails on a URL that cannot be read: the last strategy takes the path as it is.\<close>

lemma try_at_total: "\<exists>x w'. try_at D h locate w = (Inr x, w')"
  by (auto simp: try_at_def andThen_def attempt_def prog_simps split: prod.split sum.split)

lemma discovery_answers:
  assumes "dw_parse D endpoint \<noteq> None"
  shows "\<exists>found w'. discoverAddressBook D h endpoint w = (Inr found, w')"
proof -
  from assms obtain u where u: "dw_parse D endpoint = Some u" by blast
  let ?first = "ret endpoint :: (string, string) prog"
  obtain r1 w1 where 1: "try_at D h ?first w = (Inr r1 :: connect_error + _, w1)" using try_at_total by blast
  obtain r2 w2 where 2: "try_at D h (resolveWellKnown D h u) w1 = (Inr r2 :: connect_error + _, w2)" using try_at_total by blast
  obtain r3 w3 where 3: "try_at D h (dw_dns D (pu_host u)) w2 = (Inr r3 :: connect_error + _, w3)" using try_at_total by blast
  show ?thesis using u 1 2 3 by (auto simp: discoverAddressBook_def andThen_def prog_simps split: option.split)
qed

text \<open>The path the client chooses for a UID is read back as that UID, and so are the paths of this program's own server.\<close>

lemma uid_from_object_path:
  assumes "cp_ab_path P = base @ ''/''" "CHR ''/'' \<notin> set uid"
  shows "uid_from_path (object_path P uid) = uid"
proof -
  have "trim_suffix (object_path P uid) [CHR ''/''] = object_path P uid" by (rule trim_suffix_last) (simp_all add: object_path_def)
  moreover have "object_path P uid = base @ CHR ''/'' # (uid @ ''.vcf'')" by (simp add: object_path_def assms(1))
  ultimately show ?thesis using assms(2) split_on_append [of "CHR ''/''" base "uid @ ''.vcf''"]
    by (simp add: uid_from_path_def split_on_none)
qed

lemma own_server_names: "uid_from_path path = extractUIDFromPath path"
  by (simp add: uid_from_path_def extractUIDFromPath_def)

section \<open>Where a connection goes\<close>

text \<open>Where discovery may go on from an endpoint: to the URL its well-known address leads to, and, when it has no path, to the one that the DNS records of its
  host name.\<close>

definition leads_to :: "dav_web \<Rightarrow> string \<Rightarrow> string \<Rightarrow> bool" where
  "leads_to D e e' \<longleftrightarrow> (\<exists>u. dw_parse D e = Some u \<and> ((\<exists>h w w'. resolveWellKnown D h u w = (Inr e', w'))
     \<or> (pu_path u = [] \<or> pu_path u = ''/'') \<and> (\<exists>w w'. dw_dns D (pu_host u) w = (Inr e', w'))))"

text \<open>Two webs that answer alike at the endpoints of \<open>ok\<close>: at their well-known addresses, in the DNS records of their hosts, and, for every
  WebDAV request, at these endpoints and where they lead.\<close>

definition same_web :: "(string \<Rightarrow> bool) \<Rightarrow> dav_web \<Rightarrow> (http_client \<Rightarrow> string \<Rightarrow> dav_client) \<Rightarrow> dav_web \<Rightarrow> (http_client \<Rightarrow> string \<Rightarrow> dav_client) \<Rightarrow> bool" where
  "same_web ok D mk D' mk' \<longleftrightarrow> dw_parse D = dw_parse D' \<and> dw_client D = dw_client D'
     \<and> (\<forall>e u. ok e \<longrightarrow> dw_parse D e = Some u \<longrightarrow> (\<forall>h. dw_get D h (wellKnownURL u) = dw_get D' h (wellKnownURL u))
          \<and> ((pu_path u = [] \<or> pu_path u = ''/'') \<longrightarrow> dw_dns D (pu_host u) = dw_dns D' (pu_host u)))
     \<and> (\<forall>e h. ok e \<or> (\<exists>e0. ok e0 \<and> leads_to D e0 e) \<longrightarrow> dw_principal D h e = dw_principal D' h e
          \<and> dw_home_set D h e = dw_home_set D' h e \<and> dw_books D h e = dw_books D' h e \<and> mk h e = mk' h e)"

lemma leads_toI:
  "dw_parse D e = Some u \<Longrightarrow> resolveWellKnown D h u w = (Inr e', w') \<Longrightarrow> leads_to D e e'"
  "dw_parse D e = Some u \<Longrightarrow> pu_path u = [] \<or> pu_path u = ''/'' \<Longrightarrow> dw_dns D (pu_host u) w = (Inr e', w') \<Longrightarrow> leads_to D e e'"
  unfolding leads_to_def by blast+

lemma try_at_same:
  assumes "\<And>w e w'. locate w = (Inr e, w') \<Longrightarrow> tryDiscoverFull D h e = tryDiscoverFull D' h e"
  shows "try_at D h locate = try_at D' h locate"
  using assms by (force simp: try_at_def andThen_def attempt_def fun_eq_iff split: prod.split sum.split)

lemma try_at_located: "try_at D h locate w = (Inr (Some (e, path)), w') \<Longrightarrow> \<exists>w1. locate w = (Inr e, w1)"
  by (auto simp: try_at_def andThen_def attempt_def prog_simps split: prod.splits sum.splits)

lemma discovery_same:
  assumes "same_web ok D mk D' mk'" "ok e"
  shows "discoverAddressBook D h e = discoverAddressBook D' h e"
proof (cases "dw_parse D e")
  case (Some u)
  have full: "tryDiscoverFull D h x = tryDiscoverFull D' h x" if "ok x \<or> leads_to D e x" for x
    using assms that unfolding same_web_def tryDiscoverFull_def by metis
  have get: "dw_get D h (wellKnownURL u) = dw_get D' h (wellKnownURL u)"
    and dns: "pu_path u = [] \<or> pu_path u = ''/'' \<Longrightarrow> dw_dns D (pu_host u) = dw_dns D' (pu_host u)"
    using assms Some unfolding same_web_def by metis+
  have known: "resolveWellKnown D h u = resolveWellKnown D' h u" by (simp add: resolveWellKnown_def get)
  have 1: "try_at D h (ret e :: (string, string) prog) = (try_at D' h (ret e :: (string, string) prog) :: (connect_error, _) prog)"
    by (rule try_at_same) (use assms(2) full in \<open>simp add: prog_simps\<close>)
  have 2: "try_at D h (resolveWellKnown D h u) = (try_at D' h (resolveWellKnown D' h u) :: (connect_error, _) prog)"
    unfolding known [symmetric] by (rule try_at_same) (rule full, rule disjI2, rule leads_toI(1) [OF Some])
  have 3: "try_at D h (dw_dns D (pu_host u)) = (try_at D' h (dw_dns D' (pu_host u)) :: (connect_error, _) prog)" if "pu_path u = [] \<or> pu_path u = ''/''"
    unfolding dns [OF that, symmetric] by (rule try_at_same) (rule full, rule disjI2, rule leads_toI(2) [OF Some that])
  have "dw_parse D = dw_parse D'" using assms(1) by (simp add: same_web_def)
  then show ?thesis using Some 1 2 3 by (simp add: discoverAddressBook_def)
qed (use assms(1) in \<open>simp add: discoverAddressBook_def same_web_def\<close>)

lemma discovery_found:
  assumes "discoverAddressBook D h e w = (Inr (resolved, path), w')"
  shows "resolved = e \<or> leads_to D e resolved"
  using assms
  by (auto simp: discoverAddressBook_def andThen_Inr prog_simps split: option.splits if_splits dest!: try_at_located intro: leads_toI)

text \<open>Connecting starts at an endpoint and goes nowhere else than where it leads.\<close>

lemma connection_same:
  assumes "same_web ok D mk D' mk'" "ok e"
  shows "newCardDAVClientProvider D mk e h = newCardDAVClientProvider D' mk' e h"
proof -
  have "mk h r = mk' h r" if "discoverAddressBook D' h e w = (Inr (r, path), w')" for w r path w'
    using discovery_found [of D h e w r path w'] that assms unfolding discovery_same [OF assms] same_web_def by blast
  moreover have "dw_parse D = dw_parse D'" "dw_client D = dw_client D'" using assms(1) by (simp_all add: same_web_def)
  ultimately show ?thesis
    by (auto simp: newCardDAVClientProvider_def discovery_same [OF assms] andThen_def fun_eq_iff prog_simps split: prod.split sum.split)
qed

section \<open>The provider over a server that evaluates preconditions\<close>

text \<open>A UID that is one segment of a path.\<close>

definition plain_uid :: "string \<Rightarrow> bool" where
  "plain_uid uid \<longleftrightarrow> CHR ''/'' \<notin> set uid"

text \<open>Section 13.1 of RFC 9110: \<open>If-None-Match: *\<close> is false on a resource that exists, \<open>If-Match\<close> is true on the one that has the tag.
  The tags of \<open>go-webdav\<close> have no quotes, those of a header have.\<close>

definition entity_tag :: "string \<Rightarrow> string" where
  "entity_tag e = CHR 0x22 # e @ [CHR 0x22]"

definition met_by :: "precondition \<Rightarrow> dav_object \<Rightarrow> bool" where
  "met_by c obj = (case c of IfNoneMatchAny \<Rightarrow> False | IfMatch t \<Rightarrow> t = entity_tag (ob_etag obj))"

text \<open>What is asked of the server and of the library's client, for the objects of one address book (\<open>objs\<close>, by path): a GET changes nothing,
  a PUT or DELETE changes no other object, answered or not, and a PUT whose precondition the object does not meet changes nothing and
  is not answered with success. Nothing is asked of what is stored by a PUT, of listings, or of the tags.\<close>

locale carddav_server =
  fixes P :: carddav_provider and objs :: "remote_card list \<Rightarrow> string \<Rightarrow> dav_object option"
  assumes get_reads: "dc_get (cp_client P) path w = (g, w') \<Longrightarrow> objs (w_remote w') = objs (w_remote w)"
    and put_one: "dc_put (cp_client P) (object_path P k) vc w = (q, w') \<Longrightarrow> plain_uid k \<Longrightarrow> plain_uid l \<Longrightarrow> l \<noteq> k \<Longrightarrow>
      objs (w_remote w') (object_path P l) = objs (w_remote w) (object_path P l)"
    and remove_one: "dc_remove (cp_client P) (object_path P k) w = (d, w') \<Longrightarrow> plain_uid k \<Longrightarrow> plain_uid l \<Longrightarrow> l \<noteq> k \<Longrightarrow>
      objs (w_remote w') (object_path P l) = objs (w_remote w) (object_path P l)"
    and put_raw_one: "dc_put_raw (cp_client P) (object_path P k) body pre w = (r, w') \<Longrightarrow> plain_uid k \<Longrightarrow> plain_uid l \<Longrightarrow> l \<noteq> k \<Longrightarrow>
      objs (w_remote w') (object_path P l) = objs (w_remote w) (object_path P l)"
    and precondition: "dc_put_raw (cp_client P) (object_path P k) body pre w = (r, w') \<Longrightarrow> plain_uid k \<Longrightarrow>
      objs (w_remote w) (object_path P k) = Some obj \<Longrightarrow> \<not> met_by pre obj \<Longrightarrow>
      objs (w_remote w') (object_path P k) = Some obj \<and> (\<forall>status header. r = Inr (status, header) \<longrightarrow> status \<ge> 400)"

text \<open>The cards of the server, as \<open>Get\<close> answers them.\<close>

definition dav_view :: "lib \<Rightarrow> carddav_provider \<Rightarrow> (remote_card list \<Rightarrow> string \<Rightarrow> dav_object option) \<Rightarrow> world \<Rightarrow> string \<Rightarrow> sync_item option" where
  "dav_view L P objs w rid = map_option (\<lambda>obj. (object_item L obj)\<lparr>si_remote_id := rid\<rparr>) (objs (w_remote w) (object_path P rid))"

definition tag_moved :: "string \<Rightarrow> sync_item \<Rightarrow> bool" where
  "tag_moved e c \<longleftrightarrow> e = [] \<or> quoteETag e \<noteq> entity_tag (si_etag c)"

context carddav_server
begin

text \<open>A conditional write against an object that has moved on: it stays, and the write is reported as failed.\<close>

lemma PutIfMatch_moved:
  assumes "client_PutIfMatch P item e w = (r, w')" "plain_uid (si_remote_id item)" "dav_view L P objs w (si_remote_id item) = Some c" "tag_moved e c"
  shows "dav_view L P objs w' (si_remote_id item) = Some c \<and> (\<exists>x. r = Inl x)"
proof -
  obtain obj where obj: "objs (w_remote w) (object_path P (si_remote_id item)) = Some obj" "si_etag c = ob_etag obj"
    using assms(3) by (auto simp: dav_view_def object_item_def Let_def)
  let ?pre = "if e = [] then IfNoneMatchAny else IfMatch (quoteETag e)"
  obtain a w1 where raw: "dc_put_raw (cp_client P) (object_path P (si_remote_id item)) (si_vcard item) ?pre w = (a, w1)" by fastforce
  have "\<not> met_by ?pre obj" using assms(4) obj(2) by (auto simp: met_by_def tag_moved_def)
  from precondition [OF raw assms(2) obj(1) this] have "objs (w_remote w1) (object_path P (si_remote_id item)) = Some obj"
    and "\<And>status header. a = Inr (status, header) \<Longrightarrow> status \<ge> 400" by auto
  with raw assms(1,3) obj show ?thesis
    by (cases a) (auto simp: client_PutIfMatch_def andThen_def wrapErr_def prog_simps dav_view_def Let_def split: if_splits prod.splits)
qed

lemma PutIfMatch_others:
  assumes "client_PutIfMatch P item e w = (r, w')" "plain_uid (si_remote_id item)" "plain_uid k" "k \<noteq> si_remote_id item"
  shows "dav_view L P objs w' k = dav_view L P objs w k"
proof -
  let ?pre = "if e = [] then IfNoneMatchAny else IfMatch (quoteETag e)" and ?path = "object_path P (si_remote_id item)"
  obtain a w1 where raw: "dc_put_raw (cp_client P) ?path (si_vcard item) ?pre w = (a, w1)" by fastforce
  obtain g w2 where get: "dc_get (cp_client P) ?path w1 = (g, w2)" by fastforce
  have "w' = w1 \<or> w' = w2"
    using assms(1) raw get by (cases a) (auto simp: client_PutIfMatch_def andThen_def attempt_def wrapErr_def prog_simps Let_def split: if_splits prod.splits)
  then show ?thesis using put_raw_one [OF raw assms(2-4)] get_reads [OF get] by (auto simp: dav_view_def)
qed

lemma PutIfMatch_id: "client_PutIfMatch P item e w = (Inr x, w') \<Longrightarrow> pr_remote_id x = si_remote_id item"
  by (auto simp: client_PutIfMatch_def andThen_def attempt_def wrapErr_def prog_simps Let_def split: if_splits prod.splits sum.splits)

end

sublocale carddav_server \<subseteq> remote: etag_remote "CardDAVClientProvider L P" "dav_view L P objs" "\<lambda>_. True" "client_PutIfMatch P" plain_uid tag_moved for L
proof
  fix w k g w' assume "p_get (CardDAVClientProvider L P) k w = (g, w')"
  then have "\<exists>x. dc_get (cp_client P) (object_path P k) w = (x, w')"
    by (auto simp: CardDAVClientProvider_def client_Get_def andThen_def wrapErr_def prog_simps split: prod.splits sum.splits)
  then show "True \<and> dav_view L P objs w' = dav_view L P objs w" using get_reads by (auto simp: dav_view_def fun_eq_iff)
next
  fix w item r w' k c
  assume run: "p_put (CardDAVClientProvider L P) item w = (r, w')" and ids: "plain_uid (si_remote_id item)" "plain_uid k" "k \<noteq> si_remote_id item"
    and c: "dav_view L P objs w k = Some c"
  have "w' = w \<or> (\<exists>vc x. dc_put (cp_client P) (object_path P (si_remote_id item)) vc w = (x, w'))"
    using run by (auto simp: CardDAVClientProvider_def client_Put_def andThen_def wrapErr_def prog_simps split: prod.splits sum.splits)
  then show "True \<and> dav_view L P objs w' k = Some c" using put_one [OF _ ids] c by (auto simp: dav_view_def)
next
  fix w l d w' k c
  assume run: "p_delete (CardDAVClientProvider L P) l w = (d, w')" and ids: "plain_uid l" "plain_uid k" "k \<noteq> l" and c: "dav_view L P objs w k = Some c"
  have "\<exists>x. dc_remove (cp_client P) (object_path P l) w = (x, w')"
    using run by (auto simp: CardDAVClientProvider_def client_Delete_def wrapErr_def split: prod.splits sum.splits)
  then show "True \<and> dav_view L P objs w' k = Some c" using remove_one [OF _ ids] c by (auto simp: dav_view_def)
next
  fix w item e r w' k c
  assume run: "client_PutIfMatch P item e w = (r, w')" and ids: "plain_uid (si_remote_id item)" "plain_uid k"
    and c: "dav_view L P objs w k = Some c" "k \<noteq> si_remote_id item \<or> tag_moved e c"
  show "True \<and> dav_view L P objs w' k = Some c"
    using PutIfMatch_others [OF run ids] PutIfMatch_moved [OF run ids(1)] c by (cases "k = si_remote_id item") auto
next
  fix w item e x w'
  assume "client_PutIfMatch P item e w = (Inr x, w')" "plain_uid (si_remote_id item)"
  then show "pr_remote_id x = si_remote_id item \<and> (\<forall>c. dav_view L P objs w (si_remote_id item) = Some c \<longrightarrow> \<not> tag_moved e c)"
    using PutIfMatch_id PutIfMatch_moved by fast
qed (simp_all add: dav_view_def own_tables_only_def fun_eq_iff CardDAVClientProvider_def)

context carddav_server
begin

lemmas push_keeps = remote.pushPhase_keeps

end

section \<open>Properties\<close>

text \<open>C2: An export to a CardDAV server never overwrites an edit made there. Take a contact on the server that changed since the last run: each
  state the pipeline keeps for it has an ETag that, quoted as the client sends it, is not the contact's present one, or has none. The server is any that evaluates
  \<open>If-Match\<close> and \<open>If-None-Match\<close> as HTTP says and changes, on a request for one object, no other object. If the conflict mode is not \<open>dest_wins\<close>, the cards tracked as the
  contact's local side are still there, no untracked local card has its UID, and the UIDs involved have no slash, then the contact on the server, its text and its ETag,
  is the same after the push phase, whatever the order of the maps, whichever database statements and requests fail.
  Nobody else writes to the server during the run.\<close>

theorem export_keeps_remote_edits:
  assumes "carddav_server P objs" "dav_view L' P objs w j = Some c" "plain_uid j" "book_inv v w" "cm \<noteq> ConflictDestWins" "\<And>xs. set (ord xs) = set xs"
    "\<And>s. s \<in> set (t_sync_states (w_db w)) \<Longrightarrow> of_pipeline u p s \<Longrightarrow> plain_uid (ss_remote_id s) \<and>
       (ss_remote_id s = j \<longrightarrow> (ss_remote_etag s = [] \<or> quoteETag (ss_remote_etag s) \<noteq> entity_tag (si_etag c)) \<and> book_view L v w (ss_local_id s) \<noteq> None)"
    "\<And>k. book_view L v w k \<noteq> None \<Longrightarrow> k \<notin> ss_local_id ` {s \<in> set (t_sync_states (w_db w)). of_pipeline u p s} \<Longrightarrow> plain_uid k \<and> k \<noteq> j"
    "pushPhase E ord u p (InternalProvider L v) (CardDAVClientProvider L' P) cm res w = (r, w')"
  shows "dav_view L' P objs w' j = Some c"
  using carddav_server.push_keeps [OF assms(1) TrueI assms(2-6) _ assms(8,9)] assms(7) by (simp add: tag_moved_def)

text \<open>Which deletions an incremental listing carries. When the server answers a stored cursor, a tracked card is deleted locally exactly when
  the last element of some deleted path, without \<open>.vcf\<close>, is the identifier it is tracked under, and the cursor moves on in any case. A card is tracked under
  its UID, and a server is free to choose the file name.\<close>

theorem incremental_deletions_by_file_name:
  assumes "dc_sync (cp_client P) (cp_ab_path P) cursor w = (Inr resp, w1)" "client_ListChanges L P cursor w = (Inr d, w')" "cursor \<noteq> []"
    "map_of prevs rid \<noteq> None"
  shows "(rid \<in> set (deletionsFromDelta ord d prevs remoteMap) \<longleftrightarrow> rid \<in> uid_from_path ` set (sa_deleted resp)) \<and> dl_cursor d = sa_token resp"
proof -
  have "dl_deleted d = map uid_from_path (sa_deleted resp)" "\<not> dl_full d" "dl_cursor d = sa_token resp"
    using assms(1-3) by (auto simp: client_ListChanges_def andThen_def attempt_def prog_simps wrapErr_def split: if_splits prod.splits sum.splits)
  with assms(4) show ?thesis by (auto simp: deletionsFromDelta_def)
qed

text \<open>One way through discovery: it fails at the endpoint that was given, the well-known address does not answer, the endpoint has no
  path, and DNS names another one where discovery succeeds. The provider is then connected to that other endpoint, with the client that
  sends the user's name and password.\<close>

theorem dns_endpoint_unchecked:
  assumes "dw_parse D endpoint = Some u" "pu_path u = []"
    "tryDiscoverFull D (basic_client username password skip) endpoint w = (Inl e1, w1)"
    "resolveWellKnown D (basic_client username password skip) u w1 = (Inl e2, w2)"
    "dw_dns D (pu_host u) w2 = (Inr other, w3)" "tryDiscoverFull D (basic_client username password skip) other w3 = (Inr path, w4)"
    "dw_client D other" "dw_parse D other \<noteq> None"
  shows "NewCardDAVClientProviderWithOptions D mk endpoint username password skip w
    = (Inr \<lparr>cp_client = mk (basic_client username password skip) other, cp_ab_path = path\<rparr>, w4)"
  using assms
  by (simp add: NewCardDAVClientProviderWithOptions_def newCardDAVClientProvider_def discoverAddressBook_def try_at_def andThen_def attempt_def prog_simps)


subsection \<open>Concrete runs\<close>

text \<open>A server whose objects are the rows of \<open>w_remote\<close>, by path; every PUT gives a new tag.\<close>

definition row_objects :: "lib \<Rightarrow> remote_card list \<Rightarrow> string \<Rightarrow> dav_object option" where
  "row_objects L cs path = map_option (\<lambda>c. \<lparr>ob_path = path, ob_etag = rc_etag c, ob_card = (case gv_decode L (rc_vcard c) of Inl _ \<Rightarrow> [] | Inr vc \<Rightarrow> vc)\<rparr>)
     (find (\<lambda>c. rc_id c = path) cs)"

definition row_store :: "string \<Rightarrow> string \<Rightarrow> (string, string) prog" where
  "row_store path body = andThen mint (\<lambda>e w. (Inr e, w\<lparr>w_remote := \<lparr>rc_id = path, rc_etag = e, rc_vcard = body\<rparr> # filter (\<lambda>c. rc_id c \<noteq> path) (w_remote w)\<rparr>))"

definition row_server :: "lib \<Rightarrow> carddav_provider" where
  "row_server L = \<lparr>cp_client = \<lparr>dc_query = (\<lambda>_ w. (Inr (List.map_filter (\<lambda>c. row_objects L (w_remote w) (rc_id c)) (w_remote w)), w)),
     dc_sync = (\<lambda>_ _. throw ''501''), dc_multiget = (\<lambda>_ paths w. (Inr (List.map_filter (row_objects L (w_remote w)) paths), w)),
     dc_get = (\<lambda>path w. (case row_objects L (w_remote w) path of None \<Rightarrow> Inl ''404'' | Some obj \<Rightarrow> Inr obj, w)),
     dc_put = (\<lambda>path vc. row_store path (CardToString L vc)),
     dc_remove = (\<lambda>path w. (Inr (), w\<lparr>w_remote := filter (\<lambda>c. rc_id c \<noteq> path) (w_remote w)\<rparr>)),
     dc_put_raw = (\<lambda>path body pre w. if (case row_objects L (w_remote w) path of None \<Rightarrow> pre = IfNoneMatchAny | Some obj \<Rightarrow> met_by pre obj)
        then andThen (row_store path body) (\<lambda>e. ret (201, entity_tag e)) w else (Inr (412, []), w))\<rparr>, cp_ab_path = ''/dav/''\<rparr>"

lemma row_objects_other:
  "l \<noteq> path \<Longrightarrow> row_objects L (filter (\<lambda>c. rc_id c \<noteq> path) cs) l = row_objects L cs l"
  "l \<noteq> path \<Longrightarrow> row_objects L (\<lparr>rc_id = path, rc_etag = e, rc_vcard = b\<rparr> # cs) l = row_objects L cs l"
  by (auto simp: row_objects_def) (induction cs; auto)

interpretation rows: carddav_server "row_server L" "row_objects L" for L
  by unfold_locales
    (auto simp: row_server_def row_store_def object_path_def andThen_def prog_simps row_objects_other split: if_splits option.splits)

definition edited_there :: world where
  "edited_there = two_edits\<lparr>w_remote := [\<lparr>rc_id = ''/dav/r.vcf'', rc_etag = ''r1'', rc_vcard = ''remote''\<rparr>]\<rparr>"

lemma edited_there_facts:
  "book_inv ''u'' edited_there" "book_view L ''u'' edited_there = book_view L ''u'' two_edits"
  "t_sync_states (w_db edited_there) = t_sync_states (w_db two_edits)"
  "book_view L ''u'' two_edits k = Some y \<Longrightarrow> k = ''ada''"
  using two_edits_book by (auto simp: edited_there_def book_inv_def fresh_contacts_def book_view_def fun_eq_iff user_book_id_def select_one_def card_row_def
      two_edits_def one_card_def small_world_def small_db_def ada_card_def ada_def blank_contact_def split: if_splits)

theorem export_keeps_remote_edits_witness:
  "\<exists>c. dav_view (table_lib []) (row_server (table_lib [])) (row_objects (table_lib [])) edited_there ''r'' = Some c \<and> si_etag c = ''r1''
    \<and> dav_view (table_lib []) (row_server (table_lib [])) (row_objects (table_lib []))
       (snd (pushPhase (small_engine (table_lib [])) id ''u'' ''p'' (InternalProvider (table_lib []) ''u'')
         (CardDAVClientProvider (table_lib []) (row_server (table_lib []))) ''skip'' no_result edited_there)) ''r'' = Some c"
  (is "\<exists>c. ?view edited_there ''r'' = Some c \<and> _ \<and> ?view (snd ?run) _ = Some c")
proof -
  obtain c where c: "?view edited_there ''r'' = Some c" "si_etag c = ''r1''"
    by (auto simp: dav_view_def row_objects_def edited_there_def object_path_def row_server_def object_item_def Let_def)
  have "?view (snd ?run) ''r'' = Some c"
  proof (rule export_keeps_remote_edits [where ord = id and cm = "''skip''" and L = "table_lib []", OF rows.carddav_server_axioms c(1)])
    show "?run = (fst ?run, snd ?run)" by simp
    show "plain_uid k \<and> k \<noteq> ''r''" if "book_view (table_lib []) ''u'' edited_there k \<noteq> None" for k
    proof -
      have "k = ''ada''" using that edited_there_facts(4) unfolding edited_there_facts(2) by blast
      then show ?thesis by (simp add: plain_uid_def)
    qed
  qed (auto simp: edited_there_facts(1-3) two_edits_book two_edits_r ada_state_def of_pipeline_def ConflictDestWins_def plain_uid_def c quoteETag_def entity_tag_def)
  with c show ?thesis by blast
qed

text \<open>A server with one card, of UID \<open>ada\<close>, that has just been deleted; \<open>name\<close> is the file it was in.\<close>

definition shrunk_server :: "string \<Rightarrow> carddav_provider" where
  "shrunk_server name = \<lparr>cp_client = \<lparr>dc_query = (\<lambda>_. ret []), dc_sync = (\<lambda>_ _. ret \<lparr>sa_token = ''2'', sa_updated = [], sa_deleted = [''/dav/'' @ name @ ''.vcf'']\<rparr>),
     dc_multiget = (\<lambda>_ _. ret []), dc_get = (\<lambda>_. throw ''404''), dc_put = (\<lambda>_ _. throw ''403''), dc_remove = (\<lambda>_. throw ''404''),
     dc_put_raw = (\<lambda>_ _ _. ret (403, []))\<rparr>, cp_ab_path = ''/dav/''\<rparr>"

theorem incremental_deletions_by_file_name_witness:
  "\<exists>d e w1 w2. client_ListChanges (table_lib []) (shrunk_server ''ada'') ''1'' (small_world small_db []) = (Inr d, w1)
     \<and> client_ListChanges (table_lib []) (shrunk_server ''4711'') ''1'' (small_world small_db []) = (Inr e, w2)
     \<and> ''ada'' \<in> set (deletionsFromDelta id d [(''ada'', ada_state)] []) \<and> ''ada'' \<notin> set (deletionsFromDelta id e [(''ada'', ada_state)] []) \<and> dl_cursor e = ''2''"
proof -
  let ?w = "small_world small_db []"
  let ?d = "\<lambda>name. \<lparr>dl_updated = [], dl_deleted = [uid_from_path (''/dav/'' @ name @ ''.vcf'')], dl_cursor = ''2'', dl_full = False\<rparr>"
  have run: "client_ListChanges (table_lib []) (shrunk_server name) ''1'' ?w = (Inr (?d name), ?w)" for name
    by (simp add: client_ListChanges_def shrunk_server_def andThen_def attempt_def prog_simps)
  have sync: "dc_sync (cp_client (shrunk_server name)) (cp_ab_path (shrunk_server name)) ''1'' ?w
      = (Inr \<lparr>sa_token = ''2'', sa_updated = [], sa_deleted = [''/dav/'' @ name @ ''.vcf'']\<rparr>, ?w)" for name
    by (simp add: shrunk_server_def prog_simps)
  have names: "uid_from_path ''/dav/ada.vcf'' = ''ada''" "uid_from_path ''/dav/4711.vcf'' = ''4711''" by code_simp+
  have iff: "(''ada'' \<in> set (deletionsFromDelta id (?d name) [(''ada'', ada_state)] []) \<longleftrightarrow> ''ada'' = uid_from_path (''/dav/'' @ name @ ''.vcf''))" for name
    using incremental_deletions_by_file_name [OF sync run, where prevs = "[(''ada'', ada_state)]" and rid = "''ada''" and ord = id and remoteMap = "[]" and name1 = name] by auto
  show ?thesis
    using iff [of "''ada''"] iff [of "''4711''"] names 
    by - (intro exI conjI, rule run, rule run, simp_all)
qed

text \<open>A host without a CardDAV server of its own whose DNS records name a server on another host.\<close>

definition delegating_web :: dav_web where
  "delegating_web = \<lparr>dw_parse = (\<lambda>s. Some (if s = ''https://a'' then \<lparr>pu_scheme = ''https'', pu_host = ''a'', pu_path = [], pu_user = False\<rparr> else \<lparr>pu_scheme = ''http'', pu_host = ''b'', pu_path = ''/'', pu_user = False\<rparr>)),
     dw_client = (\<lambda>_. True), dw_principal = (\<lambda>_ _. ret ''/p''), dw_home_set = (\<lambda>_ e _. if e = ''https://a'' then throw ''404'' else ret ''/h''),
     dw_books = (\<lambda>_ _ _. ret [''/h/book'']), dw_get = (\<lambda>_ _. ret (404, [])), dw_dns = (\<lambda>_. ret ''http://b'')\<rparr>"

theorem dns_endpoint_unchecked_witness:
  "NewCardDAVClientProviderWithOptions delegating_web (\<lambda>h e. (cp_client (shrunk_server e))) ''https://a'' ''ada'' ''secret'' False (small_world small_db [])
    = (Inr (\<lparr>cp_client = cp_client (shrunk_server ''http://b''), cp_ab_path = ''/h/book''\<rparr>), small_world small_db [])"
  by (rule dns_endpoint_unchecked [where u = "\<lparr>pu_scheme = ''https'', pu_host = ''a'', pu_path = [], pu_user = False\<rparr>" and ?e1.0 = "CnHomeSet ''404''" and ?e2.0 = "CnStatus 404"
        and ?w1.0 = "small_world small_db []" and ?w2.0 = "small_world small_db []" and ?w3.0 = "small_world small_db []"])
    (simp_all add: delegating_web_def tryDiscoverFull_def resolveWellKnown_def andThen_def attempt_def wrapErr_def prog_simps)

end
