(* ===== verification/Pipelines.thy ===== *)
theory Pipelines
  imports CardDAVClient
begin

text \<open>
  Pipelines: the endpoints a deployment is willing to fetch (\<open>internal/sync/endpoint.go\<close>), the tables of pipelines and of
  stored connections (\<open>internal/repository/bun_pipeline.go\<close>, \<open>bun_provider_connection.go\<close>), the service that edits pipelines
  (\<open>internal/service/pipeline.go\<close>) and the orchestrator that runs their steps through the sync engine
  (\<open>internal/sync/pipeline.go\<close>). Reading of URLs and of JSON, the OAuth exchange, what servers and DNS answer, and the People API are the fields of a
  record the definitions take; a CardDAV provider is made by the constructors of the CardDAV client.
\<close>

section \<open>Definitions\<close>

subsection \<open>Endpoints\<close>

record provider_config =
  pg_credential_id :: string
  pg_endpoint :: string
  pg_username :: string
  pg_password :: string
  pg_skip_tls_verify :: bool
  pg_access_token :: string

text \<open>\<open>nw_endpoint_of\<close> and \<open>nw_config_of\<close> are the two ways a configuration is unmarshalled, \<open>nw_http_client\<close> the OAuth client of a
  connection; \<open>nw_web\<close> and \<open>nw_dav\<close> are what CardDAV connections are made over, and \<open>nw_google\<close> the People API behind a client.\<close>

record network =
  nw_unicode :: unicode
  nw_endpoint_of :: "string \<Rightarrow> string option"
  nw_config_of :: "string \<Rightarrow> provider_config option"
  nw_http_client :: "provider_connection \<Rightarrow> (string, http_client) prog"
  nw_web :: dav_web
  nw_dav :: "http_client \<Rightarrow> string \<Rightarrow> dav_client"
  nw_google :: "http_client \<Rightarrow> (string, provider) prog"

datatype endpoint_error = EpRequired | EpUnreadable | EpInsecure | EpScheme string | EpNoHost | EpCredentials

record endpoint_policy =
  ep_allow_insecure :: bool

definition ValidateProviderEndpoint :: "network \<Rightarrow> string \<Rightarrow> endpoint_policy \<Rightarrow> endpoint_error option" where
  "ValidateProviderEndpoint N endpoint policy =
     (let trimmed = trim_space endpoint
      in if trimmed = [] then Some EpRequired
         else case dw_parse (nw_web N) trimmed of
           None \<Rightarrow> Some EpUnreadable
         | Some u \<Rightarrow>
             let scheme = to_lower (nw_unicode N) (pu_scheme u)
             in if scheme \<noteq> ''https'' \<and> scheme \<noteq> ''http'' then Some (EpScheme (pu_scheme u))
                else if scheme = ''http'' \<and> \<not> ep_allow_insecure policy then Some EpInsecure
                else if pu_host u = [] then Some EpNoHost
                else if pu_user u then Some EpCredentials
                else None)"

definition endpointFromConfig :: "network \<Rightarrow> string \<Rightarrow> string option" where
  "endpointFromConfig N cfg =
     (if trim_space cfg = [] then None
      else case nw_endpoint_of N cfg of
        None \<Rightarrow> None | Some e \<Rightarrow> if trim_space e = [] then None else Some e)"

fun ValidateConfigs :: "network \<Rightarrow> string list \<Rightarrow> endpoint_policy \<Rightarrow> endpoint_error option" where
  "ValidateConfigs N [] policy = None"
| "ValidateConfigs N (cfg # cfgs) policy = (case endpointFromConfig N cfg of
     None \<Rightarrow> ValidateConfigs N cfgs policy
   | Some e \<Rightarrow> (case ValidateProviderEndpoint N e policy of Some err \<Rightarrow> Some err | None \<Rightarrow> ValidateConfigs N cfgs policy))"

definition ValidateStepEndpoints :: "network \<Rightarrow> string \<Rightarrow> string \<Rightarrow> endpoint_policy \<Rightarrow> endpoint_error option" where
  "ValidateStepEndpoints N sourceConfig destConfig policy = ValidateConfigs N [sourceConfig, destConfig] policy"

definition maxEndpointRedirects :: nat where "maxEndpointRedirects = 3"

datatype redirect_error = ErrTooManyRedirects | ErrRedirectToAnotherHost

text \<open>The requests already made come first to last.\<close>

definition redirectPolicy :: "unicode \<Rightarrow> parsed_url \<Rightarrow> parsed_url list \<Rightarrow> redirect_error option" where
  "redirectPolicy U req via =
     (if maxEndpointRedirects \<le> length via then Some ErrTooManyRedirects
      else if via \<noteq> [] \<and> \<not> equal_fold U (pu_host req) (pu_host (hd via)) then Some ErrRedirectToAnotherHost
      else None)"

subsection \<open>Tables\<close>

definition CreatePipeline :: "pipeline \<Rightarrow> (db_error, unit) prog" where
  "CreatePipeline p = stmt (\<lambda>d. if \<not> has_user d (pl_user_id p) then Inl ErrConstraint
     else case insert_row pl_id p (t_pipelines d) of Inl e \<Rightarrow> Inl e | Inr rows \<Rightarrow> Inr ((), d\<lparr>t_pipelines := rows\<rparr>))"

definition steps_of :: "string \<Rightarrow> db \<Rightarrow> pipeline_step list" where
  "steps_of i d = sort_key ps_order (filter (\<lambda>s. ps_pipeline_id s = i) (t_pipeline_steps d))"

definition GetSteps :: "string \<Rightarrow> (db_error, pipeline_step list) prog" where
  "GetSteps i = query (steps_of i)"

text \<open>The steps of a pipeline are loaded by a second query.\<close>

definition GetPipeline :: "string \<Rightarrow> (db_error, (pipeline \<times> pipeline_step list) option) prog" where
  "GetPipeline i = andThen (query (\<lambda>d. select_one (\<lambda>p. pl_id p = i) (t_pipelines d))) (\<lambda>found. case found of
     None \<Rightarrow> ret None | Some p \<Rightarrow> andThen (query (steps_of i)) (\<lambda>steps. ret (Some (p, steps))))"

definition ListPipelines :: "string \<Rightarrow> (db_error, (pipeline \<times> pipeline_step list) list) prog" where
  "ListPipelines u = andThen (query (\<lambda>d. sort_key (\<lambda>p. - pl_created_at p) (filter (\<lambda>p. pl_user_id p = u) (t_pipelines d)))) (\<lambda>ps.
     if ps = [] then ret [] else andThen (query (\<lambda>d. map (\<lambda>p. (p, steps_of (pl_id p) d)) ps)) ret)"

definition UpdatePipeline :: "pipeline \<Rightarrow> (db_error, unit) prog" where
  "UpdatePipeline p = stmt (\<lambda>d.
     if pl_id p \<in> pl_id ` set (t_pipelines d) \<and> \<not> has_user d (pl_user_id p) then Inl ErrConstraint
     else Inr ((), d\<lparr>t_pipelines := upsert_row pl_id p (t_pipelines d)\<rparr>))"

definition DeletePipeline :: "string \<Rightarrow> (db_error, unit) prog" where
  "DeletePipeline i = stmt (\<lambda>d. Inr ((), d\<lparr>t_pipelines := filter (\<lambda>p. pl_id p \<noteq> i) (t_pipelines d),
     t_pipeline_steps := filter (\<lambda>s. ps_pipeline_id s \<noteq> i) (t_pipeline_steps d)\<rparr>))"

definition CreateStep :: "pipeline_step \<Rightarrow> (db_error, unit) prog" where
  "CreateStep s = stmt (\<lambda>d. if ps_pipeline_id s \<notin> pl_id ` set (t_pipelines d) then Inl ErrConstraint
     else case insert_row ps_id s (t_pipeline_steps d) of Inl e \<Rightarrow> Inl e | Inr rows \<Rightarrow> Inr ((), d\<lparr>t_pipeline_steps := rows\<rparr>))"

definition DeleteSteps :: "string \<Rightarrow> (db_error, unit) prog" where
  "DeleteSteps i = stmt (\<lambda>d. Inr ((), d\<lparr>t_pipeline_steps := filter (\<lambda>s. ps_pipeline_id s \<noteq> i) (t_pipeline_steps d)\<rparr>))"

definition ListAllEnabled :: "(db_error, pipeline list) prog" where
  "ListAllEnabled = query (\<lambda>d. sort_key pl_created_at (filter (\<lambda>p. pl_enabled p \<and> pl_schedule p \<noteq> []) (t_pipelines d)))"

definition CreateConnection :: "provider_connection \<Rightarrow> (db_error, unit) prog" where
  "CreateConnection c = stmt (\<lambda>d. if \<not> has_user d (pc_user_id c) then Inl ErrConstraint
     else case insert_row pc_id c (t_connections d) of Inl e \<Rightarrow> Inl e | Inr rows \<Rightarrow> Inr ((), d\<lparr>t_connections := rows\<rparr>))"

definition GetConnection :: "string \<Rightarrow> (db_error, provider_connection option) prog" where
  "GetConnection i = query (\<lambda>d. select_one (\<lambda>c. pc_id c = i) (t_connections d))"

definition ListConnections :: "string \<Rightarrow> (db_error, provider_connection list) prog" where
  "ListConnections u = query (\<lambda>d. sort_key pc_created_at (filter (\<lambda>c. pc_user_id c = u) (t_connections d)))"

definition GetByUserAndType :: "string \<Rightarrow> string \<Rightarrow> (db_error, provider_connection option) prog" where
  "GetByUserAndType u k = query (\<lambda>d. select_one (\<lambda>c. pc_user_id c = u \<and> pc_provider_type c = k) (t_connections d))"

definition UpdateConnection :: "provider_connection \<Rightarrow> (db_error, unit) prog" where
  "UpdateConnection c = stmt (\<lambda>d.
     if pc_id c \<in> pc_id ` set (t_connections d) \<and> \<not> has_user d (pc_user_id c) then Inl ErrConstraint
     else Inr ((), d\<lparr>t_connections := upsert_row pc_id c (t_connections d)\<rparr>))"

definition DeleteConnection :: "string \<Rightarrow> (db_error, unit) prog" where
  "DeleteConnection i = stmt (\<lambda>d. Inr ((), d\<lparr>t_connections := filter (\<lambda>c. pc_id c \<noteq> i) (t_connections d)\<rparr>))"

definition SetConnected :: "string \<Rightarrow> bool \<Rightarrow> (db_error, unit) prog" where
  "SetConnected i b = andThen now (\<lambda>t. stmt (\<lambda>d. Inr ((), d\<lparr>t_connections :=
     map (\<lambda>c. if pc_id c = i then c\<lparr>pc_connected := b, pc_updated_at := t\<rparr> else c) (t_connections d)\<rparr>)))"

definition UpdateToken :: "string \<Rightarrow> string \<Rightarrow> string \<Rightarrow> int option \<Rightarrow> (db_error, unit) prog" where
  "UpdateToken i access refresh expiry = andThen now (\<lambda>t. stmt (\<lambda>d. Inr ((), d\<lparr>t_connections :=
     map (\<lambda>c. if pc_id c = i then c\<lparr>pc_access_token := access, pc_refresh_token := refresh, pc_token_expiry := expiry, pc_updated_at := t\<rparr> else c)
       (t_connections d)\<rparr>)))"

subsection \<open>The service\<close>

datatype pipeline_error = PlDB db_error | ErrPipelineNotFound

record create_step =
  cs_source_type :: string
  cs_source_config :: string
  cs_dest_type :: string
  cs_dest_config :: string
  cs_conflict_mode :: string
  cs_direction :: string

record pipeline_input =
  pi_name :: string
  pi_enabled :: bool
  pi_schedule :: string
  pi_steps :: "create_step list"

text \<open>\<open>SyncModeImport\<close> as a string is \<open>"import"\<close>.\<close>

definition buildStep :: "string \<Rightarrow> string \<Rightarrow> int \<Rightarrow> create_step \<Rightarrow> pipeline_step" where
  "buildStep i pipelineID order inp = \<lparr>ps_id = i, ps_pipeline_id = pipelineID, ps_order = order, ps_source_type = cs_source_type inp,
     ps_source_config = cs_source_config inp, ps_dest_type = cs_dest_type inp, ps_dest_config = cs_dest_config inp,
     ps_conflict_mode = (if cs_conflict_mode inp = [] then ''source_wins'' else cs_conflict_mode inp),
     ps_direction = (if cs_direction inp = [] then ''import'' else cs_direction inp)\<rparr>"

definition add_step :: "string \<Rightarrow> create_step \<Rightarrow> int \<Rightarrow> (pipeline_error, int) prog" where
  "add_step pipelineID inp k = andThen mint (\<lambda>i.
     andThen (wrapErr PlDB (CreateStep (buildStep i pipelineID (k + 1) inp))) (\<lambda>_. ret (k + 1)))"

definition PipelineCreate :: "string \<Rightarrow> pipeline_input \<Rightarrow> (pipeline_error, (pipeline \<times> pipeline_step list) option) prog" where
  "PipelineCreate u input = andThen now (\<lambda>t. andThen mint (\<lambda>i.
     let p = \<lparr>pl_id = i, pl_user_id = u, pl_name = pi_name input, pl_enabled = pi_enabled input, pl_schedule = pi_schedule input,
           pl_created_at = t, pl_updated_at = t\<rparr>
     in andThen (wrapErr PlDB (CreatePipeline p)) (\<lambda>_.
        andThen (forEach (add_step i) (pi_steps input) 0) (\<lambda>_. wrapErr PlDB (GetPipeline i)))))"

definition PipelineGet :: "string \<Rightarrow> string \<Rightarrow> (pipeline_error, pipeline \<times> pipeline_step list) prog" where
  "PipelineGet u i = andThen (wrapErr PlDB (GetPipeline i)) (\<lambda>found. case found of
     None \<Rightarrow> throw ErrPipelineNotFound
   | Some (p, steps) \<Rightarrow> if pl_user_id p \<noteq> u then throw ErrPipelineNotFound else ret (p, steps))"

definition PipelineList :: "string \<Rightarrow> (pipeline_error, (pipeline \<times> pipeline_step list) list) prog" where
  "PipelineList u = wrapErr PlDB (ListPipelines u)"

definition PipelineUpdate :: "string \<Rightarrow> string \<Rightarrow> pipeline_input \<Rightarrow> (pipeline_error, (pipeline \<times> pipeline_step list) option) prog" where
  "PipelineUpdate u i input = andThen (PipelineGet u i) (\<lambda>(p, _).
     andThen now (\<lambda>t.
     andThen (wrapErr PlDB (UpdatePipeline (p\<lparr>pl_name := pi_name input, pl_enabled := pi_enabled input, pl_schedule := pi_schedule input,
       pl_updated_at := t\<rparr>))) (\<lambda>_.
     andThen (wrapErr PlDB (DeleteSteps i)) (\<lambda>_.
     andThen (forEach (add_step i) (pi_steps input) 0) (\<lambda>_. wrapErr PlDB (GetPipeline i))))))"

definition PipelineDelete :: "string \<Rightarrow> string \<Rightarrow> (pipeline_error, unit) prog" where
  "PipelineDelete u i = andThen (PipelineGet u i) (\<lambda>_. wrapErr PlDB (DeletePipeline i))"

subsection \<open>The orchestrator\<close>

record orchestrator =
  or_engine :: engine
  or_creds :: bool
  or_oauth :: bool
  or_policy :: endpoint_policy

definition WithEndpointPolicy :: "endpoint_policy \<Rightarrow> orchestrator \<Rightarrow> orchestrator" where
  "WithEndpointPolicy policy R = R\<lparr>or_policy := policy\<rparr>"

definition ProviderInternal :: string where "ProviderInternal = ''internal''"

datatype create_error = CpConfig | CpCredential string | CpEndpoint endpoint_error | CpHttpClient string | CpConnect connect_error | CpGoogle string
  | CpNotConfigured | CpNoCredential | CpUnknown string | CpPanicked

datatype step_error = StepDest string | StepSource string | StepNoSource | StepEndpoint endpoint_error | StepMode sync_error
  | StepRemote string create_error | StepLocal create_error | StepSync sync_error

definition ValidateStep :: "network \<Rightarrow> string \<Rightarrow> string \<Rightarrow> string \<Rightarrow> string \<Rightarrow> endpoint_policy \<Rightarrow> step_error option" where
  "ValidateStep N sourceType sourceConfig destType destConfig policy =
     (if destType \<noteq> ProviderInternal then Some (StepDest destType)
      else if sourceType = ProviderInternal then Some (StepSource sourceType)
      else if sourceType = [] then Some StepNoSource
      else map_option StepEndpoint (ValidateStepEndpoints N sourceConfig destConfig policy))"

text \<open>The credential a configuration names, when it is the user's own; a failing query is answered like a missing row.\<close>

definition own_credential :: "string \<Rightarrow> string \<Rightarrow> (create_error, provider_connection) prog" where
  "own_credential u i = andThen (attempt (GetConnection i)) (\<lambda>r. case r of
     Inr (Some cred) \<Rightarrow> if pc_user_id cred \<noteq> u then throw (CpCredential i) else ret cred
   | _ \<Rightarrow> throw (CpCredential i))"

definition resolve_carddav ::
  "orchestrator \<Rightarrow> string \<Rightarrow> provider_config \<Rightarrow> (create_error, provider_config \<times> provider_connection option) prog" where
  "resolve_carddav R u cfg =
     (if pg_credential_id cfg = [] \<or> \<not> or_creds R then ret (cfg, None)
      else andThen (own_credential u (pg_credential_id cfg)) (\<lambda>cred.
        ret (cfg\<lparr>pg_endpoint := pc_endpoint cred, pg_username := pc_username cred, pg_password := pc_password cred,
             pg_skip_tls_verify := pc_skip_tls_verify cred\<rparr>,
           if pc_access_token cred \<noteq> [] \<and> or_oauth R then Some cred else None)))"

text \<open>The constructors of the CardDAV provider, with the client they make.\<close>

definition carddav_oauth :: "lib \<Rightarrow> network \<Rightarrow> string \<Rightarrow> http_client \<Rightarrow> (connect_error, provider) prog" where
  "carddav_oauth L N endpoint h = andThen (NewCardDAVClientProviderWithHTTPClient (nw_web N) (nw_dav N) endpoint h) (\<lambda>c. ret (CardDAVClientProvider L c))"

definition carddav_basic :: "lib \<Rightarrow> network \<Rightarrow> string \<Rightarrow> string \<Rightarrow> string \<Rightarrow> bool \<Rightarrow> (connect_error, provider) prog" where
  "carddav_basic L N endpoint username password skip =
     andThen (NewCardDAVClientProviderWithOptions (nw_web N) (nw_dav N) endpoint username password skip) (\<lambda>c. ret (CardDAVClientProvider L c))"

definition createProvider :: "orchestrator \<Rightarrow> network \<Rightarrow> string \<Rightarrow> string \<Rightarrow> string \<Rightarrow> (create_error, provider) prog" where
  "createProvider R N u providerType configJSON =
     (if providerType = ''internal'' then ret (InternalProvider (eng_lib (or_engine R)) u)
      else if providerType = ''carddav'' then
        (case nw_config_of N configJSON of
           None \<Rightarrow> throw CpConfig
         | Some cfg0 \<Rightarrow>
             andThen (resolve_carddav R u cfg0) (\<lambda>(cfg, oauthCred).
             case ValidateProviderEndpoint N (pg_endpoint cfg) (or_policy R) of
               Some e \<Rightarrow> throw (CpEndpoint e)
             | None \<Rightarrow> (case oauthCred of
                 Some cred \<Rightarrow> andThen (wrapErr CpHttpClient (nw_http_client N cred)) (\<lambda>client.
                   wrapErr CpConnect (carddav_oauth (eng_lib (or_engine R)) N (pg_endpoint cfg) client))
               | None \<Rightarrow> wrapErr CpConnect (carddav_basic (eng_lib (or_engine R)) N (pg_endpoint cfg) (pg_username cfg) (pg_password cfg) (pg_skip_tls_verify cfg)))))
      else if providerType = ''google'' then
        (case nw_config_of N configJSON of
           None \<Rightarrow> throw CpConfig
         | Some cfg \<Rightarrow>
             if \<not> or_oauth R then throw CpNotConfigured
             else if pg_credential_id cfg = [] then throw CpNoCredential
             else if \<not> or_creds R then throw CpPanicked
             else andThen (own_credential u (pg_credential_id cfg)) (\<lambda>conn.
                  andThen (wrapErr CpHttpClient (nw_http_client N conn)) (\<lambda>client. wrapErr CpGoogle (nw_google N client))))
      else throw (CpUnknown providerType))"

record step_result =
  st_order :: int
  st_outcome :: "step_error + sync_result"

datatype execute_error = ExSteps db_error | ExPanicked

text \<open>One step: \<open>Inl\<close> the error that is put into its result. A panic is not: it ends the run.\<close>

definition run_step ::
  "orchestrator \<Rightarrow> network \<Rightarrow> (string list \<Rightarrow> string list) \<Rightarrow> (sync_error \<Rightarrow> string) \<Rightarrow> string \<Rightarrow> string \<Rightarrow> pipeline_step \<Rightarrow> (step_error, sync_result) prog" where
  "run_step R N ord msg u pipelineID step =
     (case ValidateStep N (ps_source_type step) (ps_source_config step) (ps_dest_type step) (ps_dest_config step) (or_policy R) of
        Some e \<Rightarrow> throw e
      | None \<Rightarrow> (case ParseSyncMode (ps_direction step) of
          Inl e \<Rightarrow> throw (StepMode e)
        | Inr mode \<Rightarrow>
            andThen (wrapErr (StepRemote (ps_source_type step)) (createProvider R N u (ps_source_type step) (ps_source_config step))) (\<lambda>remote.
            andThen (wrapErr StepLocal (createProvider R N u (ps_dest_type step) (ps_dest_config step))) (\<lambda>local.
            wrapErr StepSync (Sync (or_engine R) ord msg u pipelineID remote local (ps_conflict_mode step) mode)))))"

fun panicked :: "step_error + sync_result \<Rightarrow> bool" where
  "panicked (Inl (StepRemote _ CpPanicked)) = True" | "panicked (Inl (StepLocal CpPanicked)) = True" | "panicked _ = False"

definition execute_step ::
  "orchestrator \<Rightarrow> network \<Rightarrow> (string list \<Rightarrow> string list) \<Rightarrow> (sync_error \<Rightarrow> string) \<Rightarrow> string \<Rightarrow> string \<Rightarrow> pipeline_step \<Rightarrow> step_result list \<Rightarrow>
   (execute_error, step_result list) prog" where
  "execute_step R N ord msg u pipelineID step results =
     andThen (attempt (run_step R N ord msg u pipelineID step)) (\<lambda>r.
       if panicked r then throw ExPanicked else ret (results @ [\<lparr>st_order = ps_order step, st_outcome = r\<rparr>]))"

definition Execute ::
  "orchestrator \<Rightarrow> network \<Rightarrow> (string list \<Rightarrow> string list) \<Rightarrow> (sync_error \<Rightarrow> string) \<Rightarrow> string \<Rightarrow> pipeline \<Rightarrow> (execute_error, step_result list) prog" where
  "Execute R N ord msg u pipeline =
     andThen (wrapErr ExSteps (GetSteps (pl_id pipeline))) (\<lambda>steps. forEach (execute_step R N ord msg u (pl_id pipeline)) steps [])"


section \<open>Lemmas\<close>

lemma andThen_cong_run:
  assumes "\<And>x w'. m w = (Inr x, w') \<Longrightarrow> f x w' = g x w'"
  shows "andThen m f w = andThen m g w"
  using assms by (cases "m w") (auto simp: andThen_def split: sum.split)

lemma own_credential_owner: "own_credential u i w = (Inr c, w') \<Longrightarrow> pc_user_id c = u"
  by (auto simp: own_credential_def andThen_def attempt_def prog_simps split: prod.splits sum.splits option.splits if_splits)

lemma resolve_owner: "resolve_carddav R u cfg w = (Inr (cfg', Some c), w') \<Longrightarrow> pc_user_id c = u"
  by (auto simp: resolve_carddav_def andThen_Inr prog_simps split: if_splits dest: own_credential_owner)

text \<open>Two networks that differ only where nothing may be sent: in what answers elsewhere than at an endpoint the policy accepts and where it leads, and
  in what the connections of other users open.\<close>

definition same_where_allowed :: "endpoint_policy \<Rightarrow> string \<Rightarrow> network \<Rightarrow> network \<Rightarrow> bool" where
  "same_where_allowed policy u N M \<longleftrightarrow> nw_unicode N = nw_unicode M \<and> nw_endpoint_of N = nw_endpoint_of M
     \<and> nw_config_of N = nw_config_of M \<and> nw_google N = nw_google M
     \<and> same_web (\<lambda>ep. ValidateProviderEndpoint N ep policy = None) (nw_web N) (nw_dav N) (nw_web M) (nw_dav M)
     \<and> (\<forall>c. pc_user_id c = u \<longrightarrow> nw_http_client N c = nw_http_client M c)"

lemma carddav_same:
  assumes "same_where_allowed policy u N M" "ValidateProviderEndpoint N ep policy = None"
  shows "carddav_oauth L N ep = carddav_oauth L M ep" "carddav_basic L N ep = carddav_basic L M ep"
proof -
  have "newCardDAVClientProvider (nw_web N) (nw_dav N) ep h = newCardDAVClientProvider (nw_web M) (nw_dav M) ep h" for h
    by (rule connection_same [where ok = "\<lambda>ep. ValidateProviderEndpoint N ep policy = None"]) (use assms in \<open>simp_all add: same_where_allowed_def\<close>)
  then show "carddav_oauth L N ep = carddav_oauth L M ep" "carddav_basic L N ep = carddav_basic L M ep"
    by (intro ext, simp add: carddav_oauth_def carddav_basic_def NewCardDAVClientProviderWithHTTPClient_def NewCardDAVClientProviderWithOptions_def)+
qed

lemma same_validation:
  assumes "same_where_allowed policy u N M"
  shows "ValidateProviderEndpoint N = ValidateProviderEndpoint M" "ValidateStep N = ValidateStep M"
proof -
  have eqs: "nw_unicode N = nw_unicode M" "dw_parse (nw_web N) = dw_parse (nw_web M)" "nw_endpoint_of N = nw_endpoint_of M"
    using assms by (simp_all add: same_where_allowed_def same_web_def)
  show same: "ValidateProviderEndpoint N = ValidateProviderEndpoint M"
    by (intro ext) (simp only: ValidateProviderEndpoint_def Let_def eqs)
  have "endpointFromConfig N = endpointFromConfig M" by (rule ext) (simp only: endpointFromConfig_def eqs)
  with same have "ValidateConfigs N cfgs q = ValidateConfigs M cfgs q" for cfgs q by (induction cfgs) (simp_all split: option.split)
  then show "ValidateStep N = ValidateStep M" by (intro ext) (simp only: ValidateStep_def ValidateStepEndpoints_def)
qed

lemma createProvider_same:
  assumes "same_where_allowed (or_policy R) u N M"
  shows "createProvider R N u k cfg = createProvider R M u k cfg"
proof -
  have eqs: "ValidateProviderEndpoint N = ValidateProviderEndpoint M" "nw_config_of N = nw_config_of M" "nw_google N = nw_google M"
    and client: "pc_user_id c = u \<Longrightarrow> nw_http_client N c = nw_http_client M c" for c
    using same_validation [OF assms] assms by (simp_all add: same_where_allowed_def)
  have dial: "ValidateProviderEndpoint M ep (or_policy R) = None \<Longrightarrow> carddav_basic L N ep = carddav_basic L M ep \<and> carddav_oauth L N ep = carddav_oauth L M ep" for ep L
    using carddav_same [OF assms, of ep L] eqs(1) by simp
  have carddav: "andThen (resolve_carddav R u c) (\<lambda>(cfg, oauthCred). case ValidateProviderEndpoint M (pg_endpoint cfg) (or_policy R) of
      Some e \<Rightarrow> throw (CpEndpoint e)
    | None \<Rightarrow> (case oauthCred of
        Some cred \<Rightarrow> andThen (wrapErr CpHttpClient (nw_http_client N cred)) (\<lambda>client. wrapErr CpConnect (carddav_oauth (eng_lib (or_engine R)) N (pg_endpoint cfg) client))
      | None \<Rightarrow> wrapErr CpConnect (carddav_basic (eng_lib (or_engine R)) N (pg_endpoint cfg) (pg_username cfg) (pg_password cfg) (pg_skip_tls_verify cfg)))) w
    = andThen (resolve_carddav R u c) (\<lambda>(cfg, oauthCred). case ValidateProviderEndpoint M (pg_endpoint cfg) (or_policy R) of
      Some e \<Rightarrow> throw (CpEndpoint e)
    | None \<Rightarrow> (case oauthCred of
        Some cred \<Rightarrow> andThen (wrapErr CpHttpClient (nw_http_client M cred)) (\<lambda>client. wrapErr CpConnect (carddav_oauth (eng_lib (or_engine R)) M (pg_endpoint cfg) client))
      | None \<Rightarrow> wrapErr CpConnect (carddav_basic (eng_lib (or_engine R)) M (pg_endpoint cfg) (pg_username cfg) (pg_password cfg) (pg_skip_tls_verify cfg)))) w" for c w
    by (rule andThen_cong_run) (auto simp: dial client [OF resolve_owner] split: option.split)
  have google: "andThen (own_credential u i) (\<lambda>conn. andThen (wrapErr CpHttpClient (nw_http_client N conn)) (\<lambda>client. wrapErr CpGoogle (nw_google M client))) w
    = andThen (own_credential u i) (\<lambda>conn. andThen (wrapErr CpHttpClient (nw_http_client M conn)) (\<lambda>client. wrapErr CpGoogle (nw_google M client))) w" for i w
    by (rule andThen_cong_run) (auto simp: client dest: own_credential_owner)
  show ?thesis unfolding createProvider_def eqs
    by (rule ext) (simp add: carddav google split: option.split)
qed

lemma run_step_same:
  assumes "same_where_allowed (or_policy R) u N M"
  shows "run_step R N ord msg u i = run_step R M ord msg u i"
  by (rule ext) (simp only: run_step_def createProvider_same [OF assms] same_validation [OF assms])

lemma execute_steps:
  assumes "forEach (execute_step R N ord msg u i) steps results w = (Inr results', w')"
  shows "map st_order results' = map st_order results @ map ps_order steps"
  using assms
proof (induction steps arbitrary: results w)
  case (Cons s steps)
  then obtain r1 w1 where 1: "execute_step R N ord msg u i s results w = (Inr r1, w1)" and 2: "forEach (execute_step R N ord msg u i) steps r1 w1 = (Inr results', w')"
    by (auto simp: andThen_Inr)
  from 1 have "map st_order r1 = map st_order results @ [ps_order s]"
    by (auto simp: execute_step_def andThen_Inr prog_simps split: if_splits)
  with Cons.IH [OF 2] show ?case by simp
qed (simp add: prog_simps)

text \<open>The requests of a client that follows redirects.\<close>

definition followed :: "unicode \<Rightarrow> parsed_url list \<Rightarrow> bool" where
  "followed U us \<longleftrightarrow> us \<noteq> [] \<and> list_all (\<lambda>i. redirectPolicy U (us ! i) (take i us) = None) [1 ..< length us]"

section \<open>Properties\<close>

text \<open>C4: A pipeline connects to nothing that its policy does not lead to. Change the network in any way that does not concern the endpoints the policy of the
  deployment accepts, the well-known addresses and DNS records of their hosts, or the places where these lead discovery, and change what the OAuth client of another user's connection
  opens: the run of a pipeline is the same, to the last row and the last answer. So whatever the steps contain, inline endpoints or references to stored connections, whenever they
  were stored, the CardDAV client is started only at an accepted endpoint and goes on only to where the well-known address or the DNS records of that endpoint lead (these are not put to the
  policy again), and no OAuth client is asked for another user's connection. The People API is one fixed service and is the same in both networks.\<close>

theorem Execute_sends_only_where_allowed:
  assumes "same_where_allowed (or_policy R) u N M"
  shows "Execute R N ord msg u pipeline = Execute R M ord msg u pipeline"
  unfolding Execute_def execute_step_def run_step_same [OF assms] ..

text \<open>Every step is reported. A run that answers has one result for each step of the pipeline, in the order of the steps: a step
  that is refused or fails does not keep the later ones from running.\<close>

theorem Execute_reports_steps:
  assumes "Execute R N ord msg u pipeline w = (Inr results, w')"
  shows "map st_order results = map ps_order (steps_of (pl_id pipeline) (w_db w))"
proof -
  from assms obtain steps w1 where "GetSteps (pl_id pipeline) w = (Inr steps, w1)" "forEach (execute_step R N ord msg u (pl_id pipeline)) steps [] w1 = (Inr results, w')"
    by (auto simp: Execute_def andThen_Inr wrapErr_Inr)
  then show ?thesis using execute_steps by (force simp: GetSteps_def dest: query_Inr_db)
qed

text \<open>Redirects stay on the host but not on TLS. A client that follows redirects under the policy makes at most three requests, all of them to the
  host of the first. The policy does not look at the scheme: an endpoint that was accepted because it is \<open>https\<close> may send the
  client on to \<open>http\<close> on the same host, in clear text, which the validation of endpoints refuses.\<close>

theorem redirects_stay_on_host:
  assumes "followed U us"
  shows "length us \<le> maxEndpointRedirects \<and> (\<forall>u \<in> set us. equal_fold U (pu_host u) (pu_host (hd us)))"
proof -
  have pol: "redirectPolicy U (us ! i) (take i us) = None" if "0 < i" "i < length us" for i using assms that by (simp add: followed_def list_all_iff)
  have "length us \<le> maxEndpointRedirects"
  proof (rule ccontr)
    assume "\<not> ?thesis"
    then have "redirectPolicy U (us ! 3) (take 3 us) = None" by (intro pol) (simp_all add: maxEndpointRedirects_def)
    with \<open>\<not> ?thesis\<close> show False by (simp add: redirectPolicy_def maxEndpointRedirects_def split: if_splits)
  qed
  moreover have "equal_fold U (pu_host (us ! i)) (pu_host (hd us))" if "i < length us" for i
  proof (cases i)
    case 0
    with that show ?thesis by (cases us) (simp_all add: equal_fold_def)
  next
    case (Suc k)
    with pol [of i] that show ?thesis by (cases us) (simp_all add: redirectPolicy_def split: if_splits)
  qed
  ultimately show ?thesis by (auto simp: in_set_conv_nth)
qed


subsection \<open>Concrete runs\<close>

text \<open>A server with one card, that can only be read.\<close>

definition one_card_server :: "string \<Rightarrow> dav_client" where
  "one_card_server name = \<lparr>dc_query = (\<lambda>_. ret [\<lparr>ob_path = ''/'' @ name @ ''.vcf'', ob_etag = ''1'', ob_card = []\<rparr>]), dc_sync = (\<lambda>_ _. throw ''501''),
     dc_multiget = (\<lambda>_ _. throw ''501''), dc_get = (\<lambda>_. throw ''404''), dc_put = (\<lambda>_ _. throw ''403''), dc_remove = (\<lambda>_. throw ''403''),
     dc_put_raw = (\<lambda>_ _ _. ret (403, []))\<rparr>"

text \<open>Two servers, \<open>a\<close> with the card \<open>a\<close> and \<open>b\<close> with the card \<open>b\<close>; a configuration is the name of a server.\<close>

definition two_servers :: network where
  "two_servers = \<lparr>nw_unicode = unicode_ascii, nw_endpoint_of = Some,
     nw_config_of = (\<lambda>s. Some \<lparr>pg_credential_id = [], pg_endpoint = s, pg_username = [], pg_password = [], pg_skip_tls_verify = False, pg_access_token = []\<rparr>),
     nw_http_client = (\<lambda>_. throw ''no account''),
     nw_web = \<lparr>dw_parse = (\<lambda>s. Some \<lparr>pu_scheme = ''https'', pu_host = s, pu_path = ''/'', pu_user = False\<rparr>), dw_client = (\<lambda>_. True),
       dw_principal = (\<lambda>_ _. ret ''/''), dw_home_set = (\<lambda>_ _ _. ret ''/''), dw_books = (\<lambda>_ _ _. ret [''/'']), dw_get = (\<lambda>_ _. throw ''404''), dw_dns = (\<lambda>_. throw ''no record'')\<rparr>,
     nw_dav = (\<lambda>_. one_card_server), nw_google = (\<lambda>_. throw ''no account'')\<rparr>"

definition import_from :: "int \<Rightarrow> string \<Rightarrow> pipeline_step" where
  "import_from k server = \<lparr>ps_id = server, ps_pipeline_id = ''p'', ps_order = k, ps_source_type = ''carddav'', ps_source_config = server,
     ps_dest_type = ''internal'', ps_dest_config = [], ps_conflict_mode = ''source_wins'', ps_direction = ''import''\<rparr>"

definition both_servers :: pipeline where
  "both_servers = \<lparr>pl_id = ''p'', pl_user_id = ''u'', pl_name = [], pl_enabled = True, pl_schedule = [], pl_created_at = 0, pl_updated_at = 0\<rparr>"

definition plain_orchestrator :: orchestrator where
  "plain_orchestrator = \<lparr>or_engine = small_engine (table_lib []), or_creds = True, or_oauth = False, or_policy = \<lparr>ep_allow_insecure = False\<rparr>\<rparr>"

definition pipeline_world :: world where
  "pipeline_world = small_world (small_db\<lparr>t_pipelines := [both_servers], t_pipeline_steps := [import_from 1 ''a'', import_from 2 ''b'']\<rparr>) []"

lemma valid_imports: "ValidateStep two_servers ''carddav'' ''a'' ''internal'' [] \<lparr>ep_allow_insecure = False\<rparr> = None"
  "ValidateStep two_servers ''carddav'' ''b'' ''internal'' [] \<lparr>ep_allow_insecure = False\<rparr> = None"
  "ValidateProviderEndpoint two_servers ''a'' \<lparr>ep_allow_insecure = False\<rparr> = None"
  "ValidateProviderEndpoint two_servers ''b'' \<lparr>ep_allow_insecure = False\<rparr> = None"
  by code_simp+

definition at_server :: "string \<Rightarrow> provider" where
  "at_server name = CardDAVClientProvider (table_lib []) \<lparr>cp_client = one_card_server name, cp_ab_path = ''/''\<rparr>"

lemma providers: "createProvider plain_orchestrator two_servers ''u'' ''carddav'' ''a'' = ret (at_server ''a'')"
  "createProvider plain_orchestrator two_servers ''u'' ''carddav'' ''b'' = ret (at_server ''b'')"
  "createProvider plain_orchestrator two_servers ''u'' ''internal'' [] = ret (InternalProvider (table_lib []) ''u'')"
  using valid_imports
  by (simp_all add: fun_eq_iff createProvider_def resolve_carddav_def plain_orchestrator_def two_servers_def small_engine_def andThen_def wrapErr_def attempt_def prog_simps
      carddav_basic_def NewCardDAVClientProviderWithOptions_def newCardDAVClientProvider_def discoverAddressBook_def try_at_def tryDiscoverFull_def at_server_def)

definition one_item :: "string \<Rightarrow> sync_item" where
  "one_item i = object_item (table_lib []) \<lparr>ob_path = ''/'' @ i @ ''.vcf'', ob_etag = ''1'', ob_card = []\<rparr>"

lemma one_items: "si_remote_id (one_item ''a'') = ''a''" "si_remote_id (one_item ''b'') = ''b''"
  by code_simp+

lemma at_server_eval: "p_name (at_server n) = ''carddav''" "p_list (at_server n) = ret [one_item n]" "si_etag (one_item n) = ''1''"
  by (auto simp: at_server_def CardDAVClientProvider_def client_List_def client_ListChanges_def one_card_server_def one_item_def object_item_def Let_def fun_eq_iff andThen_def attempt_def wrapErr_def prog_simps)

lemma at_server_changes:
  "\<not> eng_cursors E \<Longrightarrow> remoteChanges E u p (at_server n) = ret \<lparr>dl_updated = [one_item n], dl_deleted = [], dl_cursor = [], dl_full = True\<rparr>"
  by (simp add: remoteChanges_def at_server_eval fun_eq_iff andThen_def wrapErr_def prog_simps split: option.split)

lemmas pull_eval = Sync_def doSync_def pullPhase_def internal_List_def internal_Delete_def ListAll_def ListStates_def of_pipeline_def
  index_by_def deletionsFromDelta_def checkDeletionSafety_def deletionAbortMinimum_def pendingConflictsByRemoteID_def ListPendingByProvider_def
  pull_item_def pull_deletion_def counting_def new_state_def CreateState_def DeleteState_def created_def removed_def no_result_def
  InternalProvider_def small_engine_def attempt_def item_of_def has_user_def childID_def

lemma servers_run:
  "\<exists>r1 r2 w'. Execute plain_orchestrator two_servers id (\<lambda>_. []) ''u'' both_servers pipeline_world
     = (Inr [\<lparr>st_order = 1, st_outcome = Inr r1\<rparr>, \<lparr>st_order = 2, st_outcome = Inr r2\<rparr>], w')
   \<and> r_created r1 = 1 \<and> r_created r2 = 1 \<and> r_deleted r2 = 1 \<and> map c_uid (t_contacts (w_db w')) = [''b'']"
  using providers valid_imports
  by (simp add: Execute_def GetSteps_def steps_of_def execute_step_def run_step_def import_from_def both_servers_def pipeline_world_def
      plain_orchestrator_def ParseSyncMode_def pull_eval provider_eval repo_eval ParseVCard_def empty_parsed_def ApplyToContact_def at_server_eval at_server_changes one_items)

text \<open>Two servers of the same kind undo each other. The engine files its sync states under the names of the two providers, and every CardDAV
  server has the name \<open>carddav\<close>, although a user may store several connections of a kind. A pipeline with a step for each of two
  servers imports the card of the first, and the second step, which does not find that card on its own server, takes it for
  deleted and deletes it from the book, reporting success.\<close>

theorem second_server_deletes_first:
  "\<exists>r1 r2 w'. Execute plain_orchestrator two_servers id (\<lambda>_. []) ''u'' both_servers pipeline_world
     = (Inr [\<lparr>st_order = 1, st_outcome = Inr r1\<rparr>, \<lparr>st_order = 2, st_outcome = Inr r2\<rparr>], w')
   \<and> r_created r1 = 1 \<and> r_created r2 = 1 \<and> r_deleted r2 = 1 \<and> map c_uid (t_contacts (w_db w')) = [''b'']"
  by (rule servers_run)

theorem Execute_sends_only_where_allowed_witness:
  "let trap = two_servers\<lparr>nw_dav := (\<lambda>h ep. if ep = [] then one_card_server ''trap'' else one_card_server ep)\<rparr>
   in (\<forall>h. nw_dav trap h [] \<noteq> nw_dav two_servers h [])
     \<and> Execute plain_orchestrator trap id (\<lambda>_. []) ''u'' both_servers = Execute plain_orchestrator two_servers id (\<lambda>_. []) ''u'' both_servers"
proof -
  let ?trap = "two_servers\<lparr>nw_dav := (\<lambda>h ep. if ep = [] then one_card_server ''trap'' else one_card_server ep)\<rparr>"
  have "\<not> leads_to (nw_web two_servers) e e'" for e e'
    by (simp add: leads_to_def two_servers_def resolveWellKnown_def andThen_def wrapErr_def prog_simps)
  then have "same_where_allowed (or_policy plain_orchestrator) ''u'' ?trap two_servers"
    by (auto simp: same_where_allowed_def same_web_def ValidateProviderEndpoint_def Let_def two_servers_def)
  from Execute_sends_only_where_allowed [OF this] have "Execute plain_orchestrator ?trap id (\<lambda>_. []) ''u'' both_servers
      = Execute plain_orchestrator two_servers id (\<lambda>_. []) ''u'' both_servers" .
  moreover have "nw_dav ?trap h [] \<noteq> nw_dav two_servers h []" for h by (auto simp: two_servers_def one_card_server_def fun_eq_iff prog_simps)
  ultimately show ?thesis by (simp add: Let_def)
qed

theorem Execute_reports_steps_witness:
  "\<exists>results w'. Execute plain_orchestrator two_servers id (\<lambda>_. []) ''u'' both_servers pipeline_world = (Inr results, w') \<and> map st_order results = [1, 2]"
proof -
  obtain results w' where run: "Execute plain_orchestrator two_servers id (\<lambda>_. []) ''u'' both_servers pipeline_world = (Inr results, w')"
    using servers_run by blast
  from Execute_reports_steps [OF this] have "map st_order results = [1, 2]"
    by (simp add: steps_of_def pipeline_world_def small_world_def both_servers_def import_from_def)
  with run show ?thesis by (intro exI conjI)
qed

theorem redirects_stay_on_host_witness:
  "let https = \<lparr>pu_scheme = ''https'', pu_host = ''dav'', pu_path = [], pu_user = False\<rparr>; http = https\<lparr>pu_scheme := ''http''\<rparr>
   in followed unicode_ascii [https, http] \<and> (\<forall>u \<in> {https, http}. equal_fold unicode_ascii (pu_host u) ''dav'')
     \<and> ValidateProviderEndpoint (two_servers\<lparr>nw_web := (nw_web two_servers)\<lparr>dw_parse := (\<lambda>_. Some http)\<rparr>\<rparr>) ''http://dav'' \<lparr>ep_allow_insecure = False\<rparr> = Some EpInsecure"
proof -
  let ?https = "\<lparr>pu_scheme = ''https'', pu_host = ''dav'', pu_path = [], pu_user = False\<rparr>" let ?http = "?https\<lparr>pu_scheme := ''http''\<rparr>"
  have followed: "followed unicode_ascii [?https, ?http]"
    and refused: "ValidateProviderEndpoint (two_servers\<lparr>nw_web := (nw_web two_servers)\<lparr>dw_parse := (\<lambda>_. Some ?http)\<rparr>\<rparr>) ''http://dav'' \<lparr>ep_allow_insecure = False\<rparr> = Some EpInsecure"
    by code_simp+
  from redirects_stay_on_host [OF followed] followed refused show ?thesis by (simp add: Let_def)
qed


end
