(* ===== verification/GoogleProvider.thy ===== *)
theory GoogleProvider
  imports SyncExport
begin

text \<open>
  The Google provider: the translation between persons of the People API and the application's contacts
  (\<open>internal/sync/google_mapper.go\<close>) and the sync provider on it (\<open>internal/sync/google_provider.go\<close>). The calls of the People API are the
  fields of a record. Listing follows page tokens as long as the API hands them out, so it takes a bound on the number of pages.
\<close>

section \<open>Definitions\<close>

subsection \<open>Persons\<close>

record google_date =
  gd_year :: int
  gd_month :: int
  gd_day :: int

record google_name =
  gn_given :: string
  gn_family :: string
  gn_middle :: string
  gn_prefix :: string
  gn_suffix :: string
  gn_display :: string

record google_value =
  gx_value :: string
  gx_type :: string
  gx_primary :: bool

record google_address =
  gr_type :: string
  gr_street :: string
  gr_city :: string
  gr_region :: string
  gr_postal_code :: string
  gr_country :: string
  gr_extended :: string
  gr_po_box :: string

record google_org =
  go_name :: string
  go_title :: string
  go_department :: string
  go_job :: string

record google_im =
  gi_username :: string
  gi_protocol :: string
  gi_type :: string

text \<open>A birthday has a date or a text, an event a type and perhaps a date; a membership is the resource name of a contact group, \<open>None\<close>
  for memberships of another kind. \<open>gp_updated\<close> are the update times of the sources of the metadata.\<close>

record person =
  gp_resource :: string
  gp_etag :: string
  gp_names :: "google_name list"
  gp_nicknames :: "string list"
  gp_emails :: "google_value list"
  gp_phones :: "google_value list"
  gp_addresses :: "google_address list"
  gp_orgs :: "google_org list"
  gp_birthdays :: "(google_date option \<times> string) list"
  gp_events :: "(string \<times> google_date option) list"
  gp_urls :: "google_value list"
  gp_ims :: "google_im list"
  gp_biographies :: "string list"
  gp_genders :: "string list"
  gp_photos :: "string list"
  gp_memberships :: "string option list"
  gp_deleted :: bool
  gp_updated :: "string list"

definition empty_person :: person where
  "empty_person = \<lparr>gp_resource = [], gp_etag = [], gp_names = [], gp_nicknames = [], gp_emails = [], gp_phones = [], gp_addresses = [],
     gp_orgs = [], gp_birthdays = [], gp_events = [], gp_urls = [], gp_ims = [], gp_biographies = [], gp_genders = [], gp_photos = [],
     gp_memberships = [], gp_deleted = False, gp_updated = []\<rparr>"

subsection \<open>Types and dates\<close>

definition normalizeGoogleType :: "unicode \<Rightarrow> string \<Rightarrow> string" where
  "normalizeGoogleType U t =
     (let l = to_lower U t
      in if l = ''home'' then ''home'' else if l = ''work'' then ''work'' else if l = ''mobile'' then ''cell''
         else if l = ''homefax'' then ''home,fax'' else if l = ''workfax'' then ''work,fax''
         else if l = ''other'' \<or> l = [] then [] else l)"

definition toGoogleType :: "unicode \<Rightarrow> string \<Rightarrow> string" where
  "toGoogleType U t =
     (let l = to_lower U t
      in if l = ''home'' then ''home'' else if l = ''work'' then ''work'' else if l = ''cell'' then ''mobile''
         else if l = ''home,fax'' then ''homeFax'' else if l = ''work,fax'' then ''workFax'' else ''other'')"

text \<open>The remainder of Go has the sign of the dividend.\<close>

definition go_rem :: "int \<Rightarrow> int \<Rightarrow> int" where
  "go_rem a b = sgn a * (\<bar>a\<bar> mod \<bar>b\<bar>)"

definition padInt :: "int \<Rightarrow> nat \<Rightarrow> string" where
  "padInt n width =
     (if n \<ge> 10 then let s = format_nat (nat n) in replicate (width - length s) CHR ''0'' @ s
      else replicate (width - 1) CHR ''0'' @ [char_of (nat (48 + go_rem n 10))])"

text \<open>The three replacements in \<open>"%04d-%02d-%02d"\<close> fill its three places: no number contains a percent sign.\<close>

definition googleDateToString :: "google_date \<Rightarrow> string" where
  "googleDateToString d =
     (if gd_year d > 0 then trim_space (padInt (gd_year d) 4 @ ''-'' @ padInt (gd_month d) 2 @ ''-'' @ padInt (gd_day d) 2)
      else ''--'' @ padInt (gd_month d) 2 @ ''-'' @ padInt (gd_day d) 2)"

text \<open>\<open>int64\<close> arithmetic wraps around.\<close>

definition int64 :: "int \<Rightarrow> int" where
  "int64 n = (n + 2 ^ 63) mod 2 ^ 64 - 2 ^ 63"

definition parseInt64 :: "string \<Rightarrow> int" where
  "parseInt64 s = fold (\<lambda>c n. if is_digit c then int64 (int64 (n * 10) + (int (of_char c) - 48)) else n) s 0"

definition parseGoogleDate :: "string \<Rightarrow> google_date option" where
  "parseGoogleDate s0 =
     (let s = trim_space s0
      in if s = [] then None
         else case cut_prefix s ''--'' of
           Some r \<Rightarrow>
             if CHR ''-'' \<in> set r
             then Some \<lparr>gd_year = 0, gd_month = parseInt64 (takeWhile (\<lambda>c. c \<noteq> CHR ''-'') r), gd_day = parseInt64 (tl (dropWhile (\<lambda>c. c \<noteq> CHR ''-'') r))\<rparr>
             else if length r = 4 then Some \<lparr>gd_year = 0, gd_month = parseInt64 (take 2 r), gd_day = parseInt64 (drop 2 r)\<rparr>
             else None
         | None \<Rightarrow>
             if length s = 10 \<and> s ! 4 = CHR ''-'' \<and> s ! 7 = CHR ''-''
             then Some \<lparr>gd_year = parseInt64 (take 4 s), gd_month = parseInt64 (take 2 (drop 5 s)), gd_day = parseInt64 (drop 8 s)\<rparr>
             else if length s = 8
             then Some \<lparr>gd_year = parseInt64 (take 4 s), gd_month = parseInt64 (take 2 (drop 4 s)), gd_day = parseInt64 (drop 6 s)\<rparr>
             else None)"

subsection \<open>From a person to a contact\<close>

definition google_field :: "unicode \<Rightarrow> google_value \<Rightarrow> pfield" where
  "google_field U v = \<lparr>pf_value = gx_value v, pf_type = normalizeGoogleType U (gx_type v), pf_pref = (if gx_primary v then 1 else 0), pf_label = []\<rparr>"

definition google_primary :: "pfield list \<Rightarrow> string" where
  "google_primary fs = fold (\<lambda>f acc. if acc = [] \<or> pf_pref f = 1 then pf_value f else acc) fs []"

definition google_paddress :: "unicode \<Rightarrow> google_address \<Rightarrow> paddress" where
  "google_paddress U a = \<lparr>pa_type = normalizeGoogleType U (gr_type a), pa_pref = 0, pa_label = [], pa_po_box = gr_po_box a, pa_extended = gr_extended a,
     pa_street = gr_street a, pa_city = gr_city a, pa_region = gr_region a, pa_postal_code = gr_postal_code a, pa_country = gr_country a\<rparr>"

definition google_birthday :: "person \<Rightarrow> pdate list" where
  "google_birthday g = (case gp_birthdays g of
     [] \<Rightarrow> []
   | (Some d, _) # _ \<Rightarrow> [\<lparr>pt_kind = ''bday'', pt_value = googleDateToString d, pt_label = []\<rparr>]
   | (None, t) # _ \<Rightarrow> if t \<noteq> [] then [\<lparr>pt_kind = ''bday'', pt_value = t, pt_label = []\<rparr>] else [])"

definition google_anniversaries :: "unicode \<Rightarrow> person \<Rightarrow> pdate list" where
  "google_anniversaries U g = List.map_filter (\<lambda>(t, d). case d of
     Some d \<Rightarrow> if equal_fold U t ''anniversary'' then Some \<lparr>pt_kind = ''anniversary'', pt_value = googleDateToString d, pt_label = []\<rparr> else None
   | None \<Rightarrow> None) (gp_events g)"

definition google_gender :: "unicode \<Rightarrow> string \<Rightarrow> string \<times> string" where
  "google_gender U g = (let l = to_lower U g
     in if l = ''male'' then (''M'', []) else if l = ''female'' then (''F'', []) else if l = ''unspecified'' then (''U'', []) else (''O'', g))"

definition google_groups :: "person \<Rightarrow> string list" where
  "google_groups g = List.map_filter (\<lambda>m. case m of
     None \<Rightarrow> None
   | Some n \<Rightarrow> (let name = (case cut_prefix n ''contactGroups/'' of None \<Rightarrow> n | Some r \<Rightarrow> r)
       in if name \<noteq> [] \<and> name \<noteq> ''myContacts'' then Some name else None)) (gp_memberships g)"

definition first_of :: "'a list \<Rightarrow> ('a \<Rightarrow> string) \<Rightarrow> string" where
  "first_of xs f = (case xs of [] \<Rightarrow> [] | x # _ \<Rightarrow> f x)"

definition PersonToParsed :: "unicode \<Rightarrow> person \<Rightarrow> parsed_contact" where
  "PersonToParsed U g = empty_parsed\<lparr>p_uid := gp_resource g,
     p_first_name := first_of (gp_names g) gn_given, p_last_name := first_of (gp_names g) gn_family, p_middle_name := first_of (gp_names g) gn_middle,
     p_name_prefix := first_of (gp_names g) gn_prefix, p_name_suffix := first_of (gp_names g) gn_suffix, p_fn := first_of (gp_names g) gn_display,
     p_nickname := first_of (gp_nicknames g) id,
     p_emails := map (google_field U) (gp_emails g), p_primary_email := google_primary (map (google_field U) (gp_emails g)),
     p_phones := map (google_field U) (gp_phones g), p_primary_phone := google_primary (map (google_field U) (gp_phones g)),
     p_addresses := map (google_paddress U) (gp_addresses g),
     p_org := first_of (gp_orgs g) go_name, p_title := first_of (gp_orgs g) go_title, p_department := first_of (gp_orgs g) go_department,
     p_role := first_of (gp_orgs g) go_job,
     p_dates := google_birthday g @ google_anniversaries U g,
     p_urls := map (\<lambda>v. \<lparr>pf_value = gx_value v, pf_type = normalizeGoogleType U (gx_type v), pf_pref = 0, pf_label = []\<rparr>) (gp_urls g),
     p_ims := map (\<lambda>i. \<lparr>pf_value = gi_username i, pf_type = (if gi_protocol i = [] then gi_type i else gi_protocol i), pf_pref = 0, pf_label = []\<rparr>) (gp_ims g),
     p_note := first_of (gp_biographies g) id,
     p_gender := first_of (gp_genders g) (\<lambda>v. fst (google_gender U v)), p_gender_text := first_of (gp_genders g) (\<lambda>v. snd (google_gender U v)),
     p_photo_uri := first_of (gp_photos g) id, p_categories := google_groups g, p_rev := first_of (gp_updated g) id\<rparr>"

definition PersonToVCard :: "lib \<Rightarrow> person \<Rightarrow> encode_error + string" where
  "PersonToVCard L g = BuildVCard L (PersonToParsed (l_unicode L) g)"

subsection \<open>From a contact to a person\<close>

definition google_value_of :: "unicode \<Rightarrow> pfield \<Rightarrow> google_value" where
  "google_value_of U f = \<lparr>gx_value = pf_value f, gx_type = toGoogleType U (pf_type f), gx_primary = False\<rparr>"

definition google_address_of :: "unicode \<Rightarrow> paddress \<Rightarrow> google_address" where
  "google_address_of U a = \<lparr>gr_type = toGoogleType U (pa_type a), gr_street = pa_street a, gr_city = pa_city a, gr_region = pa_region a,
     gr_postal_code = pa_postal_code a, gr_country = pa_country a, gr_extended = pa_extended a, gr_po_box = pa_po_box a\<rparr>"

text \<open>The loop over the dates: the last birthday that can be read stays, and every anniversary that can be.\<close>

definition birthdays_of :: "pdate list \<Rightarrow> (google_date option \<times> string) list" where
  "birthdays_of ds = fold (\<lambda>d acc. if pt_kind d = ''bday'' then (case parseGoogleDate (pt_value d) of None \<Rightarrow> acc | Some g \<Rightarrow> [(Some g, [])]) else acc) ds []"

definition events_of :: "pdate list \<Rightarrow> (string \<times> google_date option) list" where
  "events_of ds = List.map_filter (\<lambda>d. if pt_kind d = ''anniversary'' then map_option (\<lambda>g. (''anniversary'', Some g)) (parseGoogleDate (pt_value d)) else None) ds"

definition gender_of :: "parsed_contact \<Rightarrow> string" where
  "gender_of p = (if p_gender p = ''M'' then ''male'' else if p_gender p = ''F'' then ''female'' else if p_gender p = ''U'' then ''unspecified''
     else if p_gender_text p = [] then ''other'' else p_gender_text p)"

definition ParsedContactToPerson :: "unicode \<Rightarrow> parsed_contact \<Rightarrow> person" where
  "ParsedContactToPerson U p = empty_person\<lparr>
     gp_names := (if p_first_name p \<noteq> [] \<or> p_last_name p \<noteq> [] \<or> p_middle_name p \<noteq> []
       then [\<lparr>gn_given = p_first_name p, gn_family = p_last_name p, gn_middle = p_middle_name p, gn_prefix = p_name_prefix p, gn_suffix = p_name_suffix p, gn_display = []\<rparr>]
       else []),
     gp_nicknames := (if p_nickname p \<noteq> [] then [p_nickname p] else []),
     gp_emails := map (google_value_of U) (p_emails p), gp_phones := map (google_value_of U) (p_phones p),
     gp_addresses := map (google_address_of U) (p_addresses p),
     gp_orgs := (if p_org p \<noteq> [] \<or> p_title p \<noteq> [] \<or> p_department p \<noteq> []
       then [\<lparr>go_name = p_org p, go_title = p_title p, go_department = p_department p, go_job = p_role p\<rparr>] else []),
     gp_birthdays := birthdays_of (p_dates p), gp_events := events_of (p_dates p),
     gp_urls := map (google_value_of U) (p_urls p),
     gp_ims := map (\<lambda>f. \<lparr>gi_username = pf_value f, gi_protocol = pf_type f, gi_type = []\<rparr>) (p_ims p),
     gp_biographies := (if p_note p \<noteq> [] then [p_note p] else []),
     gp_genders := (if p_gender p \<noteq> [] then [gender_of p] else [])\<rparr>"

definition VCardToPerson :: "lib \<Rightarrow> string \<Rightarrow> string + person" where
  "VCardToPerson L data = (case ParseVCard L data of Inl e \<Rightarrow> Inl e | Inr p \<Rightarrow> Inr (ParsedContactToPerson (l_unicode L) p))"


subsection \<open>The provider\<close>

definition allPersonFields :: string where
  "allPersonFields = ''names,emailAddresses,phoneNumbers,addresses,organizations,biographies,birthdays,nicknames,urls,imClients,events,genders,photos,memberships,metadata''"

definition allUpdatePersonFields :: string where
  "allUpdatePersonFields = ''names,emailAddresses,phoneNumbers,addresses,organizations,biographies,birthdays,nicknames,urls,imClients,events,genders''"

datatype google_error = ApiError nat string | OtherError string

record google_page =
  pg_connections :: "person list"
  pg_next_page :: string
  pg_next_sync :: string

text \<open>The People API: listing takes the fields, the page size, the sync token and the page token; an empty token is not sent.\<close>

record people_api =
  ga_list :: "string \<Rightarrow> nat \<Rightarrow> string \<Rightarrow> string \<Rightarrow> (google_error, google_page) prog"
  ga_get :: "string \<Rightarrow> string \<Rightarrow> (google_error, person) prog"
  ga_update :: "string \<Rightarrow> person \<Rightarrow> string \<Rightarrow> (google_error, person) prog"
  ga_create :: "person \<Rightarrow> (google_error, person) prog"
  ga_delete :: "string \<Rightarrow> (google_error, unit) prog"

fun google_message :: "google_error \<Rightarrow> string" where
  "google_message (ApiError _ m) = m"
| "google_message (OtherError m) = m"

fun isExpiredSyncToken :: "google_error \<Rightarrow> bool" where
  "isExpiredSyncToken (ApiError code _) \<longleftrightarrow> code = 410"
| "isExpiredSyncToken (OtherError _) \<longleftrightarrow> False"

definition person_item :: "lib \<Rightarrow> person \<Rightarrow> string \<Rightarrow> sync_item" where
  "person_item L g data = \<lparr>si_remote_id = gp_resource g, si_etag = gp_etag g, si_content_hash = hex (l_sha256 L data), si_vcard = data\<rparr>"

definition take_person :: "lib \<Rightarrow> person \<Rightarrow> delta \<Rightarrow> delta" where
  "take_person L g d =
     (if gp_deleted g then d\<lparr>dl_deleted := dl_deleted d @ [gp_resource g]\<rparr>
      else case PersonToVCard L g of
        Inl _ \<Rightarrow> d
      | Inr data \<Rightarrow> d\<lparr>dl_updated := dl_updated d @ [person_item L g data]\<rparr>)"

text \<open>The loop of \<open>listConnections\<close>, for at most the given number of pages; \<open>None\<close> stands for a loop that goes on.\<close>

fun list_pages :: "nat \<Rightarrow> lib \<Rightarrow> people_api \<Rightarrow> string \<Rightarrow> string \<Rightarrow> delta \<Rightarrow> (provider_error, delta option) prog" where
  "list_pages 0 L A token page d = ret None"
| "list_pages (Suc n) L A token page d =
     andThen (wrapErr (\<lambda>e. if isExpiredSyncToken e then ErrCursorExpired else ProvFail (google_message e))
               (ga_list A allPersonFields 100 token page)) (\<lambda>resp.
     let d' = fold (take_person L) (pg_connections resp) d
     in if pg_next_page resp = [] then ret (Some (d'\<lparr>dl_cursor := pg_next_sync resp\<rparr>))
        else list_pages n L A token (pg_next_page resp) d')"

definition listConnections :: "nat \<Rightarrow> lib \<Rightarrow> people_api \<Rightarrow> string \<Rightarrow> (provider_error, delta option) prog" where
  "listConnections n L A token = list_pages n L A token [] \<lparr>dl_updated = [], dl_deleted = [], dl_cursor = [], dl_full = (token = [])\<rparr>"

definition google_List :: "nat \<Rightarrow> lib \<Rightarrow> people_api \<Rightarrow> (provider_error, sync_item list option) prog" where
  "google_List n L A = andThen (listConnections n L A []) (\<lambda>d. ret (map_option dl_updated d))"

definition google_ListChanges :: "nat \<Rightarrow> lib \<Rightarrow> people_api \<Rightarrow> string \<Rightarrow> (provider_error, delta option) prog" where
  "google_ListChanges n L A cursor = listConnections n L A cursor"

definition google_Get :: "lib \<Rightarrow> people_api \<Rightarrow> string \<Rightarrow> (provider_error, sync_item option) prog" where
  "google_Get L A rid = andThen (wrapErr (\<lambda>e. ProvFail (google_message e)) (ga_get A rid allPersonFields)) (\<lambda>g.
     case PersonToVCard L g of
       Inl _ \<Rightarrow> throw (ProvFail ''convert person to vcard'')
     | Inr data \<Rightarrow> ret (Some (person_item L g data)))"

text \<open>What a write can fail with: \<open>PutIfMatch\<close> looks for the answer of the API inside it.\<close>

datatype google_put_error = GPParse string | GPApi google_error | GPNoResource

definition put_person :: "lib \<Rightarrow> people_api \<Rightarrow> sync_item \<Rightarrow> (google_put_error, put_result) prog" where
  "put_person L A item = (case ParseVCard L (si_vcard item) of
     Inl e \<Rightarrow> throw (GPParse e)
   | Inr parsed \<Rightarrow>
       let g = ParsedContactToPerson (l_unicode L) parsed
       in if has_prefix (si_remote_id item) ''people/''
          then andThen (wrapErr GPApi (ga_update A (si_remote_id item) (g\<lparr>gp_etag := si_etag item\<rparr>) allUpdatePersonFields)) (\<lambda>updated.
            ret \<lparr>pr_remote_id = (if gp_resource updated = [] then si_remote_id item else gp_resource updated), pr_etag = gp_etag updated\<rparr>)
          else andThen (wrapErr GPApi (ga_create A g)) (\<lambda>created.
            if gp_resource created = [] then throw GPNoResource
            else ret \<lparr>pr_remote_id = gp_resource created, pr_etag = gp_etag created\<rparr>))"

fun put_message :: "google_put_error \<Rightarrow> string" where
  "put_message (GPParse e) = ''parse vcard: '' @ e"
| "put_message (GPApi e) = google_message e"
| "put_message GPNoResource = ''create contact: People API returned no resourceName''"

definition google_Put :: "lib \<Rightarrow> people_api \<Rightarrow> sync_item \<Rightarrow> (provider_error, put_result) prog" where
  "google_Put L A item = wrapErr (\<lambda>e. ProvFail (put_message e)) (put_person L A item)"

definition contains_str :: "string \<Rightarrow> string \<Rightarrow> bool" where
  "contains_str s p \<longleftrightarrow> list_ex (\<lambda>i. has_prefix (drop i s) p) [0..<Suc (length s)]"

fun isPreconditionFailure :: "google_put_error \<Rightarrow> bool" where
  "isPreconditionFailure (GPApi (ApiError code m)) \<longleftrightarrow> code = 412 \<or> code = 400 \<and> contains_str m ''FAILED_PRECONDITION''"
| "isPreconditionFailure _ \<longleftrightarrow> False"

definition google_PutIfMatch :: "lib \<Rightarrow> people_api \<Rightarrow> sync_item \<Rightarrow> string \<Rightarrow> (provider_error, put_result) prog" where
  "google_PutIfMatch L A item ifMatch =
     wrapErr (\<lambda>e. if isPreconditionFailure e then ErrPreconditionFailed else ProvFail (put_message e))
       (put_person L A (if ifMatch \<noteq> [] then item\<lparr>si_etag := ifMatch\<rparr> else item))"

definition google_Delete :: "people_api \<Rightarrow> string \<Rightarrow> (provider_error, unit) prog" where
  "google_Delete A rid = wrapErr (\<lambda>e. ProvFail (google_message e)) (ga_delete A rid)"

section \<open>Lemmas\<close>

subsection \<open>Types\<close>

definition canonical_type :: "string \<Rightarrow> bool" where
  "canonical_type t \<longleftrightarrow> t \<in> {''home'', ''work'', ''mobile'', ''homeFax'', ''workFax'', ''other''}"

text \<open>Lower case of one ASCII character.\<close>

definition low_char :: "char \<Rightarrow> char" where
  "low_char c = (if 65 \<le> (of_char c :: nat) \<and> (of_char c :: nat) \<le> 90 then char_of ((of_char c :: nat) + 32) else c)"

lemma to_lower_Nil [simp]: "to_lower U [] = []"
  by (simp add: to_lower_def string_of_runes_def)

lemma to_lower_ascii_Cons [simp]: "of_char c < (128 :: nat) \<Longrightarrow> to_lower U (c # s) = low_char c # to_lower U s"
  by (auto simp: to_lower_def string_of_runes_def lower_rune_def low_char_def encode_rune_def)

lemma google_type_roundtrip: "canonical_type t \<Longrightarrow> toGoogleType U (normalizeGoogleType U t) = t"
  unfolding canonical_type_def by (elim insertE emptyE; simp add: toGoogleType_def normalizeGoogleType_def low_char_def char_of_eq_iff)

subsection \<open>Dates\<close>

definition date_ok :: "google_date \<Rightarrow> bool" where
  "date_ok d \<longleftrightarrow> 0 \<le> gd_year d \<and> gd_year d < 10000 \<and> 0 \<le> gd_month d \<and> gd_month d < 100 \<and> 0 \<le> gd_day d \<and> gd_day d < 100"

lemma padInt_format:
  assumes "0 \<le> n" "0 < w"
  shows "padInt n w = replicate (w - length (format_nat (nat n))) CHR ''0'' @ format_nat (nat n)"
proof (cases "n < 10")
  case True
  then have "go_rem n 10 = n" using assms by (simp add: go_rem_def sgn_if)
  moreover have "format_nat (nat n) = [digit (nat n)]" using True by (subst format_nat.simps) auto
  ultimately show ?thesis using True assms by (simp add: padInt_def digit_def nat_add_distrib)
qed (simp add: padInt_def Let_def)

lemma format_nat_length: "n < 10 ^ Suc k \<Longrightarrow> length (format_nat n) \<le> Suc k"
proof (induction k arbitrary: n)
  case (Suc k)
  then show ?case by (subst format_nat.simps) (auto simp: less_mult_imp_div_less mult.commute)
qed (subst format_nat.simps, simp)

lemma padInt_length: "0 \<le> n \<Longrightarrow> n < 10 ^ Suc k \<Longrightarrow> length (padInt n (Suc k)) = Suc k"
  using format_nat_length [of "nat n" k] by (simp add: padInt_format nat_less_iff)

lemma padInt_digits: "0 \<le> n \<Longrightarrow> 0 < w \<Longrightarrow> c \<in> set (padInt n w) \<Longrightarrow> is_digit c"
  using format_nat_set by (auto simp: padInt_format is_digit_def)

lemma digits_val_mono: "digits_val acc s = Some v \<Longrightarrow> acc \<le> v"
  by (induction acc s rule: digits_val.induct) (auto split: if_splits)

lemma int64_id: "0 \<le> n \<Longrightarrow> n < 2 ^ 63 \<Longrightarrow> int64 n = n"
  by (simp add: int64_def)

lemma parseInt64_digits:
  assumes "digits_val acc s = Some v" "v < 2 ^ 63"
  shows "fold (\<lambda>c n. if is_digit c then int64 (int64 (n * 10) + (int (of_char c) - 48)) else n) s (int acc) = int v"
  using assms
proof (induction acc s rule: digits_val.induct)
  case (2 acc c s)
  then have c: "is_digit c" and v: "digits_val (10 * acc + (of_char c - 48)) s = Some v" by (auto split: if_splits)
  have "int (10 * acc + (of_char c - 48)) < 2 ^ 63" using digits_val_mono [OF v] 2(3) by simp
  moreover have "int (10 * acc + (of_char c - 48)) = int acc * 10 + (int (of_char c) - 48)" using c by (simp add: is_digit_def of_nat_diff)
  ultimately have "int64 (int64 (int acc * 10) + (int (of_char c) - 48)) = int (10 * acc + (of_char c - 48))"
    using c by (subst int64_id [of "int acc * 10"]) (auto simp: int64_id is_digit_def)
  then show ?case using 2(1) [OF c v 2(3)] c by simp
qed simp

lemma digits_val_zeros: "digits_val 0 (replicate k CHR ''0'' @ s) = digits_val 0 s"
  by (induction k) (auto simp: is_digit_def)

lemma parse_padInt: "0 \<le> n \<Longrightarrow> n < 2 ^ 63 \<Longrightarrow> 0 < w \<Longrightarrow> parseInt64 (padInt n w) = n"
  using parseInt64_digits [of 0 "padInt n w" "nat n"]
  by (simp add: parseInt64_def padInt_format digits_val_zeros format_nat_digits)

text \<open>The characters of a date are visible, so trimming leaves it.\<close>

lemma trim_date: "s \<noteq> [] \<Longrightarrow> (\<And>c. c \<in> set s \<Longrightarrow> is_digit c \<or> c = CHR ''-'') \<Longrightarrow> trim_space s = s"
  by (rule trim_space_id) (use hd_in_set [of s] last_in_set [of s] in \<open>fastforce simp: visible_def is_digit_def\<close>)+

lemma date_roundtrip:
  assumes "date_ok d"
  shows "parseGoogleDate (googleDateToString d) = Some d"
proof -
  let ?y = "padInt (gd_year d) 4" and ?m = "padInt (gd_month d) 2" and ?d = "padInt (gd_day d) 2"
  have len: "length ?y = 4" "length ?m = 2" "length ?d = 2"
    using assms padInt_length [of "gd_year d" 3] padInt_length [of "gd_month d" 1] padInt_length [of "gd_day d" 1]
    by (simp_all add: date_ok_def numeral_2_eq_2)
  have val: "parseInt64 ?y = gd_year d" "parseInt64 ?m = gd_month d" "parseInt64 ?d = gd_day d"
    using assms by (simp_all add: date_ok_def parse_padInt)
  have dig: "\<And>c. c \<in> set ?y \<union> set ?m \<union> set ?d \<Longrightarrow> is_digit c"
    using assms padInt_digits [of _ 4] padInt_digits [of _ 2] by (auto simp: date_ok_def)
  have nodash: "CHR ''-'' \<notin> set ?y" "CHR ''-'' \<notin> set ?m" using dig [of "CHR ''-''"] by (auto simp: is_digit_def)
  show ?thesis
  proof (cases "gd_year d > 0")
    case True
    let ?s = "?y @ ''-'' @ ?m @ ''-'' @ ?d"
    have trim: "trim_space ?s = ?s" using dig by (intro trim_date) auto
    have "\<not> has_prefix ?s ''--''" using nodash(1) len(1) by (cases ?y) auto
    moreover have "take 4 ?s = ?y" "take 2 (drop 5 ?s) = ?m" "drop 8 ?s = ?d" "?s ! 4 = CHR ''-''" "?s ! 7 = CHR ''-''" "length ?s = 10"
      using len by (simp_all add: nth_append)
    ultimately show ?thesis using True trim val len by (simp add: googleDateToString_def parseGoogleDate_def cut_prefix_def Let_def)
  next
    case False
    then have "gd_year d = 0" using assms by (simp add: date_ok_def)
    moreover have "trim_space (''--'' @ ?m @ ''-'' @ ?d) = ''--'' @ ?m @ ''-'' @ ?d" using dig by (intro trim_date) auto
    moreover have "takeWhile (\<lambda>c. c \<noteq> CHR ''-'') (?m @ ''-'' @ ?d) = ?m" "dropWhile (\<lambda>c. c \<noteq> CHR ''-'') (?m @ ''-'' @ ?d) = ''-'' @ ?d"
      using nodash(2) by (auto simp: takeWhile_append dropWhile_append)
    ultimately show ?thesis using val by (simp add: googleDateToString_def parseGoogleDate_def cut_prefix_def Let_def)
  qed
qed


subsection \<open>Persons\<close>

text \<open>The persons whose every field has a place in a contact: at most one name, nickname, organisation, birthday, note and gender, types of the
  usual kinds, dates in range, events that are anniversaries, and no field there that is left empty.\<close>

definition plain_name :: "google_name \<Rightarrow> bool" where
  "plain_name n \<longleftrightarrow> gn_given n \<noteq> [] \<or> gn_family n \<noteq> [] \<or> gn_middle n \<noteq> []"

definition plain_org :: "google_org \<Rightarrow> bool" where
  "plain_org n \<longleftrightarrow> go_name n \<noteq> [] \<or> go_title n \<noteq> [] \<or> go_department n \<noteq> []"

definition plain_gender :: "unicode \<Rightarrow> string \<Rightarrow> bool" where
  "plain_gender U v \<longleftrightarrow> v \<in> {''male'', ''female'', ''unspecified''} \<or> v \<noteq> [] \<and> to_lower U v \<notin> {''male'', ''female'', ''unspecified''}"

definition at_most :: "('a \<Rightarrow> bool) \<Rightarrow> 'a list \<Rightarrow> bool" where
  "at_most ok xs \<longleftrightarrow> (case xs of [] \<Rightarrow> True | [x] \<Rightarrow> ok x | _ \<Rightarrow> False)"

definition plain_person :: "unicode \<Rightarrow> person \<Rightarrow> bool" where
  "plain_person U g \<longleftrightarrow> at_most plain_name (gp_names g) \<and> at_most (\<lambda>s. s \<noteq> []) (gp_nicknames g)
     \<and> list_all (\<lambda>v. canonical_type (gx_type v)) (gp_emails g @ gp_phones g @ gp_urls g) \<and> list_all (\<lambda>a. canonical_type (gr_type a)) (gp_addresses g)
     \<and> at_most plain_org (gp_orgs g) \<and> at_most (\<lambda>(d, t). t = [] \<and> (case d of None \<Rightarrow> False | Some d \<Rightarrow> date_ok d)) (gp_birthdays g)
     \<and> list_all (\<lambda>(t, d). t = ''anniversary'' \<and> (case d of None \<Rightarrow> False | Some d \<Rightarrow> date_ok d)) (gp_events g)
     \<and> list_all (\<lambda>i. gi_protocol i \<noteq> [] \<and> gi_type i = []) (gp_ims g) \<and> at_most (\<lambda>s. s \<noteq> []) (gp_biographies g) \<and> at_most (plain_gender U) (gp_genders g)"

text \<open>What an update can write: not the derived display name, the primary marks, the photos, the groups and the metadata.\<close>

definition writable :: "person \<Rightarrow> person" where
  "writable g = g\<lparr>gp_resource := [], gp_etag := [], gp_names := map (\<lambda>n. n\<lparr>gn_display := []\<rparr>) (gp_names g),
     gp_emails := map (\<lambda>v. v\<lparr>gx_primary := False\<rparr>) (gp_emails g), gp_phones := map (\<lambda>v. v\<lparr>gx_primary := False\<rparr>) (gp_phones g),
     gp_urls := map (\<lambda>v. v\<lparr>gx_primary := False\<rparr>) (gp_urls g), gp_photos := [], gp_memberships := [], gp_deleted := False, gp_updated := []\<rparr>"

lemma at_most_cases:
  assumes "at_most ok xs"
  obtains "xs = []" | x where "xs = [x]" "ok x"
  using assms by (auto simp: at_most_def split: list.splits)

lemma events_roundtrip:
  assumes "list_all (\<lambda>(t, d). t = ''anniversary'' \<and> (case d of None \<Rightarrow> False | Some d \<Rightarrow> date_ok d)) es" "gp_events g = es"
  shows "events_of (google_anniversaries U g) = es"
  unfolding google_anniversaries_def assms(2) using assms(1)
proof (induction es)
  case (Cons e es)
  obtain t d where e: "e = (t, d)" by (cases e)
  with Cons.prems obtain d' where "t = ''anniversary''" "d = Some d'" "date_ok d'" by (auto split: option.splits)
  with Cons e show ?case by (simp add: events_of_def List.map_filter_simps date_roundtrip equal_fold_def)
qed (simp add: events_of_def List.map_filter_simps)

lemma map_filter_in: "y \<in> set (List.map_filter f xs) \<Longrightarrow> \<exists>x \<in> set xs. f x = Some y"
  by (induction xs) (auto simp: List.map_filter_simps split: option.splits)

lemma anniversary_kind: "e \<in> set (google_anniversaries U g) \<Longrightarrow> pt_kind e = ''anniversary''"
  unfolding google_anniversaries_def by (drule map_filter_in) (auto split: option.splits if_splits)

lemma birthdays_of_anniversaries:
  assumes "\<And>e. e \<in> set ds \<Longrightarrow> pt_kind e = ''anniversary''"
  shows "birthdays_of (bs @ ds) = birthdays_of bs"
proof -
  have "fold (\<lambda>d acc. if pt_kind d = ''bday'' then (case parseGoogleDate (pt_value d) of None \<Rightarrow> acc | Some g \<Rightarrow> [(Some g, [])]) else acc) ds acc = acc" for acc
    using assms by (induction ds) simp_all
  then show ?thesis by (simp add: birthdays_of_def)
qed

lemma events_of_birthdays: "(\<And>e. e \<in> set bs \<Longrightarrow> pt_kind e = ''bday'') \<Longrightarrow> events_of (bs @ ds) = events_of ds"
  unfolding events_of_def by (induction bs) (simp_all add: List.map_filter_simps)


lemma first_of_simps [simp]: "first_of [] f = []" "first_of (x # xs) f = f x"
  by (simp_all add: first_of_def)

lemma typed_roundtrip:
  "list_all (\<lambda>v. canonical_type (gx_type v)) vs \<Longrightarrow>
    map (google_value_of U) (map (google_field U) vs) = map (\<lambda>v. v\<lparr>gx_primary := False\<rparr>) vs
    \<and> map (google_value_of U) (map (\<lambda>v. \<lparr>pf_value = gx_value v, pf_type = normalizeGoogleType U (gx_type v), pf_pref = 0, pf_label = []\<rparr>) vs)
      = map (\<lambda>v. v\<lparr>gx_primary := False\<rparr>) vs"
  by (induction vs) (auto simp: google_value_of_def google_field_def google_type_roundtrip)

lemma address_roundtrip: "list_all (\<lambda>a. canonical_type (gr_type a)) as \<Longrightarrow> map (google_address_of U) (map (google_paddress U) as) = as"
  by (induction as) (auto simp: google_address_of_def google_paddress_def google_type_roundtrip)

lemma im_roundtrip:
  "list_all (\<lambda>i. gi_protocol i \<noteq> [] \<and> gi_type i = []) is \<Longrightarrow>
    map (\<lambda>f. \<lparr>gi_username = pf_value f, gi_protocol = pf_type f, gi_type = []\<rparr>)
      (map (\<lambda>i. \<lparr>pf_value = gi_username i, pf_type = (if gi_protocol i = [] then gi_type i else gi_protocol i), pf_pref = 0, pf_label = []\<rparr>) is) = is"
  by (induction "is") auto

lemma gender_roundtrip:
  assumes "plain_gender U v"
  shows "fst (google_gender U v) \<noteq> []" "p_gender p = fst (google_gender U v) \<Longrightarrow> p_gender_text p = snd (google_gender U v) \<Longrightarrow> gender_of p = v"
proof -
  have "to_lower U ''male'' = ''male''" "to_lower U ''female'' = ''female''" "to_lower U ''unspecified'' = ''unspecified''"
    by (simp_all add: low_char_def)
  then show "fst (google_gender U v) \<noteq> []" "p_gender p = fst (google_gender U v) \<Longrightarrow> p_gender_text p = snd (google_gender U v) \<Longrightarrow> gender_of p = v"
    using assms by (auto simp: plain_gender_def google_gender_def gender_of_def Let_def)
qed

lemma birthday_roundtrip:
  "at_most (\<lambda>(d, t). t = [] \<and> (case d of None \<Rightarrow> False | Some d \<Rightarrow> date_ok d)) (gp_birthdays g) \<Longrightarrow> birthdays_of (google_birthday g) = gp_birthdays g"
  by (erule at_most_cases) (auto simp: google_birthday_def birthdays_of_def date_roundtrip split: option.splits)

lemma birthday_kind: "e \<in> set (google_birthday g) \<Longrightarrow> pt_kind e = ''bday''"
  by (auto simp: google_birthday_def split: list.splits option.splits prod.splits if_splits)

lemmas person_roundtrips = typed_roundtrip [THEN conjunct1] typed_roundtrip [THEN conjunct2] address_roundtrip im_roundtrip
  birthdays_of_anniversaries [OF anniversary_kind] events_of_birthdays [OF birthday_kind] birthday_roundtrip events_roundtrip

section \<open>Properties\<close>



text \<open>The two mappers fit together. When every field of the person has a place in a contact, \<open>ParsedContactToPerson\<close> gives back from what \<open>PersonToParsed\<close> made of the
  person all that an update can write. The vCard that is written and read in between is not part of this: it has room for one anniversary, and its
  separators in nicknames and organisations.\<close>

theorem person_roundtrip:
  assumes "plain_person U g"
  shows "ParsedContactToPerson U (PersonToParsed U g) = writable g"
proof -
  let ?q = "ParsedContactToPerson U (PersonToParsed U g)"
  note one = assms [unfolded plain_person_def]
  have names: "gp_names ?q = gp_names (writable g)"
    by (rule at_most_cases [OF conjunct1 [OF one]]) (auto simp: plain_name_def ParsedContactToPerson_def PersonToParsed_def writable_def)
  have "at_most (\<lambda>s. s \<noteq> []) (gp_nicknames g)" "at_most (\<lambda>s. s \<noteq> []) (gp_biographies g)" and orgs: "at_most plain_org (gp_orgs g)"
    and genders: "at_most (plain_gender U) (gp_genders g)" using one by simp_all
  then have single: "gp_nicknames ?q = gp_nicknames g" "gp_biographies ?q = gp_biographies g"
    by (auto simp: ParsedContactToPerson_def PersonToParsed_def elim: at_most_cases)
  have orgs: "gp_orgs ?q = gp_orgs g"
    by (rule at_most_cases [OF orgs]) (auto simp: plain_org_def ParsedContactToPerson_def PersonToParsed_def)
  have genders: "gp_genders ?q = gp_genders g"
    by (rule at_most_cases [OF genders]) (simp_all add: gender_roundtrip ParsedContactToPerson_def PersonToParsed_def)
  have lists: "gp_birthdays ?q = gp_birthdays g" "gp_events ?q = gp_events g" "gp_ims ?q = gp_ims g" "gp_addresses ?q = gp_addresses g"
      "gp_emails ?q = gp_emails (writable g)" "gp_phones ?q = gp_phones (writable g)" "gp_urls ?q = gp_urls (writable g)"
    using one unfolding ParsedContactToPerson_def PersonToParsed_def writable_def by (simp_all add: person_roundtrips del: map_map)
  have rest: "gp_resource ?q = []" "gp_etag ?q = []" "gp_photos ?q = []" "gp_memberships ?q = []" "\<not> gp_deleted ?q" "gp_updated ?q = []"
    by (simp_all add: ParsedContactToPerson_def empty_person_def)
  show ?thesis by (rule person.equality) (simp_all add: names single orgs genders lists rest writable_def)
qed

text \<open>A person with two mail addresses, one of them primary, a birthday without a year and an anniversary.\<close>

definition ada_person :: person where
  "ada_person = empty_person\<lparr>gp_resource := ''people/c1'', gp_etag := ''e1'',
     gp_names := [\<lparr>gn_given = ''Ada'', gn_family = ''Lovelace'', gn_middle = [], gn_prefix = [], gn_suffix = [], gn_display = ''Ada Lovelace''\<rparr>],
     gp_emails := [\<lparr>gx_value = ''ada@x'', gx_type = ''home'', gx_primary = True\<rparr>, \<lparr>gx_value = ''al@y'', gx_type = ''work'', gx_primary = False\<rparr>],
     gp_birthdays := [(Some \<lparr>gd_year = 0, gd_month = 12, gd_day = 10\<rparr>, [])],
     gp_events := [(''anniversary'', Some \<lparr>gd_year = 1835, gd_month = 7, gd_day = 8\<rparr>)], gp_genders := [''female'']\<rparr>"

lemma ada_plain: "plain_person unicode_ascii ada_person"
  by (simp add: plain_person_def ada_person_def empty_person_def at_most_def plain_name_def canonical_type_def date_ok_def plain_gender_def)

theorem person_roundtrip_witness:
  "gp_birthdays (ParsedContactToPerson unicode_ascii (PersonToParsed unicode_ascii ada_person)) = gp_birthdays ada_person
     \<and> map pt_value (p_dates (PersonToParsed unicode_ascii ada_person)) = [''--12-10'', ''1835-07-08'']"
  unfolding person_roundtrip [OF ada_plain] by (rule conjI, simp add: writable_def) code_simp

text \<open>The pages the API serves from a page token on: each but the last names the next.\<close>

fun served :: "people_api \<Rightarrow> string \<Rightarrow> string \<Rightarrow> world \<Rightarrow> google_page list \<Rightarrow> world \<Rightarrow> bool" where
  "served A token page w [] w' \<longleftrightarrow> False"
| "served A token page w (p # ps) w' \<longleftrightarrow> (case ga_list A allPersonFields 100 token page w of
     (Inl _, _) \<Rightarrow> False
   | (Inr q, w1) \<Rightarrow> q = p \<and> (if ps = [] then pg_next_page p = [] \<and> w' = w1 else pg_next_page p \<noteq> [] \<and> served A token (pg_next_page p) w1 ps w'))"

definition live_items :: "lib \<Rightarrow> person list \<Rightarrow> sync_item list" where
  "live_items L gs = List.map_filter (\<lambda>g. if gp_deleted g then None else case PersonToVCard L g of Inl _ \<Rightarrow> None | Inr data \<Rightarrow> Some (person_item L g data)) gs"

lemma take_persons:
  "fold (take_person L) gs d = d\<lparr>dl_updated := dl_updated d @ live_items L gs, dl_deleted := dl_deleted d @ map gp_resource (filter gp_deleted gs)\<rparr>"
  by (induction gs arbitrary: d) (auto simp: take_person_def live_items_def List.map_filter_simps split: sum.splits)

lemma live_items_append: "live_items L (gs @ hs) = live_items L gs @ live_items L hs"
  by (induction gs) (auto simp: live_items_def List.map_filter_simps split: sum.splits option.splits)

lemma list_pages_served:
  assumes "served A token page w pages w'" "length pages \<le> n"
  shows "list_pages n L A token page d w = (Inr (Some (d\<lparr>dl_updated := dl_updated d @ live_items L (concat (map pg_connections pages)),
     dl_deleted := dl_deleted d @ map gp_resource (filter gp_deleted (concat (map pg_connections pages))), dl_cursor := pg_next_sync (last pages)\<rparr>)), w')"
  using assms
proof (induction pages arbitrary: n page w d)
  case (Cons p ps)
  from Cons.prems obtain m where n: "n = Suc m" by (cases n) auto
  from Cons.prems(1) obtain w1 where run: "ga_list A allPersonFields 100 token page w = (Inr p, w1)"
    by (auto split: prod.splits sum.splits)
  show ?case
  proof (cases "ps = []")
    case True
    then show ?thesis using Cons.prems(1) run n by (simp add: andThen_def wrapErr_def take_persons Let_def prog_simps)
  next
    case False
    then have "served A token (pg_next_page p) w1 ps w'" "pg_next_page p \<noteq> []" using Cons.prems(1) run by auto
    then show ?thesis using Cons.IH [of "pg_next_page p" w1 m] Cons.prems(2) False run n
      by (simp add: andThen_def wrapErr_def take_persons live_items_append Let_def)
  qed
qed simp

text \<open>C38: Listing at Google ends and is complete. Whatever number of pages the API serves without an error, up to one that names no next
  page, a listing that is given that many turns ends, with
  one item for each person of any page that is not deleted and can be written as a card, in order, the resource names of the deleted persons as deletions, the
  sync token of the last page as cursor, and as a full listing exactly when no sync token was sent.\<close>

theorem listConnections_complete:
  assumes "served A token [] w pages w'" "length pages \<le> n"
  shows "\<exists>d. listConnections n L A token w = (Inr (Some d), w') \<and> dl_updated d = live_items L (concat (map pg_connections pages))
     \<and> dl_deleted d = map gp_resource (filter gp_deleted (concat (map pg_connections pages))) \<and> dl_cursor d = pg_next_sync (last pages)
     \<and> (dl_full d \<longleftrightarrow> token = [])"
  unfolding listConnections_def list_pages_served [OF assms] by simp


text \<open>An API with two pages; the second has a person that was deleted.\<close>

definition two_pages :: people_api where
  "two_pages = \<lparr>ga_list = (\<lambda>_ _ _ page. ret (if page = [] then \<lparr>pg_connections = [], pg_next_page = ''p2'', pg_next_sync = []\<rparr>
       else \<lparr>pg_connections = [ada_person\<lparr>gp_deleted := True\<rparr>], pg_next_page = [], pg_next_sync = ''s2''\<rparr>)),
     ga_get = (\<lambda>_ _. throw (ApiError 404 [])), ga_update = (\<lambda>_ _ _. throw (ApiError 400 [])), ga_create = (\<lambda>_. throw (ApiError 400 [])),
     ga_delete = (\<lambda>_. throw (ApiError 404 []))\<rparr>"

theorem listConnections_complete_witness:
  "\<exists>d w'. listConnections 2 (table_lib []) two_pages ''s1'' (small_world small_db []) = (Inr (Some d), w') \<and> dl_deleted d = [''people/c1''] \<and> dl_cursor d = ''s2'' \<and> \<not> dl_full d"
proof -
  let ?w = "small_world small_db []"
  let ?pages = "[\<lparr>pg_connections = [], pg_next_page = ''p2'', pg_next_sync = []\<rparr>,
    \<lparr>pg_connections = [ada_person\<lparr>gp_deleted := True\<rparr>], pg_next_page = [], pg_next_sync = ''s2''\<rparr>]"
  have "served two_pages ''s1'' [] ?w ?pages ?w" by (simp add: two_pages_def prog_simps)
  from listConnections_complete [OF this, of 2 "table_lib []"] show ?thesis by (auto simp: ada_person_def empty_person_def)
qed

end
