(* ===== verification/Jobs.thy ===== *)
theory Jobs
  imports Backup MergeService Pipelines Worker
begin

text \<open>
  Background work: the handlers of the four kinds of jobs (\<open>internal/worker/jobs\<close>), the scheduler that enqueues them
  (\<open>internal/worker/scheduler.go\<close>), what a start does about runs a dead process left open and backups it missed
  (\<open>cmd/server/startup.go\<close>), and the requests that edit the CardDAV connection and trigger a sync
  (\<open>internal/handler/sync_handler.go\<close>). The JSON of the payloads, the cron library and the calendar are parameters.
\<close>

section \<open>Definitions\<close>

subsection \<open>Jobs\<close>

record backup_payload =
  bp_user_id :: string
  bp_trigger :: string

record pipeline_payload =
  pp_pipeline_id :: string
  pp_user_id :: string

record sync_payload =
  sp_user_id :: string
  sp_provider_type :: string
  sp_config :: string

record carddav_config =
  cd_credential_id :: string
  cd_endpoint :: string
  cd_username :: string
  cd_password :: string
  cd_skip_tls_verify :: bool

text \<open>Reading and writing of JSON: \<open>None\<close> is an error of \<open>json.Unmarshal\<close>.\<close>

record codec =
  jc_backup :: "string \<Rightarrow> backup_payload option"
  jc_dedup :: "string \<Rightarrow> string option"
  jc_pipeline :: "string \<Rightarrow> pipeline_payload option"
  jc_sync :: "string \<Rightarrow> sync_payload option"
  jc_config :: "string \<Rightarrow> carddav_config option"
  jc_put_sync :: "sync_payload \<Rightarrow> string"
  jc_put_config :: "string \<Rightarrow> string \<Rightarrow> string \<Rightarrow> bool \<Rightarrow> string"

datatype job_error = JeUnmarshal | JeBackup string backup_error | JeDetect string detect_error | JePipelineDB db_error | JeNoPipeline string
  | JeExecute execute_error | JeConfig | JeCredential string | JeConnect connect_error | JeSync sync_error | JeUnsupported string

definition HandleBackup ::
  "(backup_info list \<Rightarrow> backup_info list) \<Rightarrow> backup_service \<Rightarrow> gzip \<Rightarrow> (backup_error \<Rightarrow> string) \<Rightarrow> codec \<Rightarrow> string \<Rightarrow> (job_error, unit) prog" where
  "HandleBackup ord S G msg J payload = (case jc_backup J payload of
     None \<Rightarrow> throw JeUnmarshal
   | Some p \<Rightarrow>
       let trigger = (if bp_trigger p = [] then BackupTriggerScheduled else bp_trigger p)
       in andThen (wrapErr (JeBackup (bp_user_id p)) (CreateWithTrigger ord S G msg (bp_user_id p) trigger)) (\<lambda>_. ret ()))"

text \<open>\<open>addDays\<close> is \<open>AddDate(0, 0, n)\<close> in the zone of the process; \<open>repo\<close> says whether the merge log was handed in.\<close>

definition PruneMergeLog :: "(int \<Rightarrow> int \<Rightarrow> int) \<Rightarrow> bool \<Rightarrow> int \<Rightarrow> ('e, unit) prog" where
  "PruneMergeLog addDays repo retentionDays =
     (if \<not> repo \<or> retentionDays \<le> 0 then ret ()
      else andThen now (\<lambda>t. andThen (attempt (DeleteLogOlderThan (addDays t (- retentionDays)))) (\<lambda>_. ret ())))"

definition HandleDedup ::
  "unicode \<Rightarrow> map_order \<Rightarrow> (int \<Rightarrow> int \<Rightarrow> int) \<Rightarrow> bool \<Rightarrow> int \<Rightarrow> codec \<Rightarrow> string \<Rightarrow> string set \<Rightarrow> world \<Rightarrow> (job_error + unit) \<times> string set \<times> world" where
  "HandleDedup U mo addDays repo retentionDays J payload busy w = (case jc_dedup J payload of
     None \<Rightarrow> (Inl JeUnmarshal, busy, w)
   | Some u \<Rightarrow> (case Detect U mo u busy w of
       (Inl e, busy', w') \<Rightarrow> (Inl (JeDetect u e), busy', w')
     | (Inr _, busy', w') \<Rightarrow> (case PruneMergeLog addDays repo retentionDays w' of (r, w'') \<Rightarrow> (r, busy', w''))))"

definition HandlePipeline ::
  "orchestrator \<Rightarrow> network \<Rightarrow> (string list \<Rightarrow> string list) \<Rightarrow> (sync_error \<Rightarrow> string) \<Rightarrow> codec \<Rightarrow> string \<Rightarrow> (job_error, unit) prog" where
  "HandlePipeline R N ord msg J payload = (case jc_pipeline J payload of
     None \<Rightarrow> throw JeUnmarshal
   | Some p \<Rightarrow> andThen (wrapErr JePipelineDB (GetPipeline (pp_pipeline_id p))) (\<lambda>found. case found of
       None \<Rightarrow> throw (JeNoPipeline (pp_pipeline_id p))
     | Some (pipeline, _) \<Rightarrow> andThen (wrapErr JeExecute (Execute R N ord msg (pp_user_id p) pipeline)) (\<lambda>_. ret ())))"

definition stored_config :: "bool \<Rightarrow> carddav_config \<Rightarrow> (job_error, carddav_config) prog" where
  "stored_config creds cfg =
     (if cd_credential_id cfg \<noteq> [] \<and> creds
      then andThen (attempt (GetConnection (cd_credential_id cfg))) (\<lambda>r. case r of
        Inr (Some cred) \<Rightarrow> ret (cfg\<lparr>cd_endpoint := pc_endpoint cred, cd_username := pc_username cred, cd_password := pc_password cred,
            cd_skip_tls_verify := pc_skip_tls_verify cred\<rparr>)
      | _ \<Rightarrow> throw (JeCredential (cd_credential_id cfg)))
      else ret cfg)"

definition HandleSync ::
  "engine \<Rightarrow> bool \<Rightarrow> network \<Rightarrow> (string list \<Rightarrow> string list) \<Rightarrow> (sync_error \<Rightarrow> string) \<Rightarrow> codec \<Rightarrow> string \<Rightarrow> (job_error, unit) prog" where
  "HandleSync E creds N ord msg J payload = (case jc_sync J payload of
     None \<Rightarrow> throw JeUnmarshal
   | Some p \<Rightarrow>
       if sp_provider_type p \<noteq> ''carddav'' then throw (JeUnsupported (sp_provider_type p))
       else (case jc_config J (sp_config p) of
         None \<Rightarrow> throw JeConfig
       | Some cfg0 \<Rightarrow> andThen (stored_config creds cfg0) (\<lambda>cfg.
           andThen (wrapErr JeConnect (carddav_basic (eng_lib E) N (cd_endpoint cfg) (cd_username cfg) (cd_password cfg) (cd_skip_tls_verify cfg))) (\<lambda>remote.
           andThen (wrapErr JeSync (Sync E ord msg (sp_user_id p) [] remote (InternalProvider (eng_lib E) (sp_user_id p)) ConflictSourceWins SyncModeImport)) (\<lambda>_.
           ret ())))))"

subsection \<open>Start\<close>

definition reconcileInterruptedRuns :: "bool \<Rightarrow> bool \<Rightarrow> int \<Rightarrow> ('e, unit) prog" where
  "reconcileInterruptedRuns backupRuns syncRuns startedAt =
     andThen (if backupRuns then andThen (attempt (MarkStaleBackups startedAt)) (\<lambda>_. ret ()) else ret ()) (\<lambda>_.
     if syncRuns then andThen (attempt (MarkStaleInterrupted startedAt)) (\<lambda>_. ret ()) else ret ())"

text \<open>\<open>tick\<close> is \<open>gronx.NextTickAfter\<close>: the first firing of a schedule after a time.\<close>

definition schedulePeriod :: "(string \<Rightarrow> int \<Rightarrow> int option) \<Rightarrow> string \<Rightarrow> int \<Rightarrow> int option" where
  "schedulePeriod tick schedule from = (case tick schedule from of
     None \<Rightarrow> None
   | Some first \<Rightarrow> (case tick schedule first of
       None \<Rightarrow> None
     | Some second \<Rightarrow> let period = second - first in if period \<le> 0 then None else Some period))"

definition overdue :: "int \<Rightarrow> int \<Rightarrow> backup_run option \<Rightarrow> bool" where
  "overdue t period prev = (let age = (case prev of None \<Rightarrow> period + 3600 * 1000000000 | Some run \<Rightarrow> t - br_started_at run) in \<not> age \<le> period)"

text \<open>The calls of \<open>Enqueue\<close> so far with whether each was accepted; \<open>accepts\<close> is what the worker answers to the next one, which depends on
  how full its queue is by then. A refusal is only logged.\<close>

type_synonym enqueued = "(backup_payload \<times> bool) list"

definition enqueueCatchupBackup :: "(enqueued \<Rightarrow> backup_payload \<Rightarrow> bool) \<Rightarrow> string \<Rightarrow> enqueued \<Rightarrow> enqueued" where
  "enqueueCatchupBackup accepts u calls = (let p = \<lparr>bp_user_id = u, bp_trigger = BackupTriggerCatchup\<rparr> in calls @ [(p, accepts calls p)])"

definition catch_up ::
  "(string \<Rightarrow> int \<Rightarrow> int option) \<Rightarrow> (enqueued \<Rightarrow> backup_payload \<Rightarrow> bool) \<Rightarrow> backup_service \<Rightarrow> int \<Rightarrow> string \<Rightarrow> enqueued \<Rightarrow> ('e, enqueued) prog" where
  "catch_up tick accepts S t u calls = andThen (attempt (GetUserSchedule S u)) (\<lambda>r. case r of
     Inl _ \<Rightarrow> ret calls
   | Inr schedule \<Rightarrow>
       if schedule = [] then ret calls
       else (case schedulePeriod tick schedule t of
         None \<Rightarrow> ret calls
       | Some period \<Rightarrow> andThen (attempt (LastSuccess u)) (\<lambda>r2. case r2 of
           Inl _ \<Rightarrow> ret calls
         | Inr prev \<Rightarrow> ret (if overdue t period prev then enqueueCatchupBackup accepts u calls else calls))))"

definition catchUpMissedBackups ::
  "(string \<Rightarrow> int \<Rightarrow> int option) \<Rightarrow> (enqueued \<Rightarrow> backup_payload \<Rightarrow> bool) \<Rightarrow> bool \<Rightarrow> backup_service \<Rightarrow> string list \<Rightarrow> ('e, enqueued) prog" where
  "catchUpMissedBackups tick accepts wired S users =
     (if \<not> wired then ret [] else andThen now (\<lambda>t. forEach (catch_up tick accepts S t) users []))"

subsection \<open>The CardDAV connection\<close>

record connect_request =
  cq_url :: string
  cq_username :: string
  cq_password :: string
  cq_skip_tls_verify :: bool

text \<open>A request answers a status. \<open>body\<close> is \<open>None\<close> when the body cannot be read.\<close>

definition CardDAVConnect :: "network \<Rightarrow> endpoint_policy \<Rightarrow> bool \<Rightarrow> string \<Rightarrow> connect_request option \<Rightarrow> ('e, nat) prog" where
  "CardDAVConnect N policy store u body = (case body of
     None \<Rightarrow> ret 400
   | Some req \<Rightarrow>
       if ValidateProviderEndpoint N (cq_url req) policy \<noteq> None then ret 400
       else if \<not> store then ret 500
       else andThen (attempt (GetByUserAndType u ''carddav'')) (\<lambda>r. andThen now (\<lambda>t. case r of
         Inr (Some existing) \<Rightarrow>
           andThen (attempt (UpdateConnection (existing\<lparr>pc_endpoint := cq_url req, pc_username := cq_username req, pc_password := cq_password req,
             pc_skip_tls_verify := cq_skip_tls_verify req, pc_connected := True, pc_last_error := [], pc_updated_at := t\<rparr>))) (\<lambda>r2.
           ret (case r2 of Inl _ \<Rightarrow> 500 | Inr _ \<Rightarrow> 200))
       | _ \<Rightarrow> andThen mint (\<lambda>i.
           andThen (attempt (CreateConnection \<lparr>pc_id = i, pc_user_id = u, pc_provider_type = ''carddav'', pc_name = ''CardDAV Server'',
             pc_endpoint = cq_url req, pc_username = cq_username req, pc_password = cq_password req, pc_skip_tls_verify = cq_skip_tls_verify req,
             pc_connected = True, pc_last_sync_at = None, pc_last_error = [], pc_access_token = [], pc_refresh_token = [], pc_token_expiry = None, pc_client_id = [], pc_client_secret = [], pc_scopes = [], pc_created_at = t, pc_updated_at = t\<rparr>)) (\<lambda>r2.
           ret (case r2 of Inl _ \<Rightarrow> 500 | Inr _ \<Rightarrow> 201))))))"

text \<open>The request completed from the stored connection; \<open>Inl\<close> is an answer. \<open>req\<close> is what reading the optional body left.\<close>

definition trigger_request :: "bool \<Rightarrow> string \<Rightarrow> connect_request \<Rightarrow> ('e, nat + connect_request) prog" where
  "trigger_request store u req =
     (if cq_url req = [] \<and> store
      then andThen (attempt (GetByUserAndType u ''carddav'')) (\<lambda>r. ret (case r of
        Inl _ \<Rightarrow> Inl 500
      | Inr None \<Rightarrow> Inl 400
      | Inr (Some conn) \<Rightarrow> Inr \<lparr>cq_url = pc_endpoint conn, cq_username = pc_username conn, cq_password = pc_password conn,
          cq_skip_tls_verify = pc_skip_tls_verify conn\<rparr>))
      else ret (Inr req))"

text \<open>The answer and the payload handed to the worker, if it was; \<open>accepts\<close> is what \<open>Enqueue\<close> answers.\<close>

definition CardDAVTrigger ::
  "network \<Rightarrow> endpoint_policy \<Rightarrow> bool \<Rightarrow> codec \<Rightarrow> (string \<Rightarrow> bool) \<Rightarrow> string \<Rightarrow> connect_request \<Rightarrow> ('e, nat \<times> string option) prog" where
  "CardDAVTrigger N policy store J accepts u req =
     (if cq_url req \<noteq> [] \<and> ValidateProviderEndpoint N (cq_url req) policy \<noteq> None then ret (400, None)
      else andThen (trigger_request store u req) (\<lambda>loaded. ret (case loaded of
         Inl status \<Rightarrow> (status, None)
       | Inr rq \<Rightarrow>
           if ValidateProviderEndpoint N (cq_url rq) policy \<noteq> None then (400, None)
           else let payload = jc_put_sync J \<lparr>sp_user_id = u, sp_provider_type = ''carddav'',
                      sp_config = jc_put_config J (cq_url rq) (cq_username rq) (cq_password rq) (cq_skip_tls_verify rq)\<rparr>
                in if accepts payload then (200, Some payload) else (500, None))))"

definition DisconnectProvider :: "bool \<Rightarrow> string \<Rightarrow> string \<Rightarrow> ('e, nat) prog" where
  "DisconnectProvider store u i =
     (if \<not> store then ret 404
      else andThen (attempt (GetConnection i)) (\<lambda>r. case r of
        Inr (Some conn) \<Rightarrow>
          if pc_user_id conn \<noteq> u then ret 403
          else andThen (attempt (DeleteConnection i)) (\<lambda>r2. ret (case r2 of Inl _ \<Rightarrow> 500 | Inr _ \<Rightarrow> 204))
      | _ \<Rightarrow> ret 404))"

section \<open>Lemmas\<close>

text \<open>A schedule that fires at equal distances.\<close>

definition regular :: "(string \<Rightarrow> int \<Rightarrow> int option) \<Rightarrow> string \<Rightarrow> int \<Rightarrow> bool" where
  "regular tick s period \<longleftrightarrow> period > 0 \<and>
     (\<forall>t. \<exists>k. tick s t = Some k \<and> t < k \<and> k \<le> t + period \<and> tick s k = Some (k + period))"

lemma regular_period: "regular tick s period \<Longrightarrow> schedulePeriod tick s t = Some period"
  unfolding regular_def schedulePeriod_def by (drule conjunct2, drule spec [of _ t]) (auto simp: Let_def dest: conjunct1)

definition user_schedule :: "backup_service \<Rightarrow> db \<Rightarrow> string \<Rightarrow> string" where
  "user_schedule S d u = (case select_one (\<lambda>s. bs_user_id s = u) (t_backup_settings d) of
     None \<Rightarrow> bk_default_schedule S | Some s \<Rightarrow> if bs_enabled s then bs_schedule s else [])"

definition successes :: "db \<Rightarrow> string \<Rightarrow> backup_run set" where
  "successes d u = {r \<in> set (t_backup_runs d). br_user_id r = u \<and> br_status r = BackupRunOK}"

lemma schedule_quiet: "w_faults w = [] \<Longrightarrow> GetUserSchedule S u w = (Inr (user_schedule S (w_db w) u), w)"
  by (auto simp: GetUserSchedule_def GetSettings_def GetBackupSettings_def user_schedule_def andThen_def wrapErr_def prog_simps split: option.split)

lemma sort_key_head:
  assumes "sort_key k xs = x # ys" "y \<in> set xs"
  shows "k x \<le> k y"
  using sorted_sort_key [of k xs] assms by (metis list.simps(9) order_refl set_ConsD set_sort sorted_simps(2) list.set_map image_eqI)

lemma LastSuccess_quiet:
  assumes "w_faults w = []"
  obtains prev where "LastSuccess u w = (Inr prev, w)" "overdue t period prev \<longleftrightarrow> (\<forall>r \<in> successes (w_db w) u. br_started_at r + period < t)"
proof -
  let ?rows = "filter (\<lambda>r. br_user_id r = u \<and> br_status r = BackupRunOK) (t_backup_runs (w_db w))"
  have run: "LastSuccess u w = (Inr (find (\<lambda>_. True) (sort_key (\<lambda>r. - br_started_at r) ?rows)), w)"
    using assms by (simp add: LastSuccess_def select_one_def prog_simps)
  have rows: "successes (w_db w) u = set ?rows" by (auto simp: successes_def)
  show ?thesis
  proof (cases "sort_key (\<lambda>r. - br_started_at r) ?rows")
    case Nil
    then have "set ?rows = {}" by (metis set_sort set_empty)
    then show ?thesis using that [OF run] Nil rows by (simp add: overdue_def)
  next
    case (Cons r rs)
    have "\<And>q. q \<in> set ?rows \<Longrightarrow> br_started_at q \<le> br_started_at r" using sort_key_head [OF Cons] by force
    moreover have "r \<in> set ?rows" using Cons by (metis list.set_intros(1) set_sort)
    ultimately show ?thesis using that [OF run] Cons rows by (force simp: overdue_def)
  qed
qed

text \<open>Whose backup is overdue at a time.\<close>

definition missed_backup :: "backup_service \<Rightarrow> db \<Rightarrow> int \<Rightarrow> int \<Rightarrow> string \<Rightarrow> bool" where
  "missed_backup S d t period u \<longleftrightarrow> user_schedule S d u \<noteq> [] \<and> (\<forall>r \<in> successes d u. br_started_at r + period < t)"

lemma catch_up_quiet:
  assumes "w_faults w = []" "user_schedule S (w_db w) u \<noteq> [] \<Longrightarrow> schedulePeriod tick (user_schedule S (w_db w) u) t = Some period"
  shows "catch_up tick accepts S t u calls w = (Inr (if missed_backup S (w_db w) t period u then enqueueCatchupBackup accepts u calls else calls), w)"
proof -
  obtain prev where "LastSuccess u w = (Inr prev, w)" "overdue t period prev \<longleftrightarrow> (\<forall>r \<in> successes (w_db w) u. br_started_at r + period < t)"
    using LastSuccess_quiet [OF assms(1)] by metis
  then show ?thesis using assms by (auto simp: catch_up_def missed_backup_def andThen_def attempt_def schedule_quiet prog_simps)
qed

lemma forEach_select:
  assumes "\<And>x acc. x \<in> set xs \<Longrightarrow> f x acc w = (Inr (if P x then g x acc else acc), w)"
  shows "forEach f xs acc w = (Inr (fold g (filter P xs) acc), w)"
  using assms by (induction xs arbitrary: acc) (auto simp: andThen_def prog_simps)

lemma enqueued_calls: "map fst (fold (enqueueCatchupBackup accepts) us calls) = map fst calls @ map (\<lambda>u. \<lparr>bp_user_id = u, bp_trigger = BackupTriggerCatchup\<rparr>) us"
  by (induction us arbitrary: calls) (simp_all add: enqueueCatchupBackup_def Let_def)

text \<open>A queue that nobody else fills takes its first hundred jobs.\<close>

lemma enqueued_accepted:
  assumes "\<And>calls p. length (filter snd calls) < queue_capacity \<Longrightarrow> accepts calls p" "length calls + length us \<le> queue_capacity" "list_all snd calls"
  shows "list_all snd (fold (enqueueCatchupBackup accepts) us calls)"
  using assms(2,3)
proof (induction us arbitrary: calls)
  case (Cons u us)
  have "length (filter snd calls) < queue_capacity" using Cons.prems(1) by (intro le_less_trans [OF length_filter_le]) simp
  then have "accepts calls p" for p by (rule assms(1))
  then show ?case using Cons by (simp add: enqueueCatchupBackup_def Let_def)
qed simp

lemma trigger_request_own:
  assumes "trigger_request store u req w = (Inr (Inr rq), w')"
  shows "rq = req \<or> cq_url req = [] \<and> (\<exists>c \<in> set (t_connections (w_db w)). pc_user_id c = u \<and> cq_url rq = pc_endpoint c \<and> cq_username rq = pc_username c \<and> cq_password rq = pc_password c)"
proof (cases "cq_url req = [] \<and> store")
  case True
  obtain r w1 where r: "GetByUserAndType u ''carddav'' w = (r, w1)" by (cases "GetByUserAndType u ''carddav'' w")
  with True assms obtain c where c: "r = Inr (Some c)" "rq = \<lparr>cq_url = pc_endpoint c, cq_username = pc_username c, cq_password = pc_password c,
          cq_skip_tls_verify = pc_skip_tls_verify c\<rparr>"
    by (cases r) (auto simp: trigger_request_def andThen_def attempt_def prog_simps split: option.splits)
  then have "select_one (\<lambda>c. pc_user_id c = u \<and> pc_provider_type c = ''carddav'') (t_connections (w_db w)) = Some c"
    using r by (auto simp: GetByUserAndType_def dest: query_Inr_db)
  with c(2) True show ?thesis by (auto dest: select_one_Some)
qed (use assms in \<open>auto simp: trigger_request_def prog_simps\<close>)

section \<open>Properties\<close>

text \<open>C19: A start asks for the backups that were missed. When every statement is answered and the schedules fire at equal distances, \<open>Enqueue\<close> is called for exactly
  those users, once each and in order, who have backups on and no successful backup that began within the last period; nobody whose schedule was kept gets a job.
  A call the worker refuses is not repeated. When nobody else uses the queue, so that it takes jobs until a hundred have been accepted, and at most a hundred
  users are overdue, no call is refused.\<close>

theorem catchup_exact:
  assumes "quiet w" "\<And>u. u \<in> set users \<Longrightarrow> user_schedule S (w_db w) u \<noteq> [] \<Longrightarrow> regular tick (user_schedule S (w_db w) u) (period u)"
  shows "\<exists>calls. catchUpMissedBackups tick accepts True S users w = (Inr calls :: 'e + enqueued, w)
    \<and> map fst calls = map (\<lambda>u. \<lparr>bp_user_id = u, bp_trigger = BackupTriggerCatchup\<rparr>)
        (filter (\<lambda>u. user_schedule S (w_db w) u \<noteq> [] \<and> (\<forall>r \<in> successes (w_db w) u. br_started_at r + period u < w_now w)) users)
    \<and> ((\<forall>sofar p. length (filter snd sofar) < queue_capacity \<longrightarrow> accepts sofar p) \<longrightarrow> length calls \<le> queue_capacity \<longrightarrow> list_all snd calls)"
proof -
  let ?us = "filter (\<lambda>u. missed_backup S (w_db w) (w_now w) (period u) u) users"
  let ?calls = "fold (enqueueCatchupBackup accepts) ?us []"
  have "forEach (catch_up tick accepts S (w_now w)) users [] w = (Inr ?calls :: 'e + enqueued, w)"
    using assms by (intro forEach_select catch_up_quiet) (auto simp: quiet_def regular_period)
  then have "catchUpMissedBackups tick accepts True S users w = (Inr ?calls :: 'e + enqueued, w)" by (simp add: catchUpMissedBackups_def andThen_def prog_simps)
  moreover have "length ?calls = length ?us" using arg_cong [OF enqueued_calls, of length accepts ?us "[]"] by simp
  ultimately show ?thesis using enqueued_calls [of accepts ?us "[]"] enqueued_accepted [of accepts "[]" ?us]
    by (intro exI [of _ ?calls]) (auto simp: missed_backup_def)
qed

text \<open>Schedules that do not fire at equal distances. The period is measured between the next two firings, so when these are further apart
  than the last ones were, a backup that was missed is not made up for: a user whose last success began before a firing that has
  passed gets no job.\<close>

theorem catchup_misses_irregular:
  assumes "quiet w" "user_schedule S (w_db w) u = s" "tick s (w_now w) = Some next1" "tick s next1 = Some next2"
    "r \<in> successes (w_db w) u" "tick s (br_started_at r) = Some missed" "missed \<le> w_now w" "w_now w - br_started_at r \<le> next2 - next1"
  shows "catchUpMissedBackups tick accepts True S [u] w = (Inr [] :: 'e + enqueued, w)"
proof (cases "s = [] \<or> schedulePeriod tick s (w_now w) = None")
  case True
  then show ?thesis using assms(1,2)
    by (auto simp: catchUpMissedBackups_def catch_up_def andThen_def attempt_def schedule_quiet quiet_def prog_simps)
next
  case False
  then have "schedulePeriod tick s (w_now w) = Some (next2 - next1)" using assms(3,4) by (auto simp: schedulePeriod_def Let_def split: if_splits)
  then have "catch_up tick accepts S (w_now w) u [] w = (Inr [] :: 'e + enqueued, w)"
    using assms(1,2,5,8) by (subst catch_up_quiet [where period = "next2 - next1"]) (auto simp: quiet_def missed_backup_def intro!: bexI [of _ r])
  then show ?thesis by (simp add: catchUpMissedBackups_def andThen_def prog_simps)
qed

text \<open>C6: A sync that was triggered by hand starts where it may. The job of an accepted request connects starting at one endpoint, which passes the policy, with
  the name and password of the request itself or of a connection of the user who asked, and syncs that user's own book. It depends on no other part of the network
  than that endpoint, the well-known address and DNS records of its host and where these lead; those are not put to the policy again. The JSON is read back as it was written.\<close>

theorem triggered_sync_stays_allowed:
  assumes run: "CardDAVTrigger N policy store J accepts u req w = (Inr (status, Some payload) :: 'e + _, w')"
    and json: "\<And>p. jc_put_sync J p = payload \<Longrightarrow> jc_sync J payload = Some p"
      "\<And>p e n pw s. jc_sync J payload = Some p \<Longrightarrow> jc_put_config J e n pw s = sp_config p \<Longrightarrow>
        jc_config J (sp_config p) = Some \<lparr>cd_credential_id = [], cd_endpoint = e, cd_username = n, cd_password = pw, cd_skip_tls_verify = s\<rparr>"
  shows "\<exists>e n pw s. ValidateProviderEndpoint N e policy = None
    \<and> (e = cq_url req \<and> n = cq_username req \<and> pw = cq_password req
       \<or> cq_url req = [] \<and> (\<exists>c \<in> set (t_connections (w_db w)). pc_user_id c = u \<and> e = pc_endpoint c \<and> n = pc_username c \<and> pw = pc_password c))
    \<and> HandleSync E creds N ord msg J payload = andThen (wrapErr JeConnect (carddav_basic (eng_lib E) N e n pw s)) (\<lambda>remote.
        andThen (wrapErr JeSync (Sync E ord msg u [] remote (InternalProvider (eng_lib E) u) ConflictSourceWins SyncModeImport)) (\<lambda>_. ret ()))
    \<and> (\<forall>M. same_web (\<lambda>x. x = e) (nw_web N) (nw_dav N) (nw_web M) (nw_dav M) \<longrightarrow> HandleSync E creds M ord msg J payload = HandleSync E creds N ord msg J payload)"
proof -
  obtain loaded w1 where loaded: "trigger_request store u req w = (Inr loaded :: 'e + _, w1)"
    using run by (auto simp: CardDAVTrigger_def andThen_Inr prog_simps split: if_splits)
  then obtain rq where rq: "loaded = Inr rq" and ok: "ValidateProviderEndpoint N (cq_url rq) policy = None"
    and payload: "payload = jc_put_sync J \<lparr>sp_user_id = u, sp_provider_type = ''carddav'',
      sp_config = jc_put_config J (cq_url rq) (cq_username rq) (cq_password rq) (cq_skip_tls_verify rq)\<rparr>"
    using run by (cases loaded) (auto simp: CardDAVTrigger_def andThen_def prog_simps Let_def split: if_splits)
  note origin = trigger_request_own [OF loaded [unfolded rq]]
  have job: "HandleSync E creds M ord msg J payload = andThen (wrapErr JeConnect (carddav_basic (eng_lib E) M (cq_url rq) (cq_username rq) (cq_password rq) (cq_skip_tls_verify rq))) (\<lambda>remote.
        andThen (wrapErr JeSync (Sync E ord msg u [] remote (InternalProvider (eng_lib E) u) ConflictSourceWins SyncModeImport)) (\<lambda>_. ret ()))" for M
    using json(1) [OF payload [symmetric]] json(2) [OF json(1) [OF payload [symmetric]] _]
    by (simp add: HandleSync_def stored_config_def andThen_ret)
  have same: "carddav_basic (eng_lib E) M (cq_url rq) = carddav_basic (eng_lib E) N (cq_url rq)"
    if "same_web (\<lambda>x. x = cq_url rq) (nw_web N) (nw_dav N) (nw_web M) (nw_dav M)" for M
    using connection_same [OF that refl] by (intro ext) (simp add: carddav_basic_def NewCardDAVClientProviderWithOptions_def)
  show ?thesis
    by (rule exI [of _ "cq_url rq"], rule exI [of _ "cq_username rq"], rule exI [of _ "cq_password rq"], rule exI [of _ "cq_skip_tls_verify rq"])
      (use ok origin job same in auto)
qed

text \<open>Connecting overwrites a stored credential. A user may hold several connections of a kind: the index that forbade it was dropped. Connecting a
  CardDAV server all the same takes the first row of that kind the query finds and gives it the new endpoint, name and
  password, so no connection is added, and whatever referred to that row by its identifier, a pipeline say, now goes to the
  new server.\<close>

theorem connect_overwrites_credential:
  assumes "quiet w" "select_one (\<lambda>c. pc_user_id c = u \<and> pc_provider_type c = ''carddav'') (t_connections (w_db w)) = Some c"
    "ValidateProviderEndpoint N (cq_url req) policy = None" "has_user (w_db w) u"
  shows "\<exists>w'. CardDAVConnect N policy True u (Some req) w = (Inr 200 :: 'e + nat, w')
    \<and> map pc_id (t_connections (w_db w')) = map pc_id (t_connections (w_db w))
    \<and> (\<forall>s \<in> set (t_connections (w_db w')). pc_id s = pc_id c \<longrightarrow> pc_endpoint s = cq_url req \<and> pc_username s = cq_username req \<and> pc_password s = cq_password req)"
proof -
  have "pc_user_id c = u" using select_one_Some [OF assms(2)] by simp
  then show ?thesis using assms
    by (simp add: CardDAVConnect_def GetByUserAndType_def UpdateConnection_def quiet_def andThen_def attempt_def prog_simps)
      (auto simp: upsert_row_def)
qed

subsection \<open>Concrete runs\<close>

text \<open>Times in hours from noon of a Thursday: a schedule that fires every day, and one that fires at three in the morning of working days, of which
  Wednesday to Monday are given.\<close>

definition daily :: "string \<Rightarrow> int \<Rightarrow> int option" where
  "daily s t = Some ((t div 24 + 1) * 24)"

definition weekdays :: "string \<Rightarrow> int \<Rightarrow> int option" where
  "weekdays s t = find (\<lambda>k. k > t) [- 33, - 9, 15, 87]"

lemma daily_regular: "regular daily s 24"
  unfolding regular_def daily_def by (auto simp: algebra_simps)

definition nightly_service :: backup_service where
  "nightly_service = NewBackupService ''backups'' ''0 3 * * *'' 7 None 0"

text \<open>A user whose last success began so many hours ago.\<close>

definition past_backup :: "int \<Rightarrow> backup_run" where
  "past_backup age = \<lparr>br_id = ''r'', br_user_id = ''u'', br_trigger = BackupTriggerScheduled, br_status = BackupRunOK,
     br_filename = [], br_size_bytes = 0, br_contact_count = 0, br_compressed = False, br_error_message = [], br_started_at = - age, br_finished_at = None\<rparr>"

definition backed_up :: "int \<Rightarrow> world" where
  "backed_up age = small_world (small_db\<lparr>t_backup_runs := [past_backup age]\<rparr>) []"

lemma nightly_schedule: "user_schedule nightly_service (w_db (backed_up age)) u = ''0 3 * * *''"
  by (simp add: user_schedule_def nightly_service_def NewBackupService_def backed_up_def small_world_def small_db_def select_one_def)

lemma backed_up_eval: "quiet (backed_up age)" "w_now (backed_up age) = 0" "br_started_at (past_backup age) = - age"
  "successes (w_db (backed_up age)) ''u'' = {past_backup age}"
  by (auto simp: quiet_def backed_up_def past_backup_def small_world_def successes_def)

text \<open>A worker that takes a hundred jobs.\<close>

definition free_queue :: "enqueued \<Rightarrow> backup_payload \<Rightarrow> bool" where
  "free_queue calls p \<longleftrightarrow> length (filter snd calls) < queue_capacity"

theorem catchup_exact_witness:
  "catchUpMissedBackups daily free_queue True nightly_service [''u''] (backed_up 30) = (Inr [(\<lparr>bp_user_id = ''u'', bp_trigger = ''catchup''\<rparr>, True)] :: string + _, backed_up 30)
   \<and> catchUpMissedBackups daily free_queue True nightly_service [''u''] (backed_up 20) = (Inr [] :: string + _, backed_up 20)"
proof -
  note exact = catchup_exact [where period = "\<lambda>_. 24" and tick = daily and accepts = free_queue and S = nightly_service and users = "[''u'']"]
  have regular: "regular daily (user_schedule nightly_service (w_db (backed_up age)) u) 24" for age u by (simp add: daily_regular)
  obtain c where c: "catchUpMissedBackups daily free_queue True nightly_service [''u''] (backed_up 30) = (Inr c :: string + _, backed_up 30)"
    "map fst c = [\<lparr>bp_user_id = ''u'', bp_trigger = ''catchup''\<rparr>]" and all: "length c \<le> queue_capacity \<Longrightarrow> list_all snd c"
    using exact [of "backed_up 30", where 'e = string] regular by (auto simp: nightly_schedule backed_up_eval BackupTriggerCatchup_def free_queue_def)
  obtain d where d: "catchUpMissedBackups daily free_queue True nightly_service [''u''] (backed_up 20) = (Inr d :: string + _, backed_up 20)" "map fst d = []"
    using exact [of "backed_up 20", where 'e = string] regular by (auto simp: nightly_schedule backed_up_eval)
  have "length c = 1" using arg_cong [OF c(2), of length] by simp
  with all have "list_all snd c" by (simp add: queue_capacity_def)
  with c d show ?thesis by (cases c) auto
qed

theorem catchup_misses_irregular_witness:
  "weekdays [] (- 33) = Some (- 9) \<and> catchUpMissedBackups weekdays free_queue True nightly_service [''u''] (backed_up 33) = (Inr [] :: string + _, backed_up 33)"
proof -
  have "catchUpMissedBackups weekdays free_queue True nightly_service [''u''] (backed_up 33) = (Inr [] :: string + _, backed_up 33)"
    by (rule catchup_misses_irregular [where ?next1.0 = 15 and ?next2.0 = 87 and missed = "- 9" and r = "past_backup 33"])
      (simp_all add: backed_up_eval nightly_schedule weekdays_def)
  then show ?thesis by (simp add: weekdays_def)
qed

text \<open>A request with an endpoint of its own, one without, and a codec for the job of one endpoint.\<close>

definition typed_request :: connect_request where
  "typed_request = \<lparr>cq_url = ''a'', cq_username = ''n'', cq_password = ''p'', cq_skip_tls_verify = False\<rparr>"

definition bare_request :: connect_request where
  "bare_request = \<lparr>cq_url = [], cq_username = [], cq_password = [], cq_skip_tls_verify = False\<rparr>"

definition stored_credential :: provider_connection where
  "stored_credential = \<lparr>pc_id = ''c'', pc_user_id = ''u'', pc_provider_type = ''carddav'', pc_name = ''Work'', pc_endpoint = ''b'', pc_username = ''u'', pc_password = ''old'',
     pc_skip_tls_verify = False, pc_connected = True, pc_last_sync_at = None, pc_last_error = [], pc_access_token = [], pc_refresh_token = [], pc_token_expiry = None,
     pc_client_id = [], pc_client_secret = [], pc_scopes = [], pc_created_at = 0, pc_updated_at = 0\<rparr>"

definition one_codec :: "string \<Rightarrow> string \<Rightarrow> string \<Rightarrow> codec" where
  "one_codec e0 n0 p0 = (let p = \<lparr>sp_user_id = ''u'', sp_provider_type = ''carddav'', sp_config = ''cfg''\<rparr>
     in \<lparr>jc_backup = (\<lambda>_. None), jc_dedup = (\<lambda>_. None), jc_pipeline = (\<lambda>_. None), jc_sync = (\<lambda>s. if s = ''job'' then Some p else None),
         jc_config = (\<lambda>s. if s = ''cfg'' then Some \<lparr>cd_credential_id = [], cd_endpoint = e0, cd_username = n0, cd_password = p0, cd_skip_tls_verify = False\<rparr> else None),
         jc_put_sync = (\<lambda>q. if q = p then ''job'' else []), jc_put_config = (\<lambda>e n pw s. if e = e0 \<and> n = n0 \<and> pw = p0 \<and> \<not> s then ''cfg'' else [])\<rparr>)"

lemma one_codec_reads:
  "jc_put_sync (one_codec e0 n0 p0) p = ''job'' \<Longrightarrow> jc_sync (one_codec e0 n0 p0) ''job'' = Some p"
  "jc_sync (one_codec e0 n0 p0) ''job'' = Some p \<Longrightarrow> jc_put_config (one_codec e0 n0 p0) e n pw s = sp_config p \<Longrightarrow>
      jc_config (one_codec e0 n0 p0) (sp_config p) = Some \<lparr>cd_credential_id = [], cd_endpoint = e, cd_username = n, cd_password = pw, cd_skip_tls_verify = s\<rparr>"
  by (auto simp: one_codec_def Let_def split: if_splits)

definition connected_world :: world where
  "connected_world = small_world (small_db\<lparr>t_connections := [stored_credential]\<rparr>) []"

lemma triggered_runs:
  "CardDAVTrigger two_servers \<lparr>ep_allow_insecure = False\<rparr> True (one_codec ''a'' ''n'' ''p'') (\<lambda>_. True) ''u'' typed_request connected_world = (Inr (200, Some ''job'') :: string + _, connected_world)"
  "CardDAVTrigger two_servers \<lparr>ep_allow_insecure = False\<rparr> True (one_codec ''b'' ''u'' ''old'') (\<lambda>_. True) ''u'' bare_request connected_world = (Inr (200, Some ''job'') :: string + _, connected_world)"
  by (simp_all add: CardDAVTrigger_def trigger_request_def typed_request_def bare_request_def one_codec_def valid_imports andThen_def attempt_def Let_def prog_simps
      GetByUserAndType_def connected_world_def small_world_def small_db_def stored_credential_def select_one_def)

theorem triggered_sync_stays_allowed_witness:
  "\<exists>s t. HandleSync (small_engine (table_lib [])) True two_servers id (\<lambda>_. []) (one_codec ''a'' ''n'' ''p'') ''job''
      = andThen (wrapErr JeConnect (carddav_basic (eng_lib (small_engine (table_lib []))) two_servers ''a'' ''n'' ''p'' s)) (\<lambda>remote.
        andThen (wrapErr JeSync (Sync (small_engine (table_lib [])) id (\<lambda>_. []) ''u'' [] remote (InternalProvider (eng_lib (small_engine (table_lib []))) ''u'') ConflictSourceWins SyncModeImport)) (\<lambda>_. ret ()))
    \<and> HandleSync (small_engine (table_lib [])) True two_servers id (\<lambda>_. []) (one_codec ''b'' ''u'' ''old'') ''job''
      = andThen (wrapErr JeConnect (carddav_basic (eng_lib (small_engine (table_lib []))) two_servers ''b'' ''u'' ''old'' t)) (\<lambda>remote.
        andThen (wrapErr JeSync (Sync (small_engine (table_lib [])) id (\<lambda>_. []) ''u'' [] remote (InternalProvider (eng_lib (small_engine (table_lib []))) ''u'') ConflictSourceWins SyncModeImport)) (\<lambda>_. ret ()))"
proof -
  let ?E = "small_engine (table_lib [])"
  let ?job = "\<lambda>e n pw s. andThen (wrapErr JeConnect (carddav_basic (eng_lib ?E) two_servers e n pw s)) (\<lambda>remote.
        andThen (wrapErr JeSync (Sync ?E id (\<lambda>_. []) ''u'' [] remote (InternalProvider (eng_lib ?E) ''u'') ConflictSourceWins SyncModeImport)) (\<lambda>_. ret ()))"
  have rows: "set (t_connections (w_db connected_world)) = {stored_credential}" by (simp add: connected_world_def small_world_def)
  have "\<exists>s. HandleSync ?E True two_servers id (\<lambda>_. []) (one_codec ''a'' ''n'' ''p'') ''job'' = ?job ''a'' ''n'' ''p'' s"
  proof -
    have url: "cq_url typed_request = ''a''" "cq_username typed_request = ''n''" "cq_password typed_request = ''p''" by (simp_all add: typed_request_def)
    show ?thesis
      by (rule exE [OF triggered_sync_stays_allowed [OF triggered_runs(1), of ?E True id "\<lambda>_. []"]], erule one_codec_reads(1), erule (1) one_codec_reads(2))
        (unfold url, elim exE conjE disjE, blast, simp)
  qed
  moreover have "\<exists>s. HandleSync ?E True two_servers id (\<lambda>_. []) (one_codec ''b'' ''u'' ''old'') ''job'' = ?job ''b'' ''u'' ''old'' s"
  proof -
    have url: "cq_url bare_request = []" "pc_endpoint stored_credential = ''b''" "pc_username stored_credential = ''u''" "pc_password stored_credential = ''old''"
      by (simp_all add: bare_request_def stored_credential_def)
    have none: "ValidateProviderEndpoint two_servers [] \<lparr>ep_allow_insecure = False\<rparr> \<noteq> None" by code_simp
    show ?thesis
      by (rule exE [OF triggered_sync_stays_allowed [OF triggered_runs(2), of ?E True id "\<lambda>_. []"]], erule one_codec_reads(1), erule (1) one_codec_reads(2))
        (unfold rows url, elim exE conjE disjE, use none in simp, elim bexE conjE, simp add: url, blast)
  qed
  ultimately show ?thesis by blast
qed

theorem connect_overwrites_credential_witness:
  "\<exists>w' s. CardDAVConnect two_servers \<lparr>ep_allow_insecure = False\<rparr> True ''u'' (Some typed_request) (small_world (small_db\<lparr>t_connections := [stored_credential]\<rparr>) []) = (Inr 200 :: string + _, w')
    \<and> t_connections (w_db w') = [s] \<and> pc_id s = ''c'' \<and> pc_endpoint s = ''a'' \<and> pc_password s = ''p''"
proof -
  let ?w = "small_world (small_db\<lparr>t_connections := [stored_credential]\<rparr>) []"
  have "quiet ?w" "select_one (\<lambda>c. pc_user_id c = ''u'' \<and> pc_provider_type c = ''carddav'') (t_connections (w_db ?w)) = Some stored_credential"
    "ValidateProviderEndpoint two_servers (cq_url typed_request) \<lparr>ep_allow_insecure = False\<rparr> = None" "has_user (w_db ?w) ''u''"
    by (simp_all add: quiet_def small_world_def select_one_def stored_credential_def typed_request_def valid_imports small_db_def has_user_def)
  from connect_overwrites_credential [OF this, where 'e = string] obtain w' where w': "CardDAVConnect two_servers \<lparr>ep_allow_insecure = False\<rparr> True ''u'' (Some typed_request) ?w = (Inr 200 :: string + _, w')"
    "map pc_id (t_connections (w_db w')) = [''c'']" "\<forall>s \<in> set (t_connections (w_db w')). pc_id s = ''c'' \<longrightarrow> pc_endpoint s = ''a'' \<and> pc_username s = ''n'' \<and> pc_password s = ''p''"
    by (auto simp: small_world_def stored_credential_def typed_request_def)
  then obtain s where "t_connections (w_db w') = [s]" by (cases "t_connections (w_db w')") auto
  with w' show ?thesis by auto
qed

end
