(* ===== verification/Scheduling.thy ===== *)
theory Scheduling
  imports Jobs "HOL-Library.Multiset"
begin

text \<open>
  The scheduler (\<open>internal/worker/scheduler.go\<close>) and the requests that keep it in step with the tables: those on pipelines
  (\<open>internal/handler/pipeline_handler.go\<close>) and on stored credentials (\<open>internal/handler/credential_handler.go\<close>). The cron library is a
  record of its operations. A request answers a status; one on pipelines also changes the scheduler.
\<close>

section \<open>Definitions\<close>

subsection \<open>The scheduler\<close>

text \<open>What a firing enqueues.\<close>

datatype task = PipelineTask string string | BackupTask string | DedupTask string

record scheduled_job =
  sj_name :: string
  sj_schedule :: string
  sj_task :: task

text \<open>\<open>gc_new_job\<close> answers \<open>None\<close> for an error, \<open>gc_next\<close> for an error and for a zero time.\<close>

record 's gocron =
  gc_new_job :: "scheduled_job \<Rightarrow> 's \<Rightarrow> 's option"
  gc_remove :: "string \<Rightarrow> 's \<Rightarrow> 's"
  gc_jobs :: "'s \<Rightarrow> scheduled_job list"
  gc_next :: "'s \<Rightarrow> scheduled_job \<Rightarrow> int option"

definition add_job :: "'s gocron \<Rightarrow> scheduled_job \<Rightarrow> 's \<Rightarrow> 's" where
  "add_job G j s = (case gc_new_job G j s of None \<Rightarrow> s | Some s' \<Rightarrow> s')"

definition pipeline_tag :: "string \<Rightarrow> string" where "pipeline_tag i = ''pipeline:'' @ i"
definition backup_tag :: "string \<Rightarrow> string" where "backup_tag u = ''backup:'' @ u"
definition dedup_tag :: "string \<Rightarrow> string" where "dedup_tag u = ''dedup:'' @ u"

definition pipeline_job :: "pipeline \<Rightarrow> scheduled_job" where
  "pipeline_job p = \<lparr>sj_name = pipeline_tag (pl_id p), sj_schedule = pl_schedule p, sj_task = PipelineTask (pl_id p) (pl_user_id p)\<rparr>"

definition registerPipelineJobLocked :: "'s gocron \<Rightarrow> pipeline \<Rightarrow> 's \<Rightarrow> 's" where
  "registerPipelineJobLocked G p s = (if \<not> pl_enabled p \<or> pl_schedule p = [] then s else add_job G (pipeline_job p) s)"

definition RegisterPipelines :: "'s gocron \<Rightarrow> pipeline list \<Rightarrow> 's \<Rightarrow> 's" where
  "RegisterPipelines G pipelines s = fold (registerPipelineJobLocked G) pipelines s"

definition RegisterPipelineJob :: "'s gocron \<Rightarrow> pipeline \<Rightarrow> 's \<Rightarrow> 's" where
  "RegisterPipelineJob G p s = registerPipelineJobLocked G p s"

definition ReregisterPipelineJob :: "'s gocron \<Rightarrow> pipeline \<Rightarrow> 's \<Rightarrow> 's" where
  "ReregisterPipelineJob G p s = registerPipelineJobLocked G p (gc_remove G (pipeline_tag (pl_id p)) s)"

definition RemovePipelineJob :: "'s gocron \<Rightarrow> string \<Rightarrow> 's \<Rightarrow> 's" where
  "RemovePipelineJob G i s = gc_remove G (pipeline_tag i) s"

definition RegisterBackupForUser :: "'s gocron \<Rightarrow> string \<Rightarrow> string \<Rightarrow> 's \<Rightarrow> 's" where
  "RegisterBackupForUser G schedule u s = add_job G \<lparr>sj_name = backup_tag u, sj_schedule = schedule, sj_task = BackupTask u\<rparr> s"

definition RemoveBackupForUser :: "'s gocron \<Rightarrow> string \<Rightarrow> 's \<Rightarrow> 's" where
  "RemoveBackupForUser G u s = gc_remove G (backup_tag u) s"

definition ReregisterBackupForUser :: "'s gocron \<Rightarrow> string \<Rightarrow> string \<Rightarrow> 's \<Rightarrow> 's" where
  "ReregisterBackupForUser G schedule u s =
     (let s' = gc_remove G (backup_tag u) s in if schedule \<noteq> [] then RegisterBackupForUser G schedule u s' else s')"

definition RegisterDedupForUser :: "'s gocron \<Rightarrow> string \<Rightarrow> string \<Rightarrow> 's \<Rightarrow> 's" where
  "RegisterDedupForUser G schedule u s = add_job G \<lparr>sj_name = dedup_tag u, sj_schedule = schedule, sj_task = DedupTask u\<rparr> s"

definition RemoveDedupForUser :: "'s gocron \<Rightarrow> string \<Rightarrow> 's \<Rightarrow> 's" where
  "RemoveDedupForUser G u s = gc_remove G (dedup_tag u) s"

definition ReregisterDedupForUser :: "'s gocron \<Rightarrow> string \<Rightarrow> string \<Rightarrow> 's \<Rightarrow> 's" where
  "ReregisterDedupForUser G schedule u s =
     (let s' = gc_remove G (dedup_tag u) s in if schedule \<noteq> [] then RegisterDedupForUser G schedule u s' else s')"

definition NextBackupRun :: "'s gocron \<Rightarrow> string \<Rightarrow> 's \<Rightarrow> int option" where
  "NextBackupRun G u s = (case find (\<lambda>j. sj_name j = backup_tag u) (gc_jobs G s) of None \<Rightarrow> None | Some j \<Rightarrow> gc_next G s j)"

subsection \<open>Requests on pipelines\<close>

text \<open>\<open>cron\<close> is what \<open>ValidateCron\<close> accepts; \<open>sched\<close> says whether there is a scheduler.\<close>

fun validate_each :: "network \<Rightarrow> create_step list \<Rightarrow> endpoint_policy \<Rightarrow> bool" where
  "validate_each N [] policy = True"
| "validate_each N (s # ss) policy =
     (ValidateStep N (cs_source_type s) (cs_source_config s) (cs_dest_type s) (cs_dest_config s) policy = None
      \<and> (case ParseSyncMode (cs_direction s) of Inl _ \<Rightarrow> False | Inr _ \<Rightarrow> True) \<and> validate_each N ss policy)"

definition validateSteps :: "network \<Rightarrow> create_step list \<Rightarrow> endpoint_policy \<Rightarrow> bool" where
  "validateSteps N steps policy \<longleftrightarrow> steps \<noteq> [] \<and> validate_each N steps policy"

definition CreateRequest ::
  "'s gocron \<Rightarrow> network \<Rightarrow> (string \<Rightarrow> bool) \<Rightarrow> endpoint_policy \<Rightarrow> bool \<Rightarrow> string \<Rightarrow> pipeline_input option \<Rightarrow> 's \<Rightarrow> world \<Rightarrow> nat \<times> 's \<times> world" where
  "CreateRequest G N cron policy sched u body s w = (case body of
     None \<Rightarrow> (400, s, w)
   | Some input \<Rightarrow>
       if pi_name input = [] \<or> pi_schedule input \<noteq> [] \<and> \<not> cron (pi_schedule input) \<or> \<not> validateSteps N (pi_steps input) policy then (400, s, w)
       else (case PipelineCreate u input w of
         (Inl _, w') \<Rightarrow> (500, s, w')
       | (Inr None, w') \<Rightarrow> (if sched then 500 else 201, s, w')
       | (Inr (Some (p, _)), w') \<Rightarrow> (201, if sched then RegisterPipelineJob G p s else s, w')))"

definition UpdateRequest ::
  "'s gocron \<Rightarrow> network \<Rightarrow> (string \<Rightarrow> bool) \<Rightarrow> endpoint_policy \<Rightarrow> bool \<Rightarrow> string \<Rightarrow> string \<Rightarrow> pipeline_input option \<Rightarrow> 's \<Rightarrow> world \<Rightarrow> nat \<times> 's \<times> world" where
  "UpdateRequest G N cron policy sched u i body s w = (case body of
     None \<Rightarrow> (400, s, w)
   | Some input \<Rightarrow>
       if pi_schedule input \<noteq> [] \<and> \<not> cron (pi_schedule input) \<or> \<not> validateSteps N (pi_steps input) policy then (400, s, w)
       else (case PipelineUpdate u i input w of
         (Inl e, w') \<Rightarrow> (if e = ErrPipelineNotFound then 404 else 500, s, w')
       | (Inr None, w') \<Rightarrow> (if sched then 500 else 200, s, w')
       | (Inr (Some (p, _)), w') \<Rightarrow> (200, if sched then ReregisterPipelineJob G p s else s, w')))"

definition DeleteRequest :: "'s gocron \<Rightarrow> bool \<Rightarrow> string \<Rightarrow> string \<Rightarrow> 's \<Rightarrow> world \<Rightarrow> nat \<times> 's \<times> world" where
  "DeleteRequest G sched u i s w = (case PipelineDelete u i w of
     (Inl e, w') \<Rightarrow> (if e = ErrPipelineNotFound then 404 else 500, s, w')
   | (Inr _, w') \<Rightarrow> (200, if sched then RemovePipelineJob G i s else s, w'))"

definition TriggerRequest ::
  "orchestrator \<Rightarrow> network \<Rightarrow> (string list \<Rightarrow> string list) \<Rightarrow> (sync_error \<Rightarrow> string) \<Rightarrow> string \<Rightarrow> string \<Rightarrow> ('e, nat \<times> step_result list) prog" where
  "TriggerRequest R N ord msg u i = andThen (attempt (PipelineGet u i)) (\<lambda>r. case r of
     Inl e \<Rightarrow> ret (if e = ErrPipelineNotFound then 404 else 500, [])
   | Inr (p, _) \<Rightarrow> andThen (attempt (Execute R N ord msg u p)) (\<lambda>r2. ret (case r2 of Inl _ \<Rightarrow> (500, []) | Inr results \<Rightarrow> (200, results))))"

subsection \<open>Requests on credentials\<close>

record credential_request =
  cr_name :: string
  cr_provider_type :: string
  cr_endpoint :: string
  cr_username :: string
  cr_password :: string
  cr_skip_tls_verify :: bool

definition CredentialCreate :: "network \<Rightarrow> endpoint_policy \<Rightarrow> string \<Rightarrow> credential_request option \<Rightarrow> ('e, nat) prog" where
  "CredentialCreate N policy u body = (case body of
     None \<Rightarrow> ret 400
   | Some req \<Rightarrow>
       if cr_provider_type req = [] \<or> ValidateProviderEndpoint N (cr_endpoint req) policy \<noteq> None then ret 400
       else andThen now (\<lambda>t. andThen mint (\<lambda>i.
         andThen (attempt (CreateConnection \<lparr>pc_id = i, pc_user_id = u, pc_provider_type = cr_provider_type req,
           pc_name = (if cr_name req = [] then cr_provider_type req @ '' server'' else cr_name req), pc_endpoint = cr_endpoint req,
           pc_username = cr_username req, pc_password = cr_password req, pc_skip_tls_verify = cr_skip_tls_verify req, pc_connected = True,
           pc_last_sync_at = None, pc_last_error = [], pc_access_token = [], pc_refresh_token = [], pc_token_expiry = None, pc_client_id = [],
           pc_client_secret = [], pc_scopes = [], pc_created_at = t, pc_updated_at = t\<rparr>)) (\<lambda>r.
         ret (case r of Inl _ \<Rightarrow> 500 | Inr _ \<Rightarrow> 201)))))"

text \<open>The connection of a request, when it is the user's own; \<open>Inl\<close> is an answer.\<close>

definition own_connection :: "string \<Rightarrow> string \<Rightarrow> ('e, nat + provider_connection) prog" where
  "own_connection u i = andThen (attempt (GetConnection i)) (\<lambda>r. ret (case r of
     Inr (Some conn) \<Rightarrow> if pc_user_id conn \<noteq> u then Inl 403 else Inr conn
   | _ \<Rightarrow> Inl 404))"

definition CredentialUpdate :: "network \<Rightarrow> endpoint_policy \<Rightarrow> string \<Rightarrow> string \<Rightarrow> credential_request option \<Rightarrow> ('e, nat) prog" where
  "CredentialUpdate N policy u i body = andThen (own_connection u i) (\<lambda>r. case r of
     Inl status \<Rightarrow> ret status
   | Inr conn \<Rightarrow> (case body of
       None \<Rightarrow> ret 400
     | Some req \<Rightarrow>
         if ValidateProviderEndpoint N (cr_endpoint req) policy \<noteq> None then ret 400
         else andThen now (\<lambda>t.
           andThen (attempt (UpdateConnection (conn\<lparr>pc_name := cr_name req, pc_endpoint := cr_endpoint req, pc_username := cr_username req,
             pc_skip_tls_verify := cr_skip_tls_verify req, pc_password := (if cr_password req \<noteq> [] then cr_password req else pc_password conn),
             pc_updated_at := t\<rparr>))) (\<lambda>r2.
           ret (case r2 of Inl _ \<Rightarrow> 500 | Inr _ \<Rightarrow> 200)))))"

definition CredentialDelete :: "string \<Rightarrow> string \<Rightarrow> ('e, nat) prog" where
  "CredentialDelete u i = andThen (own_connection u i) (\<lambda>r. case r of
     Inl status \<Rightarrow> ret status
   | Inr _ \<Rightarrow> andThen (attempt (DeleteConnection i)) (\<lambda>r2. ret (case r2 of Inl _ \<Rightarrow> 500 | Inr _ \<Rightarrow> 204)))"

section \<open>Lemmas\<close>

subsection \<open>What a request leaves in the table\<close>

definition pipeline_at :: "string \<Rightarrow> db \<Rightarrow> pipeline option" where
  "pipeline_at i d = select_one (\<lambda>p. pl_id p = i) (t_pipelines d)"

text \<open>The row of \<open>i\<close> becomes \<open>found\<close>, and the others stay.\<close>

definition row_set :: "string \<Rightarrow> pipeline option \<Rightarrow> db \<Rightarrow> db \<Rightarrow> bool" where
  "row_set i found d d' \<longleftrightarrow> pipeline_at i d' = found \<and> (\<forall>j. j \<noteq> i \<longrightarrow> pipeline_at j d' = pipeline_at j d)"

lemma row_set_same: "t_pipelines d'' = t_pipelines d' \<Longrightarrow> row_set i found d d' \<Longrightarrow> row_set i found d d''"
  by (simp add: row_set_def pipeline_at_def)

lemma pipeline_at_id: "pipeline_at i d = Some p \<Longrightarrow> pl_id p = i"
  by (auto simp: pipeline_at_def dest: select_one_Some)

lemma add_steps_keep: "preserves (\<lambda>d. t_pipelines d = ps) (forEach (add_step i) inputs k)"
  unfolding add_step_def CreateStep_def by (intro hoare preserves_stmt) (auto split: if_splits sum.splits)

lemma GetPipeline_at: "GetPipeline i w = (Inr found, w') \<Longrightarrow> map_option fst found = pipeline_at i (w_db w) \<and> w_db w' = w_db w"
  unfolding GetPipeline_def pipeline_at_def
  by (elim andThen_InrE) (auto simp: andThen_Inr prog_simps split: option.splits dest!: query_Inr_db)

lemma insert_row_set:
  assumes "CreatePipeline p w = (Inr (), w')"
  shows "pipeline_at (pl_id p) (w_db w) = None" "row_set (pl_id p) (Some p) (w_db w) (w_db w')"
proof -
  have t: "t_pipelines (w_db w') = t_pipelines (w_db w) @ [p]" and new: "pl_id p \<notin> pl_id ` set (t_pipelines (w_db w))"
    using stmt_Inr_db [OF assms [unfolded CreatePipeline_def]]
    by (auto simp: insert_row_Inr split: if_splits sum.splits dest!: arg_cong [of _ "w_db w'" t_pipelines])
  from new show none: "pipeline_at (pl_id p) (w_db w) = None" unfolding pipeline_at_def select_one_None by (metis image_eqI)
  with t show "row_set (pl_id p) (Some p) (w_db w) (w_db w')" by (auto simp: row_set_def pipeline_at_def select_one_def find_append split: option.splits)
qed

lemma find_upsert:
  "find (\<lambda>q. pl_id q = j) (upsert_row pl_id p rows) =
    (if j = pl_id p then map_option (\<lambda>_. p) (find (\<lambda>q. pl_id q = j) rows) else find (\<lambda>q. pl_id q = j) rows)"
  by (induction rows) (auto simp: upsert_row_def)

lemma update_row_set:
  assumes "UpdatePipeline p w = (Inr (), w')" "pipeline_at (pl_id p) (w_db w) \<noteq> None"
  shows "row_set (pl_id p) (Some p) (w_db w) (w_db w')"
proof -
  have "t_pipelines (w_db w') = upsert_row pl_id p (t_pipelines (w_db w))"
    using stmt_Inr_db [OF assms(1) [unfolded UpdatePipeline_def]] by (auto split: if_splits dest!: arg_cong [of _ "w_db w'" t_pipelines])
  with assms(2) show ?thesis by (auto simp: row_set_def pipeline_at_def select_one_def find_upsert)
qed

lemma PipelineCreate_row:
  assumes "PipelineCreate u input w = (Inr res, w')"
  obtains p steps where "res = Some (p, steps)" "pipeline_at (pl_id p) (w_db w) = None" "row_set (pl_id p) (Some p) (w_db w) (w_db w')"
    "pl_schedule p = pi_schedule input"
proof -
  let ?p = "\<lparr>pl_id = w_uuid w (w_minted w), pl_user_id = u, pl_name = pi_name input, pl_enabled = pi_enabled input, pl_schedule = pi_schedule input,
           pl_created_at = w_now w, pl_updated_at = w_now w\<rparr>"
  from assms obtain w1 k w2 where 1: "CreatePipeline ?p (w\<lparr>w_minted := Suc (w_minted w)\<rparr>) = (Inr (), w1)"
    and 2: "forEach (add_step (pl_id ?p)) (pi_steps input) 0 w1 = (Inr k, w2)" and 3: "GetPipeline (pl_id ?p) w2 = (Inr res, w')"
    by (auto simp: PipelineCreate_def andThen_Inr wrapErr_Inr prog_simps)
  have "t_pipelines (w_db w2) = t_pipelines (w_db w1)" by (rule preservesD [OF add_steps_keep 2 refl])
  moreover note insert_row_set [OF 1] GetPipeline_at [OF 3]
  ultimately have *: "row_set (pl_id ?p) (Some ?p) (w_db w) (w_db w')" "map_option fst res = Some ?p" "pipeline_at (pl_id ?p) (w_db w) = None"
    using row_set_same by (auto simp: row_set_def pipeline_at_def)
  then obtain steps where "res = Some (?p, steps)" by (cases res) auto
  with * that show ?thesis by simp
qed

lemma PipelineGet_row: "PipelineGet u i w = (Inr (p, steps), w') \<Longrightarrow> pipeline_at i (w_db w) = Some p \<and> pl_user_id p = u \<and> w_db w' = w_db w"
  unfolding PipelineGet_def by (elim andThen_InrE) (auto simp: wrapErr_Inr prog_simps split: option.splits if_splits dest!: GetPipeline_at)

lemma DeleteSteps_keep: "DeleteSteps i w = (Inr x, w') \<Longrightarrow> t_pipelines (w_db w') = t_pipelines (w_db w)"
  unfolding DeleteSteps_def by (erule stmt_InrE) auto

lemma PipelineUpdate_row:
  assumes "PipelineUpdate u i input w = (Inr res, w')"
  obtains p steps where "res = Some (p, steps)" "pl_id p = i" "row_set i (Some p) (w_db w) (w_db w')" "pl_schedule p = pi_schedule input"
proof -
  from assms obtain q st w1 w2 w3 k w4 where 1: "PipelineGet u i w = (Inr (q, st), w1)"
    and 2: "UpdatePipeline (q\<lparr>pl_name := pi_name input, pl_enabled := pi_enabled input, pl_schedule := pi_schedule input, pl_updated_at := w_now w1\<rparr>) w1 = (Inr (), w2)"
    and 3: "DeleteSteps i w2 = (Inr (), w3)" and 4: "forEach (add_step i) (pi_steps input) 0 w3 = (Inr k, w4)" and 5: "GetPipeline i w4 = (Inr res, w')"
    by (auto simp: PipelineUpdate_def andThen_Inr wrapErr_Inr prog_simps)
  let ?p = "q\<lparr>pl_name := pi_name input, pl_enabled := pi_enabled input, pl_schedule := pi_schedule input, pl_updated_at := w_now w1\<rparr>"
  have q: "pipeline_at i (w_db w1) = Some q" "w_db w1 = w_db w" "pl_id ?p = i" using PipelineGet_row [OF 1] pipeline_at_id by auto
  with update_row_set [OF 2] have "row_set i (Some ?p) (w_db w) (w_db w2)" by simp
  moreover have "t_pipelines (w_db w4) = t_pipelines (w_db w2)" using preservesD [OF add_steps_keep 4 refl] DeleteSteps_keep [OF 3] by simp
  moreover note GetPipeline_at [OF 5]
  ultimately have *: "row_set i (Some ?p) (w_db w) (w_db w')" "map_option fst res = Some ?p" using row_set_same by (auto simp: row_set_def pipeline_at_def)
  then obtain steps where "res = Some (?p, steps)" by (cases res) auto
  with * q(3) that show ?thesis by simp
qed

lemma PipelineDelete_row:
  assumes "PipelineDelete u i w = (Inr x, w')"
  shows "row_set i None (w_db w) (w_db w')"
proof -
  from assms obtain p st w1 where 1: "PipelineGet u i w = (Inr (p, st), w1)" and 2: "DeletePipeline i w1 = (Inr x, w')"
    by (auto simp: PipelineDelete_def andThen_Inr wrapErr_Inr)
  have "t_pipelines (w_db w') = filter (\<lambda>p. pl_id p \<noteq> i) (t_pipelines (w_db w))"
    using 2 PipelineGet_row [OF 1] unfolding DeletePipeline_def by (elim stmt_InrE) auto
  moreover have "find (\<lambda>p. pl_id p = j) (filter (\<lambda>p. pl_id p \<noteq> i) rows) = (if j = i then None else find (\<lambda>p. pl_id p = j) rows)" for j and rows :: "pipeline list"
    by (induction rows) auto
  ultimately show ?thesis by (simp add: row_set_def pipeline_at_def select_one_def)
qed


subsection \<open>The scheduler and the table\<close>

text \<open>What the cron library documents: a job that is added is listed beside the others, and removal by a tag removes the jobs of that tag and no
  other (tag and name are the same here). Nothing is said about which expressions it accepts: one that never fires is an error there.\<close>

definition gocron_ok :: "'s gocron \<Rightarrow> bool" where
  "gocron_ok G \<longleftrightarrow>
     (\<forall>j s s'. gc_new_job G j s = Some s' \<longrightarrow> mset (gc_jobs G s') = add_mset j (mset (gc_jobs G s)))
   \<and> (\<forall>tag s. mset (gc_jobs G (gc_remove G tag s)) = filter_mset (\<lambda>j. sj_name j \<noteq> tag) (mset (gc_jobs G s)))"

definition jobs_named :: "'s gocron \<Rightarrow> string \<Rightarrow> 's \<Rightarrow> scheduled_job multiset" where
  "jobs_named G tag s = filter_mset (\<lambda>j. sj_name j = tag) (mset (gc_jobs G s))"

definition wanted :: "pipeline option \<Rightarrow> scheduled_job multiset" where
  "wanted found = (case found of None \<Rightarrow> {#} | Some p \<Rightarrow> if pl_enabled p \<and> pl_schedule p \<noteq> [] then {#pipeline_job p#} else {#})"

text \<open>The library refuses the job of a pipeline that should have one.\<close>

definition refused :: "'s gocron \<Rightarrow> pipeline option \<Rightarrow> bool" where
  "refused G found \<longleftrightarrow> (\<exists>p s. found = Some p \<and> pl_enabled p \<and> pl_schedule p \<noteq> [] \<and> gc_new_job G (pipeline_job p) s = None)"

text \<open>Each pipeline that is enabled and has a schedule has one job, with its schedule and its owner, or none if the library refuses that job; the others have none.\<close>

definition slot_ok :: "'s gocron \<Rightarrow> scheduled_job multiset \<Rightarrow> pipeline option \<Rightarrow> bool" where
  "slot_ok G js found \<longleftrightarrow> js = wanted found \<or> js = {#} \<and> refused G found"

definition mirrors :: "'s gocron \<Rightarrow> 's \<Rightarrow> db \<Rightarrow> bool" where
  "mirrors G s d \<longleftrightarrow> (\<forall>i. slot_ok G (jobs_named G (pipeline_tag i) s) (pipeline_at i d))"

lemma tags_differ: "pipeline_tag i = pipeline_tag j \<longleftrightarrow> i = j" "pipeline_tag i \<noteq> backup_tag u" "pipeline_tag i \<noteq> dedup_tag u"
  "backup_tag u \<noteq> pipeline_tag i" "dedup_tag u \<noteq> pipeline_tag i"
  by (simp_all add: pipeline_tag_def backup_tag_def dedup_tag_def)

lemma slot_none: "slot_ok G js None \<longleftrightarrow> js = {#}"
  by (auto simp: slot_ok_def wanted_def refused_def)

lemma jobs_added:
  assumes "gocron_ok G"
  shows "jobs_named G tag (add_job G j s) = (if sj_name j = tag \<and> gc_new_job G j s \<noteq> None then add_mset j (jobs_named G tag s) else jobs_named G tag s)"
proof (cases "gc_new_job G j s")
  case (Some s')
  then have "mset (gc_jobs G s') = add_mset j (mset (gc_jobs G s))" using assms by (simp add: gocron_ok_def)
  with Some show ?thesis by (simp add: jobs_named_def add_job_def)
qed (simp add: add_job_def)

lemma jobs_removed: "gocron_ok G \<Longrightarrow> jobs_named G tag (gc_remove G t s) = (if tag = t then {#} else jobs_named G tag s)"
  unfolding gocron_ok_def jobs_named_def by (auto simp: filter_filter_mset intro!: filter_mset_cong)

lemma jobs_registered:
  assumes "gocron_ok G"
  shows "pl_id p \<noteq> i \<Longrightarrow> jobs_named G (pipeline_tag i) (registerPipelineJobLocked G p s) = jobs_named G (pipeline_tag i) s"
    "jobs_named G (pipeline_tag (pl_id p)) s = {#} \<Longrightarrow> slot_ok G (jobs_named G (pipeline_tag (pl_id p)) (registerPipelineJobLocked G p s)) (Some p)"
  by (auto simp: registerPipelineJobLocked_def jobs_added [OF assms] wanted_def refused_def slot_ok_def pipeline_job_def tags_differ)

lemma jobs_registered_all:
  assumes "gocron_ok G" "distinct (map pl_id ps)"
  shows "pl_id ` set ps \<inter> {i} = {} \<Longrightarrow> jobs_named G (pipeline_tag i) (RegisterPipelines G ps s) = jobs_named G (pipeline_tag i) s"
    "p \<in> set ps \<Longrightarrow> jobs_named G (pipeline_tag (pl_id p)) s = {#} \<Longrightarrow> slot_ok G (jobs_named G (pipeline_tag (pl_id p)) (RegisterPipelines G ps s)) (Some p)"
proof -
  have other: "jobs_named G (pipeline_tag i) (RegisterPipelines G qs s) = jobs_named G (pipeline_tag i) s" if "i \<notin> pl_id ` set qs" for qs i s
    using that by (induction qs arbitrary: s) (auto simp: RegisterPipelines_def jobs_registered [OF assms(1)])
  then show "pl_id ` set ps \<inter> {i} = {} \<Longrightarrow> jobs_named G (pipeline_tag i) (RegisterPipelines G ps s) = jobs_named G (pipeline_tag i) s" by blast
  show "slot_ok G (jobs_named G (pipeline_tag (pl_id p)) (RegisterPipelines G ps s)) (Some p)"
    if "p \<in> set ps" "jobs_named G (pipeline_tag (pl_id p)) s = {#}"
    using that assms(2)
  proof (induction ps arbitrary: s)
    case (Cons q qs)
    have fold: "RegisterPipelines G (q # qs) s = RegisterPipelines G qs (registerPipelineJobLocked G q s)" by (simp add: RegisterPipelines_def)
    show ?case
    proof (cases "p = q")
      case True
      with Cons.prems show ?thesis using jobs_registered(2) [OF assms(1)] by (simp add: fold other)
    next
      case False
      then have "p \<in> set qs" "pl_id q \<noteq> pl_id p" using Cons.prems by auto
      with Cons show ?thesis by (simp add: fold jobs_registered(1) [OF assms(1)])
    qed
  qed simp
qed

lemma mirrors_row:
  assumes "mirrors G s d" "row_set i found d d'" "slot_ok G (jobs_named G (pipeline_tag i) s') found"
    "\<And>j. j \<noteq> i \<Longrightarrow> jobs_named G (pipeline_tag j) s' = jobs_named G (pipeline_tag j) s"
  shows "mirrors G s' d'"
  unfolding mirrors_def
proof
  fix j show "slot_ok G (jobs_named G (pipeline_tag j) s') (pipeline_at j d')"
    using assms by (cases "j = i") (simp_all add: mirrors_def row_set_def)
qed

text \<open>Other work of the server: it does not touch the table of pipelines, or it schedules work of other kinds.\<close>

lemma mirrors_other_jobs:
  assumes "gocron_ok G" "mirrors G s d"
  shows "mirrors G (ReregisterBackupForUser G schedule u s) d" "mirrors G (ReregisterDedupForUser G schedule u s) d"
    "mirrors G (RegisterBackupForUser G schedule u s) d" "mirrors G (RegisterDedupForUser G schedule u s) d"
    "mirrors G (RemoveBackupForUser G u s) d" "mirrors G (RemoveDedupForUser G u s) d"
  using assms unfolding mirrors_def ReregisterBackupForUser_def ReregisterDedupForUser_def RegisterBackupForUser_def RegisterDedupForUser_def
    RemoveBackupForUser_def RemoveDedupForUser_def Let_def
  by (simp_all add: jobs_added [OF assms(1)] jobs_removed [OF assms(1)] tags_differ)

subsection \<open>Runs of the server\<close>

text \<open>A start registers the enabled pipelines with an empty scheduler; then come requests, any of them refused or served, and work that does not
  concern pipelines. A request that is answered with 500 is left out.\<close>

inductive server :: "'s gocron \<Rightarrow> network \<Rightarrow> (string \<Rightarrow> bool) \<Rightarrow> endpoint_policy \<Rightarrow> 's \<Rightarrow> db \<Rightarrow> bool"
  for G N cron policy where
  booted: "gc_jobs G s = [] \<Longrightarrow> distinct (map pl_id (t_pipelines (w_db w))) \<Longrightarrow> ListAllEnabled w = (Inr ps, w') \<Longrightarrow> server G N cron policy (RegisterPipelines G ps s) (w_db w')"
| create_request: "server G N cron policy s (w_db w) \<Longrightarrow> CreateRequest G N cron policy True u body s w = (status, s', w') \<Longrightarrow> status \<noteq> 500 \<Longrightarrow>
    server G N cron policy s' (w_db w')"
| update_request: "server G N cron policy s (w_db w) \<Longrightarrow> UpdateRequest G N cron policy True u i body s w = (status, s', w') \<Longrightarrow> status \<noteq> 500 \<Longrightarrow>
    server G N cron policy s' (w_db w')"
| delete_request: "server G N cron policy s (w_db w) \<Longrightarrow> DeleteRequest G True u i s w = (status, s', w') \<Longrightarrow> status \<noteq> 500 \<Longrightarrow>
    server G N cron policy s' (w_db w')"
| backup_settings: "server G N cron policy s d \<Longrightarrow> server G N cron policy (ReregisterBackupForUser G schedule u s) d"
| dedup_settings: "server G N cron policy s d \<Longrightarrow> server G N cron policy (ReregisterDedupForUser G schedule u s) d"
| other_work: "server G N cron policy s d \<Longrightarrow> t_pipelines d' = t_pipelines d \<Longrightarrow> server G N cron policy s d'"


lemma mirrors_booted:
  assumes "gocron_ok G" "gc_jobs G s = []" "distinct (map pl_id (t_pipelines (w_db w)))" "ListAllEnabled w = (Inr ps, w')"
  shows "mirrors G (RegisterPipelines G ps s) (w_db w')"
  unfolding mirrors_def
proof
  fix i
  let ?on = "filter (\<lambda>p. pl_enabled p \<and> pl_schedule p \<noteq> []) (t_pipelines (w_db w))"
  have ps: "ps = sort_key pl_created_at ?on" and db: "w_db w' = w_db w"
    using assms(4) by (auto simp: ListAllEnabled_def dest: query_Inr_db)
  have empty: "jobs_named G tag s = {#}" for tag using assms(2) by (simp add: jobs_named_def)
  have "distinct (map pl_id ?on)" using assms(3) by (rule distinct_map_filter)
  then have dist: "distinct (map pl_id ps)" unfolding ps distinct_map by simp
  note reg = jobs_registered_all [OF assms(1) dist]
  have set: "set ps = {p \<in> set (t_pipelines (w_db w)). pl_enabled p \<and> pl_schedule p \<noteq> []}" by (simp add: ps)
  show "slot_ok G (jobs_named G (pipeline_tag i) (RegisterPipelines G ps s)) (pipeline_at i (w_db w'))"
  proof (cases "pipeline_at i (w_db w)")
    case None
    then have "i \<notin> pl_id ` set ps" using select_one_None [of "\<lambda>p. pl_id p = i" "t_pipelines (w_db w)"] by (auto simp: pipeline_at_def set)
    then show ?thesis using reg(1) [of i s] empty None db by (simp add: slot_none)
  next
    case (Some p)
    then have p: "p \<in> set (t_pipelines (w_db w))" "pl_id p = i" by (auto simp: pipeline_at_def dest: select_one_Some)
    show ?thesis
    proof (cases "p \<in> set ps")
      case True
      with reg(2) [of p s] empty p(2) Some db show ?thesis by simp
    next
      case False
      then have off: "wanted (Some p) = {#}" using p(1) by (auto simp: wanted_def set)
      have "q = p" if "q \<in> set ps" "pl_id q = i" for q using assms(3) p that by (auto simp: set distinct_map inj_on_def)
      with False have "i \<notin> pl_id ` set ps" by blast
      then show ?thesis using reg(1) [of i s] empty Some db off by (simp add: slot_ok_def)
    qed
  qed
qed

lemma mirrors_create:
  assumes "gocron_ok G" "mirrors G s (w_db w)" "CreateRequest G N cron policy True u body s w = (status, s', w')" "status \<noteq> 500"
  shows "mirrors G s' (w_db w')"
proof (cases "status = 400")
  case True
  then show ?thesis using assms by (auto simp: CreateRequest_def split: option.splits if_splits prod.splits sum.splits)
next
  case False
  with assms(3,4) obtain input p steps where body: "s' = RegisterPipelineJob G p s"
    and run: "PipelineCreate u input w = (Inr (Some (p, steps)), w')"
    by (auto simp: CreateRequest_def split: option.splits if_splits prod.splits sum.splits)
  from PipelineCreate_row [OF run] have row: "pipeline_at (pl_id p) (w_db w) = None" "row_set (pl_id p) (Some p) (w_db w) (w_db w')" by auto
  have "jobs_named G (pipeline_tag (pl_id p)) s = {#}" using assms(2) row(1) unfolding mirrors_def by (metis slot_none)
  then show ?thesis
    by (intro mirrors_row [OF assms(2) row(2)]) (simp_all add: body RegisterPipelineJob_def jobs_registered [OF assms(1)])
qed

lemma add_steps_error: "forEach (add_step i) inputs k w = (Inl e, w') \<Longrightarrow> e \<noteq> ErrPipelineNotFound"
  by (induction inputs arbitrary: k w)
    (auto simp: add_step_def andThen_def wrapErr_def prog_simps split: prod.splits sum.splits)

lemma readonly_PipelineGet: "readonly (PipelineGet u i)"
  unfolding PipelineGet_def GetPipeline_def by (auto intro!: effects split: option.splits)

lemma PipelineUpdate_missing:
  assumes "PipelineUpdate u i input w = (Inl ErrPipelineNotFound, w')"
  shows "w_db w' = w_db w"
proof (cases "PipelineGet u i w")
  case (Pair r w1)
  then have "w_db w1 = w_db w" using readonlyD [OF readonly_PipelineGet] by blast
  with assms Pair show ?thesis
    by (cases r) (auto simp: PipelineUpdate_def andThen_def wrapErr_def prog_simps split: prod.splits sum.splits dest: add_steps_error)
qed

lemma PipelineDelete_missing:
  assumes "PipelineDelete u i w = (Inl ErrPipelineNotFound, w')"
  shows "w_db w' = w_db w"
proof (cases "PipelineGet u i w")
  case (Pair r w1)
  then have "w_db w1 = w_db w" using readonlyD [OF readonly_PipelineGet] by blast
  with assms Pair show ?thesis by (cases r) (auto simp: PipelineDelete_def andThen_def wrapErr_def split: prod.splits sum.splits)
qed

lemma mirrors_update:
  assumes "gocron_ok G" "mirrors G s (w_db w)" "UpdateRequest G N cron policy True u i body s w = (status, s', w')" "status \<noteq> 500"
  shows "mirrors G s' (w_db w')"
proof (cases "status = 200")
  case False
  then show ?thesis using assms by (auto simp: UpdateRequest_def split: option.splits if_splits prod.splits sum.splits dest: PipelineUpdate_missing)
next
  case True
  with assms(3) obtain input p steps where body: "s' = ReregisterPipelineJob G p s"
    and run: "PipelineUpdate u i input w = (Inr (Some (p, steps)), w')"
    by (auto simp: UpdateRequest_def split: option.splits if_splits prod.splits sum.splits)
  from PipelineUpdate_row [OF run] have row: "pl_id p = i" "row_set i (Some p) (w_db w) (w_db w')" by auto
  show ?thesis
    using jobs_registered(2) [OF assms(1), of p "gc_remove G (pipeline_tag i) s"] row(1)
    by (intro mirrors_row [OF assms(2) row(2)])
      (simp_all add: body ReregisterPipelineJob_def jobs_registered(1) [OF assms(1)] jobs_removed [OF assms(1)] tags_differ)
qed

lemma mirrors_delete:
  assumes "gocron_ok G" "mirrors G s (w_db w)" "DeleteRequest G True u i s w = (status, s', w')" "status \<noteq> 500"
  shows "mirrors G s' (w_db w')"
proof (cases "PipelineDelete u i w")
  case (Pair r w1)
  show ?thesis
  proof (cases r)
    case (Inl e)
    then show ?thesis using assms Pair by (auto simp: DeleteRequest_def split: if_splits dest: PipelineDelete_missing)
  next
    case (Inr x)
    then have "s' = RemovePipelineJob G i s" "w' = w1" using assms(3) Pair by (auto simp: DeleteRequest_def)
    with PipelineDelete_row [of u i w x w1] Pair Inr show ?thesis
      by (intro mirrors_row [OF assms(2), of i None]) (simp_all add: RemovePipelineJob_def jobs_removed [OF assms(1)] tags_differ slot_none)
  qed
qed

section \<open>Properties\<close>

text \<open>C5: The scheduler mirrors the table of pipelines. After a start and any requests on pipelines and settings in any order, accepted or refused, each
  pipeline that is enabled and has a schedule has exactly one job, with the schedule and the owner of its row, and no other
  pipeline has one. The exception is a job that the cron library refuses to take, an expression that never fires for example: then the error is logged and the pipeline has no job, not even its old one.
  Requests that end in an internal error are left out: an update is not a transaction, and when it fails halfway
  the row may be changed while the job is not. The ids of the stored pipelines are distinct at the start.\<close>

theorem scheduler_mirrors_pipelines:
  assumes "server G N cron policy s d" "gocron_ok G"
  shows "mirrors G s d"
  using assms
proof (induction rule: server.induct)
  case (other_work s d d')
  then show ?case by (simp add: mirrors_def pipeline_at_def)
qed (auto intro: mirrors_booted mirrors_create mirrors_update mirrors_delete mirrors_other_jobs)


subsection \<open>Concrete runs\<close>

text \<open>The cron library as a list of jobs.\<close>

definition list_cron :: "scheduled_job list gocron" where
  "list_cron = \<lparr>gc_new_job = (\<lambda>j s. Some (s @ [j])), gc_remove = (\<lambda>tag. filter (\<lambda>j. sj_name j \<noteq> tag)), gc_jobs = id, gc_next = (\<lambda>_ _. None)\<rparr>"

lemma list_cron_ok: "gocron_ok list_cron"
  by (simp add: gocron_ok_def list_cron_def)

definition at_three :: pipeline_input where
  "at_three = \<lparr>pi_name = ''n'', pi_enabled = True, pi_schedule = ''0 3 * * *'', pi_steps = [\<lparr>cs_source_type = ''carddav'', cs_source_config = ''a'', cs_dest_type = ''internal'',
     cs_dest_config = [], cs_conflict_mode = [], cs_direction = []\<rparr>]\<rparr>"

lemmas request_eval = PipelineCreate_def PipelineUpdate_def PipelineGet_def GetPipeline_def CreatePipeline_def UpdatePipeline_def DeleteSteps_def CreateStep_def
  add_step_def buildStep_def steps_of_def andThen_def wrapErr_def prog_simps insert_row_def upsert_row_def select_one_def has_user_def

definition stored :: pipeline where
  "stored = \<lparr>pl_id = ''x'', pl_user_id = ''u'', pl_name = ''n'', pl_enabled = True, pl_schedule = ''0 3 * * *'', pl_created_at = 0, pl_updated_at = 0\<rparr>"

lemma steps_valid: "validateSteps two_servers (pi_steps at_three) \<lparr>ep_allow_insecure = False\<rparr>"
  by (simp add: validateSteps_def at_three_def valid_imports ParseSyncMode_def)

lemma created_at_three:
  "\<exists>w'. CreateRequest list_cron two_servers (\<lambda>_. True) \<lparr>ep_allow_insecure = False\<rparr> True ''u'' (Some at_three) [] (small_world small_db [])
    = (201, [pipeline_job stored], w') \<and> t_pipelines (w_db w') = [stored]"
  by (simp add: CreateRequest_def steps_valid)
    (simp add: request_eval at_three_def small_world_def small_db_def stored_def RegisterPipelineJob_def registerPipelineJobLocked_def add_job_def list_cron_def)

theorem scheduler_mirrors_pipelines_witness:
  "\<exists>w'. CreateRequest list_cron two_servers (\<lambda>_. True) \<lparr>ep_allow_insecure = False\<rparr> True ''u'' (Some at_three) [] (small_world small_db []) = (201, [pipeline_job stored], w')
     \<and> mirrors list_cron [pipeline_job stored] (w_db w') \<and> jobs_named list_cron (pipeline_tag ''x'') [pipeline_job stored] = {#pipeline_job stored#}"
proof -
  let ?w = "small_world small_db []"
  obtain w' where w': "CreateRequest list_cron two_servers (\<lambda>_. True) \<lparr>ep_allow_insecure = False\<rparr> True ''u'' (Some at_three) [] ?w = (201, [pipeline_job stored], w')"
    using created_at_three by blast
  have "server list_cron two_servers (\<lambda>_. True) \<lparr>ep_allow_insecure = False\<rparr> (RegisterPipelines list_cron [] []) (w_db ?w)"
    by (rule server.booted [where w = ?w]) (simp_all add: list_cron_def ListAllEnabled_def small_world_def small_db_def prog_simps)
  then have "server list_cron two_servers (\<lambda>_. True) \<lparr>ep_allow_insecure = False\<rparr> [] (w_db ?w)" by (simp add: RegisterPipelines_def)
  from server.create_request [OF this w'] have "server list_cron two_servers (\<lambda>_. True) \<lparr>ep_allow_insecure = False\<rparr> [pipeline_job stored] (w_db w')" by simp
  from scheduler_mirrors_pipelines [OF this list_cron_ok] w' show ?thesis
    by (intro exI [of _ w']) (simp add: jobs_named_def list_cron_def pipeline_job_def stored_def)
qed

text \<open>An update that fails halfway. The new row is written first, then the old steps are deleted and the new ones inserted, without a
  transaction. When an insert fails, the request answers 500, and the pipeline is left enabled with its new schedule and without a step,
  while the scheduler still fires it at the old one.\<close>

theorem half_done_update:
  "\<exists>w'. UpdateRequest list_cron two_servers (\<lambda>_. True) \<lparr>ep_allow_insecure = False\<rparr> True ''u'' ''x'' (Some (at_three\<lparr>pi_schedule := ''0 4 * * *''\<rparr>)) [pipeline_job stored]
      (small_world (small_db\<lparr>t_pipelines := [stored], t_pipeline_steps := [buildStep ''s'' ''x'' 1 (hd (pi_steps at_three))]\<rparr>) [False, False, False, False, True])
    = (500, [pipeline_job stored], w') \<and> map pl_schedule (t_pipelines (w_db w')) = [''0 4 * * *''] \<and> t_pipeline_steps (w_db w') = []
      \<and> sj_schedule (pipeline_job stored) = ''0 3 * * *''"
  using steps_valid
  by (simp add: UpdateRequest_def)
    (simp add: request_eval query_def stmt_def Let_def at_three_def small_world_def small_db_def stored_def pipeline_job_def)

end
