(* ===== verification/Exporter.thy ===== *)
theory Exporter
  imports ContactService "HOL-Library.Multiset"
begin

text \<open>
  The exporter (\<open>internal/service/exporter.go\<close>): the cards of a book one after the other, its contacts as CSV and as JSON. The JSON
  encoder is a parameter. The CSV writer and, for the way back through \<open>ImportCSV\<close>, the CSV reader are those of Go's
  \<open>encoding/csv\<close> with their default settings.
\<close>

section \<open>Definitions\<close>

subsection \<open>Cards\<close>

definition ExportVCardByIDs :: "string \<Rightarrow> string list \<Rightarrow> (service_error, string) prog" where
  "ExportVCardByIDs u ids =
     (if length ids > MaxBulkIDs then throw (ErrTooManyIDs (length ids))
      else andThen (svc_book u) (\<lambda>ab.
        andThen (wrapErr SvcDB (if ids = [] then ListAll (ab_id ab) else ListByIDs (ab_id ab) (dedupe ids))) (\<lambda>contacts.
        ret (concat (map (\<lambda>c. Terminated (c_vcard_data c)) contacts)))))"

definition ExportVCard :: "string \<Rightarrow> (service_error, string) prog" where
  "ExportVCard u = ExportVCardByIDs u []"

subsection \<open>CSV\<close>

text \<open>\<open>Writer.Write\<close>: \<open>fieldNeedsQuotes\<close> looks for separators, quotes and line ends, for the end marker \<open>\.\<close> of PostgreSQL and for a leading space.\<close>

definition fieldNeedsQuotes :: "string \<Rightarrow> bool" where
  "fieldNeedsQuotes f \<longleftrightarrow> f \<noteq> [] \<and> (f = [CHR 0x5C, CHR ''.''] \<or> list_ex (\<lambda>c. c \<in> {LF, CR, CHR 0x22, CHR '',''}) f \<or> space_width (map of_char f) > 0)"

definition quote_field :: "string \<Rightarrow> string" where
  "quote_field f = concat (map (\<lambda>c. if c = CHR 0x22 then [CHR 0x22, CHR 0x22] else [c]) f)"

definition csv_field :: "string \<Rightarrow> string" where
  "csv_field f = (if fieldNeedsQuotes f then CHR 0x22 # quote_field f @ [CHR 0x22] else f)"

fun csv_record :: "string list \<Rightarrow> string" where
  "csv_record [] = [LF]"
| "csv_record [f] = csv_field f @ [LF]"
| "csv_record (f # g # fs) = csv_field f @ CHR '','' # csv_record (g # fs)"

definition csv_header :: "string list" where
  "csv_header = [''first_name'', ''last_name'', ''email'', ''phone'', ''org'', ''title'', ''note'']"

definition csv_row :: "contact \<Rightarrow> string list" where
  "csv_row c = [c_first_name c, c_last_name c, c_email c, c_phone c, c_org c, c_title c, c_note c]"

definition ExportCSV :: "string \<Rightarrow> (service_error, string) prog" where
  "ExportCSV u = andThen (svc_book u) (\<lambda>ab. andThen (wrapErr SvcDB (ListAll (ab_id ab))) (\<lambda>contacts.
     ret (concat (map csv_record (csv_header # map csv_row contacts)))))"

subsection \<open>JSON\<close>

record contact_export =
  ex_id :: string
  ex_uid :: string
  ex_first_name :: string
  ex_last_name :: string
  ex_email :: string
  ex_phone :: string
  ex_org :: string
  ex_title :: string
  ex_note :: string
  ex_vcard_data :: string

definition export_of :: "contact \<Rightarrow> contact_export" where
  "export_of c = \<lparr>ex_id = c_id c, ex_uid = c_uid c, ex_first_name = c_first_name c, ex_last_name = c_last_name c, ex_email = c_email c,
     ex_phone = c_phone c, ex_org = c_org c, ex_title = c_title c, ex_note = c_note c, ex_vcard_data = c_vcard_data c\<rparr>"

definition ExportJSON :: "(contact_export list \<Rightarrow> string) \<Rightarrow> string \<Rightarrow> (service_error, string) prog" where
  "ExportJSON marshal u = andThen (svc_book u) (\<lambda>ab. andThen (wrapErr SvcDB (ListAll (ab_id ab))) (\<lambda>contacts.
     ret (marshal (map export_of contacts))))"

subsection \<open>The CSV reader\<close>

text \<open>\<open>readLine\<close>: a line with its line feed and the rest; a carriage return before the line feed, or at the very end, is dropped.\<close>

fun split_line :: "string \<Rightarrow> string \<times> string" where
  "split_line [] = ([], [])"
| "split_line (c # s) = (if c = LF then ([LF], s) else (c # fst (split_line s), snd (split_line s)))"

definition read_line :: "string \<Rightarrow> string \<times> string" where
  "read_line s = (let (l, rest) = split_line s
     in (if has_suffix l [CR, LF] then butlast (butlast l) @ [LF] else if rest = [] \<and> has_suffix l [CR] then butlast l else l, rest))"

lemma split_line_length: "length (fst (split_line s)) + length (snd (split_line s)) = length s"
  by (induction s) auto

lemma read_line_length: "length (fst (read_line s)) + length (snd (read_line s)) \<le> length s"
  using split_line_length [of s] by (auto simp: read_line_def Let_def has_suffix_def has_prefix_iff split: prod.split)

lemma cut_at_length: "snd (cut_at d s) = Some after \<Longrightarrow> length after < length s"
  by (induction s) (auto split: if_splits)

lemma cut_at_shorter: "(f, Some after) = cut_at d s \<Longrightarrow> length after < length s"
  using cut_at_length [of d s after] by (metis snd_conv)

lemma read_line_shorter: "line \<noteq> [] \<Longrightarrow> 2 * length (fst (read_line s)) + 2 * length (snd (read_line s)) < 2 * length line + 2 * length s"
  using read_line_length [of s] by (cases line) auto

text \<open>The fields of a record from the current line on; \<open>None\<close> is an error of the reader. Both answer the text that is left.\<close>

function csv_fields :: "string \<Rightarrow> string \<Rightarrow> string list \<Rightarrow> string list option \<times> string"
and csv_quoted :: "string \<Rightarrow> string \<Rightarrow> string \<Rightarrow> string list \<Rightarrow> string list option \<times> string" where
  "csv_fields line rest acc =
     (if has_prefix line [CHR 0x22] then csv_quoted (tl line) rest [] acc
      else case cut_at CHR '','' line of
        (f, Some after) \<Rightarrow> if CHR 0x22 \<in> set f then (None, rest) else csv_fields after rest (acc @ [f])
      | (_, None) \<Rightarrow> let f = (if has_suffix line [LF] then butlast line else line)
          in if CHR 0x22 \<in> set f then (None, rest) else (Some (acc @ [f]), rest))"
| "csv_quoted line rest buf acc = (case cut_at CHR 0x22 line of
     (f, Some after) \<Rightarrow>
       if has_prefix after [CHR 0x22] then csv_quoted (tl after) rest (buf @ f @ [CHR 0x22]) acc
       else if has_prefix after [CHR '',''] then csv_fields (tl after) rest (acc @ [buf @ f])
       else if after = [] \<or> after = [LF] then (Some (acc @ [buf @ f]), rest)
       else (None, rest)
   | (_, None) \<Rightarrow>
       if line = [] then (None, rest)
       else csv_quoted (fst (read_line rest)) (snd (read_line rest)) (buf @ line) acc)"
  by pat_completeness auto

termination csv_fields
  by (relation "measure (\<lambda>x. case x of Inl (line, rest, _) \<Rightarrow> 2 * (length line + length rest) + 1 | Inr (line, rest, _) \<Rightarrow> 2 * (length line + length rest))")
    (auto simp: has_prefix_iff read_line_shorter dest!: cut_at_shorter)

declare csv_fields.simps [simp del] csv_quoted.simps [simp del]

text \<open>\<open>Read\<close>: empty lines are skipped, and a record with another number of fields than the first is an error. All records of a text:\<close>

function read_records :: "nat option \<Rightarrow> string \<Rightarrow> string list option list" where
  "read_records n s =
     (if s = [] then []
      else let line = fst (read_line s); rest = snd (read_line s)
        in if line = [] \<or> line = [LF] then read_records n rest
           else case csv_fields line rest [] of
             (None, rest') \<Rightarrow> None # read_records n rest'
           | (Some fs, rest') \<Rightarrow> (case n of
               None \<Rightarrow> Some fs # read_records (Some (length fs)) rest'
             | Some k \<Rightarrow> (if length fs = k then Some fs else None) # read_records n rest'))"
  by pat_completeness auto

lemma fields_rest:
  "length (snd (csv_fields line rest acc)) \<le> length rest" "length (snd (csv_quoted line rest buf acc)) \<le> length rest"
proof (induction line rest acc and line rest buf acc rule: csv_fields_csv_quoted.induct)
  case (1 line rest acc)
  then show ?case by (subst csv_fields.simps) (auto simp: Let_def split: prod.splits option.splits)
next
  case (2 line rest buf acc)
  have "length (snd (csv_quoted (fst (read_line rest)) (snd (read_line rest)) (buf @ line) acc)) \<le> length rest"
    if "cut_at CHR 0x22 line = (f, None)" "line \<noteq> []" for f
    using 2(1) [OF that(1) [symmetric] refl that(2)] read_line_length [of rest] by simp
  with 2(2,3) show ?case by (subst csv_quoted.simps) (auto split: prod.splits option.splits)
qed

lemma read_line_rest: "s \<noteq> [] \<Longrightarrow> length (snd (read_line s)) < length s"
proof -
  assume "s \<noteq> []"
  then have "fst (split_line s) \<noteq> []" by (cases s) auto
  then show ?thesis using split_line_length [of s] by (cases "fst (split_line s)") (auto simp: read_line_def Let_def split: prod.split)
qed

termination read_records
proof (relation "measure (\<lambda>(n, s). length s)", goal_cases)
  case (2 n s line rest)
  then show ?case using read_line_rest [of s] by simp
next
  case (3 n s line rest x r)
  then show ?case using read_line_rest [of s] fields_rest(1) [of line rest "[]"] by (metis (no_types, lifting) case_prod_conv in_measure le_less_trans snd_conv)
next
  case (4 n s line rest x r fs)
  then show ?case using read_line_rest [of s] fields_rest(1) [of line rest "[]"] by (metis (no_types, lifting) case_prod_conv in_measure le_less_trans snd_conv)
next
  case (5 n s line rest x r fs k)
  then show ?case using read_line_rest [of s] fields_rest(1) [of line rest "[]"] by (metis (no_types, lifting) case_prod_conv in_measure le_less_trans snd_conv)
qed simp

declare read_records.simps [simp del]


section \<open>Lemmas\<close>

lemma csv_chars [simp]: "LF \<noteq> CHR 0x22" "CHR 0x22 \<noteq> LF" "LF \<noteq> CHR '',''" "CHR '','' \<noteq> LF" "CR \<noteq> CHR 0x22" "CHR 0x22 \<noteq> CR"
  "CR \<noteq> CHR '',''" "CHR '','' \<noteq> CR"
  by (simp_all add: CR_def LF_def)

lemma split_line_append: "LF \<notin> set f \<Longrightarrow> split_line (f @ s) = (f @ fst (split_line s), snd (split_line s))"
  by (induction f) auto

lemma split_line_set: "set (fst (split_line s)) \<union> set (snd (split_line s)) \<subseteq> set s"
  by (induction s) auto

lemma read_line_plain: "CR \<notin> set s \<Longrightarrow> read_line s = split_line s"
  using split_line_set [of s] by (auto simp: read_line_def Let_def has_suffix_def has_prefix_iff split: prod.split)

lemma cut_at_none: "d \<notin> set f \<Longrightarrow> cut_at d f = (f, None)"
  by (induction f) auto

lemma cut_at_first: "d \<notin> set f \<Longrightarrow> cut_at d (f @ d # s) = (f, Some s)"
  by (induction f) auto

text \<open>A character that is not a quote moves into the buffer.\<close>

lemma csv_quoted_char: "c \<noteq> CHR 0x22 \<Longrightarrow> l \<noteq> [] \<Longrightarrow> csv_quoted (c # l) rest buf acc = csv_quoted l rest (buf @ [c]) acc"
  by (subst csv_quoted.simps, subst (2) csv_quoted.simps) (auto split: prod.splits option.splits)

text \<open>What follows a field: another one, or the end of the record.\<close>

fun after_field :: "string \<Rightarrow> string list \<Rightarrow> string list option \<times> string" where
  "after_field (c # s) acc = (if c = CHR '','' then csv_fields (fst (split_line s)) (snd (split_line s)) acc else (Some acc, s))"
| "after_field [] acc = (Some acc, [])"

lemma split_line_nonempty: "s \<noteq> [] \<Longrightarrow> fst (split_line s) \<noteq> []"
  by (cases s) auto

lemma csv_quoted_field:
  assumes "CR \<notin> set f" "CR \<notin> set s" "d = CHR '','' \<or> d = LF"
  shows "csv_quoted (fst (split_line (quote_field f @ CHR 0x22 # d # s))) (snd (split_line (quote_field f @ CHR 0x22 # d # s))) buf acc
    = after_field (d # s) (acc @ [buf @ f])"
  using assms(1)
proof (induction f arbitrary: buf)
  case Nil
  then show ?case using assms(3) by (subst csv_quoted.simps) (auto simp: quote_field_def)
next
  case (Cons c f)
  let ?t = "quote_field f @ CHR 0x22 # d # s"
  have t: "CR \<notin> set ?t" using Cons.prems assms(2,3) by (auto simp: quote_field_def)
  show ?case
  proof (cases "c = CHR 0x22")
    case True
    then show ?thesis using Cons by (subst csv_quoted.simps) (auto simp: quote_field_def)
  next
    case False
    show ?thesis
    proof (cases "c = LF")
      case True
      then show ?thesis using Cons False read_line_plain [OF t] by (subst csv_quoted.simps) (simp add: quote_field_def)
    next
      case notLF: False
      then show ?thesis using Cons False csv_quoted_char [OF False split_line_nonempty [of ?t]] by (simp add: quote_field_def)
    qed
  qed
qed

lemma csv_field_read:
  assumes "CR \<notin> set f" "CR \<notin> set s" "d = CHR '','' \<or> d = LF"
  shows "csv_fields (fst (split_line (csv_field f @ d # s))) (snd (split_line (csv_field f @ d # s))) acc = after_field (d # s) (acc @ [f])"
proof (cases "fieldNeedsQuotes f")
  case True
  then show ?thesis using csv_quoted_field [OF assms, of "[]" acc] by (subst csv_fields.simps) (simp add: csv_field_def)
next
  case False
  then have plain: "LF \<notin> set f" "CHR 0x22 \<notin> set f" "CHR '','' \<notin> set f" by (auto simp: fieldNeedsQuotes_def list_ex_iff)
  have "\<not> has_prefix (f @ x # y) [CHR 0x22]" if "x \<noteq> CHR 0x22" for x y using plain(2) that by (cases f) auto
  moreover have "d = LF \<Longrightarrow> CHR '','' \<notin> set (f @ [d])" using plain(3) by auto
  ultimately show ?thesis using False assms(3) plain
    by (subst csv_fields.simps) (auto simp: csv_field_def split_line_append cut_at_first cut_at_none has_suffix_def Let_def)
qed

lemma csv_record_read:
  assumes "fs \<noteq> []" "\<forall>f \<in> set fs. CR \<notin> set f" "CR \<notin> set s"
  shows "csv_fields (fst (split_line (csv_record fs @ s))) (snd (split_line (csv_record fs @ s))) acc = (Some (acc @ fs), s)"
  using assms
proof (induction fs arbitrary: acc rule: csv_record.induct)
  case (2 f)
  then show ?case using csv_field_read [of f s LF acc] by simp
next
  case (3 f g fs)
  have "CR \<notin> set (csv_field h)" if "h \<in> set (f # g # fs)" for h using 3(3) that by (auto simp: csv_field_def quote_field_def)
  then have "CR \<notin> set (csv_record hs)" if "set hs \<subseteq> set (g # fs)" for hs using that by (induction hs rule: csv_record.induct) auto
  then have "CR \<notin> set (csv_record (g # fs) @ s)" using 3(4) by simp
  then show ?case using csv_field_read [of f "csv_record (g # fs) @ s" "CHR '',''" acc] 3 by simp
qed simp

lemma csv_record_no_CR: "\<forall>f \<in> set fs. CR \<notin> set f \<Longrightarrow> CR \<notin> set (csv_record fs)"
  by (induction fs rule: csv_record.induct) (auto simp: csv_field_def quote_field_def)

lemma csv_record_starts:
  assumes "length fs > 1"
  shows "\<exists>c t. csv_record fs = c # t \<and> c \<noteq> LF"
proof -
  obtain f g hs where fs: "fs = f # g # hs" using assms by (cases fs rule: csv_record.cases) auto
  show ?thesis
  proof (cases f)
    case (Cons c f')
    then show ?thesis by (cases "fieldNeedsQuotes f") (auto simp: fs csv_field_def fieldNeedsQuotes_def)
  qed (simp add: fs csv_field_def fieldNeedsQuotes_def)
qed

lemma read_record:
  assumes "length fs > 1" "\<forall>f \<in> set fs. CR \<notin> set f" "CR \<notin> set s"
  shows "read_records n (csv_record fs @ s) = (case n of
      None \<Rightarrow> Some fs # read_records (Some (length fs)) s
    | Some k \<Rightarrow> (if length fs = k then Some fs else None) # read_records n s)"
proof -
  obtain c t where c: "csv_record fs = c # t" "c \<noteq> LF" using csv_record_starts [OF assms(1)] by blast
  have "read_line (csv_record fs @ s) = split_line (csv_record fs @ s)" using csv_record_no_CR [OF assms(2)] assms(3) by (intro read_line_plain) simp
  moreover have "fs \<noteq> []" using assms(1) by auto
  moreover have "fst (split_line (csv_record fs @ s)) \<notin> {[], [LF]}" "csv_record fs @ s \<noteq> []" using c by auto
  ultimately show ?thesis using csv_record_read [of fs s "[]"] assms
    by (subst read_records.simps) (simp add: Let_def split: option.split)
qed

lemma read_rows:
  assumes "k > 1" "\<forall>r \<in> set rows. length r = k \<and> (\<forall>f \<in> set r. CR \<notin> set f)"
  shows "read_records (Some k) (concat (map csv_record rows)) = map Some rows"
  using assms(2)
proof (induction rows)
  case (Cons r rows)
  have "CR \<notin> set (concat (map csv_record rows))" using Cons.prems csv_record_no_CR by auto
  with Cons assms(1) show ?case by (simp add: read_record)
qed (subst read_records.simps, simp)

text \<open>The header names the columns the importer looks for.\<close>

lemma to_lower_id: "list_all (\<lambda>c. (of_char c :: nat) < 65 \<or> 90 < (of_char c :: nat) \<and> (of_char c :: nat) < 128) s \<Longrightarrow> to_lower U s = s"
  by (induction s) (auto simp: to_lower_def string_of_runes_def lower_rune_def encode_rune_def)

lemma header_names: "map (\<lambda>col. to_lower U (trim_space col)) csv_header = csv_header"
proof -
  have "trim_space h = h \<and> to_lower U h = h" if "h \<in> set csv_header" for h
  proof -
    have "h \<noteq> [] \<and> visible (hd h) \<and> visible (last h)
        \<and> list_all (\<lambda>c. (of_char c :: nat) < 65 \<or> 90 < (of_char c :: nat) \<and> (of_char c :: nat) < 128) h"
      using that by (auto simp: csv_header_def visible_def)
    then show ?thesis by (simp add: trim_space_id to_lower_id)
  qed
  then show ?thesis by (intro map_idI) simp
qed

lemma header_columns: "csv_columns L csv_header = map_of (rev (zip csv_header [0..<length csv_header]))"
  unfolding csv_columns_def header_names by simp

definition read_csv :: "string \<Rightarrow> string list option list" where
  "read_csv s = read_records None s"

lemma export_read:
  assumes "\<forall>c \<in> set cs. \<forall>f \<in> set (csv_row c). CR \<notin> set f"
  shows "read_csv (concat (map csv_record (csv_header # map csv_row cs))) = map Some (csv_header # map csv_row cs)"
proof -
  have header: "length csv_header = 7" "\<forall>f \<in> set csv_header. CR \<notin> set f" by (simp_all add: csv_header_def CR_def)
  have rows: "\<forall>r \<in> set (map csv_row cs). length r = 7 \<and> (\<forall>f \<in> set r. CR \<notin> set f)" using assms by (auto simp: csv_row_def)
  have "CR \<notin> set (concat (map csv_record (map csv_row cs)))" using rows csv_record_no_CR by auto
  with header have "read_csv (concat (map csv_record (csv_header # map csv_row cs))) = Some csv_header # read_records (Some 7) (concat (map csv_record (map csv_row cs)))"
    by (simp add: read_csv_def read_record)
  also have "read_records (Some 7) (concat (map csv_record (map csv_row cs))) = map Some (map csv_row cs)" using rows by (intro read_rows) simp_all
  finally show ?thesis by simp
qed

lemma row_parsed:
  "csv_parsed (csv_columns L csv_header) (csv_row c) uid = NewFromSimple uid (trim_space (c_first_name c)) (trim_space (c_last_name c)) (trim_space (c_email c))
     (trim_space (c_phone c)) (trim_space (c_org c)) (trim_space (c_title c)) (trim_space (c_note c))"
  unfolding header_columns by (simp add: csv_parsed_def csv_header_def csv_row_def upt_conv_Cons)

section \<open>Properties\<close>

text \<open>C14: An exported CSV file is read back as it was written. When no exported value contains a carriage return, the reader finds the header and one
  record for each contact of the book, in order and without an error, whatever commas, quotes, line feeds and leading
  spaces the values contain, and the importer takes from each record the values of its contact, less the space around them.\<close>

theorem csv_export_import:
  assumes "user_book_id (w_db w) u = Some b" "\<forall>c \<in> set (t_contacts (w_db w)). in_book b c \<longrightarrow> (\<forall>f \<in> set (csv_row c). CR \<notin> set f)"
    "ExportCSV u w = (Inr out, w')"
  shows "\<exists>cs. mset cs = mset (filter (in_book b) (t_contacts (w_db w))) \<and> read_csv out = map Some (csv_header # map csv_row cs)
    \<and> (\<forall>c \<in> set cs. \<forall>uid. csv_parsed (csv_columns L csv_header) (csv_row c) uid
        = NewFromSimple uid (trim_space (c_first_name c)) (trim_space (c_last_name c)) (trim_space (c_email c))
            (trim_space (c_phone c)) (trim_space (c_org c)) (trim_space (c_title c)) (trim_space (c_note c)))"
proof -
  from assms(3) obtain ab w1 cs where book: "GetOrCreateByUserID u w = (Inr ab, w1)" and contacts: "ListAll (ab_id ab) w1 = (Inr cs, w')"
    and out: "out = concat (map csv_record (csv_header # map csv_row cs))"
    by (auto simp: ExportCSV_def svc_book_def andThen_Inr wrapErr_Inr prog_simps)
  have "ab_id ab = b" "w_db w1 = w_db w" using GetOrCreate_book [OF assms(1) book] by simp_all
  then have cs: "mset cs = mset (filter (in_book b) (t_contacts (w_db w)))"
    using contacts by (auto simp: ListAll_def dest!: query_Inr_db)
  have "set cs = set (filter (in_book b) (t_contacts (w_db w)))" by (rule mset_eq_setD [OF cs])
  with assms(2) have "\<forall>c \<in> set cs. \<forall>f \<in> set (csv_row c). CR \<notin> set f" by auto
  from export_read [OF this] cs out row_parsed show ?thesis by blast
qed

text \<open>A contact whose values need every kind of quoting.\<close>

definition quoted_contact :: contact where
  "quoted_contact = ada\<lparr>c_first_name := '' Ada'', c_org := ''Analytical, Engines'', c_note := [CHR ''a'', LF, CHR 0x22, CHR ''b'']\<rparr>"

theorem csv_export_import_witness:
  "\<exists>out. ExportCSV ''u'' (small_world (small_db\<lparr>t_contacts := [quoted_contact]\<rparr>) []) = (Inr out, small_world (small_db\<lparr>t_contacts := [quoted_contact]\<rparr>) [])
     \<and> read_csv out = [Some csv_header, Some (csv_row quoted_contact)]
     \<and> p_org (csv_parsed (csv_columns (table_lib []) csv_header) (csv_row quoted_contact) ''x'') = ''Analytical, Engines''"
proof -
  let ?w = "small_world (small_db\<lparr>t_contacts := [quoted_contact]\<rparr>) []"
  have run: "ExportCSV ''u'' ?w = (Inr (concat (map csv_record [csv_header, csv_row quoted_contact])), ?w)"
    by (simp add: ExportCSV_def svc_book_def ListAll_def GetOrCreateByUserID_def GetByUserID_def andThen_def wrapErr_def small_world_def small_db_def
        select_one_def quoted_contact_def ada_def blank_contact_def in_book_def prog_simps)
  have book: "user_book_id (w_db ?w) ''u'' = Some ''b''" "filter (in_book ''b'') (t_contacts (w_db ?w)) = [quoted_contact]"
    by (simp_all add: user_book_id_def small_world_def small_db_def select_one_def quoted_contact_def ada_def in_book_def)
  have "\<forall>c \<in> set (t_contacts (w_db ?w)). in_book ''b'' c \<longrightarrow> (\<forall>f \<in> set (csv_row c). CR \<notin> set f)"
    by (simp add: small_world_def csv_row_def quoted_contact_def ada_def blank_contact_def CR_def LF_def)
  from csv_export_import [OF book(1) this run, of "table_lib []"] obtain cs where cs: "mset cs = mset [quoted_contact]"
    "read_csv (concat (map csv_record [csv_header, csv_row quoted_contact])) = map Some (csv_header # map csv_row cs)"
    and parsed: "\<forall>c \<in> set cs. \<forall>uid. csv_parsed (csv_columns (table_lib []) csv_header) (csv_row c) uid
        = NewFromSimple uid (trim_space (c_first_name c)) (trim_space (c_last_name c)) (trim_space (c_email c))
            (trim_space (c_phone c)) (trim_space (c_org c)) (trim_space (c_title c)) (trim_space (c_note c))"
    unfolding book(2) by blast
  have "cs = [quoted_contact]" using cs(1) by simp
  moreover have "trim_space (c_org quoted_contact) = ''Analytical, Engines''" unfolding quoted_contact_def by (simp add: trim_space_id visible_def)
  moreover have "p_org (NewFromSimple uid a b e p org t n) = org" for uid a b e p org t n by (simp add: NewFromSimple_def Let_def)
  ultimately have "p_org (csv_parsed (csv_columns (table_lib []) csv_header) (csv_row quoted_contact) ''x'') = ''Analytical, Engines''"
    using parsed by simp
  with cs(2) run \<open>cs = [quoted_contact]\<close> show ?thesis by (intro exI conjI) auto
qed

end
