(* ===== verification/Spec2Isabelle.thy ===== *)
theory Spec2Isabelle
  imports VCardText VCardEncode VCardMerge ThreeWayMerge CardDAVBackend DuplicateDetector SyncExport CardDAVAuth Tenancy BackupRestore Worker Pipelines CardDAVClient GoogleProvider Scheduling Exporter
begin

text \<open>
  Verification of ContactsHQ, a self-hosted contact server: a REST API and a CardDAV server over one
  database, with synchronisation to other servers. This development models the Go code under
  \<^verbatim>\<open>src/internal\<close> that decides what happens to a user's contacts and who may reach them.

  \<^bold>\<open>The program.\<close> A contact is one vCard text with columns and child rows parsed from it
  (\<^verbatim>\<open>internal/vcard\<close>, \<^verbatim>\<open>internal/domain\<close>). The repositories (\<^verbatim>\<open>internal/repository\<close>) write it in one
  transaction and keep a change journal, which CardDAV clients follow (\<^verbatim>\<open>internal/carddav\<close>). The services
  (\<^verbatim>\<open>internal/service\<close>) edit, import, merge and deduplicate contacts and hold the accounts. The sync
  engine (\<^verbatim>\<open>internal/sync\<close>) reconciles an address book with a remote provider, merging cards three ways
  and recording conflicts that the conflict service lets the user settle.

  \<^bold>\<open>How the code is represented.\<close> Go strings are byte lists; \<^verbatim>\<open>strings\<close>, \<^verbatim>\<open>strconv\<close> and
  \<^verbatim>\<open>unicode/utf8\<close> are in \<open>Prelude\<close> and \<open>GoInt\<close>. A Go map is an association list with distinct keys, and where
  the code iterates over one, the order is an argument. A database program is a function
  \<open>world \<Rightarrow> ('e + 'a) \<times> world\<close> (\<open>Database\<close>): the world holds the tables, the remote cards, the clock, the
  uuids still to be drawn and a list that says which of the next statements fail, so that every theorem
  about a program covers a failure at any statement. Errors are values of one datatype per component.
  \<open>ProgLogic\<close> has the loops and the program logic: triples with a postcondition for errors, assertions kept
  by programs, and the programs that only read.

  Code outside the repository is a parameter. \<open>GoVCard\<close> gathers it in the record \<open>lib\<close> (the go-vcard
  decoder and accessors, SHA-256, the Unicode case tables); JWT, Argon2id, \<^verbatim>\<open>ConditionalMatch\<close> of go-webdav and the
  JSON encoder are arguments of the definitions that call them, and the theorems name what they need of
  them (\<open>jwt_roundtrip\<close>, \<open>get_is_first\<close>). \<open>table_lib\<close> is a decoder given by a table, for the closed examples.

  \<^bold>\<open>Theories.\<close>
  \<^item> \<open>VCardText\<close>: \<^verbatim>\<open>vcard/split.go\<close>, \<^verbatim>\<open>terminate.go\<close>. Splitting a stream of cards undoes writing one; the UID line
    lands before the end line on ASCII text, and at the wrong place beyond it.
  \<^item> \<open>VCardEncode\<close>: \<^verbatim>\<open>vcard/encoder.go\<close>. Escaping is undone by unescaping, one line per field, the text does
    not depend on map order, and a stream of encoded cards splits back.
  \<^item> \<open>VCardParse\<close>: \<^verbatim>\<open>vcard/parser.go\<close>, \<^verbatim>\<open>builder.go\<close>, \<^verbatim>\<open>merge.go\<close>, \<^verbatim>\<open>domain_helper.go\<close>. An edit through
    the form keeps every property the form does not manage.
  \<^item> \<open>VCardMerge\<close>: \<^verbatim>\<open>vcard/merge_cards.go\<close>. The merged card has exactly the selected values.
  \<^item> \<open>ThreeWayMerge\<close>: \<^verbatim>\<open>sync/merger.go\<close>, against the specification \<open>merge3\<close> of one value.
  \<^item> \<open>Database\<close>, \<open>ContactRepository\<close>, \<open>ChangeFeed\<close>: \<^verbatim>\<open>repository/bun_contact*.go\<close>, \<^verbatim>\<open>bun_addressbook.go\<close>,
    \<^verbatim>\<open>change_journal.go\<close>. Saving is all or nothing; the locale \<open>change_feed\<close> says what a journal promises a
    client, is interpreted on the tables and their writes, and gives that a client that polls converges.
  \<^item> \<open>CardDAVBackend\<close>: \<^verbatim>\<open>carddav/backend.go\<close>, \<^verbatim>\<open>sync_collection.go\<close>. A conditional PUT loses no update, sync
    tokens round trip and foreign ones are refused.
  \<^item> \<open>EditDistance\<close>, \<open>DuplicateDetector\<close>: \<^verbatim>\<open>service/duplicate_detector.go\<close>. The one-row table computes the edit
    distance; a scan records exactly the pairs above the threshold, keeps decided ones, one scan per user.
  \<^item> \<open>SyncStore\<close>, \<open>SyncEngine\<close>, \<open>SyncProvider\<close>, \<open>SyncSafety\<close>, \<open>SyncExport\<close>: \<^verbatim>\<open>sync/engine.go\<close>,
    \<^verbatim>\<open>internal_provider.go\<close>, \<^verbatim>\<open>repository/bun_sync*.go\<close>. The locales \<open>cursor_store\<close>, \<open>card_view\<close> (cards that writes to the tables of the engine leave alone),
    \<open>sync_provider\<close> and \<open>etag_remote\<close> (a remote whose conditional writes are refused when the entity tag moved) are the
    interfaces of the engine; the internal address book is interpreted as a provider with every statement
    failing at will, and the CardDAV client of \<open>CardDAVClient\<close> as a remote. Import keeps local edits, a mass deletion
    is refused, and a settled import changes nothing; that export keeps the edits of a server is in \<open>CardDAVClient\<close>.
  \<^item> \<open>AuthThrottle\<close>, \<open>PasswordHash\<close>, \<open>Accounts\<close>, \<open>CardDAVAuth\<close>: \<^verbatim>\<open>carddav/throttle.go\<close>, \<^verbatim>\<open>authcache.go\<close>,
    \<^verbatim>\<open>auth.go\<close>, \<^verbatim>\<open>service/auth.go\<close>, \<^verbatim>\<open>user.go\<close>, \<^verbatim>\<open>app_password.go\<close>. Requests in flight are interleaved by the
    relation \<open>auth_sys\<close>; what opens the mount was verified, repeated refusals block, the tables stay bounded.
  \<^item> \<open>ContactService\<close>, \<open>MergeService\<close>, \<open>ConflictService\<close>, \<open>Tenancy\<close>: \<^verbatim>\<open>service/contact.go\<close>,
    \<^verbatim>\<open>contact_fields.go\<close>, \<^verbatim>\<open>importer.go\<close>, \<^verbatim>\<open>merge_service.go\<close>, \<^verbatim>\<open>sync_conflict.go\<close>. A merge is all or nothing, a
    resolution does what it answers, and no sequence of requests of other users on contacts, imports, merges, conflicts and
    CardDAV objects (the datatype of requests in \<open>Tenancy\<close>) reaches the contacts of an account.

  \<^item> \<open>Exporter\<close>: \<^verbatim>\<open>service/exporter.go\<close>, with the CSV writer and reader of the standard library. An exported CSV file
    is read back as it was written.
  \<^item> \<open>FileStore\<close>, \<open>Backup\<close>, \<open>BackupRestore\<close>: \<^verbatim>\<open>service/backup.go\<close> and its tables on a file system whose calls can
    fail. A path stays in the directory of its user, retention keeps the newest of the service's own files that can be listed (a file whose
    \<^verbatim>\<open>entry.Info\<close> fails is not) and no others go, a restore brings back what the backup held, and one that fails before it deletes keeps the contacts.
  \<^item> \<open>Worker\<close>: \<^verbatim>\<open>worker/goroutine_worker.go\<close> as steps of goroutines on the shared queue and channels. Every accepted
    job is queued, in hand or run; a shutdown ends (the locale \<open>measured_steps\<close>, interpreted on the pool).
  \<^item> \<open>Pipelines\<close>: \<^verbatim>\<open>sync/endpoint.go\<close>, \<^verbatim>\<open>sync/pipeline.go\<close>, \<^verbatim>\<open>service/pipeline.go\<close> and the tables of pipelines and
    connections. A run hands its constructors only endpoints the policy allows, with credentials of the owner: two networks that
    answer alike at the allowed endpoints, and wherever discovery leads from there (\<open>same_where_allowed\<close>), give the same run. The
    constructors are those of \<open>CardDAVClient\<close>; the client of the People API is a parameter.
  \<^item> \<open>CardDAVClient\<close>, \<open>GoogleProvider\<close>: \<^verbatim>\<open>sync/carddav_client.go\<close>, \<^verbatim>\<open>google_mapper.go\<close>, \<^verbatim>\<open>google_provider.go\<close>. Discovery only
    fails on a URL that cannot be read. \<open>carddav_server\<close> says what go-webdav and a server promise for objects filed under their UID; from it
    follows that an export keeps the edits made at the server. A date of the People API survives the way through text, and
    listing collects every page.
  \<^item> \<open>Jobs\<close>, \<open>Scheduling\<close>: \<^verbatim>\<open>worker/jobs\<close>, \<^verbatim>\<open>worker/scheduler.go\<close>, \<^verbatim>\<open>cmd/server/startup.go\<close> and the requests on pipelines,
    credentials and connections (\<^verbatim>\<open>handler/pipeline_handler.go\<close>, \<^verbatim>\<open>credential_handler.go\<close>, \<^verbatim>\<open>sync_handler.go\<close>). A sync
    triggered by hand stays within the policy, a start asks the worker once for each overdue backup of a regular schedule (the worker may
    refuse, its queue holds a hundred), and the scheduler mirrors the table of pipelines but for schedules gocron refuses (the relation
    \<open>server\<close>, by rule induction).

  \<^bold>\<open>Bounds.\<close> Loops of the code are over slices, or their recursion has a termination proof. The exception is the listing at
  Google, which goes on as long as the API names a next page: \<open>list_pages\<close> takes a number of pages and answers \<open>None\<close>
  beyond it, and as many as the API serves are enough (\<open>listConnections_complete\<close>). Sequence numbers are Go
  \<^verbatim>\<open>int64\<close> and grow by one per write, so they are \<open>int\<close>; the dates of Google are parsed with the wrap-around of \<^verbatim>\<open>int64\<close>;
  hash parameters, which are read from text, are machine words.

  \<^bold>\<open>Defects found.\<close> Each is stated as a theorem where it can be, and listed with the manifest: an
  automatic merge and a manual resolution are undone by the next import (the content hash stored is not
  that of the remote card), a merge leaves the sync state of the contact it removed, a first poll torn by
  a concurrent creation keeps a deleted contact, a verdict computed before a revocation is cached after it;
  two servers of one kind in a pipeline delete each other's contacts, incremental deletions are lost on servers with other
  file names, DNS discovery hands the password to an endpoint nobody checked, an accepted job can be lost in a shutdown,
  connecting a server overwrites a stored credential, and an update of a pipeline that fails halfway leaves it
  without steps.

  \<^bold>\<open>Not modelled.\<close> The other HTTP handlers, middleware and the XML text of CardDAV answers (glue around the
  functions modelled here); the list and search queries with their filters (SQL text); the OAuth exchange with Google, the
  command line, configuration, logging and migrations.
\<close>

end
